(* ===== verification/Utf8.thy ===== *)
theory Utf8
  imports Naatre_Prelude
begin

text \<open>
  UTF-8 as Rust's \<open>String::from_utf8\<close> and \<open>str::char_indices\<close> read it (Unicode 15, table
  3-7: shortest form only, no surrogates, nothing above 10FFFF). A \<open>str\<close> of the source is a
  byte string on which \<open>utf8_valid\<close> holds; a \<open>char\<close> is a natural number, its scalar value.
\<close>

section \<open>Decoding one scalar value\<close>

definition is_cont :: "byte \<Rightarrow> bool" where
  "is_cont b \<longleftrightarrow> 128 \<le> unat b \<and> unat b < 192"

definition cont_bits :: "byte \<Rightarrow> nat" where
  "cont_bits b = unat b - 128"

definition is_scalar :: "nat \<Rightarrow> bool" where
  "is_scalar c \<longleftrightarrow> c < 55296 \<or> 57344 \<le> c \<and> c < 1114112"

text \<open>The scalar at the front of the input and its width in bytes; \<open>None\<close> if there is none.\<close>

fun utf8_two :: "nat \<Rightarrow> bytes \<Rightarrow> (nat \<times> nat) option" where
  "utf8_two n (b1 # _) =
     (let c = (n - 192) * 64 + cont_bits b1 in
      if is_cont b1 \<and> 128 \<le> c then Some (c, 2) else None)"
| "utf8_two n _ = None"

fun utf8_three :: "nat \<Rightarrow> bytes \<Rightarrow> (nat \<times> nat) option" where
  "utf8_three n (b1 # b2 # _) =
     (let c = (n - 224) * 4096 + cont_bits b1 * 64 + cont_bits b2 in
      if is_cont b1 \<and> is_cont b2 \<and> 2048 \<le> c \<and> is_scalar c then Some (c, 3) else None)"
| "utf8_three n _ = None"

fun utf8_four :: "nat \<Rightarrow> bytes \<Rightarrow> (nat \<times> nat) option" where
  "utf8_four n (b1 # b2 # b3 # _) =
     (let c = (n - 240) * 262144 + cont_bits b1 * 4096 + cont_bits b2 * 64 + cont_bits b3 in
      if is_cont b1 \<and> is_cont b2 \<and> is_cont b3 \<and> 65536 \<le> c \<and> is_scalar c
      then Some (c, 4) else None)"
| "utf8_four n _ = None"

fun utf8_head :: "bytes \<Rightarrow> (nat \<times> nat) option" where
  "utf8_head [] = None"
| "utf8_head (b0 # rest) =
     (let n = unat b0 in
      if n < 128 then Some (n, 1)
      else if 192 \<le> n \<and> n < 224 then utf8_two n rest
      else if 224 \<le> n \<and> n < 240 then utf8_three n rest
      else if 240 \<le> n \<and> n < 248 then utf8_four n rest
      else None)"

lemma utf8_two_Some: "utf8_two n r = Some (c, w) \<Longrightarrow> w = 2 \<and> 1 \<le> length r \<and> utf8_two n (r @ s) = Some (c, w)"
  by (cases r) (auto simp: Let_def split: if_splits)

lemma utf8_three_Some:
  "utf8_three n r = Some (c, w) \<Longrightarrow> w = 3 \<and> 2 \<le> length r \<and> utf8_three n (r @ s) = Some (c, w)"
  by (induction n r rule: utf8_three.induct) (auto simp: Let_def split: if_splits)

lemma utf8_four_Some:
  "utf8_four n r = Some (c, w) \<Longrightarrow> w = 4 \<and> 3 \<le> length r \<and> utf8_four n (r @ s) = Some (c, w)"
  by (induction n r rule: utf8_four.induct) (auto simp: Let_def split: if_splits)

lemmas utf8_multi_Some = utf8_two_Some utf8_three_Some utf8_four_Some

lemma utf8_head_width:
  "utf8_head bs = Some (c, w) \<Longrightarrow> 0 < w \<and> w \<le> length bs"
  by (cases bs) (auto simp: Let_def dest: utf8_multi_Some split: if_splits)

section \<open>Whole strings\<close>

text \<open>
  \<open>char_indices_from i bs\<close>: the scalars of the string with the byte index of each, counting
  from \<open>i\<close>; \<open>None\<close> when the bytes are not valid UTF-8.
\<close>

function char_indices_from :: "nat \<Rightarrow> bytes \<Rightarrow> (nat \<times> nat) list option" where
  "char_indices_from i bs =
     (if bs = [] then Some []
      else (case utf8_head bs of
              None \<Rightarrow> None
            | Some (c, w) \<Rightarrow> map_option ((#) (i, c)) (char_indices_from (i + w) (drop w bs))))"
  by pat_completeness auto
termination
  by (relation "measure (\<lambda>(i, bs). length bs)") (auto dest: utf8_head_width)

declare char_indices_from.simps [simp del]

text \<open>\<open>String::from_utf8(\<dots>).is_ok()\<close> and \<open>str::char_indices\<close> (of a valid string).\<close>

definition utf8_valid :: "bytes \<Rightarrow> bool" where
  "utf8_valid bs \<longleftrightarrow> char_indices_from 0 bs \<noteq> None"

definition char_indices :: "bytes \<Rightarrow> (nat \<times> nat) list" where
  "char_indices bs = (case char_indices_from 0 bs of None \<Rightarrow> [] | Some cs \<Rightarrow> cs)"

text \<open>The scalar value's own encoding, \<open>char::encode_utf8\<close>.\<close>

definition utf8_encode_char :: "nat \<Rightarrow> bytes" where
  "utf8_encode_char c =
     (if c < 128 then [word_of_nat c]
      else if c < 2048 then [word_of_nat (192 + c div 64), word_of_nat (128 + c mod 64)]
      else if c < 65536 then
        [word_of_nat (224 + c div 4096), word_of_nat (128 + c div 64 mod 64),
         word_of_nat (128 + c mod 64)]
      else
        [word_of_nat (240 + c div 262144), word_of_nat (128 + c div 4096 mod 64),
         word_of_nat (128 + c div 64 mod 64), word_of_nat (128 + c mod 64)])"

lemma char_indices_from_Nil [simp]: "char_indices_from i [] = Some []"
  by (simp add: char_indices_from.simps)

lemma char_indices_from_head:
  "utf8_head bs = Some (c, w) \<Longrightarrow>
     char_indices_from i bs = map_option ((#) (i, c)) (char_indices_from (i + w) (drop w bs))"
  using utf8_head_width [of bs c w] by (subst char_indices_from.simps) auto

lemma utf8_head_append:
  "utf8_head bs = Some (c, w) \<Longrightarrow> utf8_head (bs @ cs) = Some (c, w)"
  by (cases bs) (auto simp: Let_def dest: utf8_multi_Some split: if_splits)

lemma utf8_head_ascii [simp]: "unat b < 128 \<Longrightarrow> utf8_head (b # bs) = Some (unat b, 1)"
  by simp

lemma char_indices_from_shift:
  "char_indices_from (i + k) bs = map_option (map (\<lambda>(j, c). (j + k, c))) (char_indices_from i bs)"
proof (induction i bs rule: char_indices_from.induct)
  case (1 i bs)
  show ?case
  proof (cases "bs = [] \<or> utf8_head bs = None")
    case True
    then show ?thesis by (auto simp: char_indices_from.simps)
  next
    case False
    then obtain c w where h: "utf8_head bs = Some (c, w)" by auto
    with False "1" have "char_indices_from (i + w + k) (drop w bs) =
        map_option (map (\<lambda>(j, c). (j + k, c))) (char_indices_from (i + w) (drop w bs))"
      by simp
    then show ?thesis
      by (simp add: char_indices_from_head [OF h] option.map_comp comp_def add.commute
          add.left_commute)
  qed
qed

lemma char_indices_from_append:
  "char_indices_from i xs = Some cs \<Longrightarrow>
     char_indices_from i (xs @ ys) = map_option ((@) cs) (char_indices_from (i + length xs) ys)"
proof (induction i xs arbitrary: cs rule: char_indices_from.induct)
  case (1 i xs)
  show ?case
  proof (cases "xs = []")
    case True
    with "1.prems" show ?thesis by (simp add: option.map_ident)
  next
    case False
    with "1.prems" obtain c w cs' where h: "utf8_head xs = Some (c, w)"
      and r: "char_indices_from (i + w) (drop w xs) = Some cs'" and cs: "cs = (i, c) # cs'"
      by (subst (asm) char_indices_from.simps) (auto split: option.splits prod.splits)
    from utf8_head_width [OF h] have w: "w \<le> length xs" by simp
    from "1.IH" [OF False h _ r] h have
      "char_indices_from (i + w) (drop w xs @ ys) =
         map_option ((@) cs') (char_indices_from (i + w + length (drop w xs)) ys)" by simp
    then show ?thesis
      using w by (simp add: char_indices_from_head [OF utf8_head_append [OF h]] cs
          option.map_comp comp_def)
  qed
qed

lemma utf8_valid_Nil [simp]: "utf8_valid []"
  by (simp add: utf8_valid_def)

lemma utf8_valid_from: "utf8_valid bs \<longleftrightarrow> char_indices_from i bs \<noteq> None"
  using char_indices_from_shift [of 0 i bs] by (simp add: utf8_valid_def)

lemma utf8_valid_append_iff:
  assumes "utf8_valid xs" shows "utf8_valid (xs @ ys) \<longleftrightarrow> utf8_valid ys"
proof -
  from assms obtain cs where "char_indices_from 0 xs = Some cs" by (auto simp: utf8_valid_def)
  from char_indices_from_append [OF this, of ys] show ?thesis
    by (simp add: utf8_valid_def [of "xs @ ys"] utf8_valid_from [of ys "length xs"])
qed

lemma utf8_valid_append [intro]: "utf8_valid xs \<Longrightarrow> utf8_valid ys \<Longrightarrow> utf8_valid (xs @ ys)"
  by (simp add: utf8_valid_append_iff)

lemma utf8_valid_ascii_Cons: "unat b < 128 \<Longrightarrow> utf8_valid (b # bs) \<longleftrightarrow> utf8_valid bs"
  by (subst utf8_valid_from [of bs 1])
    (simp add: utf8_valid_def char_indices_from_head [OF utf8_head_ascii])

lemma utf8_valid_all_ascii: "\<forall>b \<in> set bs. unat b < 128 \<Longrightarrow> utf8_valid bs"
  by (induction bs) (simp_all add: utf8_valid_ascii_Cons)

section \<open>Cutting at an ASCII byte\<close>

lemma not_cont_ascii [simp]: "unat b < 128 \<Longrightarrow> \<not> is_cont b"
  by (simp add: is_cont_def)

lemma utf8_two_cut: "utf8_two n (xs @ c # ys) = Some r \<Longrightarrow> unat c < 128 \<Longrightarrow> utf8_two n xs = Some r"
  by (cases xs) (auto simp: Let_def split: if_splits)

lemma utf8_three_cut: "utf8_three n (xs @ c # ys) = Some r \<Longrightarrow> unat c < 128 \<Longrightarrow> utf8_three n xs = Some r"
  by (cases "(n, xs)" rule: utf8_three.cases) (auto simp: Let_def neq_Nil_conv Cons_eq_append_conv split: if_splits elim!: utf8_three.elims)

lemma utf8_four_cut: "utf8_four n (xs @ c # ys) = Some r \<Longrightarrow> unat c < 128 \<Longrightarrow> utf8_four n xs = Some r"
  by (cases "(n, xs)" rule: utf8_four.cases) (auto simp: Let_def neq_Nil_conv Cons_eq_append_conv split: if_splits elim!: utf8_four.elims)

lemma utf8_head_cut:
  "utf8_head (xs @ c # ys) = Some (ch, w) \<Longrightarrow> unat c < 128 \<Longrightarrow> xs \<noteq> [] \<Longrightarrow> utf8_head xs = Some (ch, w)"
  by (cases xs) (auto simp: Let_def dest: utf8_two_cut utf8_three_cut utf8_four_cut split: if_splits)

lemma utf8_valid_cut:
  assumes "utf8_valid (xs @ c # ys)" and "unat c < 128"
  shows "utf8_valid xs" and "utf8_valid ys"
proof -
  have "utf8_valid xs" using assms
  proof (induction "length xs" arbitrary: xs rule: less_induct)
    case less
    show ?case
    proof (cases "xs = []")
      case False
      from less.prems(1) obtain ch w where h: "utf8_head (xs @ c # ys) = Some (ch, w)"
        by (cases xs) (auto simp: utf8_valid_def char_indices_from.simps [of 0 "_ # _"] simp del: utf8_head.simps split: option.splits)
      from utf8_head_cut [OF h less.prems(2) False] have hx: "utf8_head xs = Some (ch, w)" .
      from utf8_head_width [OF hx] have w: "0 < w" "w \<le> length xs" by auto
      have "utf8_valid (drop w (xs @ c # ys))"
        using less.prems(1) unfolding utf8_valid_from [of "drop w (xs @ c # ys)" w]
        unfolding utf8_valid_def char_indices_from_head [OF h] by (simp only: option.map_disc_iff add_0 not_False_eq_True)
      then have "utf8_valid (drop w xs)" using w less.hyps [of "drop w xs"] less.prems(2) False by simp
      then show ?thesis
        unfolding utf8_valid_from [of "drop w xs" w]
        unfolding utf8_valid_def char_indices_from_head [OF hx] by (simp only: option.map_disc_iff add_0 not_False_eq_True)
    qed simp
  qed
  then show "utf8_valid xs" .
  from utf8_valid_append_iff [OF this, of "c # ys"] assms show "utf8_valid ys"
    by (simp add: utf8_valid_ascii_Cons)
qed

text \<open>The scalars of a string.\<close>

definition chars :: "bytes \<Rightarrow> nat set" where
  "chars bs = snd ` set (char_indices bs)"

lemma chars_append:
  assumes "utf8_valid xs" "utf8_valid ys"
  shows "chars (xs @ ys) = chars xs \<union> chars ys"
proof -
  from assms obtain cs ds where cs: "char_indices_from 0 xs = Some cs" and ds: "char_indices_from 0 ys = Some ds"
    by (auto simp: utf8_valid_def)
  have "char_indices_from (length xs) ys = Some (map (\<lambda>(j, c). (j + length xs, c)) ds)"
    using char_indices_from_shift [of 0 "length xs" ys] ds by simp
  then have "chars (xs @ ys) = snd ` set (cs @ map (\<lambda>(j, c). (j + length xs, c)) ds)"
    using char_indices_from_append [OF cs, of ys] by (simp add: chars_def char_indices_def)
  then show ?thesis using cs ds by (auto simp: chars_def char_indices_def image_Un image_image split_beta)
qed

lemma split_on_chars:
  assumes "utf8_valid p" and "unat s < 128" and "q \<in> set (split_on s p)"
  shows "utf8_valid q" and "chars q \<subseteq> chars p"
proof -
  have "utf8_valid q \<and> chars q \<subseteq> chars p" using assms
  proof (induction "length p" arbitrary: p rule: less_induct)
    case (less p)
    show ?case
    proof (cases "s \<in> set p")
      case True
      then obtain xs ys where p: "p = xs @ s # ys" and xs: "s \<notin> set xs" using split_list_first by fastforce
      from utf8_valid_cut [OF less.prems(1) [unfolded p] less.prems(2)]
      have v: "utf8_valid xs" "utf8_valid ys" by auto
      have vs: "utf8_valid [s]" using less.prems(2) by (simp add: utf8_valid_ascii_Cons)
      have "chars p = chars xs \<union> chars ([s] @ ys)"
        using v vs chars_append [OF v(1), of "[s] @ ys"] by (metis append_Cons append_Nil p utf8_valid_append)
      then have "chars xs \<subseteq> chars p" "chars ys \<subseteq> chars p" using chars_append [OF vs v(2)] by auto
      moreover have "q = xs \<or> q \<in> set (split_on s ys)" using less.prems(3) xs by (simp add: p split_on_append)
      moreover have "q \<in> set (split_on s ys) \<Longrightarrow> utf8_valid q \<and> chars q \<subseteq> chars ys"
        using less.hyps [of ys] v less.prems(2) by (simp add: p)
      ultimately show ?thesis using v by blast
    qed (use less.prems in \<open>simp add: split_on_no_sep\<close>)
  qed
  then show "utf8_valid q" and "chars q \<subseteq> chars p" by auto
qed

lemma char_indices_from_ascii:
  "unat b < 128 \<Longrightarrow>
     char_indices_from i (b # bs) = map_option ((#) (i, unat b)) (char_indices_from (Suc i) bs)"
  by (simp add: char_indices_from_head [OF utf8_head_ascii])

end
