(* ===== verification/Path_Grammar.thy ===== *)
theory Path_Grammar
  imports Utf8
begin

text \<open>
  The path grammar (\<open>crates/naatre-core/src/path.rs\<close>): \<open>validate\<close>, \<open>validate_component\<close>,
  \<open>check_case_fold_duplicates\<close> and the two character categories. NFC normalisation is the
  \<open>unicode_normalization\<close> crate's and full Unicode lower-casing is a table of the standard
  library: both are parameters (\<open>nfc\<close>, \<open>lower\<close>) of the definitions that use them.
\<close>

section \<open>Limits, character categories, errors\<close>

definition MAX_COMPONENT_LEN :: nat where "MAX_COMPONENT_LEN = 255"
definition MAX_PATH_LEN :: nat where "MAX_PATH_LEN = 4096"
definition MAX_PATH_COMPONENTS :: nat where "MAX_PATH_COMPONENTS = 256"

definition RESERVED_PREFIXES :: "bytes list" where
  "RESERVED_PREFIXES = [ascii ''.naatre'', ascii ''.git'']"

text \<open>The one-byte characters the grammar names.\<close>

abbreviation slash :: byte where "slash \<equiv> 47"
abbreviation backslash :: byte where "backslash \<equiv> 92"

datatype path_error =
    Empty
  | Absolute
  | Backslash
  | NulByte
  | ControlChar nat
  | NotNormalized
  | ComponentInvalid nat
  | ComponentTooLong nat nat
  | EmptyComponent nat
  | TooManyComponents nat
  | TooLong nat
  | Reserved bytes
  | CaseFoldDuplicate bytes bytes
  | ComponentSlash

text \<open>\<open>char::is_control\<close>: general category Cc.\<close>

definition is_cc :: "nat \<Rightarrow> bool" where
  "is_cc c \<longleftrightarrow> c \<le> 31 \<or> 127 \<le> c \<and> c \<le> 159"

definition is_cf :: "nat \<Rightarrow> bool" where
  "is_cf c \<longleftrightarrow>
     c = 0x00AD \<or> 0x0600 \<le> c \<and> c \<le> 0x0605 \<or> c = 0x061C \<or> c = 0x06DD \<or> c = 0x070F \<or>
     0x0890 \<le> c \<and> c \<le> 0x0891 \<or> c = 0x08E2 \<or> c = 0x180E \<or> 0x200B \<le> c \<and> c \<le> 0x200F \<or>
     0x202A \<le> c \<and> c \<le> 0x202E \<or> 0x2060 \<le> c \<and> c \<le> 0x2064 \<or> 0x2066 \<le> c \<and> c \<le> 0x206F \<or>
     c = 0xFEFF \<or> 0xFFF9 \<le> c \<and> c \<le> 0xFFFB \<or> c = 0x110BD \<or> c = 0x110CD \<or>
     0x13430 \<le> c \<and> c \<le> 0x1343F \<or> 0x1BCA0 \<le> c \<and> c \<le> 0x1BCA3 \<or>
     0x1D173 \<le> c \<and> c \<le> 0x1D17A \<or> c = 0xE0001 \<or> 0xE0020 \<le> c \<and> c \<le> 0xE007F"

section \<open>Validation\<close>

text \<open>The loop over \<open>char_indices\<close>: the byte index of the first forbidden character.\<close>

fun check_chars :: "(nat \<times> nat) list \<Rightarrow> path_error + unit" where
  "check_chars [] = Inr ()"
| "check_chars ((index, c) # cs) =
     (if is_cc c \<or> is_cf c then Inl (ControlChar index) else check_chars cs)"

text \<open>The loop over the components, with its running index; the result is their number.\<close>

fun check_components :: "nat \<Rightarrow> bytes list \<Rightarrow> path_error + nat" where
  "check_components index [] = Inr index"
| "check_components index (component # rest) =
     (if component = ascii ''.'' \<or> component = ascii ''..'' then Inl (ComponentInvalid index)
      else if length component > MAX_COMPONENT_LEN
        then Inl (ComponentTooLong index (length component))
      else if component = [] then Inl (EmptyComponent index)
      else check_components (Suc index) rest)"

definition validate :: "(bytes \<Rightarrow> bytes) \<Rightarrow> bytes \<Rightarrow> path_error + unit" where
  "validate nfc path =
     (if path = [] then Inl Empty
      else if hd path = slash then Inl Absolute
      else if backslash \<in> set path then Inl Backslash
      else if 0 \<in> set path then Inl NulByte
      else rbind (check_chars (char_indices path)) (\<lambda>_.
        if nfc path \<noteq> path then Inl NotNormalized
        else rbind (check_components 0 (split_on slash path)) (\<lambda>components.
          if components > MAX_PATH_COMPONENTS then Inl (TooManyComponents components)
          else if length path > MAX_PATH_LEN then Inl (TooLong (length path))
          else (case List.find (\<lambda>p. p = hd (split_on slash path)) RESERVED_PREFIXES of
                  Some prefix \<Rightarrow> Inl (Reserved prefix)
                | None \<Rightarrow> Inr ()))))"

definition validate_component :: "(bytes \<Rightarrow> bytes) \<Rightarrow> bytes \<Rightarrow> path_error + unit" where
  "validate_component nfc name =
     (if name = [] then Inl Empty
      else if slash \<in> set name then Inl ComponentSlash
      else if backslash \<in> set name then Inl Backslash
      else if 0 \<in> set name then Inl NulByte
      else rbind (check_chars (char_indices name)) (\<lambda>_.
        if nfc name \<noteq> name then Inl NotNormalized
        else if name = ascii ''.'' \<or> name = ascii ''..'' then Inl (ComponentInvalid 0)
        else if length name > MAX_COMPONENT_LEN
          then Inl (ComponentTooLong 0 (length name))
        else Inr ()))"

text \<open>
  The key of the case-fold map: the directory and the lower-cased last component. The map
  \<open>seen\<close> holds, per key, the path that last had it; a path whose key is taken ends the loop.
\<close>

definition fold_key :: "(bytes \<Rightarrow> bytes) \<Rightarrow> bytes \<Rightarrow> bytes \<times> bytes" where
  "fold_key lower path =
     (case rsplit_once slash path of
        Some (dir, name) \<Rightarrow> (dir, lower name)
      | None \<Rightarrow> ([], lower path))"

fun case_fold_loop ::
    "(bytes \<Rightarrow> bytes) \<Rightarrow> (bytes \<times> bytes \<rightharpoonup> bytes) \<Rightarrow> bytes list \<Rightarrow> path_error + unit" where
  "case_fold_loop lower seen [] = Inr ()"
| "case_fold_loop lower seen (path # paths) =
     (case seen (fold_key lower path) of
        Some prev \<Rightarrow> Inl (CaseFoldDuplicate prev path)
      | None \<Rightarrow> case_fold_loop lower (seen(fold_key lower path \<mapsto> path)) paths)"

definition check_case_fold_duplicates :: "(bytes \<Rightarrow> bytes) \<Rightarrow> bytes list \<Rightarrow> path_error + unit" where
  "check_case_fold_duplicates lower paths = case_fold_loop lower Map.empty paths"

section \<open>What the loops decide\<close>

lemma check_chars_Ok:
  "check_chars cs = Inr () \<longleftrightarrow> (\<forall>(i, c) \<in> set cs. \<not> is_cc c \<and> \<not> is_cf c)"
  by (induction cs rule: check_chars.induct) auto

definition component_ok :: "bytes \<Rightarrow> bool" where
  "component_ok component \<longleftrightarrow>
     component \<noteq> [] \<and> component \<noteq> ascii ''.'' \<and> component \<noteq> ascii ''..'' \<and>
     length component \<le> MAX_COMPONENT_LEN"

lemma check_components_Ok:
  "check_components i cs = Inr n \<longleftrightarrow> n = i + length cs \<and> (\<forall>c \<in> set cs. component_ok c)"
  by (induction i cs rule: check_components.induct) (auto simp: component_ok_def)

lemma find_reserved_Some:
  "(case List.find (\<lambda>p. p = x) RESERVED_PREFIXES of
      Some prefix \<Rightarrow> Inl (Reserved prefix) | None \<Rightarrow> Inr ()) = Inr () \<longleftrightarrow>
     x \<notin> set RESERVED_PREFIXES"
  by (simp add: RESERVED_PREFIXES_def split: if_splits)

lemma validate_Ok_iff:
  "validate nfc p = Inr () \<longleftrightarrow>
     p \<noteq> [] \<and> hd p \<noteq> slash \<and> backslash \<notin> set p \<and> 0 \<notin> set p \<and>
     (\<forall>(i, c) \<in> set (char_indices p). \<not> is_cc c \<and> \<not> is_cf c) \<and> nfc p = p \<and>
     (\<forall>c \<in> set (split_on slash p). component_ok c) \<and>
     length (split_on slash p) \<le> MAX_PATH_COMPONENTS \<and> length p \<le> MAX_PATH_LEN \<and>
     hd (split_on slash p) \<notin> set RESERVED_PREFIXES"
  unfolding validate_def
  by (simp add: result_simps check_chars_Ok check_components_Ok find_reserved_Some
      split del: if_split split: option.splits) (auto simp: not_less)

lemma case_fold_loop_Ok:
  "case_fold_loop lower seen ps = Inr () \<longleftrightarrow>
     distinct (map (fold_key lower) ps) \<and> (\<forall>p \<in> set ps. seen (fold_key lower p) = None)"
proof (induction ps arbitrary: seen)
  case (Cons p ps)
  then show ?case by (cases "seen (fold_key lower p)") (auto simp: image_iff)
qed simp

text \<open>
  The error names the first collision: the paths before the second one have pairwise
  different keys, and the first one is among them.
\<close>

lemma case_fold_loop_Err:
  assumes "case_fold_loop lower seen ps = Inl e"
    and "\<forall>k q. seen k = Some q \<longleftrightarrow> q \<in> set qs \<and> fold_key lower q = k"
    and "distinct (map (fold_key lower) qs)"
  shows "\<exists>a b xs ys zs. e = CaseFoldDuplicate a b \<and> qs @ ps = xs @ a # ys @ b # zs \<and>
           fold_key lower a = fold_key lower b \<and> distinct (map (fold_key lower) (xs @ a # ys))"
  using assms
proof (induction ps arbitrary: seen qs)
  case (Cons p ps)
  show ?case
  proof (cases "seen (fold_key lower p)")
    case None
    with Cons.prems(1) have step: "case_fold_loop lower (seen(fold_key lower p \<mapsto> p)) ps = Inl e"
      by simp
    from None Cons.prems(2) have fresh: "\<forall>q \<in> set qs. fold_key lower q \<noteq> fold_key lower p"
      by (metis option.distinct(1))
    have "\<forall>k q. (seen(fold_key lower p \<mapsto> p)) k = Some q \<longleftrightarrow> q \<in> set (qs @ [p]) \<and> fold_key lower q = k"
      using Cons.prems(2) fresh by auto
    moreover have "distinct (map (fold_key lower) (qs @ [p]))"
      using Cons.prems(3) fresh by auto
    ultimately show ?thesis using Cons.IH [OF step, of "qs @ [p]"] by simp
  next
    case (Some prev)
    with Cons.prems(2) have prev: "prev \<in> set qs" "fold_key lower prev = fold_key lower p" by blast+
    then obtain xs ys where qs: "qs = xs @ prev # ys" by (auto simp: in_set_conv_decomp)
    have "e = CaseFoldDuplicate prev p" using Some Cons.prems(1) by simp
    moreover have "qs @ p # ps = xs @ prev # ys @ p # ps" by (simp add: qs)
    moreover have "distinct (map (fold_key lower) (xs @ prev # ys))"
      using Cons.prems(3) by (simp add: qs)
    ultimately show ?thesis using prev(2) by blast
  qed
qed simp

section \<open>Lexical resolution\<close>

text \<open>
  What a file system does with the components of a relative path below a root, symbolic links
  aside: an empty component and \<^verbatim>\<open>.\<close> stay, \<^verbatim>\<open>..\<close> goes up (\<open>None\<close> above the root), any
  other name goes down. The first argument is the stack of directories entered so far.
\<close>

fun lex_resolve :: "bytes list \<Rightarrow> bytes list \<Rightarrow> bytes list option" where
  "lex_resolve stack [] = Some (rev stack)"
| "lex_resolve stack (c # cs) =
     (if c = [] \<or> c = ascii ''.'' then lex_resolve stack cs
      else if c = ascii ''..'' then (case stack of [] \<Rightarrow> None | _ # up \<Rightarrow> lex_resolve up cs)
      else lex_resolve (c # stack) cs)"

lemma lex_resolve_ok:
  "\<forall>c \<in> set cs. component_ok c \<Longrightarrow> lex_resolve stack cs = Some (rev stack @ cs)"
  by (induction cs arbitrary: stack) (auto simp: component_ok_def)

section \<open>Properties\<close>

text \<open>The facts that evaluate \<open>validate\<close> on an ASCII literal.\<close>

lemmas validate_eval = validate_def validate_component_def char_indices_def char_indices_from_ascii
  is_cc_def is_cf_def MAX_COMPONENT_LEN_def MAX_PATH_COMPONENTS_def MAX_PATH_LEN_def
  RESERVED_PREFIXES_def ascii_def

text \<open>C36: a path that \<open>validate\<close> accepts stays below the directory it is resolved against: no
  component goes up or is skipped, so the path denotes the same list of names that it spells,
  at most 256 of them, each of 1 to 255 bytes, and the first is no metadata directory.\<close>

theorem validate_confines:
  assumes "validate nfc p = Inr ()"
  shows "lex_resolve [] (split_on slash p) = Some (split_on slash p) \<and>
    join_with slash (split_on slash p) = p \<and>
    length (split_on slash p) \<le> 256 \<and> (\<forall>c \<in> set (split_on slash p). 1 \<le> length c \<and> length c \<le> 255) \<and>
    hd (split_on slash p) \<noteq> ascii ''.naatre'' \<and> hd (split_on slash p) \<noteq> ascii ''.git''"
proof -
  from assms have ok: "\<forall>c \<in> set (split_on slash p). component_ok c"
    and "length (split_on slash p) \<le> 256" "hd (split_on slash p) \<notin> set RESERVED_PREFIXES"
    by (auto simp: validate_Ok_iff MAX_PATH_COMPONENTS_def)
  with lex_resolve_ok [OF ok, of "[]"] show ?thesis
    by (auto simp: join_split component_ok_def MAX_COMPONENT_LEN_def RESERVED_PREFIXES_def Suc_le_eq)
qed

theorem validate_confines_witness:
  "lex_resolve [] (split_on slash (ascii ''a/b'')) = Some (split_on slash (ascii ''a/b''))"
proof -
  have "validate (\<lambda>x. x) (ascii ''a/b'') = Inr ()" by (simp add: validate_eval)
  from validate_confines [OF this] show ?thesis by simp
qed

text \<open>Every component of a valid path is a valid tree entry name, so the directory listings
  derived from validated changes pass the per-name check of the tree codec. The hypothesis on
  \<open>nfc\<close> is Unicode's: a substring of a normalised string is normalised.\<close>

theorem validate_components:
  assumes "validate nfc p = Inr ()" and "utf8_valid p"
    and "\<And>c. c \<in> set (split_on slash p) \<Longrightarrow> nfc p = p \<Longrightarrow> nfc c = c"
    and "c \<in> set (split_on slash p)"
  shows "validate_component nfc c = Inr ()"
proof -
  have "\<forall>(i, ch) \<in> set (char_indices c). \<not> is_cc ch \<and> \<not> is_cf ch"
    using split_on_chars(2) [OF assms(2) _ assms(4)] assms(1) unfolding validate_Ok_iff chars_def
    by fastforce
  moreover have "slash \<notin> set c" "set c \<subseteq> set p"
    using assms(4) split_on_pieces split_on_set_subset by fast+
  moreover have "component_ok c" "nfc p = p" using assms(1,4) by (auto simp: validate_Ok_iff)
  ultimately show ?thesis using assms
    by (auto simp: validate_component_def check_chars_Ok [THEN iffD2] validate_Ok_iff component_ok_def)
qed

theorem validate_components_witness: "validate_component (\<lambda>x. x) (ascii ''b'') = Inr ()"
proof (rule validate_components [of "\<lambda>x. x" "ascii ''a/b''"])
  show "validate (\<lambda>x. x) (ascii ''a/b'') = Inr ()" by (simp add: validate_eval)
  show "utf8_valid (ascii ''a/b'')" by (rule utf8_valid_all_ascii) (simp add: ascii_def)
  show "ascii ''b'' \<in> set (split_on slash (ascii ''a/b''))" by (simp add: ascii_def)
qed simp

text \<open>\<open>check_case_fold_duplicates\<close> accepts a list of paths exactly if no two of them have
  the same directory and the same lower-cased last component; otherwise it reports the first
  such pair in list order.\<close>

theorem case_fold_verdict:
  "case check_case_fold_duplicates lower ps of
     Inr _ \<Rightarrow> distinct (map (fold_key lower) ps)
   | Inl e \<Rightarrow> \<exists>a b xs ys zs. e = CaseFoldDuplicate a b \<and> ps = xs @ a # ys @ b # zs \<and>
       fold_key lower a = fold_key lower b \<and> distinct (map (fold_key lower) (xs @ a # ys))"
proof (cases "check_case_fold_duplicates lower ps")
  case (Inl e)
  then have "case_fold_loop lower Map.empty ps = Inl e" by (simp add: check_case_fold_duplicates_def)
  from case_fold_loop_Err [OF this, of "[]"] Inl show ?thesis by auto
next
  case (Inr u)
  then have "distinct (map (fold_key lower) ps)"
    by (simp add: check_case_fold_duplicates_def case_fold_loop_Ok)
  with Inr show ?thesis by simp
qed

end
