(* ===== verification/Core_Error.thy ===== *)
theory Core_Error
  imports Path_Grammar
begin

text \<open>
  The crate-wide error type (\<open>crates/naatre-core/src/error.rs\<close>), and the limits the codecs
  share (\<open>changeset.rs\<close>, lines 16 to 21).
\<close>

datatype core_error =
    EncodeUnsorted
  | EncodeTooManyParents
  | EncodeMissingBlob
  | EncodeEmptyChangeset
  | EncodeTooLarge
  | EncodeTooManyEntries
  | EncodeUnsortedConflicts
  | EncodeConflictSides
  | DecodeConflictSides
  | DecodeEmptyConflictSection
  | EncodeExecOnDir
  | DecodeBadMagic
  | DecodeTrailingBytes
  | DecodeUnexpectedEof
  | DecodeTooLarge
  | DecodeInvalidTag byte
  | DecodeInvalidUtf8
  | DecodeLengthOverflow
  | AuthorChar nat
  | MessageChar nat
  | PathErr path_error

definition MAX_OBJECT_BYTES :: nat where "MAX_OBJECT_BYTES = 16 * 1024 * 1024"
definition MAX_PARENTS :: nat where "MAX_PARENTS = 2"
definition MAX_ENTRIES :: nat where "MAX_ENTRIES = 100000"

end
