(* ===== verification/Ids.thy ===== *)
theory Ids
  imports Naatre_Prelude
begin

text \<open>
  Content-addressed object ids (\<open>crates/naatre-core/src/ids.rs\<close>). An id is a list of 32
  bytes (\<open>wf_id\<close>). BLAKE3 is third-party code: the hash is the parameter \<open>blake3\<close> of the
  definitions that use it.
\<close>

unbundle bit_operations_syntax

section \<open>Ids and their hex rendering\<close>

type_synonym oid = bytes

definition wf_id :: "oid \<Rightarrow> bool" where
  "wf_id i \<longleftrightarrow> length i = 32"

definition HEX_DIGITS :: bytes where
  "HEX_DIGITS = ascii ''0123456789abcdef''"

fun to_hex :: "oid \<Rightarrow> bytes" where
  "to_hex [] = []"
| "to_hex (b # bs) =
     HEX_DIGITS ! unat (drop_bit 4 b) # HEX_DIGITS ! unat (b AND 15) # to_hex bs"

definition hex_val :: "byte \<Rightarrow> byte option" where
  "hex_val b =
     (if 48 \<le> b \<and> b \<le> 57 then Some (b - 48)
      else if 97 \<le> b \<and> b \<le> 102 then Some (b - 97 + 10)
      else None)"

text \<open>The loop of \<open>Id::from_hex\<close>: two digits per byte; the first digit that is none ends it.\<close>

fun hex_bytes :: "bytes \<Rightarrow> bytes option" where
  "hex_bytes (h # l # rest) =
     (case hex_val h of
        None \<Rightarrow> None
      | Some vh \<Rightarrow>
          (case hex_val l of
             None \<Rightarrow> None
           | Some vl \<Rightarrow> map_option ((#) (push_bit 4 vh OR vl)) (hex_bytes rest)))"
| "hex_bytes _ = Some []"

definition from_hex :: "bytes \<Rightarrow> oid option" where
  "from_hex s = (if length s \<noteq> 64 then None else hex_bytes s)"

definition is_hex_id :: "bytes \<Rightarrow> bool" where
  "is_hex_id s \<longleftrightarrow> from_hex s \<noteq> None"

section \<open>The versioned, kind-tagged hash domain\<close>

datatype kind = Kind_Blob | Kind_Tree | Kind_Changeset

fun label :: "kind \<Rightarrow> bytes" where
  "label Kind_Blob = ascii ''blob''"
| "label Kind_Tree = ascii ''tree''"
| "label Kind_Changeset = ascii ''changeset''"

definition FORMAT_VERSION :: bytes where
  "FORMAT_VERSION = ascii ''v1''"

definition FORMAT_VERSION_V2 :: bytes where
  "FORMAT_VERSION_V2 = ascii ''v2''"

text \<open>The bytes the hasher is fed, in order.\<close>

definition object_preimage :: "bytes \<Rightarrow> kind \<Rightarrow> bytes \<Rightarrow> bytes" where
  "object_preimage version k payload =
     ascii ''naatre'' @ [0] @ version @ [0] @ label k @ [0] @
     u64_le (word_of_nat (length payload)) @ [0] @ payload"

definition object_id_in :: "(bytes \<Rightarrow> oid) \<Rightarrow> bytes \<Rightarrow> kind \<Rightarrow> bytes \<Rightarrow> oid" where
  "object_id_in blake3 version k payload = blake3 (object_preimage version k payload)"

definition object_id :: "(bytes \<Rightarrow> oid) \<Rightarrow> kind \<Rightarrow> bytes \<Rightarrow> oid" where
  "object_id blake3 k payload = object_id_in blake3 FORMAT_VERSION k payload"

definition object_id_v2 :: "(bytes \<Rightarrow> oid) \<Rightarrow> kind \<Rightarrow> bytes \<Rightarrow> oid" where
  "object_id_v2 blake3 k payload = object_id_in blake3 FORMAT_VERSION_V2 k payload"

section \<open>Hex lemmas\<close>

lemma nibble_induct:
  fixes w :: byte
  assumes "unat w < 16" and "\<forall>n < 16. P (word_of_nat n)"
  shows "P w"
proof -
  have "P (word_of_nat (unat w))" using assms by blast
  then show ?thesis by simp
qed

lemma all_less_16: "(\<forall>n < (16::nat). P n) \<longleftrightarrow>
    P 0 \<and> P 1 \<and> P 2 \<and> P 3 \<and> P 4 \<and> P 5 \<and> P 6 \<and> P 7 \<and> P 8 \<and> P 9 \<and> P 10 \<and> P 11 \<and> P 12 \<and> P 13 \<and>
    P 14 \<and> P 15"
  by (simp add: numeral_eq_Suc All_less_Suc conj_ac)

lemma hex_val_digit: "unat w < 16 \<Longrightarrow> hex_val (HEX_DIGITS ! unat w) = Some w"
  by (erule nibble_induct) (simp add: all_less_16 hex_val_def HEX_DIGITS_def ascii_def)

lemma hex_digit_val:
  assumes "hex_val b = Some v" shows "unat v < 16" and "HEX_DIGITS ! unat v = b"
proof -
  have "48 \<le> unat b \<and> unat b \<le> 57 \<or> 97 \<le> unat b \<and> unat b \<le> 102"
    using assms by (auto simp: hex_val_def word_le_nat_alt split: if_splits)
  then have "unat b \<in> {48,49,50,51,52,53,54,55,56,57,97,98,99,100,101,102}"
    by (simp only: insert_iff empty_iff) arith
  then have "(word_of_nat (unat b) :: byte) \<in>
      word_of_nat ` {48,49,50,51,52,53,54,55,56,57,97,98,99,100,101,102}"
    by (rule imageI)
  then have "b \<in> {48,49,50,51,52,53,54,55,56,57,97,98,99,100,101,102}" by simp
  then have "unat v < 16 \<and> HEX_DIGITS ! unat v = b"
    using assms by (auto simp: hex_val_def HEX_DIGITS_def ascii_def)
  then show "unat v < 16" and "HEX_DIGITS ! unat v = b" by simp_all
qed

lemma nibble_high: "unat (drop_bit 4 b :: byte) < 16"
proof -
  have "unat (drop_bit 4 b) = unat b div 16"
    by (simp add: unat_drop_bit_eq) (simp add: drop_bit_eq_div)
  then show ?thesis using unat_byte_less [of b] by simp
qed

lemma nibble_low: "unat (b AND 15 :: byte) < 16"
proof -
  have "b AND 15 = take_bit 4 b"
    by (simp add: take_bit_eq_mask mask_eq_exp_minus_1)
  then have "unat (b AND 15) = unat b mod 16"
    by (simp add: unsigned_take_bit_eq) (simp add: take_bit_eq_mod)
  then show ?thesis by simp
qed

lemma nibbles_join: "push_bit 4 (drop_bit 4 b) OR (b AND 15) = (b :: byte)"
proof -
  have "b AND 15 = take_bit 4 b"
    by (simp add: take_bit_eq_mask mask_eq_exp_minus_1)
  then show ?thesis
    by (auto intro!: bit_eqI simp: bit_simps)
qed

lemma nibble_word: "unat v < 16 \<Longrightarrow> \<exists>n < 16. (v :: byte) = word_of_nat n"
  by (rule exI [of _ "unat v"]) simp

lemma nibbles_split:
  fixes v w :: byte
  assumes "unat v < 16" and "unat w < 16"
  shows "drop_bit 4 (push_bit 4 v OR w) = v" and "(push_bit 4 v OR w) AND 15 = w"
proof -
  have "\<forall>m < 16. \<forall>n < 16. drop_bit 4 (push_bit 4 (word_of_nat m) OR word_of_nat n) = (word_of_nat m :: byte)"
    and "\<forall>m < 16. \<forall>n < 16. (push_bit 4 (word_of_nat m) OR word_of_nat n) AND 15 = (word_of_nat n :: byte)"
    by (simp_all add: all_less_16)
  then show "drop_bit 4 (push_bit 4 v OR w) = v" and "(push_bit 4 v OR w) AND 15 = w"
    using assms nibble_word [of v] nibble_word [of w] by metis+
qed

lemma length_to_hex [simp]: "length (to_hex i) = 2 * length i"
  by (induction i) simp_all

lemma hex_bytes_to_hex: "hex_bytes (to_hex i) = Some i"
  by (induction i) (simp_all add: hex_val_digit nibble_high nibble_low nibbles_join)

lemma to_hex_hex_bytes: "hex_bytes s = Some i \<Longrightarrow> even (length s) \<Longrightarrow> to_hex i = s \<and> 2 * length i = length s"
proof (induction s arbitrary: i rule: hex_bytes.induct)
  case (1 h l rest)
  then show ?case
    by (auto simp: hex_digit_val nibbles_split simp del: drop_bit_or split: option.splits)
qed auto

lemma to_hex_set: "set (to_hex i) \<subseteq> set HEX_DIGITS"
proof (induction i)
  case (Cons b i)
  have "length HEX_DIGITS = 16" by (simp add: HEX_DIGITS_def ascii_def)
  then show ?case using Cons nibble_high [of b] nibble_low [of b] by simp
qed simp

lemma HEX_DIGITS_set: "b \<in> set HEX_DIGITS \<longleftrightarrow> hex_val b \<noteq> None"
proof
  assume "b \<in> set HEX_DIGITS"
  then show "hex_val b \<noteq> None" by (auto simp: HEX_DIGITS_def ascii_def hex_val_def)
next
  assume "hex_val b \<noteq> None"
  then obtain v where "hex_val b = Some v" by auto
  have len: "length HEX_DIGITS = 16" by (simp add: HEX_DIGITS_def ascii_def)
  from hex_digit_val [OF \<open>hex_val b = Some v\<close>] show "b \<in> set HEX_DIGITS"
    by (metis len nth_mem)
qed

lemma from_hex_to_hex: "wf_id i \<Longrightarrow> from_hex (to_hex i) = Some i"
  by (simp add: from_hex_def wf_id_def hex_bytes_to_hex)

lemma from_hex_Some: "from_hex s = Some i \<Longrightarrow> to_hex i = s \<and> wf_id i"
  using to_hex_hex_bytes [of s i] by (auto simp: from_hex_def wf_id_def split: if_splits)

lemma to_hex_inj: "wf_id i \<Longrightarrow> wf_id j \<Longrightarrow> to_hex i = to_hex j \<Longrightarrow> i = j"
  by (metis from_hex_to_hex option.inject)

section \<open>Properties\<close>

lemma label_inj: "label k @ 0 # p = label l @ 0 # q \<Longrightarrow> k = l \<and> p = q"
  by (cases k; cases l) (simp_all add: ascii_def)

lemma object_preimage_payload:
  assumes "v \<in> {FORMAT_VERSION, FORMAT_VERSION_V2}" and "w \<in> {FORMAT_VERSION, FORMAT_VERSION_V2}"
    and eq: "object_preimage v k p = object_preimage w l q"
  shows "v = w" and "k = l" and "p = q"
proof -
  have "length v = length w"
    using assms(1,2) by (auto simp: FORMAT_VERSION_def FORMAT_VERSION_V2_def ascii_def)
  with eq show "v = w" by (simp add: object_preimage_def)
  with eq have rest: "label k @ 0 # (u64_le (word_of_nat (length p)) @ [0] @ p) =
      label l @ 0 # (u64_le (word_of_nat (length q)) @ [0] @ q)"
    by (simp add: object_preimage_def)
  from label_inj [OF rest] show "k = l" and "p = q" by auto
qed

text \<open>\<open>Id::from_hex\<close> accepts a string exactly if it is the hex rendering of a 32-byte id, and
  then returns that id; in particular upper-case digits and other lengths are refused.\<close>

theorem hex_codec: "from_hex s = Some i \<longleftrightarrow> wf_id i \<and> s = to_hex i"
  using from_hex_to_hex from_hex_Some by blast

text \<open>Domain separation. The bytes that are hashed for an object determine the format
  version, the object kind and the payload: two objects that differ in any of the three never
  feed the hasher the same bytes.\<close>

theorem object_domains_disjoint:
  assumes "v \<in> {FORMAT_VERSION, FORMAT_VERSION_V2}" and "w \<in> {FORMAT_VERSION, FORMAT_VERSION_V2}"
  shows "object_preimage v k p = object_preimage w l q \<longleftrightarrow> v = w \<and> k = l \<and> p = q"
  using object_preimage_payload [OF assms] by blast

theorem object_domains_disjoint_witness:
  "object_preimage FORMAT_VERSION Kind_Changeset [1] \<noteq> object_preimage FORMAT_VERSION_V2 Kind_Changeset [1]"
  using object_domains_disjoint [of FORMAT_VERSION FORMAT_VERSION_V2 Kind_Changeset "[1]" Kind_Changeset "[1]"]
  by (simp add: FORMAT_VERSION_def FORMAT_VERSION_V2_def ascii_def)

end
