(* ===== verification/Codec.thy ===== *)
theory Codec
  imports Core_Error Ids
begin

text \<open>
  The byte cursor of the strict decoders and the string field writer
  (\<open>crates/naatre-core/src/changeset.rs\<close>, \<open>Cursor\<close> and \<open>write_str\<close>).

  A \<open>Cursor\<close> is modelled by its unread input \<open>data[pos..]\<close>, the only thing its methods look
  at; a method that advances returns the rest. The locale \<open>field_codec\<close> is the contract
  between an encoder and the decoder that reads its output back, stated for one field; a
  counted sequence of fields inherits it.
\<close>

section \<open>The cursor\<close>

type_synonym 'a parser = "bytes \<Rightarrow> core_error + 'a \<times> bytes"

definition remaining :: "bytes \<Rightarrow> nat" where
  "remaining r = length r"

definition cur_take :: "nat \<Rightarrow> bytes parser" where
  "cur_take n r =
     (if remaining r < n then Inl DecodeUnexpectedEof else Inr (take n r, drop n r))"

definition cur_take32 :: "oid parser" where
  "cur_take32 r = cur_take 32 r"

definition cur_u8 :: "byte parser" where
  "cur_u8 r = rbind (cur_take 1 r) (\<lambda>(b, r). Inr (hd b, r))"

definition cur_u32_le :: "u32 parser" where
  "cur_u32_le r = rbind (cur_take 4 r) (\<lambda>(b, r). Inr (word_of_nat (le_nat b), r))"

definition cur_u64_le :: "u64 parser" where
  "cur_u64_le r = rbind (cur_take 8 r) (\<lambda>(b, r). Inr (word_of_nat (le_nat b), r))"

definition str_field :: "bytes parser" where
  "str_field r =
     rbind (cur_u64_le r) (\<lambda>(n, r).
       let len = unat n in
       if len > MAX_OBJECT_BYTES then Inl DecodeLengthOverflow
       else if len > remaining r then Inl DecodeTooLarge
       else rbind (cur_take len r) (\<lambda>(b, r).
         if utf8_valid b then Inr (b, r) else Inl DecodeInvalidUtf8))"

definition write_str :: "bytes \<Rightarrow> bytes" where
  "write_str s = u64_le (word_of_nat (length s)) @ s"

text \<open>A byte that stands for a \<open>bool\<close>: \<open>u8::from(b)\<close>, and the match that reads it.\<close>

definition bool_byte :: "bool \<Rightarrow> byte" where
  "bool_byte b = (if b then 1 else 0)"

definition read_bool :: "bool parser" where
  "read_bool r =
     rbind (cur_u8 r) (\<lambda>(b, r).
       if b = 0 then Inr (False, r)
       else if b = 1 then Inr (True, r)
       else Inl (DecodeInvalidTag b))"

text \<open>\<open>for _ in 0..n\<close> around a parser that pushes what it reads.\<close>

fun parse_n :: "nat \<Rightarrow> 'a parser \<Rightarrow> 'a list parser" where
  "parse_n 0 p r = Inr ([], r)"
| "parse_n (Suc n) p r =
     rbind (p r) (\<lambda>(x, r). rbind (parse_n n p r) (\<lambda>(xs, r). Inr (x # xs, r)))"

section \<open>The field contract\<close>

locale field_codec =
  fixes enc :: "'a \<Rightarrow> core_error + bytes"
    and dec :: "'a parser"
    and wf :: "'a \<Rightarrow> bool"
  assumes dec_enc: "wf x \<Longrightarrow> enc x = Inr p \<Longrightarrow> dec (p @ r) = Inr (x, r)"
    and enc_dec: "dec b = Inr (x, r) \<Longrightarrow> wf x \<and> (\<exists>p. enc x = Inr p \<and> b = p @ r)"
begin

lemma seq_dec_enc:
  "\<forall>x \<in> set xs. wf x \<Longrightarrow> rmap enc xs = Inr ps \<Longrightarrow>
     parse_n (length xs) dec (concat ps @ r) = Inr (xs, r)"
proof (induction xs arbitrary: ps)
  case (Cons x xs)
  from Cons.prems obtain p qs where p: "enc x = Inr p" and qs: "rmap enc xs = Inr qs"
    and ps: "ps = p # qs" by (auto simp: rbind_eq_Inr)
  from Cons.prems(1) have "dec (p @ concat qs @ r) = Inr (x, concat qs @ r)"
    by (intro dec_enc [OF _ p]) simp
  moreover have "parse_n (length xs) dec (concat qs @ r) = Inr (xs, r)"
    using Cons.IH [OF _ qs] Cons.prems(1) by simp
  ultimately show ?case by (simp add: ps)
qed simp

lemma seq_enc_dec:
  "parse_n n dec b = Inr (xs, r) \<Longrightarrow>
     length xs = n \<and> (\<forall>x \<in> set xs. wf x) \<and> (\<exists>ps. rmap enc xs = Inr ps \<and> b = concat ps @ r)"
proof (induction n arbitrary: b xs)
  case (Suc n)
  from Suc.prems obtain x c ys where x: "dec b = Inr (x, c)" and ys: "parse_n n dec c = Inr (ys, r)"
    and xs: "xs = x # ys" by (auto simp: rbind_eq_Inr)
  from enc_dec [OF x] obtain p where "wf x" "enc x = Inr p" "b = p @ c" by auto
  moreover from Suc.IH [OF ys] obtain ps where "length ys = n" "\<forall>x \<in> set ys. wf x"
    "rmap enc ys = Inr ps" "c = concat ps @ r" by auto
  ultimately show ?case by (simp add: xs)
qed simp

text \<open>The decoder is injective, and reads a prefix of its input only.\<close>

lemma dec_unique: "dec b = Inr (x, r) \<Longrightarrow> dec c = Inr (x, r) \<Longrightarrow> b = c"
  using enc_dec by (metis sum.inject(2))

lemma dec_frame: "dec b = Inr (x, r) \<Longrightarrow> dec (b @ s) = Inr (x, r @ s)"
  using enc_dec [of b x r] dec_enc [of x _ "r @ s"] by auto

end

section \<open>The primitive fields\<close>

lemma cur_take_append [simp]: "length b = n \<Longrightarrow> cur_take n (b @ r) = Inr (b, r)"
  by (simp add: cur_take_def remaining_def)

lemma cur_take_Inr: "cur_take n b = Inr (x, r) \<longleftrightarrow> b = x @ r \<and> length x = n"
  by (auto simp: cur_take_def remaining_def not_less)

lemma cur_u8_Cons [simp]: "cur_u8 (x # r) = Inr (x, r)"
  using cur_take_append [of "[x]" 1 r] by (simp add: cur_u8_def)

lemma cur_u8_Inr: "cur_u8 b = Inr (x, r) \<longleftrightarrow> b = x # r"
  by (auto simp: cur_u8_def rbind_eq_Inr cur_take_Inr length_Suc_conv)

lemma cur_u8_Nil [simp]: "cur_u8 [] = Inl DecodeUnexpectedEof"
  by (simp add: cur_u8_def cur_take_def remaining_def)

lemma cur_u32_le_append [simp]: "cur_u32_le (u32_le w @ r) = Inr (w, r)"
  by (simp add: cur_u32_le_def u32_le_inverse)

lemma cur_u32_le_Inr: "cur_u32_le b = Inr (w, r) \<longleftrightarrow> b = u32_le w @ r"
  by (auto simp: cur_u32_le_def rbind_eq_Inr cur_take_Inr u32_le_le_nat u32_le_inverse)

lemma cur_u64_le_append [simp]: "cur_u64_le (u64_le w @ r) = Inr (w, r)"
  by (simp add: cur_u64_le_def u64_le_inverse)

lemma cur_u64_le_Inr: "cur_u64_le b = Inr (w, r) \<longleftrightarrow> b = u64_le w @ r"
  by (auto simp: cur_u64_le_def rbind_eq_Inr cur_take_Inr u64_le_le_nat u64_le_inverse)

lemma read_bool_append [simp]: "read_bool (bool_byte b # r) = Inr (b, r)"
  by (simp add: read_bool_def bool_byte_def)

lemma read_bool_Inr: "read_bool b = Inr (x, r) \<longleftrightarrow> b = bool_byte x # r"
proof
  assume "b = bool_byte x # r"
  then show "read_bool b = Inr (x, r)" by simp
qed (auto simp: read_bool_def rbind_eq_Inr cur_u8_Inr bool_byte_def split: if_splits)

definition wf_str :: "bytes \<Rightarrow> bool" where
  "wf_str s \<longleftrightarrow> utf8_valid s \<and> length s \<le> MAX_OBJECT_BYTES"

lemma MAX_OBJECT_BYTES_less: "n \<le> MAX_OBJECT_BYTES \<Longrightarrow> unat (word_of_nat n :: u64) = n"
  by (simp add: MAX_OBJECT_BYTES_def unat_of_nat take_bit_eq_mod)

lemma str_field_write_str: "wf_str s \<Longrightarrow> str_field (write_str s @ r) = Inr (s, r)"
  by (simp add: str_field_def write_str_def wf_str_def Let_def remaining_def MAX_OBJECT_BYTES_less)

lemma str_field_Inr: "str_field b = Inr (s, r) \<longleftrightarrow> b = write_str s @ r \<and> wf_str s"
proof
  assume h: "str_field b = Inr (s, r)"
  then obtain n where b: "b = u64_le n @ s @ r" and len: "length s = unat n"
    and "unat n \<le> MAX_OBJECT_BYTES" "utf8_valid s"
    by (auto simp: str_field_def rbind_eq_Inr cur_u64_le_Inr cur_take_Inr Let_def not_less
        split: if_splits)
  then show "b = write_str s @ r \<and> wf_str s"
    by (simp add: write_str_def wf_str_def len)
qed (simp add: str_field_write_str)

interpretation id_codec: field_codec "\<lambda>i. Inr i" cur_take32 wf_id
  by unfold_locales (auto simp: cur_take32_def wf_id_def cur_take_Inr)

interpretation str_codec: field_codec "\<lambda>s. Inr (write_str s)" str_field wf_str
  by unfold_locales (auto simp: str_field_Inr)

lemmas cursor_Inr = cur_take_Inr cur_u8_Inr cur_u32_le_Inr cur_u64_le_Inr read_bool_Inr str_field_Inr

end
