(* ===== verification/Ordered_Map.thy ===== *)
theory Ordered_Map
  imports Naatre_Prelude
begin

text \<open>
  Rust's \<open>BTreeMap\<close>: the entries in strictly ascending key order. The interface the client
  theories use is the locale \<open>ordered_map\<close>; its laws are discharged for the sorted
  association list at the end.
\<close>

section \<open>The interface\<close>

locale ordered_map =
  fixes empty :: 'm
    and get :: "'m \<Rightarrow> 'k::linorder \<Rightarrow> 'v option"
    and insert :: "'k \<Rightarrow> 'v \<Rightarrow> 'm \<Rightarrow> 'm"
    and remove :: "'k \<Rightarrow> 'm \<Rightarrow> 'm"
    and entries :: "'m \<Rightarrow> ('k \<times> 'v) list"
    and inv :: "'m \<Rightarrow> bool"
  assumes inv_empty: "inv empty"
    and inv_insert: "inv m \<Longrightarrow> inv (insert k v m)"
    and inv_remove: "inv m \<Longrightarrow> inv (remove k m)"
    and get_empty: "get empty k = None"
    and get_insert: "inv m \<Longrightarrow> get (insert k v m) = (get m)(k \<mapsto> v)"
    and get_remove: "inv m \<Longrightarrow> get (remove k m) = (get m)(k := None)"
    and entries_get: "inv m \<Longrightarrow> map_of (entries m) = get m"
    and entries_sorted: "inv m \<Longrightarrow> sorted_wrt (<) (map fst (entries m))"
    and entries_inject: "inv m \<Longrightarrow> inv m' \<Longrightarrow> entries m = entries m' \<Longrightarrow> m = m'"
begin

text \<open>A sorted list of entries is determined by the map it denotes.\<close>

lemma sorted_entries_unique:
  fixes xs ys :: "('k \<times> 'v) list"
  assumes "sorted_wrt (<) (map fst xs)" and "sorted_wrt (<) (map fst ys)"
    and "map_of xs = map_of ys"
  shows "xs = ys"
proof -
  have rebuild: "map (\<lambda>k. (k, the (map_of zs k))) (map fst zs) = zs"
    if "sorted_wrt (<) (map fst zs)" for zs :: "('k \<times> 'v) list"
    using that by (auto simp: strict_sorted_iff intro!: map_idI)
  have "set (map fst xs) = set (map fst ys)"
    using assms(3) by (metis dom_map_of_conv_image_fst list.set_map)
  then have "map fst xs = map fst ys"
    using assms(1,2) by (metis sorted_distinct_set_unique strict_sorted_iff)
  then show ?thesis using rebuild assms by metis
qed

lemma get_ext: "inv m \<Longrightarrow> inv m' \<Longrightarrow> get m = get m' \<Longrightarrow> m = m'"
  using entries_inject entries_get entries_sorted sorted_entries_unique by metis

lemma insert_same: "inv m \<Longrightarrow> get m k = Some v \<Longrightarrow> insert k v m = m"
  by (rule get_ext) (auto simp: inv_insert get_insert fun_upd_triv fun_eq_iff)

lemma insert_insert: "inv m \<Longrightarrow> insert k v (insert k v' m) = insert k v m"
  by (rule get_ext) (auto simp: inv_insert get_insert)

lemma entries_set: "inv m \<Longrightarrow> (k, v) \<in> set (entries m) \<longleftrightarrow> get m k = Some v"
  using entries_sorted [of m] entries_get [of m]
  by (metis map_of_eq_Some_iff strict_sorted_iff)

lemma entries_eqI:
  "inv m \<Longrightarrow> sorted_wrt (<) (map fst xs) \<Longrightarrow> map_of xs = get m \<Longrightarrow> entries m = xs"
  by (metis entries_get entries_sorted sorted_entries_unique)

text \<open>\<open>iter.collect()\<close> into a map: later entries replace earlier ones.\<close>

lemma inv_fold_insert: "inv m \<Longrightarrow> inv (fold (\<lambda>(k, v). insert k v) kvs m)"
  by (induction kvs arbitrary: m) (auto simp: inv_insert)

lemma get_fold_insert:
  "inv m \<Longrightarrow> get (fold (\<lambda>(k, v). insert k v) kvs m) = get m ++ map_of (rev kvs)"
proof (induction kvs arbitrary: m)
  case (Cons kv kvs)
  obtain k v where "kv = (k, v)" by force
  moreover have "(get m)(k \<mapsto> v) ++ map_of (rev kvs) = get m ++ ([k \<mapsto> v] ++ map_of (rev kvs))"
    by (simp add: map_add_assoc)
  ultimately show ?case
    using Cons by (simp add: inv_insert get_insert map_add_assoc fun_upd_def)
qed simp

end

section \<open>Sorted association lists\<close>

type_synonym ('k, 'v) omap = "('k \<times> 'v) list"

definition om_inv :: "('k::linorder, 'v) omap \<Rightarrow> bool" where
  "om_inv m \<longleftrightarrow> sorted_wrt (<) (map fst m)"

fun om_get :: "('k, 'v) omap \<Rightarrow> 'k \<Rightarrow> 'v option" where
  "om_get [] k = None"
| "om_get ((k', v) # m) k = (if k = k' then Some v else om_get m k)"

fun om_insert :: "'k::linorder \<Rightarrow> 'v \<Rightarrow> ('k, 'v) omap \<Rightarrow> ('k, 'v) omap" where
  "om_insert k v [] = [(k, v)]"
| "om_insert k v ((k', v') # m) =
     (if k < k' then (k, v) # (k', v') # m
      else if k = k' then (k, v) # m
      else (k', v') # om_insert k v m)"

fun om_remove :: "'k \<Rightarrow> ('k, 'v) omap \<Rightarrow> ('k, 'v) omap" where
  "om_remove k [] = []"
| "om_remove k ((k', v) # m) = (if k = k' then m else (k', v) # om_remove k m)"

definition om_collect :: "('k::linorder \<times> 'v) list \<Rightarrow> ('k, 'v) omap" where
  "om_collect kvs = fold (\<lambda>(k, v). om_insert k v) kvs []"

lemma om_get_map_of: "om_get m = map_of m"
proof
  show "om_get m k = map_of m k" for k by (induction m k rule: om_get.induct) auto
qed

lemma keys_om_insert: "set (map fst (om_insert k v m)) = insert k (set (map fst m))"
  by (induction k v m rule: om_insert.induct) auto

lemma keys_om_remove: "set (map fst (om_remove k m)) \<subseteq> set (map fst m)"
  by (induction k m rule: om_remove.induct) auto

lemma om_inv_Nil [simp]: "om_inv []"
  by (simp add: om_inv_def)

lemma om_inv_Cons: "om_inv ((k, v) # m) \<longleftrightarrow> (\<forall>k' \<in> set (map fst m). k < k') \<and> om_inv m"
  by (auto simp: om_inv_def)

lemma om_inv_insert: "om_inv m \<Longrightarrow> om_inv (om_insert k v m)"
proof (induction k v m rule: om_insert.induct)
  case (2 k v k' v' m)
  then show ?case
    using keys_om_insert [of k v m] by (auto simp: om_inv_Cons)
qed (simp add: om_inv_Cons)

lemma om_inv_remove: "om_inv m \<Longrightarrow> om_inv (om_remove k m)"
proof (induction k m rule: om_remove.induct)
  case (2 k k' v m)
  have "k' < j" if "j \<in> set (map fst (om_remove k m))" for j
  proof -
    from that have "j \<in> set (map fst m)" using keys_om_remove by (rule rev_subsetD)
    then show ?thesis using "2.prems" by (auto simp: om_inv_Cons)
  qed
  then show ?case using "2" by (simp add: om_inv_Cons)
qed simp

lemma om_get_insert [simp]: "om_get (om_insert k v m) = (om_get m)(k \<mapsto> v)"
proof
  show "om_get (om_insert k v m) j = ((om_get m)(k \<mapsto> v)) j" for j
    by (induction k v m rule: om_insert.induct) auto
qed

lemma om_insert_twice [simp]: "om_insert k v (om_insert k v' m) = om_insert k v m"
  by (induction k v' m rule: om_insert.induct) auto

lemma om_get_None: "om_get m k = None \<longleftrightarrow> k \<notin> set (map fst m)"
  by (simp add: om_get_map_of map_of_eq_None_iff)

lemma om_get_remove: "om_inv m \<Longrightarrow> om_get (om_remove k m) = (om_get m)(k := None)"
proof (induction k m rule: om_remove.induct)
  case (2 k k' v m)
  then show ?case
    by (auto simp: om_inv_Cons fun_eq_iff om_get_None)
qed (simp add: fun_eq_iff)

interpretation bt: ordered_map "[]" om_get om_insert om_remove "\<lambda>m. m" om_inv
  by unfold_locales
    (simp_all add: om_inv_insert om_inv_remove om_get_insert om_get_remove om_get_map_of [symmetric],
     simp add: om_inv_def)

lemmas om_simps [omap_simps] = om_get_insert om_get_remove om_inv_insert om_inv_remove

lemma om_inv_collect: "om_inv (om_collect kvs)"
  by (simp add: om_collect_def bt.inv_fold_insert)

lemma om_get_collect: "om_get (om_collect kvs) = map_of (rev kvs)"
  by (simp add: om_collect_def bt.get_fold_insert fun_eq_iff map_add_def split: option.splits)

end
