(* ===== verification/Conflict.thy ===== *)
theory Conflict
  imports Codec Ordered_Map "HOL-Library.Product_Lexorder"
begin

text \<open>
  First-class conflict representations (\<open>crates/naatre-core/src/conflict.rs\<close>, lines 15 to
  116): the record, its validation, the conflict format a set of representations needs, and
  the carry rule of a rebase. The marker rendering is theory \<open>Markers\<close>.
\<close>

section \<open>Representations\<close>

record conflict_rep =
  rep_path :: bytes
  rep_base :: "oid option"
  rep_base_exec :: bool
  rep_sides :: "oid list"
  rep_sides_exec :: "bool list"
  rep_deleted :: bool

definition has_exec :: "conflict_rep \<Rightarrow> bool" where
  "has_exec rep \<longleftrightarrow> rep_base_exec rep \<or> list_ex (\<lambda>e. e) (rep_sides_exec rep)"

definition conflict_format :: "conflict_rep list \<Rightarrow> nat" where
  "conflict_format reps =
     (if reps = [] then 0
      else if list_ex (\<lambda>r. rep_deleted r \<or> has_exec r) reps then 2
      else 1)"

text \<open>The \<open>(blob, exec)\<close> pairs of the sides, compared as Rust compares the tuples.\<close>

definition side_keys :: "conflict_rep \<Rightarrow> (oid \<times> bool) list" where
  "side_keys rep = zip (rep_sides rep) (rep_sides_exec rep)"

definition sides_bad :: "conflict_rep \<Rightarrow> bool" where
  "sides_bad rep \<longleftrightarrow>
     length (rep_sides rep) < (if rep_deleted rep then 1 else 2) \<or>
     length (rep_sides_exec rep) \<noteq> length (rep_sides rep) \<or>
     (rep_base rep = None \<and> rep_base_exec rep) \<or>
     \<not> successively (<) (side_keys rep) \<or>
     (case rep_base rep of
        None \<Rightarrow> False
      | Some b \<Rightarrow> (b, rep_base_exec rep) \<in> set (side_keys rep))"

definition validate_rep :: "(bytes \<Rightarrow> bytes) \<Rightarrow> conflict_rep \<Rightarrow> core_error + unit" where
  "validate_rep nfc rep =
     rbind (map_err PathErr (validate nfc (rep_path rep))) (\<lambda>_.
       if length (rep_sides rep) > MAX_ENTRIES then Inl EncodeTooManyEntries
       else if sides_bad rep then Inl EncodeConflictSides
       else Inr ())"

definition conflict_validate :: "(bytes \<Rightarrow> bytes) \<Rightarrow> conflict_rep list \<Rightarrow> core_error + unit" where
  "conflict_validate nfc reps =
     (if length reps > MAX_ENTRIES then Inl EncodeTooManyEntries
      else if \<not> successively (\<lambda>a b. rep_path a < rep_path b) reps then Inl EncodeUnsortedConflicts
      else rforall (validate_rep nfc) reps)"

section \<open>The rebasing carry rule\<close>

definition carry :: "conflict_rep list \<Rightarrow> conflict_rep list \<Rightarrow> conflict_rep list" where
  "carry existing reconflicted =
     (let by_path = om_collect (map (\<lambda>rep. (rep_path rep, rep)) existing)
      in map snd (fold (\<lambda>rep m. om_insert (rep_path rep) rep m) reconflicted by_path))"

section \<open>Lemmas\<close>

text \<open>The shape a representation has once its sides are accepted.\<close>

definition rep_shape :: "conflict_rep \<Rightarrow> bool" where
  "rep_shape rep \<longleftrightarrow>
     (if rep_deleted rep then 1 else 2) \<le> length (rep_sides rep) \<and>
     length (rep_sides_exec rep) = length (rep_sides rep) \<and>
     (rep_base_exec rep \<longrightarrow> rep_base rep \<noteq> None)"

lemma not_sides_bad:
  "\<not> sides_bad rep \<longleftrightarrow> rep_shape rep \<and> sorted_wrt (<) (side_keys rep) \<and>
     (\<forall>b. rep_base rep = Some b \<longrightarrow> (b, rep_base_exec rep) \<notin> set (side_keys rep))"
  by (auto simp: sides_bad_def rep_shape_def successively_conv_sorted_wrt Suc_le_eq
      split: option.splits)

lemma validate_rep_Ok:
  "validate_rep nfc rep = Inr () \<longleftrightarrow>
     validate nfc (rep_path rep) = Inr () \<and> length (rep_sides rep) \<le> MAX_ENTRIES \<and> \<not> sides_bad rep"
  by (auto simp: validate_rep_def result_simps)

lemma transp_rep_path: "transp (\<lambda>a b. rep_path a < rep_path b)"
  by (auto intro!: transpI)

lemma sorted_rep_path:
  "sorted_wrt (\<lambda>a b. rep_path a < rep_path b) reps \<longleftrightarrow> sorted_wrt (<) (map rep_path reps)"
  by (simp add: sorted_wrt_map)

lemma conflict_validate_Ok:
  "conflict_validate nfc reps = Inr () \<longleftrightarrow>
     length reps \<le> MAX_ENTRIES \<and> sorted_wrt (<) (map rep_path reps) \<and>
     (\<forall>rep \<in> set reps. validate_rep nfc rep = Inr ())"
  by (auto simp: conflict_validate_def result_simps rforall_eq_Inr not_less
      successively_conv_sorted_wrt [OF transp_rep_path] sorted_rep_path)

lemma carry_fold:
  "fold (\<lambda>rep m. om_insert (rep_path rep) rep m) reps m =
     fold (\<lambda>(k, v). om_insert k v) (map (\<lambda>rep. (rep_path rep, rep)) reps) m"
  by (induction reps arbitrary: m) simp_all

text \<open>The map that \<open>carry\<close> builds, and what it holds at a path.\<close>

definition carry_map :: "conflict_rep list \<Rightarrow> conflict_rep list \<Rightarrow> (bytes, conflict_rep) omap" where
  "carry_map existing reconflicted =
     om_collect (map (\<lambda>rep. (rep_path rep, rep)) (existing @ reconflicted))"

lemma carry_eq: "carry existing reconflicted = map snd (carry_map existing reconflicted)"
  by (simp add: carry_def carry_map_def carry_fold om_collect_def)

lemma carry_map_inv: "om_inv (carry_map existing reconflicted)"
  by (simp add: carry_map_def om_inv_collect)

lemma carry_map_get:
  "om_get (carry_map existing reconflicted) p = find (\<lambda>rep. rep_path rep = p) (rev reconflicted @ rev existing)"
proof -
  have "map_of (map (\<lambda>rep. (rep_path rep, rep)) reps) p = find (\<lambda>rep. rep_path rep = p) reps" for reps
    by (induction reps) auto
  from this [of "rev reconflicted @ rev existing"] show ?thesis
    by (simp add: carry_map_def om_get_collect rev_map)
qed

lemma find_append: "find P (xs @ ys) = (case find P xs of None \<Rightarrow> find P ys | Some x \<Rightarrow> Some x)"
  by (induction xs) simp_all

lemma find_by_key_distinct:
  assumes "distinct (map f xs)" shows "find (\<lambda>y. f y = f x) (rev xs) = Some x \<longleftrightarrow> x \<in> set xs"
proof
  assume "find (\<lambda>y. f y = f x) (rev xs) = Some x"
  then obtain i where "i < length (rev xs)" and "rev xs ! i = x" by (auto simp: find_Some_iff)
  then have "x \<in> set (rev xs)" by (metis nth_mem)
  then show "x \<in> set xs" by simp
next
  assume x: "x \<in> set xs"
  then have "find (\<lambda>y. f y = f x) (rev xs) \<noteq> None" by (auto simp: find_None_iff)
  then obtain y where y: "find (\<lambda>y. f y = f x) (rev xs) = Some y" by auto
  then obtain i where "i < length (rev xs)" and "rev xs ! i = y" "f y = f x" by (auto simp: find_Some_iff)
  then have "y \<in> set (rev xs)" by (metis nth_mem)
  then have "y = x" using assms x \<open>f y = f x\<close> by (auto simp: distinct_map dest: inj_onD)
  with y show "find (\<lambda>y. f y = f x) (rev xs) = Some x" by simp
qed

lemma carry_map_entry: "(p, rep) \<in> set (carry_map existing reconflicted) \<Longrightarrow> rep_path rep = p"
  using bt.entries_set [OF carry_map_inv] by (auto simp: carry_map_get find_Some_iff)

lemma carry_paths: "map rep_path (carry existing reconflicted) = map fst (carry_map existing reconflicted)"
  by (auto simp: carry_eq dest: carry_map_entry)

lemma carry_set:
  "rep \<in> set (carry existing reconflicted) \<longleftrightarrow>
     find (\<lambda>r. rep_path r = rep_path rep) (rev reconflicted @ rev existing) = Some rep"
proof -
  have "rep \<in> set (carry existing reconflicted) \<longleftrightarrow>
      (rep_path rep, rep) \<in> set (carry_map existing reconflicted)"
    unfolding carry_eq using carry_map_entry by force
  then show ?thesis by (simp add: bt.entries_set [OF carry_map_inv] carry_map_get)
qed

lemma carry_subset: "set (carry existing reconflicted) \<subseteq> set existing \<union> set reconflicted"
proof
  fix rep assume "rep \<in> set (carry existing reconflicted)"
  then obtain i where "i < length (rev reconflicted @ rev existing)"
    and "rep = (rev reconflicted @ rev existing) ! i"
    by (auto simp: carry_set find_Some_iff)
  then have "rep \<in> set (rev reconflicted @ rev existing)" by (metis nth_mem)
  then show "rep \<in> set existing \<union> set reconflicted" by auto
qed

lemma carry_sorted: "sorted_wrt (<) (map rep_path (carry existing reconflicted))"
  using carry_map_inv by (simp add: carry_paths om_inv_def)

section \<open>Properties\<close>

definition sample_rep :: conflict_rep where
  "sample_rep = \<lparr>rep_path = ascii ''a/b'', rep_base = None, rep_base_exec = False,
     rep_sides = [1 # replicate 31 0, 2 # replicate 31 0], rep_sides_exec = [True, False],
     rep_deleted = False\<rparr>"

lemmas rep_eval = sample_rep_def conflict_validate_def validate_rep_def validate_eval sides_bad_def
  MAX_ENTRIES_def side_keys_def

lemma sample_rep_valid: "conflict_validate (\<lambda>x. x) [sample_rep] = Inr ()"
  by (simp add: rep_eval)

text \<open>C39: the carry rule of a rebase keeps the conflict section valid. If the carried section is valid, each of
  the new representations is valid, and the result is within the cap of 100000 entries, the
  result is a valid section (strictly sorted, so one representation per path), and it holds at
  each path the last new representation of that path, or else the carried one.\<close>

theorem carry_valid:
  assumes "conflict_validate nfc existing = Inr ()"
    and "\<forall>rep \<in> set reconflicted. validate_rep nfc rep = Inr ()"
    and "length (carry existing reconflicted) \<le> MAX_ENTRIES"
  shows "conflict_validate nfc (carry existing reconflicted) = Inr () \<and>
    (\<forall>rep. rep \<in> set (carry existing reconflicted) \<longleftrightarrow>
      (case find (\<lambda>r. rep_path r = rep_path rep) (rev reconflicted) of
         Some r \<Rightarrow> rep = r
       | None \<Rightarrow> rep \<in> set existing))"
proof
  show "conflict_validate nfc (carry existing reconflicted) = Inr ()"
    using assms carry_subset [of existing reconflicted]
    by (auto simp: conflict_validate_Ok carry_sorted)
  have "distinct (map rep_path existing)"
    using assms(1) by (simp add: conflict_validate_Ok strict_sorted_iff)
  then have old: "find (\<lambda>r. rep_path r = rep_path rep) (rev existing) = Some rep \<longleftrightarrow> rep \<in> set existing" for rep
    by (rule find_by_key_distinct)
  show "\<forall>rep. rep \<in> set (carry existing reconflicted) \<longleftrightarrow>
      (case find (\<lambda>r. rep_path r = rep_path rep) (rev reconflicted) of
         Some r \<Rightarrow> rep = r
       | None \<Rightarrow> rep \<in> set existing)"
    by (auto simp: carry_set find_append old split: option.splits)
qed

theorem carry_valid_witness:
  "conflict_validate (\<lambda>x. x) (carry [sample_rep] [sample_rep\<lparr>rep_deleted := True\<rparr>]) = Inr ()"
proof -
  have "\<forall>rep \<in> set [sample_rep\<lparr>rep_deleted := True\<rparr>]. validate_rep (\<lambda>x. x) rep = Inr ()"
    by (simp add: rep_eval)
  moreover have "length (carry [sample_rep] [sample_rep\<lparr>rep_deleted := True\<rparr>]) \<le> MAX_ENTRIES"
    by (simp add: carry_def om_collect_def rep_eval)
  ultimately show ?thesis using carry_valid [OF sample_rep_valid] by blast
qed

end
