(* ===== verification/Changeset.thy ===== *)
theory Changeset
  imports Conflict
begin

text \<open>
  Changesets (\<open>crates/naatre-core/src/changeset.rs\<close>): the record, its canonical encoding
  (format v1, and v2 with the conflict section), the strict decoder, the id and the semantic
  validation.
\<close>

unbundle bit_operations_syntax

section \<open>The record\<close>

datatype op = Add | Mod | Del

fun op_tag :: "op \<Rightarrow> byte" where
  "op_tag Add = 0"
| "op_tag Mod = 1"
| "op_tag Del = 2"

definition op_from_tag :: "byte \<Rightarrow> op option" where
  "op_from_tag t =
     (if t = 0 then Some Add else if t = 1 then Some Mod else if t = 2 then Some Del else None)"

record file_change =
  fc_path :: bytes
  fc_op :: op
  fc_blob :: "oid option"
  fc_size :: "u64 option"
  fc_exec :: "bool option"

record changeset =
  cs_repo_id :: u64
  cs_parents :: "oid list"
  cs_author :: bytes
  cs_message :: bytes
  cs_timestamp_ns :: u64
  cs_changes :: "file_change list"
  cs_conflicts :: "conflict_rep list"

definition MAGIC_V1 :: bytes where "MAGIC_V1 = ascii ''naatre-changeset'' @ [1]"
definition MAGIC_V2 :: bytes where "MAGIC_V2 = ascii ''naatre-changeset'' @ [2]"

section \<open>Canonical encoding\<close>

definition encode_change :: "file_change \<Rightarrow> core_error + bytes" where
  "encode_change c =
     (if fc_op c \<noteq> Del then
        rbind (ok_or (fc_blob c) EncodeMissingBlob) (\<lambda>blob.
        rbind (ok_or (fc_size c) EncodeMissingBlob) (\<lambda>size.
        rbind (ok_or (fc_exec c) EncodeMissingBlob) (\<lambda>exec.
          Inr (write_str (fc_path c) @ [op_tag (fc_op c)] @ blob @ u64_le size @ [bool_byte exec]))))
      else if fc_blob c \<noteq> None \<or> fc_size c \<noteq> None \<or> fc_exec c \<noteq> None then Inl EncodeMissingBlob
      else Inr (write_str (fc_path c) @ [op_tag (fc_op c)]))"

definition rep_flags :: "bool \<Rightarrow> bool \<Rightarrow> bool \<Rightarrow> byte" where
  "rep_flags base deleted exec =
     bool_byte base OR push_bit 1 (bool_byte deleted) OR push_bit 2 (bool_byte exec)"

definition encode_side :: "bool \<Rightarrow> oid \<times> bool \<Rightarrow> bytes" where
  "encode_side exec s = fst s @ (if exec then [bool_byte (snd s)] else [])"

definition encode_base :: "bool \<Rightarrow> oid option \<Rightarrow> bool \<Rightarrow> bytes" where
  "encode_base exec base base_exec =
     (case base of None \<Rightarrow> [] | Some b \<Rightarrow> b @ (if exec then [bool_byte base_exec] else []))"

definition encode_rep :: "conflict_rep \<Rightarrow> bytes" where
  "encode_rep rep =
     (let exec = has_exec rep in
      write_str (rep_path rep) @
      [rep_flags (rep_base rep \<noteq> None) (rep_deleted rep) exec] @
      encode_base exec (rep_base rep) (rep_base_exec rep) @
      u32_le (word_of_nat (length (rep_sides rep))) @
      concat (map (encode_side exec) (zip (rep_sides rep) (rep_sides_exec rep))))"

definition encode_conflicts :: "conflict_rep list \<Rightarrow> bytes" where
  "encode_conflicts reps =
     (if reps = [] then []
      else u32_le (word_of_nat (length reps)) @ concat (map encode_rep reps))"

text \<open>The frame: the fixed fields, the encoded changes, and the conflict section if there is one.\<close>

definition changeset_frame :: "changeset \<Rightarrow> bytes list \<Rightarrow> bytes" where
  "changeset_frame cs entries =
     (if cs_conflicts cs = [] then MAGIC_V1 else MAGIC_V2) @
     u64_le (cs_repo_id cs) @
     [word_of_nat (length (cs_parents cs))] @
     concat (cs_parents cs) @
     write_str (cs_author cs) @
     write_str (cs_message cs) @
     u64_le (cs_timestamp_ns cs) @
     u32_le (word_of_nat (length (cs_changes cs))) @
     concat entries @
     encode_conflicts (cs_conflicts cs)"

definition changeset_encode :: "(bytes \<Rightarrow> bytes) \<Rightarrow> changeset \<Rightarrow> core_error + bytes" where
  "changeset_encode nfc cs =
     (if length (cs_parents cs) > MAX_PARENTS then Inl EncodeTooManyParents
      else if \<not> successively (\<lambda>a b. fc_path a < fc_path b) (cs_changes cs) then Inl EncodeUnsorted
      else rbind (conflict_validate nfc (cs_conflicts cs)) (\<lambda>_.
        rbind (rmap encode_change (cs_changes cs)) (\<lambda>entries.
          let out = changeset_frame cs entries
          in if length out > MAX_OBJECT_BYTES then Inl EncodeTooLarge else Inr out)))"

section \<open>The strict decoder\<close>

definition decode_change :: "file_change parser" where
  "decode_change r =
     rbind (str_field r) (\<lambda>(path, r).
     rbind (cur_u8 r) (\<lambda>(tag, r).
     rbind (ok_or (op_from_tag tag) (DecodeInvalidTag tag)) (\<lambda>op.
       if op = Del then
         Inr (\<lparr>fc_path = path, fc_op = op, fc_blob = None, fc_size = None, fc_exec = None\<rparr>, r)
       else
         rbind (cur_take32 r) (\<lambda>(blob, r).
         rbind (cur_u64_le r) (\<lambda>(size, r).
         rbind (read_bool r) (\<lambda>(exec, r).
           Inr (\<lparr>fc_path = path, fc_op = op, fc_blob = Some blob, fc_size = Some size,
                 fc_exec = Some exec\<rparr>, r)))))))"

text \<open>The closure \<open>read_exec\<close>: no byte is read when the flag says there are no exec bytes.\<close>

definition read_exec :: "bool \<Rightarrow> bool parser" where
  "read_exec has r = (if \<not> has then Inr (False, r) else read_bool r)"

definition decode_side :: "bool \<Rightarrow> (oid \<times> bool) parser" where
  "decode_side has r =
     rbind (cur_take32 r) (\<lambda>(i, r). rbind (read_exec has r) (\<lambda>(e, r). Inr ((i, e), r)))"

definition decode_base :: "bool \<Rightarrow> bool \<Rightarrow> (oid option \<times> bool) parser" where
  "decode_base present has r =
     (if present then rbind (decode_side has r) (\<lambda>((i, e), r). Inr ((Some i, e), r))
      else Inr ((None, False), r))"

text \<open>\<open>any_exec\<close> is set by exactly those \<open>read_exec\<close> calls that return true.\<close>

definition decode_rep :: "conflict_rep parser" where
  "decode_rep r =
     rbind (str_field r) (\<lambda>(path, r).
     rbind (cur_u8 r) (\<lambda>(flags, r).
       if flags > 7 then Inl (DecodeInvalidTag flags)
       else let has = (flags AND 4 = 4); deleted = (flags AND 2 = 2) in
         rbind (decode_base (flags AND 1 = 1) has r) (\<lambda>((base, base_exec), r).
         rbind (cur_u32_le r) (\<lambda>(side_count, r).
           if unat side_count < (if deleted then 1 else 2) then Inl DecodeConflictSides
           else rbind (parse_n (unat side_count) (decode_side has) r) (\<lambda>(sides, r).
             let any_exec = (base_exec \<or> list_ex snd sides) in
             if has \<and> \<not> any_exec then Inl (DecodeInvalidTag flags)
             else Inr (\<lparr>rep_path = path, rep_base = base, rep_base_exec = base_exec,
                        rep_sides = map fst sides, rep_sides_exec = map snd sides,
                        rep_deleted = deleted\<rparr>, r))))))"

definition decode_conflicts :: "bool \<Rightarrow> conflict_rep list parser" where
  "decode_conflicts is_v2 r =
     (if \<not> is_v2 then Inr ([], r)
      else rbind (cur_u32_le r) (\<lambda>(n, r).
        let conflict_count = unat n in
        if conflict_count = 0 then Inl DecodeEmptyConflictSection
        else if saturating_mul conflict_count 45 > remaining r then Inl DecodeTooLarge
        else parse_n conflict_count decode_rep r))"

definition decode_magic :: "bytes \<Rightarrow> core_error + bool" where
  "decode_magic magic =
     (if magic = MAGIC_V1 then Inr False
      else if magic = MAGIC_V2 then Inr True
      else Inl DecodeBadMagic)"

definition changeset_decode :: "bytes \<Rightarrow> core_error + changeset" where
  "changeset_decode bytes =
     rbind (cur_take (length MAGIC_V1) bytes) (\<lambda>(magic, r).
     rbind (decode_magic magic) (\<lambda>is_v2.
     rbind (cur_u64_le r) (\<lambda>(repo_id, r).
     rbind (cur_u8 r) (\<lambda>(n, r).
       let parent_count = unat n in
       if parent_count > MAX_PARENTS then Inl DecodeTooLarge
       else
         rbind (parse_n parent_count cur_take32 r) (\<lambda>(parents, r).
         rbind (str_field r) (\<lambda>(author, r).
         rbind (str_field r) (\<lambda>(message, r).
         rbind (cur_u64_le r) (\<lambda>(timestamp_ns, r).
         rbind (cur_u32_le r) (\<lambda>(m, r).
           let entry_count = unat m in
           if saturating_mul entry_count 9 > remaining r then Inl DecodeTooLarge
           else
             rbind (parse_n entry_count decode_change r) (\<lambda>(changes, r).
             rbind (decode_conflicts is_v2 r) (\<lambda>(conflicts, r).
               if remaining r \<noteq> 0 then Inl DecodeTrailingBytes
               else Inr \<lparr>cs_repo_id = repo_id, cs_parents = parents, cs_author = author,
                         cs_message = message, cs_timestamp_ns = timestamp_ns,
                         cs_changes = changes, cs_conflicts = conflicts\<rparr>)))))))))))"

section \<open>Ids and validation\<close>

definition id_for_encoded :: "(bytes \<Rightarrow> oid) \<Rightarrow> bytes \<Rightarrow> bool \<Rightarrow> oid" where
  "id_for_encoded blake3 canonical has_conflicts =
     (if has_conflicts then object_id_v2 blake3 Kind_Changeset canonical
      else object_id blake3 Kind_Changeset canonical)"

definition changeset_id :: "(bytes \<Rightarrow> oid) \<Rightarrow> (bytes \<Rightarrow> bytes) \<Rightarrow> changeset \<Rightarrow> core_error + oid" where
  "changeset_id blake3 nfc cs =
     rbind (changeset_encode nfc cs) (\<lambda>canonical.
       Inr (id_for_encoded blake3 canonical (cs_conflicts cs \<noteq> [])))"

fun check_text_loop :: "(nat \<times> nat) list \<Rightarrow> nat + unit" where
  "check_text_loop [] = Inr ()"
| "check_text_loop ((index, c) # cs) =
     (if (is_cc c \<or> is_cf c) \<and> c \<noteq> 10 \<and> c \<noteq> 9 then Inl index else check_text_loop cs)"

definition check_text :: "bytes \<Rightarrow> nat + unit" where
  "check_text s = check_text_loop (char_indices s)"

definition changeset_validate ::
    "(bytes \<Rightarrow> bytes) \<Rightarrow> (bytes \<Rightarrow> bytes) \<Rightarrow> changeset \<Rightarrow> core_error + unit" where
  "changeset_validate nfc lower cs =
     rbind (rforall (\<lambda>c. map_err PathErr (validate nfc (fc_path c))) (cs_changes cs)) (\<lambda>_.
     rbind (map_err PathErr (check_case_fold_duplicates lower (map fc_path (cs_changes cs)))) (\<lambda>_.
     rbind (map_err AuthorChar (check_text (cs_author cs))) (\<lambda>_.
     rbind (map_err MessageChar (check_text (cs_message cs))) (\<lambda>_.
       if length (cs_parents cs) > MAX_PARENTS then Inl EncodeTooManyParents
       else if cs_changes cs = [] \<and> cs_conflicts cs = [] then Inl EncodeEmptyChangeset
       else if length (cs_changes cs) > MAX_ENTRIES then Inl EncodeTooManyEntries
       else conflict_validate nfc (cs_conflicts cs)))))"

section \<open>Round trips of the parts\<close>

definition change_shape :: "file_change \<Rightarrow> bool" where
  "change_shape c \<longleftrightarrow>
     (if fc_op c = Del then fc_blob c = None \<and> fc_size c = None \<and> fc_exec c = None
      else fc_blob c \<noteq> None \<and> fc_size c \<noteq> None \<and> fc_exec c \<noteq> None)"

definition wf_change :: "file_change \<Rightarrow> bool" where
  "wf_change c \<longleftrightarrow> wf_str (fc_path c) \<and> pred_option wf_id (fc_blob c)"

lemma op_from_tag_op_tag [simp]: "op_from_tag (op_tag p) = Some p"
  by (cases p) (simp_all add: op_from_tag_def)

lemma op_from_tag_Some: "op_from_tag t = Some p \<longleftrightarrow> t = op_tag p"
  by (cases p) (auto simp: op_from_tag_def)

interpretation change_codec: field_codec encode_change decode_change wf_change
proof unfold_locales
  fix c p r
  assume "wf_change c" and "encode_change c = Inr p"
  then show "decode_change (p @ r) = Inr (c, r)"
    by (cases c; cases "fc_op c")
      (auto simp: encode_change_def decode_change_def ok_or_eq_Inr rbind_eq_Inr [of "ok_or _ _"]
        wf_change_def str_field_write_str cur_take32_def wf_id_def op_from_tag_def
        split: if_splits)
next
  fix b c r
  assume "decode_change b = Inr (c, r)"
  then show "wf_change c \<and> (\<exists>p. encode_change c = Inr p \<and> b = p @ r)"
    by (auto simp: encode_change_def decode_change_def result_simps wf_change_def
        cursor_Inr op_from_tag_Some cur_take32_def wf_id_def split: if_splits)
qed

lemma encode_change_shape: "(\<exists>p. encode_change c = Inr p) \<longleftrightarrow> change_shape c"
  by (auto simp: encode_change_def change_shape_def result_simps)

lemma encode_change_length:
  "encode_change c = Inr p \<Longrightarrow> 9 \<le> length p \<and> length (fc_path c) \<le> length p"
  by (auto simp: encode_change_def result_simps write_str_def split: if_splits)

text \<open>The flags byte and its three bits.\<close>

lemma rep_flags_bits [simp]:
  "rep_flags b d e \<le> 7" "rep_flags b d e AND 1 = 1 \<longleftrightarrow> b"
  "rep_flags b d e AND 2 = 2 \<longleftrightarrow> d" "rep_flags b d e AND 4 = 4 \<longleftrightarrow> e"
  by (cases b; cases d; cases e; simp add: rep_flags_def bool_byte_def)+

lemma flags_le_7:
  assumes "flags \<le> (7 :: byte)"
  shows "rep_flags (flags AND 1 = 1) (flags AND 2 = 2) (flags AND 4 = 4) = flags"
proof -
  have "unat flags \<le> 7" using assms by (simp add: word_le_nat_alt)
  then have "unat flags \<in> {0, 1, 2, 3, 4, 5, 6, 7}"
    by (simp only: insert_iff empty_iff) arith
  then have "(word_of_nat (unat flags) :: byte) \<in> word_of_nat ` {0, 1, 2, 3, 4, 5, 6, 7}"
    by (rule imageI)
  then have "flags \<in> {0, 1, 2, 3, 4, 5, 6, 7}" by simp
  then show ?thesis by (auto simp: rep_flags_def bool_byte_def)
qed

definition wf_side :: "bool \<Rightarrow> oid \<times> bool \<Rightarrow> bool" where
  "wf_side exec s \<longleftrightarrow> wf_id (fst s) \<and> (snd s \<longrightarrow> exec)"

interpretation side_codec: field_codec "\<lambda>s. Inr (encode_side exec s)" "decode_side exec" "wf_side exec"
  for exec
proof unfold_locales
  fix s p r
  assume "wf_side exec s" and "Inr (encode_side exec s) = (Inr p :: core_error + bytes)"
  then show "decode_side exec (p @ r) = Inr (s, r)"
    by (cases s) (auto simp: encode_side_def decode_side_def read_exec_def wf_side_def wf_id_def
        cur_take32_def)
next
  fix b s r
  assume "decode_side exec b = Inr (s, r)"
  then show "wf_side exec s \<and> (\<exists>p. Inr (encode_side exec s) = (Inr p :: core_error + bytes) \<and> b = p @ r)"
    by (auto simp: encode_side_def decode_side_def read_exec_def wf_side_def wf_id_def
        cur_take32_def result_simps cursor_Inr split: if_splits)
qed

definition wf_rep :: "conflict_rep \<Rightarrow> bool" where
  "wf_rep rep \<longleftrightarrow>
     wf_str (rep_path rep) \<and> pred_option wf_id (rep_base rep) \<and> list_all wf_id (rep_sides rep) \<and>
     length (rep_sides rep) < 4294967296 \<and> rep_shape rep"

lemma decode_base_append:
  "pred_option wf_id base \<Longrightarrow> (e \<longrightarrow> base \<noteq> None \<and> exec) \<Longrightarrow>
   decode_base (base \<noteq> None) exec
     (encode_base exec base e @ r) =
   Inr ((base, e), r)"
proof (cases base)
  case (Some b)
  assume "pred_option wf_id base" and "e \<longrightarrow> base \<noteq> None \<and> exec"
  with Some side_codec.dec_enc [of exec "(b, e)" _ r] show ?thesis
    by (cases exec) (simp_all add: decode_base_def encode_base_def wf_side_def encode_side_def)
qed (simp add: decode_base_def encode_base_def)

lemma decode_base_Inr:
  "decode_base present exec b = Inr ((base, e), r) \<Longrightarrow>
   present = (base \<noteq> None) \<and> pred_option wf_id base \<and> (e \<longrightarrow> base \<noteq> None \<and> exec) \<and>
   b = encode_base exec base e @ r"
  using side_codec.enc_dec [of exec b "(the base, e)" r]
  by (auto simp: decode_base_def encode_base_def result_simps wf_side_def encode_side_def
      split: if_splits)

lemma list_ex_snd: "list_ex snd zs = list_ex (\<lambda>e. e) (map snd zs)"
  by (induction zs) simp_all

lemma encode_rep_length:
  "rep_shape rep \<Longrightarrow> list_all wf_id (rep_sides rep) \<Longrightarrow>
   45 \<le> length (encode_rep rep) \<and> length (rep_path rep) \<le> length (encode_rep rep)"
proof -
  assume shape: "rep_shape rep" and ids: "list_all wf_id (rep_sides rep)"
  then obtain i js e es where "rep_sides rep = i # js" and "rep_sides_exec rep = e # es"
    and "length i = 32"
    by (cases "rep_sides rep"; cases "rep_sides_exec rep")
      (auto simp: rep_shape_def wf_id_def split: if_splits)
  then show ?thesis
    by (simp add: encode_rep_def write_str_def encode_side_def Let_def)
qed

lemma decode_rep_encode:
  assumes "wf_rep rep" shows "decode_rep (encode_rep rep @ r) = Inr (rep, r)"
proof -
  let ?exec = "has_exec rep" and ?zs = "zip (rep_sides rep) (rep_sides_exec rep)"
  from assms have len: "length (rep_sides_exec rep) = length (rep_sides rep)"
    and small: "unat (word_of_nat (length (rep_sides rep)) :: u32) = length (rep_sides rep)"
    and enough: "\<not> length (rep_sides rep) < (if rep_deleted rep then 1 else 2)"
    by (auto simp: wf_rep_def rep_shape_def unat_of_nat take_bit_eq_mod)
  have "\<forall>s \<in> set ?zs. wf_side ?exec s"
    using assms
    by (auto simp: wf_rep_def wf_side_def list_all_iff has_exec_def list_ex_iff
        dest: set_zip_leftD set_zip_rightD)
  then have sides: "parse_n (length (rep_sides rep)) (decode_side ?exec)
      (concat (map (encode_side ?exec) ?zs) @ r) = Inr (?zs, r)"
    using side_codec.seq_dec_enc [of ?zs ?exec _ r] len by (simp add: rmap_Inr)
  have base: "decode_base (rep_base rep \<noteq> None) ?exec
      (encode_base ?exec (rep_base rep) (rep_base_exec rep) @ s) =
      Inr ((rep_base rep, rep_base_exec rep), s)" for s
    using assms by (intro decode_base_append) (auto simp: wf_rep_def rep_shape_def has_exec_def)
  have any: "rep_base_exec rep \<or> list_ex snd ?zs \<longleftrightarrow> ?exec"
    using len by (simp add: list_ex_snd has_exec_def)
  show ?thesis
    using assms len enough any
    by (simp add: decode_rep_def encode_rep_def Let_def wf_rep_def str_field_write_str base small
        sides not_less del: not_None_eq)
qed

lemma encode_rep_decode:
  assumes "decode_rep b = Inr (rep, r)" shows "wf_rep rep \<and> b = encode_rep rep @ r"
proof -
  from assms obtain path flags base base_exec n sides c d where
    path: "wf_str path" and b: "b = write_str path @ flags # c" and flags: "flags \<le> 7"
    and base: "decode_base (flags AND 1 = 1) (flags AND 4 = 4) c = Inr ((base, base_exec), u32_le n @ d)"
    and enough: "\<not> unat n < (if flags AND 2 = 2 then 1 else 2)"
    and sides: "parse_n (unat n) (decode_side (flags AND 4 = 4)) d = Inr (sides, r)"
    and any: "\<not> (flags AND 4 = 4 \<and> \<not> (base_exec \<or> list_ex snd sides))"
    and rep: "rep = \<lparr>rep_path = path, rep_base = base, rep_base_exec = base_exec,
        rep_sides = map fst sides, rep_sides_exec = map snd sides, rep_deleted = (flags AND 2 = 2)\<rparr>"
    by (auto simp: decode_rep_def result_simps cursor_Inr Let_def not_less split: prod.splits
        split del: if_split)
  let ?exec = "flags AND 4 = 4"
  from side_codec.seq_enc_dec [OF sides] have n: "length sides = unat n"
    and wf: "\<forall>s \<in> set sides. wf_side ?exec s" and d: "d = concat (map (encode_side ?exec) sides) @ r"
    by (auto simp: rmap_Inr)
  from decode_base_Inr [OF base] have present: "(flags AND 1 = 1) = (base \<noteq> None)"
    and base_wf: "pred_option wf_id base" and be: "base_exec \<longrightarrow> base \<noteq> None \<and> ?exec"
    and c: "c = encode_base ?exec base base_exec @ u32_le n @ d" by blast+
  have exec: "has_exec rep = ?exec"
    using any be wf by (auto simp: rep has_exec_def list_ex_iff wf_side_def)
  have "wf_rep rep"
    using path base_wf wf enough be unat_u32_less [of n]
    by (auto simp: rep wf_rep_def rep_shape_def list_all_iff wf_side_def n split: if_splits)
  moreover have "b = encode_rep rep @ r"
    using flags_le_7 [OF flags] exec present
    by (simp add: b c d encode_rep_def Let_def rep zip_map_fst_snd n del: not_None_eq)
  ultimately show ?thesis ..
qed

interpretation rep_codec: field_codec "\<lambda>rep. Inr (encode_rep rep)" decode_rep wf_rep
  by unfold_locales (auto simp: decode_rep_encode dest: encode_rep_decode)


section \<open>Round trips of the whole frame\<close>

text \<open>
  What Rust's types say of a \<open>Changeset\<close>: the strings are UTF-8 and the ids have 32 bytes.
\<close>

definition wf_changeset :: "changeset \<Rightarrow> bool" where
  "wf_changeset cs \<longleftrightarrow>
     list_all wf_id (cs_parents cs) \<and> utf8_valid (cs_author cs) \<and> utf8_valid (cs_message cs) \<and>
     list_all (\<lambda>c. utf8_valid (fc_path c) \<and> pred_option wf_id (fc_blob c)) (cs_changes cs) \<and>
     list_all (\<lambda>rep. utf8_valid (rep_path rep) \<and> pred_option wf_id (rep_base rep) \<and>
                 list_all wf_id (rep_sides rep)) (cs_conflicts cs)"

lemma length_MAGIC [simp]: "length MAGIC_V1 = 17" "length MAGIC_V2 = 17"
  by (simp_all add: MAGIC_V1_def MAGIC_V2_def ascii_def)

lemma MAGIC_distinct [simp]: "MAGIC_V1 \<noteq> MAGIC_V2" "MAGIC_V2 \<noteq> MAGIC_V1"
  by (simp_all add: MAGIC_V1_def MAGIC_V2_def)

lemma conflict_section_dec_enc:
  assumes reps: "\<forall>rep \<in> set reps. wf_rep rep" and small: "length reps \<le> MAX_ENTRIES"
  shows "decode_conflicts (reps \<noteq> []) (encode_conflicts reps @ r) = Inr (reps, r)"
proof (cases "reps = []")
  case False
  have "\<forall>p \<in> set (map encode_rep reps). 45 \<le> length p"
    using reps encode_rep_length by (auto simp: wf_rep_def)
  from concat_length_ge [OF this] have enough: "length reps * 45 \<le> length (concat (map encode_rep reps) @ r)"
    by simp
  have "unat (word_of_nat (length reps) :: u32) = length reps"
    using small by (simp add: MAX_ENTRIES_def unat_of_nat take_bit_eq_mod)
  moreover have "parse_n (length reps) decode_rep (concat (map encode_rep reps) @ r) = Inr (reps, r)"
    using rep_codec.seq_dec_enc [OF reps, of _ r] by (simp add: rmap_Inr)
  ultimately show ?thesis
    using False saturating_mul_le [OF enough]
    by (simp add: decode_conflicts_def encode_conflicts_def remaining_def Let_def)
qed (simp add: decode_conflicts_def encode_conflicts_def)

lemma conflict_section_enc_dec:
  assumes "decode_conflicts is_v2 b = Inr (reps, r)"
  shows "is_v2 = (reps \<noteq> []) \<and> (\<forall>rep \<in> set reps. wf_rep rep) \<and> b = encode_conflicts reps @ r"
proof (cases is_v2)
  case True
  with assms obtain n c where b: "b = u32_le n @ c" and n: "unat n \<noteq> 0"
    and p: "parse_n (unat n) decode_rep c = Inr (reps, r)"
    by (auto simp: decode_conflicts_def result_simps cursor_Inr Let_def split: if_splits)
  from rep_codec.seq_enc_dec [OF p] have "length reps = unat n" "\<forall>rep \<in> set reps. wf_rep rep"
    "c = concat (map encode_rep reps) @ r" by (auto simp: rmap_Inr)
  with True b n show ?thesis by (auto simp: encode_conflicts_def)
qed (use assms in \<open>simp add: decode_conflicts_def encode_conflicts_def\<close>)

lemma conflict_validate_wf_rep:
  assumes "conflict_validate nfc reps = Inr ()" and "rep \<in> set reps"
    and "utf8_valid (rep_path rep)" "pred_option wf_id (rep_base rep)" "list_all wf_id (rep_sides rep)"
  shows "wf_rep rep"
proof -
  from assms(1,2) have "validate nfc (rep_path rep) = Inr ()" and "length (rep_sides rep) \<le> MAX_ENTRIES"
    and "\<not> sides_bad rep"
    by (auto simp: conflict_validate_Ok validate_rep_Ok)
  then show ?thesis
    using assms(3-5)
    by (auto simp: wf_rep_def wf_str_def validate_Ok_iff MAX_PATH_LEN_def MAX_OBJECT_BYTES_def
        MAX_ENTRIES_def not_sides_bad)
qed

lemma changeset_encode_Inr:
  "changeset_encode nfc cs = Inr b \<longleftrightarrow>
     length (cs_parents cs) \<le> MAX_PARENTS \<and>
     successively (\<lambda>x y. fc_path x < fc_path y) (cs_changes cs) \<and>
     conflict_validate nfc (cs_conflicts cs) = Inr () \<and>
     (\<exists>entries. rmap encode_change (cs_changes cs) = Inr entries \<and> b = changeset_frame cs entries) \<and>
     length b \<le> MAX_OBJECT_BYTES"
  by (auto simp: changeset_encode_def Let_def result_simps not_less)

lemma changeset_dec_enc:
  assumes wf: "wf_changeset cs" and enc: "changeset_encode nfc cs = Inr b"
  shows "changeset_decode b = Inr cs"
proof -
  from enc obtain entries where parents: "length (cs_parents cs) \<le> 2"
    and conflicts: "conflict_validate nfc (cs_conflicts cs) = Inr ()"
    and entries: "rmap encode_change (cs_changes cs) = Inr entries"
    and b: "b = (if cs_conflicts cs = [] then MAGIC_V1 else MAGIC_V2) @ u64_le (cs_repo_id cs) @
      [word_of_nat (length (cs_parents cs))] @ concat (cs_parents cs) @ write_str (cs_author cs) @
      write_str (cs_message cs) @ u64_le (cs_timestamp_ns cs) @
      u32_le (word_of_nat (length (cs_changes cs))) @ concat entries @
      encode_conflicts (cs_conflicts cs)"
    and cap: "length b \<le> MAX_OBJECT_BYTES"
    by (auto simp: changeset_encode_Inr changeset_frame_def MAX_PARENTS_def)
  have reps: "\<forall>rep \<in> set (cs_conflicts cs). wf_rep rep"
    using conflict_validate_wf_rep [OF conflicts] wf by (auto simp: wf_changeset_def list_all_iff)
  have path_cap: "length (fc_path c) \<le> MAX_OBJECT_BYTES" if c: "c \<in> set (cs_changes cs)" for c
  proof -
    from rmap_member [OF entries c] obtain p where "p \<in> set entries" "encode_change c = Inr p" by auto
    then have "length (fc_path c) \<le> length (concat entries)"
      using encode_change_length length_concat_member le_trans by blast
    also have "\<dots> \<le> length b" by (simp add: b)
    finally show ?thesis using cap by simp
  qed
  have changes: "parse_n (length (cs_changes cs)) decode_change (concat entries @ r) = Inr (cs_changes cs, r)" for r
    using wf path_cap
    by (intro change_codec.seq_dec_enc [OF _ entries])
      (auto simp: wf_changeset_def wf_change_def wf_str_def list_all_iff)
  have ids: "parse_n (length (cs_parents cs)) cur_take32 (concat (cs_parents cs) @ r) = Inr (cs_parents cs, r)" for r
    using wf rmap_Inr [of "\<lambda>i. i" "cs_parents cs"]
    by (intro id_codec.seq_dec_enc) (simp_all add: wf_changeset_def list_all_iff)
  have count: "length entries = length (cs_changes cs)"
    using entries by (simp add: rmap_eq_Inr list_all2_lengthD)
  have "\<forall>p \<in> set entries. 9 \<le> length p"
    using rmap_member' [OF entries] encode_change_length by blast
  from concat_length_ge [OF this] have nine: "length (cs_changes cs) * 9 \<le> length (concat entries)"
    by (simp add: count)
  have "length (concat entries) \<le> MAX_OBJECT_BYTES" using cap b by simp
  with nine have "unat (word_of_nat (length (cs_changes cs)) :: u32) = length (cs_changes cs)"
    by (simp add: MAX_OBJECT_BYTES_def unat_of_nat take_bit_eq_mod)
  moreover have "unat (word_of_nat (length (cs_parents cs)) :: byte) = length (cs_parents cs)"
    using parents by (simp add: unat_of_nat take_bit_eq_mod)
  moreover have "wf_str (cs_author cs)" "wf_str (cs_message cs)"
    using wf cap by (auto simp: wf_changeset_def wf_str_def b write_str_def)
  moreover have "length (cs_conflicts cs) \<le> MAX_ENTRIES"
    using conflicts by (simp add: conflict_validate_Ok)
  note sec = conflict_section_dec_enc [OF reps this]
  moreover have "\<not> length (concat entries @ encode_conflicts (cs_conflicts cs)) <
      saturating_mul (length (cs_changes cs)) 9"
    using nine by (intro saturating_mul_le) simp
  moreover obtain magic where "(if cs_conflicts cs = [] then MAGIC_V1 else MAGIC_V2) = magic"
    and "length magic = 17" and "decode_magic magic = Inr (cs_conflicts cs \<noteq> [])"
    by (simp add: decode_magic_def)
  ultimately show ?thesis
    using parents sec [of "[]"]
    by (simp add: changeset_decode_def b Let_def str_field_write_str ids changes
        remaining_def MAX_PARENTS_def)
qed

lemma changeset_decode_frame:
  assumes dec: "changeset_decode b = Inr cs"
  shows "wf_changeset cs \<and> length (cs_parents cs) \<le> MAX_PARENTS \<and>
    (\<exists>entries. rmap encode_change (cs_changes cs) = Inr entries \<and> b = changeset_frame cs entries)"
proof -
  from dec obtain magic is_v2 repo_id n parents author message ts m changes conflicts c d e f where
    magic: "decode_magic magic = Inr is_v2" and b: "b = magic @ u64_le repo_id @ n # c"
    and few: "unat n \<le> 2" and parents: "parse_n (unat n) cur_take32 c = Inr (parents, d)"
    and d: "d = write_str author @ write_str message @ u64_le ts @ u32_le m @ e"
    and strs: "utf8_valid author" "utf8_valid message"
    and changes: "parse_n (unat m) decode_change e = Inr (changes, f)"
    and conflicts: "decode_conflicts is_v2 f = Inr (conflicts, [])"
    and cs: "cs = \<lparr>cs_repo_id = repo_id, cs_parents = parents, cs_author = author,
      cs_message = message, cs_timestamp_ns = ts, cs_changes = changes, cs_conflicts = conflicts\<rparr>"
    by (auto simp: changeset_decode_def result_simps cursor_Inr Let_def MAX_PARENTS_def remaining_def
        wf_str_def not_less split: prod.splits split del: if_split)
  from change_codec.seq_enc_dec [OF changes] obtain entries where m: "length changes = unat m"
    and entries: "rmap encode_change changes = Inr entries" and e: "e = concat entries @ f"
    and wfc: "\<forall>x \<in> set changes. wf_change x" by auto
  from id_codec.seq_enc_dec [OF parents] have n: "length parents = unat n"
    and c: "c = concat parents @ d" and wfp: "\<forall>x \<in> set parents. wf_id x"
    by (auto simp: rmap_Inr [of "\<lambda>i. i", simplified])
  from conflict_section_enc_dec [OF conflicts] have v2: "is_v2 = (conflicts \<noteq> [])"
    and f: "f = encode_conflicts conflicts" and wfr: "\<forall>rep \<in> set conflicts. wf_rep rep" by auto
  have "magic = (if conflicts = [] then MAGIC_V1 else MAGIC_V2)"
    using magic v2 by (auto simp: decode_magic_def split: if_splits)
  then have "b = changeset_frame cs entries"
    by (simp add: changeset_frame_def cs n m b c d e f)
  moreover have "wf_changeset cs"
    using wfc wfp wfr strs
    by (auto simp: cs wf_changeset_def list_all_iff wf_change_def wf_rep_def wf_str_def)
  ultimately show ?thesis using few entries by (auto simp: cs n MAX_PARENTS_def)
qed

lemma changeset_enc_dec:
  assumes dec: "changeset_decode b = Inr cs"
    and sorted: "successively (\<lambda>x y. fc_path x < fc_path y) (cs_changes cs)"
    and reps: "conflict_validate nfc (cs_conflicts cs) = Inr ()"
    and cap: "length b \<le> MAX_OBJECT_BYTES"
  shows "changeset_encode nfc cs = Inr b"
  using changeset_decode_frame [OF dec] sorted reps cap by (simp add: changeset_encode_Inr)

text \<open>The hash domain a changeset's id is taken in.\<close>

definition changeset_domain :: "changeset \<Rightarrow> bytes" where
  "changeset_domain cs = (if cs_conflicts cs = [] then FORMAT_VERSION else FORMAT_VERSION_V2)"

lemma changeset_domain: "changeset_domain cs \<in> {FORMAT_VERSION, FORMAT_VERSION_V2}"
  by (simp add: changeset_domain_def)

lemma changeset_id_Inr:
  "changeset_encode nfc cs = Inr b \<Longrightarrow>
     changeset_id blake3 nfc cs = Inr (blake3 (object_preimage (changeset_domain cs) Kind_Changeset b))"
  by (simp add: changeset_id_def id_for_encoded_def object_id_def object_id_v2_def object_id_in_def
      changeset_domain_def)

section \<open>Properties\<close>

definition sample_changeset :: changeset where
  "sample_changeset = \<lparr>cs_repo_id = 7, cs_parents = [replicate 32 9], cs_author = ascii ''ann'',
     cs_message = ascii ''m'', cs_timestamp_ns = 5,
     cs_changes = [\<lparr>fc_path = ascii ''a/c'', fc_op = Add, fc_blob = Some (replicate 32 3),
                    fc_size = Some 4, fc_exec = Some True\<rparr>,
                   \<lparr>fc_path = ascii ''b'', fc_op = Del, fc_blob = None, fc_size = None, fc_exec = None\<rparr>],
     cs_conflicts = [sample_rep]\<rparr>"

lemmas changeset_eval = sample_changeset_def changeset_encode_def MAX_PARENTS_def rep_eval
  encode_change_def changeset_frame_def write_str_def encode_conflicts_def encode_rep_def
  encode_base_def encode_side_def MAX_OBJECT_BYTES_def Let_def

lemma sample_changeset_wf: "wf_changeset sample_changeset"
  by (simp add: wf_changeset_def sample_changeset_def sample_rep_def ascii_def wf_id_def
      utf8_valid_all_ascii)

lemma sample_changeset_encodes: "\<exists>b. changeset_encode (\<lambda>x. x) sample_changeset = Inr b"
  by (simp add: changeset_eval)

text \<open>C19: round trip. For a changeset of the program's types, what \<open>encode\<close> writes, \<open>decode\<close> reads back: the same changeset, with its
  conflict section, whichever format version the frame has.\<close>

theorem changeset_roundtrip:
  assumes "wf_changeset cs" and "changeset_encode nfc cs = Inr b"
  shows "changeset_decode b = Inr cs"
  using assms by (rule changeset_dec_enc)

theorem changeset_roundtrip_witness:
  "\<exists>b. changeset_encode (\<lambda>x. x) sample_changeset = Inr b \<and> changeset_decode b = Inr sample_changeset"
proof -
  obtain b where b: "changeset_encode (\<lambda>x. x) sample_changeset = Inr b"
    using sample_changeset_encodes by blast
  from changeset_roundtrip [OF sample_changeset_wf b] b show ?thesis by blast
qed

text \<open>C20: the decoder is strict, so a changeset has one encoding. For a frame that \<open>decode\<close> accepts, encoding
  the result gives the very same bytes, with three exceptions: \<open>encode\<close> refuses changes that are out of order, an invalid
  conflict section, and a frame of more than 16 MiB, none of which \<open>decode\<close> checks.\<close>

theorem changeset_strict:
  assumes "changeset_decode b = Inr cs"
  shows "changeset_encode nfc cs =
    (if \<not> successively (\<lambda>x y. fc_path x < fc_path y) (cs_changes cs) then Inl EncodeUnsorted
     else case conflict_validate nfc (cs_conflicts cs) of
       Inl e \<Rightarrow> Inl e
     | Inr _ \<Rightarrow> if MAX_OBJECT_BYTES < length b then Inl EncodeTooLarge else Inr b)"
  using changeset_decode_frame [OF assms]
  by (auto simp: changeset_encode_def Let_def split: sum.splits)

theorem changeset_strict_witness:
  "\<exists>b. changeset_decode b = Inr sample_changeset \<and> length b \<le> MAX_OBJECT_BYTES \<and>
     changeset_encode (\<lambda>x. x) sample_changeset =
    (if \<not> successively (\<lambda>x y. fc_path x < fc_path y) (cs_changes sample_changeset) then Inl EncodeUnsorted
     else case conflict_validate (\<lambda>x. x) (cs_conflicts sample_changeset) of
       Inl e \<Rightarrow> Inl e
     | Inr _ \<Rightarrow> if MAX_OBJECT_BYTES < length b then Inl EncodeTooLarge else Inr b)"
proof -
  obtain b where b: "changeset_encode (\<lambda>x. x) sample_changeset = Inr b"
    using sample_changeset_encodes by blast
  from changeset_dec_enc [OF sample_changeset_wf b] have d: "changeset_decode b = Inr sample_changeset" .
  have "length b \<le> MAX_OBJECT_BYTES" using b by (simp add: changeset_encode_Inr)
  with changeset_strict [OF d] d show ?thesis by blast
qed

text \<open>The two format versions. A changeset without conflicts is written with the v1 magic and
  hashed in the v1 domain, whatever its conflict fields could hold; one with conflicts has the
  v2 magic and the v2 domain. The version byte of a frame tells which, without a decode.\<close>

theorem changeset_version:
  assumes "changeset_encode nfc cs = Inr b"
  shows "changeset_id blake3 nfc cs =
      Inr (blake3 (object_preimage (if cs_conflicts cs = [] then ascii ''v1'' else ascii ''v2'')
                     Kind_Changeset b)) \<and>
    take 17 b = ascii ''naatre-changeset'' @ [if cs_conflicts cs = [] then 1 else 2]"
proof
  from assms show "changeset_id blake3 nfc cs =
      Inr (blake3 (object_preimage (if cs_conflicts cs = [] then ascii ''v1'' else ascii ''v2'')
                     Kind_Changeset b))"
    by (simp add: changeset_id_Inr changeset_domain_def FORMAT_VERSION_def FORMAT_VERSION_V2_def)
  from assms obtain r where "b = (if cs_conflicts cs = [] then MAGIC_V1 else MAGIC_V2) @ r"
    by (auto simp: changeset_encode_Inr changeset_frame_def)
  then show "take 17 b = ascii ''naatre-changeset'' @ [if cs_conflicts cs = [] then 1 else 2]"
    by (simp add: MAGIC_V1_def MAGIC_V2_def ascii_def)
qed

theorem changeset_version_witness:
  "\<exists>b. changeset_encode (\<lambda>x. x) sample_changeset = Inr b \<and>
     take 17 b = ascii ''naatre-changeset'' @ [2]"
proof -
  obtain b where b: "changeset_encode (\<lambda>x. x) sample_changeset = Inr b"
    using sample_changeset_encodes by blast
  from changeset_version [OF b] b show ?thesis by (auto simp: sample_changeset_def)
qed

text \<open>C34: ids identify changesets. Two changesets of the program's types that both encode have the same id exactly if
  they are equal - provided the hash does not collide on the two byte strings that are hashed for them (their domain, kind
  and frame).\<close>

theorem changeset_id_inj:
  assumes "wf_changeset cs" and "wf_changeset ds"
    and "changeset_encode nfc cs = Inr b" and "changeset_encode nfc ds = Inr c"
    and "blake3 (object_preimage (changeset_domain cs) Kind_Changeset b) =
           blake3 (object_preimage (changeset_domain ds) Kind_Changeset c) \<Longrightarrow>
         object_preimage (changeset_domain cs) Kind_Changeset b = object_preimage (changeset_domain ds) Kind_Changeset c"
  shows "changeset_id blake3 nfc cs = changeset_id blake3 nfc ds \<longleftrightarrow> cs = ds"
proof
  assume "changeset_id blake3 nfc cs = changeset_id blake3 nfc ds"
  then have "object_preimage (changeset_domain cs) Kind_Changeset b =
      object_preimage (changeset_domain ds) Kind_Changeset c"
    by (intro assms(5)) (simp add: changeset_id_Inr [OF assms(3)] changeset_id_Inr [OF assms(4)])
  then have "b = c" by (rule object_preimage_payload(3) [OF changeset_domain changeset_domain])
  then show "cs = ds"
    using changeset_dec_enc [OF assms(1,3)] changeset_dec_enc [OF assms(2,4)] by simp
qed simp

text \<open>Another author, and a hash of 32 bytes that tells the two apart.\<close>

definition other_changeset :: changeset where
  "other_changeset = sample_changeset\<lparr>cs_author := ascii ''bob''\<rparr>"

lemma other_changeset_ok: "wf_changeset other_changeset" "\<exists>c. changeset_encode (\<lambda>x. x) other_changeset = Inr c"
  using sample_changeset_wf
  by (simp_all add: other_changeset_def wf_changeset_def utf8_valid_all_ascii changeset_eval)

theorem changeset_id_inj_witness:
  "\<exists>blake3. (\<forall>x. length (blake3 x) = 32) \<and>
     changeset_id blake3 (\<lambda>x. x) sample_changeset \<noteq> changeset_id blake3 (\<lambda>x. x) other_changeset"
proof -
  obtain b c where b: "changeset_encode (\<lambda>x. x) sample_changeset = Inr b" and c: "changeset_encode (\<lambda>x. x) other_changeset = Inr c"
    using sample_changeset_encodes other_changeset_ok(2) by blast
  let ?p = "object_preimage (changeset_domain sample_changeset) Kind_Changeset b"
  define h where "h = (\<lambda>x. replicate 32 (if x = ?p then 1 else 0 :: byte))"
  have "h ?p = h y \<Longrightarrow> ?p = y" for y by (simp add: h_def split: if_splits)
  then have "changeset_id h (\<lambda>x. x) sample_changeset = changeset_id h (\<lambda>x. x) other_changeset \<longleftrightarrow> sample_changeset = other_changeset"
    by (intro changeset_id_inj [OF sample_changeset_wf other_changeset_ok(1) b c])
  moreover have "sample_changeset \<noteq> other_changeset" by (simp add: other_changeset_def sample_changeset_def ascii_def)
  moreover have "\<forall>x. length (h x) = 32" by (simp add: h_def)
  ultimately show ?thesis by blast
qed

text \<open>Validation before encoding. A changeset that \<open>validate\<close> accepts, whose changes are
  sorted and carry the fields their operation needs, is encoded, or refused for its size alone.\<close>

theorem validated_encodes:
  assumes "changeset_validate nfc lower cs = Inr ()"
    and "sorted_wrt (<) (map fc_path (cs_changes cs))"
    and "\<forall>c \<in> set (cs_changes cs). change_shape c"
  shows "changeset_encode nfc cs = Inl EncodeTooLarge \<or> (\<exists>b. changeset_encode nfc cs = Inr b)"
proof -
  have "successively (\<lambda>x y. fc_path x < fc_path y) (cs_changes cs)"
    using assms(2) by (simp add: sorted_wrt_map successively_if_sorted_wrt)
  moreover obtain entries where "rmap encode_change (cs_changes cs) = Inr entries"
    using rmap_total [of "cs_changes cs" encode_change] assms(3) encode_change_shape by blast
  ultimately show ?thesis
    using assms(1) by (auto simp: changeset_validate_def changeset_encode_def result_simps Let_def)
qed

theorem validated_encodes_witness:
  "changeset_encode (\<lambda>x. x) sample_changeset = Inl EncodeTooLarge \<or>
   (\<exists>b. changeset_encode (\<lambda>x. x) sample_changeset = Inr b)"
proof (rule validated_encodes)
  show "changeset_validate (\<lambda>x. x) (\<lambda>x. x) sample_changeset = Inr ()"
    by (simp add: changeset_validate_def changeset_eval check_case_fold_duplicates_def fold_key_def
        rsplit_once_def check_text_def)
  show "sorted_wrt (<) (map fc_path (cs_changes sample_changeset))"
    by (simp add: sample_changeset_def ascii_def)
  show "\<forall>c \<in> set (cs_changes sample_changeset). change_shape c"
    by (simp add: sample_changeset_def change_shape_def)
qed

end
