(* ===== verification/Tree_Codec.thy ===== *)
theory Tree_Codec
  imports Codec
begin

text \<open>
  Directory listings (\<open>crates/naatre-core/src/tree.rs\<close>): the record, the canonical encoding,
  the strict decoder, the id and the validation.
\<close>

section \<open>The record\<close>

datatype entry_kind = EK_File | EK_Dir

fun ek_tag :: "entry_kind \<Rightarrow> byte" where
  "ek_tag EK_File = 0"
| "ek_tag EK_Dir = 1"

definition ek_from_tag :: "byte \<Rightarrow> entry_kind option" where
  "ek_from_tag t = (if t = 0 then Some EK_File else if t = 1 then Some EK_Dir else None)"

record tree_entry =
  te_name :: bytes
  te_kind :: entry_kind
  te_object :: oid
  te_size :: u64
  te_exec :: bool

text \<open>A \<open>Tree\<close> is its list of entries.\<close>

type_synonym tree = "tree_entry list"

definition TREE_MAGIC :: bytes where "TREE_MAGIC = ascii ''naatre-tree'' @ [1]"

section \<open>Encoding, decoding, id, validation\<close>

definition encode_entry :: "tree_entry \<Rightarrow> bytes" where
  "encode_entry e =
     write_str (te_name e) @ [ek_tag (te_kind e)] @ te_object e @ u64_le (te_size e) @
     [case te_kind e of EK_File \<Rightarrow> bool_byte (te_exec e) | EK_Dir \<Rightarrow> 0]"

definition tree_encode :: "tree \<Rightarrow> core_error + bytes" where
  "tree_encode tree =
     (if \<not> successively (\<lambda>a b. te_name a < te_name b) tree then Inl EncodeUnsorted
      else let out = TREE_MAGIC @ u32_le (word_of_nat (length tree)) @ concat (map encode_entry tree)
        in if length out > MAX_OBJECT_BYTES then Inl EncodeTooLarge else Inr out)"

definition decode_entry :: "tree_entry parser" where
  "decode_entry r =
     rbind (str_field r) (\<lambda>(name, r).
     rbind (cur_u8 r) (\<lambda>(tag, r).
     rbind (ok_or (ek_from_tag tag) (DecodeInvalidTag tag)) (\<lambda>kind.
     rbind (cur_take32 r) (\<lambda>(object, r).
     rbind (cur_u64_le r) (\<lambda>(size, r).
     rbind (cur_u8 r) (\<lambda>(x, r).
     rbind (if x = 0 then Inr False
            else if x = 1 then (if kind = EK_Dir then Inl (DecodeInvalidTag 1) else Inr True)
            else Inl (DecodeInvalidTag x)) (\<lambda>exec.
       Inr (\<lparr>te_name = name, te_kind = kind, te_object = object, te_size = size,
             te_exec = exec\<rparr>, r))))))))"

definition tree_decode :: "bytes \<Rightarrow> core_error + tree" where
  "tree_decode bytes =
     rbind (cur_take (length TREE_MAGIC) bytes) (\<lambda>(magic, r).
       if magic \<noteq> TREE_MAGIC then Inl DecodeBadMagic
       else
         rbind (cur_u32_le r) (\<lambda>(n, r).
           let entry_count = unat n in
           if saturating_mul entry_count 50 > remaining r then Inl DecodeTooLarge
           else
             rbind (parse_n entry_count decode_entry r) (\<lambda>(entries, r).
               if remaining r \<noteq> 0 then Inl DecodeTrailingBytes else Inr entries)))"

definition tree_id :: "(bytes \<Rightarrow> oid) \<Rightarrow> tree \<Rightarrow> core_error + oid" where
  "tree_id blake3 tree =
     rbind (tree_encode tree) (\<lambda>b. Inr (object_id blake3 Kind_Tree b))"

definition tree_validate :: "(bytes \<Rightarrow> bytes) \<Rightarrow> (bytes \<Rightarrow> bytes) \<Rightarrow> tree \<Rightarrow> core_error + unit" where
  "tree_validate nfc lower tree =
     rbind (rforall (\<lambda>e. rbind (map_err PathErr (validate_component nfc (te_name e))) (\<lambda>_.
              if te_kind e = EK_Dir \<and> te_exec e then Inl EncodeExecOnDir else Inr ())) tree) (\<lambda>_.
     rbind (map_err PathErr (check_case_fold_duplicates lower (map te_name tree))) (\<lambda>_.
       if length tree > MAX_ENTRIES then Inl EncodeTooManyEntries else Inr ()))"

section \<open>Round trips\<close>

text \<open>What Rust's types say of an entry, and that no directory carries an exec bit.\<close>

definition wf_entry :: "tree_entry \<Rightarrow> bool" where
  "wf_entry e \<longleftrightarrow>
     utf8_valid (te_name e) \<and> wf_id (te_object e) \<and> (te_exec e \<longrightarrow> te_kind e = EK_File)"

definition wf_entry_capped :: "tree_entry \<Rightarrow> bool" where
  "wf_entry_capped e \<longleftrightarrow> wf_entry e \<and> length (te_name e) \<le> MAX_OBJECT_BYTES"

interpretation entry_codec: field_codec "\<lambda>e. Inr (encode_entry e)" decode_entry wf_entry_capped
proof unfold_locales
  fix e p r
  assume "wf_entry_capped e" and "Inr (encode_entry e) = (Inr p :: core_error + bytes)"
  then show "decode_entry (p @ r) = Inr (e, r)"
    by (cases e; cases "te_kind e")
      (auto simp: wf_entry_capped_def wf_entry_def encode_entry_def decode_entry_def bool_byte_def
        str_field_write_str wf_str_def wf_id_def cur_take32_def ek_from_tag_def)
next
  fix b e r
  assume "decode_entry b = Inr (e, r)"
  then show "wf_entry_capped e \<and> (\<exists>p. Inr (encode_entry e) = (Inr p :: core_error + bytes) \<and> b = p @ r)"
    by (auto simp: wf_entry_capped_def wf_entry_def encode_entry_def decode_entry_def bool_byte_def
        result_simps cursor_Inr wf_str_def wf_id_def cur_take32_def ek_from_tag_def split: if_splits)
qed

lemma encode_entry_length:
  "wf_id (te_object e) \<Longrightarrow> 50 \<le> length (encode_entry e) \<and> length (te_name e) \<le> length (encode_entry e)"
  by (simp add: encode_entry_def write_str_def wf_id_def)

lemma length_TREE_MAGIC [simp]: "length TREE_MAGIC = 12"
  by (simp add: TREE_MAGIC_def ascii_def)

lemma tree_encode_Inr:
  "tree_encode tree = Inr b \<longleftrightarrow>
     successively (\<lambda>a b. te_name a < te_name b) tree \<and>
     b = TREE_MAGIC @ u32_le (word_of_nat (length tree)) @ concat (map encode_entry tree) \<and>
     length b \<le> MAX_OBJECT_BYTES"
proof -
  let ?out = "TREE_MAGIC @ u32_le (word_of_nat (length tree)) @ concat (map encode_entry tree)"
  have "tree_encode tree = Inr b \<longleftrightarrow>
      successively (\<lambda>a b. te_name a < te_name b) tree \<and> length ?out \<le> MAX_OBJECT_BYTES \<and> ?out = b"
    unfolding tree_encode_def Let_def by (simp only: if_Inl_eq_Inr not_less not_not sum.inject)
  then show ?thesis by metis
qed

lemma tree_dec_enc:
  assumes wf: "\<forall>e \<in> set tree. wf_entry e" and enc: "tree_encode tree = Inr b"
  shows "tree_decode b = Inr tree"
proof -
  let ?body = "concat (map encode_entry tree)"
  from enc have b: "b = TREE_MAGIC @ u32_le (word_of_nat (length tree)) @ ?body"
    and cap: "length b \<le> MAX_OBJECT_BYTES" unfolding tree_encode_Inr by blast+
  have body: "length ?body \<le> MAX_OBJECT_BYTES" using cap b by simp
  have "wf_entry_capped e" if e: "e \<in> set tree" for e
  proof -
    from wf e have "wf_entry e" by blast
    moreover from this have "length (te_name e) \<le> length (encode_entry e)"
      by (simp add: wf_entry_def encode_entry_length)
    moreover have "length (encode_entry e) \<le> length ?body"
      using e by (intro length_concat_member) simp
    ultimately show ?thesis using body by (simp add: wf_entry_capped_def)
  qed
  then have entries: "parse_n (length tree) decode_entry (?body @ []) = Inr (tree, [])"
    by (intro entry_codec.seq_dec_enc) (auto simp: rmap_Inr)
  have "\<forall>p \<in> set (map encode_entry tree). 50 \<le> length p"
    using wf encode_entry_length by (auto simp: wf_entry_def)
  from concat_length_ge [OF this] have fifty: "length tree * 50 \<le> length ?body" by simp
  then have "unat (word_of_nat (length tree) :: u32) = length tree"
    using body by (simp add: MAX_OBJECT_BYTES_def unat_of_nat take_bit_eq_mod)
  then show ?thesis
    using entries saturating_mul_le [OF fifty]
    by (simp add: tree_decode_def b remaining_def Let_def)
qed

lemma tree_decode_shape:
  assumes dec: "tree_decode b = Inr tree"
  shows "b = TREE_MAGIC @ u32_le (word_of_nat (length tree)) @ concat (map encode_entry tree) \<and>
    (\<forall>e \<in> set tree. wf_entry e)"
proof -
  from dec obtain n c where b: "b = TREE_MAGIC @ u32_le n @ c"
    and p: "parse_n (unat n) decode_entry c = Inr (tree, [])"
    by (auto simp: tree_decode_def result_simps cursor_Inr Let_def remaining_def split: if_splits)
  from entry_codec.seq_enc_dec [OF p] have "length tree = unat n"
    and "c = concat (map encode_entry tree)" and "\<forall>e \<in> set tree. wf_entry_capped e"
    by (auto simp: rmap_Inr)
  with b show ?thesis by (auto simp: wf_entry_capped_def)
qed

section \<open>Properties\<close>

definition sample_tree :: tree where
  "sample_tree =
     [\<lparr>te_name = ascii ''a'', te_kind = EK_File, te_object = replicate 32 1, te_size = 3, te_exec = True\<rparr>,
      \<lparr>te_name = ascii ''b'', te_kind = EK_Dir, te_object = replicate 32 2, te_size = 0, te_exec = False\<rparr>]"

lemma sample_tree_wf: "\<forall>e \<in> set sample_tree. wf_entry e"
  by (simp add: sample_tree_def wf_entry_def wf_id_def ascii_def utf8_valid_all_ascii)

lemma sample_tree_encodes: "\<exists>b. tree_encode sample_tree = Inr b"
  by (simp add: tree_encode_def sample_tree_def encode_entry_def write_str_def MAX_OBJECT_BYTES_def
      ascii_def Let_def)

text \<open>C38: round trip of directory listings. For entries of the program's types, what \<open>tree::encode\<close> writes, \<open>tree::decode\<close> reads
  back.\<close>

theorem tree_roundtrip:
  assumes "\<forall>e \<in> set tree. wf_entry e" and "tree_encode tree = Inr b"
  shows "tree_decode b = Inr tree"
  using assms by (rule tree_dec_enc)

theorem tree_roundtrip_witness:
  "\<exists>b. tree_encode sample_tree = Inr b \<and> tree_decode b = Inr sample_tree"
proof -
  obtain b where b: "tree_encode sample_tree = Inr b" using sample_tree_encodes by blast
  from tree_roundtrip [OF sample_tree_wf b] b show ?thesis by blast
qed

text \<open>A directory listing has one encoding. For a frame \<open>tree::decode\<close> accepts, \<open>tree::encode\<close> writes the very same
  bytes for the result, unless the names are out of order or the frame is longer than 16 MiB, neither of which \<open>decode\<close>
  checks; no accepted directory entry carries the exec bit.\<close>

theorem tree_strict:
  assumes "tree_decode b = Inr tree"
  shows "tree_encode tree =
      (if \<not> successively (\<lambda>x y. te_name x < te_name y) tree then Inl EncodeUnsorted
       else if MAX_OBJECT_BYTES < length b then Inl EncodeTooLarge else Inr b) \<and>
    (\<forall>e \<in> set tree. wf_id (te_object e) \<and> (te_kind e = EK_Dir \<longrightarrow> \<not> te_exec e))"
  using tree_decode_shape [OF assms]
  by (auto simp: tree_encode_def wf_entry_def Let_def)

theorem tree_strict_witness:
  "\<exists>b. tree_decode b = Inr sample_tree \<and> tree_encode sample_tree = Inr b"
proof -
  obtain b where b: "tree_encode sample_tree = Inr b" using sample_tree_encodes by blast
  have d: "tree_decode b = Inr sample_tree" by (rule tree_dec_enc [OF sample_tree_wf b])
  from tree_strict [OF d] d b show ?thesis by (auto split: if_splits)
qed

end
