(* ===== verification/Markers.thy ===== *)
theory Markers
  imports Conflict
begin

text \<open>
  Marker files (\<open>crates/naatre-core/src/conflict.rs\<close>, lines 118 to 370): the rendering of a
  conflict representation as text, the detector that recognises a rendering, and the
  first-line screen in front of it. \<open>fetch\<close>, the caller's blob reader, is a parameter; its error
  type is the caller's.
\<close>

section \<open>Rendering\<close>

text \<open>A \<open>usize\<close> in a format string, and \<open>str::parse\<close> of ASCII digits.\<close>

fun dec_str :: "nat \<Rightarrow> bytes" where
  "dec_str n = (if n < 10 then [word_of_nat (48 + n)] else dec_str (n div 10) @ [word_of_nat (48 + n mod 10)])"

declare dec_str.simps [simp del]

definition dec_val :: "bytes \<Rightarrow> nat" where
  "dec_val s = foldl (\<lambda>acc b. 10 * acc + (unat b - 48)) 0 s"

definition EXEC_TOKEN :: bytes where "EXEC_TOKEN = ascii '' +x''"

definition OPENER :: bytes where "OPENER = ascii ''<<<<<<< naatre side 1/''"
definition DIVIDER :: bytes where "DIVIDER = ascii ''======= naatre side ''"
definition BASE_LINE :: bytes where "BASE_LINE = ascii ''||||||| naatre base: ''"
definition CLOSER :: bytes where "CLOSER = ascii ''>>>>>>> naatre conflict: ''"
definition DELETED :: bytes where "DELETED = ascii ''deleted''"

definition exec_token :: "bool \<Rightarrow> bytes" where
  "exec_token exec = (if exec then EXEC_TOKEN else [])"

definition push_block :: "bytes \<Rightarrow> bytes" where
  "push_block content =
     content @ (if content \<noteq> [] \<and> last content \<noteq> 10 then [10] else [])"

definition base_block :: "(oid \<Rightarrow> 'e + bytes) \<Rightarrow> conflict_rep \<Rightarrow> 'e + bytes" where
  "base_block fetch rep =
     (case rep_base rep of
        None \<Rightarrow> Inr []
      | Some base \<Rightarrow>
          rbind (fetch base) (\<lambda>content.
            Inr (BASE_LINE @ to_hex base @ exec_token (rep_base_exec rep) @ [10] @ push_block content)))"

text \<open>\<open>rep.sides_exec.get(i).copied().unwrap_or(false)\<close>.\<close>

definition side_exec_at :: "conflict_rep \<Rightarrow> nat \<Rightarrow> bool" where
  "side_exec_at rep i = (i < length (rep_sides_exec rep) \<and> rep_sides_exec rep ! i)"

fun side_blocks ::
    "(oid \<Rightarrow> 'e + bytes) \<Rightarrow> conflict_rep \<Rightarrow> nat \<Rightarrow> nat \<Rightarrow> oid list \<Rightarrow> 'e + bytes" where
  "side_blocks fetch rep n i [] = Inr []"
| "side_blocks fetch rep n i (side # sides) =
     (let sx = exec_token (side_exec_at rep i) in
      rbind (if i = 0 then Inr (OPENER @ dec_str n @ ascii '': '' @ to_hex side @ sx @ [10])
             else
               rbind (if i = 1 then base_block fetch rep else Inr []) (\<lambda>base.
                 Inr (base @ DIVIDER @ dec_str (i + 1) @ ascii ''/'' @ dec_str n @ ascii '': '' @
                      to_hex side @ sx @ [10]))) (\<lambda>head.
      rbind (fetch side) (\<lambda>content.
      rbind (side_blocks fetch rep n (i + 1) sides) (\<lambda>rest.
        Inr (head @ push_block content @ rest)))))"

definition deleted_block ::
    "(oid \<Rightarrow> 'e + bytes) \<Rightarrow> conflict_rep \<Rightarrow> nat \<Rightarrow> 'e + bytes" where
  "deleted_block fetch rep n =
     (if rep_deleted rep then
        rbind (if length (rep_sides rep) = 1 then base_block fetch rep else Inr []) (\<lambda>base.
          Inr (base @ DIVIDER @ dec_str n @ ascii ''/'' @ dec_str n @ ascii '': '' @ DELETED @ [10]))
      else Inr [])"

definition side_total :: "conflict_rep \<Rightarrow> nat" where
  "side_total rep = length (rep_sides rep) + (if rep_deleted rep then 1 else 0)"

definition marker_bytes :: "conflict_rep \<Rightarrow> (oid \<Rightarrow> 'e + bytes) \<Rightarrow> 'e + bytes" where
  "marker_bytes rep fetch =
     (let n = side_total rep in
      rbind (side_blocks fetch rep n 0 (rep_sides rep)) (\<lambda>sides.
      rbind (deleted_block fetch rep n) (\<lambda>del.
        Inr (sides @ del @ CLOSER @ rep_path rep @ [10]))))"

section \<open>Detection\<close>

definition is_ascii_digit :: "byte \<Rightarrow> bool" where
  "is_ascii_digit b \<longleftrightarrow> 48 \<le> unat b \<and> unat b \<le> 57"

definition parse_canonical_decimal :: "bytes \<Rightarrow> nat option" where
  "parse_canonical_decimal s =
     (if s = [] \<or> length s > 6 \<or> \<not> list_all is_ascii_digit s then None
      else if length s > 1 \<and> hd s = 48 then None
      else Some (dec_val s))"

text \<open>\<open>is_ascii_hexdigit() && !is_ascii_uppercase()\<close> holds of the bytes 0 to 9 and a to f.\<close>

definition is_lower_hex :: "byte \<Rightarrow> bool" where
  "is_lower_hex b \<longleftrightarrow>
     (48 \<le> unat b \<and> unat b \<le> 57 \<or> 65 \<le> unat b \<and> unat b \<le> 70 \<or> 97 \<le> unat b \<and> unat b \<le> 102) \<and>
     \<not> (65 \<le> unat b \<and> unat b \<le> 90)"

definition is_blob_hex :: "bytes \<Rightarrow> bool" where
  "is_blob_hex i \<longleftrightarrow> length i = 64 \<and> list_all is_lower_hex i"

definition is_side_ref :: "bytes \<Rightarrow> bool" where
  "is_side_ref field =
     is_blob_hex (case strip_suffix EXEC_TOKEN field of None \<Rightarrow> field | Some i \<Rightarrow> i)"

definition parse_opener :: "bytes \<Rightarrow> (nat \<times> bytes) option" where
  "parse_opener line =
     Option.bind (strip_prefix OPENER line) (\<lambda>rest.
     Option.bind (split_once (ascii '': '') rest) (\<lambda>(n, i).
     Option.bind (parse_canonical_decimal n) (\<lambda>n.
       if 2 \<le> n \<and> n \<le> MAX_ENTRIES then Some (n, i) else None)))"

definition parse_side_divider :: "bytes \<Rightarrow> (nat \<times> nat \<times> bytes) option" where
  "parse_side_divider line =
     Option.bind (strip_prefix DIVIDER line) (\<lambda>rest.
     Option.bind (split_once (ascii '': '') rest) (\<lambda>(kn, i).
     Option.bind (split_once (ascii ''/'') kn) (\<lambda>(k, n).
     Option.bind (parse_canonical_decimal k) (\<lambda>k.
     Option.bind (parse_canonical_decimal n) (\<lambda>n. Some (k, n, i))))))"

text \<open>The loop over the lines between opener and closer, with its three variables.\<close>

fun marker_scan :: "nat \<Rightarrow> nat \<Rightarrow> bool \<Rightarrow> bool \<Rightarrow> bytes list \<Rightarrow> bool" where
  "marker_scan n expected_side base_seen deleted_seen [] \<longleftrightarrow> expected_side = n + 1"
| "marker_scan n expected_side base_seen deleted_seen (line # lines) \<longleftrightarrow>
     (if deleted_seen then False
      else case parse_side_divider line of
        Some (k, n_line, i) \<Rightarrow>
          (if k \<noteq> expected_side \<or> n_line \<noteq> n then False
           else if i = DELETED then
             (if k \<noteq> n then False else marker_scan n (expected_side + 1) base_seen True lines)
           else if \<not> is_side_ref i then False
           else marker_scan n (expected_side + 1) base_seen deleted_seen lines)
      | None \<Rightarrow>
          (case strip_prefix BASE_LINE line of
             Some i \<Rightarrow>
               (if base_seen \<or> expected_side \<noteq> 2 \<or> \<not> is_side_ref i then False
                else marker_scan n expected_side True deleted_seen lines)
           | None \<Rightarrow> marker_scan n expected_side base_seen deleted_seen lines))"

definition marker_shaped :: "bytes \<Rightarrow> bool" where
  "marker_shaped bytes \<longleftrightarrow>
     (if \<not> utf8_valid bytes then False
      else case str_lines bytes of
        [] \<Rightarrow> False
      | first # middle \<Rightarrow>
          (case parse_opener first of
             None \<Rightarrow> False
           | Some (n, i) \<Rightarrow>
               if \<not> is_side_ref i then False
               else if middle = [] then False
               else (case strip_prefix CLOSER (last middle) of
                       None \<Rightarrow> False
                     | Some path \<Rightarrow>
                         if path = [] then False
                         else marker_scan n 2 False False (butlast middle))))"

definition marker_opener :: "bytes \<Rightarrow> bool" where
  "marker_opener prefix \<longleftrightarrow>
     (case split_once [10] prefix of
        None \<Rightarrow> False
      | Some (line, _) \<Rightarrow>
          (let line = (case strip_suffix [13] line of None \<Rightarrow> line | Some l \<Rightarrow> l) in
           if \<not> utf8_valid line then False
           else case parse_opener line of None \<Rightarrow> False | Some (_, i) \<Rightarrow> is_side_ref i))"

definition MARKER_PREFIX_BYTES :: nat where "MARKER_PREFIX_BYTES = 128"

section \<open>Lines\<close>

lemma split_on_newline_end:
  "split_on c (xs @ c # ys) = butlast (split_on c (xs @ [c])) @ split_on c ys"
proof (induction "length xs" arbitrary: xs rule: less_induct)
  case less
  show ?case
  proof (cases "c \<in> set xs")
    case True
    then obtain as bs where xs: "xs = as @ c # bs" "c \<notin> set as" by (meson split_list_first)
    then show ?thesis using less [of bs] by (simp add: split_on_append)
  next
    case False
    then show ?thesis by (simp add: split_on_append)
  qed
qed

lemma last_split_on_end: "last (split_on c (xs @ [c])) = []"
  by (metis last_snoc split_on.simps(1) split_on_newline_end)

lemma str_lines_append: "str_lines (xs @ 10 # ys) = str_lines (xs @ [10]) @ str_lines ys"
  by (simp add: str_lines_def Let_def split_on_newline_end [of 10 xs ys] last_split_on_end
      butlast_append)

text \<open>Text that is empty or ends in a newline.\<close>

definition line_text :: "bytes \<Rightarrow> bool" where
  "line_text t \<longleftrightarrow> t = [] \<or> last t = 10"

lemma str_lines_Nil [simp]: "str_lines [] = []"
  by (simp add: str_lines_def)

lemma str_lines_line_text: "line_text t \<Longrightarrow> str_lines (t @ u) = str_lines t @ str_lines u"
proof (cases t rule: rev_cases)
  case (snoc xs b)
  assume "line_text t"
  with snoc show ?thesis using str_lines_append [of xs u] by (simp add: line_text_def)
qed simp

lemma str_lines_one: "10 \<notin> set l \<Longrightarrow> str_lines (l @ [10]) = [strip_cr l]"
  by (simp add: str_lines_def Let_def split_on_append)

lemma line_text_append [intro]: "line_text t \<Longrightarrow> line_text u \<Longrightarrow> line_text (t @ u)"
  by (cases "u = []") (simp_all add: line_text_def)

lemma line_text_push_block [simp]: "line_text (push_block c)"
  by (simp add: line_text_def push_block_def)

lemma line_text_one [simp]: "line_text (l @ [10])" by (simp add: line_text_def)

section \<open>Decimals\<close>

lemma dec_val_append: "dec_val (s @ [b]) = 10 * dec_val s + (unat b - 48)"
  by (simp add: dec_val_def)

lemma unat_digit: "d < 10 \<Longrightarrow> unat (48 + word_of_nat d :: byte) = 48 + d"
proof -
  assume "d < 10"
  then have "unat (word_of_nat (48 + d) :: byte) = 48 + d"
    by (simp add: unat_of_nat take_bit_eq_mod del: of_nat_add)
  then show ?thesis by simp
qed

lemma dec_val_dec_str: "dec_val (dec_str n) = n"
proof (induction n rule: dec_str.induct)
  case (1 n)
  show ?case
  proof (cases "n < 10")
    case True
    then show ?thesis by (subst dec_str.simps) (simp add: dec_val_def unat_digit)
  next
    case False
    with 1 show ?thesis by (subst dec_str.simps) (simp add: dec_val_append unat_digit)
  qed
qed

lemma dec_str_not_Nil [simp]: "dec_str n \<noteq> []"
  by (subst dec_str.simps) simp

lemma dec_str_digits: "list_all is_ascii_digit (dec_str n)"
proof (induction n rule: dec_str.induct)
  case (1 n)
  then show ?case
    by (subst dec_str.simps) (auto simp: is_ascii_digit_def [of "48 + _"] unat_digit)
qed

lemma dec_str_head: "0 < n \<Longrightarrow> hd (dec_str n) \<noteq> 48"
proof (induction n rule: dec_str.induct)
  case (1 n)
  show ?case
  proof (cases "n < 10")
    case True
    then have "unat (48 + word_of_nat n :: byte) \<noteq> unat (48 :: byte)" using 1 by (simp add: unat_digit)
    then have "(48 + word_of_nat n :: byte) \<noteq> 48" by metis
    then show ?thesis using True by (subst dec_str.simps) simp
  next
    case False
    with 1 show ?thesis by (subst dec_str.simps) simp
  qed
qed

lemma dec_str_length: "n < 10 ^ Suc k \<Longrightarrow> length (dec_str n) \<le> Suc k"
proof (induction k arbitrary: n)
  case 0
  then show ?case by (subst dec_str.simps) simp
next
  case (Suc k)
  have "n div 10 < 10 ^ Suc k" using Suc.prems by (simp add: less_mult_imp_div_less)
  then show ?case using Suc.IH [of "n div 10"] by (subst dec_str.simps) simp
qed

lemma parse_dec_str: "0 < n \<Longrightarrow> n < 1000000 \<Longrightarrow> parse_canonical_decimal (dec_str n) = Some n"
  using dec_str_length [of n 5] dec_str_digits [of n] dec_str_head [of n]
  by (simp add: parse_canonical_decimal_def dec_val_dec_str)

lemma digit_set: "b \<in> set (dec_str n) \<Longrightarrow> 48 \<le> unat b \<and> unat b \<le> 57"
  using dec_str_digits [of n] by (auto simp: list_all_iff is_ascii_digit_def)

section \<open>Side references\<close>

lemma is_lower_hex_HEX: "b \<in> set HEX_DIGITS \<Longrightarrow> is_lower_hex b"
  by (auto simp: HEX_DIGITS_def ascii_def is_lower_hex_def)

lemma is_blob_hex_to_hex: "wf_id i \<Longrightarrow> is_blob_hex (to_hex i)"
  using to_hex_set [of i] is_lower_hex_HEX by (auto simp: is_blob_hex_def wf_id_def list_all_iff)

lemma is_side_ref_to_hex: "wf_id i \<Longrightarrow> is_side_ref (to_hex i @ exec_token e)"
proof (cases e)
  case True
  assume "wf_id i"
  moreover have "strip_suffix EXEC_TOKEN (to_hex i @ EXEC_TOKEN) = Some (to_hex i)"
    by (simp add: strip_suffix_eq_Some)
  ultimately show ?thesis using True by (simp add: is_side_ref_def exec_token_def is_blob_hex_to_hex)
next
  case False
  assume i: "wf_id i"
  have "strip_suffix EXEC_TOKEN (to_hex i) = None"
  proof (rule ccontr)
    assume "strip_suffix EXEC_TOKEN (to_hex i) \<noteq> None"
    then obtain r where "to_hex i = r @ EXEC_TOKEN" by (auto simp: strip_suffix_eq_Some)
    then have "set EXEC_TOKEN \<subseteq> set HEX_DIGITS" using to_hex_set [of i] by simp
    then show False by (simp add: EXEC_TOKEN_def HEX_DIGITS_def ascii_def)
  qed
  then show ?thesis using i False by (simp add: is_side_ref_def exec_token_def is_blob_hex_to_hex)
qed

lemma split_once_colon:
  "58 \<notin> set a \<Longrightarrow> split_once (ascii '': '') (a @ ascii '': '' @ b) = Some (a, b)"
  by (induction a) (auto simp: ascii_def)

lemma no_colon_dec: "58 \<notin> set (dec_str n)" "47 \<notin> set (dec_str n)" "10 \<notin> set (dec_str n)"
  using digit_set [of _ n] by fastforce+

lemma parse_opener_line:
  "2 \<le> n \<Longrightarrow> n \<le> MAX_ENTRIES \<Longrightarrow> parse_opener (OPENER @ dec_str n @ ascii '': '' @ f) = Some (n, f)"
  using split_once_colon [OF no_colon_dec(1), of n f]
  by (simp add: parse_opener_def parse_dec_str MAX_ENTRIES_def)

lemma parse_divider_line:
  "0 < k \<Longrightarrow> 0 < n \<Longrightarrow> k \<le> MAX_ENTRIES \<Longrightarrow> n \<le> MAX_ENTRIES \<Longrightarrow>
   parse_side_divider (DIVIDER @ dec_str k @ ascii ''/'' @ dec_str n @ ascii '': '' @ f) = Some (k, n, f)"
proof -
  assume a: "0 < k" "0 < n" "k \<le> MAX_ENTRIES" "n \<le> MAX_ENTRIES"
  have "58 \<notin> set (dec_str k @ ascii ''/'' @ dec_str n)" using no_colon_dec by (auto simp: ascii_def)
  from split_once_colon [OF this, of f]
  have "split_once (ascii '': '') (dec_str k @ ascii ''/'' @ dec_str n @ ascii '': '' @ f) =
    Some (dec_str k @ ascii ''/'' @ dec_str n, f)" by simp
  moreover have "split_once (ascii ''/'') (dec_str k @ ascii ''/'' @ dec_str n) = Some (dec_str k, dec_str n)"
    using no_colon_dec(2) [of k] by (simp add: ascii_def split_once_eq_Some_single)
  ultimately show ?thesis using a by (simp add: parse_side_divider_def parse_dec_str MAX_ENTRIES_def)
qed

section \<open>The scan over a rendering\<close>

text \<open>A line that is neither a divider nor a base line, and content made of such lines.\<close>

definition neutral_line :: "bytes \<Rightarrow> bool" where
  "neutral_line l \<longleftrightarrow> parse_side_divider l = None \<and> strip_prefix BASE_LINE l = None"

definition plain_content :: "bytes \<Rightarrow> bool" where
  "plain_content c \<longleftrightarrow> utf8_valid c \<and> list_all neutral_line (str_lines (push_block c))"

text \<open>Every blob the reader returns for these ids is such content.\<close>

definition plain_fetch :: "(oid \<Rightarrow> 'e + bytes) \<Rightarrow> oid set \<Rightarrow> bool" where
  "plain_fetch fetch S \<longleftrightarrow> (\<forall>i \<in> S. \<forall>c. fetch i = Inr c \<longrightarrow> plain_content c)"

lemma plain_fetchD: "plain_fetch fetch S \<Longrightarrow> fetch i = Inr c \<Longrightarrow> i \<in> S \<Longrightarrow> plain_content c"
  by (auto simp: plain_fetch_def)

lemma plain_fetch_mono: "plain_fetch fetch S \<Longrightarrow> T \<subseteq> S \<Longrightarrow> plain_fetch fetch T"
  by (auto simp: plain_fetch_def)

lemma scan_neutral:
  "list_all neutral_line ls \<Longrightarrow> marker_scan n e b False (ls @ r) = marker_scan n e b False r"
  by (induction ls) (simp_all add: neutral_line_def)

definition printable :: "bytes \<Rightarrow> bool" where
  "printable l \<longleftrightarrow> (\<forall>b \<in> set l. 32 \<le> unat b \<and> unat b < 128)"

lemma printable_simps [simp]:
  "printable [] = True" "printable (xs @ ys) \<longleftrightarrow> printable xs \<and> printable ys"
  "printable OPENER" "printable DIVIDER" "printable BASE_LINE" "printable CLOSER" "printable DELETED"
  "printable EXEC_TOKEN" "printable (ascii '': '')" "printable (ascii ''/'')"
  by (auto simp: printable_def OPENER_def DIVIDER_def BASE_LINE_def CLOSER_def DELETED_def EXEC_TOKEN_def
      ascii_def)

lemma printable_dec_str [simp]: "printable (dec_str n)"
  using digit_set [of _ n] by (fastforce simp: printable_def)

lemma printable_to_hex [simp]: "printable (to_hex i)"
  using to_hex_set [of i] by (fastforce simp: printable_def HEX_DIGITS_def ascii_def)

lemma printable_exec_token [simp]: "printable (exec_token e)"
  by (simp add: exec_token_def)

lemma printable_no_break: "printable l \<Longrightarrow> 10 \<notin> set l \<and> 13 \<notin> set l"
  by (auto simp: printable_def)

lemma printable_utf8: "printable l \<Longrightarrow> utf8_valid l"
  by (auto simp: printable_def intro: utf8_valid_all_ascii)

lemma strip_cr_id: "13 \<notin> set l \<Longrightarrow> strip_cr l = l"
  by (metis last_in_set strip_cr_def)

lemma str_lines_header:
  "printable h \<Longrightarrow> str_lines (h @ [10] @ t) = h # str_lines t"
  using str_lines_append [of h t] str_lines_one [of h] printable_no_break [of h] strip_cr_id [of h] by simp

lemma utf8_newline: "utf8_valid xs \<Longrightarrow> utf8_valid (xs @ [10] @ ys) \<longleftrightarrow> utf8_valid ys"
  by (simp add: utf8_valid_append_iff utf8_valid_ascii_Cons)

lemma utf8_push_block [simp]: "utf8_valid c \<Longrightarrow> utf8_valid (push_block c)"
  by (simp add: push_block_def utf8_valid_append_iff utf8_valid_ascii_Cons)

lemma line_text_block [simp]: "line_text (h @ 10 # push_block c)"
  by (cases "push_block c = []") (use line_text_push_block [of c] in \<open>simp_all add: line_text_def\<close>)

lemma line_text_header: "line_text t \<Longrightarrow> line_text (h @ 10 # t)"
  by (cases "t = []") (simp_all add: line_text_def)

lemma base_block_scan:
  assumes "base_block fetch rep = Inr s" and "pred_option wf_id (rep_base rep)"
    and "plain_fetch fetch (set_option (rep_base rep))"
  shows "line_text s" and "utf8_valid s"
    and "marker_scan n 2 False False (str_lines s @ r) = marker_scan n 2 (rep_base rep \<noteq> None) False r"
proof -
  have "line_text s \<and> utf8_valid s \<and>
    marker_scan n 2 False False (str_lines s @ r) = marker_scan n 2 (rep_base rep \<noteq> None) False r"
  proof (cases "rep_base rep")
    case (Some base)
    with assms(1) obtain c where c: "fetch base = Inr c" and
      s: "s = (BASE_LINE @ to_hex base @ exec_token (rep_base_exec rep)) @ [10] @ push_block c"
      by (auto simp: base_block_def rbind_eq_Inr)
    let ?f = "to_hex base @ exec_token (rep_base_exec rep)"
    have pc: "plain_content c" using plain_fetchD [OF assms(3) c] Some by simp
    have "parse_side_divider (BASE_LINE @ ?f) = None"
      by (simp add: parse_side_divider_def BASE_LINE_def DIVIDER_def ascii_def)
    moreover have "is_side_ref ?f" using assms(2) Some by (simp add: is_side_ref_to_hex)
    moreover have "str_lines s = (BASE_LINE @ ?f) # str_lines (push_block c)"
      unfolding s by (rule str_lines_header) simp
    ultimately have "marker_scan n 2 False False (str_lines s @ r) = marker_scan n 2 (rep_base rep \<noteq> None) False r"
      using pc Some by (simp add: scan_neutral plain_content_def)
    moreover have "utf8_valid s"
      unfolding s by (subst utf8_newline) (use pc in \<open>simp_all add: printable_utf8 plain_content_def\<close>)
    moreover have "line_text s"
      unfolding s append.simps by (rule line_text_block)
    ultimately show ?thesis by blast
  qed (use assms(1) in \<open>simp add: base_block_def line_text_def\<close>)
  then show "line_text s" "utf8_valid s"
    "marker_scan n 2 False False (str_lines s @ r) = marker_scan n 2 (rep_base rep \<noteq> None) False r" by auto
qed

definition divider_line :: "nat \<Rightarrow> nat \<Rightarrow> bytes \<Rightarrow> bytes" where
  "divider_line k n f = DIVIDER @ dec_str k @ ascii ''/'' @ dec_str n @ ascii '': '' @ f"

lemma scan_divider:
  assumes "0 < k" "k \<le> n" "n \<le> MAX_ENTRIES" "wf_id i"
  shows "marker_scan n k b False (divider_line k n (to_hex i @ exec_token e) # ls) = marker_scan n (Suc k) b False ls"
proof -
  have "to_hex i @ exec_token e \<noteq> DELETED"
  proof
    assume "to_hex i @ exec_token e = DELETED"
    then have "length (to_hex i @ exec_token e) = length DELETED" by (rule arg_cong)
    then show False using assms(4) by (simp add: wf_id_def DELETED_def ascii_def)
  qed
  then show ?thesis using assms by (simp add: divider_line_def parse_divider_line is_side_ref_to_hex)
qed

lemma later_blocks_scan:
  assumes "side_blocks fetch rep n i sides = Inr s" and "2 \<le> i" and "i + length sides \<le> n"
    and "n \<le> MAX_ENTRIES" and "\<forall>x \<in> set sides. wf_id x"
    and "plain_fetch fetch (set sides)"
  shows "line_text s \<and> utf8_valid s \<and>
    marker_scan n (Suc i) b False (str_lines s @ r) = marker_scan n (Suc i + length sides) b False r"
  using assms
proof (induction sides arbitrary: i s)
  case (Cons side sides)
  from Cons.prems obtain c t where c: "fetch side = Inr c"
    and t: "side_blocks fetch rep n (i + 1) sides = Inr t"
    and s: "s = divider_line (i + 1) n (to_hex side @ exec_token (side_exec_at rep i)) @ [10] @ push_block c @ t"
    by (auto simp: Let_def rbind_eq_Inr divider_line_def)
  have pc: "plain_content c" using plain_fetchD [OF Cons.prems(6) c] by simp
  have IH: "line_text t" "utf8_valid t"
    "marker_scan n (Suc (i + 1)) b False (str_lines t @ r) = marker_scan n (Suc (i + 1) + length sides) b False r"
    using Cons.IH [OF t] Cons.prems plain_fetch_mono [OF Cons.prems(6), of "set sides"] by auto
  have pr: "printable (divider_line (i + 1) n (to_hex side @ exec_token (side_exec_at rep i)))"
    by (simp add: divider_line_def)
  have lines: "str_lines s = divider_line (i + 1) n (to_hex side @ exec_token (side_exec_at rep i)) #
      str_lines (push_block c) @ str_lines t"
    unfolding s by (simp only: str_lines_header [OF pr] str_lines_line_text [OF line_text_push_block])
  have "marker_scan n (Suc i) b False (str_lines s @ r) = marker_scan n (Suc i + length (side # sides)) b False r"
    using Cons.prems pc IH(3) scan_divider [of "i + 1" n side b "side_exec_at rep i"]
    by (simp add: lines scan_neutral plain_content_def)
  moreover have "utf8_valid s"
    unfolding s utf8_newline [OF printable_utf8 [OF pr]] using pc IH(2) by (auto simp: plain_content_def)
  moreover have "line_text s"
    unfolding s append.simps using IH(1) by (intro line_text_header line_text_append) simp_all
  ultimately show ?case by blast
qed (simp add: line_text_def)

lemma utf8_ascii_char:
  assumes "utf8_valid p" "b \<in> set p" "unat b < 128" shows "unat b \<in> chars p"
proof -
  from assms(2) obtain xs ys where p: "p = xs @ [b] @ ys" by (metis append_Cons append_Nil split_list)
  with utf8_valid_cut [of xs b ys] assms have v: "utf8_valid xs" "utf8_valid ys" by auto
  have b: "utf8_valid [b]" using assms(3) by (simp add: utf8_valid_ascii_Cons)
  have "chars [b] = {unat b}" using assms(3) by (simp add: chars_def char_indices_def char_indices_from_ascii)
  then show ?thesis unfolding p using chars_append [OF v(1) utf8_valid_append [OF b v(2)]] chars_append [OF b v(2)] by auto
qed

lemma validate_no_break:
  assumes "validate nfc p = Inr ()" and "utf8_valid p" shows "10 \<notin> set p \<and> 13 \<notin> set p \<and> p \<noteq> []"
proof -
  have "c \<notin> chars p" if "is_cc c" for c using assms(1) that by (auto simp: validate_Ok_iff chars_def)
  then show ?thesis using utf8_ascii_char [OF assms(2), of 10] utf8_ascii_char [OF assms(2), of 13] assms(1)
    by (auto simp: is_cc_def validate_Ok_iff)
qed

lemma second_blocks_scan:
  assumes s: "side_blocks fetch rep n 1 sides = Inr s" and "sides \<noteq> []" and "1 + length sides \<le> n"
    and "n \<le> MAX_ENTRIES" and "\<forall>x \<in> set sides. wf_id x" and "pred_option wf_id (rep_base rep)"
    and plain: "plain_fetch fetch (set sides \<union> set_option (rep_base rep))"
  shows "line_text s \<and> utf8_valid s \<and>
    marker_scan n 2 False False (str_lines s @ r) =
      marker_scan n (2 + length sides) (rep_base rep \<noteq> None) False r"
proof -
  obtain side rest where sides: "sides = side # rest" using assms(2) by (cases sides) auto
  let ?h = "divider_line 2 n (to_hex side @ exec_token (side_exec_at rep 1))" and ?b = "rep_base rep \<noteq> None"
  from s obtain base c t where base: "base_block fetch rep = Inr base" and c: "fetch side = Inr c"
    and t: "side_blocks fetch rep n 2 rest = Inr t" and s: "s = base @ ?h @ [10] @ push_block c @ t"
    by (auto simp: sides Let_def rbind_eq_Inr divider_line_def numeral_2_eq_2)
  have pc: "plain_content c" using plain_fetchD [OF plain c] by (simp add: sides)
  have pr: "printable ?h" by (simp add: divider_line_def)
  note bs = base_block_scan [OF base assms(6) plain_fetch_mono [OF plain Un_upper2]]
  have ls: "line_text t \<and> utf8_valid t \<and>
    marker_scan n (Suc 2) ?b False (str_lines t @ r) = marker_scan n (Suc 2 + length rest) ?b False r"
    using assms(3-5) plain_fetch_mono [OF plain, of "set rest"]
    by (intro later_blocks_scan [OF t]) (auto simp: sides)
  have lines: "str_lines s = str_lines base @ ?h # str_lines (push_block c) @ str_lines t"
    unfolding s using bs(1) by (simp only: str_lines_line_text str_lines_header [OF pr] line_text_push_block)
  have "marker_scan n 2 False False (str_lines s @ r) = marker_scan n (2 + length sides) ?b False r"
  proof -
    have hd: "marker_scan n 2 ?b False (?h # ls) = marker_scan n (Suc 2) ?b False ls" for ls
      using assms(3-5) by (intro scan_divider) (auto simp: sides)
    have neutral: "marker_scan n e c False (str_lines (push_block c') @ ls) = marker_scan n e c False ls"
      if "plain_content c'" for e c c' ls using that by (simp add: scan_neutral plain_content_def)
    have len: "2 + length sides = Suc 2 + length rest" by (simp add: sides)
    show ?thesis
      unfolding len using ls by (simp only: lines append_assoc append_Cons bs(3) hd neutral [OF pc])
  qed
  moreover have "utf8_valid (push_block c @ t)"
    using ls pc by (intro utf8_valid_append) (simp_all add: plain_content_def)
  then have "utf8_valid s"
    unfolding s using utf8_valid_append [OF bs(2)] utf8_newline [OF printable_utf8 [OF pr]] by blast
  moreover have "line_text s"
    unfolding s append.simps
    by (rule line_text_append [OF bs(1) line_text_header [OF line_text_append]]) (simp_all add: ls)
  ultimately show ?thesis by blast
qed

lemma deleted_block_scan:
  assumes s: "deleted_block fetch rep n = Inr s" and n: "n = side_total rep"
    and "n \<le> MAX_ENTRIES" and "2 \<le> n" and "pred_option wf_id (rep_base rep)"
    and "plain_fetch fetch (set_option (rep_base rep))"
    and b: "b = (1 < length (rep_sides rep) \<and> rep_base rep \<noteq> None)"
  shows "line_text s \<and> utf8_valid s \<and> marker_scan n (Suc (length (rep_sides rep))) b False (str_lines s)"
proof (cases "rep_deleted rep")
  case True
  let ?h = "divider_line n n DELETED"
  have len: "Suc (length (rep_sides rep)) = n" using True by (simp add: n side_total_def)
  have pr: "printable ?h" by (simp add: divider_line_def)
  have del: "marker_scan n n c False [?h] = True" for c
    using assms(3,4) by (simp add: divider_line_def parse_divider_line)
  obtain base where base: "(if length (rep_sides rep) = 1 then base_block fetch rep else Inr []) = Inr base"
    and s: "s = base @ ?h @ [10]"
    using s True by (auto simp: deleted_block_def rbind_eq_Inr divider_line_def)
  have bs: "line_text base \<and> utf8_valid base \<and> (\<exists>c. \<forall>r. marker_scan n n b False (str_lines base @ r) = marker_scan n n c False r)"
  proof (cases "length (rep_sides rep) = 1")
    case True
    then have "base_block fetch rep = Inr base" and "n = 2" and "b = False" using base len b by auto
    with base_block_scan [of fetch rep base, OF _ assms(5,6)] show ?thesis by blast
  next
    case False
    then show ?thesis using base by (auto simp: line_text_def)
  qed
  then have "str_lines s = str_lines base @ [?h]"
    unfolding s using str_lines_header [OF pr, of "[]"] by (simp add: str_lines_line_text)
  moreover have "utf8_valid s"
    unfolding s using bs utf8_newline [OF printable_utf8 [OF pr], of "[]"] by auto
  ultimately show ?thesis using bs del len by (auto simp: s line_text_def)
next
  case False
  then show ?thesis using s by (auto simp: deleted_block_def line_text_def n side_total_def)
qed


lemma rendering_shaped:
  assumes v: "validate_rep nfc rep = Inr ()" and u: "utf8_valid (rep_path rep)"
    and ids: "list_all wf_id (rep_sides rep)" "pred_option wf_id (rep_base rep)"
    and cap: "side_total rep \<le> MAX_ENTRIES"
    and plain: "plain_fetch fetch (set (rep_sides rep) \<union> set_option (rep_base rep))"
    and b: "marker_bytes rep fetch = Inr b"
  shows "marker_shaped b"
proof -
  let ?n = "side_total rep"
  have n2: "2 \<le> ?n" "rep_sides rep \<noteq> []"
    using v by (auto simp: validate_rep_Ok not_sides_bad rep_shape_def side_total_def split: if_splits)
  then obtain side sides where sides: "rep_sides rep = side # sides" by (cases "rep_sides rep") auto
  let ?f = "to_hex side @ exec_token (side_exec_at rep 0)"
  let ?h = "OPENER @ dec_str ?n @ ascii '': '' @ ?f"
  from b obtain c t del where c: "fetch side = Inr c" and t: "side_blocks fetch rep ?n 1 sides = Inr t"
    and del: "deleted_block fetch rep ?n = Inr del"
    and b: "b = ?h @ [10] @ push_block c @ t @ del @ (CLOSER @ rep_path rep) @ [10]"
    by (auto simp: marker_bytes_def Let_def rbind_eq_Inr sides)
  have pc: "plain_content c" using plain_fetchD [OF plain c] by (simp add: sides)
  have pr: "printable ?h" by simp
  have nb: "10 \<notin> set (rep_path rep)" "13 \<notin> set (rep_path rep)" "rep_path rep \<noteq> []"
    using validate_no_break [OF _ u] v by (auto simp: validate_rep_Ok)
  have closer: "str_lines ((CLOSER @ rep_path rep) @ [10]) = [CLOSER @ rep_path rep]"
    using nb printable_no_break [of CLOSER] by (subst str_lines_one) (simp_all add: strip_cr_id)
  let ?b = "1 < length (rep_sides rep) \<and> rep_base rep \<noteq> None"
  have ts: "line_text t \<and> utf8_valid t \<and> marker_scan ?n 2 False False (str_lines t @ r) =
      marker_scan ?n (Suc (length (rep_sides rep))) ?b False r" for r
  proof (cases "sides = []")
    case False
    have "line_text t \<and> utf8_valid t \<and> marker_scan ?n 2 False False (str_lines t @ r) =
      marker_scan ?n (2 + length sides) (rep_base rep \<noteq> None) False r"
      using False ids cap plain_fetch_mono [OF plain, of "set sides \<union> set_option (rep_base rep)"]
      by (intro second_blocks_scan [OF t]) (auto simp: sides side_total_def list_all_iff)
    then show ?thesis using False by (simp add: sides)
  qed (use t in \<open>simp add: sides line_text_def numeral_2_eq_2\<close>)
  have ds: "line_text del \<and> utf8_valid del \<and> marker_scan ?n (Suc (length (rep_sides rep))) ?b False (str_lines del)"
    by (rule deleted_block_scan [OF del refl cap n2(1) ids(2)]) (use plain_fetch_mono [OF plain Un_upper2] in simp_all)
  have "str_lines b = ?h # str_lines (push_block c) @ str_lines t @ str_lines del @ [CLOSER @ rep_path rep]"
    unfolding b using ts ds by (simp only: str_lines_header [OF pr] str_lines_line_text line_text_push_block closer)
  moreover have "utf8_valid b"
  proof -
    have "utf8_valid (CLOSER @ rep_path rep)" using utf8_valid_append [OF printable_utf8 u] by simp
    then have "utf8_valid ((CLOSER @ rep_path rep) @ [10])" using utf8_newline [of "CLOSER @ rep_path rep" "[]"] by simp
    moreover have "utf8_valid (push_block c)" "utf8_valid t" "utf8_valid del"
      using pc ts ds by (simp_all add: plain_content_def)
    ultimately show ?thesis
      unfolding b utf8_newline [OF printable_utf8 [OF pr]] by (simp only: utf8_valid_append)
  qed
  moreover have "parse_opener ?h = Some (?n, ?f)" using n2(1) cap by (rule parse_opener_line)
  moreover have "is_side_ref ?f" using ids by (simp add: sides is_side_ref_to_hex)
  moreover have "marker_scan ?n 2 False False (str_lines (push_block c) @ str_lines t @ str_lines del)"
    using pc ts ds by (simp add: scan_neutral plain_content_def)
  ultimately show ?thesis using nb by (simp add: marker_shaped_def butlast_append)
qed

lemma parse_canonical_decimal_length: "parse_canonical_decimal s = Some n \<Longrightarrow> length s \<le> 6"
  by (auto simp: parse_canonical_decimal_def split: if_splits)

lemma is_side_ref_length: "is_side_ref f \<Longrightarrow> length f \<le> 67"
  by (auto simp: is_side_ref_def is_blob_hex_def EXEC_TOKEN_def ascii_def strip_suffix_eq_Some
      split: option.splits)

text \<open>An opener line with a side reference is at most 97 bytes long.\<close>

lemma opener_length:
  assumes "parse_opener line = Some (n, f)" and "is_side_ref f" shows "length line \<le> 97"
proof -
  from assms(1) obtain d rest where "line = OPENER @ rest" "split_once (ascii '': '') rest = Some (d, f)"
    "parse_canonical_decimal d = Some n"
    by (auto simp: parse_opener_def strip_prefix_eq_Some bind_eq_Some_conv split: if_splits prod.splits)
  then have "line = OPENER @ d @ ascii '': '' @ f" and "length d \<le> 6"
    using split_once_append parse_canonical_decimal_length by fastforce+
  then show ?thesis using is_side_ref_length [OF assms(2)] by (simp add: OPENER_def ascii_def)
qed

lemma strip_suffix_cr: "(case strip_suffix [13] l of None \<Rightarrow> l | Some x \<Rightarrow> x) = strip_cr l"
proof (cases "strip_suffix [13] l")
  case None
  have "\<not> (l \<noteq> [] \<and> last l = 13)"
  proof
    assume "l \<noteq> [] \<and> last l = 13"
    then have "l = butlast l @ [13]" using append_butlast_last_id [of l] by simp
    then have "strip_suffix [13] l = Some (butlast l)" by (simp add: strip_suffix_eq_Some)
    with None show False by simp
  qed
  with None show ?thesis by (auto simp: strip_cr_def)
next
  case (Some x)
  then have "l = x @ [13]" by (simp add: strip_suffix_eq_Some)
  with Some show ?thesis by (simp add: strip_cr_def)
qed

lemma utf8_strip_cr: "utf8_valid l \<Longrightarrow> utf8_valid (strip_cr l)"
proof (cases "l \<noteq> [] \<and> last l = 13")
  case True
  assume "utf8_valid l"
  with True have "utf8_valid (butlast l @ 13 # [])" using append_butlast_last_id [of l] by simp
  then have "utf8_valid (butlast l)" by (rule utf8_valid_cut) simp
  with True show ?thesis by (simp add: strip_cr_def)
qed (auto simp: strip_cr_def)

lemma str_lines_first:
  assumes "str_lines b = first # middle" and "middle \<noteq> []"
  obtains l r where "b = l @ 10 # r" "10 \<notin> set l" "first = strip_cr l"
proof (cases "10 \<in> set b")
  case True
  then obtain l r where b: "b = l @ 10 # r" "10 \<notin> set l" by (meson split_list_first)
  have "str_lines b = strip_cr l # str_lines r"
    using str_lines_append [of l r] str_lines_one [OF b(2)] by (simp add: b(1))
  with b that assms(1) show ?thesis by simp
next
  case False
  then show ?thesis using assms by (auto simp: str_lines_def split_on_no_sep split: if_splits)
qed


section \<open>Properties\<close>

definition sample_fetch :: "oid \<Rightarrow> bytes + bytes" where
  "sample_fetch i = Inr (ascii ''x'')"

lemma sample_plain: "plain_fetch sample_fetch S"
proof -
  have "plain_content (ascii ''x'')"
    by (simp add: plain_content_def neutral_line_def push_block_def str_lines_def Let_def ascii_def
        utf8_valid_all_ascii strip_cr_def parse_side_divider_def DIVIDER_def BASE_LINE_def)
  then show ?thesis by (simp add: plain_fetch_def sample_fetch_def)
qed

lemma sample_marker: "\<exists>b. marker_bytes sample_rep sample_fetch = Inr b"
  by (simp add: marker_bytes_def sample_rep_def sample_fetch_def base_block_def deleted_block_def Let_def)

lemma sample_rep_ids:
  "list_all wf_id (rep_sides sample_rep)" "pred_option wf_id (rep_base sample_rep)"
  "utf8_valid (rep_path sample_rep)" "side_total sample_rep \<le> MAX_ENTRIES"
  "validate_rep (\<lambda>x. x) sample_rep = Inr ()"
  by (simp_all add: rep_eval wf_id_def side_total_def utf8_valid_all_ascii)

definition sample_marker_file :: bytes where
  "sample_marker_file = projr (marker_bytes sample_rep sample_fetch)"

lemma sample_marker_file_shaped: "marker_shaped sample_marker_file"
proof -
  obtain b where b: "marker_bytes sample_rep sample_fetch = Inr b"
    using sample_marker by blast
  from rendering_shaped [OF sample_rep_ids(5,3,1,2,4) sample_plain b] b show ?thesis
    by (simp add: sample_marker_file_def)
qed

text \<open>Every rendering is recognised. The marker file of a valid representation parses as a
  marker file, provided the total number of sides is within the entry cap and no line of the
  referenced contents itself reads as a divider or a base line (the ambiguity the source
  acknowledges).\<close>

theorem marker_shaped_rendering:
  assumes "validate_rep nfc rep = Inr ()" and "utf8_valid (rep_path rep)"
    and "list_all wf_id (rep_sides rep)" and "pred_option wf_id (rep_base rep)"
    and "side_total rep \<le> MAX_ENTRIES"
    and "plain_fetch fetch (set (rep_sides rep) \<union> set_option (rep_base rep))"
    and "marker_bytes rep fetch = Inr b"
  shows "marker_shaped b"
  using assms by (rule rendering_shaped)

theorem marker_shaped_rendering_witness:
  "\<exists>b. marker_bytes sample_rep sample_fetch = Inr b \<and> marker_shaped b"
proof -
  obtain b where b: "marker_bytes sample_rep sample_fetch = Inr b"
    using sample_marker by blast
  from marker_shaped_rendering [OF sample_rep_ids(5,3,1,2,4) sample_plain b] b show ?thesis by blast
qed

text \<open>The first-line screen never hides a marker file: if the detector accepts a blob, the
  screen accepts its first 128 bytes, so a caller that loads the whole blob only on a hit sees
  every marker file.\<close>

theorem marker_opener_screen:
  assumes "marker_shaped b" shows "marker_opener (take MARKER_PREFIX_BYTES b)"
proof -
  from assms obtain first middle n f where u: "utf8_valid b" and lines: "str_lines b = first # middle"
    and first: "parse_opener first = Some (n, f)" "is_side_ref f" and "middle \<noteq> []"
    by (auto simp: marker_shaped_def split: if_splits list.splits option.splits prod.splits)
  from str_lines_first [OF lines \<open>middle \<noteq> []\<close>] obtain l r where b: "b = l @ 10 # r" "10 \<notin> set l"
    and cr: "first = strip_cr l" by blast
  have "length l \<le> Suc (length first)" by (simp add: cr strip_cr_def)
  then have "length l \<le> 98" using opener_length [OF first] by simp
  then have "take MARKER_PREFIX_BYTES b = l @ 10 # take (127 - length l) r"
    by (simp add: MARKER_PREFIX_BYTES_def b(1) take_Cons' diff_le_mono2)
  then have "split_once [10] (take MARKER_PREFIX_BYTES b) = Some (l, take (127 - length l) r)"
    using b(2) by (simp add: split_once_eq_Some_single)
  moreover have "utf8_valid first"
    using utf8_valid_cut(1) [of l 10 r] u by (simp add: b(1) cr utf8_strip_cr)
  ultimately show ?thesis using first by (simp add: marker_opener_def strip_suffix_cr cr [symmetric] Let_def)
qed

theorem marker_opener_screen_witness:
  "marker_opener (take MARKER_PREFIX_BYTES sample_marker_file)"
  by (rule marker_opener_screen) (rule sample_marker_file_shaped)

end
