(* ===== verification/Mem_Tree.thy ===== *)
theory Mem_Tree
  imports Changeset Tree_Codec
begin

text \<open>
  Tree derivation, first part (\<open>crates/naatre-server/src/tree_derive.rs\<close>, lines 46 to 178 and
  297 to 354): the in-memory tree, path lookup, insertion and removal, and \<open>MemNode::apply\<close>.

  The abstract view of a tree is its file map \<open>files_of\<close>, from paths (component lists) to
  \<open>(blob, size, exec)\<close>. Theorems: \<open>apply\<close> keeps the tree well-formed, it refines the file-map
  operation \<open>abs_apply\<close>, errors included, and a well-formed tree is determined by its files.
\<close>

section \<open>The tree\<close>

datatype mem_entry = MFile oid u64 bool | MDir "(bytes \<times> mem_entry) list"

text \<open>A \<open>MemNode\<close> is its \<open>BTreeMap\<close> of entries.\<close>

type_synonym mem_node = "(bytes, mem_entry) omap"

datatype apply_error =
    FileInPath bytes
  | ModNotFile bytes
  | DelNotFile bytes
  | TooDeep bytes

definition mem_empty :: mem_node where "mem_empty = []"

definition split_leaf :: "bytes \<Rightarrow> bytes list \<times> bytes" where
  "split_leaf path = (let components = split_on slash path in (butlast components, last components))"

section \<open>Operations\<close>

fun lookup_in :: "mem_node \<Rightarrow> bytes list \<Rightarrow> bytes \<Rightarrow> mem_entry option" where
  "lookup_in node [] leaf = om_get node leaf"
| "lookup_in node (name # dirs) leaf =
     (case om_get node name of
        None \<Rightarrow> None
      | Some (MDir child) \<Rightarrow> lookup_in child dirs leaf
      | Some (MFile _ _ _) \<Rightarrow> None)"

definition lookup :: "mem_node \<Rightarrow> bytes \<Rightarrow> mem_entry option" where
  "lookup node path = (case split_leaf path of (dirs, leaf) \<Rightarrow> lookup_in node dirs leaf)"

text \<open>
  \<open>insert_in\<close> walks down mutable references; the recursion rebuilds the same chain. An absent
  directory is created empty and entered. The error leaves the tree as it was: a file can only
  be met before the first directory is created.
\<close>

fun insert_in :: "mem_node \<Rightarrow> bytes list \<Rightarrow> bytes \<Rightarrow> bytes \<Rightarrow> mem_entry \<Rightarrow> apply_error + mem_node" where
  "insert_in node [] leaf full file = Inr (om_insert leaf file node)"
| "insert_in node (name # dirs) leaf full file =
     (case om_get node name of
        Some (MFile _ _ _) \<Rightarrow> Inl (FileInPath full)
      | Some (MDir child) \<Rightarrow>
          rbind (insert_in child dirs leaf full file) (\<lambda>c. Inr (om_insert name (MDir c) node))
      | None \<Rightarrow>
          rbind (insert_in mem_empty dirs leaf full file) (\<lambda>c. Inr (om_insert name (MDir c) node)))"

definition insert_file :: "mem_node \<Rightarrow> bytes \<Rightarrow> oid \<Rightarrow> u64 \<Rightarrow> bool \<Rightarrow> apply_error + mem_node" where
  "insert_file node path blob sz exec =
     (case split_leaf path of (dirs, leaf) \<Rightarrow> insert_in node dirs leaf path (MFile blob sz exec))"

fun remove_in :: "mem_node \<Rightarrow> bytes list \<Rightarrow> bytes \<Rightarrow> mem_node \<times> bool" where
  "remove_in node [] leaf = (om_remove leaf node, om_get node leaf \<noteq> None)"
| "remove_in node (name # dirs) leaf =
     (case om_get node name of
        Some (MDir child) \<Rightarrow>
          (case remove_in child dirs leaf of
             (child', removed) \<Rightarrow>
               (if removed \<and> child' = [] then om_remove name node
                else om_insert name (MDir child') node, removed))
      | _ \<Rightarrow> (node, False))"

definition remove_file :: "mem_node \<Rightarrow> bytes \<Rightarrow> mem_node" where
  "remove_file node path = (case split_leaf path of (dirs, leaf) \<Rightarrow> fst (remove_in node dirs leaf))"

definition is_file :: "mem_entry option \<Rightarrow> bool" where
  "is_file e = (case e of Some (MFile _ _ _) \<Rightarrow> True | _ \<Rightarrow> False)"

definition apply_change :: "mem_node \<Rightarrow> file_change \<Rightarrow> apply_error + mem_node" where
  "apply_change node c =
     (if length (split_on slash (fc_path c)) > MAX_PATH_COMPONENTS then Inl (TooDeep (fc_path c))
      else if fc_op c = Add \<or> fc_op c = Mod then
        (case (fc_blob c, fc_size c, fc_exec c) of
           (Some blob, Some sz, Some exec) \<Rightarrow>
             if fc_op c = Mod \<and> \<not> is_file (lookup node (fc_path c)) then Inl (ModNotFile (fc_path c))
             else insert_file node (fc_path c) blob sz exec
         | _ \<Rightarrow> Inl (ModNotFile (fc_path c)))
      else if \<not> is_file (lookup node (fc_path c)) then Inl (DelNotFile (fc_path c))
      else Inr (remove_file node (fc_path c)))"

fun apply_changes :: "mem_node \<Rightarrow> file_change list \<Rightarrow> apply_error + mem_node" where
  "apply_changes node [] = Inr node"
| "apply_changes node (c # cs) = rbind (apply_change node c) (\<lambda>node. apply_changes node cs)"

section \<open>Well-formedness and the file map\<close>

text \<open>Entries in strictly ascending order in every directory, and no empty subdirectory.\<close>

primrec wf_mem :: "mem_entry \<Rightarrow> bool" where
  "wf_mem (MFile b s e) = True"
| "wf_mem (MDir es) = (es \<noteq> [] \<and> om_inv es \<and> list_all snd (map (map_prod id wf_mem) es))"

definition wf_node :: "mem_node \<Rightarrow> bool" where
  "wf_node node \<longleftrightarrow> om_inv node \<and> list_all (\<lambda>(n, e). wf_mem e) node"

type_synonym file_data = "oid \<times> u64 \<times> bool"
type_synonym file_map = "bytes list \<rightharpoonup> file_data"

fun files_of :: "mem_node \<Rightarrow> file_map" where
  "files_of node [] = None"
| "files_of node (name # rest) =
     (case om_get node name of
        None \<Rightarrow> None
      | Some (MFile b s e) \<Rightarrow> (if rest = [] then Some (b, s, e) else None)
      | Some (MDir child) \<Rightarrow> files_of child rest)"

section \<open>The file-map operation\<close>

text \<open>Some proper, non-empty prefix of the path is a file.\<close>

fun file_above :: "file_map \<Rightarrow> bytes list \<Rightarrow> bool" where
  "file_above m (x # y # p) \<longleftrightarrow> m [x] \<noteq> None \<or> file_above (\<lambda>q. m (x # q)) (y # p)"
| "file_above m _ \<longleftrightarrow> False"

text \<open>
  Putting a file at \<open>p\<close> replaces whatever was there: the old file, or every file below \<open>p\<close> if
  \<open>p\<close> was a directory.
\<close>

definition put_file :: "bytes list \<Rightarrow> file_data \<Rightarrow> file_map \<Rightarrow> file_map" where
  "put_file p f m = (\<lambda>q. if q = p then Some f else if take (length p) q = p then None else m q)"

definition abs_change :: "file_map \<Rightarrow> file_change \<Rightarrow> apply_error + file_map" where
  "abs_change m c =
     (let p = split_on slash (fc_path c) in
      if length p > 256 then Inl (TooDeep (fc_path c))
      else case fc_op c of
        Del \<Rightarrow> if m p = None then Inl (DelNotFile (fc_path c)) else Inr (m(p := None))
      | _ \<Rightarrow>
          (case (fc_blob c, fc_size c, fc_exec c) of
             (Some b, Some s, Some e) \<Rightarrow>
               if fc_op c = Mod \<and> m p = None then Inl (ModNotFile (fc_path c))
               else if file_above m p then Inl (FileInPath (fc_path c))
               else Inr (put_file p (b, s, e) m)
           | _ \<Rightarrow> Inl (ModNotFile (fc_path c))))"

fun abs_apply :: "file_map \<Rightarrow> file_change list \<Rightarrow> apply_error + file_map" where
  "abs_apply m [] = Inr m"
| "abs_apply m (c # cs) = rbind (abs_change m c) (\<lambda>m. abs_apply m cs)"

section \<open>Well-formedness is kept\<close>

lemma wf_node_iff:
  "wf_node node \<longleftrightarrow> om_inv node \<and> (\<forall>n e. om_get node n = Some e \<longrightarrow> wf_mem e)"
proof (cases "om_inv node")
  case True
  then show ?thesis unfolding wf_node_def list_all_iff bt.entries_set [OF True, symmetric] by auto
qed (simp add: wf_node_def)

lemma wf_mem_MDir: "wf_mem (MDir es) \<longleftrightarrow> es \<noteq> [] \<and> wf_node es"
  by (auto simp: wf_node_def list_all_iff)

declare wf_mem.simps(2) [simp del]

lemma wf_node_empty [simp]: "wf_node mem_empty" "wf_node []"
  by (simp_all add: wf_node_def mem_empty_def)

lemma wf_node_insert: "wf_node node \<Longrightarrow> wf_mem e \<Longrightarrow> wf_node (om_insert n e node)"
  by (auto simp: wf_node_iff om_simps split: if_splits)

lemma wf_node_remove: "wf_node node \<Longrightarrow> wf_node (om_remove n node)"
  by (auto simp: wf_node_iff om_simps split: if_splits)

lemma wf_node_child: "wf_node node \<Longrightarrow> om_get node n = Some (MDir c) \<Longrightarrow> c \<noteq> [] \<and> wf_node c"
  using wf_node_iff wf_mem_MDir by blast

lemma om_insert_not_Nil [simp]: "om_insert n e node \<noteq> []"
  by (induction node) (auto split: if_splits)

lemma insert_in_wf:
  assumes "wf_node node" and "wf_mem e" and "insert_in node dirs leaf full e = Inr node'"
  shows "wf_node node' \<and> node' \<noteq> []"
  using assms
proof (induction dirs arbitrary: node node')
  case (Cons name dirs)
  have grow: ?case if "insert_in c dirs leaf full e = Inr d" "wf_node c" "node' = om_insert name (MDir d) node" for c d
    using Cons.IH [OF that(2) _ that(1)] that(3) Cons.prems by (simp add: wf_node_insert wf_mem_MDir)
  show ?case
  proof (cases "om_get node name")
    case None
    with Cons.prems(3) grow show ?thesis by (auto simp: rbind_eq_Inr)
  next
    case (Some x)
    with Cons.prems(3) grow wf_node_child [OF Cons.prems(1), of name] show ?thesis
      by (cases x) (auto simp: rbind_eq_Inr)
  qed
qed (auto simp: wf_node_insert)

lemma remove_absent: "om_inv node \<Longrightarrow> om_get node n = None \<Longrightarrow> om_remove n node = node"
  by (rule bt.get_ext) (auto simp: om_simps)

lemma remove_in_wf:
  assumes "wf_node node" and "remove_in node dirs leaf = (node', r)"
  shows "wf_node node' \<and> (\<not> r \<longrightarrow> node' = node)"
  using assms
proof (induction dirs arbitrary: node node')
  case Nil
  then show ?case by (auto simp: wf_node_remove remove_absent wf_node_iff [of node])
next
  case (Cons name dirs)
  show ?case
  proof (cases "\<exists>c. om_get node name = Some (MDir c)")
    case True
    then obtain c where c: "om_get node name = Some (MDir c)" by blast
    obtain c' where c': "remove_in c dirs leaf = (c', r)" and
      node': "node' = (if r \<and> c' = [] then om_remove name node else om_insert name (MDir c') node)"
      using Cons.prems(2) c by (auto split: prod.splits)
    from Cons.IH [OF _ c'] wf_node_child [OF Cons.prems(1) c]
    have "wf_node c'" "\<not> r \<longrightarrow> c' = c" "c \<noteq> []" by auto
    moreover have "om_insert name (MDir c) node = node"
      using Cons.prems(1) c by (simp add: bt.insert_same wf_node_iff)
    ultimately show ?thesis
      using Cons.prems(1) by (auto simp: node' wf_node_remove wf_node_insert wf_mem_MDir)
  qed (use Cons.prems in \<open>auto split: option.splits mem_entry.splits\<close>)
qed

section \<open>Refinement\<close>

lemma file_above_Cons: "p \<noteq> [] \<Longrightarrow> file_above m (x # p) \<longleftrightarrow> m [x] \<noteq> None \<or> file_above (\<lambda>q. m (x # q)) p"
  by (cases p) simp_all

lemma put_file_Cons:
  "put_file (x # p) f m (y # q) = (if y = x then put_file p f (\<lambda>q. m (x # q)) q else m (y # q))"
  by (simp add: put_file_def)

lemma files_of_dir: "om_get node n = Some (MDir c) \<Longrightarrow> (\<lambda>q. files_of node (n # q)) = files_of c"
  by auto

lemma files_of_none: "om_get node n = None \<Longrightarrow> (\<lambda>q. files_of node (n # q)) = files_of mem_empty"
proof -
  have "files_of mem_empty q = None" for q by (cases q) (simp_all add: mem_empty_def)
  then show "om_get node n = None \<Longrightarrow> ?thesis" by auto
qed

lemma files_of_insert_dir:
  "files_of (om_insert n (MDir c) node) q =
     (case q of [] \<Rightarrow> None | y # r \<Rightarrow> if y = n then files_of c r else files_of node (y # r))"
  by (cases q) (simp_all add: om_simps)

definition abs_result :: "apply_error + mem_node \<Rightarrow> apply_error + file_map" where
  "abs_result r = (case r of Inl err \<Rightarrow> Inl err | Inr node \<Rightarrow> Inr (files_of node))"

lemma abs_result_simps [simp]: "abs_result (Inl err) = Inl err" "abs_result (Inr node) = Inr (files_of node)"
  by (simp_all add: abs_result_def)

lemma insert_in_files:
  "abs_result (insert_in node dirs leaf full (MFile b s e)) =
     (if file_above (files_of node) (dirs @ [leaf]) then Inl (FileInPath full)
      else Inr (put_file (dirs @ [leaf]) (b, s, e) (files_of node)))"
proof (induction dirs arbitrary: node)
  case Nil
  have "files_of (om_insert leaf (MFile b s e) node) q = put_file [leaf] (b, s, e) (files_of node) q" for q
    by (cases q) (auto simp: om_simps put_file_def)
  then show ?case by auto
next
  case (Cons name dirs)
  have put: "files_of (om_insert name (MDir d) node) = put_file (name # dirs @ [leaf]) (b, s, e) (files_of node)"
    if "files_of d = put_file (dirs @ [leaf]) (b, s, e) (\<lambda>q. files_of node (name # q))" for d
  proof
    show "files_of (om_insert name (MDir d) node) q = put_file (name # dirs @ [leaf]) (b, s, e) (files_of node) q" for q
      by (cases q) (simp_all add: files_of_insert_dir that put_file_Cons del: files_of.simps(2), simp add: put_file_def)
  qed
  have down: "abs_result (rbind (insert_in c dirs leaf full (MFile b s e)) (\<lambda>c. Inr (om_insert name (MDir c) node))) =
     (if file_above (files_of node) (name # dirs @ [leaf]) then Inl (FileInPath full)
      else Inr (put_file (name # dirs @ [leaf]) (b, s, e) (files_of node)))"
    if c: "(\<lambda>q. files_of node (name # q)) = files_of c" for c
  proof -
    have "files_of node [name] = None" using fun_cong [OF c, of "[]"] by simp
    then have above: "file_above (files_of node) (name # dirs @ [leaf]) = file_above (files_of c) (dirs @ [leaf])"
      using c by (simp add: file_above_Cons del: files_of.simps(2))
    show ?thesis
    proof (cases "insert_in c dirs leaf full (MFile b s e)")
      case (Inl err)
      with Cons.IH [of c] above show ?thesis by (auto split: if_splits)
    next
      case (Inr d)
      with Cons.IH [of c] above put [of d] c show ?thesis by (auto split: if_splits simp del: files_of.simps(2))
    qed
  qed
  show ?case
  proof (cases "om_get node name")
    case None
    then show ?thesis using down [OF files_of_none [OF None]] by simp
  next
    case (Some x)
    then show ?thesis
    proof (cases x)
      case (MDir c)
      then show ?thesis using down [of c] files_of_dir [of node name c] Some by simp
    qed (simp add: file_above_Cons)
  qed
qed

lemma is_file_lookup: "is_file (lookup_in node dirs leaf) \<longleftrightarrow> files_of node (dirs @ [leaf]) \<noteq> None"
proof (induction dirs arbitrary: node)
  case Nil
  then show ?case by (auto simp: is_file_def split: option.splits mem_entry.splits)
next
  case (Cons name dirs)
  have "\<not> is_file None" by (simp add: is_file_def)
  with Cons show ?case by (auto split: option.splits mem_entry.splits)
qed

lemma files_of_Nil: "files_of [] q = None"
  by (cases q) simp_all

lemma remove_in_files:
  assumes "om_inv node" and "wf_node node" and "files_of node (dirs @ [leaf]) \<noteq> None"
  shows "files_of (fst (remove_in node dirs leaf)) = (files_of node)(dirs @ [leaf] := None)"
    and "snd (remove_in node dirs leaf)"
proof -
  have "files_of (fst (remove_in node dirs leaf)) = (files_of node)(dirs @ [leaf] := None) \<and>
    snd (remove_in node dirs leaf)"
    using assms
  proof (induction dirs arbitrary: node)
    case Nil
    have "files_of (om_remove leaf node) q = ((files_of node)([leaf] := None)) q" for q
      using Nil by (cases q) (auto simp: om_simps split: option.splits mem_entry.splits)
    with Nil show ?case by (auto split: option.splits)
  next
    case (Cons name dirs)
    from Cons.prems(3) obtain c where c: "om_get node name = Some (MDir c)"
      and f: "files_of c (dirs @ [leaf]) \<noteq> None"
      by (auto split: option.splits mem_entry.splits)
    obtain c' where c': "remove_in c dirs leaf = (c', True)" and fc: "files_of c' = (files_of c)(dirs @ [leaf] := None)"
      using Cons.IH [of c] wf_node_child [OF Cons.prems(2) c] f
      by (metis prod.collapse wf_node_iff)
    have "files_of (if c' = [] then om_remove name node else om_insert name (MDir c') node) q =
        ((files_of node)(name # dirs @ [leaf] := None)) q" for q
      using fun_cong [OF fc, of "tl q"] c Cons.prems(1)
      by (cases q) (auto simp: om_simps files_of_Nil split: if_splits)
    then show ?case using c c' by auto
  qed
  then show "files_of (fst (remove_in node dirs leaf)) = (files_of node)(dirs @ [leaf] := None)"
    and "snd (remove_in node dirs leaf)" by auto
qed

lemma split_leaf_append: "split_leaf path = (dirs, leaf) \<Longrightarrow> dirs @ [leaf] = split_on slash path"
  by (auto simp: split_leaf_def Let_def)

lemma insert_file_wf: "wf_node node \<Longrightarrow> insert_file node path b s e = Inr node' \<Longrightarrow> wf_node node'"
  using insert_in_wf [of node "MFile b s e"] by (auto simp: insert_file_def split: prod.splits)

lemma remove_file_wf: "wf_node node \<Longrightarrow> wf_node (remove_file node path)"
  using remove_in_wf [of node] by (auto simp: remove_file_def split: prod.splits) (metis prod.collapse)

lemma apply_change_wf: "wf_node node \<Longrightarrow> apply_change node c = Inr node' \<Longrightarrow> wf_node node'"
  by (auto simp: apply_change_def remove_file_wf split: if_splits option.splits dest: insert_file_wf)

lemma apply_changes_wf: "wf_node node \<Longrightarrow> apply_changes node cs = Inr node' \<Longrightarrow> wf_node node'"
  by (induction cs arbitrary: node) (auto simp: rbind_eq_Inr dest: apply_change_wf)

lemma abs_result_change:
  assumes "wf_node node" shows "abs_result (apply_change node c) = abs_change (files_of node) c"
proof -
  obtain dirs leaf where sp: "split_leaf (fc_path c) = (dirs, leaf)" by force
  let ?p = "split_on slash (fc_path c)"
  have p: "dirs @ [leaf] = ?p" by (rule split_leaf_append [OF sp])
  have isf: "is_file (lookup node (fc_path c)) \<longleftrightarrow> files_of node ?p \<noteq> None"
    using is_file_lookup [of node dirs leaf] by (simp add: lookup_def sp p)
  have put: "abs_result (insert_file node (fc_path c) b s e) =
     (if file_above (files_of node) ?p then Inl (FileInPath (fc_path c))
      else Inr (put_file ?p (b, s, e) (files_of node)))" for b s e
    using insert_in_files [of node dirs leaf "fc_path c" b s e] by (simp add: insert_file_def sp p)
  have del: "files_of (remove_file node (fc_path c)) = (files_of node)(?p := None)" if "files_of node ?p \<noteq> None"
    using remove_in_files(1) [of node dirs leaf] assms that by (simp add: remove_file_def sp p wf_node_iff)
  show ?thesis
    using put del by (cases "fc_op c") (auto simp: apply_change_def abs_change_def Let_def isf MAX_PATH_COMPONENTS_def split: option.splits)
qed

lemma abs_result_rbind:
  "(\<And>n. m = Inr n \<Longrightarrow> abs_result (f n) = g (files_of n)) \<Longrightarrow> abs_result (rbind m f) = rbind (abs_result m) g"
  by (cases m) simp_all

lemma abs_result_changes: "wf_node node \<Longrightarrow> abs_result (apply_changes node cs) = abs_apply (files_of node) cs"
proof (induction cs arbitrary: node)
  case (Cons c cs)
  then show ?case
    using abs_result_rbind [of "apply_change node c" "\<lambda>n. apply_changes n cs" "\<lambda>m. abs_apply m cs"]
    by (simp add: abs_result_change apply_change_wf)
qed simp

section \<open>A tree is determined by its files\<close>

lemma wf_mem_has_file: "wf_mem x \<Longrightarrow> x = MDir c \<Longrightarrow> \<exists>q. files_of c q \<noteq> None"
proof (induction x arbitrary: c)
  case (MDir es)
  then obtain n e rest where es: "c = (n, e) # rest" by (cases c) (auto simp: wf_mem_MDir)
  have "wf_mem e" using MDir.prems by (simp add: wf_mem_MDir wf_node_def es)
  show ?case
  proof (cases e)
    case (MFile b s x)
    then show ?thesis by (intro exI [of _ "[n]"]) (simp add: es)
  next
    case (MDir d)
    then obtain q where "files_of d q \<noteq> None"
      using MDir.IH [of "(n, e)" e d] \<open>wf_mem e\<close> MDir.prems(2) es by auto
    then show ?thesis using MDir by (intro exI [of _ "n # q"]) (simp add: es)
  qed
qed simp

lemma child_has_file: "wf_node a \<Longrightarrow> om_get a n = Some (MDir c) \<Longrightarrow> \<exists>y q. files_of c (y # q) \<noteq> None"
  using wf_mem_has_file [of "MDir c" c] wf_node_iff [of a] by (metis files_of.simps(1) neq_Nil_conv)

lemma mem_entry_measure: "(n, MDir c) \<in> set a \<Longrightarrow> size_list (size_prod (\<lambda>_. 0) size) c < size_list (size_prod (\<lambda>_. 0) size) a"
  by (induction a) auto

lemma files_determine_entry:
  assumes "wf_node a" "wf_node b" "files_of a = files_of b"
    and "\<And>c d. om_get a n = Some (MDir c) \<Longrightarrow> om_get b n = Some (MDir d) \<Longrightarrow> files_of c = files_of d \<Longrightarrow> c = d"
  shows "om_get a n = om_get b n"
proof -
  have eq: "files_of a (n # q) = files_of b (n # q)" for q using assms(3) by simp
  show ?thesis
  proof (cases "om_get a n")
    case None
    then have none: "files_of b (n # q) = None" for q using eq [of q] by simp
    show ?thesis
    proof (rule ccontr)
      assume "om_get a n \<noteq> om_get b n"
      with None obtain x where x: "om_get b n = Some x" by (cases "om_get b n") auto
      show False
      proof (cases x)
        case (MFile i s e)
        then show False using none [of "[]"] x by simp
      next
        case (MDir d)
        with x obtain y q where "files_of d (y # q) \<noteq> None" using child_has_file [OF assms(2)] by blast
        then show False using none [of "y # q"] x MDir by simp
      qed
    qed
  next
    case (Some x)
    show ?thesis
    proof (cases x)
      case (MFile i s e)
      then show ?thesis using Some eq [of "[]"]
        by (cases "om_get b n"; cases "the (om_get b n)") (auto split: if_splits)
    next
      case (MDir c)
      with Some obtain y q where f: "files_of c (y # q) \<noteq> None" using child_has_file [OF assms(1)] by blast
      then have "files_of b (n # y # q) \<noteq> None" using eq [of "y # q"] Some MDir by simp
      then obtain d where d: "om_get b n = Some (MDir d)" by (auto split: option.splits mem_entry.splits)
      moreover have "files_of c = files_of d" using eq Some MDir d by auto
      ultimately show ?thesis using assms(4) Some MDir by simp
    qed
  qed
qed

lemma files_determine_node: "wf_node a \<Longrightarrow> wf_node b \<Longrightarrow> files_of a = files_of b \<Longrightarrow> a = b"
proof (induction "size_list (size_prod (\<lambda>_. 0) size) a" arbitrary: a b rule: less_induct)
  case less
  have "om_get a n = om_get b n" for n
  proof (rule files_determine_entry [OF less.prems])
    fix c d
    assume c: "om_get a n = Some (MDir c)" and d: "om_get b n = Some (MDir d)" and "files_of c = files_of d"
    moreover from c have "(n, MDir c) \<in> set a" using less.prems(1) bt.entries_set by (metis wf_node_iff)
    ultimately show "c = d"
      using less.hyps [OF mem_entry_measure] wf_node_child less.prems by blast
  qed
  then show ?case using less.prems by (intro bt.get_ext) (auto simp: wf_node_iff)
qed

section \<open>Properties\<close>

definition sample_add :: "string \<Rightarrow> byte \<Rightarrow> file_change" where
  "sample_add path b = \<lparr>fc_path = ascii path, fc_op = Add, fc_blob = Some (replicate 32 b),
     fc_size = Some 4, fc_exec = Some False\<rparr>"

definition sample_del :: "string \<Rightarrow> file_change" where
  "sample_del path = \<lparr>fc_path = ascii path, fc_op = Del, fc_blob = None, fc_size = None, fc_exec = None\<rparr>"

definition sample_node :: mem_node where
  "sample_node = [(ascii ''d'', MDir [(ascii ''x'', MFile (replicate 32 1) 4 False)])]"

lemma sample_node_wf: "wf_node sample_node"
  by (simp add: sample_node_def wf_node_def wf_mem_MDir om_inv_def)

lemmas apply_eval = sample_add_def sample_del_def sample_node_def apply_change_def insert_file_def
  remove_file_def lookup_def is_file_def split_leaf_def Let_def ascii_def MAX_PATH_COMPONENTS_def
  mem_empty_def

text \<open>C23: \<open>MemNode::apply\<close> implements the file-map operation. On a well-formed tree it fails with
  the same error, or its result has the same files, as applying the changes in order to the map
  from paths to files: \<^emph>\<open>add\<close> needs every proper prefix of its path to be no file, \<^emph>\<open>mod\<close> and
  \<^emph>\<open>del\<close> need a file at the path, and a path of more than 256 components is refused.\<close>

theorem apply_refines:
  assumes "wf_node node"
  shows "abs_result (apply_changes node cs) = abs_apply (files_of node) cs"
  using assms by (rule abs_result_changes)

theorem apply_refines_witness:
  "abs_result (apply_changes sample_node [sample_add ''a/b'' 2, sample_del ''d/x'']) =
     abs_apply (files_of sample_node) [sample_add ''a/b'' 2, sample_del ''d/x''] \<and>
   apply_changes sample_node [sample_add ''a/b'' 2, sample_del ''d/x''] =
     Inr [(ascii ''a'', MDir [(ascii ''b'', MFile (replicate 32 2) 4 False)])]"
proof
  show "abs_result (apply_changes sample_node [sample_add ''a/b'' 2, sample_del ''d/x'']) =
     abs_apply (files_of sample_node) [sample_add ''a/b'' 2, sample_del ''d/x'']"
    by (rule apply_refines [OF sample_node_wf])
  show "apply_changes sample_node [sample_add ''a/b'' 2, sample_del ''d/x''] =
     Inr [(ascii ''a'', MDir [(ascii ''b'', MFile (replicate 32 2) 4 False)])]"
    by (simp add: apply_eval)
qed

text \<open>C40: changes that are applied keep a well-formed tree well-formed: every directory's entries stay strictly sorted by
  name bytes, and no subdirectory is left empty (removal prunes the emptied ancestors).\<close>

theorem apply_keeps_wf:
  assumes "wf_node node" and "apply_changes node cs = Inr node'"
  shows "wf_node node'"
  using assms by (rule apply_changes_wf)

theorem apply_keeps_wf_witness:
  "\<exists>node'. apply_changes sample_node [sample_add ''d/y'' 2, sample_del ''d/x''] = Inr node' \<and> wf_node node'"
proof -
  have "apply_changes sample_node [sample_add ''d/y'' 2, sample_del ''d/x''] =
      Inr [(ascii ''d'', MDir [(ascii ''y'', MFile (replicate 32 2) 4 False)])]"
    by (simp add: apply_eval)
  with apply_keeps_wf [OF sample_node_wf this] show ?thesis by blast
qed

text \<open>A well-formed tree is determined by its files, so the derived tree, and with it the root
  tree id, does not depend on the order or the history of the changes that led to the files.\<close>

theorem files_determine_tree:
  assumes "wf_node a" and "wf_node b" and "files_of a = files_of b"
  shows "a = b"
  using assms by (rule files_determine_node)

theorem files_determine_tree_witness:
  "apply_changes mem_empty [sample_add ''a'' 1, sample_add ''d/x'' 1, sample_del ''a''] = Inr sample_node"
proof -
  obtain node where node: "apply_changes mem_empty [sample_add ''a'' 1, sample_add ''d/x'' 1, sample_del ''a''] = Inr node"
    by (simp add: apply_eval)
  have "files_of node = files_of sample_node"
    using node by (simp add: apply_eval)
  from files_determine_tree [OF apply_changes_wf [OF wf_node_empty(1) node] sample_node_wf this] node
  show ?thesis by simp
qed

text \<open>An \<^emph>\<open>add\<close> whose path is a directory of the parent tree is accepted, and drops every file
  below that directory, although the change names none of them. The other two operations
  refuse a directory (\<open>ModNotFile\<close>, \<open>DelNotFile\<close>).\<close>

theorem add_replaces_directory:
  assumes "wf_node node" and "fc_op c = Add" and "apply_change node c = Inr node'"
    and "take (length (split_on slash (fc_path c))) q = split_on slash (fc_path c)"
    and "q \<noteq> split_on slash (fc_path c)"
  shows "files_of node' q = None"
proof -
  have "abs_change (files_of node) c = Inr (files_of node')"
    using abs_result_change [OF assms(1), of c] assms(3) by simp
  then obtain f where "put_file (split_on slash (fc_path c)) f (files_of node) = files_of node'"
    using assms(2) by (auto simp: abs_change_def Let_def split: if_splits option.splits)
  from this [symmetric] show ?thesis using assms(4,5) by (simp add: put_file_def)
qed

theorem add_replaces_directory_witness:
  "apply_change sample_node (sample_add ''d'' 2) = Inr [(ascii ''d'', MFile (replicate 32 2) 4 False)] \<and>
   files_of sample_node [ascii ''d'', ascii ''x''] \<noteq> None \<and>
   files_of [(ascii ''d'', MFile (replicate 32 2) 4 False)] [ascii ''d'', ascii ''x''] = None"
proof -
  have ok: "apply_change sample_node (sample_add ''d'' 2) = Inr [(ascii ''d'', MFile (replicate 32 2) 4 False)]"
    by (simp add: apply_eval)
  have "files_of [(ascii ''d'', MFile (replicate 32 2) 4 False)] [ascii ''d'', ascii ''x''] = None"
    by (rule add_replaces_directory [OF sample_node_wf _ ok]) (simp_all add: apply_eval)
  with ok show ?thesis by (simp add: sample_node_def)
qed

end
