(* ===== verification/Tree_Store.thy ===== *)
theory Tree_Store
  imports Mem_Tree
begin

text \<open>
  Tree derivation, second part (\<open>crates/naatre-server/src/tree_derive.rs\<close>: \<open>collect\<close>,
  \<open>load\<close>, \<open>load_node\<close>) and the tables it reads and writes (\<open>db.rs\<close>: \<open>trees\<close>,
  \<open>tree_entries\<close>, \<open>repo_trees\<close>).

  A table is modelled by what its primary key determines: \<open>tree_entries\<close> by the rows of each
  tree in ascending order of their names, which is the order the query asks for. The casts
  between the \<open>u64\<close> sizes and the \<open>i64\<close> columns keep the 64 bits, so a column holds the same
  word. Failures of the database itself are not modelled; \<open>expect\<close> and \<open>unreachable!\<close> are the
  error \<open>Derive_Panic\<close>. Sums of sizes wrap at 64 bits, as they do in a release build.
\<close>

section \<open>Rows and tables\<close>

record entry_row =
  er_name :: bytes
  er_kind :: int
  er_object :: bytes
  er_size :: u64
  er_exec :: bool

record tree_write =
  tw_id :: oid
  tw_canonical :: bytes
  tw_entries :: "entry_row list"

record tree_db =
  db_trees :: "(oid, int \<times> bytes) omap"
  db_tree_entries :: "(oid, (bytes, entry_row) omap) omap"
  db_repo_trees :: "(int \<times> oid) set"

datatype derive_error =
    CorruptRow int
  | Derive_Core core_error
  | MissingTreeRow bytes
  | Derive_Panic

text \<open>The row of a tree and the entry rows of a tree, by name.\<close>

abbreviation tree_row :: "'a tree_db_scheme \<Rightarrow> oid \<rightharpoonup> int \<times> bytes" where
  "tree_row db \<equiv> om_get (db_trees db)"

definition rows_of :: "('k, (bytes, entry_row) omap) omap \<Rightarrow> 'k \<Rightarrow> (bytes, entry_row) omap" where
  "rows_of m i = (case om_get m i of None \<Rightarrow> [] | Some rows \<Rightarrow> rows)"

abbreviation entry_rows :: "'a tree_db_scheme \<Rightarrow> oid \<Rightarrow> (bytes, entry_row) omap" where
  "entry_rows db \<equiv> rows_of (db_tree_entries db)"

lemma rows_of_Nil [simp]: "rows_of [] = (\<lambda>_. [])"
  by (simp add: rows_of_def fun_eq_iff)

lemma rows_of_insert [simp]: "rows_of (om_insert i rows m) = (rows_of m)(i := rows)"
  by (simp add: rows_of_def om_get_insert fun_eq_iff)

definition tree_entries_load :: "'a tree_db_scheme \<Rightarrow> oid \<Rightarrow> entry_row list" where
  "tree_entries_load db i = map snd (entry_rows db i)"

definition tree_repo :: "'a tree_db_scheme \<Rightarrow> oid \<Rightarrow> int option" where
  "tree_repo db i = map_option fst (tree_row db i)"

text \<open>\<open>INSERT OR REPLACE INTO tree_entries\<close>, keyed by tree and name.\<close>

definition put_entry_row :: "oid \<Rightarrow> entry_row \<Rightarrow> 'a tree_db_scheme \<Rightarrow> 'a tree_db_scheme" where
  "put_entry_row i e db =
     db\<lparr>db_tree_entries :=
          om_insert i (om_insert (er_name e) e (entry_rows db i)) (db_tree_entries db)\<rparr>"

definition write_tree_rows :: "int \<Rightarrow> tree_write \<Rightarrow> 'a tree_db_scheme \<Rightarrow> 'a tree_db_scheme" where
  "write_tree_rows repo tree db =
     (let db = (if tree_row db (tw_id tree) = None
                then db\<lparr>db_trees := om_insert (tw_id tree) (repo, tw_canonical tree) (db_trees db)\<rparr>
                else db)
      in fold (put_entry_row (tw_id tree)) (tw_entries tree) db)"

definition put_repo_tree :: "int \<Rightarrow> oid \<Rightarrow> 'a tree_db_scheme \<Rightarrow> 'a tree_db_scheme" where
  "put_repo_tree repo i db = db\<lparr>db_repo_trees := insert (repo, i) (db_repo_trees db)\<rparr>"

definition trees_write :: "int \<Rightarrow> tree_write list \<Rightarrow> 'a tree_db_scheme \<Rightarrow> 'a tree_db_scheme" where
  "trees_write repo trees db =
     fold (\<lambda>tree db. put_repo_tree repo (tw_id tree) (write_tree_rows repo tree db)) trees db"

definition trees_write_snapshot :: "tree_write list \<Rightarrow> 'a tree_db_scheme \<Rightarrow> 'a tree_db_scheme" where
  "trees_write_snapshot trees db = fold (write_tree_rows 0) trees db"

section \<open>Encoding a tree, children first\<close>

text \<open>A \<open>Frame\<close>; \<open>remaining\<close> is reversed there and popped from the back, here it is in order.\<close>

record collect_frame =
  cf_name :: bytes
  cf_remaining :: "(bytes \<times> mem_entry) list"
  cf_entries :: tree
  cf_total :: u64

definition row_of_entry :: "tree_entry \<Rightarrow> entry_row" where
  "row_of_entry e =
     \<lparr>er_name = te_name e, er_kind = (case te_kind e of EK_File \<Rightarrow> 0 | EK_Dir \<Rightarrow> 1),
      er_object = te_object e, er_size = te_size e, er_exec = te_exec e\<rparr>"

definition file_entry :: "bytes \<Rightarrow> oid \<Rightarrow> u64 \<Rightarrow> bool \<Rightarrow> tree_entry" where
  "file_entry name blob sz exec =
     \<lparr>te_name = name, te_kind = EK_File, te_object = blob, te_size = sz, te_exec = exec\<rparr>"

definition dir_entry :: "bytes \<Rightarrow> oid \<Rightarrow> u64 \<Rightarrow> tree_entry" where
  "dir_entry name i tot =
     \<lparr>te_name = name, te_kind = EK_Dir, te_object = i, te_size = tot, te_exec = False\<rparr>"

text \<open>What finishing a frame makes of its entries: the id and the rows to write.\<close>

definition finish_dir :: "(bytes \<Rightarrow> oid) \<Rightarrow> tree \<Rightarrow> derive_error + oid \<times> tree_write" where
  "finish_dir blake3 es =
     rbind (map_err Derive_Core (tree_encode es)) (\<lambda>canonical.
     rbind (map_err Derive_Core (tree_id blake3 es)) (\<lambda>i.
       Inr (i, \<lparr>tw_id = i, tw_canonical = canonical, tw_entries = map row_of_entry es\<rparr>)))"

primrec mem_weight :: "mem_entry \<Rightarrow> nat" where
  "mem_weight (MFile b s e) = 1"
| "mem_weight (MDir es) = 2 + sum_list (map snd (map (map_prod id mem_weight) es))"

definition node_weight :: "(bytes \<times> mem_entry) list \<Rightarrow> nat" where
  "node_weight es = sum_list (map (\<lambda>(n, e). mem_weight e) es)"

lemma node_weight_simps [simp]:
  "node_weight [] = 0" "node_weight ((n, e) # es) = mem_weight e + node_weight es"
  by (simp_all add: node_weight_def)

lemma mem_weight_MDir [simp]: "mem_weight (MDir es) = 2 + node_weight es"
  by (induction es) auto

declare mem_weight.simps(2) [simp del]

function collect_loop ::
    "(bytes \<Rightarrow> oid) \<Rightarrow> collect_frame list \<Rightarrow> tree_write list \<Rightarrow>
     derive_error + oid \<times> u64 \<times> tree_write list" where
  "collect_loop blake3 [] writes = Inl Derive_Panic"
| "collect_loop blake3 (frame # stack) writes =
     (case cf_remaining frame of
        (name, MFile blob sz exec) # rest \<Rightarrow>
          collect_loop blake3
            (frame\<lparr>cf_remaining := rest, cf_total := cf_total frame + sz,
                   cf_entries := cf_entries frame @ [file_entry name blob sz exec]\<rparr> # stack) writes
      | (name, MDir child) # rest \<Rightarrow>
          collect_loop blake3
            (\<lparr>cf_name = name, cf_remaining = child, cf_entries = [], cf_total = 0\<rparr> #
             frame\<lparr>cf_remaining := rest\<rparr> # stack) writes
      | [] \<Rightarrow>
          rbind (finish_dir blake3 (cf_entries frame)) (\<lambda>(i, w).
            case stack of
              parent # stack \<Rightarrow>
                collect_loop blake3
                  (parent\<lparr>cf_total := cf_total parent + cf_total frame,
                          cf_entries := cf_entries parent @ [dir_entry (cf_name frame) i (cf_total frame)]\<rparr> # stack)
                  (writes @ [w])
            | [] \<Rightarrow> Inr (i, cf_total frame, writes @ [w])))"
  by pat_completeness auto
termination
  by (relation "measure (\<lambda>(b, stack, w). sum_list (map (\<lambda>f. Suc (node_weight (cf_remaining f))) stack))")
    auto

definition mem_collect :: "(bytes \<Rightarrow> oid) \<Rightarrow> mem_node \<Rightarrow> derive_error + oid \<times> u64 \<times> tree_write list" where
  "mem_collect blake3 node =
     collect_loop blake3 [\<lparr>cf_name = [], cf_remaining = node, cf_entries = [], cf_total = 0\<rparr>] []"

section \<open>Loading a stored tree\<close>

text \<open>\<open>Id(row.object_id.try_into().expect(\<dots>))\<close>.\<close>

definition row_id :: "entry_row \<Rightarrow> derive_error + oid" where
  "row_id row = (if wf_id (er_object row) then Inr (er_object row) else Inl Derive_Panic)"

text \<open>The loop over the rows of a discovered tree: the ids of its directories, to be pushed.\<close>

definition dir_ids :: "entry_row list \<Rightarrow> derive_error + oid list" where
  "dir_ids rows = rmap row_id (filter (\<lambda>row. er_kind row = 1) rows)"

partial_function (option) discover_loop ::
    "'a tree_db_scheme \<Rightarrow> oid list \<Rightarrow> (oid \<rightharpoonup> entry_row list) \<Rightarrow>
     (derive_error + (oid \<rightharpoonup> entry_row list)) option" where
  "discover_loop db discover loaded =
     (case discover of
        [] \<Rightarrow> Some (Inr loaded)
      | i # discover \<Rightarrow>
          if loaded i \<noteq> None then discover_loop db discover loaded
          else if tree_repo db i = None then Some (Inl (MissingTreeRow (to_hex i)))
          else (case dir_ids (tree_entries_load db i) of
                  Inl err \<Rightarrow> Some (Inl err)
                | Inr ids \<Rightarrow>
                    discover_loop db (rev ids @ discover) (loaded(i \<mapsto> tree_entries_load db i))))"

record build_frame =
  bf_name :: bytes
  bf_remaining :: "entry_row list"
  bf_entries :: mem_node

partial_function (option) build_loop ::
    "(oid \<rightharpoonup> entry_row list) \<Rightarrow> build_frame list \<Rightarrow> (derive_error + mem_node) option" where
  "build_loop loaded stack =
     (case stack of
        [] \<Rightarrow> Some (Inl Derive_Panic)
      | frame # stack \<Rightarrow>
          (case bf_remaining frame of
             row # rest \<Rightarrow>
               (case row_id row of
                  Inl err \<Rightarrow> Some (Inl err)
                | Inr i \<Rightarrow>
                    if er_kind row = 1 then
                      (case loaded i of
                         None \<Rightarrow> Some (Inl Derive_Panic)
                       | Some rows \<Rightarrow>
                           build_loop loaded
                             (\<lparr>bf_name = er_name row, bf_remaining = rows, bf_entries = []\<rparr> #
                              frame\<lparr>bf_remaining := rest\<rparr> # stack))
                    else if er_kind row = 0 then
                      build_loop loaded
                        (frame\<lparr>bf_remaining := rest,
                               bf_entries := om_insert (er_name row)
                                 (MFile i (er_size row) (er_exec row)) (bf_entries frame)\<rparr> # stack)
                    else Some (Inl (CorruptRow (er_kind row))))
           | [] \<Rightarrow>
               (case stack of
                  parent # stack \<Rightarrow>
                    build_loop loaded
                      (parent\<lparr>bf_entries := om_insert (bf_name frame) (MDir (bf_entries frame))
                                (bf_entries parent)\<rparr> # stack)
                | [] \<Rightarrow> Some (Inr (bf_entries frame)))))"

definition load_node :: "'a tree_db_scheme \<Rightarrow> oid \<Rightarrow> (derive_error + mem_node) option" where
  "load_node db i =
     (case discover_loop db [i] Map.empty of
        None \<Rightarrow> None
      | Some (Inl err) \<Rightarrow> Some (Inl err)
      | Some (Inr loaded) \<Rightarrow>
          (case loaded i of
             None \<Rightarrow> Some (Inl Derive_Panic)
           | Some rows \<Rightarrow> build_loop loaded [\<lparr>bf_name = [], bf_remaining = rows, bf_entries = []\<rparr>]))"

definition mem_load :: "'a tree_db_scheme \<Rightarrow> oid option \<Rightarrow> (derive_error + mem_node) option" where
  "mem_load db root =
     (case root of None \<Rightarrow> Some (Inr mem_empty) | Some i \<Rightarrow> load_node db i)"

section \<open>The reference derivation\<close>

text \<open>
  The recursion \<open>collect\<close> replaces: the encoded entries of a directory, its recursive size, and
  the writes of the directories below it, children first.
\<close>

function derive_entries ::
    "(bytes \<Rightarrow> oid) \<Rightarrow> (bytes \<times> mem_entry) list \<Rightarrow> derive_error + tree \<times> u64 \<times> tree_write list" where
  "derive_entries blake3 [] = Inr ([], 0, [])"
| "derive_entries blake3 ((name, MFile blob sz exec) # rest) =
     rbind (derive_entries blake3 rest) (\<lambda>(es, tot, ws).
       Inr (file_entry name blob sz exec # es, sz + tot, ws))"
| "derive_entries blake3 ((name, MDir child) # rest) =
     rbind (derive_entries blake3 child) (\<lambda>(ces, ctot, cws).
     rbind (finish_dir blake3 ces) (\<lambda>(i, w).
     rbind (derive_entries blake3 rest) (\<lambda>(es, tot, ws).
       Inr (dir_entry name i ctot # es, ctot + tot, cws @ [w] @ ws))))"
  by pat_completeness auto
termination
  by (relation "measure (\<lambda>(b, es). node_weight es)") auto

definition derive_tree :: "(bytes \<Rightarrow> oid) \<Rightarrow> mem_node \<Rightarrow> derive_error + oid \<times> u64 \<times> tree_write list" where
  "derive_tree blake3 node =
     rbind (derive_entries blake3 node) (\<lambda>(es, tot, ws).
     rbind (finish_dir blake3 es) (\<lambda>(i, w). Inr (i, tot, ws @ [w])))"

lemma collect_steps:
  "collect_loop blake3 (\<lparr>cf_name = n, cf_remaining = (name, MFile b s e) # rest, cf_entries = acc, cf_total = t\<rparr> # stack) ws =
   collect_loop blake3 (\<lparr>cf_name = n, cf_remaining = rest, cf_entries = acc @ [file_entry name b s e], cf_total = t + s\<rparr> # stack) ws"
  "collect_loop blake3 (\<lparr>cf_name = n, cf_remaining = (name, MDir c) # rest, cf_entries = acc, cf_total = t\<rparr> # stack) ws =
   collect_loop blake3 (\<lparr>cf_name = name, cf_remaining = c, cf_entries = [], cf_total = 0\<rparr> #
     \<lparr>cf_name = n, cf_remaining = rest, cf_entries = acc, cf_total = t\<rparr> # stack) ws"
  "collect_loop blake3 (\<lparr>cf_name = n, cf_remaining = [], cf_entries = acc, cf_total = t\<rparr> #
     \<lparr>cf_name = pn, cf_remaining = rest, cf_entries = pacc, cf_total = pt\<rparr> # stack) ws =
   rbind (finish_dir blake3 acc) (\<lambda>(i, w).
     collect_loop blake3 (\<lparr>cf_name = pn, cf_remaining = rest, cf_entries = pacc @ [dir_entry n i t], cf_total = pt + t\<rparr> # stack) (ws @ [w]))"
  "collect_loop blake3 [\<lparr>cf_name = n, cf_remaining = [], cf_entries = acc, cf_total = t\<rparr>] ws =
   rbind (finish_dir blake3 acc) (\<lambda>(i, w). Inr (i, t, ws @ [w]))"
  by simp_all

lemma rbind_assoc: "rbind (rbind m f) g = rbind m (\<lambda>x. rbind (f x) g)"
  by (cases m) simp_all

lemma collect_loop_derive:
  "collect_loop blake3 (\<lparr>cf_name = n, cf_remaining = es, cf_entries = acc, cf_total = t\<rparr> # stack) writes =
     rbind (derive_entries blake3 es) (\<lambda>(es', t', ws).
       collect_loop blake3
         (\<lparr>cf_name = n, cf_remaining = [], cf_entries = acc @ es', cf_total = t + t'\<rparr> # stack) (writes @ ws))"
proof (induction blake3 es arbitrary: n acc t stack writes rule: derive_entries.induct)
  case (2 blake3 name blob sz exec rest)
  show ?case
    by (simp add: collect_steps "2.IH" rbind_assoc case_prod_unfold add.assoc del: collect_loop.simps)
next
  case (3 blake3 name child rest)
  have rest: "collect_loop blake3 (\<lparr>cf_name = n, cf_remaining = rest, cf_entries = acc, cf_total = t\<rparr> # stack) writes =
     rbind (derive_entries blake3 rest) (\<lambda>(es', t', ws).
       collect_loop blake3
         (\<lparr>cf_name = n, cf_remaining = [], cf_entries = acc @ es', cf_total = t + t'\<rparr> # stack) (writes @ ws))"
    for n acc t stack writes by (rule 3)
  show ?case
    by (simp add: collect_steps "3.IH"(1) rest rbind_assoc case_prod_unfold add.assoc del: collect_loop.simps)
qed (simp del: collect_loop.simps)

lemma mem_collect_derive: "mem_collect blake3 node = derive_tree blake3 node"
  by (simp add: mem_collect_def derive_tree_def collect_loop_derive [where es = node] collect_steps case_prod_unfold
      del: collect_loop.simps)

section \<open>Loading\<close>

text \<open>Rows that spell out the entries of a node, with every subtree stored in turn.\<close>

function stored_rows :: "'a tree_db_scheme \<Rightarrow> entry_row list \<Rightarrow> (bytes \<times> mem_entry) list \<Rightarrow> bool" where
  "stored_rows db [] [] \<longleftrightarrow> True"
| "stored_rows db (row # rows) ((name, MFile b s x) # es) \<longleftrightarrow>
     row = row_of_entry (file_entry name b s x) \<and> wf_id b \<and> stored_rows db rows es"
| "stored_rows db (row # rows) ((name, MDir child) # es) \<longleftrightarrow>
     er_name row = name \<and> er_kind row = 1 \<and> wf_id (er_object row) \<and>
     tree_repo db (er_object row) \<noteq> None \<and>
     stored_rows db (tree_entries_load db (er_object row)) child \<and> stored_rows db rows es"
| "stored_rows db [] (e # es) \<longleftrightarrow> False"
| "stored_rows db (row # rows) [] \<longleftrightarrow> False"
  by pat_completeness auto
termination
  by (relation "measure (\<lambda>(db, rows, es). node_weight es)") auto

lemma om_collect_sorted: "om_inv m \<Longrightarrow> om_collect m = m"
proof (rule bt.get_ext)
  assume m: "om_inv m"
  then have "distinct (map fst m)" by (simp add: om_inv_def strict_sorted_iff)
  then have "map_of (rev m) = map_of m"
    by (subst map_of_inject_set) (simp_all add: rev_map [symmetric])
  then show "om_get (om_collect m) = om_get m"
    unfolding om_get_collect by (simp add: om_get_map_of)
qed (simp_all add: om_inv_collect)

definition dir_objects :: "entry_row list \<Rightarrow> oid set" where
  "dir_objects rows = er_object ` {row \<in> set rows. er_kind row = 1}"

lemma dir_objects_simps [simp]:
  "dir_objects [] = {}"
  "dir_objects (row # rows) = (if er_kind row = 1 then {er_object row} else {}) \<union> dir_objects rows"
  by (auto simp: dir_objects_def)

text \<open>A loaded map that holds the rows of what it holds, and everything they refer to.\<close>

definition loaded_closed :: "'a tree_db_scheme \<Rightarrow> (oid \<rightharpoonup> entry_row list) \<Rightarrow> oid set \<Rightarrow> bool" where
  "loaded_closed db L S \<longleftrightarrow>
     (\<forall>j rows. L j = Some rows \<longrightarrow> rows = tree_entries_load db j \<and> dir_objects rows \<subseteq> dom L \<union> S)"

lemma build_steps:
  "build_loop L (\<lparr>bf_name = n, bf_remaining = [], bf_entries = acc\<rparr> #
     \<lparr>bf_name = pn, bf_remaining = rest, bf_entries = pacc\<rparr> # stack) =
   build_loop L (\<lparr>bf_name = pn, bf_remaining = rest, bf_entries = om_insert n (MDir acc) pacc\<rparr> # stack)"
  "build_loop L [\<lparr>bf_name = n, bf_remaining = [], bf_entries = acc\<rparr>] = Some (Inr acc)"
  "wf_id b \<Longrightarrow> build_loop L (\<lparr>bf_name = n, bf_remaining = row_of_entry (file_entry name b s x) # rest, bf_entries = acc\<rparr> # stack) =
   build_loop L (\<lparr>bf_name = n, bf_remaining = rest, bf_entries = om_insert name (MFile b s x) acc\<rparr> # stack)"
  "er_kind row = 1 \<Longrightarrow> wf_id (er_object row) \<Longrightarrow> L (er_object row) = Some rows \<Longrightarrow>
   build_loop L (\<lparr>bf_name = n, bf_remaining = row # rest, bf_entries = acc\<rparr> # stack) =
   build_loop L (\<lparr>bf_name = er_name row, bf_remaining = rows, bf_entries = []\<rparr> #
     \<lparr>bf_name = n, bf_remaining = rest, bf_entries = acc\<rparr> # stack)"
  by (subst build_loop.simps, simp add: row_id_def row_of_entry_def file_entry_def)+

lemma build_loop_stored:
  assumes "loaded_closed db L {}" and "stored_rows db rows es" and "dir_objects rows \<subseteq> dom L"
    and "list_all (\<lambda>(n, e). wf_mem e) es"
  shows "build_loop L (\<lparr>bf_name = n, bf_remaining = rows, bf_entries = acc\<rparr> # stack) =
    build_loop L (\<lparr>bf_name = n, bf_remaining = [], bf_entries = fold (\<lambda>(k, v). om_insert k v) es acc\<rparr> # stack)"
  using assms
proof (induction db rows es arbitrary: n acc stack rule: stored_rows.induct)
  case (3 db row rows name child es)
  from "3.prems" obtain crows where l: "L (er_object row) = Some crows"
    by (auto split: if_splits)
  with "3.prems" have c: "crows = tree_entries_load db (er_object row)" "dir_objects crows \<subseteq> dom L"
    by (auto simp: loaded_closed_def)
  have w: "wf_node child" using "3.prems" by (simp add: wf_mem_MDir)
  then have "fold (\<lambda>(k, v). om_insert k v) child [] = child"
    using om_collect_sorted [of child] by (simp add: om_collect_def wf_node_def)
  then show ?case
    using "3.prems" c w "3.IH"(1) [of "er_name row" "[]"] "3.IH"(2)
    by (simp add: build_steps(4) [where L = L and row = row and rows = crows] l build_steps(1) wf_node_def)
qed (simp_all add: build_steps)


lemma dir_ids_Inr:
  "\<forall>j \<in> dir_objects rows. wf_id j \<Longrightarrow> \<exists>ids. dir_ids rows = Inr ids \<and> set ids = dir_objects rows"
proof (induction rows)
  case (Cons row rows)
  then show ?case by (auto simp: dir_ids_def row_id_def rbind_eq_Inr)
qed (simp add: dir_ids_def)

text \<open>A finite set of stored trees that holds every tree its members refer to.\<close>

definition stored_set :: "'a tree_db_scheme \<Rightarrow> oid set \<Rightarrow> bool" where
  "stored_set db R \<longleftrightarrow> finite R \<and>
     (\<forall>j \<in> R. wf_id j \<and> tree_repo db j \<noteq> None \<and> dir_objects (tree_entries_load db j) \<subseteq> R)"

lemma stored_rows_set:
  "stored_rows db rows es \<Longrightarrow> \<exists>R. stored_set db R \<and> dir_objects rows \<subseteq> R"
proof (induction db rows es rule: stored_rows.induct)
  case (1 db)
  then show ?case by (auto simp: stored_set_def)
next
  case (2 db row rows name b s x es)
  then show ?case by (auto simp: row_of_entry_def file_entry_def)
next
  case (3 db row rows name child es)
  then obtain Q R where "stored_set db Q" "dir_objects (tree_entries_load db (er_object row)) \<subseteq> Q"
    "stored_set db R" "dir_objects rows \<subseteq> R" by auto
  with "3.prems" show ?case
    by (intro exI [of _ "insert (er_object row) (Q \<union> R)"]) (auto simp: stored_set_def)
qed simp_all

lemma discover_loop_total:
  assumes "stored_set db R" and "set st \<subseteq> R" and "dom L \<subseteq> R" and "loaded_closed db L (set st)"
  shows "\<exists>L'. discover_loop db st L = Some (Inr L') \<and> loaded_closed db L' {} \<and> set st \<union> dom L \<subseteq> dom L'"
  using assms(2-4)
proof (induction "(card (R - dom L), length st)" arbitrary: st L rule: wf_induct_rule [OF wf_lex_prod [OF wf_less wf_less]])
  case 1
  show ?case
  proof (cases st)
    case Nil
    with 1 show ?thesis by (subst discover_loop.simps) simp
  next
    case (Cons i st')
    show ?thesis
    proof (cases "L i = None")
      case False
      have "loaded_closed db L (set st')" using 1(4) False Cons by (auto simp: loaded_closed_def)
      with 1(1) [of L st'] 1(2,3) Cons obtain L' where
        "discover_loop db st' L = Some (Inr L')" "loaded_closed db L' {}" "set st' \<union> dom L \<subseteq> dom L'" by auto
      moreover from this(3) False have "i \<in> dom L'" by auto
      ultimately show ?thesis using Cons False by (subst discover_loop.simps) auto
    next
      case True
      let ?rows = "tree_entries_load db i" and ?L = "L(i \<mapsto> tree_entries_load db i)"
      have i: "i \<in> R" "tree_repo db i \<noteq> None" "dir_objects ?rows \<subseteq> R" "finite R"
        using 1(2) assms(1) Cons by (auto simp: stored_set_def)
      have "\<forall>j \<in> dir_objects ?rows. wf_id j" using i(3) assms(1) by (auto simp: stored_set_def)
      from dir_ids_Inr [OF this] obtain ids where ids: "dir_ids ?rows = Inr ids" "set ids = dir_objects ?rows"
        by blast
      have "card (R - dom ?L) < card (R - dom L)"
        using i True by (intro psubset_card_mono) auto
      moreover have "loaded_closed db ?L (set (rev ids @ st'))"
        using 1(4) Cons ids(2) by (auto simp: loaded_closed_def)
      ultimately obtain L' where "discover_loop db (rev ids @ st') ?L = Some (Inr L')" "loaded_closed db L' {}"
        "set (rev ids @ st') \<union> dom ?L \<subseteq> dom L'"
        using 1(1) [of ?L "rev ids @ st'"] 1(2,3) Cons i ids by auto
      then show ?thesis using Cons True i ids by (subst discover_loop.simps) auto
    qed
  qed
qed

lemma load_node_stored:
  assumes "wf_id i" and "tree_repo db i \<noteq> None" and "stored_rows db (tree_entries_load db i) node" and "wf_node node"
  shows "load_node db i = Some (Inr node)"
proof -
  from stored_rows_set [OF assms(3)] obtain Q where "stored_set db Q" "dir_objects (tree_entries_load db i) \<subseteq> Q" by blast
  then have "stored_set db (insert i Q)" using assms by (auto simp: stored_set_def)
  from discover_loop_total [OF this, of "[i]" Map.empty] obtain L where
    L: "discover_loop db [i] Map.empty = Some (Inr L)" "loaded_closed db L {}" "i \<in> dom L"
    by (auto simp: loaded_closed_def)
  then have rows: "L i = Some (tree_entries_load db i)" and "dir_objects (tree_entries_load db i) \<subseteq> dom L"
    by (auto simp: loaded_closed_def)
  moreover have "fold (\<lambda>(k, v). om_insert k v) node [] = node"
    using om_collect_sorted [of node] assms(4) by (simp add: om_collect_def wf_node_def)
  ultimately show ?thesis
    using build_loop_stored [OF L(2) assms(3), of "[]" "[]" "[]"] assms(4)
    by (simp add: load_node_def L(1) build_steps wf_node_def)
qed

section \<open>Writing\<close>

definition keyed :: "entry_row list \<Rightarrow> (bytes, entry_row) omap" where
  "keyed rows = map (\<lambda>r. (er_name r, r)) rows"

lemma fold_put_entry_row:
  "entry_rows (fold (put_entry_row i) rows db) =
     (entry_rows db)(i := fold (\<lambda>(k, v). om_insert k v) (keyed rows) (entry_rows db i))"
  "tree_row (fold (put_entry_row i) rows db) = tree_row db"
  by (induction rows arbitrary: db) (simp_all add: put_entry_row_def keyed_def)

lemma fold_insert_present: "om_inv m \<Longrightarrow> set kvs \<subseteq> set m \<Longrightarrow> fold (\<lambda>(k, v). om_insert k v) kvs m = m"
  by (induction kvs) (auto simp: bt.insert_same bt.entries_set [symmetric])

text \<open>What the store already holds for a write: nothing, or the same rows.\<close>

definition write_fits :: "'a tree_db_scheme \<Rightarrow> tree_write \<Rightarrow> bool" where
  "write_fits db w \<longleftrightarrow> om_inv (keyed (tw_entries w)) \<and>
     (entry_rows db (tw_id w) = [] \<or> entry_rows db (tw_id w) = keyed (tw_entries w))"

definition write_held :: "'a tree_db_scheme \<Rightarrow> tree_write \<Rightarrow> bool" where
  "write_held db w \<longleftrightarrow>
     tree_row db (tw_id w) \<noteq> None \<and> entry_rows db (tw_id w) = keyed (tw_entries w)"

lemma write_tree_rows_effect:
  assumes "write_fits db w"
  shows "entry_rows (write_tree_rows repo w db) = (entry_rows db)(tw_id w := keyed (tw_entries w))"
    and "tree_row (write_tree_rows repo w db) =
      (if tree_row db (tw_id w) = None then (tree_row db)(tw_id w \<mapsto> (repo, tw_canonical w)) else tree_row db)"
proof -
  have "fold (\<lambda>(k, v). om_insert k v) (keyed (tw_entries w)) (entry_rows db (tw_id w)) = keyed (tw_entries w)"
    using assms om_collect_sorted [of "keyed (tw_entries w)"] fold_insert_present [of "keyed (tw_entries w)"]
    by (auto simp: write_fits_def om_collect_def)
  then show "entry_rows (write_tree_rows repo w db) = (entry_rows db)(tw_id w := keyed (tw_entries w))"
    and "tree_row (write_tree_rows repo w db) =
      (if tree_row db (tw_id w) = None then (tree_row db)(tw_id w \<mapsto> (repo, tw_canonical w)) else tree_row db)"
    by (auto simp: write_tree_rows_def fold_put_entry_row Let_def)
qed

lemma put_repo_tree_frame [simp]:
  "tree_row (put_repo_tree repo i db) = tree_row db"
  "entry_rows (put_repo_tree repo i db) = entry_rows db"
  by (simp_all add: put_repo_tree_def)

text \<open>One step of \<open>trees_write\<close>.\<close>

definition write_one :: "int \<Rightarrow> tree_write \<Rightarrow> 'a tree_db_scheme \<Rightarrow> 'a tree_db_scheme" where
  "write_one repo w db = put_repo_tree repo (tw_id w) (write_tree_rows repo w db)"

lemma trees_write_fold: "trees_write repo ws db = fold (write_one repo) ws db"
  unfolding trees_write_def write_one_def ..

lemma write_one_simps:
  assumes "write_fits db w"
  shows "entry_rows (write_one repo w db) = (entry_rows db)(tw_id w := keyed (tw_entries w))"
    and "tree_row (write_one repo w db) =
      (if tree_row db (tw_id w) = None then (tree_row db)(tw_id w \<mapsto> (repo, tw_canonical w)) else tree_row db)"
  by (simp_all add: write_one_def write_tree_rows_effect [OF assms])

definition writes_agree :: "tree_write list \<Rightarrow> bool" where
  "writes_agree ws \<longleftrightarrow>
     (\<forall>v \<in> set ws. \<forall>w \<in> set ws. tw_id v = tw_id w \<longrightarrow> tw_entries v = tw_entries w)"

lemma trees_write_held:
  assumes "\<forall>w \<in> set vs \<union> set ws. write_fits db w" and "writes_agree (vs @ ws)"
    and "\<forall>w \<in> set vs. write_held db w"
  shows "\<forall>w \<in> set (vs @ ws). write_held (fold (write_one repo) ws db) w"
  using assms
proof (induction ws arbitrary: vs db)
  case (Cons w ws)
  let ?db = "write_one repo w db"
  have fw: "write_fits db w" using Cons.prems(1) by simp
  have fits: "\<forall>v \<in> set (vs @ [w]) \<union> set ws. write_fits ?db v"
  proof
    fix v assume v: "v \<in> set (vs @ [w]) \<union> set ws"
    then have "write_fits db v" using Cons.prems(1) by auto
    moreover have "tw_id v = tw_id w \<Longrightarrow> tw_entries v = tw_entries w"
      using v Cons.prems(2) by (auto simp: writes_agree_def)
    ultimately show "write_fits ?db v" by (auto simp: write_fits_def write_one_simps [OF fw])
  qed
  have held: "\<forall>v \<in> set (vs @ [w]). write_held ?db v"
  proof
    fix v assume v: "v \<in> set (vs @ [w])"
    then have "tw_id v = tw_id w \<Longrightarrow> tw_entries v = tw_entries w"
      using Cons.prems(2) by (auto simp: writes_agree_def)
    moreover have "v \<noteq> w \<Longrightarrow> write_held db v" using v Cons.prems(3) by auto
    ultimately show "write_held ?db v" by (auto simp: write_held_def write_one_simps [OF fw])
  qed
  from Cons.IH [OF fits _ held] Cons.prems(2) show ?case by simp
qed simp

section \<open>The content-addressed store\<close>

text \<open>The rows of a tree whose canonical bytes hash to the id they are filed under.\<close>

definition row_set_ok :: "(bytes \<Rightarrow> oid) \<Rightarrow> oid \<Rightarrow> bytes \<Rightarrow> entry_row list \<Rightarrow> bool" where
  "row_set_ok blake3 i canonical rows \<longleftrightarrow>
     (\<exists>t. tree_encode t = Inr canonical \<and> (\<forall>e \<in> set t. wf_entry e) \<and>
          i = object_id blake3 Kind_Tree canonical \<and> rows = map row_of_entry t)"

text \<open>One id: no row at all, or a \<open>trees\<close> row and the entry rows of the tree it encodes.\<close>

definition slot_ok ::
    "(bytes \<Rightarrow> oid) \<Rightarrow> oid \<Rightarrow> (int \<times> bytes) option \<Rightarrow> (bytes, entry_row) omap \<Rightarrow> bool" where
  "slot_ok blake3 i tr es =
     (case tr of
        None \<Rightarrow> es = []
      | Some (repo, canonical) \<Rightarrow> \<exists>rows. es = keyed rows \<and> row_set_ok blake3 i canonical rows)"

definition store_ok :: "(bytes \<Rightarrow> oid) \<Rightarrow> 'a tree_db_scheme \<Rightarrow> bool" where
  "store_ok blake3 db \<longleftrightarrow> (\<forall>i. slot_ok blake3 i (tree_row db i) (entry_rows db i))"

lemma slot_ok_simps [simp]:
  "slot_ok blake3 i None es \<longleftrightarrow> es = []"
  "slot_ok blake3 i (Some (repo, c)) es \<longleftrightarrow> (\<exists>rows. es = keyed rows \<and> row_set_ok blake3 i c rows)"
  by (simp_all add: slot_ok_def)

definition write_ok :: "(bytes \<Rightarrow> oid) \<Rightarrow> tree_write \<Rightarrow> bool" where
  "write_ok blake3 w \<longleftrightarrow> row_set_ok blake3 (tw_id w) (tw_canonical w) (tw_entries w)"

definition stored_canonicals :: "'a tree_db_scheme \<Rightarrow> bytes set" where
  "stored_canonicals db = {c. \<exists>i repo. tree_row db i = Some (repo, c)}"

text \<open>The hash does not collide on these canonical trees.\<close>

definition tree_hash_inj :: "(bytes \<Rightarrow> oid) \<Rightarrow> bytes set \<Rightarrow> bool" where
  "tree_hash_inj blake3 C \<longleftrightarrow> inj_on (object_id blake3 Kind_Tree) C"

lemma row_set_ok_unique:
  assumes "row_set_ok blake3 i c rows" "row_set_ok blake3 i d rows'" "tree_hash_inj blake3 C" "c \<in> C" "d \<in> C"
  shows "c = d" and "rows = rows'"
proof -
  show "c = d" using assms by (auto simp: row_set_ok_def tree_hash_inj_def dest: inj_onD)
  with assms(1,2) tree_dec_enc show "rows = rows'"
    unfolding row_set_ok_def by (metis sum.inject(2))
qed

lemma row_set_ok_inv: "row_set_ok blake3 i c rows \<Longrightarrow> om_inv (keyed rows)"
proof -
  assume "row_set_ok blake3 i c rows"
  then obtain t where "successively (\<lambda>a b. te_name a < te_name b) t" and "rows = map row_of_entry t"
    unfolding row_set_ok_def tree_encode_Inr by blast
  moreover have "map fst (keyed (map row_of_entry t)) = map te_name t"
    by (simp add: keyed_def row_of_entry_def)
  moreover have "sorted_wrt (\<lambda>a b. te_name a < te_name b) t \<longleftrightarrow> sorted_wrt (<) (map te_name t)"
    by (simp add: sorted_wrt_map)
  ultimately show ?thesis
    unfolding om_inv_def
    by (metis (no_types, lifting) successively_conv_sorted_wrt transpI order.strict_trans)
qed

lemma store_fits:
  assumes "store_ok blake3 db" and "write_ok blake3 w"
    and "tree_hash_inj blake3 C" and "stored_canonicals db \<subseteq> C" and "tw_canonical w \<in> C"
  shows "write_fits db w"
proof (cases "tree_row db (tw_id w)")
  case None
  then have "entry_rows db (tw_id w) = []" using assms(1) by (metis slot_ok_simps(1) store_ok_def)
  then show ?thesis using row_set_ok_inv assms(2) by (auto simp: write_fits_def write_ok_def)
next
  case (Some rc)
  then obtain repo c where rc: "tree_row db (tw_id w) = Some (repo, c)" by (cases rc) auto
  with assms(1) obtain rows where rows: "entry_rows db (tw_id w) = keyed rows"
    "row_set_ok blake3 (tw_id w) c rows" by (metis slot_ok_simps(2) store_ok_def)
  have "c \<in> C" using rc assms(4) by (auto simp: stored_canonicals_def)
  then have "rows = tw_entries w"
    using row_set_ok_unique [OF rows(2) assms(2) [unfolded write_ok_def] assms(3)] assms(5) by blast
  then show ?thesis using rows row_set_ok_inv by (auto simp: write_fits_def)
qed

lemma write_one_slot:
  assumes "store_ok blake3 db" and "write_ok blake3 w"
    and "tree_hash_inj blake3 C" and "stored_canonicals db \<subseteq> C" and "tw_canonical w \<in> C"
  shows "slot_ok blake3 (tw_id w)
    (if tree_row db (tw_id w) = None then Some (repo, tw_canonical w) else tree_row db (tw_id w))
    (keyed (tw_entries w))"
proof (cases "tree_row db (tw_id w)")
  case None
  then show ?thesis using assms(2) by (auto simp: write_ok_def)
next
  case (Some rc)
  then obtain r c where rc: "tree_row db (tw_id w) = Some (r, c)" by (cases rc) auto
  with assms(1) obtain rows where rows: "row_set_ok blake3 (tw_id w) c rows"
    by (metis slot_ok_simps(2) store_ok_def)
  moreover have "c \<in> C" using rc assms(4) by (auto simp: stored_canonicals_def)
  ultimately have "rows = tw_entries w"
    using row_set_ok_unique(2) [OF rows assms(2) [unfolded write_ok_def] assms(3) _ assms(5)] by blast
  then show ?thesis using rc rows by auto
qed

lemma write_one_store_ok:
  assumes "store_ok blake3 db" and "write_ok blake3 w"
    and "tree_hash_inj blake3 C" and "stored_canonicals db \<subseteq> C" and "tw_canonical w \<in> C"
  shows "store_ok blake3 (write_one repo w db)" and "stored_canonicals (write_one repo w db) \<subseteq> C"
proof -
  note fits = store_fits [OF assms]
  have "slot_ok blake3 i (tree_row (write_one repo w db) i) (entry_rows (write_one repo w db) i)" for i
  proof (cases "i = tw_id w")
    case True
    then show ?thesis using write_one_slot [OF assms, of repo]
      by (simp only: write_one_simps [OF fits] fun_upd_same if_distrib [of "\<lambda>f. f (tw_id w)"])
  next
    case False
    have "slot_ok blake3 i (tree_row db i) (entry_rows db i)" using assms(1) by (simp add: store_ok_def)
    with False show ?thesis
      unfolding write_one_simps [OF fits] by (simp add: fun_upd_other)
  qed
  then show "store_ok blake3 (write_one repo w db)" unfolding store_ok_def by blast
  show "stored_canonicals (write_one repo w db) \<subseteq> C"
    using assms(4,5) by (auto simp: stored_canonicals_def write_one_simps [OF fits] split: if_splits)
qed

lemma trees_write_store_ok:
  assumes "store_ok blake3 db" and "\<forall>w \<in> set ws. write_ok blake3 w"
    and "tree_hash_inj blake3 C" and "stored_canonicals db \<subseteq> C" and "tw_canonical ` set ws \<subseteq> C"
  shows "store_ok blake3 (trees_write repo ws db) \<and> stored_canonicals (trees_write repo ws db) \<subseteq> C"
  using assms(1,2,4,5) unfolding trees_write_fold
proof (induction ws arbitrary: db)
  case (Cons w ws)
  then show ?case using write_one_store_ok [OF _ _ assms(3), of db w repo] by simp
qed simp

section \<open>Persist and load\<close>

text \<open>What Rust's types say of a tree: names are UTF-8, blob ids have 32 bytes.\<close>

primrec typed_mem :: "mem_entry \<Rightarrow> bool" where
  "typed_mem (MFile b s e) = wf_id b"
| "typed_mem (MDir es) = list_all (\<lambda>(n, t). utf8_valid n \<and> t) (map (map_prod id typed_mem) es)"

definition typed_node :: "(bytes \<times> mem_entry) list \<Rightarrow> bool" where
  "typed_node es = list_all (\<lambda>(n, e). utf8_valid n \<and> typed_mem e) es"

lemma typed_mem_MDir [simp]: "typed_mem (MDir es) = typed_node es"
  by (induction es) (auto simp: typed_node_def)

declare typed_mem.simps(2) [simp del]

lemma typed_node_simps [simp]:
  "typed_node []" "typed_node ((n, e) # es) \<longleftrightarrow> utf8_valid n \<and> typed_mem e \<and> typed_node es"
  by (simp_all add: typed_node_def)

lemma dir_row_simps [simp]:
  "er_name (row_of_entry (dir_entry n i t)) = n" "er_kind (row_of_entry (dir_entry n i t)) = 1"
  "er_object (row_of_entry (dir_entry n i t)) = i"
  by (simp_all add: row_of_entry_def dir_entry_def)

lemma finish_dir_Inr:
  assumes "finish_dir blake3 es = Inr (i, w)" and "\<forall>e \<in> set es. wf_entry e"
  shows "tw_id w = i" "tw_entries w = map row_of_entry es" "write_ok blake3 w"
    "i = object_id blake3 Kind_Tree (tw_canonical w)"
  using assms by (auto simp: finish_dir_def tree_id_def result_simps write_ok_def row_set_ok_def)

lemma wf_object_id: "(\<And>x. wf_id (blake3 x)) \<Longrightarrow> wf_id (object_id blake3 k c)"
  by (simp add: object_id_def object_id_in_def)

lemma derive_entries_ok:
  assumes "\<And>x. wf_id (blake3 x)"
  shows "derive_entries blake3 es = Inr (tes, tot, ws) \<Longrightarrow> typed_node es \<Longrightarrow>
    (\<forall>e \<in> set tes. wf_entry e) \<and> (\<forall>w \<in> set ws. write_ok blake3 w)"
  using assms
proof (induction blake3 es arbitrary: tes tot ws rule: derive_entries.induct)
  case (2 blake3 name blob sz exec rest)
  then show ?case by (auto simp: rbind_eq_Inr file_entry_def wf_entry_def split: prod.splits)
next
  case (3 blake3 name child rest)
  from "3.prems"(1) obtain ces ctot cws i w es' t' ws' where
    child: "derive_entries blake3 child = Inr (ces, ctot, cws)" and fin: "finish_dir blake3 ces = Inr (i, w)"
    and rest: "derive_entries blake3 rest = Inr (es', t', ws')"
    and res: "tes = dir_entry name i ctot # es'" "ws = cws @ [w] @ ws'"
    by (auto simp: rbind_eq_Inr split: prod.splits)
  have c: "\<forall>e \<in> set ces. wf_entry e" "\<forall>w \<in> set cws. write_ok blake3 w"
    using "3.IH"(1) [OF child] "3.prems" by auto
  have r: "\<forall>e \<in> set es'. wf_entry e" "\<forall>w \<in> set ws'. write_ok blake3 w"
    using "3.IH"(2) [OF rest] "3.prems" by auto
  have "wf_entry (dir_entry name i ctot)"
    using "3.prems"(2) finish_dir_Inr(4) [OF fin c(1)] wf_object_id [OF "3.prems"(3)]
    by (simp add: wf_entry_def dir_entry_def)
  then show ?case using c r finish_dir_Inr(3) [OF fin c(1)] by (auto simp: res)
qed simp

lemma write_held_load: "write_held db w \<Longrightarrow> tree_repo db (tw_id w) \<noteq> None \<and> tree_entries_load db (tw_id w) = tw_entries w"
  by (auto simp: write_held_def tree_repo_def tree_entries_load_def keyed_def o_def)

lemma derive_entries_stored:
  assumes "\<And>x. wf_id (blake3 x)"
  shows "derive_entries blake3 es = Inr (tes, tot, ws) \<Longrightarrow> typed_node es \<Longrightarrow>
    \<forall>w \<in> set ws. write_held db w \<Longrightarrow> stored_rows db (map row_of_entry tes) es"
  using assms
proof (induction blake3 es arbitrary: tes tot ws rule: derive_entries.induct)
  case (2 blake3 name blob sz exec rest)
  then show ?case by (auto simp: rbind_eq_Inr split: prod.splits)
next
  case (3 blake3 name child rest)
  from "3.prems"(1) obtain ces ctot cws i w es' t' ws' where
    child: "derive_entries blake3 child = Inr (ces, ctot, cws)" and fin: "finish_dir blake3 ces = Inr (i, w)"
    and rest: "derive_entries blake3 rest = Inr (es', t', ws')"
    and res: "tes = dir_entry name i ctot # es'" "ws = cws @ [w] @ ws'"
    by (auto simp: rbind_eq_Inr split: prod.splits)
  have ces: "\<forall>e \<in> set ces. wf_entry e"
    using derive_entries_ok [OF "3.prems"(4) child] "3.prems"(2) by simp
  note w = finish_dir_Inr [OF fin ces]
  have "stored_rows db (map row_of_entry ces) child" "stored_rows db (map row_of_entry es') rest"
    using "3.IH" child rest "3.prems" by (auto simp: res)
  moreover have "tree_repo db i \<noteq> None \<and> tree_entries_load db i = map row_of_entry ces"
    using write_held_load [of db w] "3.prems"(3) w(1,2) by (simp add: res)
  ultimately show ?case
    using w(4) wf_object_id [OF "3.prems"(4)] by (simp add: res)
qed simp

lemma writes_ok_agree:
  assumes "\<forall>w \<in> set ws. write_ok blake3 w" and "tree_hash_inj blake3 C" and "tw_canonical ` set ws \<subseteq> C"
  shows "writes_agree ws"
  unfolding writes_agree_def
proof (intro ballI impI)
  fix v w assume "v \<in> set ws" "w \<in> set ws" "tw_id v = tw_id w"
  with assms show "tw_entries v = tw_entries w"
    by (intro row_set_ok_unique(2) [of blake3 "tw_id w" "tw_canonical v" _ "tw_canonical w" _ C])
      (auto simp: write_ok_def)
qed

lemma derive_tree_ok:
  assumes "\<And>x. wf_id (blake3 x)" and "typed_node node" and "derive_tree blake3 node = Inr (root, tot, ws)"
  shows "\<forall>w \<in> set ws. write_ok blake3 w"
    and "\<forall>w \<in> set ws. write_held db w \<Longrightarrow>
      wf_id root \<and> tree_repo db root \<noteq> None \<and> stored_rows db (tree_entries_load db root) node"
proof -
  from assms(3) obtain es ws' w where es: "derive_entries blake3 node = Inr (es, tot, ws')"
    and fin: "finish_dir blake3 es = Inr (root, w)" and ws: "ws = ws' @ [w]"
    by (auto simp: derive_tree_def rbind_eq_Inr split: prod.splits)
  note ok = derive_entries_ok [OF assms(1) es assms(2)]
  note w = finish_dir_Inr [OF fin conjunct1 [OF ok]]
  show "\<forall>w \<in> set ws. write_ok blake3 w" using ok w by (simp add: ws)
  assume held: "\<forall>w \<in> set ws. write_held db w"
  then have "stored_rows db (map row_of_entry es) node"
    by (intro derive_entries_stored [OF assms(1) es assms(2)]) (simp add: ws)
  moreover have "tree_repo db root \<noteq> None \<and> tree_entries_load db root = map row_of_entry es"
    using write_held_load [of db w] held w(1,2) by (simp add: ws)
  ultimately show "wf_id root \<and> tree_repo db root \<noteq> None \<and> stored_rows db (tree_entries_load db root) node"
    using w(4) wf_object_id [OF assms(1)] by simp
qed

lemma persist_load:
  assumes "\<And>x. wf_id (blake3 x)" and "wf_node node" and "typed_node node"
    and "mem_collect blake3 node = Inr (root, tot, ws)" and "store_ok blake3 db"
    and "tree_hash_inj blake3 (stored_canonicals db \<union> tw_canonical ` set ws)"
  shows "mem_load (trees_write repo ws db) (Some root) = Some (Inr node)"
proof -
  let ?C = "stored_canonicals db \<union> tw_canonical ` set ws"
  have d: "derive_tree blake3 node = Inr (root, tot, ws)" using assms(4) by (simp add: mem_collect_derive)
  note ok = derive_tree_ok(1) [OF assms(1,3) d]
  have "\<forall>w \<in> set ws. write_fits db w"
    using store_fits [OF assms(5) _ assms(6)] ok by auto
  moreover have "writes_agree ws" using writes_ok_agree [OF ok assms(6)] by auto
  ultimately have "\<forall>w \<in> set ws. write_held (trees_write repo ws db) w"
    using trees_write_held [of "[]" ws db repo] by (simp add: trees_write_fold)
  from derive_tree_ok(2) [OF assms(1,3) d this] assms(2) show ?thesis
    by (simp add: mem_load_def load_node_stored)
qed

text \<open>Rows that are present are never changed.\<close>

lemma trees_write_keeps:
  assumes "store_ok blake3 db" and "\<forall>w \<in> set ws. write_ok blake3 w"
    and "tree_hash_inj blake3 C" and "stored_canonicals db \<subseteq> C" and "tw_canonical ` set ws \<subseteq> C"
    and "tree_row db i \<noteq> None"
  shows "tree_row (trees_write repo ws db) i = tree_row db i \<and>
    entry_rows (trees_write repo ws db) i = entry_rows db i"
  using assms(1,2,4,5,6) unfolding trees_write_fold
proof (induction ws arbitrary: db)
  case (Cons w ws)
  have fits: "write_fits db w" using store_fits [OF Cons.prems(1) _ assms(3) Cons.prems(3)] Cons.prems by simp
  have "entry_rows db (tw_id w) = keyed (tw_entries w)" if "tw_id w = i"
  proof -
    from Cons.prems(5) obtain r c where rc: "tree_row db i = Some (r, c)" by auto
    with Cons.prems(1) obtain rows where rows: "entry_rows db i = keyed rows" "row_set_ok blake3 i c rows"
      by (metis slot_ok_simps(2) store_ok_def)
    have "c \<in> C" using rc Cons.prems(3) by (auto simp: stored_canonicals_def)
    moreover have "row_set_ok blake3 i (tw_canonical w) (tw_entries w)" "tw_canonical w \<in> C"
      using Cons.prems(2,4) that by (simp_all add: write_ok_def)
    ultimately have "rows = tw_entries w"
      using row_set_ok_unique(2) [OF rows(2) _ assms(3)] by blast
    with rows that show ?thesis by simp
  qed
  then have here: "tree_row (write_one repo w db) i = tree_row db i"
    "entry_rows (write_one repo w db) i = entry_rows db i"
    using Cons.prems(5) by (auto simp: write_one_simps [OF fits])
  have "store_ok blake3 (write_one repo w db)" "stored_canonicals (write_one repo w db) \<subseteq> C"
    using write_one_store_ok [OF Cons.prems(1) _ assms(3) Cons.prems(3)] Cons.prems by auto
  from Cons.IH [OF this(1) _ this(2)] Cons.prems here show ?case by simp
qed simp

section \<open>Properties\<close>

text \<open>A sample tree of two directories, and a hash that tells them apart by their length.\<close>

definition sample_tree_node :: mem_node where
  "sample_tree_node = [(ascii ''d'', MDir [(ascii ''xy'', MFile (replicate 32 1) 4 False)])]"

definition length_hash :: "bytes \<Rightarrow> oid" where
  "length_hash b = word_of_nat (length b) # replicate 31 0"

definition empty_db :: tree_db where
  "empty_db = \<lparr>db_trees = [], db_tree_entries = [], db_repo_trees = {}\<rparr>"

lemma length_hash_wf: "wf_id (length_hash x)"
  by (simp add: length_hash_def wf_id_def)

lemma sample_tree_node_ok: "wf_node sample_tree_node" "typed_node sample_tree_node"
  by (simp_all add: sample_tree_node_def wf_node_def wf_mem_MDir om_inv_def wf_id_def ascii_def
      utf8_valid_all_ascii)

lemma empty_db_ok: "store_ok blake3 empty_db" "stored_canonicals empty_db = {}"
  by (simp_all add: store_ok_def empty_db_def stored_canonicals_def)

lemmas collect_eval = sample_tree_node_def mem_collect_derive derive_tree_def finish_dir_def
  file_entry_def dir_entry_def tree_id_def tree_encode_def encode_entry_def write_str_def
  MAX_OBJECT_BYTES_def object_id_def object_id_in_def object_preimage_def length_hash_def ascii_def
  FORMAT_VERSION_def Let_def

lemma sample_collect:
  "\<exists>root tot ws. mem_collect length_hash sample_tree_node = Inr (root, tot, ws) \<and>
     tree_hash_inj length_hash (tw_canonical ` set ws) \<and> (\<forall>w \<in> set ws. write_ok length_hash w)"
proof -
  obtain root tot ws where c: "mem_collect length_hash sample_tree_node = Inr (root, tot, ws)"
    by (simp add: collect_eval)
  then have d: "derive_tree length_hash sample_tree_node = Inr (root, tot, ws)"
    by (simp add: mem_collect_derive)
  have "tree_hash_inj length_hash (tw_canonical ` set ws)"
    using c by (auto simp: collect_eval tree_hash_inj_def inj_on_def)
  with c derive_tree_ok(1) [OF length_hash_wf sample_tree_node_ok(2) d] show ?thesis by blast
qed

text \<open>The iterative \<open>collect\<close> computes what the recursion it replaced computes, on every tree:
  the same root id, the same recursive size, the same writes in the same child-first order, and
  the same error.\<close>

theorem collect_is_recursive: "mem_collect blake3 node = derive_tree blake3 node"
  by (rule mem_collect_derive)

text \<open>C22: persist and load. Writing the rows \<open>collect\<close> made of a tree, over any store whose rows
  are filed under their hashes, and loading the root id gives the same tree back: the loader's
  two loops end, find every subtree, and rebuild it. The hash has 32 bytes and does not collide
  on the canonical trees stored and written.\<close>

theorem persist_load_roundtrip:
  assumes "\<And>x. wf_id (blake3 x)" and "wf_node node" and "typed_node node"
    and "mem_collect blake3 node = Inr (root, tot, ws)" and "store_ok blake3 db"
    and "tree_hash_inj blake3 (stored_canonicals db \<union> tw_canonical ` set ws)"
  shows "mem_load (trees_write repo ws db) (Some root) = Some (Inr node)"
  using assms by (rule persist_load)

theorem persist_load_roundtrip_witness:
  "\<exists>root tot ws. mem_collect length_hash sample_tree_node = Inr (root, tot, ws) \<and>
     mem_load (trees_write 1 ws empty_db) (Some root) = Some (Inr sample_tree_node)"
proof -
  obtain root tot ws where c: "mem_collect length_hash sample_tree_node = Inr (root, tot, ws)"
    "tree_hash_inj length_hash (tw_canonical ` set ws)" using sample_collect by blast
  from persist_load_roundtrip [OF length_hash_wf sample_tree_node_ok c(1) empty_db_ok(1), of 1]
    c empty_db_ok(2) show ?thesis by auto
qed

text \<open>The tree tables are append-only and content-addressed. Writing derived trees keeps every
  row filed under the hash of its canonical bytes, and changes no row of a tree that was already
  there, so a tree that could be loaded before is loaded the same after.\<close>

theorem trees_write_append_only:
  assumes "store_ok blake3 db" and "\<forall>w \<in> set ws. write_ok blake3 w"
    and "tree_hash_inj blake3 (stored_canonicals db \<union> tw_canonical ` set ws)"
  shows "store_ok blake3 (trees_write repo ws db) \<and>
    (\<forall>i. tree_row db i \<noteq> None \<longrightarrow>
      tree_row (trees_write repo ws db) i = tree_row db i \<and>
      tree_entries_load (trees_write repo ws db) i = tree_entries_load db i)"
  using trees_write_store_ok [OF assms(1-3)] trees_write_keeps [OF assms(1-3)]
  by (auto simp: tree_entries_load_def)

theorem trees_write_append_only_witness:
  "\<exists>ws. ws \<noteq> [] \<and> store_ok length_hash (trees_write 1 ws empty_db)"
proof -
  obtain root tot ws where c: "mem_collect length_hash sample_tree_node = Inr (root, tot, ws)"
    "tree_hash_inj length_hash (tw_canonical ` set ws)" "\<forall>w \<in> set ws. write_ok length_hash w"
    using sample_collect by blast
  have "ws \<noteq> []" using c(1) by (auto simp: collect_eval)
  with trees_write_append_only [OF empty_db_ok(1) c(3), of 1] c(2) empty_db_ok(2) show ?thesis by auto
qed

end
