(* ===== verification/Line_Merge.thy ===== *)
theory Line_Merge
  imports Utf8 "HOL-Library.Product_Lexorder" "HOL-Library.Multiset"
begin

text \<open>
  The line-level three-way merge (\<open>crates/naatre-server/src/merge.rs\<close>, lines 41 to 189).

  The line tokenizer and the diff are the \<open>similar\<close> crate's: they are the parameters \<open>lines_of\<close>
  and \<open>diff\<close>, and what the merge relies on is stated as hypotheses: the lines of a text
  concatenate to it, and the operations are an edit script (\<open>script_ok\<close>): they cover both
  sequences from left to right without gaps, equal stretches are equal, stretches are not empty,
  and two insertions never follow each other. Slicing a vector out of range panics; that is the
  result \<open>None\<close>.
\<close>

section \<open>Hunks\<close>

datatype merge_outcome = Merged bytes | Merge_Conflict

text \<open>The operations of \<open>similar\<close>, with the fields of its variants in order.\<close>

datatype diff_op =
    Op_Equal nat nat nat
  | Op_Delete nat nat nat
  | Op_Insert nat nat nat
  | Op_Replace nat nat nat nat

record hunk =
  hk_start :: nat
  hk_end :: nat
  hk_lines :: "bytes list"

definition overlaps :: "hunk \<Rightarrow> hunk \<Rightarrow> bool" where
  "overlaps a b \<longleftrightarrow> hk_start a < hk_end b \<and> hk_start b < hk_end a"

definition is_insertion :: "hunk \<Rightarrow> bool" where
  "is_insertion h \<longleftrightarrow> hk_start h = hk_end h"

text \<open>\<open>&xs[a..b]\<close>.\<close>

definition slice :: "'a list \<Rightarrow> nat \<Rightarrow> nat \<Rightarrow> 'a list option" where
  "slice xs a b = (if a \<le> b \<and> b \<le> length xs then Some (take (b - a) (drop a xs)) else None)"

fun hunks_of :: "diff_op list \<Rightarrow> bytes list \<Rightarrow> hunk list option" where
  "hunks_of [] new_lines = Some []"
| "hunks_of (Op_Equal _ _ _ # ops) new_lines = hunks_of ops new_lines"
| "hunks_of (Op_Delete old_index old_len _ # ops) new_lines =
     map_option ((#) \<lparr>hk_start = old_index, hk_end = old_index + old_len, hk_lines = []\<rparr>)
       (hunks_of ops new_lines)"
| "hunks_of (Op_Insert old_index new_index new_len # ops) new_lines =
     Option.bind (slice new_lines new_index (new_index + new_len)) (\<lambda>ls.
       map_option ((#) \<lparr>hk_start = old_index, hk_end = old_index, hk_lines = ls\<rparr>)
         (hunks_of ops new_lines))"
| "hunks_of (Op_Replace old_index old_len new_index new_len # ops) new_lines =
     Option.bind (slice new_lines new_index (new_index + new_len)) (\<lambda>ls.
       map_option ((#) \<lparr>hk_start = old_index, hk_end = old_index + old_len, hk_lines = ls\<rparr>)
         (hunks_of ops new_lines))"

section \<open>The merge\<close>

definition hunks_clash :: "hunk \<Rightarrow> hunk \<Rightarrow> bool" where
  "hunks_clash ho ht \<longleftrightarrow>
     overlaps ho ht \<or>
     is_insertion ho \<and> is_insertion ht \<and> hk_start ho = hk_start ht \<and> hk_lines ho \<noteq> hk_lines ht"

text \<open>The sort key of the union, and the duplicate insertion that is skipped.\<close>

definition hunk_key :: "hunk \<times> bool \<Rightarrow> nat \<times> bool \<times> bool" where
  "hunk_key = (\<lambda>(h, from_theirs). (hk_start h, \<not> is_insertion h, from_theirs))"

definition same_insertion :: "hunk \<Rightarrow> hunk \<Rightarrow> bool" where
  "same_insertion h next \<longleftrightarrow>
     is_insertion next \<and> is_insertion h \<and> hk_start next = hk_start h \<and> hk_lines next = hk_lines h"

text \<open>The loop over the sorted hunks; the rest of the base lines at the end.\<close>

function merge_loop :: "bytes list \<Rightarrow> nat \<Rightarrow> hunk list \<Rightarrow> bytes list option" where
  "merge_loop base_lines pos [] = slice base_lines pos (length base_lines)"
| "merge_loop base_lines pos (h # hs) =
     Option.bind (slice base_lines pos (hk_start h)) (\<lambda>kept.
       map_option (\<lambda>rest. kept @ hk_lines h @ rest)
         (merge_loop base_lines (hk_end h) (dropWhile (same_insertion h) hs)))"
  by pat_completeness auto
termination
  by (relation "measure (\<lambda>(b, p, hs). length hs)") (auto simp: le_imp_less_Suc length_dropWhile_le)

definition merge_hunks :: "bytes list \<Rightarrow> hunk list \<Rightarrow> hunk list \<Rightarrow> merge_outcome option" where
  "merge_hunks base_lines ours_hunks theirs_hunks =
     (if list_ex (\<lambda>ho. list_ex (hunks_clash ho) theirs_hunks) ours_hunks then Some Merge_Conflict
      else
        let sorted_hunks = sort_key hunk_key
              (map (\<lambda>h. (h, False)) ours_hunks @ map (\<lambda>h. (h, True)) theirs_hunks)
        in map_option (\<lambda>merged. Merged (concat merged))
             (merge_loop base_lines 0 (map fst sorted_hunks)))"

definition merge_lines ::
    "(bytes \<Rightarrow> bytes list) \<Rightarrow> (bytes list \<Rightarrow> bytes list \<Rightarrow> diff_op list) \<Rightarrow>
     bytes \<Rightarrow> bytes \<Rightarrow> bytes \<Rightarrow> merge_outcome option" where
  "merge_lines lines_of diff base ours theirs =
     (if ours = base then Some (Merged theirs)
      else if theirs = base then Some (Merged ours)
      else if ours = theirs then Some (Merged ours)
      else if \<not> (utf8_valid base \<and> utf8_valid ours \<and> utf8_valid theirs) then Some Merge_Conflict
      else
        let base_lines = lines_of base in
        Option.bind (hunks_of (diff base_lines (lines_of ours)) (lines_of ours)) (\<lambda>ours_hunks.
        Option.bind (hunks_of (diff base_lines (lines_of theirs)) (lines_of theirs)) (\<lambda>theirs_hunks.
          merge_hunks base_lines ours_hunks theirs_hunks)))"

section \<open>Edit scripts\<close>

text \<open>
  The operations transform \<open>old\<close> into \<open>new\<close>, from the given positions on; the flag says that
  the operation before was an insertion.
\<close>

fun script_from :: "bytes list \<Rightarrow> bytes list \<Rightarrow> nat \<Rightarrow> nat \<Rightarrow> bool \<Rightarrow> diff_op list \<Rightarrow> bool" where
  "script_from old new i j ins [] \<longleftrightarrow> i = length old \<and> j = length new"
| "script_from old new i j ins (Op_Equal oi ni n # ops) \<longleftrightarrow>
     oi = i \<and> ni = j \<and> 0 < n \<and> i + n \<le> length old \<and> j + n \<le> length new \<and>
     take n (drop i old) = take n (drop j new) \<and> script_from old new (i + n) (j + n) False ops"
| "script_from old new i j ins (Op_Delete oi on ni # ops) \<longleftrightarrow>
     oi = i \<and> ni = j \<and> 0 < on \<and> i + on \<le> length old \<and> script_from old new (i + on) j False ops"
| "script_from old new i j ins (Op_Insert oi ni nn # ops) \<longleftrightarrow>
     oi = i \<and> ni = j \<and> 0 < nn \<and> j + nn \<le> length new \<and> \<not> ins \<and>
     script_from old new i (j + nn) True ops"
| "script_from old new i j ins (Op_Replace oi on ni nn # ops) \<longleftrightarrow>
     oi = i \<and> ni = j \<and> 0 < on \<and> 0 < nn \<and> i + on \<le> length old \<and> j + nn \<le> length new \<and>
     script_from old new (i + on) (j + nn) False ops"

definition script_ok :: "bytes list \<Rightarrow> bytes list \<Rightarrow> diff_op list \<Rightarrow> bool" where
  "script_ok old new ops \<longleftrightarrow> script_from old new 0 0 False ops"

text \<open>
  The specification of the merge, on the positions of the base: there is a gap before every line and one behind the
  last. A hunk that inserts touches the gap it inserts at; one that replaces touches the lines it replaces and the
  gaps between them. Hunks of the two sides collide if they touch the same line, if one inserts between two lines
  that the other replaces, or if both insert at the same gap, but not the same.
\<close>

definition touched_lines :: "hunk \<Rightarrow> nat set" where
  "touched_lines h = {hk_start h ..< hk_end h}"

definition inner_gaps :: "hunk \<Rightarrow> nat set" where
  "inner_gaps h = {hk_start h <..< hk_end h}"

definition collide :: "hunk \<Rightarrow> hunk \<Rightarrow> bool" where
  "collide h k \<longleftrightarrow>
     touched_lines h \<inter> touched_lines k \<noteq> {} \<or>
     is_insertion h \<and> hk_start h \<in> inner_gaps k \<or> is_insertion k \<and> hk_start k \<in> inner_gaps h \<or>
     is_insertion h \<and> is_insertion k \<and> hk_start h = hk_start k \<and> hk_lines h \<noteq> hk_lines k"

text \<open>What a set of hunks makes of one position: the text inserted at the gap, the text that replaces the lines from
  here on, and the line itself if no hunk replaces it.\<close>

definition gap_text :: "hunk list \<Rightarrow> nat \<Rightarrow> bytes list" where
  "gap_text hs i = (case find (\<lambda>h. is_insertion h \<and> hk_start h = i) hs of None \<Rightarrow> [] | Some h \<Rightarrow> hk_lines h)"

definition new_text :: "hunk list \<Rightarrow> nat \<Rightarrow> bytes list" where
  "new_text hs i = (case find (\<lambda>h. \<not> is_insertion h \<and> hk_start h = i) hs of None \<Rightarrow> [] | Some h \<Rightarrow> hk_lines h)"

definition kept_line :: "bytes list \<Rightarrow> hunk list \<Rightarrow> nat \<Rightarrow> bytes list" where
  "kept_line base hs i = (if i < length base \<and> (\<forall>h \<in> set hs. i \<notin> touched_lines h) then [base ! i] else [])"

definition position_text :: "bytes list \<Rightarrow> hunk list \<Rightarrow> nat \<Rightarrow> bytes list" where
  "position_text base hs i = gap_text hs i @ new_text hs i @ kept_line base hs i"

definition patch_from :: "bytes list \<Rightarrow> nat \<Rightarrow> hunk list \<Rightarrow> bytes list" where
  "patch_from base pos hs = concat (map (position_text base hs) [pos ..< Suc (length base)])"

definition patch :: "bytes list \<Rightarrow> hunk list \<Rightarrow> bytes list" where
  "patch base hs = patch_from base 0 hs"

section \<open>Hunks of an edit script\<close>

lemma slice_Some: "a \<le> b \<Longrightarrow> b \<le> length xs \<Longrightarrow> slice xs a b = Some (take (b - a) (drop a xs))"
  by (simp add: slice_def)

text \<open>A chain of hunks over the base from a position on: in order, in range, at most one
  insertion at a position.\<close>

fun chain :: "nat \<Rightarrow> nat \<Rightarrow> bool \<Rightarrow> hunk list \<Rightarrow> bool" where
  "chain len pos ins [] \<longleftrightarrow> pos \<le> len"
| "chain len pos ins (h # hs) \<longleftrightarrow>
     pos \<le> hk_start h \<and> hk_start h \<le> hk_end h \<and> hk_end h \<le> len \<and>
     (ins \<and> hk_start h = pos \<longrightarrow> \<not> is_insertion h) \<and> chain len (hk_end h) (is_insertion h) hs"

text \<open>What the hunks make of the base lines from a position on.\<close>

fun apply_hunks :: "bytes list \<Rightarrow> nat \<Rightarrow> hunk list \<Rightarrow> bytes list" where
  "apply_hunks base pos [] = drop pos base"
| "apply_hunks base pos (h # hs) =
     take (hk_start h - pos) (drop pos base) @ hk_lines h @ apply_hunks base (hk_end h) hs"

lemma chain_weaken: "chain len pos ins hs \<Longrightarrow> chain len pos False hs"
  by (cases hs) auto

lemma chain_back: "chain len pos ins hs \<Longrightarrow> p < pos \<Longrightarrow> chain len p ins' hs"
  by (cases hs) auto

lemma chain_pos: "chain len pos ins hs \<Longrightarrow> pos \<le> len"
  by (cases hs) auto

lemma apply_hunks_back:
  "chain (length base) pos ins hs \<Longrightarrow> p \<le> pos \<Longrightarrow>
     apply_hunks base p hs = take (pos - p) (drop p base) @ apply_hunks base pos hs"
proof (cases hs)
  case Nil
  assume "p \<le> pos"
  then have "drop p base = take (pos - p) (drop p base) @ drop pos base"
    using append_take_drop_id [of "pos - p" "drop p base", symmetric] by (simp only: drop_drop le_add_diff_inverse2)
  with Nil show ?thesis by simp
next
  case (Cons h hs')
  assume c: "chain (length base) pos ins hs" and p: "p \<le> pos"
  let ?d = "drop p base"
  have "take (hk_start h - p) ?d = take (pos - p) ?d @ take (hk_start h - pos) (drop (pos - p) ?d)"
    using c p Cons take_add [of "pos - p" "hk_start h - pos" ?d] by simp
  then show ?thesis using Cons p by simp
qed

lemma script_hunks:
  "script_from old new i j ins ops \<Longrightarrow> j \<le> length new \<Longrightarrow>
   \<exists>hs. hunks_of ops new = Some hs \<and> chain (length old) i ins hs \<and> apply_hunks old i hs = drop j new"
proof (induction old new i j ins ops rule: script_from.induct)
  case (1 old new i j ins)
  then show ?case by simp
next
  case (2 old new i j ins oi ni n ops)
  then obtain hs where hs: "hunks_of ops new = Some hs" "chain (length old) (i + n) False hs"
    "apply_hunks old (i + n) hs = drop (j + n) new" by auto
  have "apply_hunks old i hs = take n (drop j new) @ drop (j + n) new"
    using apply_hunks_back [OF hs(2), of i] hs(3) 2 by simp
  also have "\<dots> = drop j new" by (metis append_take_drop_id drop_drop add.commute)
  finally show ?case using hs chain_back [OF hs(2), of i ins] 2 by auto
next
  case (3 old new i j ins oi on ni ops)
  then show ?case by (auto simp: is_insertion_def)
next
  case (4 old new i j ins oi ni nn ops)
  then obtain hs where hs: "hunks_of ops new = Some hs" "chain (length old) i True hs"
    "apply_hunks old i hs = drop (j + nn) new" by auto
  moreover have "take nn (drop j new) @ drop (j + nn) new = drop j new"
    by (metis append_take_drop_id drop_drop add.commute)
  ultimately show ?case using 4 chain_pos [OF hs(2)] by (auto simp: slice_Some is_insertion_def)
next
  case (5 old new i j ins oi on ni nn ops)
  then obtain hs where hs: "hunks_of ops new = Some hs" "chain (length old) (i + on) False hs"
    "apply_hunks old (i + on) hs = drop (j + nn) new" by auto
  moreover have "take nn (drop j new) @ drop (j + nn) new = drop j new"
    by (metis append_take_drop_id drop_drop add.commute)
  ultimately show ?case using 5 by (auto simp: slice_Some is_insertion_def)
qed

section \<open>The sorted union\<close>

definition before :: "hunk \<Rightarrow> hunk \<Rightarrow> bool" where
  "before h k \<longleftrightarrow> (hk_start h, \<not> is_insertion h) < (hk_start k, \<not> is_insertion k)"

text \<open>The union in the order the sort puts it: ours first where the keys are equal.\<close>

fun union2 :: "hunk list \<Rightarrow> hunk list \<Rightarrow> (hunk \<times> bool) list" where
  "union2 [] ts = map (\<lambda>h. (h, True)) ts"
| "union2 os [] = map (\<lambda>h. (h, False)) os"
| "union2 (h # os) (k # ts) =
     (if before k h then (k, True) # union2 (h # os) ts else (h, False) # union2 os (k # ts))"

lemma chain_before: "chain len pos ins hs \<Longrightarrow> sorted_wrt before hs \<and> (\<forall>h \<in> set hs. pos \<le> hk_start h \<and> (ins \<and> hk_start h = pos \<longrightarrow> \<not> is_insertion h))"
proof (induction hs arbitrary: pos ins)
  case (Cons h hs)
  from Cons.IH [of "hk_end h" "is_insertion h"] Cons.prems
  have s: "sorted_wrt before hs" and
    b: "\<forall>k \<in> set hs. hk_end h \<le> hk_start k \<and> (is_insertion h \<and> hk_start k = hk_end h \<longrightarrow> \<not> is_insertion k)" by auto
  have "before h k" if "k \<in> set hs" for k
    using b that Cons.prems by (auto simp: before_def is_insertion_def less_prod_def less_bool_def order_le_less)
  moreover have "pos \<le> hk_start k \<and> (ins \<and> hk_start k = pos \<longrightarrow> \<not> is_insertion k)" if "k \<in> set hs" for k
    using b that Cons.prems by (auto simp: is_insertion_def)
  ultimately show ?case using s Cons.prems by auto
qed simp

lemma mset_union2: "mset (union2 os ts) = mset (map (\<lambda>h. (h, False)) os @ map (\<lambda>h. (h, True)) ts)"
  by (induction os ts rule: union2.induct) (simp_all add: union_commute)

lemma hunk_key_less: "hunk_key (h, p) < hunk_key (k, q) \<longleftrightarrow>
   before h k \<or> (\<not> before k h \<and> p < q)"
  by (auto simp: hunk_key_def before_def less_prod_def less_bool_def)

lemma before_trans: "before a b \<Longrightarrow> before b c \<Longrightarrow> before a c"
  by (auto simp: before_def)

lemma not_before_trans: "before a b \<Longrightarrow> \<not> before c b \<Longrightarrow> before a c"
  by (auto simp: before_def)

lemma set_union2: "set (union2 os ts) = (\<lambda>h. (h, False)) ` set os \<union> (\<lambda>h. (h, True)) ` set ts"
  using arg_cong [OF mset_union2 [of os ts], of set_mset] by simp

lemma hunk_key_le: "hunk_key (h, p) \<le> hunk_key (k, q) \<longleftrightarrow> before h k \<or> \<not> before k h \<and> p \<le> q"
  by (auto simp: hunk_key_def before_def less_eq_prod_def less_prod_def less_bool_def)

lemma sorted_union2:
  "sorted_wrt before os \<Longrightarrow> sorted_wrt before ts \<Longrightarrow> sorted (map hunk_key (union2 os ts))"
proof (induction os ts rule: union2.induct)
  case (1 ts)
  then show ?case by (auto simp: sorted_wrt_map hunk_key_le intro: sorted_wrt_mono_rel [of _ before])
next
  case (2 v va)
  then show ?case by (auto simp: sorted_wrt_map hunk_key_le intro: sorted_wrt_mono_rel [of _ before])
next
  case (3 h os k ts)
  show ?case
  proof (cases "before k h")
    case True
    have "before k x" if "x \<in> set os" for x using before_trans [OF True] "3.prems"(1) that by auto
    with True show ?thesis
      using 3 by (auto simp: set_union2 hunk_key_le)
  next
    case False
    then show ?thesis
      using 3 by (auto simp: set_union2 hunk_key_le intro: before_trans not_before_trans)
  qed
qed

lemma sorted_before_inj: "sorted_wrt before hs \<Longrightarrow> a \<in> set hs \<Longrightarrow> b \<in> set hs \<Longrightarrow> hunk_key (a, p) = hunk_key (b, p) \<Longrightarrow> a = b"
  by (induction hs) (auto simp: before_def hunk_key_def less_prod_def)

lemma sort_union2:
  assumes "sorted_wrt before os" and "sorted_wrt before ts"
  shows "sort_key hunk_key (map (\<lambda>h. (h, False)) os @ map (\<lambda>h. (h, True)) ts) = union2 os ts"
proof (rule sort_key_inj_key_eq)
  show "mset (map (\<lambda>h. (h, False)) os @ map (\<lambda>h. (h, True)) ts) = mset (union2 os ts)"
    by (simp add: mset_union2)
  show "inj_on hunk_key (set (map (\<lambda>h. (h, False)) os @ map (\<lambda>h. (h, True)) ts))"
    using sorted_before_inj assms by (fastforce simp: inj_on_def hunk_key_def)
  show "sorted (map hunk_key (union2 os ts))" using assms by (rule sorted_union2)
qed

section \<open>The merge loop\<close>

text \<open>Hunks that start alike and are of one kind are the same hunk.\<close>

definition uniq :: "hunk list \<Rightarrow> bool" where
  "uniq hs \<longleftrightarrow> (\<forall>h \<in> set hs. \<forall>k \<in> set hs. hk_start h = hk_start k \<longrightarrow> is_insertion h = is_insertion k \<longrightarrow> h = k)"

lemma find_uniq:
  assumes "set hs = set hs'" and "\<And>h k. h \<in> set hs \<Longrightarrow> k \<in> set hs \<Longrightarrow> P h \<Longrightarrow> P k \<Longrightarrow> h = k"
  shows "find P hs = find P hs'"
proof (cases "find P hs")
  case None
  then have "find P hs' = None" using assms(1) by (simp add: find_None_iff)
  then show ?thesis using None by simp
next
  case (Some h)
  then have h: "h \<in> set hs" "P h" by (auto simp: find_Some_iff)
  then obtain k where k: "find P hs' = Some k" using assms(1) by (cases "find P hs'") (auto simp: find_None_iff)
  then have "k \<in> set hs" "P k" using assms(1) by (auto simp: find_Some_iff)
  then show ?thesis using assms(2) h Some k by metis
qed

lemma patch_from_cong:
  assumes "set hs = set hs'" and "uniq hs"
  shows "patch_from base pos hs = patch_from base pos hs'"
proof -
  have "gap_text hs i = gap_text hs' i" "new_text hs i = new_text hs' i" "kept_line base hs i = kept_line base hs' i" for i
    using assms(2) find_uniq [OF assms(1), of "\<lambda>h. is_insertion h \<and> hk_start h = i"]
      find_uniq [OF assms(1), of "\<lambda>h. \<not> is_insertion h \<and> hk_start h = i"] assms(1)
    by (auto simp: uniq_def gap_text_def new_text_def kept_line_def)
  then have "position_text base hs = position_text base hs'" by (intro ext) (simp add: position_text_def)
  then show ?thesis by (simp add: patch_from_def)
qed

lemma texts_none:
  assumes "\<forall>k \<in> set hs. hk_start k \<noteq> i"
  shows "gap_text hs i = []" "new_text hs i = []"
proof -
  have "find (\<lambda>h. is_insertion h \<and> hk_start h = i) hs = None" "find (\<lambda>h. \<not> is_insertion h \<and> hk_start h = i) hs = None"
    using assms by (auto simp: find_None_iff)
  then show "gap_text hs i = []" "new_text hs i = []" by (simp_all add: gap_text_def new_text_def)
qed

lemma patch_from_split:
  "pos \<le> mid \<Longrightarrow> mid \<le> length base \<Longrightarrow>
     patch_from base pos hs = concat (map (position_text base hs) [pos ..< mid]) @ patch_from base mid hs"
  using upt_add_eq_append [of pos mid "Suc (length base) - mid"] by (simp add: patch_from_def)

text \<open>Positions that no hunk touches keep their lines.\<close>

lemma positions_kept:
  assumes "pos \<le> mid" "mid \<le> length base" "\<forall>k \<in> set hs. mid \<le> hk_start k"
  shows "concat (map (position_text base hs) [pos ..< mid]) = take (mid - pos) (drop pos base)"
proof -
  have "position_text base hs i = [base ! i]" if "i \<in> set [pos ..< mid]" for i
    using that assms texts_none [of hs i] by (fastforce simp: position_text_def kept_line_def touched_lines_def)
  then have "map (position_text base hs) [pos ..< mid] = map (\<lambda>i. [base ! i]) [pos ..< mid]" by (rule map_cong [OF refl])
  then have "concat (map (position_text base hs) [pos ..< mid]) = map ((!) base) [pos ..< mid]" by (simp only: concat_map_singleton)
  also have "\<dots> = take (mid - pos) (drop pos base)" using assms(1,2) by (intro nth_equalityI) auto
  finally show ?thesis .
qed

lemma patch_from_Nil: "pos \<le> length base \<Longrightarrow> patch_from base pos [] = drop pos base"
  using patch_from_split [of pos "length base" base "[]"] positions_kept [of pos "length base" base "[]"]
  by (simp add: patch_from_def position_text_def kept_line_def gap_text_def new_text_def)

text \<open>The hunk that comes first contributes its lines, and the others go on behind it.\<close>

lemma patch_from_take:
  assumes "pos \<le> hk_start h" "hk_start h \<le> hk_end h" "hk_end h \<le> length base"
    and rest: "\<forall>k \<in> set hs. hk_end h \<le> hk_start k" "\<forall>k \<in> set hs. is_insertion h \<longrightarrow> is_insertion k \<longrightarrow> hk_start k \<noteq> hk_start h"
  shows "patch_from base pos (h # hs) = take (hk_start h - pos) (drop pos base) @ hk_lines h @ patch_from base (hk_end h) hs"
proof -
  let ?s = "hk_start h" and ?e = "hk_end h"
  have "patch_from base pos (h # hs) = take (?s - pos) (drop pos base) @ patch_from base ?s (h # hs)"
    using patch_from_split [of pos ?s base "h # hs"] positions_kept [of pos ?s base "h # hs"] assms(1-3) rest(1) by fastforce
  moreover have "patch_from base ?s (h # hs) = hk_lines h @ patch_from base ?e hs"
  proof (cases "is_insertion h")
    case True
    then have e: "?e = ?s" by (simp add: is_insertion_def)
    have gap: "gap_text hs ?s = []"
      using rest(2) True by (auto simp: gap_text_def find_None_iff split: option.split dest: find_Some_iff [THEN iffD1])
    have here: "position_text base (h # hs) ?s = hk_lines h @ position_text base hs ?s"
      using True e gap by (simp add: position_text_def gap_text_def new_text_def kept_line_def touched_lines_def)
    have later: "position_text base (h # hs) i = position_text base hs i" if "i \<in> set [Suc ?s ..< Suc (length base)]" for i
      using that True e by (auto simp: position_text_def gap_text_def new_text_def kept_line_def touched_lines_def)
    have "[?s ..< Suc (length base)] = ?s # [Suc ?s ..< Suc (length base)]" using assms(2,3) by (subst upt_conv_Cons) auto
    moreover have "map (position_text base (h # hs)) [Suc ?s ..< Suc (length base)] = map (position_text base hs) [Suc ?s ..< Suc (length base)]"
      using later by (rule map_cong [OF refl])
    ultimately have "concat (map (position_text base (h # hs)) [?s ..< Suc (length base)]) =
        hk_lines h @ concat (map (position_text base hs) [?s ..< Suc (length base)])"
      using here by (simp del: upt_Suc map_eq_conv)
    then show ?thesis using e by (simp add: patch_from_def)
  next
    case False
    then have lt: "?s < ?e" using assms(2) by (simp add: is_insertion_def)
    have none: "gap_text hs i = []" "new_text hs i = []" if "i < ?e" for i by (rule texts_none, use rest(1) that in force)+
    have here: "position_text base (h # hs) ?s = hk_lines h"
      using False lt none(1) [OF lt] by (simp add: position_text_def gap_text_def new_text_def kept_line_def touched_lines_def)
    have covered: "position_text base (h # hs) i = []" if "i \<in> set [Suc ?s ..< ?e]" for i
      using that False none [of i] by (auto simp: position_text_def gap_text_def new_text_def kept_line_def touched_lines_def)
    have later: "position_text base (h # hs) i = position_text base hs i" if "i \<in> set [?e ..< Suc (length base)]" for i
      using that False lt by (auto simp: position_text_def gap_text_def new_text_def kept_line_def touched_lines_def)
    have "[?s ..< ?e] = ?s # [Suc ?s ..< ?e]" using lt by (simp add: upt_conv_Cons)
    then have "concat (map (position_text base (h # hs)) [?s ..< ?e]) = hk_lines h" using here covered by simp
    moreover have "patch_from base ?e (h # hs) = patch_from base ?e hs"
      unfolding patch_from_def by (simp only: map_cong [OF refl later])
    ultimately show ?thesis using patch_from_split [of ?s ?e base "h # hs"] lt assms(3) by simp
  qed
  ultimately show ?thesis by simp
qed

lemma not_before_end:
  assumes "\<not> before k h" and "\<not> overlaps h k" and "hk_start h \<le> hk_end h" and "hk_start k \<le> hk_end k"
  shows "hk_end h \<le> hk_start k"
  using assms by (auto simp: before_def overlaps_def is_insertion_def less_prod_def less_bool_def)

lemma chain_from_head:
  "chain len pos ins (k # ts) \<Longrightarrow> p \<le> hk_start k \<Longrightarrow> chain len p False (k # ts)"
  by simp

lemma merge_loop_take:
  assumes "pos \<le> hk_start h" "hk_end h \<le> length base" "hk_start h \<le> hk_end h"
    and "merge_loop base (hk_end h) (dropWhile (same_insertion h) hs) = Some r"
  shows "merge_loop base pos (h # hs) = Some (take (hk_start h - pos) (drop pos base) @ hk_lines h @ r)"
  using assms by (simp add: slice_Some)

lemma dropWhile_same_none:
  "(\<And>k. k \<in> set hs \<Longrightarrow> \<not> same_insertion h k) \<Longrightarrow> dropWhile (same_insertion h) hs = hs"
  by (induction hs) auto

lemma chain_no_repeat:
  assumes "chain len (hk_end h) (is_insertion h) hs" and "k \<in> set hs" shows "\<not> same_insertion h k"
  using chain_before [OF assms(1)] assms(2) by (auto simp: same_insertion_def is_insertion_def)

lemma before_no_repeat: "before h k \<Longrightarrow> \<not> same_insertion h k"
  by (auto simp: before_def same_insertion_def less_prod_def)

definition no_clash :: "hunk list \<Rightarrow> hunk list \<Rightarrow> bool" where
  "no_clash os ts \<longleftrightarrow> (\<forall>h \<in> set os. \<forall>k \<in> set ts. \<not> hunks_clash h k)"

lemma clash_sym: "hunks_clash h k \<longleftrightarrow> hunks_clash k h"
  by (auto simp: hunks_clash_def overlaps_def)

lemma no_clash_sym: "no_clash os ts \<longleftrightarrow> no_clash ts os"
  using clash_sym by (auto simp: no_clash_def)

definition merged_from :: "bytes list \<Rightarrow> nat \<Rightarrow> hunk list \<Rightarrow> hunk list \<Rightarrow> hunk list \<Rightarrow> bool" where
  "merged_from base pos hs os ts \<longleftrightarrow> merge_loop base pos hs = Some (patch_from base pos (os @ ts))"

lemma tie_equal:
  assumes "hk_start h \<le> hk_end h" and "hk_start k \<le> hk_end k" and "\<not> hunks_clash h k"
    and "hk_start h = hk_start k" and "is_insertion h = is_insertion k"
  shows "h = k"
  using assms by (cases h; cases k) (auto simp: hunks_clash_def overlaps_def is_insertion_def)

lemma chain_ordered: "chain len pos ins hs \<Longrightarrow> h \<in> set hs \<Longrightarrow> hk_start h \<le> hk_end h"
  by (induction hs arbitrary: pos ins) auto

lemma chain_uniq: "chain len pos ins hs \<Longrightarrow> uniq hs"
  using sorted_before_inj [of hs _ _ False] chain_before [of len pos ins hs] by (simp add: uniq_def hunk_key_def)

lemma union_uniq:
  assumes "chain len pos io os" "chain len pos' it ts" "no_clash os ts"
  shows "uniq (os @ ts)"
proof -
  have cross: "h = k" if "h \<in> set os" "k \<in> set ts" "hk_start h = hk_start k" "is_insertion h = is_insertion k" for h k
    using tie_equal [of h k] that assms(3) chain_ordered [OF assms(1) that(1)] chain_ordered [OF assms(2) that(2)]
    by (simp add: no_clash_def)
  show ?thesis
    using chain_uniq [OF assms(1)] chain_uniq [OF assms(2)] cross unfolding uniq_def by (metis Un_iff set_append)
qed

lemma merged_from_sym:
  assumes "uniq (os @ ts)" shows "merged_from base pos hs os ts \<longleftrightarrow> merged_from base pos hs ts os"
proof -
  have "patch_from base pos (os @ ts) = patch_from base pos (ts @ os)"
    using assms by (intro patch_from_cong) auto
  then show ?thesis by (simp add: merged_from_def)
qed

text \<open>What follows a hunk starts behind it.\<close>

definition behind :: "hunk \<Rightarrow> hunk list \<Rightarrow> bool" where
  "behind h hs \<longleftrightarrow> (\<forall>k \<in> set hs. hk_end h \<le> hk_start k \<and> (is_insertion h \<longrightarrow> is_insertion k \<longrightarrow> hk_start k \<noteq> hk_start h))"

lemma chain_is_behind: "chain len (hk_end h) (is_insertion h) hs \<Longrightarrow> behind h hs"
  using chain_before [of len "hk_end h" "is_insertion h" hs] by (auto simp: behind_def is_insertion_def)

lemma merged_take:
  assumes "pos \<le> hk_start h" "hk_start h \<le> hk_end h" "hk_end h \<le> length base" "behind h os" "behind h ts"
    and "dropWhile (same_insertion h) hs = hs'" and "merged_from base (hk_end h) hs' os ts"
  shows "merged_from base pos (h # hs) (h # os) ts"
proof -
  have "merge_loop base pos (h # hs) =
      Some (take (hk_start h - pos) (drop pos base) @ hk_lines h @ patch_from base (hk_end h) (os @ ts))"
    by (rule merge_loop_take [OF assms(1,3,2)]) (use assms(6,7) in \<open>simp add: merged_from_def\<close>)
  moreover have "patch_from base pos (h # os @ ts) =
      take (hk_start h - pos) (drop pos base) @ hk_lines h @ patch_from base (hk_end h) (os @ ts)"
    using patch_from_take [OF assms(1-3), of "os @ ts"] assms(4,5) by (auto simp: behind_def)
  ultimately show ?thesis by (simp add: merged_from_def)
qed

lemma merged_take_both:
  assumes "pos \<le> hk_start h" "is_insertion h" "same_insertion h k" "hk_end h \<le> length base" "behind h os" "behind h ts"
    and "uniq (h # os @ k # ts)"
    and "dropWhile (same_insertion h) hs = hs'" and "merged_from base (hk_end h) hs' os ts"
  shows "merged_from base pos (h # hs) (h # os) (k # ts)"
proof -
  have k: "k = h" using assms(2,3) by (cases h; cases k) (auto simp: same_insertion_def is_insertion_def)
  have "merged_from base pos (h # hs) (h # os) ts"
    using merged_take [OF assms(1) _ assms(4-6,8,9)] assms(2) by (simp add: is_insertion_def)
  moreover have "patch_from base pos (h # os @ k # ts) = patch_from base pos (h # os @ ts)"
    using assms(7) k by (intro patch_from_cong) auto
  ultimately show ?thesis by (simp add: merged_from_def)
qed

lemma union2_insertion_next:
  assumes "chain len (hk_end h) True os" and "is_insertion k" and "hk_start k = hk_end h"
  shows "union2 os (k # ts) = (k, True) # union2 os ts"
proof (cases os)
  case (Cons a os')
  then have "before k a" using assms by (auto simp: before_def less_prod_def less_bool_def order_le_less)
  then show ?thesis using Cons by simp
qed simp

text \<open>The other side's chain goes on behind a hunk that comes first.\<close>

lemma chain_behind:
  assumes "chain len pos ins ts" and "\<forall>k \<in> set ts. \<not> before k h \<and> \<not> overlaps h k"
    and "hk_start h \<le> hk_end h" and "hk_end h \<le> len"
  shows "chain len (hk_end h) False ts"
proof (cases ts)
  case (Cons k ts')
  then have "hk_end h \<le> hk_start k" using assms by (intro not_before_end) auto
  then show ?thesis using assms(1) Cons by auto
qed (use assms in simp)

lemma no_clash_overlaps: "no_clash os ts \<Longrightarrow> h \<in> set os \<Longrightarrow> k \<in> set ts \<Longrightarrow> \<not> overlaps h k"
  by (auto simp: no_clash_def hunks_clash_def)

lemma rest_not_same:
  assumes "chain len (hk_end h) (is_insertion h) os" and "\<forall>k \<in> set ts. \<not> same_insertion h k"
  shows "dropWhile (same_insertion h) (map fst (union2 os ts)) = map fst (union2 os ts)"
    and "dropWhile (same_insertion h) (map fst (union2 ts os)) = map fst (union2 ts os)"
  by (rule dropWhile_same_none, use assms chain_no_repeat [OF assms(1)] in \<open>auto simp: set_union2\<close>)+

lemma before_sym_key: "\<not> before k h \<Longrightarrow> \<not> same_insertion h k \<Longrightarrow> \<not> hunks_clash h k \<Longrightarrow>
    hk_start h \<le> hk_end h \<Longrightarrow> hk_start k \<le> hk_end k \<Longrightarrow> before h k"
  by (cases "hk_start h" "hk_start k" rule: linorder_cases)
    (auto simp: before_def same_insertion_def hunks_clash_def less_prod_def less_bool_def overlaps_def is_insertion_def)

lemma union2_Nil2 [simp]: "union2 os [] = map (\<lambda>h. (h, False)) os"
  by (cases os) simp_all

lemma merge_step:
  assumes "chain (length base) pos io (h # os)" and "chain (length base) pos it ts"
    and "no_clash (h # os) ts" and "\<forall>k \<in> set ts. before h k"
  shows "chain (length base) (hk_end h) False ts"
    and "hs \<in> {map fst (union2 os ts), map fst (union2 ts os)} \<Longrightarrow>
      merged_from base (hk_end h) hs os ts \<Longrightarrow> merged_from base pos (h # hs) (h # os) ts"
proof -
  from assms(1) have h: "pos \<le> hk_start h" "hk_start h \<le> hk_end h" "hk_end h \<le> length base"
    "chain (length base) (hk_end h) (is_insertion h) os" by auto
  have "\<forall>k \<in> set ts. \<not> before k h \<and> \<not> overlaps h k"
    using assms(3,4) no_clash_overlaps by (fastforce simp: before_def)
  then show tc: "chain (length base) (hk_end h) False ts" using chain_behind [OF assms(2)] h by blast
  assume "hs \<in> {map fst (union2 os ts), map fst (union2 ts os)}"
  then have "dropWhile (same_insertion h) hs = hs"
    using rest_not_same [OF h(4), of ts] assms(4) before_no_repeat by auto
  moreover have "behind h ts" using chain_before [OF tc] assms(4) by (auto simp: behind_def before_def is_insertion_def)
  ultimately show "merged_from base (hk_end h) hs os ts \<Longrightarrow> merged_from base pos (h # hs) (h # os) ts"
    using merged_take [OF h(1-3) chain_is_behind [OF h(4)]] by blast
qed

lemma merge_step_both:
  assumes "chain (length base) pos io (h # os)" and "chain (length base) pos it (k # ts)" and "same_insertion h k"
    and "no_clash (h # os) (k # ts)"
  shows "chain (length base) (hk_end h) True ts"
    and "merged_from base (hk_end h) (map fst (union2 os ts)) os ts \<Longrightarrow>
      merged_from base pos (h # map fst (union2 os (k # ts))) (h # os) (k # ts)"
proof -
  have ins: "is_insertion h" "is_insertion k" "hk_start k = hk_end h" "hk_end k = hk_end h"
    using assms(3) by (auto simp: same_insertion_def is_insertion_def)
  from assms(1) have h: "pos \<le> hk_start h" "hk_end h \<le> length base"
    "chain (length base) (hk_end h) (is_insertion h) os" by auto
  show kc: "chain (length base) (hk_end h) True ts" using assms(2) ins by simp
  have "\<forall>x \<in> set ts. \<not> same_insertion h x" using chain_no_repeat [of "length base" h ts] kc ins by auto
  moreover have "union2 os (k # ts) = (k, True) # union2 os ts"
    using union2_insertion_next [of "length base" h os k ts] h(3) ins by simp
  ultimately have "dropWhile (same_insertion h) (map fst (union2 os (k # ts))) = map fst (union2 os ts)"
    using rest_not_same(1) [OF h(3), of ts] assms(3) by simp
  moreover have "behind h os" "behind h ts" using chain_is_behind [of "length base" h] h(3) kc ins(1) by auto
  moreover have "uniq (h # os @ k # ts)" using union_uniq [OF assms(1,2,4)] by simp
  ultimately show "merged_from base (hk_end h) (map fst (union2 os ts)) os ts \<Longrightarrow>
      merged_from base pos (h # map fst (union2 os (k # ts))) (h # os) (k # ts)"
    using merged_take_both [OF h(1) ins(1) assms(3) h(2)] by blast
qed

lemma merge_union:
  assumes "chain (length base) pos io os" and "chain (length base) pos it ts" and "no_clash os ts"
  shows "merged_from base pos (map fst (union2 os ts)) os ts"
  using assms
proof (induction "length os + length ts" arbitrary: os ts pos io it rule: less_induct)
  case less
  have take_ours: ?case if os: "os = h # os'" and bf: "\<forall>k \<in> set ts. before h k" for h os'
  proof -
    have un: "union2 os ts = (h, False) # union2 os' ts"
      using os bf by (cases ts) (auto simp: before_def)
    have nc: "no_clash os' ts" using less.prems(3) os by (auto simp: no_clash_def)
    note st = merge_step [OF less.prems(1) [unfolded os] less.prems(2) less.prems(3) [unfolded os] bf]
    have "chain (length base) (hk_end h) (is_insertion h) os'" using less.prems(1) os by simp
    from less.hyps [OF _ this st(1) nc] st(2) [of "map fst (union2 os' ts)"] show ?thesis by (simp add: un [unfolded os] os)
  qed
  have take_theirs: ?case if ts: "ts = k # ts'" and bf: "\<forall>h \<in> set os. before k h" for k ts'
  proof -
    have un: "union2 os ts = (k, True) # union2 os ts'"
      using ts bf by (cases os) (auto simp: before_def)
    have nc: "no_clash os ts'" using less.prems(3) ts by (auto simp: no_clash_def)
    note st = merge_step [OF less.prems(2) [unfolded ts] less.prems(1) _ bf]
    have nc': "no_clash (k # ts') os" using less.prems(3) ts no_clash_sym by blast
    have kc: "chain (length base) (hk_end k) (is_insertion k) ts'" using less.prems(2) ts by simp
    from less.hyps [OF _ st(1) [OF nc'] kc nc] have "merged_from base (hk_end k) (map fst (union2 os ts')) ts' os"
      using ts merged_from_sym [OF union_uniq [OF st(1) [OF nc'] kc nc]] by simp
    from st(2) [OF nc' _ this] show ?thesis
      using merged_from_sym [OF union_uniq [OF less.prems]] by (simp add: un [unfolded ts] ts)
  qed
  show ?case
  proof (cases os)
    case Nil
    then show ?thesis
    proof (cases ts)
      case ts: Nil
      have "merge_loop base pos [] = Some (drop pos base)"
        using chain_pos [OF less.prems(1)] by (simp add: slice_Some)
      then show ?thesis using chain_pos [OF less.prems(1)] by (simp add: Nil ts merged_from_def patch_from_Nil)
    qed (use take_theirs Nil in simp)
  next
    case os: (Cons h os')
    note ob = chain_before [OF less.prems(1)] and tb = chain_before [OF less.prems(2)]
    show ?thesis
    proof (cases ts)
      case ts: (Cons k ts')
      have len: "hk_start h \<le> hk_end h" "hk_start k \<le> hk_end k" using less.prems(1,2) os ts by auto
      consider "before k h" | "same_insertion h k" "\<not> before k h" | "before h k"
        using before_sym_key [OF _ _ _ len] less.prems(3) os ts by (auto simp: no_clash_def)
      then show ?thesis
      proof cases
        case 1
        then show ?thesis using take_theirs [OF ts] ob os before_trans [OF 1] by auto
      next
        case 2
        note st = merge_step_both [OF less.prems(1) [unfolded os] less.prems(2) [unfolded ts] 2(1) less.prems(3) [unfolded os ts]]
        have "no_clash os' ts'" using less.prems(3) os ts by (auto simp: no_clash_def)
        moreover have "chain (length base) (hk_end h) (is_insertion h) os'" using less.prems(1) os by simp
        ultimately have "merged_from base (hk_end h) (map fst (union2 os' ts')) os' ts'"
          using less.hyps [OF _ _ st(1)] os ts by simp
        from st(2) [OF this] show ?thesis using 2(2) by (simp add: os ts)
      next
        case 3
        then show ?thesis using take_ours [OF os] tb ts before_trans [OF 3] by auto
      qed
    qed (use take_ours os in simp)
  qed
qed

section \<open>The whole merge\<close>

lemma script_ok_hunks:
  "script_ok old new ops \<Longrightarrow>
   \<exists>hs. hunks_of ops new = Some hs \<and> chain (length old) 0 False hs \<and> apply_hunks old 0 hs = new"
  using script_hunks [of old new 0 0 False ops] by (simp add: script_ok_def)

lemma no_clash_list_ex: "list_ex (\<lambda>ho. list_ex (hunks_clash ho) ts) os \<longleftrightarrow> \<not> no_clash os ts"
  by (auto simp: list_ex_iff no_clash_def)

lemma merge_hunks_clean:
  assumes "chain (length base) 0 False os" and "chain (length base) 0 False ts"
  shows "merge_hunks base os ts =
    (if no_clash os ts then map_option (\<lambda>r. Merged (concat r)) (merge_loop base 0 (map fst (union2 os ts)))
     else Some Merge_Conflict)"
  using assms chain_before
  by (simp add: merge_hunks_def no_clash_list_ex Let_def sort_union2)

text \<open>The check of the code is the collision of the specification.\<close>

lemma hunks_clash_collide:
  "hk_start h \<le> hk_end h \<Longrightarrow> hk_start k \<le> hk_end k \<Longrightarrow> hunks_clash h k \<longleftrightarrow> collide h k"
  by (cases "is_insertion h"; cases "is_insertion k")
    (auto simp: hunks_clash_def collide_def overlaps_def touched_lines_def inner_gaps_def is_insertion_def disjoint_iff
      intro: exI [of _ "max (hk_start h) (hk_start k)"])

lemma no_clash_collide:
  "chain len pos io os \<Longrightarrow> chain len pos' it ts \<Longrightarrow> no_clash os ts \<longleftrightarrow> (\<forall>h \<in> set os. \<forall>k \<in> set ts. \<not> collide h k)"
  using hunks_clash_collide chain_ordered unfolding no_clash_def by blast

lemma merge_hunks_patch:
  assumes "chain (length base) 0 False os" and "chain (length base) 0 False ts"
  shows "merge_hunks base os ts =
    Some (if \<exists>h \<in> set os. \<exists>k \<in> set ts. collide h k then Merge_Conflict else Merged (concat (patch base (os @ ts))))"
  using merge_union [OF assms] no_clash_collide [OF assms]
  by (auto simp: merge_hunks_clean [OF assms] merged_from_def patch_def)

text \<open>The hunks of one side, on their own, make that side of the base.\<close>

lemma patch_from_chain: "chain (length base) pos ins hs \<Longrightarrow> patch_from base pos hs = apply_hunks base pos hs"
proof (induction hs arbitrary: pos ins)
  case (Cons h hs)
  then have c: "chain (length base) (hk_end h) (is_insertion h) hs" by simp
  then show ?case
    using patch_from_take [of pos h base hs] Cons.IH [OF c] Cons.prems chain_is_behind [OF c] chain_pos [OF c]
    by (auto simp: behind_def)
qed (simp add: patch_from_Nil)

definition hunk_key2 :: "hunk \<Rightarrow> nat \<times> bool" where
  "hunk_key2 h = (hk_start h, \<not> is_insertion h)"

lemma union2_fst:
  assumes "chain len 0 False os" and "chain len 0 False ts" and "no_clash os ts"
    and hs: "mset hs = mset (os @ ts)"
  shows "map fst (union2 os ts) = sort_key hunk_key2 hs"
proof (rule sort_key_inj_key_eq [symmetric])
  have "mset (map fst (union2 os ts)) = image_mset fst (mset (union2 os ts))" by simp
  also have "\<dots> = mset (os @ ts)" by (simp add: mset_union2 image_mset.compositionality o_def)
  finally show "mset hs = mset (map fst (union2 os ts))" using hs by simp
  have within: "a = b" if "chain len 0 False hs" "a \<in> set hs" "b \<in> set hs" "hunk_key2 a = hunk_key2 b" for a b hs
    using sorted_before_inj [of hs a b False] chain_before [OF that(1)] that(2-4) by (simp add: hunk_key_def hunk_key2_def)
  have cross: "a = b" if "a \<in> set os" "b \<in> set ts" "hunk_key2 a = hunk_key2 b" for a b
    using tie_equal [OF chain_ordered [OF assms(1) that(1)] chain_ordered [OF assms(2) that(2)]] assms(3) that
    by (auto simp: hunk_key2_def no_clash_def)
  have "set hs = set (os @ ts)" using hs by (metis set_mset_mset)
  then show "inj_on hunk_key2 (set hs)"
    unfolding inj_on_def using within [OF assms(1)] within [OF assms(2)] cross cross [symmetric] by (metis UnE set_append)
  have "sorted (map hunk_key (union2 os ts))"
    using chain_before assms by (intro sorted_union2) auto
  then show "sorted (map hunk_key2 (map fst (union2 os ts)))"
    by (auto simp: sorted_wrt_map hunk_key_def hunk_key2_def less_eq_prod_def split_beta elim!: sorted_wrt_mono_rel [rotated])
qed

lemma merge_hunks_sym:
  assumes "chain (length base) 0 False os" and "chain (length base) 0 False ts"
  shows "merge_hunks base os ts = merge_hunks base ts os"
proof (cases "no_clash os ts")
  case True
  then have nc: "no_clash ts os" using no_clash_sym by blast
  have "map fst (union2 ts os) = map fst (union2 os ts)"
    using union2_fst [OF assms(2,1) nc, of "os @ ts"] union2_fst [OF assms True, of "os @ ts"] by simp
  then show ?thesis using True nc by (simp only: merge_hunks_clean [OF assms] merge_hunks_clean [OF assms(2,1)] if_True)
qed (use no_clash_sym in \<open>simp add: merge_hunks_clean [OF assms] merge_hunks_clean [OF assms(2,1)]\<close>)

text \<open>The edits of a side, as the diff library reports them.\<close>

definition edits :: "(bytes \<Rightarrow> bytes list) \<Rightarrow> (bytes list \<Rightarrow> bytes list \<Rightarrow> diff_op list) \<Rightarrow> bytes \<Rightarrow> bytes \<Rightarrow> hunk list" where
  "edits lines_of diff base side =
     (case hunks_of (diff (lines_of base) (lines_of side)) (lines_of side) of None \<Rightarrow> [] | Some hs \<Rightarrow> hs)"

lemma edits_ok:
  assumes "script_ok (lines_of base) (lines_of side) (diff (lines_of base) (lines_of side))"
  shows "hunks_of (diff (lines_of base) (lines_of side)) (lines_of side) = Some (edits lines_of diff base side)"
    and "chain (length (lines_of base)) 0 False (edits lines_of diff base side)"
    and "patch (lines_of base) (edits lines_of diff base side) = lines_of side"
proof -
  obtain hs where hs: "hunks_of (diff (lines_of base) (lines_of side)) (lines_of side) = Some hs"
    "chain (length (lines_of base)) 0 False hs" "apply_hunks (lines_of base) 0 hs = lines_of side"
    using script_ok_hunks [OF assms] by blast
  then show "hunks_of (diff (lines_of base) (lines_of side)) (lines_of side) = Some (edits lines_of diff base side)"
    "chain (length (lines_of base)) 0 False (edits lines_of diff base side)"
    "patch (lines_of base) (edits lines_of diff base side) = lines_of side"
    by (simp_all add: edits_def patch_def patch_from_chain)
qed

lemma merge_lines_patch:
  assumes "script_ok (lines_of base) (lines_of ours) (diff (lines_of base) (lines_of ours))"
    and "script_ok (lines_of base) (lines_of theirs) (diff (lines_of base) (lines_of theirs))"
  shows "merge_lines lines_of diff base ours theirs = Some
    (if ours = base then Merged theirs else if theirs = base \<or> ours = theirs then Merged ours
     else if \<not> (utf8_valid base \<and> utf8_valid ours \<and> utf8_valid theirs) then Merge_Conflict
     else if \<exists>h \<in> set (edits lines_of diff base ours). \<exists>k \<in> set (edits lines_of diff base theirs). collide h k then Merge_Conflict
     else Merged (concat (patch (lines_of base) (edits lines_of diff base ours @ edits lines_of diff base theirs))))"
proof -
  note o = edits_ok [of lines_of base ours diff, OF assms(1)] and t = edits_ok [of lines_of base theirs diff, OF assms(2)]
  show ?thesis using merge_hunks_patch [OF o(2) t(2)] by (simp add: merge_lines_def Let_def o(1) t(1))
qed

lemma merge_lines_returns:
  "script_ok (lines_of base) (lines_of ours) (diff (lines_of base) (lines_of ours)) \<Longrightarrow>
   script_ok (lines_of base) (lines_of theirs) (diff (lines_of base) (lines_of theirs)) \<Longrightarrow>
     merge_lines lines_of diff base ours theirs \<noteq> None"
  by (subst merge_lines_patch) simp_all

lemma merge_lines_sym:
  assumes "script_ok (lines_of base) (lines_of ours) (diff (lines_of base) (lines_of ours))"
    and "script_ok (lines_of base) (lines_of theirs) (diff (lines_of base) (lines_of theirs))"
  shows "merge_lines lines_of diff base ours theirs = merge_lines lines_of diff base theirs ours"
proof -
  obtain os where os: "hunks_of (diff (lines_of base) (lines_of ours)) (lines_of ours) = Some os"
    "chain (length (lines_of base)) 0 False os" using script_ok_hunks [OF assms(1)] by blast
  obtain ts where ts: "hunks_of (diff (lines_of base) (lines_of theirs)) (lines_of theirs) = Some ts"
    "chain (length (lines_of base)) 0 False ts" using script_ok_hunks [OF assms(2)] by blast
  show ?thesis
    using merge_hunks_sym [OF os(2) ts(2)] by (auto simp: merge_lines_def Let_def os(1) ts(1))
qed

section \<open>Properties\<close>

text \<open>A line tokenizer and a diff that meet the hypotheses: lines keep their newline, and the
  script compares the lines by position.\<close>

fun keep_lines :: "bytes \<Rightarrow> bytes list" where
  "keep_lines [] = []"
| "keep_lines (b # t) =
     (if b = 10 then [b] # keep_lines t
      else case keep_lines t of [] \<Rightarrow> [[b]] | l # ls \<Rightarrow> (b # l) # ls)"

lemma concat_keep_lines: "concat (keep_lines t) = t"
  by (induction t) (auto split: list.splits)

text \<open>Equal lines are kept, others are replaced, the rest is deleted or inserted.\<close>

fun position_diff :: "nat \<Rightarrow> bytes list \<Rightarrow> bytes list \<Rightarrow> diff_op list" where
  "position_diff i [] [] = []"
| "position_diff i [] new = [Op_Insert i i (length new)]"
| "position_diff i old [] = [Op_Delete i (length old) i]"
| "position_diff i (x # old) (y # new) =
     (if x = y then Op_Equal i i 1 # position_diff (Suc i) old new
      else Op_Replace i 1 i 1 # position_diff (Suc i) old new)"

lemma position_diff_ok:
  "length p = i \<Longrightarrow> length q = i \<Longrightarrow> script_from (p @ old) (q @ new) i i False (position_diff i old new)"
proof (induction i old new arbitrary: p q rule: position_diff.induct)
  case (4 i x old y new)
  have "script_from ((p @ [x]) @ old) ((q @ [y]) @ new) (Suc i) (Suc i) False (position_diff (Suc i) old new)"
    using 4 by (cases "x = y") (simp_all del: append_assoc)
  then show ?case using "4.prems" by (cases "x = y") simp_all
qed simp_all

lemma position_diff_script: "script_ok old new (position_diff 0 old new)"
  using position_diff_ok [of "[]" 0 "[]" old new] by (simp add: script_ok_def)

text \<open>C9: the line merge never panics and makes exactly the edits of both sides. If one side equals the base the other
  side is the result, and two equal sides are the result; inputs that are not UTF-8 conflict. Otherwise it reports a
  conflict exactly if an edit of ours and an edit of theirs collide: they replace a common line of the base, one inserts
  between two lines the other replaces, or both insert different text at the same gap. If none collide, the merged text
  is the base with all the edits of both sides made at their positions, an insertion common to both made once. The edits
  are those the diff library reports, and on its own either side's edits turn the base into that side. The hypotheses
  are that the library's operations are an edit script from the base to each side (\<open>script_ok\<close>).\<close>

theorem merge_lines_three_way:
  assumes "script_ok (lines_of base) (lines_of ours) (diff (lines_of base) (lines_of ours))"
    and "script_ok (lines_of base) (lines_of theirs) (diff (lines_of base) (lines_of theirs))"
  shows "merge_lines lines_of diff base ours theirs = Some
      (if ours = base then Merged theirs else if theirs = base \<or> ours = theirs then Merged ours
       else if \<not> (utf8_valid base \<and> utf8_valid ours \<and> utf8_valid theirs) then Merge_Conflict
       else if \<exists>h \<in> set (edits lines_of diff base ours). \<exists>k \<in> set (edits lines_of diff base theirs). collide h k then Merge_Conflict
       else Merged (concat (patch (lines_of base) (edits lines_of diff base ours @ edits lines_of diff base theirs)))) \<and>
    patch (lines_of base) (edits lines_of diff base ours) = lines_of ours \<and>
    patch (lines_of base) (edits lines_of diff base theirs) = lines_of theirs"
  using merge_lines_patch [of lines_of base ours diff theirs, OF assms] edits_ok(3) [of lines_of base ours diff, OF assms(1)]
    edits_ok(3) [of lines_of base theirs diff, OF assms(2)]
  by blast

definition sample_base :: bytes where "sample_base = [97, 10, 98, 10, 99, 10]"
definition sample_ours :: bytes where "sample_ours = [120, 10, 98, 10, 99, 10]"
definition sample_theirs :: bytes where "sample_theirs = [97, 10, 98, 10, 99, 10, 100, 10]"

lemma sample_merge:
  "merge_lines keep_lines (position_diff 0) sample_base sample_ours sample_theirs =
     Some (Merged [120, 10, 98, 10, 99, 10, 100, 10])"
  by (simp add: sample_base_def sample_ours_def sample_theirs_def merge_lines_def Let_def slice_def
      utf8_valid_all_ascii merge_hunks_def hunks_clash_def overlaps_def is_insertion_def hunk_key_def
      same_insertion_def)

theorem merge_lines_three_way_witness:
  "\<not> (\<exists>h \<in> set (edits keep_lines (position_diff 0) sample_base sample_ours).
        \<exists>k \<in> set (edits keep_lines (position_diff 0) sample_base sample_theirs). collide h k) \<and>
   concat (patch (keep_lines sample_base) (edits keep_lines (position_diff 0) sample_base sample_ours @
     edits keep_lines (position_diff 0) sample_base sample_theirs)) = [120, 10, 98, 10, 99, 10, 100, 10]"
  using merge_lines_three_way [of keep_lines sample_base sample_ours "position_diff 0" sample_theirs,
      OF position_diff_script position_diff_script] sample_merge
  by (simp add: sample_base_def sample_ours_def sample_theirs_def utf8_valid_all_ascii split: if_splits)

text \<open>The line merge does not depend on which side is ours: swapping the sides gives the same
  outcome, the same conflict or the same bytes, if the diff library's operations are an edit script from the base to each
  side.\<close>

theorem merge_lines_symmetric:
  assumes "script_ok (lines_of base) (lines_of ours) (diff (lines_of base) (lines_of ours))"
    and "script_ok (lines_of base) (lines_of theirs) (diff (lines_of base) (lines_of theirs))"
  shows "merge_lines lines_of diff base ours theirs = merge_lines lines_of diff base theirs ours"
  using assms by (rule merge_lines_sym)

theorem merge_lines_symmetric_witness:
  "merge_lines keep_lines (position_diff 0) sample_base sample_theirs sample_ours =
     Some (Merged [120, 10, 98, 10, 99, 10, 100, 10])"
  using merge_lines_symmetric [of keep_lines sample_base sample_ours "position_diff 0" sample_theirs,
      OF position_diff_script position_diff_script] sample_merge by simp

end
