(* ===== verification/Tree_Merge.thy ===== *)
theory Tree_Merge
  imports Tree_Store Line_Merge Markers
begin

text \<open>
  The path-level three-way merge of trees (\<open>crates/naatre-server/src/merge.rs\<close>, lines 191 to
  734): \<open>flatten_files\<close>, the decision table, the two conflict modes, and \<open>delta_between\<close>.

  The parameters that stand for code outside the repository are gathered in the record
  \<open>merge_env\<close>: the hash, NFC normalisation, and the tokenizer and diff of the \<open>similar\<close> crate;
  with them the caller's blob reader \<open>env_fetch\<close>. A panic of the line merge, which theory
  \<open>Line_Merge\<close> excludes, is the error \<open>Merge_Panic\<close>.
\<close>

section \<open>Data\<close>

record file_meta =
  fm_blob :: oid
  fm_size :: u64
  fm_exec :: bool

record path_conflict =
  pc_path :: bytes
  pc_reason :: bytes
  pc_base_blob :: "oid option"
  pc_base_exec :: bool
  pc_ours_blob :: "oid option"
  pc_ours_exec :: bool
  pc_theirs_blob :: "oid option"
  pc_theirs_exec :: bool

datatype on_conflict = Refuse | Record

datatype merge_error =
    Conflicts "path_conflict list"
  | Fetch oid bytes
  | Merge_Panic

record merged_tree =
  mt_node :: mem_node
  mt_new_blobs :: "(oid \<times> bytes) list"
  mt_input_ids :: "oid list"

record recorded_merge =
  rm_tree :: merged_tree
  rm_conflicts :: "path_conflict list"
  rm_oversized :: "(bytes \<times> nat) list"

record merge_env =
  env_blake3 :: "bytes \<Rightarrow> oid"
  env_nfc :: "bytes \<Rightarrow> bytes"
  env_lines :: "bytes \<Rightarrow> bytes list"
  env_diff :: "bytes list \<Rightarrow> bytes list \<Rightarrow> diff_op list"
  env_fetch :: "oid \<Rightarrow> bytes + bytes"

definition BLOB_LIMIT :: nat where "BLOB_LIMIT = 64 * 1024 * 1024"

section \<open>Flattening\<close>

definition meta_key :: "file_meta \<Rightarrow> oid \<times> bool" where
  "meta_key m = (fm_blob m, fm_exec m)"

definition child_path :: "bytes \<Rightarrow> bytes \<Rightarrow> bytes" where
  "child_path prefix name = (if prefix = [] then name else prefix @ slash # name)"

function flatten_into ::
    "(bytes \<times> mem_entry) list \<Rightarrow> bytes \<Rightarrow> (bytes, file_meta) omap \<Rightarrow> (bytes, file_meta) omap" where
  "flatten_into [] prefix out = out"
| "flatten_into ((name, MFile b s e) # rest) prefix out =
     flatten_into rest prefix
       (om_insert (child_path prefix name) \<lparr>fm_blob = b, fm_size = s, fm_exec = e\<rparr> out)"
| "flatten_into ((name, MDir child) # rest) prefix out =
     flatten_into rest prefix (flatten_into child (child_path prefix name) out)"
  by pat_completeness auto
termination
  by (relation "measure (\<lambda>(es, p, out). node_weight es)") auto

definition flatten_files :: "mem_node \<Rightarrow> (bytes, file_meta) omap" where
  "flatten_files node = flatten_into node [] []"

text \<open>The paths of several maps, in ascending order: the keys of a map from paths to units.\<close>

definition union_paths :: "(bytes, file_meta) omap list \<Rightarrow> bytes list" where
  "union_paths ms = map fst (om_collect (map (\<lambda>(p, _). (p, ())) (concat ms)))"

section \<open>Conflicts\<close>

definition content_rep :: "(bytes \<Rightarrow> bytes) \<Rightarrow> path_conflict \<Rightarrow> conflict_rep option" where
  "content_rep nfc c =
     (let sides = sort_key (\<lambda>s. s)
            (map (\<lambda>i. (i, pc_ours_exec c)) (case pc_ours_blob c of None \<Rightarrow> [] | Some i \<Rightarrow> [i]) @
             map (\<lambda>i. (i, pc_theirs_exec c)) (case pc_theirs_blob c of None \<Rightarrow> [] | Some i \<Rightarrow> [i]));
          rep = \<lparr>rep_path = pc_path c, rep_base = pc_base_blob c,
                 rep_base_exec = (pc_base_blob c \<noteq> None \<and> pc_base_exec c),
                 rep_sides = map fst sides, rep_sides_exec = map snd sides,
                 rep_deleted = (length sides < 2)\<rparr>
      in if conflict_validate nfc [rep] = Inr () then Some rep else None)"

fun resolve_exec :: "bool option \<Rightarrow> bool option \<Rightarrow> bool option \<Rightarrow> bool" where
  "resolve_exec b (Some oe) (Some te) = (if oe = te then oe else if b = Some oe then te else oe)"
| "resolve_exec b (Some e) None = e"
| "resolve_exec b None (Some e) = e"
| "resolve_exec b None None = False"

text \<open>The variables of the merge loop.\<close>

record merge_state =
  ms_files :: "(bytes, file_meta) omap"
  ms_new_blobs :: "(oid \<times> bytes) list"
  ms_input_ids :: "oid list"
  ms_oversized :: "(bytes \<times> nat) list"
  ms_refused :: "path_conflict list"
  ms_recorded :: "path_conflict list"

definition put_blob :: "oid \<Rightarrow> bytes \<Rightarrow> merge_state \<Rightarrow> merge_state" where
  "put_blob blob content st =
     (if blob \<in> set (map fst (ms_new_blobs st)) then st
      else st\<lparr>ms_new_blobs := ms_new_blobs st @ [(blob, content)]\<rparr>)"

definition put_meta :: "bytes \<Rightarrow> file_meta \<Rightarrow> merge_state \<Rightarrow> merge_state" where
  "put_meta path m st = st\<lparr>ms_files := om_insert path m (ms_files st)\<rparr>"

text \<open>The blob reader with the id it was asked for in its error.\<close>

definition fetch_named :: "merge_env \<Rightarrow> oid \<Rightarrow> (oid \<times> bytes) + bytes" where
  "fetch_named env i = map_err (\<lambda>e. (i, e)) (env_fetch env i)"

definition take_conflict ::
    "merge_env \<Rightarrow> on_conflict \<Rightarrow> path_conflict \<Rightarrow> merge_state \<Rightarrow> (oid \<times> bytes) + merge_state" where
  "take_conflict env on c st =
     (case on of
        Refuse \<Rightarrow> Inr (st\<lparr>ms_refused := ms_refused st @ [c]\<rparr>)
      | Record \<Rightarrow>
          (case content_rep (env_nfc env) c of
             None \<Rightarrow> Inr (st\<lparr>ms_refused := ms_refused st @ [c]\<rparr>)
           | Some rep \<Rightarrow>
               let st = st\<lparr>ms_input_ids := ms_input_ids st @
                             (case rep_base rep of None \<Rightarrow> [] | Some b \<Rightarrow> [b]) @ rep_sides rep\<rparr> in
               rbind (marker_bytes rep (fetch_named env)) (\<lambda>content.
                 if length content > BLOB_LIMIT then
                   Inr (st\<lparr>ms_oversized := ms_oversized st @ [(pc_path c, length content)]\<rparr>)
                 else
                   let blob = object_id (env_blake3 env) Kind_Blob content;
                       m = \<lparr>fm_blob = blob, fm_size = word_of_nat (length content),
                            fm_exec = resolve_exec
                              (map_option (\<lambda>_. pc_base_exec c) (pc_base_blob c))
                              (map_option (\<lambda>_. pc_ours_exec c) (pc_ours_blob c))
                              (map_option (\<lambda>_. pc_theirs_exec c) (pc_theirs_blob c))\<rparr>;
                       st = put_meta (pc_path c) m (put_blob blob content st)
                   in Inr (st\<lparr>ms_recorded := ms_recorded st @ [c]\<rparr>))))"

section \<open>The decision table\<close>

definition conflict_at ::
    "bytes \<Rightarrow> file_meta option \<Rightarrow> file_meta option \<Rightarrow> file_meta option \<Rightarrow> string \<Rightarrow> path_conflict" where
  "conflict_at path b u t reason =
     \<lparr>pc_path = path, pc_reason = ascii reason,
      pc_base_blob = map_option fm_blob b,
      pc_base_exec = (case b of None \<Rightarrow> False | Some m \<Rightarrow> fm_exec m),
      pc_ours_blob = map_option fm_blob u,
      pc_ours_exec = (case u of None \<Rightarrow> False | Some m \<Rightarrow> fm_exec m),
      pc_theirs_blob = map_option fm_blob t,
      pc_theirs_exec = (case t of None \<Rightarrow> False | Some m \<Rightarrow> fm_exec m)\<rparr>"

definition put_opt :: "bytes \<Rightarrow> file_meta option \<Rightarrow> merge_state \<Rightarrow> merge_state" where
  "put_opt path m st = (case m of None \<Rightarrow> st | Some m \<Rightarrow> put_meta path m st)"

definition fetch_failure :: "(oid \<times> bytes) + 'a \<Rightarrow> merge_error + 'a" where
  "fetch_failure r = map_err (\<lambda>(i, e). Fetch i e) r"

text \<open>modify/modify: line-merge the contents; the input ids are noted either way.\<close>

definition merge_content ::
    "merge_env \<Rightarrow> on_conflict \<Rightarrow> bytes \<Rightarrow> file_meta \<Rightarrow> file_meta \<Rightarrow> file_meta \<Rightarrow> merge_state \<Rightarrow>
     merge_error + merge_state" where
  "merge_content env on path bm om tm st =
     rbind (fetch_failure (fetch_named env (fm_blob bm))) (\<lambda>base_bytes.
     rbind (fetch_failure (fetch_named env (fm_blob om))) (\<lambda>ours_bytes.
     rbind (fetch_failure (fetch_named env (fm_blob tm))) (\<lambda>theirs_bytes.
       let st = st\<lparr>ms_input_ids := ms_input_ids st @ [fm_blob bm, fm_blob om, fm_blob tm]\<rparr> in
       case merge_lines (env_lines env) (env_diff env) base_bytes ours_bytes theirs_bytes of
         None \<Rightarrow> Inl Merge_Panic
       | Some Merge_Conflict \<Rightarrow>
           fetch_failure (take_conflict env on
             (conflict_at path (Some bm) (Some om) (Some tm) ''both modified, line merge conflict'') st)
       | Some (Merged content) \<Rightarrow>
           let blob = object_id (env_blake3 env) Kind_Blob content;
               m = \<lparr>fm_blob = blob, fm_size = word_of_nat (length content),
                    fm_exec = resolve_exec (Some (fm_exec bm)) (Some (fm_exec om)) (Some (fm_exec tm))\<rparr>
           in Inr (put_meta path m (put_blob blob content st)))))"

definition merge_path ::
    "merge_env \<Rightarrow> on_conflict \<Rightarrow> bytes \<Rightarrow> file_meta option \<Rightarrow> file_meta option \<Rightarrow> file_meta option \<Rightarrow>
     merge_state \<Rightarrow> merge_error + merge_state" where
  "merge_path env on path b u t st =
     (if u = t then Inr (put_opt path u st)
      else if u = b then Inr (put_opt path t st)
      else if t = b then Inr (put_opt path u st)
      else case (b, u, t) of
        (Some bm, Some om, Some tm) \<Rightarrow> merge_content env on path bm om tm st
      | (None, Some _, Some _) \<Rightarrow>
          fetch_failure (take_conflict env on (conflict_at path b u t ''both added, different content'') st)
      | (Some _, None, Some _) \<Rightarrow>
          fetch_failure (take_conflict env on
            (conflict_at path b u t ''deleted by one side, modified by the other'') st)
      | (Some _, Some _, None) \<Rightarrow>
          fetch_failure (take_conflict env on
            (conflict_at path b u t ''deleted by one side, modified by the other'') st)
      | _ \<Rightarrow> Inl Merge_Panic)"

fun merge_paths ::
    "merge_env \<Rightarrow> on_conflict \<Rightarrow> (bytes, file_meta) omap \<Rightarrow> (bytes, file_meta) omap \<Rightarrow>
     (bytes, file_meta) omap \<Rightarrow> bytes list \<Rightarrow> merge_state \<Rightarrow> merge_error + merge_state" where
  "merge_paths env on bs us ts [] st = Inr st"
| "merge_paths env on bs us ts (path # paths) st =
     rbind (merge_path env on path (om_get bs path) (om_get us path) (om_get ts path) st)
       (\<lambda>st. merge_paths env on bs us ts paths st)"

section \<open>The merge\<close>

definition add_change :: "bytes \<times> file_meta \<Rightarrow> file_change" where
  "add_change = (\<lambda>(path, m). \<lparr>fc_path = path, fc_op = Add, fc_blob = Some (fm_blob m),
     fc_size = Some (fm_size m), fc_exec = Some (fm_exec m)\<rparr>)"

fun apply_error_path :: "apply_error \<Rightarrow> bytes" where
  "apply_error_path (FileInPath p) = p"
| "apply_error_path (ModNotFile p) = p"
| "apply_error_path (DelNotFile p) = p"
| "apply_error_path (TooDeep p) = p"

definition duality_conflict :: "bytes \<Rightarrow> path_conflict" where
  "duality_conflict path =
     conflict_at path None None None ''merged result is not a consistent tree (file/directory duality)''"

definition empty_state :: merge_state where
  "empty_state = \<lparr>ms_files = [], ms_new_blobs = [], ms_input_ids = [], ms_oversized = [],
                  ms_refused = [], ms_recorded = []\<rparr>"

definition merge_trees_mode ::
    "merge_env \<Rightarrow> on_conflict \<Rightarrow> mem_node \<Rightarrow> mem_node \<Rightarrow> mem_node \<Rightarrow>
     merge_error + merged_tree \<times> path_conflict list \<times> (bytes \<times> nat) list" where
  "merge_trees_mode env on base ours theirs =
     (let bs = flatten_files base; us = flatten_files ours; ts = flatten_files theirs in
      rbind (merge_paths env on bs us ts (union_paths [bs, us, ts]) empty_state) (\<lambda>st.
        if ms_refused st \<noteq> [] then Inl (Conflicts (ms_refused st))
        else case apply_changes mem_empty (map add_change (ms_files st)) of
          Inl e \<Rightarrow> Inl (Conflicts [duality_conflict (apply_error_path e)])
        | Inr node \<Rightarrow>
            Inr (\<lparr>mt_node = node, mt_new_blobs = ms_new_blobs st, mt_input_ids = ms_input_ids st\<rparr>,
                 ms_recorded st, ms_oversized st)))"

definition merge_trees ::
    "merge_env \<Rightarrow> mem_node \<Rightarrow> mem_node \<Rightarrow> mem_node \<Rightarrow> merge_error + merged_tree" where
  "merge_trees env base ours theirs =
     rbind (merge_trees_mode env Refuse base ours theirs) (\<lambda>(tree, _, _). Inr tree)"

definition merge_trees_recording ::
    "merge_env \<Rightarrow> mem_node \<Rightarrow> mem_node \<Rightarrow> mem_node \<Rightarrow> merge_error + recorded_merge" where
  "merge_trees_recording env base ours theirs =
     rbind (merge_trees_mode env Record base ours theirs) (\<lambda>(tree, conflicts, oversized).
       Inr \<lparr>rm_tree = tree, rm_conflicts = conflicts, rm_oversized = oversized\<rparr>)"

section \<open>The delta between two trees\<close>

definition delta_at :: "bytes \<Rightarrow> file_meta option \<Rightarrow> file_meta option \<Rightarrow> file_change list" where
  "delta_at path a c =
     (case (a, c) of
        (Some ae, Some ce) \<Rightarrow>
          if meta_key ae \<noteq> meta_key ce then
            [\<lparr>fc_path = path, fc_op = Mod, fc_blob = Some (fm_blob ce), fc_size = Some (fm_size ce),
              fc_exec = Some (fm_exec ce)\<rparr>]
          else []
      | (Some _, None) \<Rightarrow>
          [\<lparr>fc_path = path, fc_op = Del, fc_blob = None, fc_size = None, fc_exec = None\<rparr>]
      | (None, Some ce) \<Rightarrow>
          [\<lparr>fc_path = path, fc_op = Add, fc_blob = Some (fm_blob ce), fc_size = Some (fm_size ce),
            fc_exec = Some (fm_exec ce)\<rparr>]
      | (None, None) \<Rightarrow> [])"

definition delta_between :: "mem_node \<Rightarrow> mem_node \<Rightarrow> file_change list" where
  "delta_between parent child =
     (let a = flatten_files parent; c = flatten_files child in
      concat (map (\<lambda>path. delta_at path (om_get a path) (om_get c path)) (union_paths [a, c])))"

end
