(* ===== verification/Tree_Files.thy ===== *)
theory Tree_Files
  imports Tree_Merge
begin

text \<open>
  The file-map view of a tree that the merge works on: \<open>flatten_files\<close> gives the files of a tree by
  their paths, and a sorted list of \<^emph>\<open>add\<close> changes builds the tree back, unless one path lies below
  another. Paths are joined with slashes here, where \<open>Mem_Tree\<close> has them split.
\<close>

section \<open>Flattening and the file map\<close>

text \<open>Entry names as the grammar has them: not empty, no slash.\<close>

definition name_ok :: "bytes \<Rightarrow> bool" where
  "name_ok n \<longleftrightarrow> n \<noteq> [] \<and> slash \<notin> set n"

primrec names_mem :: "mem_entry \<Rightarrow> bool" where
  "names_mem (MFile b s e) = True"
| "names_mem (MDir es) = list_all (\<lambda>(n, t). name_ok n \<and> t) (map (map_prod id names_mem) es)"

definition names_node :: "(bytes \<times> mem_entry) list \<Rightarrow> bool" where
  "names_node es = list_all (\<lambda>(n, e). name_ok n \<and> names_mem e) es"

lemma names_mem_MDir [simp]: "names_mem (MDir es) = names_node es"
  by (induction es) (auto simp: names_node_def)

declare names_mem.simps(2) [simp del]

lemma names_node_simps [simp]:
  "names_node []" "names_node ((n, e) # es) \<longleftrightarrow> name_ok n \<and> names_mem e \<and> names_node es"
  by (simp_all add: names_node_def)

text \<open>The file of a node at a path, as the merge sees it.\<close>

definition meta_of :: "file_data \<Rightarrow> file_meta" where
  "meta_of = (\<lambda>(b, s, e). \<lparr>fm_blob = b, fm_size = s, fm_exec = e\<rparr>)"

definition node_file :: "mem_node \<Rightarrow> bytes \<Rightarrow> file_meta option" where
  "node_file node path = map_option meta_of (files_of node (split_on slash path))"

text \<open>The rest of a path below a prefix.\<close>

definition rel :: "bytes \<Rightarrow> bytes \<Rightarrow> bytes option" where
  "rel prefix q = (if prefix = [] then Some q else strip_prefix (prefix @ [slash]) q)"

lemma strip_prefix_split: "strip_prefix (p @ q) xs = Option.bind (strip_prefix p xs) (strip_prefix q)"
  by (induction p xs rule: strip_prefix.induct) auto

lemma rel_child:
  assumes "name_ok name"
  shows "rel (child_path prefix name) q = Option.bind (rel prefix q) (strip_prefix (name @ [slash]))"
  using assms strip_prefix_split [of "prefix @ [slash]" "name @ [slash]" q]
  by (simp add: rel_def child_path_def name_ok_def)

lemma rel_here: "child_path prefix name = q \<longleftrightarrow> rel prefix q = Some name"
  by (auto simp: rel_def child_path_def strip_prefix_eq_Some)

lemma split_on_child:
  assumes "name_ok name"
  shows "files_of ((name, MDir c) # rest) (split_on slash r) =
    (case strip_prefix (name @ [slash]) r of
       Some r' \<Rightarrow> files_of c (split_on slash r')
     | None \<Rightarrow> if r = name then None else files_of rest (split_on slash r))"
proof (cases "strip_prefix (name @ [slash]) r")
  case (Some r')
  then have "r = name @ slash # r'" by (simp add: strip_prefix_eq_Some)
  then have "split_on slash r = name # split_on slash r'" using assms by (simp add: split_on_append name_ok_def)
  with Some show ?thesis by simp
next
  case None
  obtain x xs where s: "split_on slash r = x # xs" by (cases "split_on slash r") auto
  show ?thesis
  proof (cases "x = name")
    case True
    have "xs = []"
    proof (rule ccontr)
      assume "xs \<noteq> []"
      then have "r = name @ [slash] @ join_with slash xs"
        using join_split [of slash r] s True by (simp add: join_with_Cons)
      then have "strip_prefix (name @ [slash]) r = Some (join_with slash xs)" by (simp add: strip_prefix_eq_Some)
      with None show False by simp
    qed
    then have "r = name" using join_split [of slash r] s True by simp
    then show ?thesis using None s True \<open>xs = []\<close> by simp
  next
    case False
    have "r \<noteq> name"
    proof
      assume "r = name"
      then show False using assms s False by (simp add: name_ok_def split_on_no_sep)
    qed
    then show ?thesis using None s False by simp
  qed
qed

lemma split_on_file:
  assumes "name_ok name"
  shows "files_of ((name, MFile b s e) # rest) (split_on slash r) =
    (if r = name then Some (b, s, e)
     else if strip_prefix (name @ [slash]) r \<noteq> None then None else files_of rest (split_on slash r))"
proof -
  have "files_of ((name, MFile b s e) # rest) q =
    (if q = [name] then Some (b, s, e) else files_of ((name, MDir []) # rest) q)" for q
    by (cases q) (auto simp: files_of_Nil)
  moreover have "split_on slash r = [name] \<longleftrightarrow> r = name"
    using assms join_split [of slash r] by (auto simp: name_ok_def split_on_no_sep)
  ultimately show ?thesis
    using split_on_child [OF assms, of "[]" rest r] by (auto simp: files_of_Nil split: option.splits)
qed

definition rel_file :: "(bytes \<times> mem_entry) list \<Rightarrow> bytes \<Rightarrow> bytes \<Rightarrow> file_meta option" where
  "rel_file es prefix q = Option.bind (rel prefix q) (\<lambda>r. map_option meta_of (files_of es (split_on slash r)))"

lemma no_name_no_file:
  "name_ok name \<Longrightarrow> om_get es name = None \<Longrightarrow> r = name \<or> strip_prefix (name @ [slash]) r \<noteq> None \<Longrightarrow>
     files_of es (split_on slash r) = None"
  by (auto simp: strip_prefix_eq_Some name_ok_def split_on_append split_on_no_sep)

lemma flatten_into_get:
  assumes "wf_node es" and "names_node es" and "om_inv out"
  shows "om_inv (flatten_into es prefix out) \<and>
    om_get (flatten_into es prefix out) = om_get out ++ rel_file es prefix"
  using assms
proof (induction es prefix out rule: flatten_into.induct)
  case (1 prefix out)
  have "rel_file [] prefix = Map.empty" by (auto simp: rel_file_def files_of_Nil bind_eq_None_conv)
  with 1 show ?case by simp
next
  case (2 name b s e rest prefix out)
  let ?m = "\<lparr>fm_blob = b, fm_size = s, fm_exec = e\<rparr>"
  have wf: "wf_node rest" "om_get rest name = None"
    using 2(2) by (auto simp: wf_node_def om_inv_Cons om_get_None)
  have nm: "name_ok name" "names_node rest" using 2(3) by auto
  have "rel_file ((name, MFile b s e) # rest) prefix q = ([child_path prefix name \<mapsto> ?m] ++ rel_file rest prefix) q" for q
  proof (cases "rel prefix q")
    case None
    then have "q \<noteq> child_path prefix name" using rel_here [of prefix name q] by auto
    with None show ?thesis by (simp add: rel_file_def map_add_def)
  next
    case (Some r)
    have here: "q = child_path prefix name \<longleftrightarrow> r = name" using rel_here [of prefix name q] Some by auto
    show ?thesis
      using no_name_no_file [OF nm(1) wf(2), of r]
      by (auto simp: rel_file_def Some split_on_file [OF nm(1)] here map_add_def meta_of_def split: option.splits)
  qed
  then have "rel_file ((name, MFile b s e) # rest) prefix = [child_path prefix name \<mapsto> ?m] ++ rel_file rest prefix" by blast
  moreover have "om_inv (om_insert (child_path prefix name) ?m out)" using 2(4) by (simp add: om_simps)
  note IH = 2(1) [OF wf(1) nm(2) this]
  moreover have "om_get (om_insert (child_path prefix name) ?m out) = om_get out ++ [child_path prefix name \<mapsto> ?m]"
    by (simp add: om_simps)
  ultimately show ?case using IH by (simp only: flatten_into.simps map_add_assoc)
next
  case (3 name child rest prefix out)
  have wf: "wf_node rest" "om_get rest name = None" "wf_node child"
    using 3(3) by (auto simp: wf_node_def om_inv_Cons om_get_None wf_mem_MDir)
  have nm: "name_ok name" "names_node rest" "names_node child" using 3(4) by auto
  have "rel_file ((name, MDir child) # rest) prefix q =
      (rel_file child (child_path prefix name) ++ rel_file rest prefix) q" for q
  proof (cases "rel prefix q")
    case (Some r)
    show ?thesis
      using no_name_no_file [OF nm(1) wf(2), of r]
      by (auto simp: rel_file_def Some rel_child [OF nm(1)] split_on_child [OF nm(1)] map_add_def split: option.splits)
  qed (simp add: rel_file_def rel_child [OF nm(1)] map_add_def)
  then have "rel_file ((name, MDir child) # rest) prefix =
      rel_file child (child_path prefix name) ++ rel_file rest prefix" by blast
  moreover note c = 3(1) [OF wf(3) nm(3) 3(5)]
  note IH = 3(2) [OF wf(1) nm(2) conjunct1 [OF c]]
  ultimately show ?case using c IH by (simp add: map_add_assoc)
qed

lemma flatten_files_get:
  assumes "wf_node node" and "names_node node"
  shows "om_inv (flatten_files node)" and "om_get (flatten_files node) = node_file node"
proof -
  have "rel_file node [] = node_file node" by (rule ext) (simp add: rel_file_def rel_def node_file_def)
  then show "om_inv (flatten_files node)" and "om_get (flatten_files node) = node_file node"
    using flatten_into_get [OF assms, of "[]" "[]"] by (auto simp: flatten_files_def map_add_def fun_eq_iff split: option.splits)
qed

section \<open>Building a tree from a file list\<close>

lemma union_paths_set: "set (union_paths ms) = (\<Union>m \<in> set ms. set (map fst m))"
proof -
  have "dom (map_of (rev (map (\<lambda>(p, _). (p, ())) (concat ms)))) = (\<Union>m \<in> set ms. set (map fst m))"
    by (auto simp: dom_map_of_conv_image_fst image_iff split_beta) force+
  moreover have "set (map fst m) = dom (om_get m)" for m :: "(bytes, unit) omap"
    by (simp add: om_get_map_of dom_map_of_conv_image_fst)
  ultimately show ?thesis unfolding union_paths_def by (simp only: om_get_collect)
qed

lemma union_paths_sorted: "sorted_wrt (<) (union_paths ms)"
  using om_inv_collect unfolding union_paths_def om_inv_def .

definition tuple_of :: "file_meta \<Rightarrow> file_data" where
  "tuple_of m = (fm_blob m, fm_size m, fm_exec m)"

lemma meta_tuple [simp]: "meta_of (tuple_of m) = m" "tuple_of (meta_of f) = f"
  by (simp_all add: meta_of_def tuple_of_def split: prod.splits)

text \<open>A file map that holds the files of a map from paths.\<close>

definition represents :: "file_map \<Rightarrow> (bytes \<rightharpoonup> file_meta) \<Rightarrow> bool" where
  "represents m F \<longleftrightarrow>
     (\<forall>path. m (split_on slash path) = map_option tuple_of (F path)) \<and>
     (\<forall>q. m q \<noteq> None \<longrightarrow> q \<in> range (split_on slash))"

lemma split_on_inj: "split_on c p = split_on c q \<longleftrightarrow> p = q"
  using join_split by metis

lemma join_append: "xs \<noteq> [] \<Longrightarrow> ys \<noteq> [] \<Longrightarrow> join_with c (xs @ ys) = join_with c xs @ c # join_with c ys"
proof (induction xs)
  case (Cons x xs)
  then show ?case by (cases "xs = []") (simp_all add: join_with_Cons)
qed simp

lemma less_append: "xs < xs @ y # (ys :: 'a :: linorder list)"
  by (induction xs) simp_all

lemma split_below:
  assumes "take (length (split_on slash p)) (split_on slash q) = split_on slash p" and "q \<noteq> p"
  shows "\<exists>r. q = p @ slash # r"
proof -
  let ?r = "drop (length (split_on slash p)) (split_on slash q)"
  have s: "split_on slash q = split_on slash p @ ?r" using assms(1) by (metis append_take_drop_id)
  have "?r \<noteq> []" using s assms(2) split_on_inj by (metis append_Nil2)
  then have "q = p @ slash # join_with slash ?r"
    using s join_split [of slash q] join_split [of slash p] join_append [of "split_on slash p" ?r slash] by simp
  then show ?thesis ..
qed

lemma represents_put:
  assumes "represents m F" and "\<And>r. p @ slash # r \<notin> dom F"
  shows "represents (put_file (split_on slash p) (tuple_of f) m) (F(p \<mapsto> f))"
  unfolding represents_def
proof (intro conjI allI impI)
  fix path
  show "put_file (split_on slash p) (tuple_of f) m (split_on slash path) = map_option tuple_of ((F(p \<mapsto> f)) path)"
  proof (cases "path = p")
    case False
    moreover have "F path = None" if "take (length (split_on slash p)) (split_on slash path) = split_on slash p"
      using split_below [OF that False] assms(2) by blast
    ultimately show ?thesis using assms(1) by (auto simp: put_file_def split_on_inj represents_def)
  qed (simp add: put_file_def)
next
  fix q assume "put_file (split_on slash p) (tuple_of f) m q \<noteq> None"
  then show "q \<in> range (split_on slash)"
    using assms(1) by (auto simp: put_file_def represents_def split: if_splits)
qed

lemma below_larger: "\<forall>p' \<in> dom F. p' < p \<Longrightarrow> p @ slash # r \<notin> dom F"
  using less_append [of p slash r] by (meson order_less_asym)

lemma add_change_simps [simp]:
  "fc_path (add_change (p, m)) = p" "fc_op (add_change (p, m)) = Add"
  "fc_blob (add_change (p, m)) = Some (fm_blob m)" "fc_size (add_change (p, m)) = Some (fm_size m)"
  "fc_exec (add_change (p, m)) = Some (fm_exec m)"
  by (simp_all add: add_change_def)

lemma abs_change_add:
  "abs_change m (add_change (p, f)) =
     (if length (split_on slash p) > 256 then Inl (TooDeep p)
      else if file_above m (split_on slash p) then Inl (FileInPath p)
      else Inr (put_file (split_on slash p) (tuple_of f) m))"
  by (simp add: abs_change_def tuple_of_def Let_def)

lemma abs_apply_adds:
  assumes "abs_apply m (map add_change files) = Inr m'" and "represents m F"
    and "om_inv files" and "\<forall>p \<in> dom F. \<forall>k \<in> set (map fst files). p < k"
  shows "represents m' (F ++ map_of files)"
  using assms
proof (induction files arbitrary: m F)
  case (Cons pf files)
  obtain p f where pf: "pf = (p, f)" by force
  let ?m = "put_file (split_on slash p) (tuple_of f) m"
  have step: "abs_apply ?m (map add_change files) = Inr m'"
    using Cons.prems(1) by (auto simp: pf rbind_eq_Inr abs_change_add split: if_splits)
  have rep: "represents ?m (F(p \<mapsto> f))"
    using Cons.prems(2,4) below_larger [of F p] by (intro represents_put) (simp_all add: pf)
  have inv: "om_inv files" "\<forall>k \<in> set (map fst files). p < k"
    using Cons.prems(3) by (auto simp: pf om_inv_Cons)
  have "represents m' (F(p \<mapsto> f) ++ map_of files)"
    by (rule Cons.IH [OF step rep inv(1)]) (use Cons.prems(4) inv(2) in \<open>fastforce simp: pf split: if_splits\<close>)
  moreover have "F(p \<mapsto> f) ++ map_of files = F ++ map_of (pf # files)"
  proof -
    have "map_of files p = None" using inv(2) by (force simp: map_of_eq_None_iff)
    then show ?thesis by (auto simp: pf fun_eq_iff map_add_def split: option.splits)
  qed
  ultimately show ?case by (simp only:)
qed simp

lemma represents_empty: "represents (files_of mem_empty) Map.empty"
  by (simp add: represents_def mem_empty_def files_of_Nil)

lemma build_adds:
  assumes "apply_changes mem_empty (map add_change files) = Inr node" and "om_inv files"
  shows "wf_node node" and "node_file node = om_get files"
proof -
  show "wf_node node" using apply_changes_wf [OF _ assms(1)] by simp
  have "abs_apply (files_of mem_empty) (map add_change files) = Inr (files_of node)"
    using abs_result_changes [of mem_empty "map add_change files"] assms(1) by simp
  from abs_apply_adds [OF this represents_empty assms(2)]
  have "files_of node (split_on slash path) = map_option tuple_of (om_get files path)" for path
    by (simp add: represents_def om_get_map_of)
  then show "node_file node = om_get files"
    by (simp add: node_file_def fun_eq_iff option.map_comp o_def option.map_ident)
qed

text \<open>No file of a tree lies below another.\<close>

lemma files_prefix_free: "files_of node (q @ r) \<noteq> None \<Longrightarrow> r \<noteq> [] \<Longrightarrow> files_of node q = None"
proof (induction q arbitrary: node)
  case (Cons x q)
  then show ?case by (auto split: option.splits mem_entry.splits if_splits)
qed simp

lemma file_aboveD: "file_above m p \<Longrightarrow> \<exists>q r. p = q @ r \<and> r \<noteq> [] \<and> m q \<noteq> None"
proof (induction m p rule: file_above.induct)
  case (1 m x y p)
  then consider "m [x] \<noteq> None" | "file_above (\<lambda>q. m (x # q)) (y # p)" by auto
  then show ?case
  proof cases
    case 1
    then show ?thesis by (intro exI [of _ "[x]"] exI [of _ "y # p"]) simp
  next
    case 2
    with "1.IH" obtain q r where "y # p = q @ r" "r \<noteq> []" "m (x # q) \<noteq> None" by blast
    then show ?thesis by (intro exI [of _ "x # q"] exI [of _ r]) simp
  qed
qed simp_all

definition depth_ok :: "(bytes \<rightharpoonup> file_meta) \<Rightarrow> bool" where
  "depth_ok G \<longleftrightarrow> (\<forall>p \<in> dom G. length (split_on slash p) \<le> 256)"

text \<open>No path of the map lies below another: the file/directory duality holds.\<close>

definition dual_free :: "(bytes \<rightharpoonup> file_meta) \<Rightarrow> bool" where
  "dual_free G \<longleftrightarrow> (\<forall>p r. p @ slash # r \<in> dom G \<longrightarrow> p \<notin> dom G)"

lemma split_on_slash: "split_on c (p @ c # r) = split_on c p @ split_on c r"
proof (induction p)
  case (Cons x p)
  then show ?case by (cases "split_on c p") auto
qed simp

lemma dual_free_node: "dual_free (node_file node)"
  unfolding dual_free_def dom_def node_file_def
  using files_prefix_free [of node] by (auto simp: split_on_slash)

lemma represents_above:
  assumes "represents m F" and "file_above m (split_on slash p)"
  shows "\<exists>path r. p = path @ slash # r \<and> path \<in> dom F"
proof -
  obtain q r where qr: "split_on slash p = q @ r" "r \<noteq> []" "m q \<noteq> None" using file_aboveD [OF assms(2)] by blast
  then obtain path where path: "q = split_on slash path" using assms(1) unfolding represents_def by blast
  then have "m q = map_option tuple_of (F path)" using assms(1) by (simp add: represents_def)
  with qr(3) have "path \<in> dom F" by auto
  moreover have "p = path @ slash # join_with slash r"
    using join_split [of slash p] join_split [of slash path] join_append [of q r slash] qr(1,2) path by simp
  ultimately show ?thesis by blast
qed

lemma abs_apply_adds_total:
  assumes "represents m F" and "om_inv files" and "\<forall>p \<in> dom F. \<forall>k \<in> set (map fst files). p < k"
    and "depth_ok G" and "dual_free G" and "F ++ map_of files \<subseteq>\<^sub>m G"
  shows "\<exists>m'. abs_apply m (map add_change files) = Inr m'"
  using assms(1-3,6)
proof (induction files arbitrary: m F)
  case (Cons pf files)
  obtain p f where pf: "pf = (p, f)" by force
  let ?m = "put_file (split_on slash p) (tuple_of f) m"
  have inv: "om_inv files" "\<forall>k \<in> set (map fst files). p < k"
    using Cons.prems(2) by (auto simp: pf om_inv_Cons)
  have "(F ++ map_of (pf # files)) p = Some f"
    by (simp add: pf)
  then have Gp: "p \<in> dom G" using Cons.prems(4) by (metis domI map_le_def)
  have "\<not> file_above m (split_on slash p)"
  proof
    assume "file_above m (split_on slash p)"
    then obtain path r where path: "p = path @ slash # r" "path \<in> dom F"
      using represents_above [OF Cons.prems(1)] by blast
    then have "map_of (pf # files) path = None"
      using Cons.prems(3) by (force simp: map_of_eq_None_iff)
    then have "(F ++ map_of (pf # files)) path = F path" by (simp add: map_add_def)
    then have "path \<in> dom G" using Cons.prems(4) path(2) by (metis domIff map_le_def)
    then show False using assms(5) Gp path(1) unfolding dual_free_def by blast
  qed
  moreover have "length (split_on slash p) \<le> 256" using assms(4) Gp by (simp add: depth_ok_def)
  ultimately have step: "abs_change m (add_change (p, f)) = Inr ?m" by (simp add: abs_change_add)
  have rep: "represents ?m (F(p \<mapsto> f))"
    using Cons.prems(1,3) below_larger [of F p] by (intro represents_put) (simp_all add: pf)
  have "F(p \<mapsto> f) ++ map_of files = F ++ map_of (pf # files)"
  proof -
    have "map_of files p = None" using inv(2) by (force simp: map_of_eq_None_iff)
    then show ?thesis by (auto simp: pf fun_eq_iff map_add_def split: option.splits)
  qed
  moreover have "\<forall>p' \<in> dom (F(p \<mapsto> f)). \<forall>k \<in> set (map fst files). p' < k"
    using Cons.prems(3) inv(2) by (fastforce simp: pf split: if_splits)
  ultimately have "\<exists>m'. abs_apply ?m (map add_change files) = Inr m'"
    using Cons.IH [OF rep inv(1)] Cons.prems(4) by (simp only:)
  then show ?case by (simp add: pf step)
qed simp

lemma build_adds_total:
  assumes "om_inv files" and "depth_ok (om_get files)" and "dual_free (om_get files)"
  shows "\<exists>node. apply_changes mem_empty (map add_change files) = Inr node"
proof -
  have "\<exists>m'. abs_apply (files_of mem_empty) (map add_change files) = Inr m'"
    by (intro abs_apply_adds_total [OF represents_empty assms(1) _ assms(2,3)]) (simp_all add: om_get_map_of)
  then show ?thesis
    using abs_result_changes [of mem_empty "map add_change files"]
    by (cases "apply_changes mem_empty (map add_change files)") auto
qed

lemma represents_files_of:
  assumes "names_node node" and "wf_node node"
  shows "represents (files_of node) (node_file node)"
  unfolding represents_def node_file_def
proof (intro conjI allI impI)
  show "files_of node (split_on slash path) = map_option tuple_of (map_option meta_of (files_of node (split_on slash path)))" for path
    by (simp add: option.map_comp o_def option.map_ident)
  have "q \<noteq> [] \<and> (\<forall>n \<in> set q. slash \<notin> set n)" if "files_of es q \<noteq> None" "names_node es" for q es
    using that
  proof (induction q arbitrary: es)
    case (Cons n q)
    then obtain e where e: "om_get es n = Some e" by (auto split: option.splits)
    then have "(n, e) \<in> set es" by (simp add: om_get_map_of map_of_SomeD)
    then have "name_ok n" "names_mem e" using Cons.prems(2) by (auto simp: names_node_def list_all_iff)
    then show ?case using Cons e by (cases e) (auto simp: name_ok_def split: if_splits)
  qed simp
  then show "q \<in> range (split_on slash)" if "files_of node q \<noteq> None" for q
    using that assms(1) split_join by (metis rangeI)
qed

lemma rebuild_tree:
  assumes "wf_node node" and "names_node node" and "depth_ok (node_file node)"
    and "om_inv files" and "om_get files = node_file node"
  shows "apply_changes mem_empty (map add_change files) = Inr node"
proof -
  obtain node' where n: "apply_changes mem_empty (map add_change files) = Inr node'"
    using build_adds_total [OF assms(4)] assms(3,5) dual_free_node by auto
  from build_adds [OF n assms(4)] assms(5) have w: "wf_node node'" and f: "node_file node' = node_file node" by auto
  have "abs_apply (files_of mem_empty) (map add_change files) = Inr (files_of node')"
    using abs_result_changes [of mem_empty "map add_change files"] n by simp
  from abs_apply_adds [OF this represents_empty assms(4)] have r': "represents (files_of node') (node_file node)"
    using assms(5) by (simp add: om_get_map_of)
  have "files_of node' q = files_of node q" for q
  proof (cases "q \<in> range (split_on slash)")
    case True
    then obtain path where q: "q = split_on slash path" by blast
    show ?thesis
      using r' represents_files_of [OF assms(2,1)] by (simp only: represents_def q)
  next
    case False
    then have "files_of node' q = None" "files_of node q = None"
      using r' represents_files_of [OF assms(2,1)] unfolding represents_def by blast+
    then show ?thesis by simp
  qed
  then have "files_of node' = files_of node" by blast
  with files_determine_node [OF w assms(1)] n show ?thesis by simp
qed

end
