(* ===== verification/Merge_Correct.thy ===== *)
theory Merge_Correct
  imports Tree_Files
begin

text \<open>
  Correctness of the path-level merge of theory \<open>Tree_Merge\<close>: the verdict on one path, the loop over
  the paths in its two conflict modes, and the properties of \<open>merge_trees\<close> and
  \<open>merge_trees_recording\<close>.
\<close>

section \<open>The verdict on one path\<close>

text \<open>
  What the merge owes one path, from the three entries alone: the entry of the result, or a conflict.
  \<open>env_bytes\<close> reads a blob that can be read; \<open>env_lawful\<close> is the documented behaviour of the
  \<open>similar\<close> crate (see \<open>Line_Merge\<close>), and \<open>env_reads\<close> says that a blob can be read.
\<close>

definition env_bytes :: "merge_env \<Rightarrow> oid \<Rightarrow> bytes" where
  "env_bytes env i = (case env_fetch env i of Inr content \<Rightarrow> content | Inl _ \<Rightarrow> [])"

definition env_reads :: "merge_env \<Rightarrow> oid \<Rightarrow> bool" where
  "env_reads env i \<longleftrightarrow> (\<exists>content. env_fetch env i = Inr content)"

definition env_lawful :: "merge_env \<Rightarrow> bool" where
  "env_lawful env \<longleftrightarrow> (\<forall>t. concat (env_lines env t) = t) \<and> (\<forall>old new. script_ok old new (env_diff env old new))"

definition line_merge :: "merge_env \<Rightarrow> oid \<Rightarrow> oid \<Rightarrow> oid \<Rightarrow> merge_outcome option" where
  "line_merge env b u t =
     merge_lines (env_lines env) (env_diff env) (env_bytes env b) (env_bytes env u) (env_bytes env t)"

definition merged_meta :: "merge_env \<Rightarrow> bytes \<Rightarrow> bool \<Rightarrow> file_meta" where
  "merged_meta env content exec =
     \<lparr>fm_blob = object_id (env_blake3 env) Kind_Blob content, fm_size = word_of_nat (length content),
      fm_exec = exec\<rparr>"

definition verdict ::
    "merge_env \<Rightarrow> bytes \<Rightarrow> file_meta option \<Rightarrow> file_meta option \<Rightarrow> file_meta option \<Rightarrow>
     path_conflict + file_meta option" where
  "verdict env path b u t =
     (if u = t then Inr u else if u = b then Inr t else if t = b then Inr u
      else case (b, u, t) of
        (Some bm, Some om, Some tm) \<Rightarrow>
          (case line_merge env (fm_blob bm) (fm_blob om) (fm_blob tm) of
             Some (Merged content) \<Rightarrow>
               Inr (Some (merged_meta env content
                 (if fm_exec om = fm_exec tm then fm_exec om else \<not> fm_exec bm)))
           | _ \<Rightarrow> Inl (conflict_at path b u t ''both modified, line merge conflict''))
      | (None, _, _) \<Rightarrow> Inl (conflict_at path b u t ''both added, different content'')
      | _ \<Rightarrow> Inl (conflict_at path b u t ''deleted by one side, modified by the other''))"

lemma resolve_exec_three_way: "resolve_exec (Some b) (Some u) (Some t) = (if u = t then u else \<not> b)"
  by auto

text \<open>The part of the loop state that a verdict decides.\<close>

definition same_but_blobs :: "merge_state \<Rightarrow> merge_state \<Rightarrow> bool" where
  "same_but_blobs st st' \<longleftrightarrow> ms_files st' = ms_files st \<and> ms_refused st' = ms_refused st \<and>
     ms_recorded st' = ms_recorded st \<and> ms_oversized st' = ms_oversized st"

definition takes_conflict :: "merge_env \<Rightarrow> on_conflict \<Rightarrow> path_conflict \<Rightarrow> merge_state \<Rightarrow> merge_state \<Rightarrow> bool" where
  "takes_conflict env on c st st' \<longleftrightarrow>
     ms_files st' = ms_files st \<and> ms_refused st' = ms_refused st @ [c] \<and>
     ms_recorded st' = ms_recorded st \<and> ms_oversized st' = ms_oversized st \<or>
     on = Record \<and> ms_refused st' = ms_refused st \<and>
     (\<exists>rep content. content_rep (env_nfc env) c = Some rep \<and> marker_bytes rep (fetch_named env) = Inr content \<and>
        (length content > BLOB_LIMIT \<and> ms_files st' = ms_files st \<and> ms_recorded st' = ms_recorded st \<and>
           ms_oversized st' = ms_oversized st @ [(pc_path c, length content)] \<or>
         (\<exists>exec. ms_files st' = om_insert (pc_path c) (merged_meta env content exec) (ms_files st) \<and>
           ms_recorded st' = ms_recorded st @ [c] \<and> ms_oversized st' = ms_oversized st)))"

lemma put_blob_same [simp]:
  "ms_files (put_blob i x st) = ms_files st" "ms_refused (put_blob i x st) = ms_refused st"
  "ms_recorded (put_blob i x st) = ms_recorded st" "ms_oversized (put_blob i x st) = ms_oversized st"
  by (simp_all add: put_blob_def)

lemma put_meta_same [simp]:
  "ms_files (put_meta p m st) = om_insert p m (ms_files st)" "ms_refused (put_meta p m st) = ms_refused st"
  "ms_recorded (put_meta p m st) = ms_recorded st" "ms_oversized (put_meta p m st) = ms_oversized st"
  by (simp_all add: put_meta_def)

definition new_blob :: "merge_env \<Rightarrow> bytes \<Rightarrow> bytes \<Rightarrow> bool \<Rightarrow> merge_state \<Rightarrow> merge_state" where
  "new_blob env path content exec st =
     put_meta path (merged_meta env content exec) (put_blob (object_id (env_blake3 env) Kind_Blob content) content st)"

lemma take_conflict_cases:
  assumes "take_conflict env on c st = Inr st'"
  obtains (refused) "st' = st\<lparr>ms_refused := ms_refused st @ [c]\<rparr>"
  | (oversized) rep content ids where "on = Record" "content_rep (env_nfc env) c = Some rep"
      "marker_bytes rep (fetch_named env) = Inr content" "length content > BLOB_LIMIT"
      "st' = st\<lparr>ms_input_ids := ids, ms_oversized := ms_oversized st @ [(pc_path c, length content)]\<rparr>"
  | (recorded) rep content ids exec where "on = Record" "content_rep (env_nfc env) c = Some rep"
      "marker_bytes rep (fetch_named env) = Inr content" "length content \<le> BLOB_LIMIT"
      "st' = (new_blob env (pc_path c) content exec (st\<lparr>ms_input_ids := ids\<rparr>))\<lparr>ms_recorded := ms_recorded st @ [c]\<rparr>"
proof (cases "on = Record \<and> content_rep (env_nfc env) c \<noteq> None")
  case False
  with assms show ?thesis by (intro refused) (cases on; auto simp: take_conflict_def)
next
  case True
  then obtain rep where rep: "on = Record" "content_rep (env_nfc env) c = Some rep" by auto
  with assms obtain content where m: "marker_bytes rep (fetch_named env) = Inr content"
    by (auto simp: take_conflict_def Let_def rbind_eq_Inr)
  show ?thesis
  proof (cases "length content > BLOB_LIMIT")
    case True
    with assms rep m show ?thesis by (intro oversized [OF rep m]) (auto simp: take_conflict_def Let_def)
  next
    case False
    then have len: "length content \<le> BLOB_LIMIT" by simp
    show ?thesis
      using assms False rep m
      by (intro recorded [OF rep m len]) (auto simp: take_conflict_def Let_def new_blob_def merged_meta_def)
  qed
qed

lemma fetch_failure_Inr [simp]: "fetch_failure r = Inr x \<longleftrightarrow> r = Inr x"
  by (cases r) (simp_all add: fetch_failure_def)

lemma fetch_named_Inr [simp]: "fetch_named env i = Inr x \<longleftrightarrow> env_fetch env i = Inr x"
  by (cases "env_fetch env i") (simp_all add: fetch_named_def)

lemma merge_content_cases:
  assumes "merge_content env on path bm om tm st = Inr st'"
  obtains (merged) content where "line_merge env (fm_blob bm) (fm_blob om) (fm_blob tm) = Some (Merged content)"
      "st' = new_blob env path content (if fm_exec om = fm_exec tm then fm_exec om else \<not> fm_exec bm)
         (st\<lparr>ms_input_ids := ms_input_ids st @ [fm_blob bm, fm_blob om, fm_blob tm]\<rparr>)"
  | (conflict) "line_merge env (fm_blob bm) (fm_blob om) (fm_blob tm) = Some Merge_Conflict"
      "take_conflict env on
        (conflict_at path (Some bm) (Some om) (Some tm) ''both modified, line merge conflict'')
        (st\<lparr>ms_input_ids := ms_input_ids st @ [fm_blob bm, fm_blob om, fm_blob tm]\<rparr>) = Inr st'"
proof -
  from assms obtain bb ub tb where f:
    "env_fetch env (fm_blob bm) = Inr bb" "env_fetch env (fm_blob om) = Inr ub" "env_fetch env (fm_blob tm) = Inr tb"
    by (auto simp: merge_content_def rbind_eq_Inr)
  then have fn: "fetch_named env (fm_blob bm) = Inr bb" "fetch_named env (fm_blob om) = Inr ub"
    "fetch_named env (fm_blob tm) = Inr tb" by simp_all
  have lm: "line_merge env (fm_blob bm) (fm_blob om) (fm_blob tm) = merge_lines (env_lines env) (env_diff env) bb ub tb"
    by (simp add: line_merge_def env_bytes_def f)
  show ?thesis
  proof (cases "merge_lines (env_lines env) (env_diff env) bb ub tb")
    case None
    with assms show ?thesis by (simp add: merge_content_def fn fetch_failure_def)
  next
    case (Some out)
    show ?thesis
    proof (cases out)
      case Merge_Conflict
      with Some assms show ?thesis
        by (intro conflict) (simp_all add: lm merge_content_def fn fetch_failure_def map_err_def split: sum.splits)
    next
      case (Merged content)
      with Some assms show ?thesis
        by (intro merged)
          (auto simp: lm merge_content_def fn fetch_failure_def resolve_exec_three_way merged_meta_def new_blob_def Let_def
            simp del: resolve_exec.simps)
    qed
  qed
qed

lemma new_blob_same [simp]:
  "ms_files (new_blob env p x e st) = om_insert p (merged_meta env x e) (ms_files st)"
  "ms_refused (new_blob env p x e st) = ms_refused st"
  "ms_recorded (new_blob env p x e st) = ms_recorded st" "ms_oversized (new_blob env p x e st) = ms_oversized st"
  by (simp_all add: new_blob_def)

lemma take_conflict_takes:
  "take_conflict env on c st = Inr st' \<Longrightarrow> takes_conflict env on c st st'"
  by (elim take_conflict_cases) (auto simp: takes_conflict_def)

lemma merge_content_effect:
  assumes "merge_content env on path bm om tm st = Inr st'"
  shows "case line_merge env (fm_blob bm) (fm_blob om) (fm_blob tm) of
      Some (Merged content) \<Rightarrow>
        ms_files st' = om_insert path (merged_meta env content
          (if fm_exec om = fm_exec tm then fm_exec om else \<not> fm_exec bm)) (ms_files st) \<and>
        same_but_blobs (st\<lparr>ms_files := ms_files st'\<rparr>) st'
    | _ \<Rightarrow> takes_conflict env on
        (conflict_at path (Some bm) (Some om) (Some tm) ''both modified, line merge conflict'') st st'"
  using assms
proof (cases rule: merge_content_cases)
  case (merged content)
  then show ?thesis by (simp add: same_but_blobs_def)
next
  case conflict
  then show ?thesis using take_conflict_takes by (fastforce simp: takes_conflict_def)
qed

definition put_entry :: "bytes \<Rightarrow> file_meta option \<Rightarrow> (bytes, file_meta) omap \<Rightarrow> (bytes, file_meta) omap" where
  "put_entry path m files = (case m of None \<Rightarrow> files | Some m \<Rightarrow> om_insert path m files)"

lemma put_opt_effect:
  "ms_files (put_opt path m st) = put_entry path m (ms_files st)"
  "same_but_blobs (st\<lparr>ms_files := ms_files (put_opt path m st)\<rparr>) (put_opt path m st)"
  by (simp_all add: put_opt_def put_entry_def same_but_blobs_def split: option.split)

lemma merge_path_effect:
  assumes "merge_path env on path b u t st = Inr st'"
  shows "case verdict env path b u t of
      Inl c \<Rightarrow> takes_conflict env on c st st'
    | Inr m \<Rightarrow> ms_files st' = put_entry path m (ms_files st) \<and> same_but_blobs (st\<lparr>ms_files := ms_files st'\<rparr>) st'"
proof (cases "u = t \<or> u = b \<or> t = b")
  case True
  then show ?thesis using assms put_opt_effect unfolding merge_path_def verdict_def
    by (cases "u = t"; cases "u = b") auto
next
  case False
  show ?thesis
  proof (cases b; cases u; cases t)
    fix bm om tm assume e: "b = Some bm" "u = Some om" "t = Some tm"
    then have "merge_content env on path bm om tm st = Inr st'" using assms False by (auto simp: merge_path_def)
    from merge_content_effect [OF this] show ?thesis using False e
      by (auto simp: verdict_def put_entry_def split: option.splits merge_outcome.splits)
  qed (use False assms in \<open>auto simp: merge_path_def verdict_def dest: take_conflict_takes\<close>)
qed

lemma merge_path_conflict:
  assumes "merge_path env on path b u t st = Inr st'" and "verdict env path b u t = Inl c"
  shows "takes_conflict env on c st st'"
  using merge_path_effect [OF assms(1)] unfolding assms(2) sum.case .

lemma merge_path_clean:
  assumes "merge_path env on path b u t st = Inr st'" and "verdict env path b u t = Inr m"
  shows "ms_files st' = put_entry path m (ms_files st)" and "same_but_blobs (st\<lparr>ms_files := ms_files st'\<rparr>) st'"
  using merge_path_effect [OF assms(1)] unfolding assms(2) sum.case by blast+

section \<open>The loop over the paths\<close>

definition path_verdict :: "merge_env \<Rightarrow> (bytes \<rightharpoonup> file_meta) \<Rightarrow> (bytes \<rightharpoonup> file_meta) \<Rightarrow> (bytes \<rightharpoonup> file_meta) \<Rightarrow>
    bytes \<Rightarrow> path_conflict + file_meta option" where
  "path_verdict env B U T path = verdict env path (B path) (U path) (T path)"

definition conflict_list :: "(bytes \<Rightarrow> path_conflict + 'a) \<Rightarrow> bytes list \<Rightarrow> path_conflict list" where
  "conflict_list V paths = concat (map (\<lambda>p. case V p of Inl c \<Rightarrow> [c] | Inr _ \<Rightarrow> []) paths)"

lemma conflict_list_simps [simp]:
  "conflict_list V [] = []"
  "conflict_list V (p # ps) = (case V p of Inl c \<Rightarrow> [c] | Inr _ \<Rightarrow> []) @ conflict_list V ps"
  by (simp_all add: conflict_list_def)

lemma conflict_list_Nil: "conflict_list V paths = [] \<longleftrightarrow> (\<forall>p \<in> set paths. \<exists>m. V p = Inr m)"
  by (induction paths) (auto split: sum.splits)

lemma conflict_at_path [simp]: "pc_path (conflict_at p b u t r) = p"
  by (simp add: conflict_at_def)

lemma verdict_path: "verdict env p b u t = Inl c \<Longrightarrow> pc_path c = p"
  by (auto simp: verdict_def split: if_splits option.splits merge_outcome.splits)

lemma verdict_absent: "verdict env p None None None = Inr None"
  by (simp add: verdict_def)

lemma om_inv_put_entry: "om_inv files \<Longrightarrow> om_inv (put_entry p m files)"
  by (simp add: put_entry_def om_simps split: option.split)

lemma om_get_put_entry: "om_get (put_entry p m files) q = (if q = p \<and> m \<noteq> None then m else om_get files q)"
  by (simp add: put_entry_def om_simps split: option.split)

lemma same_but_blobsD:
  "same_but_blobs st st' \<Longrightarrow> ms_files st' = ms_files st \<and> ms_refused st' = ms_refused st \<and>
     ms_recorded st' = ms_recorded st \<and> ms_oversized st' = ms_oversized st"
  by (simp add: same_but_blobs_def)

text \<open>
  The state after the loop, in the two modes at once: every path of the walk holds its verdict, or
  is a conflict that is refused, recorded or oversized.
\<close>

definition conflict_paths :: "merge_state \<Rightarrow> bytes list" where
  "conflict_paths st = map pc_path (ms_refused st) @ map pc_path (ms_recorded st) @ map fst (ms_oversized st)"

lemma takes_conflict_paths:
  "takes_conflict env on c st st' \<Longrightarrow> set (conflict_paths st') = insert (pc_path c) (set (conflict_paths st))"
  by (auto simp: takes_conflict_def conflict_paths_def)

lemma takes_conflict_files:
  "takes_conflict env on c st st' \<Longrightarrow> (om_inv (ms_files st) \<longrightarrow> om_inv (ms_files st')) \<and>
     (q \<noteq> pc_path c \<longrightarrow> om_get (ms_files st') q = om_get (ms_files st) q)"
  by (auto simp: takes_conflict_def om_simps)

lemma takes_conflict_refuse:
  "takes_conflict env Refuse c st st' \<Longrightarrow>
     ms_files st' = ms_files st \<and> ms_refused st' = ms_refused st @ [c] \<and>
     ms_recorded st' = ms_recorded st \<and> ms_oversized st' = ms_oversized st"
  by (simp add: takes_conflict_def)

lemma step_files:
  assumes "merge_path env on p b u t st = Inr s" and "om_inv (ms_files st)"
  shows "om_inv (ms_files s)"
    and "set (conflict_paths s) = (case verdict env p b u t of Inl _ \<Rightarrow> insert p | Inr _ \<Rightarrow> id) (set (conflict_paths st))"
    and "q \<noteq> p \<Longrightarrow> om_get (ms_files s) q = om_get (ms_files st) q"
    and "verdict env p b u t = Inr m \<Longrightarrow> om_get (ms_files st) p = None \<Longrightarrow> om_get (ms_files s) p = m"
proof -
  have "om_inv (ms_files s) \<and>
    set (conflict_paths s) = (case verdict env p b u t of Inl _ \<Rightarrow> insert p | Inr _ \<Rightarrow> id) (set (conflict_paths st)) \<and>
    (q \<noteq> p \<longrightarrow> om_get (ms_files s) q = om_get (ms_files st) q) \<and>
    (verdict env p b u t = Inr m \<longrightarrow> om_get (ms_files st) p = None \<longrightarrow> om_get (ms_files s) p = m)"
  proof (cases "verdict env p b u t")
    case (Inl c)
    note t = merge_path_conflict [OF assms(1) Inl]
    show ?thesis
      using takes_conflict_files [OF t] takes_conflict_paths [OF t] assms(2) verdict_path [OF Inl] by (simp add: Inl)
  next
    case (Inr m)
    note e = merge_path_clean [OF assms(1) Inr]
    show ?thesis
      using assms(2) same_but_blobsD [OF e(2)]
      by (simp add: e(1) Inr om_inv_put_entry om_get_put_entry conflict_paths_def)
  qed
  then show "om_inv (ms_files s)"
    and "set (conflict_paths s) = (case verdict env p b u t of Inl _ \<Rightarrow> insert p | Inr _ \<Rightarrow> id) (set (conflict_paths st))"
    and "q \<noteq> p \<Longrightarrow> om_get (ms_files s) q = om_get (ms_files st) q"
    and "verdict env p b u t = Inr m \<Longrightarrow> om_get (ms_files st) p = None \<Longrightarrow> om_get (ms_files s) p = m"
    by blast+
qed

lemma merge_paths_files:
  assumes "merge_paths env on bs us ts paths st = Inr st'" and "distinct paths" and "om_inv (ms_files st)"
    and "V = path_verdict env (om_get bs) (om_get us) (om_get ts)"
  shows "om_inv (ms_files st')"
    and "set (conflict_paths st') = set (conflict_paths st) \<union> {p \<in> set paths. \<exists>c. V p = Inl c}"
    and "\<And>p m. p \<in> set paths \<Longrightarrow> V p = Inr m \<Longrightarrow> om_get (ms_files st) p = None \<Longrightarrow> om_get (ms_files st') p = m"
    and "\<And>p. p \<notin> set paths \<Longrightarrow> om_get (ms_files st') p = om_get (ms_files st) p"
proof -
  have "om_inv (ms_files st') \<and>
    set (conflict_paths st') = set (conflict_paths st) \<union> {p \<in> set paths. \<exists>c. V p = Inl c} \<and>
    (\<forall>p m. p \<in> set paths \<longrightarrow> V p = Inr m \<longrightarrow> om_get (ms_files st) p = None \<longrightarrow> om_get (ms_files st') p = m) \<and>
    (\<forall>p. p \<notin> set paths \<longrightarrow> om_get (ms_files st') p = om_get (ms_files st) p)"
    using assms(1-3)
  proof (induction paths arbitrary: st)
    case (Cons p paths)
    then obtain s where s: "merge_path env on p (om_get bs p) (om_get us p) (om_get ts p) st = Inr s"
      and rest: "merge_paths env on bs us ts paths s = Inr st'"
      by (auto simp: rbind_eq_Inr)
    have V: "V p = verdict env p (om_get bs p) (om_get us p) (om_get ts p)"
      by (simp add: assms(4) path_verdict_def)
    have ih: "om_inv (ms_files s)"
      "set (conflict_paths s) = (case V p of Inl _ \<Rightarrow> insert p | Inr _ \<Rightarrow> id) (set (conflict_paths st))"
      "\<And>q. q \<noteq> p \<Longrightarrow> om_get (ms_files s) q = om_get (ms_files st) q"
      "\<And>m. V p = Inr m \<Longrightarrow> om_get (ms_files st) p = None \<Longrightarrow> om_get (ms_files s) p = m"
      using step_files [OF s] Cons.prems(3) by (simp_all add: V)
    have IH: "om_inv (ms_files st')"
      "set (conflict_paths st') = set (conflict_paths s) \<union> {p \<in> set paths. \<exists>c. V p = Inl c}"
      "\<And>q m. q \<in> set paths \<Longrightarrow> V q = Inr m \<Longrightarrow> om_get (ms_files s) q = None \<Longrightarrow> om_get (ms_files st') q = m"
      "\<And>q. q \<notin> set paths \<Longrightarrow> om_get (ms_files st') q = om_get (ms_files s) q"
      using Cons.IH [OF rest _ ih(1)] Cons.prems(2) by auto
    have new: "p \<notin> set paths" using Cons.prems(2) by simp
    have "set (conflict_paths st') = set (conflict_paths st) \<union> {q \<in> set (p # paths). \<exists>c. V q = Inl c}"
      unfolding IH(2) ih(2) by (cases "V p") auto
    moreover have "om_get (ms_files st') q = m"
      if "q \<in> set (p # paths)" "V q = Inr m" "om_get (ms_files st) q = None" for q m
    proof (cases "q = p")
      case True
      with that ih(4) IH(4) [of p] new show ?thesis by simp
    next
      case False
      with that ih(3) IH(3) show ?thesis by simp
    qed
    moreover have "om_get (ms_files st') q = om_get (ms_files st) q" if "q \<notin> set (p # paths)" for q
      using that IH(4) ih(3) by simp
    ultimately show ?case using IH(1) by blast
  qed simp
  then show "om_inv (ms_files st')"
    and "set (conflict_paths st') = set (conflict_paths st) \<union> {p \<in> set paths. \<exists>c. V p = Inl c}"
    and "\<And>p m. p \<in> set paths \<Longrightarrow> V p = Inr m \<Longrightarrow> om_get (ms_files st) p = None \<Longrightarrow> om_get (ms_files st') p = m"
    and "\<And>p. p \<notin> set paths \<Longrightarrow> om_get (ms_files st') p = om_get (ms_files st) p"
    by blast+
qed

lemma merge_paths_refused:
  assumes "merge_paths env Refuse bs us ts paths st = Inr st'"
  shows "ms_refused st' = ms_refused st @ conflict_list (path_verdict env (om_get bs) (om_get us) (om_get ts)) paths
    \<and> ms_recorded st' = ms_recorded st \<and> ms_oversized st' = ms_oversized st"
  using assms
proof (induction paths arbitrary: st)
  case (Cons p paths)
  then obtain s where s: "merge_path env Refuse p (om_get bs p) (om_get us p) (om_get ts p) st = Inr s"
    and rest: "merge_paths env Refuse bs us ts paths s = Inr st'"
    by (auto simp: rbind_eq_Inr)
  show ?case
  proof (cases "path_verdict env (om_get bs) (om_get us) (om_get ts) p")
    case (Inl c)
    then show ?thesis
      using Cons.IH [OF rest] takes_conflict_refuse [OF merge_path_conflict [OF s]] by (simp add: path_verdict_def)
  next
    case (Inr m)
    then show ?thesis
      using Cons.IH [OF rest] same_but_blobsD [OF merge_path_clean(2) [OF s]] by (simp add: path_verdict_def)
  qed
qed simp

section \<open>The loop returns\<close>

lemma line_merge_Some: "env_lawful env \<Longrightarrow> line_merge env b u t \<noteq> None"
  using merge_lines_returns [of "env_lines env" "env_bytes env b" "env_bytes env u" "env_diff env" "env_bytes env t"]
  unfolding env_lawful_def line_merge_def by auto

lemma merge_path_refuse_returns:
  assumes "env_lawful env" and "\<And>m. m \<in> {b, u, t} \<Longrightarrow> m \<noteq> None \<Longrightarrow> env_reads env (fm_blob (the m))"
  shows "\<exists>st'. merge_path env Refuse path b u t st = Inr st'"
proof (cases "u = t \<or> u = b \<or> t = b")
  case False
  show ?thesis
  proof (cases b; cases u; cases t)
    fix bm om tm assume e: "b = Some bm" "u = Some om" "t = Some tm"
    from assms(2) [of b] assms(2) [of u] assms(2) [of t] e obtain bb ub tb where
      f: "env_fetch env (fm_blob bm) = Inr bb" "env_fetch env (fm_blob om) = Inr ub" "env_fetch env (fm_blob tm) = Inr tb"
      by (auto simp: env_reads_def)
    then have fn: "fetch_named env (fm_blob bm) = Inr bb" "fetch_named env (fm_blob om) = Inr ub"
      "fetch_named env (fm_blob tm) = Inr tb" by simp_all
    obtain out where "merge_lines (env_lines env) (env_diff env) bb ub tb = Some out"
      using line_merge_Some [OF assms(1), of "fm_blob bm" "fm_blob om" "fm_blob tm"]
      by (auto simp: line_merge_def env_bytes_def f)
    then have "\<exists>st'. merge_content env Refuse path bm om tm st = Inr st'"
      by (cases out) (simp_all add: merge_content_def fn fetch_failure_def take_conflict_def Let_def)
    then show ?thesis using False e by (auto simp: merge_path_def)
  qed (use False in \<open>auto simp: merge_path_def take_conflict_def fetch_failure_def\<close>)
qed (auto simp: merge_path_def)

lemma merge_paths_refuse_returns:
  assumes "env_lawful env"
    and "\<And>m. m \<in> ran (om_get bs) \<union> ran (om_get us) \<union> ran (om_get ts) \<Longrightarrow> env_reads env (fm_blob m)"
  shows "\<exists>st'. merge_paths env Refuse bs us ts paths st = Inr st'"
proof (induction paths arbitrary: st)
  case (Cons p paths)
  have "\<exists>s. merge_path env Refuse p (om_get bs p) (om_get us p) (om_get ts p) st = Inr s"
  proof (rule merge_path_refuse_returns [OF assms(1)])
    fix m assume "m \<in> {om_get bs p, om_get us p, om_get ts p}" and "m \<noteq> None"
    then have "the m \<in> ran (om_get bs) \<union> ran (om_get us) \<union> ran (om_get ts)"
      by (auto simp: ran_def)
    then show "env_reads env (fm_blob (the m))" by (rule assms(2))
  qed
  then show ?case using Cons.IH by auto
qed simp

section \<open>The merge of three trees\<close>

text \<open>The trees the server holds: canonical, named by the path grammar, within the depth cap.\<close>

definition tree_ok :: "mem_node \<Rightarrow> bool" where
  "tree_ok node \<longleftrightarrow> wf_node node \<and> names_node node \<and> depth_ok (node_file node)"

definition tree_verdict :: "merge_env \<Rightarrow> mem_node \<Rightarrow> mem_node \<Rightarrow> mem_node \<Rightarrow> bytes \<Rightarrow> path_conflict + file_meta option" where
  "tree_verdict env base ours theirs = path_verdict env (node_file base) (node_file ours) (node_file theirs)"

definition merged_map :: "(bytes \<Rightarrow> path_conflict + file_meta option) \<Rightarrow> bytes \<rightharpoonup> file_meta" where
  "merged_map V p = (case V p of Inl _ \<Rightarrow> None | Inr m \<Rightarrow> m)"

definition tree_files :: "mem_node list \<Rightarrow> file_meta set" where
  "tree_files nodes = (\<Union>node \<in> set nodes. ran (node_file node))"

lemma flatten_ok:
  "tree_ok node \<Longrightarrow> om_inv (flatten_files node)" "tree_ok node \<Longrightarrow> om_get (flatten_files node) = node_file node"
  using flatten_files_get by (simp_all add: tree_ok_def)

lemma union_paths_trees:
  assumes "\<forall>node \<in> set nodes. tree_ok node"
  shows "set (union_paths (map flatten_files nodes)) = (\<Union>node \<in> set nodes. dom (node_file node))"
proof -
  have "set (map fst (flatten_files node)) = dom (node_file node)" if "node \<in> set nodes" for node
    using flatten_ok(2) [of node] that assms by (metis dom_map_of_conv_image_fst list.set_map om_get_map_of)
  then show ?thesis by (simp add: union_paths_set)
qed

lemma tree_verdict_outside:
  assumes "p \<notin> dom (node_file base) \<union> dom (node_file ours) \<union> dom (node_file theirs)"
  shows "tree_verdict env base ours theirs p = Inr None"
proof -
  have "node_file base p = None" "node_file ours p = None" "node_file theirs p = None" using assms by (auto simp: domIff)
  then show ?thesis by (simp add: tree_verdict_def path_verdict_def verdict_absent)
qed

lemma depth_ok_merged:
  assumes "tree_ok base" and "tree_ok ours" and "tree_ok theirs"
  shows "depth_ok (merged_map (tree_verdict env base ours theirs))"
  unfolding depth_ok_def
proof
  fix p assume "p \<in> dom (merged_map (tree_verdict env base ours theirs))"
  then have "tree_verdict env base ours theirs p \<noteq> Inr None" by (auto simp: merged_map_def domIff)
  then have "p \<in> dom (node_file base) \<union> dom (node_file ours) \<union> dom (node_file theirs)"
    using tree_verdict_outside by metis
  then show "length (split_on slash p) \<le> 256" using assms by (auto simp: tree_ok_def depth_ok_def)
qed

text \<open>The state after the walk over three trees.\<close>

lemma merge_walk:
  assumes "tree_ok base" and "tree_ok ours" and "tree_ok theirs"
    and "merge_paths env on (flatten_files base) (flatten_files ours) (flatten_files theirs)
      (union_paths [flatten_files base, flatten_files ours, flatten_files theirs]) empty_state = Inr st"
  shows "om_inv (ms_files st)"
    and "set (conflict_paths st) = {p. \<exists>c. tree_verdict env base ours theirs p = Inl c}"
    and "tree_verdict env base ours theirs p = Inr m \<Longrightarrow> om_get (ms_files st) p = m"
    and "on = Refuse \<Longrightarrow> ms_recorded st = [] \<and> ms_oversized st = [] \<and>
      ms_refused st = conflict_list (tree_verdict env base ours theirs)
        (union_paths [flatten_files base, flatten_files ours, flatten_files theirs])"
proof -
  let ?ps = "union_paths [flatten_files base, flatten_files ours, flatten_files theirs]"
  let ?V = "tree_verdict env base ours theirs"
  have ps: "set ?ps = dom (node_file base) \<union> dom (node_file ours) \<union> dom (node_file theirs)"
    using union_paths_trees [of "[base, ours, theirs]"] assms(1-3) by (simp add: Un_assoc)
  have V: "?V = path_verdict env (om_get (flatten_files base)) (om_get (flatten_files ours)) (om_get (flatten_files theirs))"
    using assms by (simp add: tree_verdict_def flatten_ok)
  have out: "?V p = Inr None" if "p \<notin> set ?ps" for p
    using tree_verdict_outside that ps by simp
  have d: "distinct ?ps" using union_paths_sorted strict_sorted_iff by blast
  note w = merge_paths_files [OF assms(4) d _ V]
  have init: "om_inv (ms_files empty_state)" "conflict_paths empty_state = []" "om_get (ms_files empty_state) p = None" for p
    by (simp_all add: empty_state_def conflict_paths_def)
  show "om_inv (ms_files st)" using w(1) init by simp
  have "{p \<in> set ?ps. \<exists>c. ?V p = Inl c} = {p. \<exists>c. ?V p = Inl c}" using out by force
  then show "set (conflict_paths st) = {p. \<exists>c. ?V p = Inl c}" using w(2) init by simp
  show "om_get (ms_files st) p = m" if "?V p = Inr m"
  proof (cases "p \<in> set ?ps")
    case True
    then show ?thesis using w(3) init that by simp
  next
    case False
    then show ?thesis using w(4) init that out by simp
  qed
  show "on = Refuse \<Longrightarrow> ms_recorded st = [] \<and> ms_oversized st = [] \<and> ms_refused st = conflict_list ?V ?ps"
    using merge_paths_refused [of env _ _ _ ?ps empty_state st] assms(4) V by (simp add: empty_state_def)
qed

lemma conflict_list_paths:
  assumes "\<And>p c. V p = Inl c \<Longrightarrow> pc_path c = p"
  shows "map pc_path (conflict_list V ps) = filter (\<lambda>p. \<exists>c. V p = Inl c) ps"
    and "set (conflict_list V ps) = {c. \<exists>p \<in> set ps. V p = Inl c}"
  using assms by (induction ps) (auto split: sum.splits)

definition merge_spec :: "(bytes \<Rightarrow> path_conflict + file_meta option) \<Rightarrow> merge_error + merged_tree \<Rightarrow> bool" where
  "merge_spec V r =
     (case r of
        Inr mt \<Rightarrow> wf_node (mt_node mt) \<and> (\<forall>p. V p = Inr (node_file (mt_node mt) p))
      | Inl (Conflicts cs) \<Rightarrow>
          sorted_wrt (<) (map pc_path cs) \<and> cs \<noteq> [] \<and> set cs = {c. \<exists>p. V p = Inl c} \<or>
          (\<forall>p. \<exists>m. V p = Inr m) \<and> \<not> dual_free (merged_map V) \<and> (\<exists>p. cs = [duality_conflict p])
      | Inl _ \<Rightarrow> False)"

lemma merge_trees_spec:
  assumes "tree_ok base" and "tree_ok ours" and "tree_ok theirs" and "env_lawful env"
    and "\<And>m. m \<in> tree_files [base, ours, theirs] \<Longrightarrow> env_reads env (fm_blob m)"
  shows "merge_spec (tree_verdict env base ours theirs) (merge_trees env base ours theirs)"
proof -
  let ?V = "tree_verdict env base ours theirs"
  let ?ps = "union_paths [flatten_files base, flatten_files ours, flatten_files theirs]"
  have "\<exists>st. merge_paths env Refuse (flatten_files base) (flatten_files ours) (flatten_files theirs) ?ps empty_state = Inr st"
    by (rule merge_paths_refuse_returns [OF assms(4)]) (use assms(5) in \<open>auto simp: tree_files_def flatten_ok assms(1-3)\<close>)
  then obtain st where st: "merge_paths env Refuse (flatten_files base) (flatten_files ours) (flatten_files theirs)
    ?ps empty_state = Inr st" by blast
  note walk = merge_walk [OF assms(1-3) st]
  have refused: "ms_refused st = conflict_list ?V ?ps" using walk(4) by simp
  have path: "\<And>p c. ?V p = Inl c \<Longrightarrow> pc_path c = p"
    unfolding tree_verdict_def path_verdict_def by (rule verdict_path)
  have "set ?ps = dom (node_file base) \<union> dom (node_file ours) \<union> dom (node_file theirs)"
    using union_paths_trees [of "[base, ours, theirs]"] assms(1-3) by (simp add: Un_assoc)
  then have "p \<in> set ?ps" if "?V p = Inl c" for p c
    using that tree_verdict_outside [of p base ours theirs env] by (metis sum.distinct(1))
  then have confl: "{c. \<exists>p \<in> set ?ps. ?V p = Inl c} = {c. \<exists>p. ?V p = Inl c}" by blast
  have cl: "map pc_path (conflict_list ?V ?ps) = filter (\<lambda>p. \<exists>c. ?V p = Inl c) ?ps"
    "set (conflict_list ?V ?ps) = {c. \<exists>p \<in> set ?ps. ?V p = Inl c}"
    by (rule conflict_list_paths, erule path)+
  show ?thesis
  proof (cases "ms_refused st = []")
    case False
    then have r: "merge_trees env base ours theirs = Inl (Conflicts (conflict_list ?V ?ps))"
      using st refused by (simp add: merge_trees_def merge_trees_mode_def Let_def)
    have "sorted_wrt (<) (map pc_path (conflict_list ?V ?ps))"
      unfolding cl(1) by (rule sorted_wrt_filter [OF union_paths_sorted])
    then show ?thesis
      using False refused cl(2) confl by (simp add: merge_spec_def r)
  next
    case True
    have clean: "\<exists>m. ?V p = Inr m" for p
    proof (rule ccontr)
      assume "\<nexists>m. ?V p = Inr m"
      then obtain c where "?V p = Inl c" by (cases "?V p") auto
      then have "c \<in> set (conflict_list ?V ?ps)" using confl cl(2) by blast
      then show False using True refused by simp
    qed
    have files: "om_get (ms_files st) = merged_map ?V"
    proof
      fix p
      obtain m where m: "?V p = Inr m" using clean by blast
      then show "om_get (ms_files st) p = merged_map ?V p" using walk(3) by (simp add: merged_map_def)
    qed
    show ?thesis
    proof (cases "apply_changes mem_empty (map add_change (ms_files st))")
      case (Inl e)
      have "\<not> dual_free (merged_map ?V)"
        using build_adds_total [OF walk(1)] Inl depth_ok_merged [OF assms(1-3), of env] files by auto
      then show ?thesis using st True Inl clean
        by (auto simp: merge_trees_def merge_trees_mode_def Let_def merge_spec_def)
    next
      case (Inr node)
      note b = build_adds [OF Inr walk(1)]
      have "?V p = Inr (node_file node p)" for p
        using clean [of p] b(2) files by (auto simp: merged_map_def)
      then show ?thesis using st True Inr b(1)
        by (simp add: merge_trees_def merge_trees_mode_def Let_def merge_spec_def)
    qed
  qed
qed

section \<open>Merging with a side that did not change\<close>

lemma merge_paths_agree:
  assumes "\<And>p. p \<in> set paths \<Longrightarrow> om_get us p = om_get ts p \<or> om_get us p = om_get bs p \<or> om_get ts p = om_get bs p"
  shows "\<exists>files. merge_paths env on bs us ts paths st = Inr (st\<lparr>ms_files := files\<rparr>)"
  using assms
proof (induction paths arbitrary: st)
  case Nil
  show ?case by (intro exI [of _ "ms_files st"]) simp
next
  case (Cons p paths)
  have put: "\<exists>files. put_opt p m s = s\<lparr>ms_files := files\<rparr>" for m and s :: merge_state
    by (cases m) (auto simp: put_opt_def put_meta_def intro: exI [of _ "ms_files s"])
  have "\<exists>m. merge_path env on p (om_get bs p) (om_get us p) (om_get ts p) st = Inr (put_opt p m st)"
    using Cons.prems [of p] by (auto simp: merge_path_def)
  then obtain files where f: "merge_path env on p (om_get bs p) (om_get us p) (om_get ts p) st = Inr (st\<lparr>ms_files := files\<rparr>)"
    using put by metis
  from Cons.IH [of "st\<lparr>ms_files := files\<rparr>"] Cons.prems show ?case by (auto simp: f)
qed

lemma merge_trees_agree:
  assumes "tree_ok base" and "tree_ok ours" and "tree_ok theirs" and "tree_ok node"
    and "\<And>p. node_file ours p = node_file theirs p \<or> node_file ours p = node_file base p \<or> node_file theirs p = node_file base p"
    and "\<And>p. tree_verdict env base ours theirs p = Inr (node_file node p)"
  shows "merge_trees_mode env on base ours theirs = Inr (\<lparr>mt_node = node, mt_new_blobs = [], mt_input_ids = []\<rparr>, [], [])"
proof -
  let ?ps = "union_paths [flatten_files base, flatten_files ours, flatten_files theirs]"
  obtain files where st: "merge_paths env on (flatten_files base) (flatten_files ours) (flatten_files theirs) ?ps empty_state
      = Inr (empty_state\<lparr>ms_files := files\<rparr>)"
    using merge_paths_agree [of ?ps "flatten_files ours" "flatten_files theirs" "flatten_files base" env on empty_state]
      assms(5) by (auto simp: flatten_ok assms(1-3))
  note walk = merge_walk [OF assms(1-3) st]
  have "om_get files = node_file node" using walk(3) [OF assms(6)] by (auto simp: fun_eq_iff)
  then have "apply_changes mem_empty (map add_change files) = Inr node"
    using rebuild_tree [of node files] assms(4) walk(1) by (simp add: tree_ok_def)
  then show ?thesis using st by (simp add: merge_trees_mode_def Let_def empty_state_def)
qed

section \<open>Recorded conflicts\<close>

text \<open>What the recording merge promises of a conflict it recorded: a marker file at its path.\<close>

definition marker_at :: "merge_env \<Rightarrow> (bytes \<rightharpoonup> file_meta) \<Rightarrow> path_conflict \<Rightarrow> bool" where
  "marker_at env F c \<longleftrightarrow>
     (\<exists>rep content exec. content_rep (env_nfc env) c = Some rep \<and>
        marker_bytes rep (fetch_named env) = Inr content \<and> length content \<le> BLOB_LIMIT \<and>
        F (pc_path c) = Some (merged_meta env content exec))"

lemma take_conflict_recorded:
  assumes "take_conflict env on c st = Inr st'" and "ms_recorded st' \<noteq> ms_recorded st"
  shows "ms_recorded st' = ms_recorded st @ [c] \<and> marker_at env (om_get (ms_files st')) c"
  using assms(1)
proof (cases rule: take_conflict_cases)
  case (recorded rep content ids exec)
  then show ?thesis unfolding marker_at_def
    by (intro conjI exI [of _ rep] exI [of _ content] exI [of _ exec]) (simp_all add: om_simps)
qed (use assms(2) in simp_all)

lemma merge_content_recorded:
  assumes "merge_content env on path bm om tm st = Inr st'" and "ms_recorded st' \<noteq> ms_recorded st"
    and "bm \<noteq> om" and "bm \<noteq> tm" and "om \<noteq> tm"
  shows "\<exists>c. ms_recorded st' = ms_recorded st @ [c] \<and> marker_at env (om_get (ms_files st')) c \<and>
    verdict env path (Some bm) (Some om) (Some tm) = Inl c"
  using assms(1)
proof (cases rule: merge_content_cases)
  case conflict
  have "verdict env path (Some bm) (Some om) (Some tm) =
      Inl (conflict_at path (Some bm) (Some om) (Some tm) ''both modified, line merge conflict'')"
    using assms(3-5) by (simp add: verdict_def conflict(1))
  then show ?thesis using take_conflict_recorded [OF conflict(2)] assms(2) by simp
qed (use assms(2) in simp)

lemma merge_path_recorded:
  assumes "merge_path env on p b u t st = Inr st'" and "ms_recorded st' \<noteq> ms_recorded st"
  shows "\<exists>c. ms_recorded st' = ms_recorded st @ [c] \<and> marker_at env (om_get (ms_files st')) c \<and>
    verdict env p b u t = Inl c"
proof (cases "u = t \<or> u = b \<or> t = b")
  case True
  with assms have "ms_recorded st' = ms_recorded st"
    by (auto simp: merge_path_def put_opt_def split: if_splits option.splits)
  with assms(2) show ?thesis by simp
next
  case False
  have tk: "\<exists>c. ms_recorded st' = ms_recorded st @ [c] \<and> marker_at env (om_get (ms_files st')) c \<and> verdict env p b u t = Inl c"
    if "take_conflict env on c st = Inr st'" "verdict env p b u t = Inl c" for c
    using take_conflict_recorded [OF that(1) assms(2)] that(2) by blast
  show ?thesis
  proof (cases b; cases u; cases t)
    fix bm om tm assume e: "b = Some bm" "u = Some om" "t = Some tm"
    then have "merge_content env on p bm om tm st = Inr st'" using assms False by (auto simp: merge_path_def)
    from merge_content_recorded [OF this assms(2)] show ?thesis using False e by auto
  qed (use False assms in \<open>auto simp: merge_path_def verdict_def dest: tk\<close>)
qed

lemma marker_at_cong: "F (pc_path c) = G (pc_path c) \<Longrightarrow> marker_at env F c = marker_at env G c"
  by (simp add: marker_at_def)

lemma merge_paths_recorded:
  assumes "merge_paths env on bs us ts paths st = Inr st'" and "distinct paths" and "om_inv (ms_files st)"
    and "c \<in> set (ms_recorded st')" and "c \<notin> set (ms_recorded st)"
  shows "pc_path c \<in> set paths \<and> marker_at env (om_get (ms_files st')) c \<and>
    path_verdict env (om_get bs) (om_get us) (om_get ts) (pc_path c) = Inl c"
  using assms
proof (induction paths arbitrary: st)
  case (Cons p paths)
  then obtain s where s: "merge_path env on p (om_get bs p) (om_get us p) (om_get ts p) st = Inr s"
    and rest: "merge_paths env on bs us ts paths s = Inr st'"
    by (auto simp: rbind_eq_Inr)
  have inv: "om_inv (ms_files s)" using step_files(1) [OF s Cons.prems(3)] .
  show ?case
  proof (cases "c \<in> set (ms_recorded s)")
    case True
    with Cons.prems(5) have "ms_recorded s \<noteq> ms_recorded st" by auto
    from merge_path_recorded [OF s this] True Cons.prems(5)
    have c: "marker_at env (om_get (ms_files s)) c" "verdict env p (om_get bs p) (om_get us p) (om_get ts p) = Inl c"
      by auto
    have p: "pc_path c = p" using verdict_path [OF c(2)] .
    have "om_get (ms_files st') p = om_get (ms_files s) p"
      using merge_paths_files(4) [OF rest _ inv refl] Cons.prems(2) by simp
    then have "marker_at env (om_get (ms_files st')) c" using c(1) marker_at_cong [of "om_get (ms_files st')" c] p by simp
    then show ?thesis using c p by (simp add: path_verdict_def)
  next
    case False
    from Cons.IH [OF rest _ inv Cons.prems(4) False] Cons.prems(2) show ?thesis by simp
  qed
qed simp

lemma merge_recording_spec:
  assumes "tree_ok base" and "tree_ok ours" and "tree_ok theirs"
    and "merge_trees_recording env base ours theirs = Inr rm"
  shows "wf_node (mt_node (rm_tree rm)) \<and>
    (\<forall>p m. tree_verdict env base ours theirs p = Inr m \<longrightarrow> node_file (mt_node (rm_tree rm)) p = m) \<and>
    (\<forall>c \<in> set (rm_conflicts rm). tree_verdict env base ours theirs (pc_path c) = Inl c \<and>
       marker_at env (node_file (mt_node (rm_tree rm))) c) \<and>
    {p. \<exists>c. tree_verdict env base ours theirs p = Inl c} = pc_path ` set (rm_conflicts rm) \<union> fst ` set (rm_oversized rm)"
proof -
  let ?ps = "union_paths [flatten_files base, flatten_files ours, flatten_files theirs]"
  from assms(4) obtain st node where
    st: "merge_paths env Record (flatten_files base) (flatten_files ours) (flatten_files theirs) ?ps empty_state = Inr st"
    and r: "ms_refused st = []" and n: "apply_changes mem_empty (map add_change (ms_files st)) = Inr node"
    and rm: "mt_node (rm_tree rm) = node" "rm_conflicts rm = ms_recorded st" "rm_oversized rm = ms_oversized st"
    by (auto simp: merge_trees_recording_def merge_trees_mode_def Let_def rbind_eq_Inr split: if_splits sum.splits)
  note walk = merge_walk [OF assms(1-3) st]
  note b = build_adds [OF n walk(1)]
  have d: "distinct ?ps" using union_paths_sorted strict_sorted_iff by blast
  have V: "path_verdict env (om_get (flatten_files base)) (om_get (flatten_files ours)) (om_get (flatten_files theirs)) =
      tree_verdict env base ours theirs"
    using assms by (simp add: tree_verdict_def flatten_ok)
  have "tree_verdict env base ours theirs (pc_path c) = Inl c \<and> marker_at env (node_file node) c"
    if "c \<in> set (ms_recorded st)" for c
    using merge_paths_recorded [OF st d _ that] b(2) V by (simp add: empty_state_def)
  then show ?thesis using walk(2,3) b r unfolding rm by (auto simp: conflict_paths_def)
qed

section \<open>Provenance of blobs\<close>

text \<open>Every blob of the result is a blob of an input or is handed to the caller, under its own id.\<close>

definition blobs_from :: "merge_env \<Rightarrow> oid set \<Rightarrow> merge_state \<Rightarrow> bool" where
  "blobs_from env known st \<longleftrightarrow>
     distinct (map fst (ms_new_blobs st)) \<and>
     (\<forall>(i, content) \<in> set (ms_new_blobs st). i = object_id (env_blake3 env) Kind_Blob content) \<and>
     (\<forall>(p, m) \<in> set (ms_files st). fm_blob m \<in> known \<union> fst ` set (ms_new_blobs st))"

lemma set_om_insert: "set (om_insert k v m) \<subseteq> insert (k, v) (set m)"
  by (induction k v m rule: om_insert.induct) auto

lemma blobs_from_put_meta:
  "blobs_from env known st \<Longrightarrow> fm_blob m \<in> known \<union> fst ` set (ms_new_blobs st) \<Longrightarrow>
     blobs_from env known (put_meta p m st)"
  using set_om_insert [of p m "ms_files st"] unfolding blobs_from_def put_meta_def by auto

lemma blobs_from_put_blob:
  "blobs_from env known st \<Longrightarrow>
     blobs_from env known (put_blob (object_id (env_blake3 env) Kind_Blob content) content st) \<and>
     object_id (env_blake3 env) Kind_Blob content \<in>
       fst ` set (ms_new_blobs (put_blob (object_id (env_blake3 env) Kind_Blob content) content st))"
  by (auto simp: blobs_from_def put_blob_def image_iff)

lemma blobs_from_new:
  "blobs_from env known st \<Longrightarrow>
     blobs_from env known (new_blob env p content e st)"
  unfolding new_blob_def using blobs_from_put_blob [of env known st content]
  by (intro blobs_from_put_meta) (simp_all add: merged_meta_def)

lemma blobs_from_frame [simp]:
  "blobs_from env known (st\<lparr>ms_refused := r\<rparr>) = blobs_from env known st"
  "blobs_from env known (st\<lparr>ms_recorded := r\<rparr>) = blobs_from env known st"
  "blobs_from env known (st\<lparr>ms_oversized := w\<rparr>) = blobs_from env known st"
  "blobs_from env known (st\<lparr>ms_input_ids := i\<rparr>) = blobs_from env known st"
  by (simp_all add: blobs_from_def)

lemma take_conflict_blobs:
  "take_conflict env on c st = Inr st' \<Longrightarrow> blobs_from env known st \<Longrightarrow> blobs_from env known st'"
  by (elim take_conflict_cases) (simp_all add: blobs_from_new)

lemma merge_content_blobs:
  "merge_content env on path bm om tm st = Inr st' \<Longrightarrow> blobs_from env known st \<Longrightarrow> blobs_from env known st'"
  by (elim merge_content_cases) (simp_all add: blobs_from_new take_conflict_blobs)

lemma put_opt_blobs:
  "blobs_from env known st \<Longrightarrow> (\<And>m. e = Some m \<Longrightarrow> fm_blob m \<in> known) \<Longrightarrow> blobs_from env known (put_opt p e st)"
  by (auto simp: put_opt_def blobs_from_put_meta split: option.splits)

lemma merge_path_blobs:
  assumes "merge_path env on p b u t st = Inr st'" and "blobs_from env known st"
    and "\<And>m. u = Some m \<or> t = Some m \<Longrightarrow> fm_blob m \<in> known"
  shows "blobs_from env known st'"
proof (cases "u = t \<or> u = b \<or> t = b")
  case True
  with assms show ?thesis by (auto simp: merge_path_def intro: put_opt_blobs split: if_splits)
next
  case False
  with assms(1,2) show ?thesis
    by (cases b; cases u; cases t)
      (auto simp: merge_path_def intro: take_conflict_blobs merge_content_blobs)
qed

lemma merge_paths_blobs:
  assumes "merge_paths env on bs us ts paths st = Inr st'" and "blobs_from env known st"
    and "\<And>m. m \<in> ran (om_get us) \<union> ran (om_get ts) \<Longrightarrow> fm_blob m \<in> known"
  shows "blobs_from env known st'"
  using assms(1,2)
proof (induction paths arbitrary: st)
  case (Cons p paths)
  then obtain s where s: "merge_path env on p (om_get bs p) (om_get us p) (om_get ts p) st = Inr s"
    and rest: "merge_paths env on bs us ts paths s = Inr st'"
    by (auto simp: rbind_eq_Inr)
  have "blobs_from env known s"
    using merge_path_blobs [OF s Cons.prems(2)] assms(3) by (auto simp: ran_def)
  then show ?case by (rule Cons.IH [OF rest])
qed simp

lemma merge_mode_blobs:
  assumes "tree_ok ours" and "tree_ok theirs"
    and "merge_trees_mode env on base ours theirs = Inr (mt, recorded, oversized)"
  shows "distinct (map fst (mt_new_blobs mt)) \<and>
    (\<forall>(i, content) \<in> set (mt_new_blobs mt). i = object_id (env_blake3 env) Kind_Blob content) \<and>
    (\<forall>m \<in> ran (node_file (mt_node mt)).
       fm_blob m \<in> fm_blob ` tree_files [ours, theirs] \<union> fst ` set (mt_new_blobs mt))"
proof -
  let ?ps = "union_paths [flatten_files base, flatten_files ours, flatten_files theirs]"
  let ?known = "fm_blob ` tree_files [ours, theirs]"
  from assms(3) obtain st where
    st: "merge_paths env on (flatten_files base) (flatten_files ours) (flatten_files theirs) ?ps empty_state = Inr st"
    and n: "apply_changes mem_empty (map add_change (ms_files st)) = Inr (mt_node mt)"
    and mt: "mt_new_blobs mt = ms_new_blobs st"
    by (auto simp: merge_trees_mode_def Let_def rbind_eq_Inr split: if_splits sum.splits)
  have d: "distinct ?ps" using union_paths_sorted strict_sorted_iff by blast
  have inv: "om_inv (ms_files st)" by (rule merge_paths_files(1) [OF st d _ refl]) (simp add: empty_state_def)
  have bf: "blobs_from env ?known st"
    by (rule merge_paths_blobs [OF st])
      (auto simp: blobs_from_def empty_state_def tree_files_def flatten_ok assms(1,2))
  have "fm_blob m \<in> ?known \<union> fst ` set (ms_new_blobs st)" if "m \<in> ran (node_file (mt_node mt))" for m
  proof -
    from that obtain p where "om_get (ms_files st) p = Some m"
      using build_adds(2) [OF n inv] by (auto simp: ran_def)
    then have "(p, m) \<in> set (ms_files st)" by (simp add: om_get_map_of map_of_SomeD)
    then show ?thesis using bf by (auto simp: blobs_from_def)
  qed
  then show ?thesis using bf unfolding mt blobs_from_def by auto
qed

section \<open>Properties\<close>

text \<open>C8: the three-way merge of trees, decided path by path. For well-formed trees whose blobs can be read, a line tokenizer whose
  lines concatenate to the text and a diff library that returns edit scripts,
  \<open>merge_trees\<close> returns (no panic, no fetch error): a well-formed tree that holds at every path the
  verdict on that path, or every conflict of the verdict, once, in ascending path order, or, when
  no path conflicts but the merged files would put a file below a file, one duality conflict.\<close>

theorem merge_trees_decides:
  assumes "tree_ok base" and "tree_ok ours" and "tree_ok theirs" and "env_lawful env"
    and "\<And>m. m \<in> tree_files [base, ours, theirs] \<Longrightarrow> env_reads env (fm_blob m)"
  shows "merge_spec (tree_verdict env base ours theirs) (merge_trees env base ours theirs)"
  using assms by (rule merge_trees_spec)

definition sample_other :: bytes where "sample_other = [121, 10, 98, 10, 99, 10]"

definition sample_env :: merge_env where
  "sample_env = \<lparr>env_blake3 = (\<lambda>x. take 32 (rev x @ replicate 32 0)), env_nfc = (\<lambda>x. x), env_lines = keep_lines,
     env_diff = position_diff 0,
     env_fetch = (\<lambda>i. if i = replicate 32 1 then Inr sample_base else if i = replicate 32 2 then Inr sample_ours
       else if i = replicate 32 3 then Inr sample_theirs
       else if i = replicate 32 4 then Inr sample_other else Inl (ascii ''not found''))\<rparr>"

definition merge_sample :: "byte \<Rightarrow> mem_node" where
  "merge_sample b = [(ascii ''d'', MDir [(ascii ''f'', MFile (replicate 32 b) 6 False)])]"

lemma sample_env_lawful: "env_lawful sample_env"
  by (simp add: env_lawful_def sample_env_def concat_keep_lines position_diff_script)

lemma node_file_sample: "node_file (merge_sample b) p =
    (if p = ascii ''d/f'' then Some \<lparr>fm_blob = replicate 32 b, fm_size = 6, fm_exec = False\<rparr> else None)"
proof -
  have "files_of (merge_sample b) q = (if q = split_on slash (ascii ''d/f'') then Some (replicate 32 b, 6, False) else None)" for q
    by (cases q; cases "tl q"; auto simp: merge_sample_def ascii_def)
  then show ?thesis by (simp add: node_file_def meta_of_def split_on_inj)
qed

lemma merge_sample_ok: "tree_ok (merge_sample b)"
proof -
  have "depth_ok (node_file (merge_sample b))"
    by (auto simp: depth_ok_def dom_def node_file_sample ascii_def)
  moreover have "wf_node (merge_sample b)" "names_node (merge_sample b)"
    by (simp_all add: merge_sample_def wf_node_def wf_mem_MDir om_inv_def name_ok_def ascii_def)
  ultimately show ?thesis by (simp add: tree_ok_def)
qed

lemma sample_reads:
  "m \<in> tree_files [merge_sample 1, merge_sample 2, merge_sample 3] \<Longrightarrow> env_reads sample_env (fm_blob m)"
  by (auto simp: tree_files_def ran_def node_file_sample env_reads_def sample_env_def split: if_splits)

lemmas merge_eval = merge_trees_def merge_trees_mode_def flatten_files_def merge_sample_def child_path_def
  union_paths_def om_collect_def merge_path_def merge_content_def fetch_failure_def fetch_named_def
  empty_state_def put_meta_def put_blob_def add_change_def apply_eval

lemma sample_merged:
  "\<exists>mt. merge_trees sample_env (merge_sample 1) (merge_sample 2) (merge_sample 3) = Inr mt \<and> mt_new_blobs mt \<noteq> []"
  using sample_merge by (simp add: merge_eval sample_env_def)

theorem merge_trees_decides_witness:
  "\<exists>mt. merge_trees sample_env (merge_sample 1) (merge_sample 2) (merge_sample 3) = Inr mt \<and>
     (\<forall>p. tree_verdict sample_env (merge_sample 1) (merge_sample 2) (merge_sample 3) p = Inr (node_file (mt_node mt) p))"
proof -
  have "merge_spec (tree_verdict sample_env (merge_sample 1) (merge_sample 2) (merge_sample 3))
      (merge_trees sample_env (merge_sample 1) (merge_sample 2) (merge_sample 3))"
    by (rule merge_trees_decides [OF merge_sample_ok merge_sample_ok merge_sample_ok sample_env_lawful])
      (erule sample_reads)
  with sample_merged show ?thesis by (auto simp: merge_spec_def)
qed

text \<open>Merging with a side that did not change gives the other side, and merging two equal sides
  gives that side: the same tree, no new blob, no conflict, and no blob is read, in both modes.\<close>

theorem merge_unchanged_side:
  assumes "tree_ok base" and "tree_ok node"
  shows "\<forall>(ours, theirs) \<in> {(base, node), (node, base), (node, node)}.
    merge_trees_mode env on base ours theirs = Inr (\<lparr>mt_node = node, mt_new_blobs = [], mt_input_ids = []\<rparr>, [], [])"
  using assms by (auto intro!: merge_trees_agree simp: tree_verdict_def path_verdict_def verdict_def)

theorem merge_unchanged_side_witness:
  "merge_trees_mode sample_env Record (merge_sample 1) (merge_sample 2) (merge_sample 1) =
     Inr (\<lparr>mt_node = merge_sample 2, mt_new_blobs = [], mt_input_ids = []\<rparr>, [], [])"
  using merge_unchanged_side [OF merge_sample_ok [of 1] merge_sample_ok [of 2], of sample_env Record] by simp

text \<open>C24: the recording merge. When it succeeds on well-formed trees: where the verdict is clean the result holds it; every recorded conflict
  is a conflict of the verdict and has at its path a file whose blob is the marker rendering of its
  representation, within the blob limit; and no conflict is lost: the conflicting paths are
  exactly the recorded and the oversized ones.\<close>

theorem merge_recording_marks:
  assumes "tree_ok base" and "tree_ok ours" and "tree_ok theirs"
    and "merge_trees_recording env base ours theirs = Inr rm"
  shows "wf_node (mt_node (rm_tree rm)) \<and>
    (\<forall>p m. tree_verdict env base ours theirs p = Inr m \<longrightarrow> node_file (mt_node (rm_tree rm)) p = m) \<and>
    (\<forall>c \<in> set (rm_conflicts rm). tree_verdict env base ours theirs (pc_path c) = Inl c \<and>
       marker_at env (node_file (mt_node (rm_tree rm))) c) \<and>
    {p. \<exists>c. tree_verdict env base ours theirs p = Inl c} = pc_path ` set (rm_conflicts rm) \<union> fst ` set (rm_oversized rm)"
  using assms by (rule merge_recording_spec)

lemma sample_conflict:
  "merge_lines keep_lines (position_diff 0) sample_base sample_ours sample_other = Some Merge_Conflict"
  by (simp add: sample_base_def sample_ours_def sample_other_def merge_lines_def Let_def slice_def
      utf8_valid_all_ascii merge_hunks_def hunks_clash_def overlaps_def is_insertion_def hunk_key_def
      same_insertion_def)

text \<open>Which conflicts the recording merge can represent: those whose path passes the grammar and
  whose present entries differ pairwise in blob or mode. The decision table compares the sizes
  too, so two entries that differ only in their declared size are a conflict that is refused even
  when recording.\<close>

theorem recordable_iff:
  "content_rep nfc (conflict_at path b u t reason) \<noteq> None \<longleftrightarrow>
     validate nfc path = Inr () \<and> \<not> (u = None \<and> t = None) \<and>
     distinct (map (\<lambda>m. meta_key (the m)) (filter (\<lambda>m. m \<noteq> None) [b, u, t]))"
  by (cases b; cases u; cases t)
    (auto simp: content_rep_def conflict_at_def Let_def conflict_validate_Ok validate_rep_Ok not_sides_bad rep_shape_def
      side_keys_def meta_key_def MAX_ENTRIES_def)

lemma sample_path_valid: "validate (\<lambda>x. x) [100, slash, 102] = Inr ()"
  by (simp add: rep_eval Let_def)

lemma sample_ids_less: "replicate 32 (2 :: byte) < replicate 32 4"
proof -
  have "replicate (Suc n) (2 :: byte) < replicate (Suc n) 4" for n by simp
  from this [of 31] show ?thesis by (simp del: replicate_Suc)
qed

lemmas marker_eval = marker_bytes_def base_block_def deleted_block_def side_total_def BLOB_LIMIT_def OPENER_def
  BASE_LINE_def DIVIDER_def CLOSER_def push_block_def exec_token_def side_exec_at_def sample_base_def sample_ours_def
  sample_other_def ascii_def

lemma sample_recorded:
  "\<exists>rm. merge_trees_recording sample_env (merge_sample 1) (merge_sample 2) (merge_sample 4) = Inr rm \<and>
     map pc_path (rm_conflicts rm) = [ascii ''d/f'']"
  using sample_conflict
  by (simp add: merge_trees_recording_def merge_eval sample_env_def take_conflict_def content_rep_def conflict_at_def
     conflict_validate_def validate_rep_def sides_bad_def side_keys_def sample_path_valid MAX_ENTRIES_def
     sample_ids_less less_imp_le not_less marker_eval dec_str.simps [of "Suc (Suc 0)"])

theorem merge_recording_marks_witness:
  "\<exists>rm. merge_trees_recording sample_env (merge_sample 1) (merge_sample 2) (merge_sample 4) = Inr rm \<and>
     (\<exists>c. pc_path c = ascii ''d/f'' \<and> marker_at sample_env (node_file (mt_node (rm_tree rm))) c)"
proof -
  obtain rm where rm: "merge_trees_recording sample_env (merge_sample 1) (merge_sample 2) (merge_sample 4) = Inr rm"
    and c: "map pc_path (rm_conflicts rm) = [ascii ''d/f'']" using sample_recorded by (elim exE conjE)
  have "set (map pc_path (rm_conflicts rm)) = {ascii ''d/f''}" unfolding c by simp
  then obtain c where c: "c \<in> set (rm_conflicts rm)" "pc_path c = ascii ''d/f''"
    by (metis imageE list.set_map singletonI)
  note m = merge_recording_marks [OF merge_sample_ok merge_sample_ok merge_sample_ok rm]
  have "marker_at sample_env (node_file (mt_node (rm_tree rm))) c"
    by (rule conjunct2 [OF bspec [OF conjunct1 [OF conjunct2 [OF conjunct2 [OF m]]] c(1)]])
  then show ?thesis using rm c(2) by (intro exI conjI)
qed

text \<open>C35: no dangling blob. When a merge of well-formed trees succeeds, in either mode, every blob of the merged tree is a blob of one of the two sides or is handed
  to the caller with its content; the new blobs are listed once, each under the id of its content.\<close>

theorem merge_blob_provenance:
  assumes "tree_ok ours" and "tree_ok theirs"
    and "merge_trees_mode env on base ours theirs = Inr (mt, recorded, oversized)"
  shows "distinct (map fst (mt_new_blobs mt)) \<and>
    (\<forall>(i, content) \<in> set (mt_new_blobs mt). i = object_id (env_blake3 env) Kind_Blob content) \<and>
    (\<forall>m \<in> ran (node_file (mt_node mt)).
       fm_blob m \<in> fm_blob ` tree_files [ours, theirs] \<union> fst ` set (mt_new_blobs mt))"
  using assms by (rule merge_mode_blobs)

theorem merge_blob_provenance_witness:
  "\<exists>mt. merge_trees_mode sample_env Refuse (merge_sample 1) (merge_sample 2) (merge_sample 3) = Inr (mt, [], []) \<and>
     (\<forall>(i, content) \<in> set (mt_new_blobs mt). i = object_id (env_blake3 sample_env) Kind_Blob content)"
proof -
  obtain mt where mt: "merge_trees_mode sample_env Refuse (merge_sample 1) (merge_sample 2) (merge_sample 3) = Inr (mt, [], [])"
    using sample_merge by (simp add: merge_eval sample_env_def)
  with merge_blob_provenance [OF merge_sample_ok merge_sample_ok mt] show ?thesis by blast
qed

end
