(* ===== verification/Merge_Delta.thy ===== *)
theory Merge_Delta
  imports Merge_Correct
begin

text \<open>
  The delta between two trees (\<open>delta_between\<close>, \<open>crates/naatre-server/src/merge.rs\<close>): when applying
  it to the parent gives the child.
\<close>

section \<open>Applying a delta\<close>

text \<open>The map that holds the child's files at the paths walked so far and the parent's elsewhere.\<close>

definition walked :: "(bytes \<rightharpoonup> file_meta) \<Rightarrow> (bytes \<rightharpoonup> file_meta) \<Rightarrow> bytes set \<Rightarrow> bytes \<rightharpoonup> file_meta" where
  "walked A C done p = (if p \<in> done then C p else A p)"

definition no_flip :: "(bytes \<rightharpoonup> file_meta) \<Rightarrow> (bytes \<rightharpoonup> file_meta) \<Rightarrow> bool" where
  "no_flip A C \<longleftrightarrow> (\<forall>p r. p @ slash # r \<in> dom A \<longrightarrow> p \<notin> dom C)"

definition same_size :: "(bytes \<rightharpoonup> file_meta) \<Rightarrow> (bytes \<rightharpoonup> file_meta) \<Rightarrow> bool" where
  "same_size A C \<longleftrightarrow> (\<forall>p a c. A p = Some a \<longrightarrow> C p = Some c \<longrightarrow> meta_key a = meta_key c \<longrightarrow> a = c)"

lemma abs_change_put:
  assumes "fc_op c \<noteq> Del" and "fc_blob c = Some (fm_blob f)" and "fc_size c = Some (fm_size f)" and "fc_exec c = Some (fm_exec f)"
    and "length (split_on slash (fc_path c)) \<le> 256" and "\<not> file_above m (split_on slash (fc_path c))"
    and "fc_op c = Mod \<Longrightarrow> m (split_on slash (fc_path c)) \<noteq> None"
  shows "abs_change m c = Inr (put_file (split_on slash (fc_path c)) (tuple_of f) m)"
  using assms by (cases "fc_op c") (auto simp: abs_change_def tuple_of_def Let_def)

lemma represents_del:
  "represents m F \<Longrightarrow> represents (m(split_on slash p := None)) (F(p := None))"
  by (auto simp: represents_def split_on_inj split: if_splits)

lemma walked_insert: "walked A C (insert p done) = (walked A C done)(p := C p)"
  by (auto simp: walked_def)

lemma step_delta:
  assumes rep: "represents m (walked A C done)" and below: "\<And>r. p @ slash # r \<notin> done"
    and above: "\<And>q r. p = q @ slash # r \<Longrightarrow> q \<in> dom A \<union> dom C \<Longrightarrow> q \<in> done" and new: "p \<notin> done"
    and laws: "dual_free A" "dual_free C" "depth_ok C" "no_flip A C" "same_size A C" "depth_ok A"
  shows "\<exists>m'. abs_apply m (delta_at p (A p) (C p)) = Inr m' \<and> represents m' (walked A C (insert p done))"
proof -
  have put: "\<exists>m'. abs_change m c = Inr m' \<and> represents m' (walked A C (insert p done))"
    if c: "fc_path c = p" "fc_op c \<noteq> Del" "fc_blob c = Some (fm_blob f)" "fc_size c = Some (fm_size f)" "fc_exec c = Some (fm_exec f)"
      and f: "C p = Some f" and old: "fc_op c = Mod \<Longrightarrow> A p \<noteq> None" for c f
  proof -
    have "\<not> file_above m (split_on slash p)"
    proof
      assume "file_above m (split_on slash p)"
      then obtain q r where q: "p = q @ slash # r" "q \<in> dom (walked A C done)" using represents_above [OF rep] by blast
      have "q \<in> dom A \<union> dom C" using q(2) by (auto simp: walked_def split: if_splits)
      then have "q \<in> dom C" using q(2) above [OF q(1)] by (auto simp: walked_def)
      then show False using laws(2) q(1) f unfolding dual_free_def by blast
    qed
    moreover have "length (split_on slash p) \<le> 256" using laws(3) f by (auto simp: depth_ok_def)
    moreover have "m (split_on slash p) \<noteq> None" if "fc_op c = Mod"
      using rep old [OF that] new by (simp add: represents_def walked_def)
    ultimately have "abs_change m c = Inr (put_file (split_on slash p) (tuple_of f) m)"
      using abs_change_put [of c f m] c by simp
    moreover have "p @ slash # r \<notin> dom (walked A C done)" for r
      using laws(4) below [of r] f unfolding no_flip_def walked_def by (metis (mono_tags, lifting) domI domIff)
    ultimately show ?thesis using represents_put [OF rep, of p f] f by (simp add: walked_insert)
  qed
  show ?thesis
  proof (cases "C p")
    case None
    show ?thesis
    proof (cases "A p")
      case None
      then have "walked A C (insert p done) = walked A C done" using \<open>C p = None\<close> new by (auto simp: walked_def)
      then show ?thesis using rep None \<open>C p = None\<close> by (simp add: delta_at_def)
    next
      case (Some a)
      then have "m (split_on slash p) \<noteq> None" using rep new by (simp add: represents_def walked_def)
      moreover have "length (split_on slash p) \<le> 256" using laws(6) Some by (auto simp: depth_ok_def)
      ultimately show ?thesis using represents_del [OF rep, of p] Some None
        by (simp add: delta_at_def abs_change_def walked_insert Let_def)
    qed
  next
    case (Some f)
    show ?thesis
    proof (cases "A p")
      case None
      then have "\<exists>m'. abs_change m (\<lparr>fc_path = p, fc_op = Add, fc_blob = Some (fm_blob f), fc_size = Some (fm_size f),
          fc_exec = Some (fm_exec f)\<rparr>) = Inr m' \<and> represents m' (walked A C (insert p done))"
        by (intro put [OF _ _ _ _ _ Some]) simp_all
      then show ?thesis using None by (auto simp: delta_at_def Some)
    next
      case (Some a)
      show ?thesis
      proof (cases "meta_key a = meta_key f")
        case True
        then have "A p = C p" using laws(5) Some \<open>C p = Some f\<close> unfolding same_size_def by metis
        then have "walked A C (insert p done) = walked A C done" by (auto simp: walked_def)
        then show ?thesis using rep True Some \<open>C p = Some f\<close> by (simp add: delta_at_def)
      next
        case False
        have "\<exists>m'. abs_change m (\<lparr>fc_path = p, fc_op = Mod, fc_blob = Some (fm_blob f), fc_size = Some (fm_size f),
            fc_exec = Some (fm_exec f)\<rparr>) = Inr m' \<and> represents m' (walked A C (insert p done))"
          using Some by (intro put [OF _ _ _ _ _ \<open>C p = Some f\<close>]) simp_all
        then show ?thesis using False Some by (auto simp: delta_at_def \<open>C p = Some f\<close>)
      qed
    qed
  qed
qed

lemma abs_apply_append: "abs_apply m (xs @ ys) = rbind (abs_apply m xs) (\<lambda>m. abs_apply m ys)"
  by (induction xs arbitrary: m) (auto simp: rbind_def split: sum.splits)

lemma walk_delta:
  assumes "represents m (walked A C done)" and "sorted_wrt (<) ps" and "done \<inter> set ps = {}"
    and "dom A \<union> dom C = done \<union> set ps" and "\<forall>d \<in> done. \<forall>p \<in> set ps. d < p"
    and laws: "dual_free A" "dual_free C" "depth_ok C" "no_flip A C" "same_size A C" "depth_ok A"
  shows "\<exists>m'. abs_apply m (concat (map (\<lambda>p. delta_at p (A p) (C p)) ps)) = Inr m' \<and> represents m' C"
  using assms(1-5)
proof (induction ps arbitrary: m "done")
  case Nil
  then have "walked A C done = C" by (auto simp: walked_def fun_eq_iff domIff)
  with Nil show ?case by simp
next
  case (Cons p ps)
  have "\<exists>m'. abs_apply m (delta_at p (A p) (C p)) = Inr m' \<and> represents m' (walked A C (insert p done))"
  proof (rule step_delta [OF Cons.prems(1) _ _ _ laws])
    show "p \<notin> done" using Cons.prems(3) by auto
    show "p @ slash # r \<notin> done" for r
    proof
      assume "p @ slash # r \<in> done"
      then have "p @ slash # r < p" using Cons.prems(5) by simp
      then show False using less_append [of p slash r] by (meson order_less_asym)
    qed
    show "q \<in> done" if q: "p = q @ slash # r" "q \<in> dom A \<union> dom C" for q r
    proof (rule ccontr)
      assume "q \<notin> done"
      then have "q \<in> set (p # ps)" using q(2) Cons.prems(4) by auto
      moreover have "q < p" using less_append [of q slash r] q(1) by simp
      ultimately show False using Cons.prems(2) by (auto dest: order_less_asym)
    qed
  qed
  then obtain m' where m': "abs_apply m (delta_at p (A p) (C p)) = Inr m'" "represents m' (walked A C (insert p done))" by blast
  have "\<exists>m''. abs_apply m' (concat (map (\<lambda>p. delta_at p (A p) (C p)) ps)) = Inr m'' \<and> represents m'' C"
    by (rule Cons.IH [OF m'(2)]) (use Cons.prems in auto)
  then show ?case by (simp add: abs_apply_append m'(1))
qed

lemma represents_unique: "represents m F \<Longrightarrow> represents m' F \<Longrightarrow> m = m'"
proof
  fix q assume r: "represents m F" "represents m' F"
  show "m q = m' q"
  proof (cases "q \<in> range (split_on slash)")
    case True
    then show ?thesis using r unfolding represents_def by force
  next
    case False
    then have "m q = None" "m' q = None" using r unfolding represents_def by blast+
    then show ?thesis by simp
  qed
qed

lemma delta_between_applies:
  assumes "tree_ok parent" and "tree_ok child"
    and "no_flip (node_file parent) (node_file child)" and "same_size (node_file parent) (node_file child)"
  shows "apply_changes parent (delta_between parent child) = Inr child"
proof -
  let ?A = "node_file parent" and ?C = "node_file child"
  let ?ps = "union_paths [flatten_files parent, flatten_files child]"
  have delta: "delta_between parent child = concat (map (\<lambda>p. delta_at p (?A p) (?C p)) ?ps)"
    by (simp add: delta_between_def Let_def flatten_ok assms(1,2))
  have ok: "wf_node parent" "names_node parent" "wf_node child" "names_node child" "depth_ok ?C" "depth_ok ?A"
    using assms(1,2) by (auto simp: tree_ok_def)
  have "represents (files_of parent) (walked ?A ?C {})"
    using represents_files_of [OF ok(2,1)] by (simp add: walked_def [abs_def])
  moreover have "dom ?A \<union> dom ?C = {} \<union> set ?ps"
    using union_paths_trees [of "[parent, child]"] assms(1,2) by simp
  ultimately obtain m' where m': "abs_apply (files_of parent) (delta_between parent child) = Inr m'" "represents m' ?C"
    using walk_delta [OF _ union_paths_sorted [of "[flatten_files parent, flatten_files child]"] _ _ _ dual_free_node dual_free_node ok(5) assms(3,4) ok(6)]
    unfolding delta by force
  have "m' = files_of child" using represents_unique [OF m'(2) represents_files_of [OF ok(4,3)]] .
  then have "abs_result (apply_changes parent (delta_between parent child)) = Inr (files_of child)"
    using abs_result_changes [OF ok(1)] m'(1) by simp
  then obtain node where n: "apply_changes parent (delta_between parent child) = Inr node" "files_of node = files_of child"
    by (cases "apply_changes parent (delta_between parent child)") auto
  then show ?thesis using files_determine_node [OF apply_changes_wf [OF ok(1) n(1)] ok(3)] by simp
qed

lemma delta_at_paths: "map fc_path (delta_at p a c) = (if delta_at p a c = [] then [] else [p])"
  by (auto simp: delta_at_def split: option.splits)

lemma delta_between_sorted: "sorted_wrt (<) (map fc_path (delta_between parent child))"
proof -
  have "\<exists>P. map fc_path (concat (map (\<lambda>p. delta_at p (A p) (C p)) ps)) = filter P ps"
    for A C :: "bytes \<Rightarrow> file_meta option" and ps
  proof (intro exI)
    show "map fc_path (concat (map (\<lambda>p. delta_at p (A p) (C p)) ps)) = filter (\<lambda>p. delta_at p (A p) (C p) \<noteq> []) ps"
      by (induction ps) (simp_all add: delta_at_paths)
  qed
  then show ?thesis unfolding delta_between_def Let_def
    using sorted_wrt_filter [OF union_paths_sorted] by metis
qed

text \<open>The delta between two trees leads from the one to the other, and its paths ascend strictly as
  the changeset format requires, provided that no directory of the parent becomes a file and that
  a file's size changes only with its blob or mode.\<close>

theorem delta_round_trip:
  assumes "tree_ok parent" and "tree_ok child"
    and "no_flip (node_file parent) (node_file child)" and "same_size (node_file parent) (node_file child)"
  shows "apply_changes parent (delta_between parent child) = Inr child \<and>
    sorted_wrt (<) (map fc_path (delta_between parent child))"
  using delta_between_applies [OF assms] delta_between_sorted by blast

theorem delta_round_trip_witness:
  "apply_changes (merge_sample 1) (delta_between (merge_sample 1) (merge_sample 2)) = Inr (merge_sample 2) \<and>
   map fc_op (delta_between (merge_sample 1) (merge_sample 2)) = [Mod]"
proof
  have "no_flip (node_file (merge_sample 1)) (node_file (merge_sample 2))"
    by (auto simp: no_flip_def dom_def node_file_sample ascii_def split: if_splits)
  moreover have "same_size (node_file (merge_sample 1)) (node_file (merge_sample 2))"
    by (auto simp: same_size_def node_file_sample meta_key_def split: if_splits)
  ultimately show "apply_changes (merge_sample 1) (delta_between (merge_sample 1) (merge_sample 2)) = Inr (merge_sample 2)"
    using delta_round_trip [OF merge_sample_ok merge_sample_ok] by blast
  show "map fc_op (delta_between (merge_sample 1) (merge_sample 2)) = [Mod]"
    by (simp add: delta_between_def merge_eval delta_at_def meta_key_def)
qed

text \<open>Where a directory of the parent becomes a file, the delta is not applicable: the \<^emph>\<open>add\<close> of the
  file sorts first and drops the directory, and the \<^emph>\<open>del\<close> of the file below it is then refused.\<close>

theorem delta_flip_rejected:
  "map fc_op (delta_between [(ascii ''d'', MDir [(ascii ''f'', MFile b s e)])] [(ascii ''d'', MFile b s e)]) = [Add, Del] \<and>
   apply_changes [(ascii ''d'', MDir [(ascii ''f'', MFile b s e)])]
     (delta_between [(ascii ''d'', MDir [(ascii ''f'', MFile b s e)])] [(ascii ''d'', MFile b s e)]) =
     Inl (DelNotFile (ascii ''d/f''))"
  by (simp add: delta_between_def merge_eval delta_at_def meta_key_def)

end
