(* ===== verification/Repo_Db.thy ===== *)
theory Repo_Db
  imports Tree_Store
begin

text \<open>
  The tables of one database (\<open>crates/naatre-store/src/migrate.rs\<close>) and the statements on them that the
  derivation queue and the land algorithm use (\<open>crates/naatre-server/src/db.rs\<close>). The record extends
  \<open>tree_db\<close>. A table is modelled by what its primary key determines: an ordered map from the key to the other
  columns, or a list in \<open>rowid\<close> order where a query asks for that order. A violated uniqueness constraint is the error \<open>Constraint\<close>; other failures of the
  database are not modelled.

  An \<open>i64\<close> is an integer; the casts between \<open>u64\<close> and \<open>i64\<close> keep the 64 bits. The JSON text of a
  details column is written by \<open>serde_json\<close>, the parameter \<open>print\<close>.
\<close>

section \<open>Values\<close>

type_synonym i64 = int

definition as_i64 :: "u64 \<Rightarrow> i64" where "as_i64 w = sint w"

definition as_u64 :: "i64 \<Rightarrow> u64" where "as_u64 i = word_of_int i"

text \<open>\<open>a + b\<close> on \<open>i64\<close> in a release build.\<close>

definition i64_add :: "i64 \<Rightarrow> i64 \<Rightarrow> i64" where "i64_add a b = as_i64 (as_u64 (a + b))"

datatype json = JNull | JBool bool | JNum int | JStr bytes | JArr "json list" | JObj "(bytes \<times> json) list"

datatype db_error = Constraint

section \<open>Rows\<close>

record changeset_row =
  cr_rowid :: nat
  cr_repo :: i64
  cr_id :: oid
  cr_canonical :: bytes
  cr_author :: bytes
  cr_message :: bytes
  cr_timestamp :: i64
  cr_generation :: i64
  cr_principal :: bytes
  cr_root_tree :: "bytes option"

record change_row =
  ch_op :: int
  ch_blob :: "bytes option"
  ch_size :: "i64 option"
  ch_exec :: bool

record ref_row =
  rf_target :: "bytes option"
  rf_version :: i64
  rf_last_principal :: "bytes option"

record land_row =
  la_state :: bytes
  la_head :: "bytes option"
  la_base :: "bytes option"
  la_result :: "bytes option"

record redaction_row =
  rd_kind :: bytes
  rd_path :: "bytes option"
  rd_marked :: i64
  rd_purged :: "i64 option"

record object_row =
  ob_size :: i64
  ob_csize :: i64
  ob_touched :: i64

datatype gc_scope = Gc_Cs | Gc_Blob | Gc_Tree

text \<open>The order of the texts \<open>blob\<close>, \<open>cs\<close>, \<open>tree\<close> in the primary key.\<close>

primrec gc_scope_rank :: "gc_scope \<Rightarrow> nat" where
  "gc_scope_rank Gc_Blob = 0"
| "gc_scope_rank Gc_Cs = 1"
| "gc_scope_rank Gc_Tree = 2"

instantiation gc_scope :: linorder
begin

definition less_eq_gc_scope :: "gc_scope \<Rightarrow> gc_scope \<Rightarrow> bool" where
  "less_eq_gc_scope a b \<longleftrightarrow> gc_scope_rank a \<le> gc_scope_rank b"

definition less_gc_scope :: "gc_scope \<Rightarrow> gc_scope \<Rightarrow> bool" where
  "less_gc_scope a b \<longleftrightarrow> gc_scope_rank a < gc_scope_rank b"

instance
proof
  show "a = b" if "a \<le> b" "b \<le> a" for a b :: gc_scope
    using that by (cases a; cases b) (simp_all add: less_eq_gc_scope_def)
qed (auto simp: less_eq_gc_scope_def less_gc_scope_def)

end

record gc_row =
  gc_first :: i64
  gc_condemned :: "i64 option"

record audit_row =
  au_ts :: i64
  au_principal :: bytes
  au_action :: bytes
  au_details :: bytes

datatype derive_st = Ds_Pending | Ds_Deriving | Ds_Done | Ds_Poison

record derive_row =
  dr_kind :: i64
  dr_repo :: i64
  dr_cs :: oid
  dr_state :: derive_st
  dr_lease :: "i64 option"
  dr_attempts :: i64
  dr_output :: "bytes option"
  dr_tainted :: bool
  dr_poison_cs :: "oid option"

text \<open>The reason text of a report, one constructor for each format string.\<close>

datatype derive_reason =
    Reason_Fail bytes
  | Reason_Walk_Budget u64
  | Reason_Size_Cap nat
  | Reason_Walk_Deadline u64 u64
  | Reason_Lease_Expired

record report_row =
  rp_kind :: i64
  rp_repo :: i64
  rp_cs :: oid
  rp_reason :: derive_reason
  rp_ts :: i64

record repo_row =
  rr_name :: bytes
  rr_created :: i64

record snapshot_row =
  sn_repo :: i64
  sn_tree :: oid
  sn_principal :: bytes
  sn_created :: i64
  sn_expires :: i64

record blame_row =
  bl_blob :: "bytes option"
  bl_parent_blob :: "bytes option"

record principal_row =
  pr_role :: bytes
  pr_created :: i64

record token_row =
  tk_id :: i64
  tk_principal :: bytes
  tk_hash :: bytes
  tk_expires :: "i64 option"
  tk_revoked :: bool
  tk_scope :: "bytes option"

record access_row =
  ac_read :: bool
  ac_write :: bool

record repo_db = tree_db +
  db_changesets :: "changeset_row list"
  db_parents :: "(i64 \<times> oid \<times> nat, oid) omap"
  db_file_changes :: "(i64 \<times> oid \<times> bytes, change_row) omap"
  db_repo_blobs :: "(i64 \<times> oid) set"
  db_git_map :: "(i64 \<times> bytes, oid) omap"
  db_refs :: "(i64 \<times> bytes, ref_row) omap"
  db_lands :: "(i64 \<times> bytes \<times> bytes, land_row) omap"
  db_redactions :: "(i64 \<times> oid, redaction_row) omap"
  db_objects :: "(oid, object_row) omap"
  db_gc_pending :: "(gc_scope \<times> oid, gc_row) omap"
  db_snapshots :: "(bytes, snapshot_row) omap"
  db_blame :: "(i64 \<times> oid \<times> bytes, blame_row) omap"
  db_path_history :: "(i64 \<times> bytes \<times> i64 \<times> oid, int) omap"
  db_repos :: "(i64, repo_row) omap"
  db_principals :: "(bytes, principal_row) omap"
  db_tokens :: "token_row list"
  db_access :: "(i64 \<times> bytes, access_row) omap"
  db_kinds :: "(i64, bytes) omap"
  db_meta :: "(bytes, bytes) omap"
  db_audit :: "audit_row list"
  db_derive :: "derive_row list"
  db_reports :: "report_row list"

section \<open>Changesets\<close>

definition is_changeset :: "i64 \<Rightarrow> oid \<Rightarrow> changeset_row \<Rightarrow> bool" where
  "is_changeset repo i r \<longleftrightarrow> cr_repo r = repo \<and> cr_id r = i"

definition changeset_get :: "'a repo_db_scheme \<Rightarrow> i64 \<Rightarrow> oid \<Rightarrow> changeset_row option" where
  "changeset_get db repo i = find (is_changeset repo i) (db_changesets db)"

definition changeset_exists :: "'a repo_db_scheme \<Rightarrow> oid \<Rightarrow> bool" where
  "changeset_exists db i = list_ex (\<lambda>r. cr_id r = i) (db_changesets db)"

record cs_graph =
  cg_generation :: i64
  cg_parents :: "oid list"
  cg_root_tree :: "bytes option"

text \<open>The rows of \<open>changeset_parents\<close> with a repository and a changeset, in \<open>ord\<close> order.\<close>

definition parents_of :: "'a repo_db_scheme \<Rightarrow> i64 \<Rightarrow> oid \<Rightarrow> oid list" where
  "parents_of db repo i = map snd (filter (\<lambda>((r, c, _), _). r = repo \<and> c = i) (db_parents db))"

definition changeset_graph :: "'a repo_db_scheme \<Rightarrow> i64 \<Rightarrow> oid \<Rightarrow> cs_graph option" where
  "changeset_graph db repo i =
     map_option (\<lambda>r. \<lparr>cg_generation = cr_generation r, cg_parents = parents_of db repo i,
                      cg_root_tree = cr_root_tree r\<rparr>)
       (changeset_get db repo i)"

definition file_changes_list :: "'a repo_db_scheme \<Rightarrow> i64 \<Rightarrow> oid \<Rightarrow> (bytes \<times> change_row) list" where
  "file_changes_list db repo i =
     map (\<lambda>((_, _, p), c). (p, c)) (filter (\<lambda>((r, c, _), _). r = repo \<and> c = i) (db_file_changes db))"

definition audit_append ::
    "i64 \<Rightarrow> bytes \<Rightarrow> bytes \<Rightarrow> bytes \<Rightarrow> 'a repo_db_scheme \<Rightarrow> 'a repo_db_scheme" where
  "audit_append ts who action details db =
     db\<lparr>db_audit := db_audit db @
          [\<lparr>au_ts = ts, au_principal = who, au_action = action, au_details = details\<rparr>]\<rparr>"

definition db_op_tag :: "op \<Rightarrow> int" where
  "db_op_tag x = (case x of Add \<Rightarrow> 0 | Mod \<Rightarrow> 1 | Del \<Rightarrow> 2)"

record changeset_insert =
  ci_repo :: i64
  ci_repo_name :: bytes
  ci_id :: oid
  ci_canonical :: bytes
  ci_author :: bytes
  ci_message :: bytes
  ci_timestamp :: i64
  ci_generation :: i64
  ci_principal :: bytes
  ci_root_tree :: oid
  ci_parents :: "oid list"
  ci_changes :: "file_change list"
  ci_blobs :: "oid list"
  ci_trees :: "tree_write list"
  ci_now :: i64

record changeset_extras =
  ce_via :: "bytes option"
  ce_git_oid :: "bytes option"

definition no_extras :: changeset_extras where
  "no_extras = \<lparr>ce_via = None, ce_git_oid = None\<rparr>"

text \<open>An \<open>INSERT\<close> into a table with a primary key.\<close>

definition insert_unique :: "'k::linorder \<Rightarrow> 'v \<Rightarrow> ('k, 'v) omap \<Rightarrow> db_error + ('k, 'v) omap" where
  "insert_unique k v m = (if om_get m k = None then Inr (om_insert k v m) else Inl Constraint)"

fun insert_parents ::
    "i64 \<Rightarrow> oid \<Rightarrow> nat \<Rightarrow> oid list \<Rightarrow> (i64 \<times> oid \<times> nat, oid) omap \<Rightarrow> db_error + (i64 \<times> oid \<times> nat, oid) omap" where
  "insert_parents repo i ord [] m = Inr m"
| "insert_parents repo i ord (p # ps) m =
     rbind (insert_unique (repo, i, ord) p m) (\<lambda>m. insert_parents repo i (ord + 1) ps m)"

definition change_row_of :: "file_change \<Rightarrow> change_row" where
  "change_row_of c =
     (let (blob, sz) =
        (case fc_op c of
           Del \<Rightarrow> (None, None)
         | _ \<Rightarrow> (case (fc_blob c, fc_size c) of
                  (Some b, Some s) \<Rightarrow> (Some b, Some (as_i64 s))
                | _ \<Rightarrow> (None, None)))
      in \<lparr>ch_op = db_op_tag (fc_op c), ch_blob = blob, ch_size = sz,
          ch_exec = ((fc_op c = Add \<or> fc_op c = Mod) \<and> fc_exec c = Some True)\<rparr>)"

fun insert_file_changes ::
    "i64 \<Rightarrow> oid \<Rightarrow> file_change list \<Rightarrow> (i64 \<times> oid \<times> bytes, change_row) omap \<Rightarrow>
     db_error + (i64 \<times> oid \<times> bytes, change_row) omap" where
  "insert_file_changes repo i [] m = Inr m"
| "insert_file_changes repo i (c # cs) m =
     rbind (insert_unique (repo, i, fc_path c) (change_row_of c) m) (\<lambda>m. insert_file_changes repo i cs m)"

definition next_rowid :: "changeset_row list \<Rightarrow> nat" where
  "next_rowid rows = fold (\<lambda>r m. max m (cr_rowid r)) rows 0 + 1"

definition put_git_map ::
    "bytes option \<Rightarrow> i64 \<Rightarrow> oid \<Rightarrow> (i64 \<times> bytes, oid) omap \<Rightarrow> db_error + (i64 \<times> bytes, oid) omap" where
  "put_git_map git repo i m =
     (case git of
        None \<Rightarrow> Inr m
      | Some g \<Rightarrow> insert_unique (repo, g) i m)"

definition create_details :: "changeset_insert \<Rightarrow> changeset_extras \<Rightarrow> json" where
  "create_details rec extras =
     JObj ([(ascii ''repo'', JStr (ci_repo_name rec)), (ascii ''changeset'', JStr (to_hex (ci_id rec))),
            (ascii ''generation'', JNum (ci_generation rec))] @
           (case ce_via extras of None \<Rightarrow> [] | Some via \<Rightarrow> [(ascii ''via'', JStr via)]))"

definition changeset_insert_rows ::
    "(json \<Rightarrow> bytes) \<Rightarrow> changeset_insert \<Rightarrow> changeset_extras \<Rightarrow> 'a repo_db_scheme \<Rightarrow>
     db_error + 'a repo_db_scheme" where
  "changeset_insert_rows print rec extras db =
     (if changeset_exists db (ci_id rec) then Inl Constraint
      else
        let row = \<lparr>cr_rowid = next_rowid (db_changesets db), cr_repo = ci_repo rec, cr_id = ci_id rec,
                   cr_canonical = ci_canonical rec, cr_author = ci_author rec, cr_message = ci_message rec,
                   cr_timestamp = ci_timestamp rec, cr_generation = ci_generation rec,
                   cr_principal = ci_principal rec, cr_root_tree = Some (ci_root_tree rec)\<rparr> in
        rbind (insert_parents (ci_repo rec) (ci_id rec) 0 (ci_parents rec) (db_parents db)) (\<lambda>parents.
        rbind (insert_file_changes (ci_repo rec) (ci_id rec) (ci_changes rec) (db_file_changes db)) (\<lambda>changes.
        rbind (put_git_map (ce_git_oid extras) (ci_repo rec) (ci_id rec) (db_git_map db)) (\<lambda>git.
          let db = db\<lparr>db_changesets := db_changesets db @ [row], db_parents := parents,
                       db_file_changes := changes,
                       db_repo_blobs := db_repo_blobs db \<union> (\<lambda>b. (ci_repo rec, b)) ` set (ci_blobs rec),
                       db_git_map := git\<rparr>;
              db = trees_write (ci_repo rec) (ci_trees rec) db
          in Inr (audit_append (ci_now rec) (ci_principal rec) (ascii ''changeset_create'')
                    (print (create_details rec extras)) db)))))"

section \<open>Refs, lands, redactions, objects\<close>

definition ref_get :: "'a repo_db_scheme \<Rightarrow> i64 \<Rightarrow> bytes \<Rightarrow> ref_row option" where
  "ref_get db repo name = om_get (db_refs db) (repo, name)"

definition land_get :: "'a repo_db_scheme \<Rightarrow> i64 \<Rightarrow> bytes \<Rightarrow> bytes \<Rightarrow> land_row option" where
  "land_get db repo who key = om_get (db_lands db) (repo, who, key)"

definition land_insert_pending ::
    "i64 \<Rightarrow> bytes \<Rightarrow> bytes \<Rightarrow> oid \<Rightarrow> 'a repo_db_scheme \<Rightarrow> db_error + 'a repo_db_scheme" where
  "land_insert_pending repo who key head db =
     rbind (insert_unique (repo, who, key)
              \<lparr>la_state = ascii ''pending'', la_head = Some head, la_base = None, la_result = None\<rparr> (db_lands db))
       (\<lambda>lands. Inr (db\<lparr>db_lands := lands\<rparr>))"

definition land_settle ::
    "i64 \<Rightarrow> bytes \<Rightarrow> bytes \<Rightarrow> oid \<Rightarrow> oid \<Rightarrow> bytes \<Rightarrow> bytes \<Rightarrow> 'a repo_db_scheme \<Rightarrow> 'a repo_db_scheme" where
  "land_settle repo who key head base st result db =
     db\<lparr>db_lands := om_insert (repo, who, key)
          \<lparr>la_state = st, la_head = Some head, la_base = Some base, la_result = Some result\<rparr> (db_lands db)\<rparr>"

text \<open>The number of rows the compare-and-swap moved, and the tables after it.\<close>

definition main_cas_move ::
    "i64 \<Rightarrow> oid \<Rightarrow> oid \<Rightarrow> bytes \<Rightarrow> 'a repo_db_scheme \<Rightarrow> nat \<times> 'a repo_db_scheme" where
  "main_cas_move repo expected target who db =
     (case om_get (db_refs db) (repo, ascii ''main'') of
        None \<Rightarrow> (0, db)
      | Some r \<Rightarrow>
          if rf_target r = Some expected then
            (1, db\<lparr>db_refs := om_insert (repo, ascii ''main'')
                    \<lparr>rf_target = Some target, rf_version = i64_add (rf_version r) 1,
                     rf_last_principal = Some who\<rparr> (db_refs db)\<rparr>)
          else (0, db))"

definition redaction_active :: "'a repo_db_scheme \<Rightarrow> i64 \<Rightarrow> oid \<Rightarrow> bool" where
  "redaction_active db repo i \<longleftrightarrow> om_get (db_redactions db) (repo, i) \<noteq> None"

text \<open>Each chunk's query returns the ids of the chunk that have a row.\<close>

definition redactions_active_among :: "'a repo_db_scheme \<Rightarrow> i64 \<Rightarrow> oid list \<Rightarrow> oid list" where
  "redactions_active_among db repo ids = filter (redaction_active db repo) ids"

definition object_row_upsert ::
    "oid \<Rightarrow> i64 \<Rightarrow> i64 \<Rightarrow> i64 \<Rightarrow> 'a repo_db_scheme \<Rightarrow> bool \<times> 'a repo_db_scheme" where
  "object_row_upsert i sz csz touched db =
     (let existed = om_get (db_objects db) i \<noteq> None;
          db = db\<lparr>db_objects := om_insert i \<lparr>ob_size = sz, ob_csize = csz, ob_touched = touched\<rparr> (db_objects db)\<rparr>;
          db = (case om_get (db_gc_pending db) (Gc_Blob, i) of
                  None \<Rightarrow> db
                | Some g \<Rightarrow> db\<lparr>db_gc_pending := om_insert (Gc_Blob, i) (g\<lparr>gc_condemned := None\<rparr>) (db_gc_pending db)\<rparr>)
      in (existed, db))"

section \<open>The derivation queue\<close>

definition is_node :: "i64 \<Rightarrow> i64 \<Rightarrow> oid \<Rightarrow> derive_row \<Rightarrow> bool" where
  "is_node kind repo cs r \<longleftrightarrow> dr_kind r = kind \<and> dr_repo r = repo \<and> dr_cs r = cs"

definition derive_get :: "'a repo_db_scheme \<Rightarrow> i64 \<Rightarrow> i64 \<Rightarrow> oid \<Rightarrow> derive_row option" where
  "derive_get db kind repo cs = find (is_node kind repo cs) (db_derive db)"

definition new_row :: "i64 \<Rightarrow> i64 \<Rightarrow> oid \<Rightarrow> derive_st \<Rightarrow> i64 \<Rightarrow> derive_row" where
  "new_row kind repo cs st attempts =
     \<lparr>dr_kind = kind, dr_repo = repo, dr_cs = cs, dr_state = st, dr_lease = None, dr_attempts = attempts,
      dr_output = None, dr_tainted = False, dr_poison_cs = None\<rparr>"

text \<open>An \<open>UPDATE\<close> of the rows of one node that satisfy a condition; the number of rows is 1 or 0.\<close>

definition update_node ::
    "i64 \<Rightarrow> i64 \<Rightarrow> oid \<Rightarrow> (derive_row \<Rightarrow> bool) \<Rightarrow> (derive_row \<Rightarrow> derive_row) \<Rightarrow> 'a repo_db_scheme \<Rightarrow>
     bool \<times> 'a repo_db_scheme" where
  "update_node kind repo cs P f db =
     (list_ex (\<lambda>r. is_node kind repo cs r \<and> P r) (db_derive db),
      db\<lparr>db_derive := map (\<lambda>r. if is_node kind repo cs r \<and> P r then f r else r) (db_derive db)\<rparr>)"

definition derive_enqueue_pending :: "i64 \<Rightarrow> i64 \<Rightarrow> oid \<Rightarrow> 'a repo_db_scheme \<Rightarrow> 'a repo_db_scheme" where
  "derive_enqueue_pending kind repo cs db =
     (if derive_get db kind repo cs \<noteq> None then db
      else db\<lparr>db_derive := db_derive db @ [new_row kind repo cs Ds_Pending 0]\<rparr>)"

definition derive_state_insert_done ::
    "i64 \<Rightarrow> i64 \<Rightarrow> oid \<Rightarrow> bytes \<Rightarrow> bool \<Rightarrow> oid option \<Rightarrow> 'a repo_db_scheme \<Rightarrow> db_error + 'a repo_db_scheme" where
  "derive_state_insert_done kind repo cs out tainted poison_cs db =
     (if derive_get db kind repo cs \<noteq> None then Inl Constraint
      else Inr (db\<lparr>db_derive := db_derive db @
             [(new_row kind repo cs Ds_Done 0)\<lparr>dr_output := Some out, dr_tainted := tainted,
                dr_poison_cs := poison_cs\<rparr>]\<rparr>))"

definition unfinished :: "derive_st \<Rightarrow> bool" where
  "unfinished s \<longleftrightarrow> s = Ds_Pending \<or> s = Ds_Deriving"

definition blocked :: "'a repo_db_scheme \<Rightarrow> derive_row \<Rightarrow> bool" where
  "blocked db s \<longleftrightarrow>
     list_ex (\<lambda>p. list_ex (\<lambda>d. is_node (dr_kind s) (dr_repo s) p d \<and> unfinished (dr_state d)) (db_derive db))
       (parents_of db (dr_repo s) (dr_cs s))"

definition derive_pick_next :: "'a repo_db_scheme \<Rightarrow> i64 \<Rightarrow> (i64 \<times> oid) option" where
  "derive_pick_next db kind =
     map_option (\<lambda>r. (dr_repo r, dr_cs r))
       (find (\<lambda>s. dr_kind s = kind \<and> dr_state s = Ds_Pending \<and> \<not> blocked db s) (db_derive db))"

definition derive_lease ::
    "i64 \<Rightarrow> i64 \<Rightarrow> oid \<Rightarrow> i64 \<Rightarrow> 'a repo_db_scheme \<Rightarrow> bool \<times> 'a repo_db_scheme" where
  "derive_lease kind repo cs expires db =
     update_node kind repo cs (\<lambda>r. dr_state r = Ds_Pending)
       (\<lambda>r. r\<lparr>dr_state := Ds_Deriving, dr_lease := Some expires\<rparr>) db"

definition derive_release_lease ::
    "i64 \<Rightarrow> i64 \<Rightarrow> oid \<Rightarrow> i64 \<Rightarrow> 'a repo_db_scheme \<Rightarrow> bool \<times> 'a repo_db_scheme" where
  "derive_release_lease kind repo cs expires db =
     update_node kind repo cs (\<lambda>r. dr_state r = Ds_Deriving \<and> dr_lease r = Some expires)
       (\<lambda>r. r\<lparr>dr_state := Ds_Pending, dr_lease := None\<rparr>) db"

definition derive_record_done ::
    "i64 \<Rightarrow> i64 \<Rightarrow> oid \<Rightarrow> bytes \<Rightarrow> bool \<Rightarrow> oid option \<Rightarrow> 'a repo_db_scheme \<Rightarrow> bool \<times> 'a repo_db_scheme" where
  "derive_record_done kind repo cs out tainted poison_cs db =
     (if \<not> changeset_exists db cs then (False, db)
      else update_node kind repo cs (\<lambda>r. dr_state r = Ds_Deriving)
        (\<lambda>r. r\<lparr>dr_state := Ds_Done, dr_output := Some out, dr_lease := None, dr_tainted := tainted,
               dr_poison_cs := poison_cs\<rparr>) db)"

definition derive_report ::
    "i64 \<Rightarrow> i64 \<Rightarrow> oid \<Rightarrow> derive_reason \<Rightarrow> i64 \<Rightarrow> 'a repo_db_scheme \<Rightarrow> 'a repo_db_scheme" where
  "derive_report kind repo cs reason ts db =
     db\<lparr>db_reports := db_reports db @
          [\<lparr>rp_kind = kind, rp_repo = repo, rp_cs = cs, rp_reason = reason, rp_ts = ts\<rparr>]\<rparr>"

text \<open>\<open>INSERT \<dots> ON CONFLICT DO UPDATE\<close>: update the row of the node, or append a new one.\<close>

definition upsert_node ::
    "derive_row \<Rightarrow> (derive_row \<Rightarrow> derive_row) \<Rightarrow> 'a repo_db_scheme \<Rightarrow> 'a repo_db_scheme" where
  "upsert_node row f db =
     (if derive_get db (dr_kind row) (dr_repo row) (dr_cs row) = None
      then db\<lparr>db_derive := db_derive db @ [row]\<rparr>
      else snd (update_node (dr_kind row) (dr_repo row) (dr_cs row) (\<lambda>_. True) f db))"

definition DERIVE_MAX_ATTEMPTS :: i64 where "DERIVE_MAX_ATTEMPTS = 3"

definition derive_fail_attempt ::
    "i64 \<Rightarrow> i64 \<Rightarrow> oid \<Rightarrow> derive_reason \<Rightarrow> i64 \<Rightarrow> 'a repo_db_scheme \<Rightarrow> bool \<times> 'a repo_db_scheme" where
  "derive_fail_attempt kind repo cs reason now db =
     (if \<not> changeset_exists db cs then (False, db)
      else
        let attempts = i64_add (case derive_get db kind repo cs of None \<Rightarrow> 0 | Some r \<Rightarrow> dr_attempts r) 1 in
        if attempts \<ge> DERIVE_MAX_ATTEMPTS then
          (True, derive_report kind repo cs reason now
             (upsert_node (new_row kind repo cs Ds_Poison attempts)
                (\<lambda>r. r\<lparr>dr_state := Ds_Poison, dr_lease := None, dr_attempts := attempts\<rparr>) db))
        else
          (False, upsert_node (new_row kind repo cs Ds_Pending attempts)
             (\<lambda>r. r\<lparr>dr_state := Ds_Pending, dr_lease := None, dr_attempts := attempts\<rparr>) db))"

definition derive_poison_now ::
    "i64 \<Rightarrow> i64 \<Rightarrow> oid \<Rightarrow> derive_reason \<Rightarrow> i64 \<Rightarrow> 'a repo_db_scheme \<Rightarrow> 'a repo_db_scheme" where
  "derive_poison_now kind repo cs reason now db =
     derive_report kind repo cs reason now
       (upsert_node (new_row kind repo cs Ds_Poison 0) (\<lambda>r. r\<lparr>dr_state := Ds_Poison, dr_lease := None\<rparr>) db)"

definition derive_expired_leases :: "'a repo_db_scheme \<Rightarrow> i64 \<Rightarrow> i64 \<Rightarrow> (i64 \<times> oid) list" where
  "derive_expired_leases db kind now =
     map (\<lambda>r. (dr_repo r, dr_cs r))
       (filter (\<lambda>r. dr_kind r = kind \<and> dr_state r = Ds_Deriving \<and>
                    (case dr_lease r of None \<Rightarrow> False | Some e \<Rightarrow> e < now)) (db_derive db))"

section \<open>The boot backfill\<close>

record backfill_cursor =
  bc_generation :: i64
  bc_rowid :: int

definition cursor_start :: backfill_cursor where
  "cursor_start = \<lparr>bc_generation = -1, bc_rowid = 0\<rparr>"

definition cursor_of :: "changeset_row \<Rightarrow> i64 \<times> int" where
  "cursor_of r = (cr_generation r, int (cr_rowid r))"

definition rowless :: "'a repo_db_scheme \<Rightarrow> i64 \<Rightarrow> changeset_row \<Rightarrow> bool" where
  "rowless db kind c \<longleftrightarrow> derive_get db kind (cr_repo c) (cr_id c) = None"

text \<open>The changesets one batch enqueues, in the order of the query.\<close>

definition backfill_rows :: "'a repo_db_scheme \<Rightarrow> i64 \<Rightarrow> backfill_cursor \<Rightarrow> i64 \<Rightarrow> changeset_row list" where
  "backfill_rows db kind cursor limit =
     take (nat limit)
       (sort_key cursor_of
          (filter (\<lambda>c. cursor_of c > (bc_generation cursor, bc_rowid cursor) \<and> rowless db kind c)
             (db_changesets db)))"

definition derive_backfill_batch ::
    "i64 \<Rightarrow> backfill_cursor \<Rightarrow> i64 \<Rightarrow> 'a repo_db_scheme \<Rightarrow> (nat \<times> backfill_cursor) \<times> 'a repo_db_scheme" where
  "derive_backfill_batch kind cursor limit db =
     (if limit \<le> 0 then ((0, cursor), db)
      else
        let rows = backfill_rows db kind cursor limit in
        if rows = [] then ((0, cursor), db)
        else ((length rows,
               \<lparr>bc_generation = cr_generation (last rows), bc_rowid = int (cr_rowid (last rows))\<rparr>),
              db\<lparr>db_derive := db_derive db @
                   map (\<lambda>c. new_row kind (cr_repo c) (cr_id c) Ds_Pending 0) rows\<rparr>))"

definition derive_backfill_rowless_exists :: "'a repo_db_scheme \<Rightarrow> i64 \<Rightarrow> bool" where
  "derive_backfill_rowless_exists db kind = list_ex (rowless db kind) (db_changesets db)"

section \<open>A new database\<close>

text \<open>The tables after the migrations, before any write.\<close>

definition empty_repo_db :: repo_db where
  "empty_repo_db = \<lparr>db_trees = [], db_tree_entries = [], db_repo_trees = {}, db_changesets = [], db_parents = [],
     db_file_changes = [], db_repo_blobs = {}, db_git_map = [], db_refs = [], db_lands = [], db_redactions = [],
     db_objects = [], db_gc_pending = [], db_snapshots = [], db_blame = [], db_path_history = [], db_repos = [],
     db_principals = [], db_tokens = [], db_access = [], db_kinds = [], db_meta = [], db_audit = [], db_derive = [],
     db_reports = []\<rparr>"

end
