(* ===== verification/Derive_Queue.thy ===== *)
theory Derive_Queue
  imports Repo_Db
begin

text \<open>
  The derived-data framework (\<open>crates/naatre-server/src/derive.rs\<close>): the walk budget of a derive call,
  the taint a node inherits, the enqueueing of a new changeset, and the queue pass that sweeps expired
  leases and drains the eligible nodes.

  A registered kind's deriver (a trait object) is the field \<open>rk_derive\<close>: from the call's context, the
  database, the node and its parents' contributions to a result and the database after its own writes.

  The queue task runs between requests. The record \<open>queue_env\<close> says what it meets at its \<open>n\<close>-th access
  to the store: what other writers have committed by then (\<open>qe_other\<close>), whether the write slot is
  taken (\<open>qe_busy\<close>), and the clock. The one-shot hooks that tests arm to make a write busy are such a
  taken slot.
\<close>

section \<open>The walk budget\<close>

datatype derive_failure = Fail bytes | Walk_Budget | Walk_Deadline u64 u64

record derive_ctx =
  dc_remaining :: u64
  dc_spent :: u64
  dc_created :: u64
  dc_deadline :: u64

definition u64_saturating_add :: "u64 \<Rightarrow> u64 \<Rightarrow> u64" where
  "u64_saturating_add a b = (if unat a + unat b < 2 ^ 64 then a + b else - 1)"

definition u64_saturating_sub :: "u64 \<Rightarrow> u64 \<Rightarrow> u64" where
  "u64_saturating_sub a b = (if b \<le> a then a - b else 0)"

definition ctx_new :: "u64 \<Rightarrow> u64 \<Rightarrow> u64 \<Rightarrow> derive_ctx" where
  "ctx_new walk_budget clock window =
     \<lparr>dc_remaining = walk_budget, dc_spent = 0, dc_created = clock,
      dc_deadline = u64_saturating_add clock window\<rparr>"

definition ctx_elapsed :: "u64 \<Rightarrow> derive_ctx \<Rightarrow> u64" where
  "ctx_elapsed clock ctx = u64_saturating_sub clock (dc_created ctx)"

text \<open>The clock is read once, and a second time for the elapsed time of an overrun.\<close>

definition ctx_charge :: "u64 \<Rightarrow> u64 \<Rightarrow> u64 \<Rightarrow> derive_ctx \<Rightarrow> (derive_failure + unit) \<times> derive_ctx" where
  "ctx_charge clock clock' n ctx =
     (if dc_deadline ctx \<le> clock then
        let ctx = ctx\<lparr>dc_remaining := 0\<rparr> in
        (Inl (Walk_Deadline (dc_spent ctx) (ctx_elapsed clock' ctx)), ctx)
      else if n = 0 then (Inr (), ctx)
      else if dc_remaining ctx \<le> n then (Inl Walk_Budget, ctx\<lparr>dc_remaining := 0\<rparr>)
      else (Inr (), ctx\<lparr>dc_remaining := dc_remaining ctx - n, dc_spent := dc_spent ctx + n\<rparr>))"

section \<open>Contributions of the parents\<close>

record parent_out =
  po_output :: bytes
  po_poisoned :: bool
  po_tainted :: bool
  po_poison_cs :: "oid option"

definition parent_out_of :: "oid \<Rightarrow> derive_row option \<Rightarrow> parent_out" where
  "parent_out_of p row =
     (case row of
        Some r \<Rightarrow>
          (case dr_state r of
             Ds_Done \<Rightarrow> \<lparr>po_output = (case dr_output r of None \<Rightarrow> [] | Some out \<Rightarrow> out), po_poisoned = False,
                         po_tainted = dr_tainted r, po_poison_cs = dr_poison_cs r\<rparr>
           | Ds_Poison \<Rightarrow> \<lparr>po_output = [], po_poisoned = True, po_tainted = True, po_poison_cs = Some p\<rparr>
           | _ \<Rightarrow> \<lparr>po_output = [], po_poisoned = False, po_tainted = False, po_poison_cs = None\<rparr>)
      | None \<Rightarrow> \<lparr>po_output = [], po_poisoned = False, po_tainted = False, po_poison_cs = None\<rparr>)"

definition derive_parent_outputs :: "'a repo_db_scheme \<Rightarrow> i64 \<Rightarrow> i64 \<Rightarrow> oid list \<Rightarrow> parent_out list" where
  "derive_parent_outputs db kind repo parents = map (\<lambda>p. parent_out_of p (derive_get db kind repo p)) parents"

definition collapse_taint :: "parent_out list \<Rightarrow> bool \<times> oid option" where
  "collapse_taint parents =
     (case find po_poisoned parents of
        Some p \<Rightarrow> (True, po_poison_cs p)
      | None \<Rightarrow>
          (case find po_tainted parents of
             Some p \<Rightarrow> (True, po_poison_cs p)
           | None \<Rightarrow> (False, None)))"

section \<open>Kinds and enqueueing\<close>

datatype derive_result = Derived bytes | Failed derive_failure | Panicked

record 'a registered_kind =
  rk_name :: bytes
  rk_id :: i64
  rk_eager :: bool
  rk_walk_budget :: u64
  rk_derive :: "derive_ctx \<Rightarrow> 'a repo_db_scheme \<Rightarrow> i64 \<Rightarrow> oid \<Rightarrow> parent_out list \<Rightarrow> derive_result \<times> 'a repo_db_scheme"

definition DERIVE_MAX_OUTPUT_BYTES :: nat where "DERIVE_MAX_OUTPUT_BYTES = 16 * 1024 * 1024"

text \<open>Registering a kind panics on a name that is taken.\<close>

definition register :: "'a registered_kind \<Rightarrow> 'a registered_kind list \<Rightarrow> 'a registered_kind list option" where
  "register kind kinds =
     (if list_ex (\<lambda>k. rk_name k = rk_name kind) kinds then None else Some (kinds @ [kind]))"

definition by_name :: "bytes \<Rightarrow> 'a registered_kind list \<Rightarrow> 'a registered_kind option" where
  "by_name name kinds = find (\<lambda>k. rk_name k = name) kinds"

record eager_env =
  ee_now :: i64
  ee_clock :: u64
  ee_walk_deadline :: u64

datatype enqueue_error = Enqueue_Db db_error | Enqueue_Panic

definition enqueue_eager ::
    "'a registered_kind \<Rightarrow> i64 \<Rightarrow> oid \<Rightarrow> oid list \<Rightarrow> eager_env \<Rightarrow> 'a repo_db_scheme \<Rightarrow>
     enqueue_error + 'a repo_db_scheme" where
  "enqueue_eager kind repo cs parents env db =
     (let outs = derive_parent_outputs db (rk_id kind) repo parents;
          (tainted, poison_cs) = collapse_taint outs;
          ctx = ctx_new (rk_walk_budget kind) (ee_clock env) (ee_walk_deadline env);
          (result, db) = rk_derive kind ctx db repo cs outs
      in case result of
           Derived out \<Rightarrow>
             if length out > DERIVE_MAX_OUTPUT_BYTES then
               Inr (derive_poison_now (rk_id kind) repo cs (Reason_Size_Cap (length out)) (ee_now env) db)
             else map_err Enqueue_Db (derive_state_insert_done (rk_id kind) repo cs out tainted poison_cs db)
         | Failed Walk_Budget \<Rightarrow>
             Inr (derive_poison_now (rk_id kind) repo cs (Reason_Walk_Budget (rk_walk_budget kind)) (ee_now env) db)
         | Failed (Walk_Deadline units elapsed) \<Rightarrow>
             let reason = Reason_Walk_Deadline units elapsed;
                 (poisoned, db) = derive_fail_attempt (rk_id kind) repo cs reason (ee_now env) db
             in Inr (if poisoned then db else derive_report (rk_id kind) repo cs reason (ee_now env) db)
         | Failed (Fail reason) \<Rightarrow>
             Inr (snd (derive_fail_attempt (rk_id kind) repo cs (Reason_Fail reason) (ee_now env) db))
         | Panicked \<Rightarrow> Inl Enqueue_Panic)"

fun enqueue_changeset ::
    "'a registered_kind list \<Rightarrow> i64 \<Rightarrow> oid \<Rightarrow> oid list \<Rightarrow> eager_env \<Rightarrow> 'a repo_db_scheme \<Rightarrow>
     enqueue_error + 'a repo_db_scheme" where
  "enqueue_changeset [] repo cs parents env db = Inr db"
| "enqueue_changeset (kind # kinds) repo cs parents env db =
     rbind (if rk_eager kind then enqueue_eager kind repo cs parents env db
            else Inr (derive_enqueue_pending (rk_id kind) repo cs db))
       (\<lambda>db. enqueue_changeset kinds repo cs parents env db)"

datatype derive_status = St_Pending | St_Deriving | St_Done bytes | St_Poison

definition status :: "'a registered_kind list \<Rightarrow> bytes \<Rightarrow> i64 \<Rightarrow> oid \<Rightarrow> 'a repo_db_scheme \<Rightarrow> derive_status option" where
  "status kinds name repo cs db =
     Option.bind (by_name name kinds) (\<lambda>kind.
       map_option (\<lambda>r. case dr_state r of
           Ds_Pending \<Rightarrow> St_Pending
         | Ds_Deriving \<Rightarrow> St_Deriving
         | Ds_Done \<Rightarrow> St_Done (case dr_output r of None \<Rightarrow> [] | Some out \<Rightarrow> out)
         | Ds_Poison \<Rightarrow> St_Poison)
         (derive_get db (rk_id kind) repo cs))"

section \<open>The queue task and its environment\<close>

record 'a queue_env =
  qe_now :: "nat \<Rightarrow> i64"
  qe_clock :: "nat \<Rightarrow> u64"
  qe_busy :: "nat \<Rightarrow> bool"
  qe_other :: "nat \<Rightarrow> 'a repo_db_scheme \<Rightarrow> 'a repo_db_scheme"
  qe_lease :: i64
  qe_window :: u64

record pass_report =
  pr_swept :: nat
  pr_derived :: nat
  pr_poisoned :: nat
  pr_overruns :: nat

record 'a pass =
  ps_access :: nat
  ps_db :: "'a repo_db_scheme"
  ps_report :: pass_report

text \<open>A read on the pool, and a write under the slot (\<open>None\<close> when the slot is taken).\<close>

definition read_repo :: "'a queue_env \<Rightarrow> ('a repo_db_scheme \<Rightarrow> 'r) \<Rightarrow> 'a pass \<Rightarrow> 'r \<times> 'a pass" where
  "read_repo env f st =
     (let db = qe_other env (ps_access st) (ps_db st)
      in (f db, st\<lparr>ps_access := ps_access st + 1, ps_db := db\<rparr>))"

definition write_repo ::
    "'a queue_env \<Rightarrow> ('a repo_db_scheme \<Rightarrow> 'r \<times> 'a repo_db_scheme) \<Rightarrow> 'a pass \<Rightarrow> 'r option \<times> 'a pass" where
  "write_repo env f st =
     (let db = qe_other env (ps_access st) (ps_db st) in
      if qe_busy env (ps_access st) then (None, st\<lparr>ps_access := ps_access st + 1, ps_db := db\<rparr>)
      else let (r, db) = f db in (Some r, st\<lparr>ps_access := ps_access st + 1, ps_db := db\<rparr>))"

definition report_add :: "nat \<Rightarrow> nat \<Rightarrow> nat \<Rightarrow> nat \<Rightarrow> 'a pass \<Rightarrow> 'a pass" where
  "report_add swept derived poisoned overruns st =
     st\<lparr>ps_report := \<lparr>pr_swept = pr_swept (ps_report st) + swept, pr_derived = pr_derived (ps_report st) + derived,
         pr_poisoned = pr_poisoned (ps_report st) + poisoned, pr_overruns = pr_overruns (ps_report st) + overruns\<rparr>\<rparr>"

definition LEASE_RELEASE_BUSY_RETRIES :: nat where "LEASE_RELEASE_BUSY_RETRIES = 100"

fun release_tries :: "nat \<Rightarrow> 'a queue_env \<Rightarrow> i64 \<Rightarrow> i64 \<Rightarrow> oid \<Rightarrow> i64 \<Rightarrow> 'a pass \<Rightarrow> 'a pass" where
  "release_tries tries env kind repo cs expires st =
     (case write_repo env (derive_release_lease kind repo cs expires) st of
        (Some _, st) \<Rightarrow> st
      | (None, st) \<Rightarrow>
          (case tries of
             0 \<Rightarrow> st
           | Suc tries \<Rightarrow> release_tries tries env kind repo cs expires st))"

declare release_tries.simps [simp del]

definition release_lease_after_busy :: "'a queue_env \<Rightarrow> i64 \<Rightarrow> i64 \<Rightarrow> oid \<Rightarrow> i64 \<Rightarrow> 'a pass \<Rightarrow> 'a pass" where
  "release_lease_after_busy env kind repo cs expires st =
     release_tries LEASE_RELEASE_BUSY_RETRIES env kind repo cs expires st"

section \<open>The sweep\<close>

definition sweep_rows ::
    "i64 \<Rightarrow> i64 \<Rightarrow> 'a repo_db_scheme \<Rightarrow> (nat \<times> nat) \<times> 'a repo_db_scheme" where
  "sweep_rows kind now db =
     (let expired = derive_expired_leases db kind now;
          (poisoned, db) = fold (\<lambda>(repo, cs) (n, db).
             let (p, db) = derive_fail_attempt kind repo cs Reason_Lease_Expired now db
             in (if p then n + 1 else n, db)) expired (0, db)
      in ((length expired, poisoned), db))"

definition sweep_expired :: "'a queue_env \<Rightarrow> 'a registered_kind \<Rightarrow> 'a pass \<Rightarrow> 'a pass" where
  "sweep_expired env kind st =
     (let now = qe_now env (ps_access st);
          (has_expired, st) = read_repo env (\<lambda>db. derive_expired_leases db (rk_id kind) now \<noteq> []) st
      in if \<not> has_expired then st
         else case write_repo env (sweep_rows (rk_id kind) now) st of
                (None, st) \<Rightarrow> st
              | (Some (swept, poisoned), st) \<Rightarrow> report_add swept 0 poisoned 0 st)"

section \<open>The drain\<close>

definition derive_node ::
    "'a registered_kind \<Rightarrow> i64 \<Rightarrow> oid \<Rightarrow> u64 \<Rightarrow> u64 \<Rightarrow> 'a repo_db_scheme \<Rightarrow>
     (derive_result \<times> bool \<times> oid option) \<times> 'a repo_db_scheme" where
  "derive_node kind repo cs clock window db =
     (let parents = (case changeset_graph db repo cs of None \<Rightarrow> [] | Some g \<Rightarrow> cg_parents g);
          outs = derive_parent_outputs db (rk_id kind) repo parents;
          ctx = ctx_new (rk_walk_budget kind) clock window;
          taint = collapse_taint outs;
          (result, db) = rk_derive kind ctx db repo cs outs
      in ((result, taint), db))"

text \<open>The write of a failed attempt; \<open>None\<close> is the immediate quarantine.\<close>

definition record_failure ::
    "'a registered_kind \<Rightarrow> i64 \<Rightarrow> oid \<Rightarrow> derive_failure \<Rightarrow> i64 \<Rightarrow> 'a repo_db_scheme \<Rightarrow>
     bool option \<times> 'a repo_db_scheme" where
  "record_failure kind repo cs failure now db =
     (case failure of
        Walk_Budget \<Rightarrow>
          (None, derive_poison_now (rk_id kind) repo cs (Reason_Walk_Budget (rk_walk_budget kind)) now db)
      | Walk_Deadline units elapsed \<Rightarrow>
          let reason = Reason_Walk_Deadline units elapsed;
              (poisoned, db) = derive_fail_attempt (rk_id kind) repo cs reason now db
          in (Some poisoned, if poisoned then db else derive_report (rk_id kind) repo cs reason now db)
      | Fail reason \<Rightarrow>
          let (poisoned, db) = derive_fail_attempt (rk_id kind) repo cs (Reason_Fail reason) now db
          in (Some poisoned, db))"

fun is_deadline :: "derive_failure \<Rightarrow> bool" where
  "is_deadline (Walk_Deadline units elapsed) = True"
| "is_deadline _ = False"

text \<open>One turn of the loop: go on, end the pass, or report the deriver's panic.\<close>

datatype 'a turn = Go "'a pass" | Stop "'a pass" | Abort "'a pass"

definition after_failure ::
    "'a queue_env \<Rightarrow> 'a registered_kind \<Rightarrow> i64 \<Rightarrow> oid \<Rightarrow> i64 \<Rightarrow> derive_failure \<Rightarrow> 'a pass \<Rightarrow> 'a turn" where
  "after_failure env kind repo cs expires failure st =
     (let now = qe_now env (ps_access st) in
      case write_repo env (record_failure kind repo cs failure now) st of
        (None, st) \<Rightarrow> Stop (release_lease_after_busy env (rk_id kind) repo cs expires st)
      | (Some quarantined, st) \<Rightarrow>
          let quarantined = (case quarantined of None \<Rightarrow> True | Some q \<Rightarrow> q);
              st = report_add 0 0 (if quarantined then 1 else 0) (if is_deadline failure then 1 else 0) st
          in if is_deadline failure \<and> \<not> quarantined then Stop st else Go st)"

definition after_derived ::
    "'a queue_env \<Rightarrow> 'a registered_kind \<Rightarrow> i64 \<Rightarrow> oid \<Rightarrow> i64 \<Rightarrow> bytes \<Rightarrow> bool \<times> oid option \<Rightarrow> 'a pass \<Rightarrow> 'a turn" where
  "after_derived env kind repo cs expires out taint st =
     (if length out > DERIVE_MAX_OUTPUT_BYTES then
        let now = qe_now env (ps_access st) in
        case write_repo env
            (\<lambda>db. ((), derive_poison_now (rk_id kind) repo cs (Reason_Size_Cap (length out)) now db)) st of
          (None, st) \<Rightarrow> Stop (release_lease_after_busy env (rk_id kind) repo cs expires st)
        | (Some _, st) \<Rightarrow> Go (report_add 0 0 1 0 st)
      else
        case write_repo env (derive_record_done (rk_id kind) repo cs out (fst taint) (snd taint)) st of
          (None, st) \<Rightarrow> Stop (release_lease_after_busy env (rk_id kind) repo cs expires st)
        | (Some recorded, st) \<Rightarrow> Go (report_add 0 (if recorded then 1 else 0) 0 0 st))"

definition i64_saturating_add :: "i64 \<Rightarrow> i64 \<Rightarrow> i64" where
  "i64_saturating_add a b = max (- (2 ^ 63)) (min (2 ^ 63 - 1) (a + b))"

definition drain_turn :: "'a queue_env \<Rightarrow> 'a registered_kind \<Rightarrow> i64 \<Rightarrow> 'a pass \<Rightarrow> 'a turn" where
  "drain_turn env kind repo st =
     (case read_repo env (\<lambda>db. derive_pick_next db (rk_id kind)) st of
        (None, st) \<Rightarrow> Stop st
      | (Some (_, cs), st) \<Rightarrow>
          (let expires = i64_saturating_add (qe_now env (ps_access st)) (qe_lease env) in
          case write_repo env (derive_lease (rk_id kind) repo cs expires) st of
            (None, st) \<Rightarrow> Stop st
          | (Some False, st) \<Rightarrow> Go st
          | (Some True, st) \<Rightarrow>
              (case write_repo env
                  (derive_node kind repo cs (qe_clock env (ps_access st)) (qe_window env)) st of
                 (None, st) \<Rightarrow> Stop (release_lease_after_busy env (rk_id kind) repo cs expires st)
               | (Some (Panicked, _), st) \<Rightarrow> Abort st
               | (Some (Failed failure, _), st) \<Rightarrow> after_failure env kind repo cs expires failure st
               | (Some (Derived out, taint), st) \<Rightarrow> after_derived env kind repo cs expires out taint st)))"

text \<open>The loop; \<open>None\<close> when it does not end, \<open>Inl\<close> when the deriver panicked.\<close>

partial_function (option) drain ::
    "'a queue_env \<Rightarrow> 'a registered_kind \<Rightarrow> i64 \<Rightarrow> 'a pass \<Rightarrow> ('a pass + 'a pass) option" where
  "drain env kind repo st =
     (case drain_turn env kind repo st of
        Go st \<Rightarrow> drain env kind repo st
      | Stop st \<Rightarrow> Some (Inr st)
      | Abort st \<Rightarrow> Some (Inl st))"

text \<open>The pass over one database that holds all repositories: sweep for each repository, then drain.\<close>

fun drain_repos ::
    "'a queue_env \<Rightarrow> 'a registered_kind \<Rightarrow> i64 list \<Rightarrow> 'a pass \<Rightarrow> ('a pass + 'a pass) option" where
  "drain_repos env kind [] st = Some (Inr st)"
| "drain_repos env kind (repo # repos) st =
     (case drain env kind repo st of
        None \<Rightarrow> None
      | Some (Inl st) \<Rightarrow> Some (Inl st)
      | Some (Inr st) \<Rightarrow> drain_repos env kind repos st)"

fun derive_pass ::
    "'a queue_env \<Rightarrow> 'a registered_kind list \<Rightarrow> i64 list \<Rightarrow> 'a pass \<Rightarrow> ('a pass + 'a pass) option" where
  "derive_pass env [] repos st = Some (Inr st)"
| "derive_pass env (kind # kinds) repos st =
     (let st = fold (\<lambda>_ st. sweep_expired env kind st) repos st in
      case drain_repos env kind repos st of
        None \<Rightarrow> None
      | Some (Inl st) \<Rightarrow> Some (Inl st)
      | Some (Inr st) \<Rightarrow> derive_pass env kinds repos st)"

section \<open>The backfill of one repository\<close>

definition BACKFILL_BUSY_RETRIES :: nat where "BACKFILL_BUSY_RETRIES = 1000"

fun write_retry ::
    "nat \<Rightarrow> 'a queue_env \<Rightarrow> ('a repo_db_scheme \<Rightarrow> 'r \<times> 'a repo_db_scheme) \<Rightarrow> 'a pass \<Rightarrow> 'r option \<times> 'a pass" where
  "write_retry tries env f st =
     (case write_repo env f st of
        (Some r, st) \<Rightarrow> (Some r, st)
      | (None, st) \<Rightarrow>
          (case tries of
             0 \<Rightarrow> (None, st)
           | Suc tries \<Rightarrow> write_retry tries env f st))"

declare write_retry.simps [simp del]

definition backfill_step ::
    "'a queue_env \<Rightarrow> ('a repo_db_scheme \<Rightarrow> 'r \<times> 'a repo_db_scheme) \<Rightarrow> 'a pass \<Rightarrow> 'r option \<times> 'a pass" where
  "backfill_step env f st = write_retry BACKFILL_BUSY_RETRIES env f st"

text \<open>The batches of one repository: \<open>Some False\<close> is the retryable error of a slot that stayed taken.\<close>

partial_function (option) backfill_batches ::
    "'a queue_env \<Rightarrow> i64 \<Rightarrow> i64 \<Rightarrow> backfill_cursor \<Rightarrow> 'a pass \<Rightarrow> (bool \<times> 'a pass) option" where
  "backfill_batches env kind limit cursor st =
     (case backfill_step env (derive_backfill_batch kind cursor limit) st of
        (None, st) \<Rightarrow> Some (False, st)
      | (Some (inserted, cursor), st) \<Rightarrow>
          if inserted = 0 then Some (True, st) else backfill_batches env kind limit cursor st)"

datatype backfill_result = Bf_Complete | Bf_Busy | Bf_Withheld

definition backfill_repo ::
    "'a queue_env \<Rightarrow> i64 \<Rightarrow> i64 \<Rightarrow> 'a pass \<Rightarrow> (backfill_result \<times> 'a pass) option" where
  "backfill_repo env kind limit st =
     map_option (\<lambda>(ok, st).
       if \<not> ok then (Bf_Busy, st)
       else let (rowless, st) = read_repo env (\<lambda>db. derive_backfill_rowless_exists db kind) st
            in (if rowless then Bf_Withheld else Bf_Complete, st))
       (backfill_batches env kind limit cursor_start st)"

end
