(* ===== verification/Queue_Invariant.thy ===== *)
theory Queue_Invariant
  imports Derive_Queue
begin

text \<open>
  The derivation queue as a map of nodes, its invariant \<open>queue_ok\<close>, and that every statement, every turn
  of the drain, the sweep and the whole pass keep it and the finished nodes (\<open>keeps\<close>).
\<close>

section \<open>The queue as a map of nodes\<close>

definition node_key :: "derive_row \<Rightarrow> i64 \<times> i64 \<times> oid" where
  "node_key r = (dr_kind r, dr_repo r, dr_cs r)"

lemma is_node_key: "is_node kind repo cs r \<longleftrightarrow> node_key r = (kind, repo, cs)"
  by (auto simp: is_node_def node_key_def)

lemma node_key_simps [simp]:
  "node_key (r\<lparr>dr_state := s\<rparr>) = node_key r" "node_key (r\<lparr>dr_lease := l\<rparr>) = node_key r"
  "node_key (r\<lparr>dr_attempts := a\<rparr>) = node_key r" "node_key (r\<lparr>dr_output := w\<rparr>) = node_key r"
  "node_key (r\<lparr>dr_tainted := t\<rparr>) = node_key r" "node_key (r\<lparr>dr_poison_cs := p\<rparr>) = node_key r"
  "node_key (new_row kind repo cs s a) = (kind, repo, cs)"
  by (simp_all add: node_key_def new_row_def)

lemma derive_get_append:
  "derive_get (db\<lparr>db_derive := db_derive db @ rows\<rparr>) kind repo cs =
     (case derive_get db kind repo cs of
        Some r \<Rightarrow> Some r
      | None \<Rightarrow> find (is_node kind repo cs) rows)"
  by (simp add: derive_get_def find_append)

lemma derive_get_key: "derive_get db kind repo cs = Some r \<Longrightarrow> node_key r = (kind, repo, cs) \<and> r \<in> set (db_derive db)"
  by (auto simp: derive_get_def find_Some_iff is_node_key)

lemma derive_get_None: "derive_get db kind repo cs = None \<longleftrightarrow> (kind, repo, cs) \<notin> node_key ` set (db_derive db)"
  by (auto simp: derive_get_def find_None_iff is_node_key image_iff)

lemma derive_get_member:
  "distinct (map node_key (db_derive db)) \<Longrightarrow> r \<in> set (db_derive db) \<Longrightarrow> node_key r = (kind, repo, cs) \<Longrightarrow>
     derive_get db kind repo cs = Some r"
proof -
  assume d: "distinct (map node_key (db_derive db))" and r: "r \<in> set (db_derive db)" "node_key r = (kind, repo, cs)"
  have "derive_get db kind repo cs \<noteq> None" unfolding derive_get_None using r by force
  then obtain s where s: "derive_get db kind repo cs = Some s" by auto
  then have "node_key s = node_key r" "s \<in> set (db_derive db)" using derive_get_key r(2) by metis+
  then have "s = r" using d r(1) by (metis distinct_map inj_onD)
  then show ?thesis using s by simp
qed

lemma find_map_key:
  assumes "\<And>r. node_key (g r) = node_key r"
  shows "find (is_node kind repo cs) (map g rows) = map_option g (find (is_node kind repo cs) rows)"
  by (induction rows) (auto simp: is_node_key assms)

lemma derive_get_update:
  assumes "\<And>r. node_key (f r) = node_key r"
  shows "derive_get (snd (update_node kind repo cs P f db)) kind' repo' cs' =
    (if (kind', repo', cs') = (kind, repo, cs)
     then map_option (\<lambda>r. if P r then f r else r) (derive_get db kind repo cs)
     else derive_get db kind' repo' cs')"
proof -
  let ?g = "\<lambda>r. if is_node kind repo cs r \<and> P r then f r else r"
  have g: "derive_get (snd (update_node kind repo cs P f db)) kind' repo' cs' = map_option ?g (derive_get db kind' repo' cs')"
    unfolding update_node_def derive_get_def using find_map_key [of ?g kind' repo' cs' "db_derive db"] by (simp add: assms)
  show ?thesis
  proof (cases "derive_get db kind' repo' cs'")
    case (Some r)
    then show ?thesis using g derive_get_key [OF Some] by (auto simp: is_node_key)
  qed (use g in auto)
qed

lemma update_node_hit:
  assumes "distinct (map node_key (db_derive db))"
  shows "fst (update_node kind repo cs P f db) \<longleftrightarrow> (\<exists>r. derive_get db kind repo cs = Some r \<and> P r)"
proof
  assume "fst (update_node kind repo cs P f db)"
  then obtain r where "r \<in> set (db_derive db)" "node_key r = (kind, repo, cs)" "P r"
    by (auto simp: update_node_def list_ex_iff is_node_key)
  then show "\<exists>r. derive_get db kind repo cs = Some r \<and> P r" using derive_get_member [OF assms] by blast
next
  assume "\<exists>r. derive_get db kind repo cs = Some r \<and> P r"
  then show "fst (update_node kind repo cs P f db)"
    using derive_get_key by (fastforce simp: update_node_def list_ex_iff is_node_key)
qed

lemma update_node_keys:
  assumes "\<And>r. node_key (f r) = node_key r"
  shows "map node_key (db_derive (snd (update_node kind repo cs P f db))) = map node_key (db_derive db)"
  by (auto simp: update_node_def assms)

lemma update_node_frame [simp]:
  "db_changesets (snd (update_node kind repo cs P f db)) = db_changesets db"
  "db_parents (snd (update_node kind repo cs P f db)) = db_parents db"
  "db_reports (snd (update_node kind repo cs P f db)) = db_reports db"
  by (simp_all add: update_node_def)

section \<open>The invariant of the queue\<close>

definition row_ok :: "derive_row \<Rightarrow> bool" where
  "row_ok r \<longleftrightarrow>
     0 \<le> dr_attempts r \<and> dr_attempts r \<le> DERIVE_MAX_ATTEMPTS \<and>
     (dr_state r \<noteq> Ds_Poison \<longrightarrow> dr_attempts r < DERIVE_MAX_ATTEMPTS) \<and>
     (dr_lease r \<noteq> None \<longleftrightarrow> dr_state r = Ds_Deriving) \<and>
     (dr_state r = Ds_Done \<longrightarrow> (\<exists>out. dr_output r = Some out \<and> length out \<le> DERIVE_MAX_OUTPUT_BYTES))"

definition queue_ok :: "'a repo_db_scheme \<Rightarrow> bool" where
  "queue_ok db \<longleftrightarrow> distinct (map node_key (db_derive db)) \<and> (\<forall>r \<in> set (db_derive db). row_ok r)"

lemma queue_ok_row: "queue_ok db \<Longrightarrow> derive_get db kind repo cs = Some r \<Longrightarrow> row_ok r"
  using derive_get_key by (metis queue_ok_def)

lemma queue_ok_update:
  assumes "queue_ok db" and "\<And>r. node_key (f r) = node_key r"
    and "\<And>r. derive_get db kind repo cs = Some r \<Longrightarrow> row_ok r \<Longrightarrow> P r \<Longrightarrow> row_ok (f r)"
  shows "queue_ok (snd (update_node kind repo cs P f db))"
proof -
  have d: "distinct (map node_key (db_derive db))" using assms(1) by (simp add: queue_ok_def)
  have "row_ok (if is_node kind repo cs r \<and> P r then f r else r)" if "r \<in> set (db_derive db)" for r
    using assms(1,3) derive_get_member [OF d that] that by (auto simp: is_node_key queue_ok_def)
  then have "\<forall>r \<in> (\<lambda>r. if is_node kind repo cs r \<and> P r then f r else r) ` set (db_derive db). row_ok r" by blast
  then have "\<forall>r \<in> set (db_derive (snd (update_node kind repo cs P f db))). row_ok r"
    unfolding update_node_def list.set_map [symmetric] by simp
  then show ?thesis using d update_node_keys [OF assms(2), of kind repo cs P db]
    unfolding queue_ok_def by (simp only:)
qed

lemma queue_ok_append:
  assumes "queue_ok db" and "distinct (map node_key rows)" and "\<forall>r \<in> set rows. row_ok r"
    and "\<And>kind repo cs. (kind, repo, cs) \<in> node_key ` set rows \<Longrightarrow> derive_get db kind repo cs = None"
  shows "queue_ok (db\<lparr>db_derive := db_derive db @ rows\<rparr>)"
proof -
  have "node_key ` set (db_derive db) \<inter> node_key ` set rows = {}"
    using assms(4) by (auto simp: derive_get_None)
  then show ?thesis using assms(1-3) unfolding queue_ok_def by auto
qed

lemma queue_ok_cong: "db_derive db = db_derive db' \<Longrightarrow> queue_ok db = queue_ok db'"
  by (simp add: queue_ok_def)

lemma row_ok_new: "row_ok (new_row kind repo cs Ds_Pending 0)" "row_ok (new_row kind repo cs Ds_Poison 0)"
  by (simp_all add: row_ok_def new_row_def DERIVE_MAX_ATTEMPTS_def)

lemma db_derive_report [simp]: "db_derive (derive_report kind repo cs reason ts db) = db_derive db"
  "db_changesets (derive_report kind repo cs reason ts db) = db_changesets db"
  "db_parents (derive_report kind repo cs reason ts db) = db_parents db"
  by (simp_all add: derive_report_def)

lemma derive_get_report [simp]: "derive_get (derive_report kind repo cs reason ts db) = derive_get db"
  by (simp add: derive_get_def fun_eq_iff)

lemma upsert_frame [simp]:
  "db_changesets (upsert_node row f db) = db_changesets db" "db_parents (upsert_node row f db) = db_parents db"
  by (simp_all add: upsert_node_def)

lemma derive_get_upsert:
  assumes "\<And>r. node_key (f r) = node_key r" and "node_key row = (kind, repo, cs)"
  shows "derive_get (upsert_node row f db) kind' repo' cs' =
    (if (kind', repo', cs') = (kind, repo, cs)
     then Some (case derive_get db kind repo cs of None \<Rightarrow> row | Some r \<Rightarrow> f r)
     else derive_get db kind' repo' cs')"
proof (cases "derive_get db kind repo cs")
  case None
  then show ?thesis using assms(2)
    by (auto simp: upsert_node_def derive_get_append node_key_def is_node_def split: option.splits)
next
  case (Some r)
  then show ?thesis using assms(2) derive_get_update [OF assms(1), of kind repo cs "\<lambda>_. True" db kind' repo' cs']
    by (auto simp: upsert_node_def node_key_def)
qed

lemma queue_ok_upsert:
  assumes "queue_ok db" and "\<And>r. node_key (f r) = node_key r" and "row_ok row"
    and "\<And>r. derive_get db (dr_kind row) (dr_repo row) (dr_cs row) = Some r \<Longrightarrow> row_ok r \<Longrightarrow> row_ok (f r)"
  shows "queue_ok (upsert_node row f db)"
proof (cases "derive_get db (dr_kind row) (dr_repo row) (dr_cs row)")
  case None
  then show ?thesis unfolding upsert_node_def
    using queue_ok_append [OF assms(1), of "[row]"] assms(3) by (simp add: node_key_def)
next
  case (Some r)
  have "queue_ok (snd (update_node (dr_kind row) (dr_repo row) (dr_cs row) (\<lambda>_. True) f db))"
    by (rule queue_ok_update [OF assms(1,2)]) (rule assms(4))
  then show ?thesis using Some by (simp add: upsert_node_def)
qed

lemma i64_add_small: "0 \<le> a \<Longrightarrow> a \<le> 3 \<Longrightarrow> i64_add a 1 = a + 1"
proof -
  assume "0 \<le> a" "a \<le> 3"
  then have "a = 0 \<or> a = 1 \<or> a = 2 \<or> a = 3" by linarith
  then show ?thesis by (auto simp: i64_add_def as_i64_def as_u64_def)
qed

text \<open>What a failed attempt leaves of its node.\<close>

definition failed_row :: "derive_row \<Rightarrow> derive_row" where
  "failed_row r = (let a = dr_attempts r + 1 in
     r\<lparr>dr_state := (if a \<ge> DERIVE_MAX_ATTEMPTS then Ds_Poison else Ds_Pending), dr_lease := None, dr_attempts := a\<rparr>)"

lemma derive_fail_attempt_get:
  assumes "queue_ok db" and "changeset_exists db cs"
  shows "derive_get (snd (derive_fail_attempt kind repo cs reason now db)) kind' repo' cs' =
    (if (kind', repo', cs') = (kind, repo, cs)
     then Some (failed_row (case derive_get db kind repo cs of None \<Rightarrow> new_row kind repo cs Ds_Pending 0 | Some r \<Rightarrow> r))
     else derive_get db kind' repo' cs')"
proof -
  have small: "0 \<le> dr_attempts r \<and> dr_attempts r \<le> 3" if "derive_get db kind repo cs = Some r" for r
    using queue_ok_row [OF assms(1) that] by (simp add: row_ok_def DERIVE_MAX_ATTEMPTS_def)
  show ?thesis
  proof (cases "derive_get db kind repo cs")
    case None
    then show ?thesis using assms(2)
      by (simp add: derive_fail_attempt_def i64_add_small DERIVE_MAX_ATTEMPTS_def derive_get_upsert failed_row_def Let_def)
        (simp add: new_row_def)
  next
    case (Some r)
    then show ?thesis using assms(2) small [OF Some] i64_add_small [of "dr_attempts r"]
      by (simp add: derive_fail_attempt_def derive_get_upsert failed_row_def Let_def)
  qed
qed

section \<open>Finished nodes stay as they are\<close>

text \<open>
  \<open>keeps D db\<close>: the queue is well formed and holds the finished rows \<open>D\<close> (a node that is done or
  quarantined) unchanged.
\<close>

type_synonym node_map = "i64 \<Rightarrow> i64 \<Rightarrow> oid \<Rightarrow> derive_row option"

definition keeps :: "node_map \<Rightarrow> 'a repo_db_scheme \<Rightarrow> bool" where
  "keeps D db \<longleftrightarrow> queue_ok db \<and>
     (\<forall>kind repo cs row. D kind repo cs = Some row \<longrightarrow>
        derive_get db kind repo cs = Some row \<and> \<not> unfinished (dr_state row))"

definition open_node :: "i64 \<Rightarrow> i64 \<Rightarrow> oid \<Rightarrow> 'a repo_db_scheme \<Rightarrow> bool" where
  "open_node kind repo cs db \<longleftrightarrow> (\<forall>row. derive_get db kind repo cs = Some row \<longrightarrow> unfinished (dr_state row))"

definition held :: "i64 \<Rightarrow> i64 \<Rightarrow> oid \<Rightarrow> 'a repo_db_scheme \<Rightarrow> bool" where
  "held kind repo cs db \<longleftrightarrow> (\<exists>row. derive_get db kind repo cs = Some row \<and> dr_state row = Ds_Deriving)"

lemma held_open: "held kind repo cs db \<Longrightarrow> open_node kind repo cs db"
  by (auto simp: held_def open_node_def unfinished_def)

lemma keeps_not_open: "keeps D db \<Longrightarrow> open_node kind repo cs db \<Longrightarrow> D kind repo cs = None"
  by (cases "D kind repo cs") (auto simp: keeps_def open_node_def)

lemma keeps_queue_ok: "keeps D db \<Longrightarrow> queue_ok db"
  by (simp add: keeps_def)

lemma keepsI:
  assumes "keeps D db" and "queue_ok db'"
    and "\<And>kind repo cs row. D kind repo cs = Some row \<Longrightarrow> derive_get db' kind repo cs = derive_get db kind repo cs"
  shows "keeps D db'"
  using assms by (simp add: keeps_def)

lemma keeps_update:
  assumes "keeps D db" and "\<And>r. node_key (f r) = node_key r"
    and "\<And>r. derive_get db kind repo cs = Some r \<Longrightarrow> row_ok r \<Longrightarrow> P r \<Longrightarrow> row_ok (f r) \<and> unfinished (dr_state r)"
  shows "keeps D (snd (update_node kind repo cs P f db))"
proof (rule keepsI [OF assms(1)])
  show "queue_ok (snd (update_node kind repo cs P f db))"
    by (rule queue_ok_update [OF keeps_queue_ok [OF assms(1)] assms(2)]) (use assms(3) in blast)
  fix k r c row assume D: "D k r c = Some row"
  then have g: "derive_get db k r c = Some row" "\<not> unfinished (dr_state row)" using assms(1) by (auto simp: keeps_def)
  show "derive_get (snd (update_node kind repo cs P f db)) k r c = derive_get db k r c"
  proof (cases "(k, r, c) = (kind, repo, cs)")
    case True
    then have "\<not> P row" using assms(3) [of row] g queue_ok_row [OF keeps_queue_ok [OF assms(1)] g(1)] by auto
    then show ?thesis using True g by (auto simp: derive_get_update [OF assms(2)])
  qed (auto simp: derive_get_update [OF assms(2)])
qed

lemma keeps_upsert:
  assumes "keeps D db" and "\<And>r. node_key (f r) = node_key r" and "row_ok row" and "node_key row = (kind, repo, cs)"
    and "\<And>r. derive_get db kind repo cs = Some r \<Longrightarrow> row_ok r \<Longrightarrow> row_ok (f r)" and "open_node kind repo cs db"
  shows "keeps D (upsert_node row f db)"
proof (rule keepsI [OF assms(1)])
  have k: "dr_kind row = kind" "dr_repo row = repo" "dr_cs row = cs" using assms(4) by (auto simp: node_key_def)
  show "queue_ok (upsert_node row f db)"
    by (rule queue_ok_upsert [OF keeps_queue_ok [OF assms(1)] assms(2,3)]) (use assms(5) in \<open>simp add: k\<close>)
  fix k r c row' assume "D k r c = Some row'"
  then have "(k, r, c) \<noteq> (kind, repo, cs)" using keeps_not_open [OF assms(1,6)] by auto
  then show "derive_get (upsert_node row f db) k r c = derive_get db k r c"
    by (auto simp: derive_get_upsert [OF assms(2,4)])
qed

lemma keeps_cong: "db_derive db = db_derive db' \<Longrightarrow> keeps D db = keeps D db'"
  by (simp add: keeps_def queue_ok_def derive_get_def)

lemma keeps_report [simp]: "keeps D (derive_report kind repo cs reason ts db) = keeps D db"
  by (rule keeps_cong) simp

lemma keeps_lease: "keeps D db \<Longrightarrow> keeps D (snd (derive_lease kind repo cs expires db))"
  unfolding derive_lease_def by (rule keeps_update) (auto simp: row_ok_def unfinished_def)

lemma lease_held:
  assumes "queue_ok db" and "fst (derive_lease kind repo cs expires db)"
  shows "held kind repo cs (snd (derive_lease kind repo cs expires db))"
  using assms update_node_hit [of db kind repo cs "\<lambda>r. dr_state r = Ds_Pending"]
  unfolding derive_lease_def held_def queue_ok_def by (auto simp: derive_get_update)

lemma keeps_release: "keeps D db \<Longrightarrow> keeps D (snd (derive_release_lease kind repo cs expires db))"
  unfolding derive_release_lease_def by (rule keeps_update) (auto simp: row_ok_def unfinished_def)

lemma keeps_record:
  "keeps D db \<Longrightarrow> length out \<le> DERIVE_MAX_OUTPUT_BYTES \<Longrightarrow> keeps D (snd (derive_record_done kind repo cs out tainted poison db))"
  unfolding derive_record_done_def by (auto intro!: keeps_update simp: row_ok_def unfinished_def)

lemma keeps_poison: "keeps D db \<Longrightarrow> open_node kind repo cs db \<Longrightarrow> keeps D (derive_poison_now kind repo cs reason now db)"
  unfolding derive_poison_now_def keeps_report
  by (rule keeps_upsert [where kind = kind and repo = repo and cs = cs]) (auto simp: row_ok_new, auto simp: row_ok_def)

lemma row_ok_failed: "row_ok r \<Longrightarrow> dr_state r \<noteq> Ds_Poison \<Longrightarrow> row_ok (failed_row r)"
  by (auto simp: row_ok_def failed_row_def Let_def DERIVE_MAX_ATTEMPTS_def)

lemma keeps_fail:
  assumes "keeps D db" and "open_node kind repo cs db"
  shows "keeps D (snd (derive_fail_attempt kind repo cs reason now db))"
proof (cases "changeset_exists db cs")
  case True
  let ?a = "i64_add (case derive_get db kind repo cs of None \<Rightarrow> 0 | Some r \<Rightarrow> dr_attempts r) 1"
  have open_row: "row_ok r \<and> unfinished (dr_state r)" if "derive_get db kind repo cs = Some r" for r
    using that assms queue_ok_row [OF keeps_queue_ok [OF assms(1)] that] by (simp add: open_node_def)
  have a: "0 < ?a \<and> ?a \<le> 3"
    using open_row by (auto simp: i64_add_small row_ok_def unfinished_def DERIVE_MAX_ATTEMPTS_def split: option.split)
  show ?thesis
  proof (cases "?a \<ge> DERIVE_MAX_ATTEMPTS")
    case c: True
    have "keeps D (upsert_node (new_row kind repo cs Ds_Poison ?a)
        (\<lambda>r. r\<lparr>dr_state := Ds_Poison, dr_lease := None, dr_attempts := ?a\<rparr>) db)"
      by (rule keeps_upsert [OF assms(1) _ _ _ _ assms(2)])
        (use a in \<open>auto simp: row_ok_def new_row_def DERIVE_MAX_ATTEMPTS_def node_key_def\<close>)
    then show ?thesis using True c by (simp add: derive_fail_attempt_def Let_def)
  next
    case c: False
    have "keeps D (upsert_node (new_row kind repo cs Ds_Pending ?a)
        (\<lambda>r. r\<lparr>dr_state := Ds_Pending, dr_lease := None, dr_attempts := ?a\<rparr>) db)"
      by (rule keeps_upsert [OF assms(1) _ _ _ _ assms(2)])
        (use a c in \<open>auto simp: row_ok_def new_row_def DERIVE_MAX_ATTEMPTS_def node_key_def\<close>)
    then show ?thesis using True c by (simp add: derive_fail_attempt_def Let_def)
  qed
qed (use assms in \<open>simp add: derive_fail_attempt_def\<close>)

section \<open>The environment\<close>

text \<open>
  What the queue task may assume of the other writers during a pass: they add rows to the queue and
  leave the present ones alone, and no changeset is collected.
\<close>

definition others_append :: "'a queue_env \<Rightarrow> bool" where
  "others_append env \<longleftrightarrow>
     (\<forall>n db. queue_ok db \<longrightarrow> queue_ok (qe_other env n db) \<and>
        (\<exists>rows. db_derive (qe_other env n db) = db_derive db @ rows))"

text \<open>A deriver writes its own tables only.\<close>

definition same_queue :: "'a repo_db_scheme \<Rightarrow> 'a repo_db_scheme \<Rightarrow> bool" where
  "same_queue db db' \<longleftrightarrow> db_derive db' = db_derive db \<and> db_changesets db' = db_changesets db \<and>
     db_parents db' = db_parents db"

definition own_tables :: "'a registered_kind \<Rightarrow> bool" where
  "own_tables kind \<longleftrightarrow> (\<forall>ctx db repo cs outs. same_queue db (snd (rk_derive kind ctx db repo cs outs)))"

lemma other_get:
  assumes "others_append env" and "queue_ok db" and "derive_get db kind repo cs = Some r"
  shows "derive_get (qe_other env n db) kind repo cs = Some r"
proof -
  obtain rows where "db_derive (qe_other env n db) = db_derive db @ rows" using assms(1,2) unfolding others_append_def by blast
  then show ?thesis using assms(3) by (simp add: derive_get_def find_append)
qed

lemma keeps_other: "others_append env \<Longrightarrow> keeps D db \<Longrightarrow> keeps D (qe_other env n db)"
  using other_get [of env db] unfolding keeps_def others_append_def by blast

lemma held_other: "others_append env \<Longrightarrow> queue_ok db \<Longrightarrow> held kind repo cs db \<Longrightarrow> held kind repo cs (qe_other env n db)"
  using other_get unfolding held_def by blast

lemma derive_node_same: "own_tables kind \<Longrightarrow> same_queue db (snd (derive_node kind repo cs clock window db))"
  unfolding derive_node_def Let_def own_tables_def by (simp add: split_beta)

lemma keeps_same: "same_queue db db' \<Longrightarrow> keeps D db' = keeps D db"
  unfolding same_queue_def by (rule keeps_cong) simp

lemma held_same: "same_queue db db' \<Longrightarrow> held kind repo cs db' = held kind repo cs db"
  by (simp add: same_queue_def held_def derive_get_def)

text \<open>Invariants of reads and writes.\<close>

lemma read_repo_inv:
  assumes "I (ps_db st)" and "\<And>n db. I db \<Longrightarrow> I (qe_other env n db)"
  shows "I (ps_db (snd (read_repo env f st)))"
  using assms by (simp add: read_repo_def Let_def)

lemma write_repo_inv:
  assumes "I (ps_db st)" and "\<And>n db. I db \<Longrightarrow> I (qe_other env n db)" and "\<And>db. I db \<Longrightarrow> I (snd (f db))"
  shows "I (ps_db (snd (write_repo env f st)))"
  using assms by (simp add: write_repo_def Let_def split_beta)

lemma write_repo_post:
  assumes "I (ps_db st)" and "\<And>n db. I db \<Longrightarrow> I (qe_other env n db)" and "\<And>db. I db \<Longrightarrow> fst (f db) = r \<Longrightarrow> J (snd (f db))"
    and "write_repo env f st = (Some r, st')"
  shows "J (ps_db st')"
  using assms by (auto simp: write_repo_def Let_def split_beta split: if_splits)

lemma write_repo_busy:
  assumes "I (ps_db st)" and "\<And>n db. I db \<Longrightarrow> I (qe_other env n db)" and "write_repo env f st = (None, st')"
  shows "I (ps_db st')"
  using assms by (auto simp: write_repo_def Let_def split_beta split: if_splits)

lemma report_add_db [simp]: "ps_db (report_add a b c d st) = ps_db st" "ps_access (report_add a b c d st) = ps_access st"
  by (simp_all add: report_add_def)

text \<open>The contract of a statement of the queue, and what a write under the slot makes of it.\<close>

locale queue_statement =
  fixes run :: "'a repo_db_scheme \<Rightarrow> 'r \<times> 'a repo_db_scheme"
  assumes run_keeps: "keeps D db \<Longrightarrow> keeps D (snd (run db))"
begin

lemma write_keeps:
  "others_append env \<Longrightarrow> keeps D (ps_db st) \<Longrightarrow> keeps D (ps_db (snd (write_repo env run st)))"
  by (rule write_repo_inv [of "keeps D"]) (simp_all add: run_keeps keeps_other)

end

interpretation lease: queue_statement "derive_lease kind repo cs expires" for kind repo cs expires
  by unfold_locales (rule keeps_lease)

interpretation release: queue_statement "derive_release_lease kind repo cs expires" for kind repo cs expires
  by unfold_locales (rule keeps_release)

lemma keeps_release_tries:
  assumes "others_append env" and "keeps D (ps_db st)"
  shows "keeps D (ps_db (release_tries tries env kind repo cs expires st))"
  using assms(2)
proof (induction tries arbitrary: st)
  case 0
  then show ?case
    using release.write_keeps [OF assms(1), of D st kind repo cs expires]
    by (auto simp: release_tries.simps [of 0] split: prod.split option.split)
next
  case (Suc tries)
  then show ?case
    using release.write_keeps [OF assms(1), of D st kind repo cs expires]
    by (auto simp: release_tries.simps [of "Suc tries"] split: prod.split option.split)
qed

section \<open>A pass keeps the queue well formed\<close>

fun turn_pass :: "'a turn \<Rightarrow> 'a pass" where
  "turn_pass (Go st) = st"
| "turn_pass (Stop st) = st"
| "turn_pass (Abort st) = st"

lemma record_failure_keeps:
  "keeps D db \<Longrightarrow> held (rk_id kind) repo cs db \<Longrightarrow> keeps D (snd (record_failure kind repo cs failure now db))"
  using keeps_fail [of D db "rk_id kind" repo cs] keeps_poison [of D db "rk_id kind" repo cs] held_open [of "rk_id kind" repo cs db]
  by (cases failure) (simp_all add: record_failure_def Let_def split_beta)

lemma held_inv:
  fixes env :: "'a queue_env"
  assumes others: "others_append env"
  shows "keeps D db \<and> held (rk_id kind) repo cs db \<Longrightarrow>
    keeps D (qe_other env n db) \<and> held (rk_id kind) repo cs (qe_other env n db)"
  using keeps_other [OF others] held_other [OF others] keeps_queue_ok by blast

lemma release_keeps:
  assumes others: "others_append env"
  shows "keeps D (ps_db st) \<Longrightarrow> keeps D (ps_db (release_lease_after_busy env k repo cs expires st))"
  unfolding release_lease_after_busy_def by (rule keeps_release_tries [OF others])

lemma after_failure_keeps:
  assumes others: "others_append env" and st: "keeps D (ps_db st) \<and> held (rk_id kind) repo cs (ps_db st)"
  shows "keeps D (ps_db (turn_pass (after_failure env kind repo cs expires failure st)))"
proof -
  let ?f = "record_failure kind repo cs failure (qe_now env (ps_access st))"
  obtain r st' where w: "write_repo env ?f st = (r, st')" by force
  have "keeps D (ps_db st')"
  proof (cases r)
    case None
    then show ?thesis using write_repo_busy [OF st held_inv [OF others]] w by blast
  next
    case (Some q)
    show ?thesis
      by (rule write_repo_post [where I = "\<lambda>db. keeps D db \<and> held (rk_id kind) repo cs db", OF _ _ _ w [unfolded Some]])
        (use st held_inv [OF others] in \<open>blast intro: record_failure_keeps\<close>)+
  qed
  then show ?thesis using release_keeps [OF others] by (simp add: after_failure_def Let_def w split: option.split)
qed

lemma after_derived_keeps:
  assumes others: "others_append env" and st: "keeps D (ps_db st) \<and> held (rk_id kind) repo cs (ps_db st)"
  shows "keeps D (ps_db (turn_pass (after_derived env kind repo cs expires out taint st)))"
proof (cases "length out > DERIVE_MAX_OUTPUT_BYTES")
  case True
  let ?f = "\<lambda>db. ((), derive_poison_now (rk_id kind) repo cs (Reason_Size_Cap (length out)) (qe_now env (ps_access st)) db)"
  obtain r st' where w: "write_repo env ?f st = (r, st')" by force
  have "keeps D (ps_db st')"
  proof (cases r)
    case None
    then show ?thesis using write_repo_busy [OF st held_inv [OF others]] w by blast
  next
    case (Some q)
    show ?thesis
      by (rule write_repo_post [where I = "\<lambda>db. keeps D db \<and> held (rk_id kind) repo cs db", OF _ _ _ w [unfolded Some]])
        (use st held_inv [OF others] in \<open>simp_all add: keeps_poison held_open\<close>)
  qed
  then show ?thesis using release_keeps [OF others] True by (simp add: after_derived_def Let_def w split: option.split)
next
  case False
  let ?f = "derive_record_done (rk_id kind) repo cs out (fst taint) (snd taint)"
  have "keeps D (ps_db (snd (write_repo env ?f st)))"
    by (rule write_repo_inv) (use st False keeps_other [OF others] in \<open>auto intro: keeps_record\<close>)
  then show ?thesis using release_keeps [OF others] False by (auto simp: after_derived_def split: prod.split option.split)
qed

lemma drain_turn_keeps:
  assumes others: "others_append env" and own: "own_tables kind" and st: "keeps D (ps_db st)"
  shows "keeps D (ps_db (turn_pass (drain_turn env kind repo st)))"
proof -
  obtain pick st1 where r: "read_repo env (\<lambda>db. derive_pick_next db (rk_id kind)) st = (pick, st1)" by force
  have k1: "keeps D (ps_db st1)"
    using read_repo_inv [of "keeps D" st env "\<lambda>db. derive_pick_next db (rk_id kind)"] st keeps_other [OF others] r by simp
  show ?thesis
  proof (cases pick)
    case None
    then show ?thesis using r k1 by (simp add: drain_turn_def)
  next
    case (Some rc)
    obtain r0 cs where pick: "pick = Some (r0, cs)" using Some by (cases rc) auto
    let ?e = "i64_saturating_add (qe_now env (ps_access st1)) (qe_lease env)"
    obtain l st2 where w: "write_repo env (derive_lease (rk_id kind) repo cs ?e) st1 = (l, st2)" by force
    have k2: "keeps D (ps_db st2)"
      using lease.write_keeps [OF others k1, of "rk_id kind" repo cs ?e] w by simp
    show ?thesis
    proof (cases "l = Some True")
      case True
      have h2: "keeps D (ps_db st2) \<and> held (rk_id kind) repo cs (ps_db st2)"
        by (rule write_repo_post [OF k1 keeps_other [OF others] _ w [unfolded True]])
          (auto simp: keeps_lease intro: lease_held keeps_queue_ok)
      let ?f = "derive_node kind repo cs (qe_clock env (ps_access st2)) (qe_window env)"
      obtain d st3 where w3: "write_repo env ?f st2 = (d, st3)" by force
      have h3: "keeps D (ps_db st3) \<and> held (rk_id kind) repo cs (ps_db st3)"
        using write_repo_inv [of "\<lambda>db. keeps D db \<and> held (rk_id kind) repo cs db" st2 env ?f, OF h2 held_inv [OF others]]
          keeps_same [OF derive_node_same [OF own]] held_same [OF derive_node_same [OF own]] w3 by simp
      show ?thesis
        using r pick w True w3 h3 release_keeps [OF others] after_failure_keeps [OF others h3] after_derived_keeps [OF others h3]
        by (auto simp: drain_turn_def Let_def split: option.split derive_result.split)
    next
      case False
      then show ?thesis using r pick w k2 by (auto simp: drain_turn_def Let_def split: option.split bool.split)
    qed
  qed
qed

lemma drain_keeps:
  assumes "drain env kind repo st = Some res" and "others_append env" and "own_tables kind" and "keeps D (ps_db st)"
  shows "keeps D (ps_db (case res of Inl st' \<Rightarrow> st' | Inr st' \<Rightarrow> st'))"
  using assms(2-4)
proof (induction rule: drain.raw_induct [OF _ assms(1)])
  case (1 drain env kind repo st res)
  note t = drain_turn_keeps [OF 1(3,4,5), of repo]
  show ?case
  proof (cases "drain_turn env kind repo st")
    case (Go st')
    with 1 t show ?thesis by simp
  qed (use 1(2) t in auto)
qed

section \<open>The sweep and the whole pass\<close>

lemma sweep_fold_keeps:
  assumes "keeps D db" and "distinct nodes" and "\<forall>(repo, cs) \<in> set nodes. open_node kind repo cs db"
  shows "keeps D (snd (fold (\<lambda>(repo, cs) (n, db).
      let (p, db) = derive_fail_attempt kind repo cs reason now db in (if p then n + 1 else n, db)) nodes (n, db)))"
  using assms
proof (induction nodes arbitrary: n db)
  case (Cons node nodes)
  obtain repo cs where node: "node = (repo, cs)" by force
  obtain p db' where f: "derive_fail_attempt kind repo cs reason now db = (p, db')" by force
  have o: "open_node kind repo cs db" using Cons.prems(3) node by simp
  have k: "keeps D db'" using keeps_fail [OF Cons.prems(1) o, of reason now] f by simp
  have "open_node kind repo' cs' db'" if m: "(repo', cs') \<in> set nodes" for repo' cs'
  proof (cases "changeset_exists db cs")
    case True
    have "(repo', cs') \<noteq> (repo, cs)" using Cons.prems(2) m node by auto
    then show ?thesis
      using derive_fail_attempt_get [OF keeps_queue_ok [OF Cons.prems(1)] True, of kind repo reason now kind repo' cs'] f m Cons.prems(3)
      by (auto simp: open_node_def)
  next
    case False
    then show ?thesis using f m Cons.prems(3) by (auto simp: derive_fail_attempt_def)
  qed
  then have "\<forall>(repo, cs) \<in> set nodes. open_node kind repo cs db'" by blast
  then show ?case using Cons.IH [OF k, of "if p then n + 1 else n"] Cons.prems(2) f node by simp
qed simp

lemma expired_distinct:
  assumes "queue_ok db"
  shows "distinct (derive_expired_leases db kind now)"
proof -
  let ?P = "\<lambda>r. dr_kind r = kind \<and> dr_state r = Ds_Deriving \<and> (case dr_lease r of None \<Rightarrow> False | Some e \<Rightarrow> e < now)"
  have d: "distinct (map node_key (filter ?P (db_derive db)))" using assms by (simp add: queue_ok_def distinct_map_filter)
  have "map node_key (filter ?P (db_derive db)) = map (Pair kind) (derive_expired_leases db kind now)"
    unfolding derive_expired_leases_def by (auto simp: node_key_def)
  with d show ?thesis by (metis distinct_map)
qed

lemma expired_open:
  assumes "queue_ok db" and "(repo, cs) \<in> set (derive_expired_leases db kind now)"
  shows "open_node kind repo cs db"
proof -
  obtain r where "r \<in> set (db_derive db)" "node_key r = (kind, repo, cs)" "dr_state r = Ds_Deriving"
    using assms(2) by (auto simp: derive_expired_leases_def node_key_def)
  then have "derive_get db kind repo cs = Some r" using derive_get_member assms(1) by (metis queue_ok_def)
  then show ?thesis using \<open>dr_state r = Ds_Deriving\<close> by (simp add: open_node_def unfinished_def)
qed

lemma sweep_rows_keeps:
  assumes "keeps D db"
  shows "keeps D (snd (sweep_rows kind now db))"
proof -
  have "\<forall>(repo, cs) \<in> set (derive_expired_leases db kind now). open_node kind repo cs db"
    using expired_open [OF keeps_queue_ok [OF assms]] by blast
  from sweep_fold_keeps [OF assms expired_distinct [OF keeps_queue_ok [OF assms]] this]
  show ?thesis by (simp add: sweep_rows_def Let_def split_beta)
qed

interpretation sweep: queue_statement "sweep_rows kind now" for kind now
  by unfold_locales (rule sweep_rows_keeps)

lemma sweep_expired_keeps:
  assumes others: "others_append env" and st: "keeps D (ps_db st)"
  shows "keeps D (ps_db (sweep_expired env kind st))"
proof -
  let ?now = "qe_now env (ps_access st)"
  obtain b st1 where r: "read_repo env (\<lambda>db. derive_expired_leases db (rk_id kind) ?now \<noteq> []) st = (b, st1)" by force
  have k1: "keeps D (ps_db st1)"
    using read_repo_inv [of "keeps D" st env "\<lambda>db. derive_expired_leases db (rk_id kind) ?now \<noteq> []"] st keeps_other [OF others] r by simp
  have k2: "keeps D (ps_db (snd (write_repo env (sweep_rows (rk_id kind) ?now) st1)))"
    by (rule sweep.write_keeps [OF others k1])
  show ?thesis
    using r k1 k2 by (auto simp: sweep_expired_def Let_def split: prod.split option.split)
qed

lemma sweeps_keep:
  "others_append env \<Longrightarrow> keeps D (ps_db st) \<Longrightarrow> keeps D (ps_db (fold (\<lambda>_ st. sweep_expired env kind st) repos st))"
  by (induction repos arbitrary: st) (simp_all add: sweep_expired_keeps)

definition end_db :: "'a pass + 'a pass \<Rightarrow> 'a repo_db_scheme" where
  "end_db res = ps_db (case res of Inl st \<Rightarrow> st | Inr st \<Rightarrow> st)"

lemma end_db_simps [simp]: "end_db (Inl st) = ps_db st" "end_db (Inr st) = ps_db st"
  by (simp_all add: end_db_def)

lemma drain_repos_keeps:
  assumes "others_append env" and "own_tables kind"
  shows "drain_repos env kind repos st = Some res \<Longrightarrow> keeps D (ps_db st) \<Longrightarrow> keeps D (end_db res)"
proof (induction repos arbitrary: st)
  case (Cons repo repos)
  then obtain res' where d: "drain env kind repo st = Some res'" by (auto split: option.splits)
  have k: "keeps D (end_db res')"
    using drain_keeps [OF d assms Cons.prems(2)] by (simp add: end_db_def)
  show ?case using Cons.IH Cons.prems(1) d k by (cases res') auto
qed auto

lemma derive_pass_keeps:
  assumes "others_append env"
  shows "derive_pass env kinds repos st = Some res \<Longrightarrow> \<forall>kind \<in> set kinds. own_tables kind \<Longrightarrow> keeps D (ps_db st) \<Longrightarrow>
    keeps D (end_db res)"
proof (induction kinds arbitrary: st)
  case (Cons kind kinds)
  let ?st = "fold (\<lambda>_ st. sweep_expired env kind st) repos st"
  obtain res' where d: "drain_repos env kind repos ?st = Some res'" using Cons.prems(1) by (auto simp: Let_def split: option.splits)
  have k: "keeps D (end_db res')"
    using drain_repos_keeps [OF assms _ d sweeps_keep [OF assms Cons.prems(3)]] Cons.prems(2) by simp
  show ?case using Cons.IH Cons.prems d k by (cases res') (auto simp: Let_def)
qed auto

lemma keeps_finished:
  assumes "queue_ok db"
  shows "keeps (\<lambda>kind repo cs. case derive_get db kind repo cs of None \<Rightarrow> None | Some r \<Rightarrow> if unfinished (dr_state r) then None else Some r) db"
  using assms by (auto simp: keeps_def split: option.splits if_splits)

end
