(* ===== verification/Queue_Progress.thy ===== *)
theory Queue_Progress
  imports Queue_Invariant
begin

text \<open>
  Progress of the derivation queue: the drain ends (a measure over the attempts left), it finishes every
  node under the stated conditions, and it spins when it meets a node of another repository; the walk
  budget; the boot backfill against its one-pass specification.
\<close>

section \<open>The drain ends\<close>

definition alone :: "'a queue_env \<Rightarrow> bool" where
  "alone env \<longleftrightarrow> (\<forall>n db. qe_other env n db = db)"

definition effort :: "derive_row \<Rightarrow> nat" where
  "effort r = (if unfinished (dr_state r) then nat (DERIVE_MAX_ATTEMPTS - dr_attempts r) else 0)"

definition effort_left :: "'a repo_db_scheme \<Rightarrow> nat" where
  "effort_left db = sum_list (map effort (db_derive db))"

definition one_repo :: "i64 \<Rightarrow> i64 \<Rightarrow> 'a repo_db_scheme \<Rightarrow> bool" where
  "one_repo kind repo db \<longleftrightarrow> (\<forall>r \<in> set (db_derive db). dr_kind r = kind \<longrightarrow> dr_repo r = repo \<and> changeset_exists db (dr_cs r))"

lemma sum_list_one:
  fixes w :: "'b \<Rightarrow> nat"
  assumes "distinct (map key xs)" and "x \<in> set xs" and "\<And>y. y \<in> set xs \<Longrightarrow> key y \<noteq> key x \<Longrightarrow> g y = y"
  shows "sum_list (map w (map g xs)) + w x = sum_list (map w xs) + w (g x)"
  using assms
proof (induction xs)
  case (Cons y ys)
  show ?case
  proof (cases "x = y")
    case True
    have "map g ys = ys" using Cons.prems True by (intro map_idI) (metis image_eqI list.set_intros(2) distinct.simps(2) list.simps(9) list.set_map)
    then show ?thesis using True by simp
  next
    case False
    then have x: "x \<in> set ys" using Cons.prems(2) by simp
    then have "key y \<noteq> key x" using Cons.prems(1) by auto
    then have "g y = y" using Cons.prems(3) by simp
    then show ?thesis using Cons.IH x Cons.prems by simp
  qed
qed simp

lemma effort_update:
  assumes "queue_ok db" and "derive_get db kind repo cs = Some r" and "P r"
  shows "effort_left (snd (update_node kind repo cs P f db)) + effort r = effort_left db + effort (f r)"
proof -
  have d: "distinct (map node_key (db_derive db))" using assms(1) by (simp add: queue_ok_def)
  have r: "node_key r = (kind, repo, cs)" "r \<in> set (db_derive db)" using derive_get_key [OF assms(2)] by auto
  show ?thesis
    using sum_list_one [OF d r(2), of "\<lambda>x. if is_node kind repo cs x \<and> P x then f x else x" effort] r assms(3)
    by (simp add: effort_left_def update_node_def is_node_key)
qed

text \<open>A write that settles one leased node: it spends one of the node's attempts, or finishes it.\<close>

definition same_nodes :: "'a repo_db_scheme \<Rightarrow> 'a repo_db_scheme \<Rightarrow> bool" where
  "same_nodes db db' \<longleftrightarrow> map node_key (db_derive db') = map node_key (db_derive db) \<and>
     db_changesets db' = db_changesets db \<and> db_parents db' = db_parents db"

definition settles :: "i64 \<Rightarrow> i64 \<Rightarrow> oid \<Rightarrow> 'a repo_db_scheme \<Rightarrow> 'a repo_db_scheme \<Rightarrow> bool" where
  "settles kind repo cs db db' \<longleftrightarrow> same_nodes db db' \<and> effort_left db' < effort_left db \<and>
     (\<forall>row. derive_get db' kind repo cs = Some row \<longrightarrow> dr_state row \<noteq> Ds_Deriving) \<and>
     (\<forall>kind' repo' cs'. (kind', repo', cs') \<noteq> (kind, repo, cs) \<longrightarrow> derive_get db' kind' repo' cs' = derive_get db kind' repo' cs')"

lemma settles_update:
  assumes "queue_ok db" and "derive_get db kind repo cs = Some r" and "P r" and "\<And>r. node_key (f r) = node_key r"
    and "effort (f r) < effort r" and "dr_state (f r) \<noteq> Ds_Deriving"
  shows "settles kind repo cs db (snd (update_node kind repo cs P f db))"
  using effort_update [OF assms(1,2), of P f] assms(2,3,5,6)
  by (auto simp: settles_def same_nodes_def update_node_keys assms(4) derive_get_update)

lemma settles_upsert:
  assumes "queue_ok db" and "derive_get db kind repo cs = Some r" and "\<And>r. node_key (f r) = node_key r"
    and "effort (f r) < effort r" and "dr_state (f r) \<noteq> Ds_Deriving" and "node_key row = (kind, repo, cs)"
  shows "settles kind repo cs db (upsert_node row f db)"
  using settles_update [OF assms(1,2), of "\<lambda>_. True" f] assms(2-6) by (simp add: upsert_node_def node_key_def)

lemma settles_cong: "db_derive db'' = db_derive db' \<Longrightarrow> db_changesets db'' = db_changesets db' \<Longrightarrow> db_parents db'' = db_parents db' \<Longrightarrow>
    settles kind repo cs db db'' = settles kind repo cs db db'"
  by (simp add: settles_def same_nodes_def effort_left_def derive_get_def)

lemma derive_report_frame [simp]:
  "db_derive (derive_report kind repo cs reason ts db) = db_derive db"
  "db_changesets (derive_report kind repo cs reason ts db) = db_changesets db"
  "db_parents (derive_report kind repo cs reason ts db) = db_parents db"
  by (simp_all add: derive_report_def)

lemma settles_report [simp]:
  "settles kind repo cs db (derive_report kind' repo' cs' reason ts db') = settles kind repo cs db db'"
  by (rule settles_cong) simp_all

lemma held_effort:
  assumes "queue_ok db" and "held kind repo cs db"
  obtains r where "derive_get db kind repo cs = Some r" and "0 < effort r" and "dr_state r = Ds_Deriving"
    and "0 \<le> dr_attempts r" and "dr_attempts r < DERIVE_MAX_ATTEMPTS"
proof -
  obtain r where r: "derive_get db kind repo cs = Some r" "dr_state r = Ds_Deriving" using assms(2) by (auto simp: held_def)
  then have "0 \<le> dr_attempts r \<and> dr_attempts r < DERIVE_MAX_ATTEMPTS" using queue_ok_row [OF assms(1) r(1)] by (simp add: row_ok_def)
  then show ?thesis using r by (intro that [of r]) (auto simp: effort_def unfinished_def)
qed

lemma settles_poison:
  assumes "queue_ok db" and "held kind repo cs db"
  shows "settles kind repo cs db (derive_poison_now kind repo cs reason now db)"
proof -
  obtain r where r: "derive_get db kind repo cs = Some r" "0 < effort r" by (rule held_effort [OF assms])
  show ?thesis unfolding derive_poison_now_def settles_report
    by (rule settles_upsert [OF assms(1) r(1)]) (use r in \<open>simp_all add: effort_def unfinished_def\<close>)
qed

lemma settles_record:
  assumes "queue_ok db" and "held kind repo cs db" and "changeset_exists db cs"
  shows "settles kind repo cs db (snd (derive_record_done kind repo cs out tainted poison db))"
proof -
  obtain r where r: "derive_get db kind repo cs = Some r" "0 < effort r" "dr_state r = Ds_Deriving" by (rule held_effort [OF assms(1,2)])
  show ?thesis using assms(3) unfolding derive_record_done_def
    by (simp, intro settles_update [OF assms(1) r(1)]) (use r in \<open>simp_all add: effort_def unfinished_def\<close>)
qed

lemma settles_fail:
  assumes "queue_ok db" and "held kind repo cs db" and "changeset_exists db cs"
  shows "settles kind repo cs db (snd (derive_fail_attempt kind repo cs reason now db))"
proof -
  obtain r where r: "derive_get db kind repo cs = Some r" "0 < effort r" "dr_state r = Ds_Deriving"
    "0 \<le> dr_attempts r" "dr_attempts r < DERIVE_MAX_ATTEMPTS" by (rule held_effort [OF assms(1,2)])
  have a: "i64_add (dr_attempts r) 1 = dr_attempts r + 1" using r by (simp add: i64_add_small DERIVE_MAX_ATTEMPTS_def)
  have "settles kind repo cs db (upsert_node (new_row kind repo cs s (dr_attempts r + 1))
      (\<lambda>r'. r'\<lparr>dr_state := s, dr_lease := None, dr_attempts := dr_attempts r + 1\<rparr>) db)" if "s \<noteq> Ds_Deriving" for s
    by (rule settles_upsert [OF assms(1) r(1)]) (use r that in \<open>auto simp: effort_def unfinished_def\<close>)
  then show ?thesis using assms(3) r(1) by (simp add: derive_fail_attempt_def Let_def a)
qed

lemma settles_failure:
  assumes "queue_ok db" and "held (rk_id kind) repo cs db" and "changeset_exists db cs"
  shows "settles (rk_id kind) repo cs db (snd (record_failure kind repo cs failure now db))"
  using settles_fail [OF assms] settles_poison [OF assms(1,2)]
  by (cases failure) (simp_all add: record_failure_def Let_def split_beta)

lemma settles_after:
  assumes "same_nodes db db1" and "effort_left db1 = effort_left db"
    and "\<And>kind' repo' cs'. (kind', repo', cs') \<noteq> (kind, repo, cs) \<Longrightarrow> derive_get db1 kind' repo' cs' = derive_get db kind' repo' cs'"
    and "settles kind repo cs db1 db2"
  shows "settles kind repo cs db db2"
  using assms by (simp add: settles_def same_nodes_def)

lemma settles_leased:
  assumes "queue_ok db" and "fst (derive_lease kind repo cs expires db)"
    and "same_queue (snd (derive_lease kind repo cs expires db)) db1" and "settles kind repo cs db1 db2"
  shows "settles kind repo cs db db2"
proof (rule settles_after [OF _ _ _ assms(4)])
  let ?f = "\<lambda>r. r\<lparr>dr_state := Ds_Deriving, dr_lease := Some expires\<rparr>"
  obtain r where r: "derive_get db kind repo cs = Some r" "dr_state r = Ds_Pending"
    using assms(1,2) update_node_hit [of db kind repo cs] by (auto simp: derive_lease_def queue_ok_def)
  have "effort_left (snd (derive_lease kind repo cs expires db)) + effort r = effort_left db + effort (?f r)"
    unfolding derive_lease_def by (rule effort_update [OF assms(1) r(1), where P = "\<lambda>r. dr_state r = Ds_Pending"]) (rule r(2))
  moreover have "effort (?f r) = effort r" using r by (simp add: effort_def unfinished_def)
  ultimately show "effort_left db1 = effort_left db" using assms(3) by (simp add: same_queue_def effort_left_def)
  show "same_nodes db db1" using assms(3)
    by (simp add: same_queue_def same_nodes_def derive_lease_def update_node_keys)
  fix kind' repo' cs' assume "(kind', repo', cs') \<noteq> (kind, repo, cs)"
  then show "derive_get db1 kind' repo' cs' = derive_get db kind' repo' cs'"
    using assms(3) derive_get_update [of ?f kind repo cs "\<lambda>r. dr_state r = Ds_Pending" db kind' repo' cs']
    by (auto simp: same_queue_def derive_lease_def derive_get_def)
qed

text \<open>One turn of the drain when nobody else writes.\<close>

lemma alone_others: "alone env \<Longrightarrow> others_append env"
  by (simp add: alone_def others_append_def)

lemma read_repo_alone: "alone env \<Longrightarrow> read_repo env f st = (r, st') \<Longrightarrow> r = f (ps_db st) \<and> ps_db st' = ps_db st"
  by (auto simp: read_repo_def alone_def)

lemma write_repo_alone:
  "alone env \<Longrightarrow> write_repo env f st = (r, st') \<Longrightarrow>
     (case r of None \<Rightarrow> qe_busy env (ps_access st) \<and> ps_db st' = ps_db st | Some x \<Rightarrow> f (ps_db st) = (x, ps_db st'))"
  by (auto simp: write_repo_def alone_def Let_def split_beta split: if_splits)

lemma pick_row:
  assumes "queue_ok db" and "derive_pick_next db kind = Some (repo, cs)"
  obtains r where "derive_get db kind repo cs = Some r" and "dr_state r = Ds_Pending" and "r \<in> set (db_derive db)"
    and "dr_kind r = kind" and "dr_repo r = repo" and "dr_cs r = cs"
proof -
  obtain r where "find (\<lambda>s. dr_kind s = kind \<and> dr_state s = Ds_Pending \<and> \<not> blocked db s) (db_derive db) = Some r"
    and k: "dr_repo r = repo" "dr_cs r = cs" using assms(2) by (auto simp: derive_pick_next_def)
  then have r: "r \<in> set (db_derive db)" "dr_kind r = kind" "dr_state r = Ds_Pending" by (auto simp: find_Some_iff)
  then have "derive_get db kind repo cs = Some r" using assms(1) k by (intro derive_get_member) (simp_all add: queue_ok_def node_key_def)
  with r k show ?thesis by (intro that)
qed

lemma lease_picked:
  assumes "queue_ok db" and "derive_pick_next db kind = Some (repo, cs)"
  shows "fst (derive_lease kind repo cs expires db)"
proof -
  obtain r where r: "derive_get db kind repo cs = Some r" "dr_state r = Ds_Pending" by (rule pick_row [OF assms])
  then show ?thesis unfolding derive_lease_def using assms(1) by (subst update_node_hit) (auto simp: queue_ok_def)
qed

lemma turn_node:
  assumes "alone env" and "own_tables kind" and "queue_ok (ps_db st)"
    and "write_repo env (derive_lease (rk_id kind) repo cs expires) st = (Some True, st1)"
    and "write_repo env (derive_node kind repo cs clock window) st1 = (Some d, st2)"
  shows "queue_ok (ps_db st2) \<and> held (rk_id kind) repo cs (ps_db st2) \<and>
    (changeset_exists (ps_db st2) cs \<longleftrightarrow> changeset_exists (ps_db st) cs) \<and>
    (\<forall>db. settles (rk_id kind) repo cs (ps_db st2) db \<longrightarrow> settles (rk_id kind) repo cs (ps_db st) db)"
proof -
  have l: "derive_lease (rk_id kind) repo cs expires (ps_db st) = (True, ps_db st1)" using write_repo_alone [OF assms(1,4)] by simp
  have n: "derive_node kind repo cs clock window (ps_db st1) = (d, ps_db st2)" using write_repo_alone [OF assms(1,5)] by simp
  have s: "same_queue (ps_db st1) (ps_db st2)" using derive_node_same [OF assms(2), of "ps_db st1" repo cs clock window] n by simp
  have "keeps (\<lambda>_ _ _. None) (ps_db st1)"
    using keeps_lease [of "\<lambda>_ _ _. None" "ps_db st" "rk_id kind" repo cs expires] assms(3) l by (simp add: keeps_def)
  then have "keeps (\<lambda>_ _ _. None) (ps_db st2)" using keeps_same [OF s] by simp
  then have q: "queue_ok (ps_db st2)" by (rule keeps_queue_ok)
  have h: "held (rk_id kind) repo cs (ps_db st2)" using lease_held [OF assms(3), of "rk_id kind" repo cs expires] l held_same [OF s] by simp
  have "db_changesets (ps_db st2) = db_changesets (ps_db st)"
    using s l update_node_frame(1) [of "rk_id kind" repo cs "\<lambda>r. dr_state r = Ds_Pending"] unfolding same_queue_def derive_lease_def by (metis snd_conv)
  then have c: "changeset_exists (ps_db st2) cs \<longleftrightarrow> changeset_exists (ps_db st) cs" by (simp add: changeset_exists_def)
  have "settles (rk_id kind) repo cs (ps_db st) db" if "settles (rk_id kind) repo cs (ps_db st2) db" for db
    by (rule settles_leased [where expires = expires, OF assms(3) _ _ that]) (use l s in simp_all)
  with q h c show ?thesis by blast
qed

lemma after_failure_settles:
  assumes "alone env" and "queue_ok (ps_db st)" and "held (rk_id kind) repo cs (ps_db st)" and "changeset_exists (ps_db st) cs"
    and "after_failure env kind repo cs expires failure st = Go st'"
  shows "settles (rk_id kind) repo cs (ps_db st) (ps_db st')"
proof -
  let ?f = "record_failure kind repo cs failure (qe_now env (ps_access st))"
  obtain r st1 where w: "write_repo env ?f st = (r, st1)" by force
  then obtain q where q: "r = Some q" using assms(5) by (cases r) (simp_all add: after_failure_def Let_def)
  then have "?f (ps_db st) = (q, ps_db st1)" using write_repo_alone [OF assms(1) w] by simp
  then have "settles (rk_id kind) repo cs (ps_db st) (ps_db st1)" using settles_failure [OF assms(2-4)] by (metis snd_conv)
  then show ?thesis using assms(5) w q by (auto simp: after_failure_def Let_def split: if_splits)
qed

lemma after_derived_settles:
  assumes "alone env" and "queue_ok (ps_db st)" and "held (rk_id kind) repo cs (ps_db st)" and "changeset_exists (ps_db st) cs"
    and "after_derived env kind repo cs expires out taint st = Go st'"
  shows "settles (rk_id kind) repo cs (ps_db st) (ps_db st')"
proof (cases "length out > DERIVE_MAX_OUTPUT_BYTES")
  case True
  let ?f = "\<lambda>db. ((), derive_poison_now (rk_id kind) repo cs (Reason_Size_Cap (length out)) (qe_now env (ps_access st)) db)"
  obtain r st1 where w: "write_repo env ?f st = (r, st1)" by force
  then obtain q where q: "r = Some q" using assms(5) True by (cases r) (simp_all add: after_derived_def Let_def)
  then have "ps_db st1 = derive_poison_now (rk_id kind) repo cs (Reason_Size_Cap (length out)) (qe_now env (ps_access st)) (ps_db st)"
    using write_repo_alone [OF assms(1) w] by simp
  then have "settles (rk_id kind) repo cs (ps_db st) (ps_db st1)" using settles_poison [OF assms(2,3)] by simp
  then show ?thesis using assms(5) w q True by (auto simp: after_derived_def Let_def)
next
  case False
  let ?f = "derive_record_done (rk_id kind) repo cs out (fst taint) (snd taint)"
  obtain r st1 where w: "write_repo env ?f st = (r, st1)" by force
  then obtain q where q: "r = Some q" using assms(5) False by (cases r) (simp_all add: after_derived_def Let_def)
  then have "?f (ps_db st) = (q, ps_db st1)" using write_repo_alone [OF assms(1) w] by simp
  then have "settles (rk_id kind) repo cs (ps_db st) (ps_db st1)" using settles_record [OF assms(2-4)] by (metis snd_conv)
  then show ?thesis using assms(5) w q False by (auto simp: after_derived_def Let_def)
qed

lemma drain_turn_settles:
  assumes alone: "alone env" and own: "own_tables kind" and q: "queue_ok (ps_db st)" and one: "one_repo (rk_id kind) repo (ps_db st)"
    and go: "drain_turn env kind repo st = Go st'"
  shows "\<exists>cs. settles (rk_id kind) repo cs (ps_db st) (ps_db st')"
proof -
  obtain pick st1 where r: "read_repo env (\<lambda>db. derive_pick_next db (rk_id kind)) st = (pick, st1)" by force
  then have p: "pick = derive_pick_next (ps_db st) (rk_id kind)" and e1: "ps_db st1 = ps_db st" using read_repo_alone [OF alone r] by auto
  obtain r0 cs where pick: "pick = Some (r0, cs)" using go r by (cases pick) (auto simp: drain_turn_def)
  then obtain row where row: "row \<in> set (db_derive (ps_db st))" "dr_kind row = rk_id kind" "dr_repo row = r0" "dr_cs row = cs"
    using pick_row [OF q] p by metis
  then have repo: "r0 = repo" and ex: "changeset_exists (ps_db st) cs" using one by (auto simp: one_repo_def)
  let ?e = "i64_saturating_add (qe_now env (ps_access st1)) (qe_lease env)"
  obtain l st2 where w: "write_repo env (derive_lease (rk_id kind) repo cs ?e) st1 = (l, st2)" by force
  then have "l \<noteq> None" using go r pick by (cases l) (simp_all add: drain_turn_def Let_def)
  then have l: "l = Some True"
    using write_repo_alone [OF alone w] lease_picked [OF q, of "rk_id kind" repo cs ?e] p pick repo e1 by (cases l) auto
  let ?f = "derive_node kind repo cs (qe_clock env (ps_access st2)) (qe_window env)"
  obtain d st3 where w3: "write_repo env ?f st2 = (d, st3)" by force
  then obtain result taint where d: "d = Some (result, taint)" using go r pick w l by (cases d) (auto simp: drain_turn_def Let_def)
  note node = turn_node [OF alone own q [folded e1] w [unfolded l] w3 [unfolded d], unfolded e1]
  have "settles (rk_id kind) repo cs (ps_db st3) (ps_db st')"
  proof (cases result)
    case (Derived out)
    then have "after_derived env kind repo cs ?e out taint st3 = Go st'" using go r pick w l w3 d by (simp add: drain_turn_def Let_def)
    then show ?thesis using after_derived_settles [OF alone] node ex by blast
  next
    case (Failed failure)
    then have "after_failure env kind repo cs ?e failure st3 = Go st'" using go r pick w l w3 d by (simp add: drain_turn_def Let_def)
    then show ?thesis using after_failure_settles [OF alone] node ex by blast
  qed (use go r pick w l w3 d in \<open>simp add: drain_turn_def Let_def\<close>)
  then show ?thesis using node by blast
qed

lemma keys_set: "map node_key xs = map node_key ys \<Longrightarrow> x \<in> set xs \<Longrightarrow> \<exists>y \<in> set ys. node_key y = node_key x"
  by (metis (mono_tags, lifting) imageE image_eqI image_set)

lemma one_repo_same:
  assumes "one_repo kind repo db" and "same_nodes db db'"
  shows "one_repo kind repo db'"
  unfolding one_repo_def
proof (intro ballI impI)
  fix r assume r: "r \<in> set (db_derive db')" "dr_kind r = kind"
  have "map node_key (db_derive db') = map node_key (db_derive db)" using assms(2) by (simp add: same_nodes_def)
  then obtain r' where "r' \<in> set (db_derive db)" "node_key r' = node_key r" using keys_set r(1) by metis
  then show "dr_repo r = repo \<and> changeset_exists db' (dr_cs r)"
    using assms r(2) by (auto simp: one_repo_def same_nodes_def node_key_def changeset_exists_def)
qed

lemma one_repo_settles: "one_repo kind repo db \<Longrightarrow> settles kind' repo' cs db db' \<Longrightarrow> one_repo kind repo db'"
  using one_repo_same by (auto simp: settles_def)

lemma drain_turn_ok:
  assumes "alone env" and "own_tables kind" and "queue_ok (ps_db st)" and "drain_turn env kind repo st = Go st'"
  shows "queue_ok (ps_db st')"
proof -
  have "keeps (\<lambda>_ _ _. None) (ps_db st)" using assms(3) by (simp add: keeps_def)
  from drain_turn_keeps [OF alone_others [OF assms(1)] assms(2) this, of repo]
  show ?thesis using assms(4) by (simp add: keeps_queue_ok)
qed

lemma drain_unfold: "drain env kind repo st = (case drain_turn env kind repo st of
    Go st \<Rightarrow> drain env kind repo st | Stop st \<Rightarrow> Some (Inr st) | Abort st \<Rightarrow> Some (Inl st))"
  by (rule drain.simps)

lemma drain_alone_ends:
  assumes "alone env" and "own_tables kind"
  shows "queue_ok (ps_db st) \<Longrightarrow> one_repo (rk_id kind) repo (ps_db st) \<Longrightarrow> \<exists>res. drain env kind repo st = Some res"
proof (induction "effort_left (ps_db st)" arbitrary: st rule: less_induct)
  case less
  show ?case
  proof (cases "drain_turn env kind repo st")
    case (Go st')
    obtain cs where s: "settles (rk_id kind) repo cs (ps_db st) (ps_db st')" using drain_turn_settles [OF assms less.prems Go] by blast
    then have "\<exists>res. drain env kind repo st' = Some res"
      using less.hyps drain_turn_ok [OF assms less.prems(1) Go] one_repo_settles [OF less.prems(2) s] by (simp add: settles_def)
    then show ?thesis using Go by (subst drain_unfold) simp
  qed (subst drain_unfold, simp)+
qed

text \<open>A deriver that neither panics nor overruns its deadline, and a write slot that is always free.\<close>

definition steady :: "'a registered_kind \<Rightarrow> bool" where
  "steady kind \<longleftrightarrow> (\<forall>ctx db repo cs outs.
     (case fst (rk_derive kind ctx db repo cs outs) of Derived _ \<Rightarrow> True | Failed failure \<Rightarrow> \<not> is_deadline failure | Panicked \<Rightarrow> False))"

definition slot_free :: "'a queue_env \<Rightarrow> bool" where
  "slot_free env \<longleftrightarrow> (\<forall>n. \<not> qe_busy env n)"

lemma write_repo_free: "slot_free env \<Longrightarrow> \<exists>r st'. write_repo env f st = (Some r, st')"
  by (auto simp: write_repo_def slot_free_def Let_def split_beta)

lemma derive_node_steady:
  "steady kind \<Longrightarrow> case fst (fst (derive_node kind repo cs clock window db)) of
     Derived _ \<Rightarrow> True | Failed failure \<Rightarrow> \<not> is_deadline failure | Panicked \<Rightarrow> False"
  unfolding derive_node_def Let_def steady_def by (simp add: split_beta)

lemma after_failure_go: "slot_free env \<Longrightarrow> \<not> is_deadline failure \<Longrightarrow> \<exists>st'. after_failure env kind repo cs expires failure st = Go st'"
  using write_repo_free [of env "record_failure kind repo cs failure (qe_now env (ps_access st))" st]
  by (auto simp: after_failure_def Let_def)

lemma after_derived_go: "slot_free env \<Longrightarrow> \<exists>st'. after_derived env kind repo cs expires out taint st = Go st'"
  using write_repo_free [of env "derive_record_done (rk_id kind) repo cs out (fst taint) (snd taint)" st]
    write_repo_free [of env "\<lambda>db. ((), derive_poison_now (rk_id kind) repo cs (Reason_Size_Cap (length out)) (qe_now env (ps_access st)) db)" st]
  by (auto simp: after_derived_def Let_def)

lemma drain_turn_steady:
  assumes alone: "alone env" and free: "slot_free env" and steady: "steady kind"
  shows "(\<exists>st'. drain_turn env kind repo st = Go st') \<or>
    (\<exists>st'. drain_turn env kind repo st = Stop st' \<and> ps_db st' = ps_db st \<and> derive_pick_next (ps_db st) (rk_id kind) = None)"
proof -
  obtain pick st1 where r: "read_repo env (\<lambda>db. derive_pick_next db (rk_id kind)) st = (pick, st1)" by force
  note p = read_repo_alone [OF alone r]
  show ?thesis
  proof (cases pick)
    case None
    then show ?thesis using r p by (auto simp: drain_turn_def)
  next
    case (Some rc)
    obtain r0 cs where pick: "pick = Some (r0, cs)" using Some by (cases rc) auto
    let ?e = "i64_saturating_add (qe_now env (ps_access st1)) (qe_lease env)"
    obtain l st2 where w: "write_repo env (derive_lease (rk_id kind) repo cs ?e) st1 = (Some l, st2)"
      using write_repo_free [OF free, of "derive_lease (rk_id kind) repo cs ?e" st1] by blast
    let ?f = "derive_node kind repo cs (qe_clock env (ps_access st2)) (qe_window env)"
    obtain result taint st3 where w3: "write_repo env ?f st2 = (Some (result, taint), st3)"
      using write_repo_free [OF free, of ?f st2] by auto
    have "?f (ps_db st2) = ((result, taint), ps_db st3)" using write_repo_alone [OF alone w3] by simp
    then have s: "case result of Derived _ \<Rightarrow> True | Failed failure \<Rightarrow> \<not> is_deadline failure | Panicked \<Rightarrow> False"
      using derive_node_steady [OF steady, of repo cs "qe_clock env (ps_access st2)" "qe_window env" "ps_db st2"] by simp
    have "\<exists>st'. drain_turn env kind repo st = Go st'"
      using r pick w w3 s after_failure_go [OF free] after_derived_go [OF free]
      by (cases l; cases result) (auto simp: drain_turn_def Let_def)
    then show ?thesis by blast
  qed
qed

definition none_leased :: "i64 \<Rightarrow> 'a repo_db_scheme \<Rightarrow> bool" where
  "none_leased kind db \<longleftrightarrow> (\<forall>r \<in> set (db_derive db). dr_kind r = kind \<longrightarrow> dr_state r \<noteq> Ds_Deriving)"

lemma none_leased_settles:
  assumes "none_leased kind db" and "queue_ok db" and "queue_ok db'" and "settles kind repo cs db db'"
  shows "none_leased kind db'"
  unfolding none_leased_def
proof (intro ballI impI)
  fix r assume r: "r \<in> set (db_derive db')" "dr_kind r = kind"
  have g: "derive_get db' kind (dr_repo r) (dr_cs r) = Some r"
    using derive_get_member [of db' r] r assms(3) by (simp add: queue_ok_def node_key_def)
  show "dr_state r \<noteq> Ds_Deriving"
  proof (cases "(dr_repo r, dr_cs r) = (repo, cs)")
    case True
    then show ?thesis using g assms(4) by (auto simp: settles_def)
  next
    case False
    then have "derive_get db kind (dr_repo r) (dr_cs r) = Some r" using g assms(4) by (auto simp: settles_def)
    then have "r \<in> set (db_derive db)" using derive_get_key by blast
    then show ?thesis using assms(1) r(2) by (simp add: none_leased_def)
  qed
qed

lemma drain_steady:
  assumes "alone env" and "slot_free env" and "own_tables kind" and "steady kind"
  shows "queue_ok (ps_db st) \<Longrightarrow> one_repo (rk_id kind) repo (ps_db st) \<Longrightarrow> none_leased (rk_id kind) (ps_db st) \<Longrightarrow>
    \<exists>st'. drain env kind repo st = Some (Inr st') \<and> same_nodes (ps_db st) (ps_db st') \<and> queue_ok (ps_db st') \<and>
      none_leased (rk_id kind) (ps_db st') \<and> derive_pick_next (ps_db st') (rk_id kind) = None"
proof (induction "effort_left (ps_db st)" arbitrary: st rule: less_induct)
  case less
  show ?case
  proof (cases "\<exists>st'. drain_turn env kind repo st = Go st'")
    case True
    then obtain st' where Go: "drain_turn env kind repo st = Go st'" by blast
    obtain cs where s: "settles (rk_id kind) repo cs (ps_db st) (ps_db st')" using drain_turn_settles [OF assms(1,3) less.prems(1,2) Go] by blast
    have q: "queue_ok (ps_db st')" by (rule drain_turn_ok [OF assms(1,3) less.prems(1) Go])
    obtain st'' where "drain env kind repo st' = Some (Inr st'')" "same_nodes (ps_db st') (ps_db st'')" "queue_ok (ps_db st'')"
      "none_leased (rk_id kind) (ps_db st'')" "derive_pick_next (ps_db st'') (rk_id kind) = None"
      using less.hyps [OF _ q one_repo_settles [OF less.prems(2) s] none_leased_settles [OF less.prems(3,1) q s]] s
      by (auto simp: settles_def)
    moreover from this s have "same_nodes (ps_db st) (ps_db st'')" by (auto simp: settles_def same_nodes_def)
    ultimately show ?thesis using Go by (subst drain_unfold) auto
  next
    case False
    then obtain st' where "drain_turn env kind repo st = Stop st'" "ps_db st' = ps_db st" "derive_pick_next (ps_db st) (rk_id kind) = None"
      using drain_turn_steady [OF assms(1,2,4)] by blast
    then show ?thesis using less.prems by (subst drain_unfold) (simp add: same_nodes_def)
  qed
qed

text \<open>With nothing leased, an eligible node exists as long as one is pending: take one of least rank.\<close>

lemma pick_none_finished:
  assumes pick: "derive_pick_next db kind = None" and free: "none_leased kind db"
    and one: "one_repo kind repo db" and rank: "\<forall>cs. \<forall>p \<in> set (parents_of db repo cs). rank p < (rank cs :: nat)"
  shows "r \<in> set (db_derive db) \<Longrightarrow> dr_kind r = kind \<Longrightarrow> \<not> unfinished (dr_state r)"
proof (induction "rank (dr_cs r)" arbitrary: r rule: less_induct)
  case less
  show ?case
  proof
    assume "unfinished (dr_state r)"
    then have "dr_state r = Ds_Pending" using free less.prems by (auto simp: unfinished_def none_leased_def)
    then have "blocked db r" using pick less.prems by (auto simp: derive_pick_next_def find_None_iff)
    then obtain p d where p: "p \<in> set (parents_of db (dr_repo r) (dr_cs r))" and d: "d \<in> set (db_derive db)"
      "is_node (dr_kind r) (dr_repo r) p d" "unfinished (dr_state d)" by (auto simp: blocked_def list_ex_iff)
    then show False using less.hyps [of d] rank one less.prems by (auto simp: is_node_def one_repo_def)
  qed
qed

lemma finished_states: "\<not> unfinished s \<Longrightarrow> s = Ds_Done \<or> s = Ds_Poison"
  by (cases s) (simp_all add: unfinished_def)

lemma drain_livelock:
  assumes "alone env" and "slot_free env" and "derive_pick_next (ps_db st) (rk_id kind) = Some (other, cs)"
    and "derive_get (ps_db st) (rk_id kind) repo cs = None"
  shows "drain env kind repo st = None"
proof -
  have False if "drain env kind repo st = Some res" for res
    using assms
  proof (induction rule: drain.raw_induct [OF _ that])
    case (1 drain env kind repo st res)
    obtain pick st1 where r: "read_repo env (\<lambda>db. derive_pick_next db (rk_id kind)) st = (pick, st1)" by force
    note p = read_repo_alone [OF 1(3) r]
    let ?e = "i64_saturating_add (qe_now env (ps_access st1)) (qe_lease env)"
    obtain l st2 where w: "write_repo env (derive_lease (rk_id kind) repo cs ?e) st1 = (Some l, st2)"
      using write_repo_free [OF 1(4), of "derive_lease (rk_id kind) repo cs ?e" st1] by blast
    have upd: "update_node (rk_id kind) repo cs P f (ps_db st) = (False, ps_db st)" for P f
    proof -
      have "\<not> is_node (rk_id kind) repo cs r" if "r \<in> set (db_derive (ps_db st))" for r
        using 1(6) that by (auto simp: derive_get_def find_None_iff)
      moreover from this have "map (\<lambda>r. if is_node (rk_id kind) repo cs r \<and> P r then f r else r) (db_derive (ps_db st)) = db_derive (ps_db st)"
        by (intro map_idI) simp
      ultimately show ?thesis by (auto simp: update_node_def list_ex_iff)
    qed
    have l: "l = False" "ps_db st2 = ps_db st" using write_repo_alone [OF 1(3) w] p upd by (auto simp: derive_lease_def)
    have "drain_turn env kind repo st = Go st2" using r w p 1(5) l by (simp add: drain_turn_def Let_def)
    then show ?case using 1(1) [of env kind repo st2 res] 1(2-6) l by simp
  qed
  then show ?thesis by (cases "drain env kind repo st") auto
qed

section \<open>The walk budget\<close>

fun run_charges :: "(u64 \<times> u64 \<times> u64) list \<Rightarrow> derive_ctx \<Rightarrow> (derive_failure + unit) \<times> derive_ctx" where
  "run_charges [] ctx = (Inr (), ctx)"
| "run_charges ((clock, clock', n) # cs) ctx =
     (case ctx_charge clock clock' n ctx of
        (Inl e, ctx) \<Rightarrow> (Inl e, ctx)
      | (Inr _, ctx) \<Rightarrow> run_charges cs ctx)"

definition charged :: "(u64 \<times> u64 \<times> u64) list \<Rightarrow> nat" where
  "charged cs = sum_list (map (\<lambda>(_, _, n). unat n) cs)"

lemma ctx_charge_cases:
  "dc_deadline ctx \<le> clock \<Longrightarrow> \<exists>e. ctx_charge clock clock' n ctx = (Inl e, ctx\<lparr>dc_remaining := 0\<rparr>)"
  "clock < dc_deadline ctx \<Longrightarrow> ctx_charge clock clock' 0 ctx = (Inr (), ctx)"
  "clock < dc_deadline ctx \<Longrightarrow> n \<noteq> 0 \<Longrightarrow> dc_remaining ctx \<le> n \<Longrightarrow>
     ctx_charge clock clock' n ctx = (Inl Walk_Budget, ctx\<lparr>dc_remaining := 0\<rparr>)"
  "clock < dc_deadline ctx \<Longrightarrow> n \<noteq> 0 \<Longrightarrow> n < dc_remaining ctx \<Longrightarrow>
     ctx_charge clock clock' n ctx = (Inr (), ctx\<lparr>dc_remaining := dc_remaining ctx - n, dc_spent := dc_spent ctx + n\<rparr>)"
  by (simp_all add: ctx_charge_def Let_def not_le)

lemma charged_simps: "charged [] = 0" "charged ((clock, clock', n) # cs) = unat n + charged cs"
  by (simp_all add: charged_def)

lemma run_charges_outcome:
  assumes "\<forall>(clock, _, _) \<in> set cs. clock < dc_deadline ctx"
  shows "fst (run_charges cs ctx) = (if charged cs < unat (dc_remaining ctx) \<or> charged cs = 0 then Inr () else Inl Walk_Budget)"
  using assms
proof (induction cs arbitrary: ctx)
  case (Cons c cs)
  obtain clock clock' n where c: "c = (clock, clock', n)" by (cases c)
  have live: "clock < dc_deadline ctx" using Cons.prems c by auto
  consider "n = 0" | "n \<noteq> 0" "dc_remaining ctx \<le> n" | "n \<noteq> 0" "n < dc_remaining ctx" by fastforce
  then show ?case
  proof cases
    case 1
    then show ?thesis using Cons.IH [of ctx] Cons.prems c live by (simp add: ctx_charge_cases charged_simps)
  next
    case 2
    then have "unat (dc_remaining ctx) \<le> unat n" "unat n \<noteq> 0" by (simp_all add: word_le_nat_alt unat_eq_0)
    then show ?thesis using 2 c live by (simp add: ctx_charge_cases charged_simps)
  next
    case 3
    let ?ctx = "ctx\<lparr>dc_remaining := dc_remaining ctx - n, dc_spent := dc_spent ctx + n\<rparr>"
    have u: "unat (dc_remaining ctx - n) = unat (dc_remaining ctx) - unat n" "unat n < unat (dc_remaining ctx)" "unat n \<noteq> 0"
      using 3 by (simp_all add: unat_sub word_less_nat_alt unat_eq_0 order.strict_implies_order)
    have "fst (run_charges (c # cs) ctx) = fst (run_charges cs ?ctx)" using 3 c live by (simp add: ctx_charge_cases)
    then show ?thesis using Cons.IH [of ?ctx] Cons.prems u c by (simp add: charged_simps less_diff_conv add.commute)
  qed
qed (simp add: charged_simps)

lemma run_charges_spent:
  assumes "run_charges cs ctx = (Inr (), ctx')" and "unat (dc_spent ctx) + unat (dc_remaining ctx) < 2 ^ 64"
  shows "unat (dc_spent ctx') = unat (dc_spent ctx) + charged cs \<and>
    unat (dc_spent ctx') + unat (dc_remaining ctx') = unat (dc_spent ctx) + unat (dc_remaining ctx) \<and>
    (\<forall>(clock, _, _) \<in> set cs. clock < dc_deadline ctx)"
  using assms
proof (induction cs arbitrary: ctx)
  case (Cons c cs)
  obtain clock clock' n where c: "c = (clock, clock', n)" by (cases c)
  have live: "clock < dc_deadline ctx"
    using Cons.prems(1) c ctx_charge_cases(1) [of ctx clock clock' n] by (cases "clock < dc_deadline ctx") (auto simp: not_less)
  consider "n = 0" | "n \<noteq> 0" "n < dc_remaining ctx" using Cons.prems(1) c ctx_charge_cases(3) [OF live, of n clock'] by fastforce
  then show ?case
  proof cases
    case 1
    then show ?thesis using Cons.IH [of ctx] Cons.prems c live by (auto simp: ctx_charge_cases charged_simps)
  next
    case 2
    let ?ctx = "ctx\<lparr>dc_remaining := dc_remaining ctx - n, dc_spent := dc_spent ctx + n\<rparr>"
    have u: "unat (dc_remaining ctx - n) = unat (dc_remaining ctx) - unat n" "unat n < unat (dc_remaining ctx)"
      using 2 by (simp_all add: unat_sub word_less_nat_alt order.strict_implies_order)
    then have s: "unat (dc_spent ctx + n) = unat (dc_spent ctx) + unat n" using Cons.prems(2) by (simp add: unat_word_ariths)
    have "run_charges cs ?ctx = (Inr (), ctx')" using Cons.prems(1) 2 c live by (simp add: ctx_charge_cases)
    then show ?thesis using Cons.IH [of ?ctx] Cons.prems(2) u s c live by (auto simp: charged_simps)
  qed
qed (simp add: charged_simps)

section \<open>The backfill\<close>

text \<open>What the boot backfill has to enqueue after a cursor, oldest generation first.\<close>

definition todo :: "'a repo_db_scheme \<Rightarrow> i64 \<Rightarrow> i64 \<times> int \<Rightarrow> changeset_row list" where
  "todo db kind c = filter (\<lambda>r. c < cursor_of r \<and> rowless db kind r) (sort_key cursor_of (db_changesets db))"

definition changesets_ok :: "'a repo_db_scheme \<Rightarrow> bool" where
  "changesets_ok db \<longleftrightarrow> distinct (map cr_rowid (db_changesets db)) \<and> distinct (map (\<lambda>r. (cr_repo r, cr_id r)) (db_changesets db)) \<and>
     (\<forall>r \<in> set (db_changesets db). 0 \<le> cr_generation r)"

definition enqueue_rows :: "i64 \<Rightarrow> changeset_row list \<Rightarrow> 'a repo_db_scheme \<Rightarrow> 'a repo_db_scheme" where
  "enqueue_rows kind rows db = db\<lparr>db_derive := db_derive db @ map (\<lambda>c. new_row kind (cr_repo c) (cr_id c) Ds_Pending 0) rows\<rparr>"

lemma backfill_rows_todo: "backfill_rows db kind cursor limit = take (nat limit) (todo db kind (bc_generation cursor, bc_rowid cursor))"
  by (simp add: backfill_rows_def todo_def filter_sort)

lemma sorted_distinct_split:
  assumes "sorted (map f xs)" and "distinct (map f xs)" and "0 < n" and "xs \<noteq> []"
  shows "filter (\<lambda>x. f (last (take n xs)) < f x) xs = drop n (xs :: 'b list)"
proof -
  let ?l = "last (take n xs)"
  have l: "?l \<in> set (take n xs)" using assms(3,4) by (intro last_in_set) simp
  have "\<not> f ?l < f x" if x: "x \<in> set (take n xs)" for x
  proof -
    have "sorted (map f (butlast (take n xs) @ [?l]))" using assms(1,3,4) by (simp add: sorted_map take_map [symmetric] sorted_wrt_take append_butlast_last_id)
    moreover have "x \<in> set (butlast (take n xs) @ [?l])" using x assms(3,4) by (subst append_butlast_last_id) simp_all
    ultimately show ?thesis by (auto simp: sorted_append)
  qed
  moreover have "f ?l < f x" if x: "x \<in> set (drop n xs)" for x
  proof -
    have "sorted (map f (take n xs) @ map f (drop n xs))" "distinct (map f (take n xs) @ map f (drop n xs))"
      using assms(1,2) by (simp_all flip: map_append)
    then have "f ?l \<le> f x" "f ?l \<noteq> f x" using l x by (auto simp: sorted_append)
    then show ?thesis by simp
  qed
  ultimately have "filter (\<lambda>x. f ?l < f x) (take n xs @ drop n xs) = drop n xs" unfolding filter_append by (simp add: filter_empty_conv)
  then show ?thesis by simp
qed

lemma rowless_enqueue:
  "rowless (enqueue_rows kind rows db) kind r \<longleftrightarrow> rowless db kind r \<and> (\<forall>c \<in> set rows. (cr_repo c, cr_id c) \<noteq> (cr_repo r, cr_id r))"
  unfolding rowless_def enqueue_rows_def derive_get_append
  by (auto simp: find_None_iff is_node_key new_row_def node_key_def split: option.split)

lemma enqueue_changesets [simp]: "db_changesets (enqueue_rows kind rows db) = db_changesets db"
  by (simp add: enqueue_rows_def)

lemma todo_step:
  assumes "changesets_ok db" and "0 < n" and "todo db kind c \<noteq> []"
  shows "todo (enqueue_rows kind (take n (todo db kind c)) db) kind (cursor_of (last (take n (todo db kind c)))) = drop n (todo db kind c)"
proof -
  let ?T = "todo db kind c" and ?S = "sort_key cursor_of (db_changesets db)"
  let ?db = "enqueue_rows kind (take n ?T) db" and ?l = "last (take n ?T)"
  have d: "distinct (map cursor_of ?S)" "distinct (map (\<lambda>r. (cr_repo r, cr_id r)) ?S)"
    using assms(1) unfolding changesets_ok_def by (auto simp: distinct_map inj_on_def cursor_of_def)
  have sT: "sorted (map cursor_of ?T)" unfolding todo_def by (rule sorted_filter) simp
  have dT: "distinct (map cursor_of ?T)" "distinct (map (\<lambda>r. (cr_repo r, cr_id r)) ?T)"
    using d by (simp_all add: todo_def distinct_map_filter)
  have l: "?l \<in> set ?T" using assms(2,3) by (metis in_set_takeD last_in_set take_eq_Nil not_gr_zero)
  then have cl: "c < cursor_of ?l" by (simp add: todo_def)
  have free: "rowless ?db kind r" if "r \<in> set (drop n ?T)" for r
  proof -
    have "distinct (map (\<lambda>r. (cr_repo r, cr_id r)) (take n ?T) @ map (\<lambda>r. (cr_repo r, cr_id r)) (drop n ?T))"
      using dT(2) by (simp flip: map_append)
    moreover have "rowless db kind r" using in_set_dropD [OF that] by (simp add: todo_def)
    ultimately show ?thesis using that by (auto simp: rowless_enqueue)
  qed
  have "todo ?db kind (cursor_of ?l) = filter (\<lambda>r. cursor_of ?l < cursor_of r \<and> rowless ?db kind r) ?T"
    using cl unfolding todo_def filter_filter enqueue_changesets by (intro filter_cong refl) (auto simp: rowless_enqueue)
  also have "\<dots> = filter (rowless ?db kind) (filter (\<lambda>r. cursor_of ?l < cursor_of r) ?T)" by (simp add: filter_filter conj_commute)
  also have "\<dots> = filter (rowless ?db kind) (drop n ?T)" by (simp add: sorted_distinct_split [OF sT dT(1) assms(2,3)])
  also have "\<dots> = drop n ?T" using free by (simp add: filter_id_conv)
  finally show ?thesis .
qed

lemma enqueue_rows_append: "enqueue_rows kind ys (enqueue_rows kind xs db) = enqueue_rows kind (xs @ ys) db"
  by (simp add: enqueue_rows_def)

lemma enqueue_rows_Nil [simp]: "enqueue_rows kind [] db = db"
  by (simp add: enqueue_rows_def)

lemma backfill_step_alone:
  assumes "alone env" and "slot_free env"
  shows "\<exists>st'. backfill_step env f st = (Some (fst (f (ps_db st))), st') \<and> ps_db st' = snd (f (ps_db st))"
proof -
  obtain r st' where w: "write_repo env f st = (Some r, st')" using write_repo_free [OF assms(2), of f st] by blast
  then have "backfill_step env f st = (Some r, st')"
    unfolding backfill_step_def by (subst write_retry.simps) simp
  moreover have "f (ps_db st) = (r, ps_db st')" using write_repo_alone [OF assms(1) w] by simp
  ultimately show ?thesis by auto
qed

lemma backfill_batch_todo:
  assumes "0 < limit"
  shows "derive_backfill_batch kind cursor limit db =
    (let rows = take (nat limit) (todo db kind (bc_generation cursor, bc_rowid cursor)) in
     if rows = [] then ((0, cursor), db)
     else ((length rows, \<lparr>bc_generation = cr_generation (last rows), bc_rowid = int (cr_rowid (last rows))\<rparr>),
           enqueue_rows kind rows db))"
  using assms by (simp add: derive_backfill_batch_def backfill_rows_todo enqueue_rows_def Let_def)

lemma backfill_batches_alone:
  assumes "alone env" and "slot_free env" and "0 < limit"
  shows "changesets_ok (ps_db st) \<Longrightarrow> \<exists>st'. backfill_batches env kind limit cursor st = Some (True, st') \<and>
    ps_db st' = enqueue_rows kind (todo (ps_db st) kind (bc_generation cursor, bc_rowid cursor)) (ps_db st)"
proof (induction "length (todo (ps_db st) kind (bc_generation cursor, bc_rowid cursor))" arbitrary: cursor st rule: less_induct)
  case less
  let ?T = "todo (ps_db st) kind (bc_generation cursor, bc_rowid cursor)" and ?n = "nat limit"
  obtain st1 where b: "backfill_step env (derive_backfill_batch kind cursor limit) st =
      (Some (fst (derive_backfill_batch kind cursor limit (ps_db st))), st1)"
    and d: "ps_db st1 = snd (derive_backfill_batch kind cursor limit (ps_db st))"
    using backfill_step_alone [OF assms(1,2)] by blast
  show ?case
  proof (cases "?T = []")
    case True
    then show ?thesis using b d assms(3) by (subst backfill_batches.simps) (simp add: backfill_batch_todo)
  next
    case False
    let ?rows = "take ?n ?T"
    let ?c = "\<lparr>bc_generation = cr_generation (last ?rows), bc_rowid = int (cr_rowid (last ?rows))\<rparr>"
    have r: "?rows \<noteq> []" using False assms(3) by simp
    then have batch: "derive_backfill_batch kind cursor limit (ps_db st) = ((length ?rows, ?c), enqueue_rows kind ?rows (ps_db st))"
      using assms(3) by (simp add: backfill_batch_todo Let_def)
    have t: "todo (ps_db st1) kind (bc_generation ?c, bc_rowid ?c) = drop ?n ?T"
      using todo_step [OF less.prems _ False, of ?n] assms(3) d batch by (simp add: cursor_of_def)
    have ok: "changesets_ok (ps_db st1)" using less.prems d batch by (simp add: changesets_ok_def)
    have "length (todo (ps_db st1) kind (bc_generation ?c, bc_rowid ?c)) < length ?T"
      unfolding t using False assms(3) by simp
    then obtain st' where st': "backfill_batches env kind limit ?c st1 = Some (True, st')"
      "ps_db st' = enqueue_rows kind (drop ?n ?T) (ps_db st1)"
      using less.hyps [OF _ ok, of ?c] t by metis
    moreover have "ps_db st' = enqueue_rows kind ?T (ps_db st)" using st'(2) d batch by (simp add: enqueue_rows_append)
    moreover have "backfill_batches env kind limit cursor st = backfill_batches env kind limit ?c st1"
      unfolding backfill_batches.simps [of env kind limit cursor st] b batch fst_conv using r by (simp add: min_def)
    ultimately show ?thesis by auto
  qed
qed

lemma todo_start:
  assumes "changesets_ok db"
  shows "todo db kind (-1, 0) = sort_key cursor_of (filter (rowless db kind) (db_changesets db))"
proof -
  have "todo db kind (-1, 0) = filter (rowless db kind) (sort_key cursor_of (db_changesets db))"
    using assms unfolding todo_def by (intro filter_cong) (auto simp: changesets_ok_def cursor_of_def)
  then show ?thesis by (simp add: filter_sort)
qed

lemma rowless_all:
  "\<not> list_ex (rowless (enqueue_rows kind (sort_key cursor_of (filter (rowless db kind) (db_changesets db))) db) kind) (db_changesets db)"
  by (auto simp: list_ex_iff rowless_enqueue)

section \<open>A small queue\<close>

definition sample_cs :: "nat \<Rightarrow> i64 \<Rightarrow> oid \<Rightarrow> changeset_row" where
  "sample_cs rowid generation i = \<lparr>cr_rowid = rowid, cr_repo = 1, cr_id = i, cr_canonical = [], cr_author = [], cr_message = [],
     cr_timestamp = 0, cr_generation = generation, cr_principal = [], cr_root_tree = None\<rparr>"

definition sample_db :: "derive_row list \<Rightarrow> repo_db" where
  "sample_db rows = \<lparr>db_trees = [], db_tree_entries = [], db_repo_trees = {},
     db_changesets = [sample_cs 1 1 [2], sample_cs 2 0 [1]], db_parents = [((1, [2], 0), [1])], db_file_changes = [],
     db_repo_blobs = {}, db_git_map = [], db_refs = [], db_lands = [],
     db_redactions = [], db_objects = [], db_gc_pending = [], db_snapshots = [], db_blame = [], db_path_history = [], db_repos = [], db_principals = [], db_tokens = [], db_access = [], db_kinds = [], db_meta = [], db_audit = [],
     db_derive = rows, db_reports = []\<rparr>"

definition sample_kind :: "unit registered_kind" where
  "sample_kind = \<lparr>rk_name = [], rk_id = 7, rk_eager = False, rk_walk_budget = 10,
     rk_derive = \<lambda>ctx db repo cs outs. (Derived [], db)\<rparr>"

definition sample_queue_env :: "unit queue_env" where
  "sample_queue_env = \<lparr>qe_now = \<lambda>n. int n, qe_clock = \<lambda>n. of_nat n, qe_busy = \<lambda>_. False, qe_other = \<lambda>_ db. db,
     qe_lease = 1000, qe_window = 1000\<rparr>"

definition sample_pass :: "derive_row list \<Rightarrow> unit pass" where
  "sample_pass rows = \<lparr>ps_access = 0, ps_db = sample_db rows,
     ps_report = \<lparr>pr_swept = 0, pr_derived = 0, pr_poisoned = 0, pr_overruns = 0\<rparr>\<rparr>"

definition sample_done :: derive_row where
  "sample_done = (new_row 7 1 [1] Ds_Done 0)\<lparr>dr_output := Some [9]\<rparr>"

definition sample_pending :: derive_row where
  "sample_pending = new_row 7 1 [2] Ds_Pending 0"

lemmas sample_queue_defs = sample_cs_def sample_db_def sample_kind_def sample_queue_env_def sample_pass_def sample_done_def sample_pending_def

lemma sample_alone: "alone sample_queue_env" "slot_free sample_queue_env" "own_tables sample_kind" "steady sample_kind"
  by (simp_all add: alone_def slot_free_def own_tables_def steady_def same_queue_def sample_queue_defs)

lemma sample_queue_ok: "queue_ok (sample_db [sample_done, sample_pending])"
  by (simp add: queue_ok_def row_ok_def node_key_def new_row_def DERIVE_MAX_ATTEMPTS_def DERIVE_MAX_OUTPUT_BYTES_def sample_queue_defs)

lemma sample_one_repo: "one_repo 7 1 (sample_db [sample_done, sample_pending])"
  by (simp add: one_repo_def changeset_exists_def new_row_def sample_queue_defs)

lemma sample_kind_id [simp]: "rk_id sample_kind = 7"
  by (simp add: sample_queue_defs)

lemma sample_pass_db [simp]: "ps_db (sample_pass rows) = sample_db rows"
  by (simp add: sample_pass_def)

text \<open>C26: The drain of a repository returns, whatever the derivers return and whenever the write slot is busy: every turn that
  goes on spends one of a node's three attempts or finishes the node. The conditions: nobody else writes the database
  meanwhile (\<open>alone\<close>), derivers write their own tables only, the queue is well formed, and every row of the kind belongs to
  the drained repository and its changeset is there (\<open>one_repo\<close>). The last one is needed: with a row of another repository
  the drain may never return (\<open>drain_spins_on_foreign_node\<close>), so in a database that several repositories share the loop's
  end is not guaranteed.\<close>
theorem drain_returns:
  assumes "alone env" and "own_tables kind" and "queue_ok (ps_db st)" and "one_repo (rk_id kind) repo (ps_db st)"
  shows "\<exists>res. drain env kind repo st = Some res"
  by (rule drain_alone_ends [OF assms])

theorem drain_returns_witness:
  "\<exists>res. drain sample_queue_env sample_kind 1 (sample_pass [sample_done, sample_pending]) = Some res"
  by (rule drain_returns) (simp_all add: sample_alone sample_queue_ok sample_one_repo)

text \<open>C25: In a queue of one repository the drain leaves no node of the kind pending: it returns, the queue has the same nodes,
  and each node of the kind ends done or quarantined. The conditions: nobody else writes the database meanwhile and the
  write slot is always free (\<open>alone\<close>, \<open>slot_free\<close>); the deriver writes its own tables only, never panics and never runs over
  its deadline (\<open>steady\<close>); the queue is well formed, holds no lease of the kind at the start, and every row of the kind
  belongs to the drained repository, with its changeset there (\<open>one_repo\<close>, without which the drain may never return); and
  the parent relation is acyclic.\<close>
theorem drain_finishes_queue:
  fixes rank :: "oid \<Rightarrow> nat"
  assumes "alone env" and "slot_free env" and "own_tables kind" and "steady kind"
    and "queue_ok (ps_db st)" and "one_repo (rk_id kind) repo (ps_db st)" and "none_leased (rk_id kind) (ps_db st)"
    and "\<forall>cs. \<forall>p \<in> set (parents_of (ps_db st) repo cs). rank p < rank cs"
  shows "\<exists>st'. drain env kind repo st = Some (Inr st') \<and>
    map node_key (db_derive (ps_db st')) = map node_key (db_derive (ps_db st)) \<and>
    (\<forall>r \<in> set (db_derive (ps_db st')). dr_kind r = rk_id kind \<longrightarrow> dr_state r = Ds_Done \<or> dr_state r = Ds_Poison)"
proof -
  obtain st' where st': "drain env kind repo st = Some (Inr st')" "same_nodes (ps_db st) (ps_db st')"
    "none_leased (rk_id kind) (ps_db st')" "derive_pick_next (ps_db st') (rk_id kind) = None"
    using drain_steady [OF assms(1-7)] by blast
  have one: "one_repo (rk_id kind) repo (ps_db st')"
    using one_repo_same [OF assms(6) st'(2)] .
  have "\<forall>cs. \<forall>p \<in> set (parents_of (ps_db st') repo cs). rank p < rank cs"
    using assms(8) st'(2) by (simp add: same_nodes_def parents_of_def)
  then have "\<forall>r \<in> set (db_derive (ps_db st')). dr_kind r = rk_id kind \<longrightarrow> dr_state r = Ds_Done \<or> dr_state r = Ds_Poison"
    using pick_none_finished [OF st'(4,3) one] finished_states by blast
  then show ?thesis using st' by (auto simp: same_nodes_def)
qed

theorem drain_finishes_queue_witness:
  "\<exists>st'. drain sample_queue_env sample_kind 1 (sample_pass [sample_done, sample_pending]) = Some (Inr st') \<and>
    (\<forall>r \<in> set (db_derive (ps_db st')). dr_kind r = 7 \<longrightarrow> dr_state r = Ds_Done \<or> dr_state r = Ds_Poison)"
proof -
  have "none_leased 7 (sample_db [sample_done, sample_pending])" by (simp add: none_leased_def new_row_def sample_queue_defs)
  moreover have "\<forall>cs. \<forall>p \<in> set (parents_of (sample_db [sample_done, sample_pending]) 1 cs). (if p = [2] then 1 else 0) < ((if cs = [2] then 1 else 0)::nat)"
    by (simp add: parents_of_def sample_queue_defs)
  ultimately show ?thesis
    using drain_finishes_queue [of sample_queue_env sample_kind "sample_pass [sample_done, sample_pending]" 1 "\<lambda>c. if c = [2] then 1 else 0"]
      sample_alone sample_queue_ok sample_one_repo by auto
qed

text \<open>When one database holds several repositories and the oldest eligible node of the kind belongs to another
  repository - which has no row under the drained repository's id -, nobody else writes and the write slot is free, the
  drain never returns: the pick ignores the repository, the lease uses the drain's own, finds no row and goes on to the
  same pick. (A slot that is busy at the lease ends the drain.)\<close>
theorem drain_spins_on_foreign_node:
  assumes "alone env" and "slot_free env" and "derive_pick_next (ps_db st) (rk_id kind) = Some (other, cs)"
    and "derive_get (ps_db st) (rk_id kind) repo cs = None"
  shows "drain env kind repo st = None"
  by (rule drain_livelock [OF assms])

theorem drain_spins_on_foreign_node_witness:
  "drain sample_queue_env sample_kind 2 (sample_pass [sample_done, sample_pending]) = None"
  by (rule drain_spins_on_foreign_node [OF sample_alone(1,2), where other = 1 and cs = "[2]"])
    (simp_all add: derive_pick_next_def derive_get_def is_node_def blocked_def parents_of_def unfinished_def new_row_def sample_queue_defs)

text \<open>A sequence of charges against a fresh walk budget succeeds exactly when every charge comes
  before the deadline and the sum stays below the budget (or is zero); then the context has spent that
  sum and spent plus remaining is the budget, with no wrap-around.\<close>
theorem walk_budget_exact:
  "(fst (run_charges cs (ctx_new budget clock window)) = Inr () \<longleftrightarrow>
      (\<forall>(c, _, _) \<in> set cs. c < u64_saturating_add clock window) \<and> (charged cs < unat budget \<or> charged cs = 0)) \<and>
   (\<forall>ctx. run_charges cs (ctx_new budget clock window) = (Inr (), ctx) \<longrightarrow>
      unat (dc_spent ctx) = charged cs \<and> unat (dc_spent ctx) + unat (dc_remaining ctx) = unat budget)"
proof -
  let ?ctx = "ctx_new budget clock window"
  have f: "dc_remaining ?ctx = budget" "dc_spent ?ctx = 0" "dc_deadline ?ctx = u64_saturating_add clock window" by (simp_all add: ctx_new_def)
  have b: "unat (dc_spent ?ctx) + unat (dc_remaining ?ctx) < 2 ^ 64" using unsigned_less [of budget] f by simp
  have s: "unat (dc_spent ctx) = charged cs \<and> unat (dc_spent ctx) + unat (dc_remaining ctx) = unat budget \<and>
      (\<forall>(c, _, _) \<in> set cs. c < u64_saturating_add clock window)" if "run_charges cs ?ctx = (Inr (), ctx)" for ctx
    using run_charges_spent [OF that b] f by simp
  show ?thesis
  proof (cases "\<forall>(c, _, _) \<in> set cs. c < u64_saturating_add clock window")
    case True
    then show ?thesis using run_charges_outcome [of cs ?ctx] f s by auto
  next
    case False
    then have "fst (run_charges cs ?ctx) \<noteq> Inr ()" using s by (metis (no_types, lifting) prod.collapse)
    then show ?thesis using False s by auto
  qed
qed

theorem walk_budget_exact_witness:
  "fst (run_charges [(1, 1, 4), (2, 2, 5)] (ctx_new 10 0 100)) = Inr () \<and> fst (run_charges [(1, 1, 4), (2, 2, 6)] (ctx_new 10 0 100)) \<noteq> Inr ()"
  using walk_budget_exact [of "[(1, 1, 4), (2, 2, 5)]" 10 0 100] walk_budget_exact [of "[(1, 1, 4), (2, 2, 6)]" 10 0 100]
  by (simp add: charged_def u64_saturating_add_def)

text \<open>C37: The batched boot backfill of a repository ends and equals one pass that enqueues every
  changeset without a row, in order of generation and then insertion, whatever the (positive) batch size; it reports
  completeness. It is shown for a quiet database: nobody else writes meanwhile and the write slot is free
  (\<open>alone\<close>, \<open>slot_free\<close>), and the changeset rows are those of a table (row ids and keys are distinct, and no generation is
  negative).\<close>
theorem backfill_enqueues_oldest_first:
  assumes "alone env" and "slot_free env" and "0 < limit" and "changesets_ok (ps_db st)"
  shows "\<exists>st'. backfill_repo env kind limit st = Some (Bf_Complete, st') \<and>
    ps_db st' = (ps_db st)\<lparr>db_derive := db_derive (ps_db st) @
      map (\<lambda>c. new_row kind (cr_repo c) (cr_id c) Ds_Pending 0)
        (sort_key cursor_of (filter (rowless (ps_db st) kind) (db_changesets (ps_db st))))\<rparr>"
proof -
  let ?rows = "sort_key cursor_of (filter (rowless (ps_db st) kind) (db_changesets (ps_db st)))"
  obtain st1 where b: "backfill_batches env kind limit cursor_start st = Some (True, st1)"
    "ps_db st1 = enqueue_rows kind ?rows (ps_db st)"
    using backfill_batches_alone [OF assms, of kind cursor_start] todo_start [OF assms(4)] by (auto simp: cursor_start_def)
  obtain e st2 where r: "read_repo env (\<lambda>db. derive_backfill_rowless_exists db kind) st1 = (e, st2)" by force
  note e = read_repo_alone [OF assms(1) r]
  have "\<not> e" using e b(2) rowless_all [of kind "ps_db st"] by (simp add: derive_backfill_rowless_exists_def)
  then have "backfill_repo env kind limit st = Some (Bf_Complete, st2)" using b(1) r by (simp add: backfill_repo_def)
  then show ?thesis using e b(2) by (simp add: enqueue_rows_def)
qed

theorem backfill_enqueues_oldest_first_witness:
  "\<exists>st'. backfill_repo sample_queue_env 7 1 (sample_pass []) = Some (Bf_Complete, st') \<and>
     db_derive (ps_db st') = [new_row 7 1 [1] Ds_Pending 0, new_row 7 1 [2] Ds_Pending 0]"
proof -
  have ok: "changesets_ok (ps_db (sample_pass []))" by (simp add: changesets_ok_def sample_queue_defs)
  show ?thesis
    using backfill_enqueues_oldest_first [OF sample_alone(1,2) _ ok, of 1 7]
    by (auto simp: sample_queue_defs rowless_def derive_get_def cursor_of_def)
qed

text \<open>C27: A queue pass that returns keeps the queue well formed (one row per node; at most three attempts, and three only
  when quarantined; a lease exactly while deriving; a recorded output within the size cap) and leaves
  every done or quarantined node exactly as it was, whatever a busy write slot, expired leases and
  failing derivers do. The conditions: the queue is well formed at the start, other writers only add nodes and keep it well
  formed, and derivers write their own tables only.\<close>
theorem derive_pass_finished_stays:
  assumes "derive_pass env kinds repos st = Some res"
    and "others_append env" and "\<forall>kind \<in> set kinds. own_tables kind" and "queue_ok (ps_db st)"
  shows "queue_ok (end_db res) \<and>
    (\<forall>kind repo cs row. derive_get (ps_db st) kind repo cs = Some row \<longrightarrow> dr_state row = Ds_Done \<or> dr_state row = Ds_Poison \<longrightarrow>
       derive_get (end_db res) kind repo cs = Some row)"
proof -
  have "keeps (\<lambda>kind repo cs. case derive_get (ps_db st) kind repo cs of None \<Rightarrow> None
      | Some r \<Rightarrow> if unfinished (dr_state r) then None else Some r) (end_db res)" (is "keeps ?D _")
    by (rule derive_pass_keeps [OF assms(2,1,3) keeps_finished [OF assms(4)]])
  then show ?thesis unfolding keeps_def by (auto simp: unfinished_def)
qed


lemma sample_sweep: "ps_db (sweep_expired sample_queue_env sample_kind (sample_pass [sample_done, sample_pending])) = sample_db [sample_done, sample_pending]"
  by (simp add: sweep_expired_def read_repo_def derive_expired_leases_def new_row_def sample_queue_defs)

theorem derive_pass_finished_stays_witness:
  "\<exists>res. derive_pass sample_queue_env [sample_kind] [1] (sample_pass [sample_done, sample_pending]) = Some res \<and>
     derive_get (end_db res) 7 1 [1] = Some sample_done"
proof -
  let ?st = "sample_pass [sample_done, sample_pending]"
  obtain res where d: "drain sample_queue_env sample_kind 1 (sweep_expired sample_queue_env sample_kind ?st) = Some res"
    using drain_alone_ends [OF sample_alone(1,3), of "sweep_expired sample_queue_env sample_kind ?st" 1] sample_sweep sample_queue_ok sample_one_repo by auto
  have p: "derive_pass sample_queue_env [sample_kind] [1] ?st = Some res" using d by (cases res) (simp_all add: Let_def)
  have g: "derive_get (sample_db [sample_done, sample_pending]) 7 1 [1] = Some sample_done" "dr_state sample_done = Ds_Done"
    by (simp_all add: derive_get_def is_node_def new_row_def sample_queue_defs)
  show ?thesis
    using derive_pass_finished_stays [OF p alone_others [OF sample_alone(1)]] sample_alone(3) sample_queue_ok p g by auto
qed

end
