(* ===== verification/Authz.thy ===== *)
theory Authz
  imports Naatre_Prelude
begin

text \<open>The segment-aligned path scope of a token (\<open>crates/naatre-server/src/authz.rs\<close>).\<close>

definition scope_allows :: "bytes option \<Rightarrow> bytes \<Rightarrow> bool" where
  "scope_allows scope path =
     (case scope of
        None \<Rightarrow> True
      | Some p \<Rightarrow>
          path = p \<or>
          (case strip_prefix p path of
             None \<Rightarrow> False
           | Some rest \<Rightarrow> (case rest of [] \<Rightarrow> False | c # _ \<Rightarrow> c = 47)))"

lemma scope_allows_iff: "scope_allows (Some p) path \<longleftrightarrow> path = p \<or> (\<exists>rest. path = p @ 47 # rest)"
  by (auto simp: scope_allows_def strip_prefix_eq_Some split: option.split list.split)

text \<open>A scope covers exactly the paths whose segments start with its own.\<close>

lemma split_on_at: "split_on c (xs @ c # ys) = split_on c xs @ split_on c ys"
  by (induction xs) (auto split: list.split)

lemma join_with_append: "ps \<noteq> [] \<Longrightarrow> qs \<noteq> [] \<Longrightarrow> join_with c (ps @ qs) = join_with c ps @ c # join_with c qs"
  by (induction ps rule: join_with.induct) (auto simp: join_with_Cons)

lemma scope_allows_segments:
  "scope_allows (Some p) path \<longleftrightarrow> (\<exists>more. split_on 47 path = split_on 47 p @ more)"
proof
  assume "scope_allows (Some p) path"
  then show "\<exists>more. split_on 47 path = split_on 47 p @ more" by (auto simp: scope_allows_iff split_on_at)
next
  assume "\<exists>more. split_on 47 path = split_on 47 p @ more"
  then obtain more where m: "split_on 47 path = split_on 47 p @ more" by blast
  show "scope_allows (Some p) path"
  proof (cases "more = []")
    case True
    then have "path = p" using m by (metis append_Nil2 join_split)
    then show ?thesis by (simp add: scope_allows_iff)
  next
    case False
    have "path = join_with 47 (split_on 47 p @ more)" using m by (metis join_split)
    then have "path = p @ 47 # join_with 47 more" using False by (simp add: join_with_append join_split)
    then show ?thesis by (auto simp: scope_allows_iff)
  qed
qed

end
