(* ===== verification/Land.thy ===== *)
theory Land
  imports Tree_Merge Derive_Queue Authz
begin

text \<open>
  The land algorithm (\<open>crates/naatre-server/src/land.rs\<close>): the rebase of a head's first-parent chain onto
  \<open>main\<close> and the compare-and-swap of \<open>main\<close>, in one transaction of the repository's database.

  A world has the repository's database, the catalog's (in split mode a database of its own, otherwise
  the same connection) and the blob store. The blob store (a trait object), the JSON printer and parser
  (\<open>serde_json\<close>), the derivers, the hash, the diff and the line tokenizer are fields of \<open>land_env\<close>.
  A land may loop over tables that are not well formed (a cyclic parent relation, a cyclic tree):
  \<open>None\<close> is a land that does not return. The crash points are not modelled: a crash is the rollback of the
  guard. An \<open>ApiError\<close> is one constructor for each place that raises one, with the values it prints.
\<close>

section \<open>Results that may not return\<close>

definition obind :: "('e + 'a) option \<Rightarrow> ('a \<Rightarrow> ('e + 'b) option) \<Rightarrow> ('e + 'b) option" where
  "obind m f = (case m of None \<Rightarrow> None | Some (Inl e) \<Rightarrow> Some (Inl e) | Some (Inr a) \<Rightarrow> f a)"

definition at_world :: "'w \<Rightarrow> 'e + 'a \<Rightarrow> ('e \<times> 'w) + 'a" where
  "at_world w m = map_err (\<lambda>e. (e, w)) m"

section \<open>Requests, results, errors\<close>

record land_command =
  lc_repo :: i64
  lc_repo_name :: bytes
  lc_principal :: bytes
  lc_scope :: "bytes option"
  lc_head :: oid
  lc_key :: bytes
  lc_base_hint :: "oid option"
  lc_record_conflict :: bool
  lc_now :: i64
  lc_clock :: "oid \<Rightarrow> u64"
  lc_walk_deadline :: u64

record land_done =
  ld_landed :: oid
  ld_main :: oid
  ld_rebased :: u64
  ld_note :: "bytes option"
  ld_conflicts :: "bytes list"

datatype recipe = RESOLUTION_RECIPE | RESOLUTION_RECIPE_REFUSED

datatype land_error =
    Land_Internal
  | Land_Panic
  | Idempotency_Key_Settled oid
  | Writer_Busy
  | Redacted_Base oid
  | Validation_No_Main
  | Validation_No_History
  | Not_Found_Head
  | Forbidden bytes
  | Too_Large_Markers bytes nat
  | Too_Large_Changeset
  | Too_Large_Tree
  | Ref_Conflict "path_conflict list" recipe
  | Ref_Conflict_Stale
  | Object_Redacted_Blob oid nat bool
  | Object_Redacted_Changeset oid

record pending_audit =
  pa_now :: i64
  pa_principal :: bytes
  pa_details :: bytes

section \<open>The world\<close>

record 's land_env =
  le_merge :: merge_env
  le_print :: "json \<Rightarrow> bytes"
  le_parse :: "bytes \<Rightarrow> json option"
  le_kinds :: "unit registered_kind list"
  le_get :: "'s \<Rightarrow> oid \<Rightarrow> bytes + bytes"
  le_put :: "'s \<Rightarrow> bytes \<Rightarrow> (bytes + oid \<times> u64) \<times> 's"

record 's world =
  w_db :: repo_db
  w_cat :: repo_db
  w_split :: bool
  w_cas :: 's

text \<open>A statement on the catalog connection (\<open>cx.cat()\<close>).\<close>

definition on_cat :: "(repo_db \<Rightarrow> repo_db) \<Rightarrow> 's world \<Rightarrow> 's world" where
  "on_cat f w = (if w_split w then w\<lparr>w_cat := f (w_cat w)\<rparr> else w\<lparr>w_db := f (w_db w)\<rparr>)"

section \<open>Small helpers\<close>

definition id_of :: "bytes \<Rightarrow> oid option" where
  "id_of bs = (if length bs = 32 then Some bs else None)"

definition map_derive :: "derive_error \<Rightarrow> land_error" where
  "map_derive e =
     (case e of
        Derive_Core EncodeTooLarge \<Rightarrow> Too_Large_Tree
      | Derive_Panic \<Rightarrow> Land_Panic
      | _ \<Rightarrow> Land_Internal)"

definition load_tree :: "repo_db \<Rightarrow> bytes option \<Rightarrow> (land_error + mem_node) option" where
  "load_tree db root = map_option (map_err map_derive) (mem_load db (Option.bind root id_of))"

definition rep_paths_of :: "repo_db \<Rightarrow> i64 \<Rightarrow> oid \<Rightarrow> land_error + bytes list" where
  "rep_paths_of db repo i =
     (case changeset_get db repo i of
        None \<Rightarrow> Inr []
      | Some row \<Rightarrow>
          rbind (map_err (\<lambda>_. Land_Internal) (changeset_decode (cr_canonical row)))
            (\<lambda>cs. Inr (map rep_path (cs_conflicts cs))))"

definition redacted_blob_error :: "oid \<Rightarrow> nat \<Rightarrow> bool \<Rightarrow> land_error" where
  "redacted_blob_error blob further conflicted_content = Object_Redacted_Blob blob further conflicted_content"

definition merge_error_of :: "merge_error \<Rightarrow> recipe \<Rightarrow> repo_db \<Rightarrow> i64 \<Rightarrow> land_error" where
  "merge_error_of e recipe db repo =
     (case e of
        Conflicts c \<Rightarrow> Ref_Conflict c recipe
      | Fetch i _ \<Rightarrow>
          if i \<in> set (redactions_active_among db repo [i]) then redacted_blob_error i 0 True else Land_Internal
      | Merge_Panic \<Rightarrow> Land_Panic)"

section \<open>Settling and replaying\<close>

definition json_opt :: "bytes option \<Rightarrow> json" where
  "json_opt v = (case v of None \<Rightarrow> JNull | Some s \<Rightarrow> JStr s)"

definition settle_result :: "oid \<Rightarrow> u64 \<Rightarrow> bytes option \<Rightarrow> bytes list \<Rightarrow> json" where
  "settle_result landed rebased note conflicts =
     JObj [(ascii ''landed'', JStr (to_hex landed)), (ascii ''rebased'', JNum (uint rebased)),
           (ascii ''note'', json_opt note), (ascii ''conflicts'', JArr (map JStr conflicts))]"

definition settle_details :: "land_command \<Rightarrow> oid \<Rightarrow> u64 \<Rightarrow> bytes list \<Rightarrow> json" where
  "settle_details cmd landed rebased conflicts =
     JObj [(ascii ''repo'', JStr (lc_repo_name cmd)), (ascii ''key'', JStr (lc_key cmd)),
           (ascii ''head'', JStr (to_hex (lc_head cmd))), (ascii ''landed'', JStr (to_hex landed)),
           (ascii ''rebased'', JNum (uint rebased)), (ascii ''via'', JStr (ascii ''land'')),
           (ascii ''conflicts'', JArr (map JStr conflicts))]"

definition settle ::
    "'s land_env \<Rightarrow> land_command \<Rightarrow> oid \<Rightarrow> oid \<Rightarrow> u64 \<Rightarrow> bytes option \<Rightarrow> bytes list \<Rightarrow> 's world \<Rightarrow>
     (land_done \<times> pending_audit option) \<times> 's world" where
  "settle env cmd base landed rebased note conflicts w =
     (let st = (if conflicts = [] then ascii ''done'' else ascii ''conflicted'');
          result = le_print env (settle_result landed rebased note conflicts);
          w = w\<lparr>w_db := land_settle (lc_repo cmd) (lc_principal cmd) (lc_key cmd) (lc_head cmd) base st result (w_db w)\<rparr>;
          details = le_print env (settle_details cmd landed rebased conflicts);
          don = \<lparr>ld_landed = landed, ld_main = landed, ld_rebased = rebased, ld_note = note, ld_conflicts = conflicts\<rparr>
      in if \<not> w_split w then
           ((don, None), on_cat (audit_append (lc_now cmd) (lc_principal cmd) (ascii ''land'') details) w)
         else ((don, Some \<lparr>pa_now = lc_now cmd, pa_principal = lc_principal cmd, pa_details = details\<rparr>), w))"

definition json_get :: "json \<Rightarrow> bytes \<Rightarrow> json" where
  "json_get v k =
     (case v of
        JObj fs \<Rightarrow> (case map_of fs k of None \<Rightarrow> JNull | Some x \<Rightarrow> x)
      | _ \<Rightarrow> JNull)"

definition as_str :: "json \<Rightarrow> bytes option" where
  "as_str v = (case v of JStr s \<Rightarrow> Some s | _ \<Rightarrow> None)"

definition as_json_u64 :: "json \<Rightarrow> u64 option" where
  "as_json_u64 v = (case v of JNum n \<Rightarrow> if 0 \<le> n \<and> n < 2 ^ 64 then Some (word_of_int n) else None | _ \<Rightarrow> None)"

definition replay :: "'s land_env \<Rightarrow> bytes option \<Rightarrow> land_error + land_done" where
  "replay env result =
     rbind (ok_or result Land_Internal) (\<lambda>json.
     rbind (ok_or (le_parse env json) Land_Internal) (\<lambda>v.
     rbind (ok_or (Option.bind (as_str (json_get v (ascii ''landed''))) from_hex) Land_Internal) (\<lambda>landed.
     rbind (ok_or (as_json_u64 (json_get v (ascii ''rebased''))) Land_Internal) (\<lambda>rebased.
       Inr \<lparr>ld_landed = landed, ld_main = landed, ld_rebased = rebased,
            ld_note = as_str (json_get v (ascii ''note'')),
            ld_conflicts = (case json_get v (ascii ''conflicts'') of
                              JArr vs \<Rightarrow> List.map_filter as_str vs
                            | _ \<Rightarrow> [])\<rparr>))))"

text \<open>The idempotency check: \<open>Some\<close> is the answer of a key that is settled or in flight.\<close>

definition settled_answer :: "'s land_env \<Rightarrow> land_command \<Rightarrow> repo_db \<Rightarrow> (land_error + land_done) option" where
  "settled_answer env cmd db =
     map_option (\<lambda>row.
         if la_state row = ascii ''done'' \<or> la_state row = ascii ''conflicted'' then
           rbind (ok_or (Option.bind (la_head row) id_of) Land_Internal) (\<lambda>settled.
             if settled \<noteq> lc_head cmd then Inl (Idempotency_Key_Settled settled)
             else replay env (la_result row))
         else if la_state row = ascii ''pending'' then Inl Writer_Busy
         else Inl Land_Internal)
       (land_get db (lc_repo cmd) (lc_principal cmd) (lc_key cmd))"

section \<open>The walks\<close>

text \<open>Everything reachable from \<open>main\<close>, breadth first.\<close>

partial_function (option) ancestry :: "repo_db \<Rightarrow> i64 \<Rightarrow> oid list \<Rightarrow> oid set \<Rightarrow> (land_error + oid set) option" where
  "ancestry db repo queue in_main =
     (case queue of
        [] \<Rightarrow> Some (Inr in_main)
      | i # queue \<Rightarrow>
          if i \<in> in_main then ancestry db repo queue in_main
          else (case changeset_graph db repo i of
                  None \<Rightarrow> Some (Inl Land_Internal)
                | Some g \<Rightarrow> ancestry db repo (queue @ cg_parents g) (insert i in_main)))"

text \<open>The first-parent chain from the head, oldest last, and the changeset of \<open>main\<close> where it stops.\<close>

partial_function (option) chain_walk ::
    "repo_db \<Rightarrow> i64 \<Rightarrow> oid set \<Rightarrow> oid \<Rightarrow> oid list \<Rightarrow> (land_error + oid list \<times> oid) option" where
  "chain_walk db repo in_main cursor nodes =
     (if cursor \<in> in_main then Some (Inr (nodes, cursor))
      else if redaction_active db repo cursor then Some (Inl (Redacted_Base cursor))
      else case changeset_graph db repo cursor of
             None \<Rightarrow> Some (Inl Not_Found_Head)
           | Some g \<Rightarrow>
               (case cg_parents g of
                  [] \<Rightarrow> Some (Inl Validation_No_History)
                | p # _ \<Rightarrow> chain_walk db repo in_main p (nodes @ [cursor])))"

definition check_scope :: "repo_db \<Rightarrow> i64 \<Rightarrow> bytes option \<Rightarrow> oid list \<Rightarrow> land_error + unit" where
  "check_scope db repo scope nodes =
     rforall (\<lambda>cs. rforall (\<lambda>(path, _). if scope_allows scope path then Inr () else Inl (Forbidden path))
         (file_changes_list db repo cs)) nodes"

definition base_note :: "repo_db \<Rightarrow> land_command \<Rightarrow> bytes option" where
  "base_note db cmd =
     (case lc_base_hint cmd of
        None \<Rightarrow> None
      | Some hint \<Rightarrow>
          (case changeset_graph db (lc_repo cmd) (lc_head cmd) of
             None \<Rightarrow> None
           | Some g \<Rightarrow>
               let first = (case cg_parents g of [] \<Rightarrow> None | p # _ \<Rightarrow> Some p) in
               if first = Some hint then None
               else Some (ascii ''request base '' @ to_hex hint @ ascii '' is not head's parent ('' @
                      (case first of None \<Rightarrow> ascii ''<none>'' | Some p \<Rightarrow> to_hex p) @
                      ascii ''); the server rebased onto its merge-base with main'')))"

section \<open>The rebase of one node\<close>

record 's rebase_state =
  rs_tip :: oid
  rs_gen :: i64
  rs_tree :: mem_node
  rs_rebased :: u64
  rs_written :: "oid list"
  rs_world :: "'s world"

definition merge_node ::
    "'s land_env \<Rightarrow> land_command \<Rightarrow> 's world \<Rightarrow> mem_node \<Rightarrow> mem_node \<Rightarrow> mem_node \<Rightarrow>
     land_error + merged_tree \<times> path_conflict list" where
  "merge_node env cmd w parent_tree tip_tree node_tree =
     (let fetch = (\<lambda>i. map_err (\<lambda>e. ascii ''blob '' @ to_hex i @ ascii '' unavailable: '' @ e) (le_get env (w_cas w) i));
          menv = (le_merge env)\<lparr>env_fetch := fetch\<rparr>
      in if lc_record_conflict cmd then
           rbind (map_err (\<lambda>e. merge_error_of e RESOLUTION_RECIPE_REFUSED (w_db w) (lc_repo cmd))
                    (merge_trees_recording menv parent_tree tip_tree node_tree)) (\<lambda>rec.
             case rm_oversized rec of
               (path, sz) # _ \<Rightarrow> Inl (Too_Large_Markers path sz)
             | [] \<Rightarrow> Inr (rm_tree rec, rm_conflicts rec))
         else
           rbind (map_err (\<lambda>e. merge_error_of e RESOLUTION_RECIPE (w_db w) (lc_repo cmd))
                    (merge_trees menv parent_tree tip_tree node_tree)) (\<lambda>merged.
             Inr (merged, [])))"

definition change_blobs :: "file_change list \<Rightarrow> oid list" where
  "change_blobs changes =
     fold (\<lambda>c blobs.
         case (fc_op c, fc_blob c) of
           (Del, _) \<Rightarrow> blobs
         | (_, None) \<Rightarrow> blobs
         | (_, Some b) \<Rightarrow> if b \<in> set blobs then blobs else blobs @ [b]) changes []"

definition rep_ids :: "conflict_rep \<Rightarrow> oid list" where
  "rep_ids rep = (case rep_base rep of None \<Rightarrow> [] | Some b \<Rightarrow> [b]) @ rep_sides rep"

definition lowest_hex :: "oid list \<Rightarrow> oid option" where
  "lowest_hex ids =
     (case ids of
        [] \<Rightarrow> None
      | i # rest \<Rightarrow> Some (fold (\<lambda>j m. if to_hex j < to_hex m then j else m) rest i))"

text \<open>The tombstone gate over the new id and every blob whose content the node carries.\<close>

definition redaction_gate ::
    "repo_db \<Rightarrow> i64 \<Rightarrow> oid list \<Rightarrow> merged_tree \<Rightarrow> conflict_rep list \<Rightarrow> oid \<Rightarrow> land_error + unit" where
  "redaction_gate db repo blobs merged conflicts new_id =
     (let gate_ids = remdups_adj (sort (blobs @ map fst (mt_new_blobs merged) @ mt_input_ids merged @
            concat (map rep_ids conflicts) @ [new_id]));
          offenders = redactions_active_among db repo gate_ids
      in if new_id \<in> set offenders then Inl (Object_Redacted_Changeset new_id)
         else case lowest_hex offenders of
                None \<Rightarrow> Inr ()
              | Some blob \<Rightarrow>
                  Inl (redacted_blob_error blob (length offenders - 1)
                    (list_ex (\<lambda>i. i \<in> set (mt_input_ids merged) \<or>
                        list_ex (\<lambda>rep. rep_base rep = Some i \<or> i \<in> set (rep_sides rep)) conflicts) offenders)))"

text \<open>The merged blobs go to the store, and their rows to the catalog, before any row that names them.\<close>

fun write_blobs ::
    "'s land_env \<Rightarrow> i64 \<Rightarrow> (oid \<times> bytes) list \<Rightarrow> oid list \<Rightarrow> 's world \<Rightarrow>
     (land_error \<times> 's world) + oid list \<times> 's world" where
  "write_blobs env now [] written w = Inr (written, w)"
| "write_blobs env now ((i, bs) # rest) written w =
     (if i \<in> set written then write_blobs env now rest written w
      else
        let (put, cas) = le_put env (w_cas w) bs; w = w\<lparr>w_cas := cas\<rparr> in
        case put of
          Inl _ \<Rightarrow> Inl (Land_Internal, w)
        | Inr (pid, csize) \<Rightarrow>
            if pid \<noteq> i then Inl (Land_Internal, w)
            else
              let w = on_cat (\<lambda>db. snd (object_row_upsert i (as_i64 (of_nat (length bs))) (as_i64 csize) now db)) w
              in write_blobs env now rest (written @ [i]) w)"

text \<open>The rows of a rebased node that is not the node itself.\<close>

definition insert_node ::
    "'s land_env \<Rightarrow> land_command \<Rightarrow> changeset \<Rightarrow> bytes \<Rightarrow> oid \<Rightarrow> oid list \<Rightarrow> mem_node \<Rightarrow> i64 \<Rightarrow> repo_db \<Rightarrow>
     land_error + repo_db" where
  "insert_node env cmd cs canonical new_id blobs node generation db =
     rbind (map_err map_derive (mem_collect (env_blake3 (le_merge env)) node)) (\<lambda>(root, _, trees).
     rbind (map_err (\<lambda>_. Land_Internal)
         (changeset_insert_rows (le_print env)
            \<lparr>ci_repo = lc_repo cmd, ci_repo_name = lc_repo_name cmd, ci_id = new_id, ci_canonical = canonical,
             ci_author = cs_author cs, ci_message = cs_message cs, ci_timestamp = as_i64 (cs_timestamp_ns cs),
             ci_generation = generation, ci_principal = lc_principal cmd, ci_root_tree = root,
             ci_parents = cs_parents cs, ci_changes = cs_changes cs, ci_blobs = blobs, ci_trees = trees,
             ci_now = lc_now cmd\<rparr> no_extras db)) (\<lambda>db.
       map_err (\<lambda>e. case e of Enqueue_Panic \<Rightarrow> Land_Panic | Enqueue_Db _ \<Rightarrow> Land_Internal)
         (enqueue_changeset (le_kinds env) (lc_repo cmd) new_id (cs_parents cs)
            \<lparr>ee_now = lc_now cmd, ee_clock = lc_clock cmd new_id, ee_walk_deadline = lc_walk_deadline cmd\<rparr> db)))"

text \<open>The loop body from the merge on, when the delta and the representations are known.\<close>

definition place_node ::
    "'s land_env \<Rightarrow> land_command \<Rightarrow> oid \<Rightarrow> mem_node \<Rightarrow> changeset \<Rightarrow> merged_tree \<Rightarrow> 's rebase_state \<Rightarrow>
     (land_error \<times> 's world) + 's rebase_state" where
  "place_node env cmd node node_tree cs merged st =
     (let w = rs_world st in
      rbind (at_world w (map_err (\<lambda>e. if e = EncodeTooLarge then Too_Large_Changeset else Land_Internal)
               (changeset_encode (env_nfc (le_merge env)) cs))) (\<lambda>canonical.
        let new_id = id_for_encoded (env_blake3 (le_merge env)) canonical (cs_conflicts cs \<noteq> []);
            blobs = change_blobs (cs_changes cs)
        in rbind (at_world w (redaction_gate (w_db w) (lc_repo cmd) blobs merged (cs_conflicts cs) new_id)) (\<lambda>_.
           rbind (write_blobs env (lc_now cmd) (mt_new_blobs merged) (rs_written st) w) (\<lambda>(written, w).
             if new_id = node then
               Inr (st\<lparr>rs_tip := node, rs_tree := node_tree, rs_written := written, rs_world := w\<rparr>)
             else
               let generation = i64_add (rs_gen st) 1 in
               rbind (at_world w (insert_node env cmd cs canonical new_id blobs (mt_node merged) generation (w_db w))) (\<lambda>db.
                 Inr \<lparr>rs_tip = new_id, rs_gen = generation, rs_tree = mt_node merged,
                      rs_rebased = rs_rebased st + 1, rs_written = written, rs_world = w\<lparr>w_db := db\<rparr>\<rparr>)))))"

definition rebase_merged ::
    "'s land_env \<Rightarrow> land_command \<Rightarrow> oid \<Rightarrow> changeset_row \<Rightarrow> mem_node \<Rightarrow> mem_node \<Rightarrow> 's rebase_state \<Rightarrow>
     (land_error \<times> 's world) + 's rebase_state" where
  "rebase_merged env cmd node row node_tree parent_tree st =
     (let w = rs_world st in
      rbind (at_world w (map_err (\<lambda>_. Land_Internal) (changeset_decode (cr_canonical row)))) (\<lambda>decoded.
      rbind (at_world w (merge_node env cmd w parent_tree (rs_tree st) node_tree)) (\<lambda>(merged, reconflicted).
      rbind (at_world w (rmap (\<lambda>c. ok_or (content_rep (env_nfc (le_merge env)) c) Land_Panic) reconflicted)) (\<lambda>new_reps.
        let reps = carry (cs_conflicts decoded) new_reps;
            delta = delta_between (rs_tree st) (mt_node merged)
        in if delta = [] \<and> reps = [] then Inr st
           else place_node env cmd node node_tree
                  \<lparr>cs_repo_id = as_u64 (lc_repo cmd), cs_parents = [rs_tip st], cs_author = cr_author row,
                   cs_message = cr_message row, cs_timestamp_ns = as_u64 (cr_timestamp row), cs_changes = delta,
                   cs_conflicts = reps\<rparr> merged st))))"

definition node_parent_tree :: "repo_db \<Rightarrow> i64 \<Rightarrow> oid list \<Rightarrow> (land_error + mem_node) option" where
  "node_parent_tree db repo parents =
     (case parents of
        [] \<Rightarrow> Some (Inr mem_empty)
      | p # _ \<Rightarrow>
          (case changeset_get db repo p of
             None \<Rightarrow> Some (Inl Land_Internal)
           | Some row \<Rightarrow> load_tree db (cr_root_tree row)))"

definition rebase_node ::
    "'s land_env \<Rightarrow> land_command \<Rightarrow> oid \<Rightarrow> 's rebase_state \<Rightarrow> ((land_error \<times> 's world) + 's rebase_state) option" where
  "rebase_node env cmd node st =
     (let w = rs_world st; db = w_db w; repo = lc_repo cmd in
      case (changeset_get db repo node, changeset_graph db repo node) of
        (Some row, Some graph) \<Rightarrow>
          obind (map_option (at_world w) (load_tree db (cr_root_tree row))) (\<lambda>node_tree.
          obind (map_option (at_world w) (node_parent_tree db repo (cg_parents graph))) (\<lambda>parent_tree.
            Some (rebase_merged env cmd node row node_tree parent_tree st)))
      | _ \<Rightarrow> Some (Inl (Land_Internal, w)))"

fun rebase_chain ::
    "'s land_env \<Rightarrow> land_command \<Rightarrow> oid list \<Rightarrow> 's rebase_state \<Rightarrow> ((land_error \<times> 's world) + 's rebase_state) option" where
  "rebase_chain env cmd [] st = Some (Inr st)"
| "rebase_chain env cmd (node # nodes) st = obind (rebase_node env cmd node st) (\<lambda>st. rebase_chain env cmd nodes st)"

section \<open>The transaction\<close>

definition land_rebase ::
    "'s land_env \<Rightarrow> land_command \<Rightarrow> oid \<Rightarrow> oid list \<Rightarrow> bytes option \<Rightarrow> 's world \<Rightarrow>
     ((land_error \<times> 's world) + (land_done \<times> pending_audit option) \<times> 's world) option" where
  "land_rebase env cmd old_main nodes note w =
     (case changeset_graph (w_db w) (lc_repo cmd) old_main of
        None \<Rightarrow> Some (Inl (Land_Internal, w))
      | Some main_graph \<Rightarrow>
          obind (map_option (at_world w) (load_tree (w_db w) (cg_root_tree main_graph))) (\<lambda>tree.
          obind (rebase_chain env cmd nodes
                   \<lparr>rs_tip = old_main, rs_gen = cg_generation main_graph, rs_tree = tree, rs_rebased = 0,
                    rs_written = [], rs_world = w\<rparr>) (\<lambda>st.
            let w = rs_world st;
                (moved, db) = main_cas_move (lc_repo cmd) old_main (rs_tip st) (lc_principal cmd) (w_db w);
                w = w\<lparr>w_db := db\<rparr>
            in if moved = 0 then Some (Inl (Ref_Conflict_Stale, w))
               else Some (rbind (at_world w (rep_paths_of db (lc_repo cmd) (rs_tip st))) (\<lambda>reps.
                      Inr (settle env cmd old_main (rs_tip st) (rs_rebased st) note reps w))))))"

definition land_onto ::
    "'s land_env \<Rightarrow> land_command \<Rightarrow> oid \<Rightarrow> 's world \<Rightarrow>
     ((land_error \<times> 's world) + (land_done \<times> pending_audit option) \<times> 's world) option" where
  "land_onto env cmd old_main w =
     (let db = w_db w; repo = lc_repo cmd in
      if redaction_active db repo old_main then Some (Inl (Redacted_Base old_main, w))
      else
        obind (map_option (at_world w) (ancestry db repo [old_main] {})) (\<lambda>in_main.
          if lc_head cmd = old_main \<or> lc_head cmd \<in> in_main then
            Some (rbind (at_world w (rep_paths_of db repo old_main)) (\<lambda>reps.
              Inr (settle env cmd old_main old_main 0 None reps w)))
          else
            obind (map_option (at_world w) (chain_walk db repo in_main (lc_head cmd) [])) (\<lambda>(nodes, base).
              if redaction_active db repo base then Some (Inl (Redacted_Base base, w))
              else
                obind (Some (at_world w (check_scope db repo (lc_scope cmd) (rev nodes)))) (\<lambda>_.
                  land_rebase env cmd old_main (rev nodes) (base_note db cmd) w))))"

definition land_in_txn ::
    "'s land_env \<Rightarrow> land_command \<Rightarrow> 's world \<Rightarrow>
     ((land_error \<times> 's world) + (land_done \<times> pending_audit option) \<times> 's world) option" where
  "land_in_txn env cmd w =
     (case settled_answer env cmd (w_db w) of
        Some answer \<Rightarrow> Some (rbind (at_world w answer) (\<lambda>don. Inr ((don, None), w)))
      | None \<Rightarrow>
          if redaction_active (w_db w) (lc_repo cmd) (lc_head cmd) then Some (Inl (Redacted_Base (lc_head cmd), w))
          else
            obind (Some (at_world w (map_err (\<lambda>_. Land_Internal)
                (land_insert_pending (lc_repo cmd) (lc_principal cmd) (lc_key cmd) (lc_head cmd) (w_db w))))) (\<lambda>db.
              let w = w\<lparr>w_db := db\<rparr> in
              case ref_get db (lc_repo cmd) (ascii ''main'') of
                None \<Rightarrow> Some (Inl (Validation_No_Main, w))
              | Some row \<Rightarrow>
                  obind (Some (at_world w (ok_or (Option.bind (rf_target row) id_of) Land_Internal))) (\<lambda>old_main.
                    land_onto env cmd old_main w)))"

text \<open>
  The guard: a failed land restores the repository's database. In split mode the rows of the catalog and
  in every mode the blobs of the store stay.
\<close>

definition execute ::
    "'s land_env \<Rightarrow> land_command \<Rightarrow> 's world \<Rightarrow> ((land_error + land_done) \<times> 's world) option" where
  "execute env cmd w =
     map_option (\<lambda>r. case r of
         Inl (e, w') \<Rightarrow> (Inl e, w'\<lparr>w_db := w_db w\<rparr>)
       | Inr ((don, audit), w') \<Rightarrow>
           (Inr don,
            case audit of
              None \<Rightarrow> w'
            | Some a \<Rightarrow> on_cat (audit_append (pa_now a) (pa_principal a) (ascii ''land'') (pa_details a)) w'))
       (land_in_txn env cmd w)"

end
