(* ===== verification/Land_Correct.thy ===== *)
theory Land_Correct
  imports Land Merge_Correct
begin

text \<open>
  Correctness of the land: what a failed one leaves (\<open>cat_kept\<close>), what a successful one leaves (\<open>grown\<close>), and
  that a key settles once. The samples run a whole rebase of one changeset.
\<close>

section \<open>Results that may not return\<close>

lemma obind_eq_Inr: "obind m f = Some (Inr b) \<longleftrightarrow> (\<exists>a. m = Some (Inr a) \<and> f a = Some (Inr b))"
  by (auto simp: obind_def split: option.splits sum.splits)

lemma obind_eq_Inl: "obind m f = Some (Inl e) \<longleftrightarrow> m = Some (Inl e) \<or> (\<exists>a. m = Some (Inr a) \<and> f a = Some (Inl e))"
  by (auto simp: obind_def split: option.splits sum.splits)

lemma at_world_eq_Inr [simp]: "at_world w m = Inr a \<longleftrightarrow> m = Inr a"
  by (cases m) (simp_all add: at_world_def map_err_def)

lemma at_world_eq_Inl [simp]: "at_world w m = Inl x \<longleftrightarrow> (\<exists>e. m = Inl e \<and> x = (e, w))"
  by (cases m) (auto simp: at_world_def map_err_def)

section \<open>What a failed land leaves\<close>

text \<open>
  The worlds a land passes through differ from the first in the repository's database, the blob store and,
  in split mode, the catalog's object rows and collector marks.
\<close>

definition ledger_only :: "repo_db \<Rightarrow> repo_db \<Rightarrow> bool" where
  "ledger_only db db' \<longleftrightarrow> db' = db\<lparr>db_objects := db_objects db', db_gc_pending := db_gc_pending db'\<rparr>"

definition cat_kept :: "'s world \<Rightarrow> 's world \<Rightarrow> bool" where
  "cat_kept w w' \<longleftrightarrow> w_split w' = w_split w \<and> ledger_only (w_cat w) (w_cat w') \<and> (\<not> w_split w \<longrightarrow> w_cat w' = w_cat w)"

lemma ledger_refl [simp]: "ledger_only db db"
  by (simp add: ledger_only_def)

lemma ledger_trans: "ledger_only a b \<Longrightarrow> ledger_only b c \<Longrightarrow> ledger_only a c"
  unfolding ledger_only_def by (cases a; cases b; cases c) simp

lemma ledger_upsert: "ledger_only db (snd (object_row_upsert i sz csz touched db))"
  by (cases db) (simp add: ledger_only_def object_row_upsert_def Let_def split: option.split)

lemma cat_kept_refl [simp]: "cat_kept w w"
  by (simp add: cat_kept_def)

lemma cat_kept_trans: "cat_kept a b \<Longrightarrow> cat_kept b c \<Longrightarrow> cat_kept a c"
  unfolding cat_kept_def using ledger_trans by auto

lemma cat_kept_db [simp]:
  "cat_kept w (w'\<lparr>w_db := db\<rparr>) = cat_kept w w'" "cat_kept w (w'\<lparr>w_cas := s\<rparr>) = cat_kept w w'"
  "cat_kept (w\<lparr>w_db := db\<rparr>) w' = cat_kept w w'"
  by (simp_all add: cat_kept_def)

lemma cat_kept_upsert: "cat_kept w (on_cat (\<lambda>db. snd (object_row_upsert i sz csz touched db)) w)"
  by (simp add: cat_kept_def on_cat_def ledger_upsert)

text \<open>The world at the end of a step, whether it failed or not.\<close>

definition end_world :: "('b \<Rightarrow> 's world) \<Rightarrow> (land_error \<times> 's world) + 'b \<Rightarrow> 's world" where
  "end_world f r = (case r of Inl (_, w) \<Rightarrow> w | Inr b \<Rightarrow> f b)"

lemma end_world_simps [simp]: "end_world f (Inl (e, w)) = w" "end_world f (Inr b) = f b"
  by (simp_all add: end_world_def)

lemma end_world_at [simp]: "end_world f (rbind (at_world w m) g) = (case m of Inl _ \<Rightarrow> w | Inr a \<Rightarrow> end_world f (g a))"
  by (cases m) (simp_all add: at_world_def map_err_def)

lemma write_blobs_kept: "cat_kept w (end_world snd (write_blobs env now blobs written w))"
proof (induction env now blobs written w rule: write_blobs.induct)
  case (2 env now i bs rest written w)
  obtain put cas where p: "le_put env (w_cas w) bs = (put, cas)" by force
  show ?case
  proof (cases "i \<in> set written")
    case True
    then show ?thesis using 2 by simp
  next
    case False
    show ?thesis
    proof (cases put)
      case (Inr q)
      obtain pid csize where q: "q = (pid, csize)" by force
      let ?w = "on_cat (\<lambda>db. snd (object_row_upsert i (as_i64 (of_nat (length bs))) (as_i64 csize) now db)) (w\<lparr>w_cas := cas\<rparr>)"
      have "cat_kept (w\<lparr>w_cas := cas\<rparr>) ?w" by (rule cat_kept_upsert)
      moreover have "cat_kept w (w\<lparr>w_cas := cas\<rparr>)" by simp
      ultimately have k: "cat_kept w ?w" using cat_kept_trans by blast
      show ?thesis
      proof (cases "pid = i")
        case True
        then have "cat_kept ?w (end_world snd (write_blobs env now rest (written @ [i]) ?w))" using 2(2) [OF False p [symmetric]] p Inr q by simp
        with k show ?thesis using cat_kept_trans False True p Inr q by auto
      qed (use False p Inr q in simp)
    qed (use False p in simp)
  qed
qed simp

lemma place_node_kept: "cat_kept (rs_world st) (end_world rs_world (place_node env cmd node node_tree cs merged st))"
proof -
  have k: "cat_kept (rs_world st) (end_world snd (write_blobs env (lc_now cmd) (mt_new_blobs merged) (rs_written st) (rs_world st)))"
    by (rule write_blobs_kept)
  show ?thesis
  proof (cases "write_blobs env (lc_now cmd) (mt_new_blobs merged) (rs_written st) (rs_world st)")
    case (Inl x)
    then show ?thesis using k unfolding place_node_def Let_def by (cases x) (auto split: sum.split)
  next
    case (Inr x)
    then show ?thesis using k unfolding place_node_def Let_def by (cases x) (auto split: sum.split)
  qed
qed

lemma rebase_merged_kept: "cat_kept (rs_world st) (end_world rs_world (rebase_merged env cmd node row node_tree parent_tree st))"
  unfolding rebase_merged_def Let_def using place_node_kept by (auto split: sum.split prod.split)

lemma obind_at_world:
  "obind (map_option (at_world w) m) f = Some r \<Longrightarrow> (\<exists>e. r = Inl (e, w)) \<or> (\<exists>a. m = Some (Inr a) \<and> f a = Some r)"
  by (cases m; cases "the m") (auto simp: obind_def at_world_def map_err_def)

lemma rebase_node_kept:
  assumes "rebase_node env cmd node st = Some r"
  shows "cat_kept (rs_world st) (end_world rs_world r)"
  using assms unfolding rebase_node_def Let_def
  by (auto split: option.splits dest!: obind_at_world simp: rebase_merged_kept)

lemma rebase_chain_kept:
  "rebase_chain env cmd nodes st = Some r \<Longrightarrow> cat_kept (rs_world st) (end_world rs_world r)"
proof (induction nodes arbitrary: st)
  case (Cons node nodes)
  then obtain r1 where r1: "rebase_node env cmd node st = Some r1" by (auto simp: obind_def split: option.splits)
  note k = rebase_node_kept [OF r1]
  show ?case
  proof (cases r1)
    case (Inl x)
    then show ?thesis using Cons.prems r1 k by (cases x) (auto simp: obind_def)
  next
    case (Inr st1)
    then show ?thesis using Cons r1 k cat_kept_trans by (fastforce simp: obind_def)
  qed
qed auto

lemma land_rebase_kept:
  assumes "land_rebase env cmd old_main nodes note w = Some (Inl (e, w'))"
  shows "cat_kept w w'"
proof (cases "changeset_graph (w_db w) (lc_repo cmd) old_main")
  case None
  then show ?thesis using assms by (simp add: land_rebase_def)
next
  case (Some g)
  let ?st = "\<lambda>tree. \<lparr>rs_tip = old_main, rs_gen = cg_generation g, rs_tree = tree, rs_rebased = 0, rs_written = [], rs_world = w\<rparr>"
  consider "w' = w" | tree where "obind (rebase_chain env cmd nodes (?st tree)) (\<lambda>st.
      let (moved, db) = main_cas_move (lc_repo cmd) old_main (rs_tip st) (lc_principal cmd) (w_db (rs_world st));
          w = (rs_world st)\<lparr>w_db := db\<rparr>
      in if moved = 0 then Some (Inl (Ref_Conflict_Stale, w))
         else Some (rbind (at_world w (rep_paths_of db (lc_repo cmd) (rs_tip st))) (\<lambda>reps.
                Inr (settle env cmd old_main (rs_tip st) (rs_rebased st) note reps w)))) = Some (Inl (e, w'))"
    using assms Some unfolding land_rebase_def by (auto simp: Let_def dest!: obind_at_world)
  then show ?thesis
  proof cases
    case (2 tree)
    then obtain r where r: "rebase_chain env cmd nodes (?st tree) = Some r" by (auto simp: obind_def split: option.splits)
    have k: "cat_kept w (end_world rs_world r)" using rebase_chain_kept [OF r] by simp
    have "\<exists>db. w' = (end_world rs_world r)\<lparr>w_db := db\<rparr>"
    proof (cases r)
      case (Inl x)
      then have "w' = (end_world rs_world r)\<lparr>w_db := w_db w'\<rparr>" using 2 r by (simp add: obind_def)
      then show ?thesis by blast
    next
      case (Inr st)
      then show ?thesis using 2 r by (auto simp: obind_def Let_def split_beta rbind_eq_Inl split: if_splits)
    qed
    then show ?thesis using k by auto
  qed simp
qed

lemma land_onto_kept: "land_onto env cmd old_main w = Some (Inl (e, w')) \<Longrightarrow> cat_kept w w'"
  unfolding land_onto_def Let_def
  by (auto simp: obind_eq_Inl obind_eq_Inr rbind_eq_Inl split: if_splits dest: land_rebase_kept)

lemma land_in_txn_kept: "land_in_txn env cmd w = Some (Inl (e, w')) \<Longrightarrow> cat_kept w w'"
  unfolding land_in_txn_def Let_def
  by (auto simp: obind_eq_Inl obind_eq_Inr rbind_eq_Inl split: if_splits option.splits) (metis cat_kept_db(3) land_onto_kept)

section \<open>What a land that succeeds leaves\<close>

definition land_frame :: "repo_db \<Rightarrow> repo_db \<Rightarrow> bool" where
  "land_frame db db' \<longleftrightarrow> db_refs db' = db_refs db \<and> db_lands db' = db_lands db"

text \<open>A deriver leaves the changesets, the refs and the land keys alone.\<close>

definition keeps_land :: "unit registered_kind \<Rightarrow> bool" where
  "keeps_land kind \<longleftrightarrow> (\<forall>ctx db repo cs outs. let db' = snd (rk_derive kind ctx db repo cs outs) in
     land_frame db db' \<and> db_changesets db' = db_changesets db)"

lemma upsert_node_land [simp]:
  "db_refs (upsert_node row f db) = db_refs db" "db_lands (upsert_node row f db) = db_lands db"
  "db_changesets (upsert_node row f db) = db_changesets db"
  by (simp_all add: upsert_node_def update_node_def)

lemma derive_writes_land [simp]:
  "db_refs (derive_report kind repo cs reason ts db) = db_refs db" "db_lands (derive_report kind repo cs reason ts db) = db_lands db"
  "db_refs (derive_poison_now kind repo cs reason ts db) = db_refs db" "db_lands (derive_poison_now kind repo cs reason ts db) = db_lands db"
  "db_changesets (derive_poison_now kind repo cs reason ts db) = db_changesets db"
  "db_refs (snd (derive_fail_attempt kind repo cs reason ts db)) = db_refs db" "db_lands (snd (derive_fail_attempt kind repo cs reason ts db)) = db_lands db"
  "db_changesets (snd (derive_fail_attempt kind repo cs reason ts db)) = db_changesets db"
  by (simp_all add: derive_report_def derive_poison_now_def derive_fail_attempt_def Let_def)

lemma enqueue_eager_land:
  assumes "keeps_land kind" and "enqueue_eager kind repo cs parents env db = Inr db'"
  shows "land_frame db db' \<and> db_changesets db' = db_changesets db"
proof -
  obtain result db1 where d: "rk_derive kind (ctx_new (rk_walk_budget kind) (ee_clock env) (ee_walk_deadline env)) db repo cs
      (derive_parent_outputs db (rk_id kind) repo parents) = (result, db1)" by force
  have k: "db_refs db1 = db_refs db" "db_lands db1 = db_lands db" "db_changesets db1 = db_changesets db"
    using assms(1) d unfolding keeps_land_def land_frame_def Let_def by (metis snd_conv)+
  show ?thesis
  proof (cases result)
    case (Derived out)
    then show ?thesis using assms(2) d k
      by (auto simp: enqueue_eager_def Let_def split_beta land_frame_def derive_state_insert_done_def map_err_def split: if_splits)
  next
    case (Failed failure)
    then show ?thesis using assms(2) d k
      by (cases failure) (auto simp: enqueue_eager_def Let_def split_beta land_frame_def derive_report_def split: if_splits)
  qed (use assms(2) d in \<open>simp add: enqueue_eager_def Let_def split_beta\<close>)
qed

lemma enqueue_changeset_land:
  "\<forall>kind \<in> set kinds. keeps_land kind \<Longrightarrow> enqueue_changeset kinds repo cs parents env db = Inr db' \<Longrightarrow>
     land_frame db db' \<and> db_changesets db' = db_changesets db"
proof (induction kinds arbitrary: db)
  case (Cons kind kinds)
  obtain db1 where one: "(if rk_eager kind then enqueue_eager kind repo cs parents env db
      else Inr (derive_enqueue_pending (rk_id kind) repo cs db)) = Inr db1"
    and rest: "enqueue_changeset kinds repo cs parents env db1 = Inr db'" using Cons.prems(2) by (auto simp: rbind_eq_Inr)
  have "land_frame db db1 \<and> db_changesets db1 = db_changesets db"
    using one enqueue_eager_land [of kind repo cs parents env db db1] Cons.prems(1)
    by (auto simp: derive_enqueue_pending_def land_frame_def split: if_splits)
  then show ?case using Cons.IH [OF _ rest] Cons.prems(1) by (simp add: land_frame_def)
qed (simp add: land_frame_def)

lemma tree_rows_land:
  "db_refs (trees_write repo ws db) = db_refs db" "db_lands (trees_write repo ws db) = db_lands db"
  "db_changesets (trees_write repo ws db) = db_changesets db" for db :: repo_db
proof -
  let ?same = "\<lambda>(db::repo_db) db'. db_refs db' = db_refs db \<and> db_lands db' = db_lands db \<and> db_changesets db' = db_changesets db"
  have e: "?same db (fold (put_entry_row i) es db)" for i es and db :: repo_db
    by (induction es arbitrary: db) (simp_all add: put_entry_row_def)
  have "?same db (put_repo_tree repo (tw_id t) (write_tree_rows repo t db))" for t and db :: repo_db
    using e [of "tw_id t" "tw_entries t"] by (simp add: put_repo_tree_def write_tree_rows_def Let_def)
  then have "?same db (trees_write repo ws db)"
    unfolding trees_write_def by (induction ws arbitrary: db) simp_all
  then show "db_refs (trees_write repo ws db) = db_refs db" "db_lands (trees_write repo ws db) = db_lands db"
    "db_changesets (trees_write repo ws db) = db_changesets db" by simp_all
qed

lemma insert_node_land:
  assumes kinds: "\<forall>kind \<in> set (le_kinds env). keeps_land kind"
    and ins: "insert_node env cmd cs canonical new_id blobs node generation db = Inr db'"
  shows "land_frame db db' \<and> (\<exists>row. db_changesets db' = db_changesets db @ [row] \<and> cr_id row = new_id \<and> cr_repo row = lc_repo cmd \<and>
    cr_principal row = lc_principal cmd \<and> cr_generation row = generation \<and> cr_canonical row = canonical \<and>
    (\<exists>root sz trees. mem_collect (env_blake3 (le_merge env)) node = Inr (root, sz, trees) \<and> cr_root_tree row = Some root))"
proof -
  obtain root sz trees db1 where tree: "mem_collect (env_blake3 (le_merge env)) node = Inr (root, sz, trees)"
    and c: "changeset_insert_rows (le_print env)
      \<lparr>ci_repo = lc_repo cmd, ci_repo_name = lc_repo_name cmd, ci_id = new_id, ci_canonical = canonical,
       ci_author = cs_author cs, ci_message = cs_message cs, ci_timestamp = as_i64 (cs_timestamp_ns cs),
       ci_generation = generation, ci_principal = lc_principal cmd, ci_root_tree = root,
       ci_parents = cs_parents cs, ci_changes = cs_changes cs, ci_blobs = blobs, ci_trees = trees,
       ci_now = lc_now cmd\<rparr> no_extras db = Inr db1"
    and q: "enqueue_changeset (le_kinds env) (lc_repo cmd) new_id (cs_parents cs)
      \<lparr>ee_now = lc_now cmd, ee_clock = lc_clock cmd new_id, ee_walk_deadline = lc_walk_deadline cmd\<rparr> db1 = Inr db'"
    using ins unfolding insert_node_def by (auto simp: rbind_eq_Inr map_err_eq_Inr)
  have "land_frame db db1 \<and> (\<exists>row. db_changesets db1 = db_changesets db @ [row] \<and> cr_id row = new_id \<and> cr_repo row = lc_repo cmd \<and>
      cr_principal row = lc_principal cmd \<and> cr_generation row = generation \<and> cr_canonical row = canonical \<and> cr_root_tree row = Some root)"
    using c by (auto simp: changeset_insert_rows_def Let_def rbind_eq_Inr land_frame_def audit_append_def tree_rows_land split: if_splits)
  then show ?thesis using enqueue_changeset_land [OF kinds q] tree by (auto simp: land_frame_def)
qed

lemma write_blobs_db:
  "write_blobs env now blobs written w = Inr (written', w') \<Longrightarrow> ledger_only (w_db w) (w_db w') \<and> w_split w' = w_split w"
proof (induction env now blobs written w arbitrary: written' w' rule: write_blobs.induct)
  case (2 env now i bs rest written w)
  show ?case
  proof (cases "i \<in> set written")
    case True
    then show ?thesis using 2(1) 2(3) by simp
  next
    case False
    obtain put cas where p: "le_put env (w_cas w) bs = (put, cas)" by force
    then obtain csize where put: "put = Inr (i, csize)" using 2(3) False by (cases put) (auto simp: Let_def split: if_splits prod.splits)
    let ?w = "on_cat (\<lambda>db. snd (object_row_upsert i (as_i64 (of_nat (length bs))) (as_i64 csize) now db)) (w\<lparr>w_cas := cas\<rparr>)"
    have "ledger_only (w_db ?w) (w_db w') \<and> w_split w' = w_split ?w"
      using 2(2) [OF False p [symmetric]] 2(3) False p put by simp
    moreover have "ledger_only (w_db w) (w_db ?w)" "w_split ?w = w_split w" by (simp_all add: on_cat_def ledger_upsert)
    ultimately show ?thesis using ledger_trans by auto
  qed
qed simp

lemma ledger_land: "ledger_only db db' \<Longrightarrow> land_frame db db' \<and> db_changesets db' = db_changesets db"
  unfolding ledger_only_def land_frame_def by (cases db; cases db') simp

text \<open>
  The rebase from \<open>db\<close> at generation \<open>g\<close>: one row for each rebased node, numbered from \<open>g\<close> on.
\<close>

definition bump :: "i64 \<Rightarrow> i64" where "bump g = i64_add g 1"

definition rebase_rows :: "land_command \<Rightarrow> i64 \<Rightarrow> changeset_row list \<Rightarrow> bool" where
  "rebase_rows cmd g rows \<longleftrightarrow> (\<forall>i < length rows. cr_repo (rows ! i) = lc_repo cmd \<and> cr_principal (rows ! i) = lc_principal cmd \<and>
     cr_generation (rows ! i) = (bump ^^ Suc i) g)"

definition grown :: "land_command \<Rightarrow> 's world \<Rightarrow> i64 \<Rightarrow> 's rebase_state \<Rightarrow> bool" where
  "grown cmd w g st \<longleftrightarrow> land_frame (w_db w) (w_db (rs_world st)) \<and> w_split (rs_world st) = w_split w \<and> wf_id (rs_tip st) \<and>
     (\<exists>rows. db_changesets (w_db (rs_world st)) = db_changesets (w_db w) @ rows \<and> rs_rebased st = of_nat (length rows) \<and>
        rs_gen st = (bump ^^ length rows) g \<and> rebase_rows cmd g rows)"

lemma rebase_rows_snoc:
  "rebase_rows cmd g rows \<Longrightarrow> cr_repo row = lc_repo cmd \<Longrightarrow> cr_principal row = lc_principal cmd \<Longrightarrow>
     cr_generation row = (bump ^^ Suc (length rows)) g \<Longrightarrow> rebase_rows cmd g (rows @ [row])"
  unfolding rebase_rows_def by (auto simp: nth_append less_Suc_eq)

definition hash32 :: "'s land_env \<Rightarrow> bool" where
  "hash32 env \<longleftrightarrow> (\<forall>x. wf_id (env_blake3 (le_merge env) x))"

lemma new_id_wf: "hash32 env \<Longrightarrow> wf_id (id_for_encoded (env_blake3 (le_merge env)) canonical b)"
  by (simp add: hash32_def id_for_encoded_def object_id_def object_id_v2_def object_id_in_def)

text \<open>How a node is placed: adopted as it is, or inserted as a new row.\<close>

lemma place_node_Inr:
  assumes "place_node env cmd node node_tree cs merged st = Inr st'"
  obtains canonical written w1 where
    "write_blobs env (lc_now cmd) (mt_new_blobs merged) (rs_written st) (rs_world st) = Inr (written, w1)"
    and "id_for_encoded (env_blake3 (le_merge env)) canonical (cs_conflicts cs \<noteq> []) = node"
    and "st' = st\<lparr>rs_tip := node, rs_tree := node_tree, rs_written := written, rs_world := w1\<rparr>"
    and "changeset_encode (env_nfc (le_merge env)) cs = Inr canonical"
  | canonical written w1 new_id db where
    "write_blobs env (lc_now cmd) (mt_new_blobs merged) (rs_written st) (rs_world st) = Inr (written, w1)"
    and "new_id = id_for_encoded (env_blake3 (le_merge env)) canonical (cs_conflicts cs \<noteq> [])" and "new_id \<noteq> node"
    and "insert_node env cmd cs canonical new_id (change_blobs (cs_changes cs)) (mt_node merged) (bump (rs_gen st)) (w_db w1) = Inr db"
    and "st' = \<lparr>rs_tip = new_id, rs_gen = bump (rs_gen st), rs_tree = mt_node merged, rs_rebased = rs_rebased st + 1,
      rs_written = written, rs_world = w1\<lparr>w_db := db\<rparr>\<rparr>"
    and "changeset_encode (env_nfc (le_merge env)) cs = Inr canonical"
proof -
  obtain canonical where enc: "changeset_encode (env_nfc (le_merge env)) cs = Inr canonical" and "rbind (at_world (rs_world st) (redaction_gate (w_db (rs_world st)) (lc_repo cmd) (change_blobs (cs_changes cs)) merged
        (cs_conflicts cs) (id_for_encoded (env_blake3 (le_merge env)) canonical (cs_conflicts cs \<noteq> [])))) (\<lambda>_.
      rbind (write_blobs env (lc_now cmd) (mt_new_blobs merged) (rs_written st) (rs_world st)) (\<lambda>(written, w).
        if id_for_encoded (env_blake3 (le_merge env)) canonical (cs_conflicts cs \<noteq> []) = node then
          Inr (st\<lparr>rs_tip := node, rs_tree := node_tree, rs_written := written, rs_world := w\<rparr>)
        else rbind (at_world w (insert_node env cmd cs canonical (id_for_encoded (env_blake3 (le_merge env)) canonical (cs_conflicts cs \<noteq> []))
               (change_blobs (cs_changes cs)) (mt_node merged) (bump (rs_gen st)) (w_db w))) (\<lambda>db.
          Inr \<lparr>rs_tip = id_for_encoded (env_blake3 (le_merge env)) canonical (cs_conflicts cs \<noteq> []), rs_gen = bump (rs_gen st),
            rs_tree = mt_node merged, rs_rebased = rs_rebased st + 1, rs_written = written, rs_world = w\<lparr>w_db := db\<rparr>\<rparr>))) = Inr st'"
      (is "rbind _ (\<lambda>_. rbind _ ?place) = _")
    using assms unfolding place_node_def Let_def bump_def
    by (subst (asm) rbind_eq_Inr) (simp only: at_world_eq_Inr map_err_eq_Inr, blast)
  then obtain written w1 where wb: "write_blobs env (lc_now cmd) (mt_new_blobs merged) (rs_written st) (rs_world st) = Inr (written, w1)"
    and rest: "?place (written, w1) = Inr st'" by (auto simp: rbind_eq_Inr)
  show ?thesis
  proof (cases "id_for_encoded (env_blake3 (le_merge env)) canonical (cs_conflicts cs \<noteq> []) = node")
    case True
    then show ?thesis using that(1) [OF wb True _ enc] rest by simp
  next
    case False
    then show ?thesis using that(2) [OF wb refl False _ _ enc] rest by (auto simp: rbind_eq_Inr)
  qed
qed

lemma place_node_grown:
  assumes kinds: "\<forall>kind \<in> set (le_kinds env). keeps_land kind" and hash: "hash32 env"
    and st: "grown cmd w g st" and place: "place_node env cmd node node_tree cs merged st = Inr st'"
  shows "grown cmd w g st'"
proof -
  obtain rows where rows: "db_changesets (w_db (rs_world st)) = db_changesets (w_db w) @ rows" "rs_rebased st = of_nat (length rows)"
    "rs_gen st = (bump ^^ length rows) g" "rebase_rows cmd g rows" using st by (auto simp: grown_def)
  have l: "land_frame (w_db (rs_world st)) (w_db w1) \<and> db_changesets (w_db w1) = db_changesets (w_db (rs_world st)) \<and> w_split w1 = w_split (rs_world st)"
    if "write_blobs env (lc_now cmd) (mt_new_blobs merged) (rs_written st) (rs_world st) = Inr (written, w1)" for written w1
    using write_blobs_db [OF that] ledger_land by auto
  from place show ?thesis
  proof (cases rule: place_node_Inr)
    case (1 canonical written w1)
    then show ?thesis using st rows l [OF 1(1)] new_id_wf [OF hash, of canonical "cs_conflicts cs \<noteq> []"]
      by (auto simp: grown_def land_frame_def)
  next
    case (2 canonical written w1 new_id db)
    obtain row where row: "land_frame (w_db w1) db" "db_changesets db = db_changesets (w_db w1) @ [row]" "cr_repo row = lc_repo cmd"
      "cr_principal row = lc_principal cmd" "cr_generation row = bump (rs_gen st)" using insert_node_land [OF kinds 2(4)] by blast
    have "rebase_rows cmd g (rows @ [row])" by (rule rebase_rows_snoc) (use rows row in simp_all)
    then show ?thesis using 2 st l [OF 2(1)] rows row new_id_wf [OF hash]
      by (auto simp: grown_def land_frame_def intro!: exI [of _ "rows @ [row]"])
  qed
qed

lemma place_node_tip: "hash32 env \<Longrightarrow> place_node env cmd node node_tree cs merged st = Inr st' \<Longrightarrow> wf_id (rs_tip st')"
  by (erule place_node_Inr) (auto dest: new_id_wf)

lemma rebase_node_grown:
  assumes "\<forall>kind \<in> set (le_kinds env). keeps_land kind" and "hash32 env" and "grown cmd w g st"
    and "rebase_node env cmd node st = Some (Inr st')"
  shows "grown cmd w g st'"
  using assms(3,4) place_node_grown [OF assms(1-3)] unfolding rebase_node_def rebase_merged_def Let_def
  by (auto simp: obind_eq_Inr rbind_eq_Inr split: option.splits if_splits)

lemma rebase_chain_grown:
  assumes "\<forall>kind \<in> set (le_kinds env). keeps_land kind" and "hash32 env"
  shows "rebase_chain env cmd nodes st = Some (Inr st') \<Longrightarrow> grown cmd w g st \<Longrightarrow> grown cmd w g st'"
  by (induction nodes arbitrary: st) (auto simp: obind_eq_Inr dest: rebase_node_grown [OF assms])

lemma rebase_node_tip:
  "hash32 env \<Longrightarrow> rebase_node env cmd node st = Some (Inr st') \<Longrightarrow> wf_id (rs_tip st) \<Longrightarrow> wf_id (rs_tip st')"
  unfolding rebase_node_def rebase_merged_def Let_def
  by (auto simp: obind_eq_Inr rbind_eq_Inr split: option.splits if_splits dest: place_node_tip)

lemma rebase_chain_tip:
  "hash32 env \<Longrightarrow> rebase_chain env cmd nodes st = Some (Inr st') \<Longrightarrow> wf_id (rs_tip st) \<Longrightarrow> wf_id (rs_tip st')"
  by (induction nodes arbitrary: st) (auto simp: obind_eq_Inr dest: rebase_node_tip)

lemma id_of_Some: "id_of x = Some i \<longleftrightarrow> x = i \<and> wf_id i"
  by (auto simp: id_of_def wf_id_def)

lemma land_rebase_done:
  assumes "land_rebase env cmd old_main nodes note w = Some (Inr r)"
  obtains g tree st reps where "changeset_graph (w_db w) (lc_repo cmd) old_main = Some g"
    and "rebase_chain env cmd nodes \<lparr>rs_tip = old_main, rs_gen = cg_generation g, rs_tree = tree, rs_rebased = 0,
          rs_written = [], rs_world = w\<rparr> = Some (Inr st)"
    and "fst (main_cas_move (lc_repo cmd) old_main (rs_tip st) (lc_principal cmd) (w_db (rs_world st))) \<noteq> 0"
    and "r = settle env cmd old_main (rs_tip st) (rs_rebased st) note reps
          ((rs_world st)\<lparr>w_db := snd (main_cas_move (lc_repo cmd) old_main (rs_tip st) (lc_principal cmd) (w_db (rs_world st)))\<rparr>)"
  using assms unfolding land_rebase_def
  by (auto simp: obind_eq_Inr rbind_eq_Inr Let_def split_beta split: option.splits if_splits)

lemma land_onto_done:
  assumes "land_onto env cmd old_main w = Some (Inr r)"
  obtains reps where "r = settle env cmd old_main old_main 0 None reps w"
  | nodes nt where "land_rebase env cmd old_main nodes nt w = Some (Inr r)"
  using assms unfolding land_onto_def
  by (auto simp: obind_eq_Inr rbind_eq_Inr Let_def split: if_splits)

definition pending_db :: "land_command \<Rightarrow> repo_db \<Rightarrow> repo_db" where
  "pending_db cmd db = db\<lparr>db_lands := om_insert (lc_repo cmd, lc_principal cmd, lc_key cmd)
     \<lparr>la_state = ascii ''pending'', la_head = Some (lc_head cmd), la_base = None, la_result = None\<rparr> (db_lands db)\<rparr>"

lemma land_txn_done:
  assumes "land_in_txn env cmd w = Some (Inr r)"
  obtains don where "settled_answer env cmd (w_db w) = Some (Inr don)" and "r = ((don, None), w)"
  | row old_main where "settled_answer env cmd (w_db w) = None"
    and "ref_get (w_db w) (lc_repo cmd) (ascii ''main'') = Some row" and "rf_target row = Some old_main" and "wf_id old_main"
    and "land_onto env cmd old_main (w\<lparr>w_db := pending_db cmd (w_db w)\<rparr>) = Some (Inr r)"
proof (cases "settled_answer env cmd (w_db w)")
  case None
  then show ?thesis using assms that(2) unfolding land_in_txn_def
    by (auto simp: obind_eq_Inr rbind_eq_Inr map_err_eq_Inr ok_or_eq_Inr Let_def land_insert_pending_def insert_unique_def pending_db_def ref_get_def
        Option.bind_eq_Some_conv id_of_Some split: if_splits option.splits)
next
  case (Some answer)
  then show ?thesis using assms that(1) unfolding land_in_txn_def by (auto simp: rbind_eq_Inr)
qed

definition settled_row :: "'s land_env \<Rightarrow> land_command \<Rightarrow> oid \<Rightarrow> land_done \<Rightarrow> land_row" where
  "settled_row env cmd base don =
     \<lparr>la_state = (if ld_conflicts don = [] then ascii ''done'' else ascii ''conflicted''), la_head = Some (lc_head cmd), la_base = Some base,
      la_result = Some (le_print env (settle_result (ld_landed don) (ld_rebased don) (ld_note don) (ld_conflicts don)))\<rparr>"

definition after_commit :: "pending_audit option \<Rightarrow> 's world \<Rightarrow> 's world" where
  "after_commit audit w = (case audit of None \<Rightarrow> w
     | Some a \<Rightarrow> on_cat (audit_append (pa_now a) (pa_principal a) (ascii ''land'') (pa_details a)) w)"

lemma settle_done:
  assumes "((don, audit), w') = settle env cmd base landed rebased note reps w"
  shows "don = \<lparr>ld_landed = landed, ld_main = landed, ld_rebased = rebased, ld_note = note, ld_conflicts = reps\<rparr> \<and>
    db_lands (w_db (after_commit audit w')) = om_insert (lc_repo cmd, lc_principal cmd, lc_key cmd) (settled_row env cmd base don) (db_lands (w_db w)) \<and>
    db_refs (w_db (after_commit audit w')) = db_refs (w_db w) \<and> db_changesets (w_db (after_commit audit w')) = db_changesets (w_db w)"
  using assms
  by (auto simp: settle_def Let_def land_settle_def settled_row_def on_cat_def audit_append_def after_commit_def split: if_splits)

lemma execute_done:
  assumes "execute env cmd w = Some (Inr don, w')"
  obtains audit w1 where "land_in_txn env cmd w = Some (Inr ((don, audit), w1))" and "w' = after_commit audit w1"
  using assms unfolding execute_def after_commit_def
  by (cases "land_in_txn env cmd w"; cases "the (land_in_txn env cmd w)") auto

lemma land_key_row:
  assumes "hash32 env" and "execute env cmd w = Some (Inr don, w')" and "settled_answer env cmd (w_db w) = None"
  shows "\<exists>base. land_get (w_db w') (lc_repo cmd) (lc_principal cmd) (lc_key cmd) = Some (settled_row env cmd base don) \<and>
    wf_id (ld_landed don) \<and> ld_main don = ld_landed don"
proof -
  obtain audit w1 where t: "land_in_txn env cmd w = Some (Inr ((don, audit), w1))" and w': "w' = after_commit audit w1"
    by (rule execute_done [OF assms(2)])
  from t show ?thesis
  proof (cases rule: land_txn_done)
    case (2 row old_main)
    have s: "?thesis" if "((don, audit), w1) = settle env cmd base landed rebased nt reps w2" "wf_id landed" for base landed rebased nt reps w2
      using settle_done [OF that(1)] that(2) w' by (auto simp: land_get_def)
    from 2(5) show ?thesis
    proof (cases rule: land_onto_done)
      case (1 reps)
      then show ?thesis using s 2(4) by blast
    next
      case (2 nodes nt)
      from 2 show ?thesis
      proof (cases rule: land_rebase_done)
        case (1 g tree st reps)
        then show ?thesis using s rebase_chain_tip [OF assms(1) 1(2)] \<open>wf_id old_main\<close> by fastforce
      qed
    qed
  qed (use assms(3) in simp)
qed

lemma as_str_results: "List.map_filter as_str (map JStr xs) = xs"
  by (induction xs) (simp_all add: as_str_def List.map_filter_simps)

lemma replay_result:
  assumes "le_parse env (le_print env (settle_result landed rebased nt reps)) = Some (settle_result landed rebased nt reps)" and "wf_id landed"
  shows "replay env (Some (le_print env (settle_result landed rebased nt reps))) =
    Inr \<lparr>ld_landed = landed, ld_main = landed, ld_rebased = rebased, ld_note = nt, ld_conflicts = reps\<rparr>"
proof -
  let ?v = "settle_result landed rebased nt reps"
  have f: "json_get ?v (ascii ''landed'') = JStr (to_hex landed)" "json_get ?v (ascii ''rebased'') = JNum (uint rebased)"
    "json_get ?v (ascii ''note'') = json_opt nt" "json_get ?v (ascii ''conflicts'') = JArr (map JStr reps)"
    by (simp_all add: json_get_def settle_result_def ascii_def)
  have u: "as_json_u64 (JNum (uint rebased)) = Some rebased" using uint_bounded [of rebased] by (simp add: as_json_u64_def)
  have n: "as_str (json_opt nt) = nt" by (cases nt) (simp_all add: json_opt_def as_str_def)
  show ?thesis unfolding replay_def using assms u n by (simp add: f as_str_results from_hex_to_hex) (simp add: as_str_def from_hex_to_hex)
qed

text \<open>The commands that differ from a given one in the head and the options only.\<close>

definition same_key :: "land_command \<Rightarrow> land_command \<Rightarrow> bool" where
  "same_key cmd cmd' \<longleftrightarrow> lc_repo cmd' = lc_repo cmd \<and> lc_principal cmd' = lc_principal cmd \<and> lc_key cmd' = lc_key cmd"

lemma settled_answer_row:
  assumes "land_get db (lc_repo cmd) (lc_principal cmd) (lc_key cmd) = Some (settled_row env cmd base don)"
    and "le_parse env (le_print env (settle_result (ld_landed don) (ld_rebased don) (ld_note don) (ld_conflicts don))) =
      Some (settle_result (ld_landed don) (ld_rebased don) (ld_note don) (ld_conflicts don))"
    and "wf_id (ld_landed don)" and "ld_main don = ld_landed don" and "wf_id (lc_head cmd)" and "same_key cmd cmd'"
  shows "settled_answer env cmd' db = Some (if lc_head cmd' = lc_head cmd then Inr don else Inl (Idempotency_Key_Settled (lc_head cmd)))"
proof -
  have r: "replay env (la_result (settled_row env cmd base don)) = Inr don"
    using replay_result [OF assms(2,3)] assms(4) by (cases don) (simp add: settled_row_def)
  have h: "la_head (settled_row env cmd base don) = Some (lc_head cmd)"
    "la_state (settled_row env cmd base don) = ascii ''done'' \<or> la_state (settled_row env cmd base don) = ascii ''conflicted''"
    by (simp_all add: settled_row_def)
  have i: "id_of (lc_head cmd) = Some (lc_head cmd)" using assms(5) by (simp add: id_of_Some)
  show ?thesis using assms(1,6) r h i unfolding settled_answer_def same_key_def by auto
qed

lemma answered: "settled_answer env cmd (w_db w) = Some answer \<Longrightarrow> execute env cmd w = Some (answer, w)"
  by (cases answer) (simp_all add: execute_def land_in_txn_def at_world_def)

lemma land_key_replays:
  assumes "hash32 env" and "execute env cmd w = Some (Inr don, w')" and "wf_id (lc_head cmd)"
    and "le_parse env (le_print env (settle_result (ld_landed don) (ld_rebased don) (ld_note don) (ld_conflicts don))) =
      Some (settle_result (ld_landed don) (ld_rebased don) (ld_note don) (ld_conflicts don))"
    and "same_key cmd cmd'"
  shows "execute env cmd' w' = Some (if lc_head cmd' = lc_head cmd then Inr don else Inl (Idempotency_Key_Settled (lc_head cmd)), w')"
proof (cases "settled_answer env cmd (w_db w)")
  case None
  obtain base where "land_get (w_db w') (lc_repo cmd) (lc_principal cmd) (lc_key cmd) = Some (settled_row env cmd base don)"
    "wf_id (ld_landed don)" "ld_main don = ld_landed don" using land_key_row [OF assms(1,2) None] by blast
  from answered [OF settled_answer_row [OF this(1) assms(4) this(2,3) assms(3,5)]] show ?thesis .
next
  case (Some answer)
  then have a: "answer = Inr don" "w' = w" using answered [OF Some] assms(2) by auto
  obtain row where row: "land_get (w_db w) (lc_repo cmd) (lc_principal cmd) (lc_key cmd) = Some row"
    using Some by (auto simp: settled_answer_def)
  have s: "la_state row = ascii ''done'' \<or> la_state row = ascii ''conflicted''" and h: "Option.bind (la_head row) id_of = Some (lc_head cmd)"
    and r: "replay env (la_result row) = Inr don"
    using Some a row unfolding settled_answer_def by (auto simp: rbind_eq_Inr ok_or_eq_Inr split: if_splits)
  have "settled_answer env cmd' (w_db w') = Some (if lc_head cmd' = lc_head cmd then Inr don else Inl (Idempotency_Key_Settled (lc_head cmd)))"
    using row s h r a assms(5) unfolding settled_answer_def same_key_def by simp
  then show ?thesis by (rule answered)
qed

definition main_generation :: "repo_db \<Rightarrow> i64 \<Rightarrow> oid \<Rightarrow> i64" where
  "main_generation db repo i = (case changeset_graph db repo i of None \<Rightarrow> 0 | Some g \<Rightarrow> cg_generation g)"

lemma pending_frame [simp]:
  "db_refs (pending_db cmd db) = db_refs db" "db_changesets (pending_db cmd db) = db_changesets db" "db_parents (pending_db cmd db) = db_parents db"
  by (simp_all add: pending_db_def)

lemma pending_graph [simp]: "changeset_graph (pending_db cmd db) = changeset_graph db"
  by (intro ext) (simp add: changeset_graph_def changeset_get_def parents_of_def)

section \<open>A small land\<close>

definition land_merge :: merge_env where
  "land_merge = \<lparr>env_blake3 = (\<lambda>_. replicate 32 3), env_nfc = (\<lambda>x. x), env_lines = (\<lambda>x. [x]), env_diff = (\<lambda>_ _. []), env_fetch = (\<lambda>_. Inl [])\<rparr>"

definition plain_cs :: "oid list \<Rightarrow> changeset" where
  "plain_cs parents = \<lparr>cs_repo_id = 1, cs_parents = parents, cs_author = [], cs_message = [], cs_timestamp_ns = 0,
     cs_changes = [\<lparr>fc_path = ascii ''a'', fc_op = Add, fc_blob = Some (replicate 32 6), fc_size = Some 5, fc_exec = Some False\<rparr>],
     cs_conflicts = []\<rparr>"

definition plain_bytes :: "oid list \<Rightarrow> bytes" where
  "plain_bytes parents = (case changeset_encode (\<lambda>x. x) (plain_cs parents) of Inl _ \<Rightarrow> [] | Inr bs \<Rightarrow> bs)"

definition land_sample_row :: "nat \<Rightarrow> byte \<Rightarrow> i64 \<Rightarrow> bytes option \<Rightarrow> changeset_row" where
  "land_sample_row rowid b generation root = \<lparr>cr_rowid = rowid, cr_repo = 1, cr_id = replicate 32 b, cr_canonical = plain_bytes [], cr_author = [],
     cr_message = [], cr_timestamp = 0, cr_generation = generation, cr_principal = [], cr_root_tree = root\<rparr>"

definition land_sample_db :: repo_db where
  "land_sample_db = \<lparr>db_trees = [(replicate 32 4, (1, []))],
     db_tree_entries = [(replicate 32 4, [(ascii ''a'', \<lparr>er_name = ascii ''a'', er_kind = 0, er_object = replicate 32 6, er_size = 5, er_exec = False\<rparr>)])],
     db_repo_trees = {}, db_changesets = [land_sample_row 1 1 0 None, land_sample_row 2 2 1 (Some (replicate 32 4))],
     db_parents = [((1, replicate 32 2, 0), replicate 32 1)], db_file_changes = [], db_repo_blobs = {}, db_git_map = [],
     db_refs = [((1, ascii ''main''), \<lparr>rf_target = Some (replicate 32 1), rf_version = 1, rf_last_principal = None\<rparr>)], db_lands = [],
     db_redactions = [], db_objects = [], db_gc_pending = [], db_snapshots = [], db_blame = [], db_path_history = [], db_repos = [], db_principals = [], db_tokens = [], db_access = [], db_kinds = [], db_meta = [], db_audit = [], db_derive = [], db_reports = []\<rparr>"

definition land_sample_cmd :: "byte \<Rightarrow> land_command" where
  "land_sample_cmd b = \<lparr>lc_repo = 1, lc_repo_name = [], lc_principal = [], lc_scope = None, lc_head = replicate 32 b, lc_key = [],
    lc_base_hint = None, lc_record_conflict = False, lc_now = 0, lc_clock = (\<lambda>_. 0), lc_walk_deadline = 0\<rparr>"

definition land_sample_env :: "unit land_env" where
  "land_sample_env = \<lparr>le_merge = land_merge, le_print = (\<lambda>_. []), le_parse = (\<lambda>_. Some (settle_result (replicate 32 3) 1 None [])), le_kinds = [],
     le_get = (\<lambda>_ _. Inl []), le_put = (\<lambda>s _. (Inl [], s))\<rparr>"

definition land_sample_world :: "bool \<Rightarrow> unit world" where
  "land_sample_world split = \<lparr>w_db = land_sample_db, w_cat = land_sample_db, w_split = split, w_cas = ()\<rparr>"

lemma plain_encodes: "\<exists>b. changeset_encode (\<lambda>x. x) (plain_cs [replicate 32 1]) = Inr b" "\<exists>b. changeset_encode (\<lambda>x. x) (plain_cs []) = Inr b"
  by (simp_all add: changeset_eval plain_cs_def conflict_validate_def)

lemma plain_decodes: "changeset_decode (plain_bytes [replicate 32 1]) = Inr (plain_cs [replicate 32 1])" "changeset_decode (plain_bytes []) = Inr (plain_cs [])"
proof -
  have "wf_changeset (plain_cs [replicate 32 1])" "wf_changeset (plain_cs [])"
    by (simp_all add: wf_changeset_def plain_cs_def wf_change_def change_shape_def ascii_def wf_id_def wf_str_def utf8_valid_all_ascii)
  then show "changeset_decode (plain_bytes [replicate 32 1]) = Inr (plain_cs [replicate 32 1])" "changeset_decode (plain_bytes []) = Inr (plain_cs [])"
    using plain_encodes changeset_dec_enc by (auto simp: plain_bytes_def)
qed

abbreviation scmd :: land_command where "scmd \<equiv> land_sample_cmd 2"
abbreviation sdb :: repo_db where "sdb \<equiv> pending_db scmd land_sample_db"

definition land_sample_tree :: mem_node where
  "land_sample_tree = [(ascii ''a'', MFile (replicate 32 6) 5 False)]"

lemma land_sample_load: "load_tree sdb (Some (replicate 32 4)) = Some (Inr land_sample_tree)" "load_tree sdb None = Some (Inr [])"
proof -
  let ?e = "\<lparr>er_name = ascii ''a'', er_kind = 0, er_object = replicate 32 6, er_size = 5, er_exec = False\<rparr>"
  have rows: "tree_entries_load sdb (replicate 32 4) = [?e]" "tree_repo sdb (replicate 32 4) \<noteq> None"
    by (simp_all add: tree_entries_load_def rows_of_def tree_repo_def pending_db_def land_sample_db_def)
  have "discover_loop sdb [replicate 32 4] Map.empty = Some (Inr [replicate 32 4 \<mapsto> [?e]])"
    using rows by (subst discover_loop.simps, simp add: dir_ids_def) (subst discover_loop.simps, simp)
  moreover have "build_loop [replicate 32 4 \<mapsto> [?e]] [\<lparr>bf_name = [], bf_remaining = [?e], bf_entries = []\<rparr>] = Some (Inr land_sample_tree)"
    by (subst build_loop.simps, simp add: row_id_def wf_id_def) (subst build_loop.simps, simp add: land_sample_tree_def)
  ultimately show "load_tree sdb (Some (replicate 32 4)) = Some (Inr land_sample_tree)"
    by (simp add: load_tree_def mem_load_def load_node_def id_of_def)
qed (simp add: load_tree_def mem_load_def mem_empty_def)

lemma land_sample_merged: "merge_trees (land_merge\<lparr>env_fetch := f\<rparr>) [] [] land_sample_tree = Inr \<lparr>mt_node = land_sample_tree, mt_new_blobs = [], mt_input_ids = []\<rparr>"
  by (simp add: merge_eval put_opt_def land_sample_tree_def land_merge_def)

lemma land_sample_delta: "delta_between [] land_sample_tree = cs_changes (plain_cs [])"
  by (simp add: delta_between_def land_sample_tree_def flatten_files_def union_paths_def om_collect_def delta_at_def plain_cs_def child_path_def)

lemma land_sample_collect: "\<exists>writes. mem_collect (\<lambda>_. replicate 32 3) land_sample_tree = Inr (replicate 32 3, 5, writes)"
  by (simp add: collect_eval land_sample_tree_def)

lemma land_sample_graph:
  "changeset_get sdb 1 (replicate 32 1) = Some (land_sample_row 1 1 0 None)"
  "changeset_get sdb 1 (replicate 32 2) = Some (land_sample_row 2 2 1 (Some (replicate 32 4)))"
  "changeset_graph land_sample_db 1 (replicate 32 1) = Some \<lparr>cg_generation = 0, cg_parents = [], cg_root_tree = None\<rparr>"
  "changeset_graph land_sample_db 1 (replicate 32 2) = Some \<lparr>cg_generation = 1, cg_parents = [replicate 32 1], cg_root_tree = Some (replicate 32 4)\<rparr>"
  by (simp_all add: changeset_graph_def changeset_get_def parents_of_def is_changeset_def land_sample_db_def pending_db_def land_sample_row_def)

lemma land_sample_clear: "redaction_active sdb 1 i = False"
  by (simp add: redaction_active_def pending_db_def land_sample_db_def)

lemma land_sample_walks:
  "ancestry sdb 1 [replicate 32 1] {} = Some (Inr {replicate 32 1})"
  "chain_walk sdb 1 {replicate 32 1} (replicate 32 2) [] = Some (Inr ([replicate 32 2], replicate 32 1))"
proof -
  show "ancestry sdb 1 [replicate 32 1] {} = Some (Inr {replicate 32 1})"
    by (subst ancestry.simps, simp add: land_sample_graph) (subst ancestry.simps, simp)
  show "chain_walk sdb 1 {replicate 32 1} (replicate 32 2) [] = Some (Inr ([replicate 32 2], replicate 32 1))"
    by (subst chain_walk.simps, simp add: land_sample_graph land_sample_clear) (subst chain_walk.simps, simp)
qed

lemma land_sample_insert:
  "\<exists>db row. insert_node land_sample_env scmd (plain_cs [replicate 32 1]) (plain_bytes [replicate 32 1]) (replicate 32 3) [replicate 32 6] land_sample_tree 1 sdb = Inr db \<and>
    changeset_get db 1 (replicate 32 3) = Some row \<and> cr_canonical row = plain_bytes [replicate 32 1] \<and> db_refs db = db_refs land_sample_db"
proof -
  obtain writes where c: "mem_collect (\<lambda>_. replicate 32 3) land_sample_tree = Inr (replicate 32 3, 5, writes)" using land_sample_collect by blast
  show ?thesis
    by (simp add: insert_node_def land_sample_env_def land_merge_def c changeset_insert_rows_def changeset_exists_def tree_rows_land audit_append_def
        land_sample_db_def pending_db_def land_sample_row_def insert_unique_def plain_cs_def no_extras_def put_git_map_def changeset_get_def is_changeset_def land_sample_cmd_def Let_def)
qed


abbreviation sworld :: "bool \<Rightarrow> unit world" where "sworld split \<equiv> (land_sample_world split)\<lparr>w_db := sdb\<rparr>"

lemma land_sample_encode: "changeset_encode (\<lambda>x. x) (plain_cs [replicate 32 1]) = Inr (plain_bytes [replicate 32 1])"
  using plain_encodes by (auto simp: plain_bytes_def)

lemma land_sample_place:
  assumes "insert_node land_sample_env scmd (plain_cs [replicate 32 1]) (plain_bytes [replicate 32 1]) (replicate 32 3) [replicate 32 6] land_sample_tree 1 sdb = Inr db"
  shows "place_node land_sample_env scmd (replicate 32 2) land_sample_tree (plain_cs [replicate 32 1])
      \<lparr>mt_node = land_sample_tree, mt_new_blobs = [], mt_input_ids = []\<rparr>
      \<lparr>rs_tip = replicate 32 1, rs_gen = 0, rs_tree = [], rs_rebased = 0, rs_written = [], rs_world = sworld split\<rparr> =
    Inr \<lparr>rs_tip = replicate 32 3, rs_gen = 1, rs_tree = land_sample_tree, rs_rebased = 1, rs_written = [], rs_world = (sworld split)\<lparr>w_db := db\<rparr>\<rparr>"
proof -
  have i: "id_for_encoded (env_blake3 (le_merge land_sample_env)) b c = replicate 32 3" for b c
    by (simp add: id_for_encoded_def object_id_def object_id_v2_def object_id_in_def land_sample_env_def land_merge_def)
  have g: "redaction_gate sdb 1 blobs merged conflicts new_id = Inr ()" for blobs merged conflicts new_id
    by (simp add: redaction_gate_def redactions_active_among_def land_sample_clear Let_def lowest_hex_def)
  have b: "change_blobs (cs_changes (plain_cs [replicate 32 1])) = [replicate 32 6]" by (simp add: change_blobs_def plain_cs_def)
  have n: "env_nfc (le_merge land_sample_env) = (\<lambda>x. x)" "i64_add 0 1 = 1" "lc_repo scmd = 1"
    by (simp_all add: land_sample_env_def land_merge_def i64_add_def as_i64_def as_u64_def land_sample_cmd_def)
  show ?thesis
    using assms by (simp add: place_node_def Let_def n land_sample_encode at_world_def i g b)
qed

lemma land_sample_rebase:
  assumes "insert_node land_sample_env scmd (plain_cs [replicate 32 1]) (plain_bytes [replicate 32 1]) (replicate 32 3) [replicate 32 6] land_sample_tree 1 sdb = Inr db"
  shows "rebase_node land_sample_env scmd (replicate 32 2)
      \<lparr>rs_tip = replicate 32 1, rs_gen = 0, rs_tree = [], rs_rebased = 0, rs_written = [], rs_world = sworld split\<rparr> =
    Some (Inr \<lparr>rs_tip = replicate 32 3, rs_gen = 1, rs_tree = land_sample_tree, rs_rebased = 1, rs_written = [], rs_world = (sworld split)\<lparr>w_db := db\<rparr>\<rparr>)"
proof -
  have n: "le_merge land_sample_env = land_merge" "lc_repo scmd = 1" "lc_record_conflict scmd = False" by (simp_all add: land_sample_env_def land_sample_cmd_def)
  have p: "node_parent_tree sdb 1 [replicate 32 1] = Some (Inr [])"
    by (simp add: node_parent_tree_def land_sample_graph land_sample_row_def land_sample_load)
  have m: "merge_node land_sample_env scmd (sworld split) [] [] land_sample_tree = Inr (\<lparr>mt_node = land_sample_tree, mt_new_blobs = [], mt_input_ids = []\<rparr>, [])"
    by (simp add: merge_node_def n Let_def land_sample_merged)
  have c: "carry [] [] = []" by (simp add: carry_def om_collect_def)
  have cs: "\<lparr>cs_repo_id = as_u64 1, cs_parents = [replicate 32 1], cs_author = cr_author row, cs_message = cr_message row,
      cs_timestamp_ns = as_u64 (cr_timestamp row), cs_changes = cs_changes (plain_cs []), cs_conflicts = []\<rparr> = plain_cs [replicate 32 1]"
    if "row = land_sample_row 2 2 1 (Some (replicate 32 4))" for row using that by (simp add: plain_cs_def land_sample_row_def as_u64_def)
  show ?thesis
    using land_sample_place [OF assms, of split] m cs [OF refl]
    by (simp add: rebase_node_def n Let_def land_sample_graph land_sample_load p obind_def at_world_def rebase_merged_def
        land_sample_row_def plain_decodes land_sample_delta c) (simp add: plain_cs_def c)
qed


lemma land_sample_run:
  "\<exists>don w'. execute land_sample_env scmd (land_sample_world split) = Some (Inr don, w') \<and>
    don = \<lparr>ld_landed = replicate 32 3, ld_main = replicate 32 3, ld_rebased = 1, ld_note = None, ld_conflicts = []\<rparr>"
proof -
  obtain db row where i: "insert_node land_sample_env scmd (plain_cs [replicate 32 1]) (plain_bytes [replicate 32 1]) (replicate 32 3) [replicate 32 6] land_sample_tree 1 sdb = Inr db"
    and r: "changeset_get db 1 (replicate 32 3) = Some row" "cr_canonical row = plain_bytes [replicate 32 1]" "db_refs db = db_refs land_sample_db"
    using land_sample_insert by blast
  have n: "lc_repo scmd = 1" "lc_head scmd = replicate 32 2" "lc_scope scmd = None" "lc_base_hint scmd = None" "lc_principal scmd = []" "lc_key scmd = []"
    by (simp_all add: land_sample_cmd_def)
  have sc: "check_scope sdb 1 None nodes = Inr ()" for nodes by (simp add: check_scope_def scope_allows_def rforall_eq_Inr case_prod_beta)
  obtain db2 where mv: "main_cas_move 1 (replicate 32 1) (replicate 32 3) [] db = (1, db2)"
    using r(3) by (simp add: main_cas_move_def land_sample_db_def)
  have rp: "rep_paths_of db2 1 (replicate 32 3) = Inr []"
  proof -
    have "changeset_get db2 1 (replicate 32 3) = Some row" using r(1) mv by (auto simp: main_cas_move_def changeset_get_def split: option.splits if_splits)
    then show ?thesis using r(2) plain_decodes(1) by (simp add: rep_paths_of_def plain_cs_def)
  qed
  have reb: "land_rebase land_sample_env scmd (replicate 32 1) [replicate 32 2] None (sworld split) =
      Some (Inr (settle land_sample_env scmd (replicate 32 1) (replicate 32 3) 1 None [] ((sworld split)\<lparr>w_db := db2\<rparr>)))"
    using land_sample_rebase [OF i, of split]
    by (simp add: land_rebase_def n land_sample_graph land_sample_load obind_def at_world_def mv rp)
  have onto: "land_onto land_sample_env scmd (replicate 32 1) (sworld split) =
      Some (Inr (settle land_sample_env scmd (replicate 32 1) (replicate 32 3) 1 None [] ((sworld split)\<lparr>w_db := db2\<rparr>)))"
    using reb by (simp add: land_onto_def n Let_def land_sample_clear land_sample_walks obind_def at_world_def sc base_note_def)
  have txn: "land_in_txn land_sample_env scmd (land_sample_world split) =
      Some (Inr (settle land_sample_env scmd (replicate 32 1) (replicate 32 3) 1 None [] ((sworld split)\<lparr>w_db := db2\<rparr>)))"
  proof -
    have "land_insert_pending 1 [] [] (replicate 32 2) land_sample_db = Inr sdb"
      by (simp add: land_insert_pending_def insert_unique_def pending_db_def n) (simp add: land_sample_db_def insert_unique_def)
    moreover have "settled_answer land_sample_env scmd land_sample_db = None" "redaction_active land_sample_db 1 i = False" for i
      by (simp_all add: settled_answer_def land_get_def redaction_active_def land_sample_db_def)
    moreover have "ref_get sdb 1 (ascii ''main'') = Some \<lparr>rf_target = Some (replicate 32 1), rf_version = 1, rf_last_principal = None\<rparr>"
      by (simp add: ref_get_def) (simp add: land_sample_db_def)
    ultimately show ?thesis using onto by (simp add: land_in_txn_def n land_sample_world_def obind_def at_world_def Let_def id_of_def)
  qed
  obtain don audit w1 where s: "settle land_sample_env scmd (replicate 32 1) (replicate 32 3) 1 None [] ((sworld split)\<lparr>w_db := db2\<rparr>) = ((don, audit), w1)"
    by (metis prod.collapse)
  show ?thesis using settle_done [OF s [symmetric]] txn s by (simp add: execute_def)
qed

section \<open>Properties\<close>

lemma land_sample_hash: "hash32 land_sample_env"
  by (simp add: hash32_def land_sample_env_def land_merge_def wf_id_def)

text \<open>C3: A land key settles once. After a land that succeeded, a land with the same repository, principal and
  key and the same head answers the recorded result and changes nothing, whatever its other options;
  with a different head it is refused with the settled head and changes nothing.\<close>
theorem land_key_settles_once:
  assumes "hash32 env" and "execute env cmd w = Some (Inr don, w')" and "wf_id (lc_head cmd)"
    and "le_parse env (le_print env (settle_result (ld_landed don) (ld_rebased don) (ld_note don) (ld_conflicts don))) =
      Some (settle_result (ld_landed don) (ld_rebased don) (ld_note don) (ld_conflicts don))"
    and "same_key cmd cmd'"
  shows "execute env cmd' w' = Some (if lc_head cmd' = lc_head cmd then Inr don else Inl (Idempotency_Key_Settled (lc_head cmd)), w')"
  by (rule land_key_replays [OF assms])

theorem land_key_settles_once_witness:
  "\<exists>don w'. execute land_sample_env scmd (land_sample_world True) = Some (Inr don, w') \<and>
     execute land_sample_env scmd w' = Some (Inr don, w') \<and>
     execute land_sample_env (land_sample_cmd 1) w' = Some (Inl (Idempotency_Key_Settled (replicate 32 2)), w')"
proof -
  obtain don w' where e: "execute land_sample_env scmd (land_sample_world True) = Some (Inr don, w')"
    and d: "don = \<lparr>ld_landed = replicate 32 3, ld_main = replicate 32 3, ld_rebased = 1, ld_note = None, ld_conflicts = []\<rparr>"
    using land_sample_run by blast
  have h: "wf_id (lc_head scmd)" "lc_head (land_sample_cmd b) = replicate 32 b" for b by (simp_all add: land_sample_cmd_def wf_id_def)
  have p: "le_parse land_sample_env (le_print land_sample_env (settle_result (ld_landed don) (ld_rebased don) (ld_note don) (ld_conflicts don))) =
      Some (settle_result (ld_landed don) (ld_rebased don) (ld_note don) (ld_conflicts don))" using d by (simp add: land_sample_env_def)
  have k: "same_key scmd (land_sample_cmd b)" for b by (simp add: same_key_def land_sample_cmd_def)
  show ?thesis
    using e land_key_settles_once [OF land_sample_hash e h(1) p k [of 2]] land_key_settles_once [OF land_sample_hash e h(1) p k [of 1]] h(2) by auto
qed

text \<open>C2: A land that fails, wherever it fails, leaves the repository's database exactly as it was (no pending
  key, no changeset, no moved ref, no audit row); the catalog of a split server differs at most in object
  rows and collector marks, and in single mode not at all.\<close>
theorem land_failure_leaves_no_rows:
  assumes "execute env cmd w = Some (Inl e, w')"
  shows "w_db w' = w_db w \<and> w_split w' = w_split w \<and> (\<not> w_split w \<longrightarrow> w_cat w' = w_cat w) \<and>
    w_cat w' = (w_cat w)\<lparr>db_objects := db_objects (w_cat w'), db_gc_pending := db_gc_pending (w_cat w')\<rparr>"
proof -
  obtain w1 where "land_in_txn env cmd w = Some (Inl (e, w1))" "w' = w1\<lparr>w_db := w_db w\<rparr>"
    using assms unfolding execute_def by (cases "land_in_txn env cmd w"; cases "the (land_in_txn env cmd w)") auto
  then show ?thesis using land_in_txn_kept [of env cmd w e w1] by (simp add: cat_kept_def ledger_only_def)
qed

theorem land_failure_leaves_no_rows_witness:
  "\<exists>w'. execute land_sample_env scmd ((land_sample_world True)\<lparr>w_db := land_sample_db\<lparr>db_refs := []\<rparr>\<rparr>) = Some (Inl Validation_No_Main, w') \<and>
     w_db w' = land_sample_db\<lparr>db_refs := []\<rparr>"
proof -
  let ?w = "(land_sample_world True)\<lparr>w_db := land_sample_db\<lparr>db_refs := []\<rparr>\<rparr>"
  have "\<exists>w'. execute land_sample_env scmd ?w = Some (Inl Validation_No_Main, w')"
    by (simp add: execute_def land_in_txn_def settled_answer_def land_get_def redaction_active_def land_insert_pending_def insert_unique_def ref_get_def
        obind_def at_world_def Let_def land_sample_db_def)
  then obtain w' where e: "execute land_sample_env scmd ?w = Some (Inl Validation_No_Main, w')" by blast
  from land_failure_leaves_no_rows [OF e] e show ?thesis by auto
qed

end
