(* ===== verification/Land_Join.thy ===== *)
theory Land_Join
  imports Land_Correct
begin

text \<open>
  The registry of lands in flight (\<open>crates/naatre-server/src/land_join.rs\<close>) and what the route makes of it
  (\<open>routes/land.rs\<close>): a request on a key that is in flight waits for the leader's outcome and answers by
  the settled rules. An \<open>Arc\<close> is an address; the watch channel of a land is its outcome field. What
  is atomic in the code is a step of \<open>join_step\<close>, and requests interleave between all of them: \<open>begin\<close> under the
  registry's mutex; the leader's \<open>send\<close> of its outcome, which takes no mutex; the deregistration in the drop of its
  guard, under the mutex; and, after the mutex is released, the \<open>send_if_modified\<close> that fails the joiners of a land that
  died.
\<close>

section \<open>The registry\<close>

datatype join_key = Join_Key (jk_repo: bytes) (jk_principal: bytes) (jk_key: bytes)

datatype land_outcome = Out_Done land_done | Out_Err land_error

record in_flight_land =
  if_head :: oid
  if_outcome :: "land_outcome option"

record land_joins =
  lj_map :: "join_key \<rightharpoonup> nat"
  lj_lands :: "nat \<rightharpoonup> in_flight_land"
  lj_next :: nat

datatype join_slot = Join nat | Lead nat

definition begin_land :: "join_key \<Rightarrow> oid \<Rightarrow> land_joins \<Rightarrow> join_slot \<times> land_joins" where
  "begin_land key head j =
     (case lj_map j key of
        Some a \<Rightarrow> (Join a, j)
      | None \<Rightarrow>
          let a = lj_next j in
          (Lead a, j\<lparr>lj_map := (lj_map j)(key \<mapsto> a),
                     lj_lands := (lj_lands j)(a \<mapsto> \<lparr>if_head = head, if_outcome = None\<rparr>), lj_next := a + 1\<rparr>))"

definition set_outcome :: "nat \<Rightarrow> land_outcome \<Rightarrow> land_joins \<Rightarrow> land_joins" where
  "set_outcome a out j = j\<lparr>lj_lands := (lj_lands j)(a := map_option (\<lambda>l. l\<lparr>if_outcome := Some out\<rparr>) (lj_lands j a))\<rparr>"

text \<open>Dropping the guard: deregister the entry if it is this land's; then fail the joiners of a land that died.\<close>

definition deregister :: "join_key \<Rightarrow> nat \<Rightarrow> land_joins \<Rightarrow> land_joins" where
  "deregister key a j = (if lj_map j key = Some a then j\<lparr>lj_map := (lj_map j)(key := None)\<rparr> else j)"

definition fail_unpublished :: "nat \<Rightarrow> land_joins \<Rightarrow> land_joins" where
  "fail_unpublished a j =
     (case lj_lands j a of
        None \<Rightarrow> j
      | Some l \<Rightarrow> if if_outcome l = None then set_outcome a (Out_Err Land_Internal) j else j)"

section \<open>The joiner's answer\<close>

definition settled_head_of :: "land_error \<Rightarrow> oid option" where
  "settled_head_of e = (case e of Idempotency_Key_Settled h \<Rightarrow> from_hex (to_hex h) | _ \<Rightarrow> None)"

definition settled_with_other_head :: "oid \<Rightarrow> land_error" where
  "settled_with_other_head h = Idempotency_Key_Settled h"

definition settled_replay :: "'s land_env \<Rightarrow> land_command \<Rightarrow> repo_db \<Rightarrow> land_error + land_done" where
  "settled_replay env cmd db =
     (case land_get db (lc_repo cmd) (lc_principal cmd) (lc_key cmd) of
        None \<Rightarrow> Inl Land_Internal
      | Some row \<Rightarrow>
          if (la_state row = ascii ''done'' \<or> la_state row = ascii ''conflicted'') \<and> la_head row = Some (lc_head cmd)
          then replay env (la_result row) else Inl Land_Internal)"

text \<open>The outcome the wait found; \<open>None\<close> when the deadline passed first.\<close>

definition join_in_flight ::
    "'s land_env \<Rightarrow> land_command \<Rightarrow> repo_db \<Rightarrow> oid \<Rightarrow> land_outcome option \<Rightarrow> land_error + land_done" where
  "join_in_flight env cmd db leader_head outcome =
     (case outcome of
        None \<Rightarrow> Inl Writer_Busy
      | Some (Out_Done don) \<Rightarrow>
          if leader_head = lc_head cmd then Inr don else Inl (settled_with_other_head leader_head)
      | Some (Out_Err e) \<Rightarrow>
          if settled_head_of e = Some (lc_head cmd) then settled_replay env cmd db else Inl e)"

definition outcome_of :: "land_error + land_done \<Rightarrow> land_outcome" where
  "outcome_of r = (case r of Inl e \<Rightarrow> Out_Err e | Inr don \<Rightarrow> Out_Done don)"

section \<open>Requests that interleave\<close>

text \<open>
  A leader runs its land, then sends the outcome or dies, then drops its guard in two steps. The history is kept beside:
  who registered a land under which key (\<open>js_owner\<close>), what its leader published (\<open>js_sent\<close>), and the lands whose leader
  died without publishing (\<open>js_died\<close>).
\<close>

datatype join_phase =
    Leading join_key nat
  | Dropping join_key nat
  | Unregistered join_key nat
  | Waiting join_key nat
  | Answered nat land_outcome
  | Timed_Out
  | Finished

record join_system =
  js_joins :: land_joins
  js_reqs :: "nat \<rightharpoonup> join_phase"
  js_owner :: "nat \<rightharpoonup> nat \<times> join_key"
  js_sent :: "nat \<rightharpoonup> land_outcome"
  js_died :: "nat set"

definition phase_to :: "nat \<Rightarrow> join_phase \<Rightarrow> land_joins \<Rightarrow> join_system \<Rightarrow> join_system" where
  "phase_to r p j s = s\<lparr>js_joins := j, js_reqs := (js_reqs s)(r \<mapsto> p)\<rparr>"

inductive join_step :: "join_system \<Rightarrow> join_system \<Rightarrow> bool" where
  step_lead: "js_reqs s r = None \<Longrightarrow> begin_land key head (js_joins s) = (Lead a, j) \<Longrightarrow>
    join_step s (phase_to r (Leading key a) j (s\<lparr>js_owner := (js_owner s)(a \<mapsto> (r, key))\<rparr>))"
| step_join: "js_reqs s r = None \<Longrightarrow> begin_land key head (js_joins s) = (Join a, j) \<Longrightarrow>
    join_step s (phase_to r (Waiting key a) j s)"
| step_send: "js_reqs s r = Some (Leading key a) \<Longrightarrow>
    join_step s (phase_to r (Dropping key a) (set_outcome a out (js_joins s)) (s\<lparr>js_sent := (js_sent s)(a \<mapsto> out)\<rparr>))"
| step_die: "js_reqs s r = Some (Leading key a) \<Longrightarrow>
    join_step s (phase_to r (Dropping key a) (js_joins s) (s\<lparr>js_died := insert a (js_died s)\<rparr>))"
| step_deregister: "js_reqs s r = Some (Dropping key a) \<Longrightarrow>
    join_step s (phase_to r (Unregistered key a) (deregister key a (js_joins s)) s)"
| step_fail: "js_reqs s r = Some (Unregistered key a) \<Longrightarrow>
    join_step s (phase_to r Finished (fail_unpublished a (js_joins s)) s)"
| step_answer: "js_reqs s r = Some (Waiting key a) \<Longrightarrow> lj_lands (js_joins s) a = Some l \<Longrightarrow> if_outcome l = Some out \<Longrightarrow>
    join_step s (phase_to r (Answered a out) (js_joins s) s)"
| step_deadline: "js_reqs s r = Some (Waiting key a) \<Longrightarrow>
    join_step s (phase_to r Timed_Out (js_joins s) s)"

definition join_start :: join_system where
  "join_start = \<lparr>js_joins = \<lparr>lj_map = Map.empty, lj_lands = Map.empty, lj_next = 0\<rparr>, js_reqs = Map.empty,
     js_owner = Map.empty, js_sent = Map.empty, js_died = {}\<rparr>"

inductive join_reachable :: "join_system \<Rightarrow> bool" where
  reach_start: "join_reachable join_start"
| reach_step: "join_reachable s \<Longrightarrow> join_step s s' \<Longrightarrow> join_reachable s'"

inductive_cases join_stepE: "join_step s s'"

section \<open>No request waits for a land that is gone\<close>

text \<open>A request that has the registered land of a key, and one that has not finished with its land.\<close>

definition registers :: "join_system \<Rightarrow> nat \<Rightarrow> join_key \<Rightarrow> nat \<Rightarrow> bool" where
  "registers s r key a \<longleftrightarrow> js_reqs s r = Some (Leading key a) \<or> js_reqs s r = Some (Dropping key a)"

definition in_charge :: "join_system \<Rightarrow> nat \<Rightarrow> join_key \<Rightarrow> nat \<Rightarrow> bool" where
  "in_charge s r key a \<longleftrightarrow> registers s r key a \<or> js_reqs s r = Some (Unregistered key a)"

definition outcome_at :: "join_system \<Rightarrow> nat \<Rightarrow> land_outcome option" where
  "outcome_at s a = Option.bind (lj_lands (js_joins s) a) if_outcome"

text \<open>What holds of a request in its phase.\<close>

definition phase_ok :: "join_system \<Rightarrow> nat \<Rightarrow> join_phase \<Rightarrow> bool" where
  "phase_ok s r p =
     (case p of
        Leading key a \<Rightarrow> js_owner s a = Some (r, key) \<and> lj_map (js_joins s) key = Some a \<and> outcome_at s a = None \<and> a \<notin> js_died s
      | Dropping key a \<Rightarrow> js_owner s a = Some (r, key) \<and> lj_map (js_joins s) key = Some a \<and> (js_sent s a \<noteq> None \<or> a \<in> js_died s)
      | Unregistered key a \<Rightarrow> js_owner s a = Some (r, key) \<and> (js_sent s a \<noteq> None \<or> a \<in> js_died s)
      | Waiting key a \<Rightarrow> map_option snd (js_owner s a) = Some key
      | Answered a out \<Rightarrow> outcome_at s a = Some out
      | Timed_Out \<Rightarrow> True
      | Finished \<Rightarrow> True)"

text \<open>What holds of a land.\<close>

definition land_ok :: "join_system \<Rightarrow> nat \<Rightarrow> bool" where
  "land_ok s a \<longleftrightarrow>
     (lj_lands (js_joins s) a = None \<longleftrightarrow> js_owner s a = None) \<and> (js_owner s a = None \<longleftrightarrow> lj_next (js_joins s) \<le> a) \<and>
     (js_sent s a \<noteq> None \<longrightarrow> outcome_at s a = js_sent s a \<and> a \<notin> js_died s) \<and>
     (outcome_at s a \<noteq> None \<longrightarrow> outcome_at s a = js_sent s a \<or> a \<in> js_died s \<and> outcome_at s a = Some (Out_Err Land_Internal)) \<and>
     (a \<in> js_died s \<longrightarrow> js_owner s a \<noteq> None) \<and>
     (case js_owner s a of None \<Rightarrow> True | Some (r, key) \<Rightarrow> outcome_at s a \<noteq> None \<or> in_charge s r key a)"

text \<open>What holds of an entry of the registry.\<close>

definition entry_ok :: "join_system \<Rightarrow> join_key \<Rightarrow> bool" where
  "entry_ok s key =
     (case lj_map (js_joins s) key of
        None \<Rightarrow> True
      | Some a \<Rightarrow> (case js_owner s a of None \<Rightarrow> False | Some (r, k) \<Rightarrow> k = key \<and> registers s r key a))"

definition join_inv :: "join_system \<Rightarrow> bool" where
  "join_inv s \<longleftrightarrow> (\<forall>r p. js_reqs s r = Some p \<longrightarrow> phase_ok s r p) \<and> (\<forall>a. land_ok s a) \<and> (\<forall>key. entry_ok s key)"

lemmas join_views = phase_to_def registers_def in_charge_def outcome_at_def

lemma begin_land_cases:
  "begin_land key head j = (Lead a, j') \<longleftrightarrow> lj_map j key = None \<and> a = lj_next j \<and>
     j' = j\<lparr>lj_map := (lj_map j)(key \<mapsto> a), lj_lands := (lj_lands j)(a \<mapsto> \<lparr>if_head = head, if_outcome = None\<rparr>), lj_next := a + 1\<rparr>"
  "begin_land key head j = (Join a, j') \<longleftrightarrow> lj_map j key = Some a \<and> j' = j"
  by (auto simp: begin_land_def Let_def split: option.splits)

lemma join_invI:
  assumes "\<And>r p. js_reqs s r = Some p \<Longrightarrow> phase_ok s r p" "\<And>a. land_ok s a" "\<And>key. entry_ok s key"
  shows "join_inv s"
  using assms by (simp add: join_inv_def)

lemma join_step_inv:
  assumes "join_step s s'" and inv: "join_inv s"
  shows "join_inv s'"
proof -
  have P: "phase_ok s r p" if "js_reqs s r = Some p" for r p using inv that by (simp add: join_inv_def)
  have L: "land_ok s a" for a using inv by (simp add: join_inv_def)
  have E: "entry_ok s key" for key using inv unfolding join_inv_def by blast
  show ?thesis
    using assms(1)
  proof (cases rule: join_step.cases)
    case (step_lead r key head a j)
    show ?thesis
    proof (rule join_invI)
      fix q p assume "js_reqs s' q = Some p"
      then show "phase_ok s' q p" using step_lead P [of q p] L [of a] E [of key] 
        by (cases "q = r"; cases p) (auto simp: begin_land_cases phase_ok_def land_ok_def join_views)
    next
      fix b show "land_ok s' b" using step_lead L [of b] P [of r]
        by (cases "b = a") (auto simp: begin_land_cases land_ok_def join_views split: option.splits)
    next
      fix k show "entry_ok s' k" using step_lead E [of k] L [of a]
        by (auto simp: begin_land_cases entry_ok_def land_ok_def join_views split: option.splits)
    qed
  next
    case (step_join r key head a j)
    show ?thesis
    proof (rule join_invI)
      fix q p assume "js_reqs s' q = Some p"
      then show "phase_ok s' q p" using step_join P [of q p] L [of a] E [of key]
        by (cases "q = r"; cases p) (auto simp: begin_land_cases phase_ok_def entry_ok_def land_ok_def join_views split: option.splits)
    next
      fix b show "land_ok s' b" using step_join L [of b]
        by (auto simp: begin_land_cases land_ok_def join_views split: option.splits)
    next
      fix k show "entry_ok s' k" using step_join E [of k]
        by (auto simp: begin_land_cases entry_ok_def join_views split: option.splits)
    qed
  next
    case (step_send r key a out)
    show ?thesis
    proof (rule join_invI)
      fix q p assume "js_reqs s' q = Some p"
      then show "phase_ok s' q p" using step_send P [of q p] P [of r] L [of a]
        by (cases "q = r"; cases p) (auto simp: set_outcome_def phase_ok_def land_ok_def join_views split: option.splits)
    next
      fix b show "land_ok s' b" using step_send L [of b] P [of r]
        by (cases "b = a") (auto simp: set_outcome_def phase_ok_def land_ok_def join_views split: option.splits)
    next
      fix k show "entry_ok s' k" using step_send E [of k] P [of r]
        by (auto simp: set_outcome_def phase_ok_def entry_ok_def join_views split: option.splits)
    qed
  next
    case (step_die r key a)
    show ?thesis
    proof (rule join_invI)
      fix q p assume "js_reqs s' q = Some p"
      then show "phase_ok s' q p" using step_die P [of q p] P [of r] L [of a]
        by (cases "q = r"; cases p) (auto simp: phase_ok_def land_ok_def join_views)
    next
      fix b show "land_ok s' b" using step_die L [of b] P [of r]
        by (cases "b = a") (auto simp: phase_ok_def land_ok_def join_views split: option.splits)
    next
      fix k show "entry_ok s' k" using step_die E [of k] P [of r]
        by (auto simp: phase_ok_def entry_ok_def join_views split: option.splits)
    qed
  next
    case (step_deregister r key a)
    show ?thesis
    proof (rule join_invI)
      fix q p assume "js_reqs s' q = Some p"
      then show "phase_ok s' q p" using step_deregister P [of q p] P [of r]
        by (cases "q = r"; cases p) (auto simp: deregister_def phase_ok_def join_views)
    next
      fix b show "land_ok s' b" using step_deregister L [of b] P [of r]
        by (cases "b = a") (auto simp: deregister_def phase_ok_def land_ok_def join_views split: option.splits)
    next
      fix k show "entry_ok s' k" using step_deregister E [of k] P [of r]
        by (auto simp: deregister_def phase_ok_def entry_ok_def join_views split: option.splits)
    qed
  next
    case (step_fail r key a)
    show ?thesis
    proof (rule join_invI)
      fix q p assume "js_reqs s' q = Some p"
      then show "phase_ok s' q p" using step_fail P [of q p] P [of r]
        by (cases "q = r"; cases p) (auto simp: fail_unpublished_def set_outcome_def phase_ok_def join_views split: option.splits)
    next
      fix b show "land_ok s' b" using step_fail L [of b] P [of r]
        by (cases "b = a") (auto simp: fail_unpublished_def set_outcome_def phase_ok_def land_ok_def join_views split: option.splits)
    next
      fix k show "entry_ok s' k" using step_fail E [of k] P [of r]
        by (auto simp: fail_unpublished_def set_outcome_def phase_ok_def entry_ok_def join_views split: option.splits)
    qed
  next
    case (step_answer r key a l out)
    show ?thesis
    proof (rule join_invI)
      fix q p assume "js_reqs s' q = Some p"
      then show "phase_ok s' q p" using step_answer P [of q p]
        by (cases "q = r"; cases p) (auto simp: phase_ok_def join_views)
    next
      fix b show "land_ok s' b" using step_answer L [of b]
        by (auto simp: land_ok_def join_views split: option.splits)
    next
      fix k show "entry_ok s' k" using step_answer E [of k]
        by (auto simp: entry_ok_def join_views split: option.splits)
    qed
  next
    case (step_deadline r key a)
    show ?thesis
    proof (rule join_invI)
      fix q p assume "js_reqs s' q = Some p"
      then show "phase_ok s' q p" using step_deadline P [of q p]
        by (cases "q = r"; cases p) (auto simp: phase_ok_def join_views)
    next
      fix b show "land_ok s' b" using step_deadline L [of b]
        by (auto simp: land_ok_def join_views split: option.splits)
    next
      fix k show "entry_ok s' k" using step_deadline E [of k]
        by (auto simp: entry_ok_def join_views split: option.splits)
    qed
  qed
qed
lemma join_reachable_inv: "join_reachable s \<Longrightarrow> join_inv s"
proof (induction rule: join_reachable.induct)
  case reach_start
  show ?case by (rule join_invI) (simp_all add: join_start_def land_ok_def entry_ok_def outcome_at_def)
next
  case (reach_step s s')
  then show ?case using join_step_inv by blast
qed

lemma reachable_facts:
  assumes "join_reachable s"
  shows "js_reqs s r = Some p \<Longrightarrow> phase_ok s r p" "land_ok s a" "entry_ok s key"
  using join_reachable_inv [OF assms] unfolding join_inv_def by blast+

section \<open>Which errors say that a key is settled\<close>

fun settled_error :: "land_error \<Rightarrow> bool" where
  "settled_error (Idempotency_Key_Settled h) = True"
| "settled_error _ = False"

lemma map_derive_other [simp]: "\<not> settled_error (map_derive e)"
  by (auto simp: map_derive_def split: derive_error.splits core_error.splits)

lemma merge_error_other [simp]: "\<not> settled_error (merge_error_of e recipe db repo)"
  by (auto simp: merge_error_of_def redacted_blob_error_def split: merge_error.splits)

lemma map_err_other: "map_err f m = Inl e \<Longrightarrow> (\<And>x. \<not> settled_error (f x)) \<Longrightarrow> \<not> settled_error e"
  by (cases m) auto

lemma ok_or_other: "ok_or m e' = Inl e \<Longrightarrow> \<not> settled_error e' \<Longrightarrow> \<not> settled_error e"
  by (cases m) auto

lemma load_tree_other: "load_tree db root = Some (Inl e) \<Longrightarrow> \<not> settled_error e"
  by (auto simp: load_tree_def dest!: map_err_other)

lemma write_blobs_other: "write_blobs env now blobs written w = Inl (e, w') \<Longrightarrow> \<not> settled_error e"
proof (induction env now blobs written w rule: write_blobs.induct)
  case (2 env now i bs rest written w)
  obtain put cas where p: "le_put env (w_cas w) bs = (put, cas)" by force
  show ?case
  proof (cases "i \<in> set written")
    case True
    then show ?thesis using 2(1) 2(3) by simp
  next
    case False
    show ?thesis
    proof (cases put)
      case (Inl x)
      then show ?thesis using 2(3) False p by simp
    next
      case (Inr q)
      obtain pid csize where "q = (pid, csize)" by force
      then show ?thesis using 2(2) [OF False p [symmetric]] 2(3) False p Inr by (cases "pid = i") simp_all
    qed
  qed
qed simp

lemma gate_other: "redaction_gate db repo blobs merged conflicts new_id = Inl e \<Longrightarrow> \<not> settled_error e"
  by (auto simp: redaction_gate_def Let_def redacted_blob_error_def split: if_splits option.splits)

lemma insert_node_other: "insert_node env cmd cs canonical new_id blobs node generation db = Inl e \<Longrightarrow> \<not> settled_error e"
  unfolding insert_node_def by (auto simp: rbind_eq_Inl split: enqueue_error.splits dest!: map_err_other)

lemma place_node_other: "place_node env cmd node node_tree cs merged st = Inl (e, w) \<Longrightarrow> \<not> settled_error e"
  unfolding place_node_def Let_def
  by (auto simp: rbind_eq_Inl dest!: gate_other write_blobs_other insert_node_other map_err_other split: if_splits)

lemma merge_node_other: "merge_node env cmd w parent_tree tip_tree node_tree = Inl e \<Longrightarrow> \<not> settled_error e"
  unfolding merge_node_def Let_def
  by (cases "lc_record_conflict cmd") (auto simp: rbind_eq_Inl dest!: map_err_other, auto split: list.splits)

lemma reps_other: "rmap (\<lambda>c. ok_or (content_rep nfc c) Land_Panic) xs = Inl e \<Longrightarrow> \<not> settled_error e"
  by (induction xs) (auto simp: rbind_eq_Inl dest!: ok_or_other)

lemma rebase_node_other: "rebase_node env cmd node st = Some (Inl (e, w)) \<Longrightarrow> \<not> settled_error e"
  unfolding rebase_node_def rebase_merged_def Let_def node_parent_tree_def
  by (auto simp: obind_eq_Inl rbind_eq_Inl dest!: place_node_other merge_node_other map_err_other load_tree_other reps_other
      split: option.splits list.splits if_splits)

lemma rebase_chain_other: "rebase_chain env cmd nodes st = Some (Inl (e, w)) \<Longrightarrow> \<not> settled_error e"
  by (induction nodes arbitrary: st) (auto simp: obind_eq_Inl dest!: rebase_node_other)

lemma rep_paths_other: "rep_paths_of db repo i = Inl e \<Longrightarrow> \<not> settled_error e"
  by (auto simp: rep_paths_of_def rbind_eq_Inl dest!: map_err_other split: option.splits)

lemma land_rebase_other: "land_rebase env cmd old_main nodes nt w = Some (Inl (e, w')) \<Longrightarrow> \<not> settled_error e"
  unfolding land_rebase_def Let_def
  by (auto simp: obind_eq_Inl rbind_eq_Inl split_beta dest!: rebase_chain_other rep_paths_other load_tree_other split: option.splits if_splits)

lemma check_scope_other: "check_scope db repo scope nodes = Inl e \<Longrightarrow> \<not> settled_error e"
proof -
  assume e: "check_scope db repo scope nodes = Inl e"
  have path: "rforall (\<lambda>(path, _). if scope_allows scope path then Inr () else Inl (Forbidden path)) cs = Inl e \<Longrightarrow> \<not> settled_error e" for cs
    by (induction cs) (auto simp: rbind_eq_Inl split: if_splits prod.splits)
  show ?thesis using e unfolding check_scope_def by (induction nodes) (auto simp: rbind_eq_Inl dest: path)
qed

lemma ancestry_other:
  assumes "ancestry db repo queue in_main = Some (Inl e)"
  shows "\<not> settled_error e"
proof -
  have "r = Inl e \<longrightarrow> \<not> settled_error e" if "ancestry db repo queue in_main = Some r" for r
  proof (induction rule: ancestry.raw_induct [OF _ that])
    case (1 ancestry db repo queue in_main r)
    then show ?case by (auto split: list.splits if_splits option.splits)
  qed
  then show ?thesis using assms by blast
qed

lemma chain_walk_other:
  assumes "chain_walk db repo in_main cursor nodes = Some (Inl e)"
  shows "\<not> settled_error e"
proof -
  have "r = Inl e \<longrightarrow> \<not> settled_error e" if "chain_walk db repo in_main cursor nodes = Some r" for r
  proof (induction rule: chain_walk.raw_induct [OF _ that])
    case (1 chain_walk db repo in_main cursor nodes r)
    then show ?case by (auto split: list.splits if_splits option.splits)
  qed
  then show ?thesis using assms by blast
qed

lemma land_onto_other: "land_onto env cmd old_main w = Some (Inl (e, w')) \<Longrightarrow> \<not> settled_error e"
  unfolding land_onto_def Let_def
  by (auto simp: obind_eq_Inl rbind_eq_Inl dest!: rep_paths_other check_scope_other land_rebase_other split: if_splits)
    (auto dest: ancestry_other chain_walk_other)

lemma settled_error_answer:
  assumes "execute env cmd w = Some (Inl (Idempotency_Key_Settled h), w')"
  shows "settled_answer env cmd (w_db w) = Some (Inl (Idempotency_Key_Settled h)) \<and> w' = w"
proof -
  obtain w1 where t: "land_in_txn env cmd w = Some (Inl (Idempotency_Key_Settled h, w1))" and w': "w' = w1\<lparr>w_db := w_db w\<rparr>"
    using assms unfolding execute_def by (cases "land_in_txn env cmd w"; cases "the (land_in_txn env cmd w)") auto
  show ?thesis
  proof (cases "settled_answer env cmd (w_db w)")
    case None
    then have "\<not> settled_error (Idempotency_Key_Settled h)" using t unfolding land_in_txn_def Let_def
      by (auto simp: obind_eq_Inl rbind_eq_Inl dest!: map_err_other ok_or_other land_onto_other split: if_splits option.splits)
    then show ?thesis by simp
  next
    case (Some answer)
    then show ?thesis using t w' unfolding land_in_txn_def by (auto simp: rbind_eq_Inl)
  qed
qed

section \<open>Properties\<close>

text \<open>C21: in every interleaving of the atomic steps of the registry - also between a leader's send and its deregistration,
  between its deregistration and the failing of its joiners, and when leaders die at any point before they send - the
  following holds. The registry maps a key to a land exactly while one request leads that land or drops its guard, and it
  is only one. A request that waits for a land finds an outcome to read, or exactly one request is still in charge of that
  land under that key (leading it, or before the last step of its drop): no request waits for a land that is gone. A land
  that is not registered any more has an outcome, unless its leader died: outcomes are published before the entry is
  removed. And what a joiner has read is what the leader sent, never overwritten by the drop, or the internal error of a
  leader that died. The one hypothesis is that the state is reachable.\<close>
theorem join_waiters_are_served:
  assumes "join_reachable s"
  shows "(\<forall>key a. lj_map (js_joins s) key = Some a \<longleftrightarrow> (\<exists>r. registers s r key a)) \<and>
    (\<forall>key r1 r2 a1 a2. registers s r1 key a1 \<longrightarrow> registers s r2 key a2 \<longrightarrow> r1 = r2 \<and> a1 = a2) \<and>
    (\<forall>r key a. js_reqs s r = Some (Waiting key a) \<longrightarrow> outcome_at s a \<noteq> None \<or> (\<exists>!r'. in_charge s r' key a)) \<and>
    (\<forall>a < lj_next (js_joins s). (\<forall>key. lj_map (js_joins s) key \<noteq> Some a) \<longrightarrow> outcome_at s a \<noteq> None \<or> a \<in> js_died s) \<and>
    (\<forall>r a out. js_reqs s r = Some (Answered a out) \<longrightarrow>
       js_sent s a = Some out \<or> js_sent s a = None \<and> a \<in> js_died s \<and> out = Out_Err Land_Internal)"
proof (intro conjI)
  note f = reachable_facts [OF assms]
  have owner: "js_owner s a = Some (r, key)" if "in_charge s r key a" for r key a
    using that f(1) [of r] by (auto simp: in_charge_def registers_def phase_ok_def)
  have entry: "lj_map (js_joins s) key = Some a" if "registers s r key a" for r key a
    using that f(1) [of r] by (auto simp: registers_def phase_ok_def)
  have held: "\<exists>r. registers s r key a" if "lj_map (js_joins s) key = Some a" for key a
    using that f(3) [of key] by (auto simp: entry_ok_def split: option.splits)
  show "\<forall>key a. lj_map (js_joins s) key = Some a \<longleftrightarrow> (\<exists>r. registers s r key a)" using entry held by blast
  show "\<forall>key r1 r2 a1 a2. registers s r1 key a1 \<longrightarrow> registers s r2 key a2 \<longrightarrow> r1 = r2 \<and> a1 = a2"
    using entry owner by (metis in_charge_def option.inject prod.inject)
  show "\<forall>r key a. js_reqs s r = Some (Waiting key a) \<longrightarrow> outcome_at s a \<noteq> None \<or> (\<exists>!r'. in_charge s r' key a)"
  proof (intro allI impI)
    fix r key a assume "js_reqs s r = Some (Waiting key a)"
    then obtain r' where o: "js_owner s a = Some (r', key)" using f(1) [of r] by (auto simp: phase_ok_def)
    then have "outcome_at s a \<noteq> None \<or> in_charge s r' key a" using f(2) [of a] by (simp add: land_ok_def)
    then show "outcome_at s a \<noteq> None \<or> (\<exists>!r'. in_charge s r' key a)" using owner o by (metis option.inject prod.inject)
  qed
  show "\<forall>a < lj_next (js_joins s). (\<forall>key. lj_map (js_joins s) key \<noteq> Some a) \<longrightarrow> outcome_at s a \<noteq> None \<or> a \<in> js_died s"
  proof (intro allI impI)
    fix a assume a: "a < lj_next (js_joins s)" and gone: "\<forall>key. lj_map (js_joins s) key \<noteq> Some a"
    obtain r key where "js_owner s a = Some (r, key)" using f(2) [of a] a by (auto simp: land_ok_def)
    then have l: "outcome_at s a \<noteq> None \<or> in_charge s r key a" "js_sent s a \<noteq> None \<longrightarrow> outcome_at s a = js_sent s a"
      using f(2) [of a] by (simp_all add: land_ok_def)
    have "\<not> registers s r key a" using gone entry by blast
    moreover have "js_reqs s r = Some (Unregistered key a) \<Longrightarrow> js_sent s a \<noteq> None \<or> a \<in> js_died s"
      using f(1) [of r "Unregistered key a"] by (simp add: phase_ok_def)
    ultimately show "outcome_at s a \<noteq> None \<or> a \<in> js_died s" using l by (auto simp: in_charge_def)
  qed
  show "\<forall>r a out. js_reqs s r = Some (Answered a out) \<longrightarrow>
      js_sent s a = Some out \<or> js_sent s a = None \<and> a \<in> js_died s \<and> out = Out_Err Land_Internal"
  proof (intro allI impI)
    fix r a out assume "js_reqs s r = Some (Answered a out)"
    then have "outcome_at s a = Some out" using f(1) [of r] by (fastforce simp: phase_ok_def)
    then show "js_sent s a = Some out \<or> js_sent s a = None \<and> a \<in> js_died s \<and> out = Out_Err Land_Internal"
      using f(2) [of a] by (auto simp: land_ok_def)
  qed
qed

text \<open>The window between the leader's send and its deregistration: a request arrives there, joins and reads the outcome.\<close>

definition join_key1 :: join_key where "join_key1 = Join_Key [] [] []"

definition join_sample :: "join_phase \<Rightarrow> join_system" where
  "join_sample p = \<lparr>js_joins = \<lparr>lj_map = [join_key1 \<mapsto> 0],
       lj_lands = [0 \<mapsto> \<lparr>if_head = [], if_outcome = Some (Out_Err Writer_Busy)\<rparr>], lj_next = 1\<rparr>,
     js_reqs = [1 \<mapsto> Dropping join_key1 0, 2 \<mapsto> p], js_owner = [0 \<mapsto> (1, join_key1)], js_sent = [0 \<mapsto> Out_Err Writer_Busy], js_died = {}\<rparr>"

lemma join_sample_reachable: "join_reachable (join_sample (Answered 0 (Out_Err Writer_Busy)))"
proof -
  let ?land = "\<lambda>out. [0 \<mapsto> \<lparr>if_head = [], if_outcome = out\<rparr>]"
  let ?s = "\<lambda>p out sent. \<lparr>js_joins = \<lparr>lj_map = [join_key1 \<mapsto> 0], lj_lands = ?land out, lj_next = 1\<rparr>,
    js_reqs = [1 \<mapsto> p], js_owner = [0 \<mapsto> (1, join_key1)], js_sent = sent, js_died = {}\<rparr>"
  let ?j = "\<lparr>lj_map = [join_key1 \<mapsto> 0], lj_lands = ?land None, lj_next = 1\<rparr> :: land_joins"
  have "begin_land join_key1 [] (js_joins join_start) = (Lead 0, ?j)" by (simp add: begin_land_def join_start_def)
  then have "join_step join_start (?s (Leading join_key1 0) None Map.empty)"
    using step_lead [of join_start 1 join_key1 "[]" 0 ?j] by (simp add: join_start_def phase_to_def)
  moreover have "join_step (?s (Leading join_key1 0) None Map.empty)
      (?s (Dropping join_key1 0) (Some (Out_Err Writer_Busy)) [0 \<mapsto> Out_Err Writer_Busy])"
    using step_send [of "?s (Leading join_key1 0) None Map.empty" 1 join_key1 0 "Out_Err Writer_Busy"]
    by (simp add: phase_to_def set_outcome_def)
  moreover have "join_step (?s (Dropping join_key1 0) (Some (Out_Err Writer_Busy)) [0 \<mapsto> Out_Err Writer_Busy]) (join_sample (Waiting join_key1 0))"
    using step_join [of "?s (Dropping join_key1 0) (Some (Out_Err Writer_Busy)) [0 \<mapsto> Out_Err Writer_Busy]" 2 join_key1 "[]" 0]
    by (simp add: begin_land_def phase_to_def join_sample_def)
  moreover have "join_step (join_sample (Waiting join_key1 0)) (join_sample (Answered 0 (Out_Err Writer_Busy)))"
    using step_answer [of "join_sample (Waiting join_key1 0)" 2 join_key1 0] by (simp add: phase_to_def join_sample_def)
  ultimately show ?thesis using reach_start reach_step by metis
qed

theorem join_waiters_are_served_witness:
  "join_reachable (join_sample (Answered 0 (Out_Err Writer_Busy))) \<and>
   (\<exists>r. registers (join_sample (Answered 0 (Out_Err Writer_Busy))) r join_key1 0) \<and>
   js_sent (join_sample (Answered 0 (Out_Err Writer_Busy))) 0 = Some (Out_Err Writer_Busy)"
proof -
  let ?s = "join_sample (Answered 0 (Out_Err Writer_Busy))"
  have "lj_map (js_joins ?s) join_key1 = Some 0" "js_reqs ?s 2 = Some (Answered 0 (Out_Err Writer_Busy))" "js_died ?s = {}"
    by (simp_all add: join_sample_def)
  then show ?thesis using join_waiters_are_served [OF join_sample_reachable] join_sample_reachable by blast
qed

lemma execute_fails_db: "execute env cmd w = Some (Inl e, w') \<Longrightarrow> w_db w' = w_db w"
  by (cases "land_in_txn env cmd w"; cases "the (land_in_txn env cmd w)") (auto simp: execute_def)

lemma join_settled:
  assumes hash: "hash32 env" and lead: "execute env cmd w = Some (res, w')"
    and settled: "(\<exists>don. res = Inr don) \<or> (\<exists>h. res = Inl (Idempotency_Key_Settled h))"
    and json: "\<And>don. res = Inr don \<Longrightarrow> le_parse env (le_print env (settle_result (ld_landed don) (ld_rebased don) (ld_note don) (ld_conflicts don))) =
      Some (settle_result (ld_landed don) (ld_rebased don) (ld_note don) (ld_conflicts don))"
    and head: "wf_id (lc_head cmd)" and key: "same_key cmd cmd'"
  shows "execute env cmd' w' = Some (join_in_flight env cmd' (w_db w') (lc_head cmd) (Some (outcome_of res)), w')"
proof (cases res)
  case (Inr don)
  have "execute env cmd' w' = Some (if lc_head cmd' = lc_head cmd then Inr don else Inl (Idempotency_Key_Settled (lc_head cmd)), w')"
    by (rule land_key_replays [OF hash lead [unfolded Inr] head json [OF Inr] key])
  then show ?thesis using Inr by (auto simp: join_in_flight_def outcome_of_def settled_with_other_head_def)
next
  case (Inl e)
  then obtain h where e: "e = Idempotency_Key_Settled h" using settled by auto
  have a: "settled_answer env cmd (w_db w) = Some (Inl (Idempotency_Key_Settled h))" "w' = w" using settled_error_answer [of env cmd w h w'] lead Inl e by auto
  then obtain row where row: "land_get (w_db w) (lc_repo cmd) (lc_principal cmd) (lc_key cmd) = Some row" by (auto simp: settled_answer_def)
  have r: "la_state row = ascii ''done'' \<or> la_state row = ascii ''conflicted''" "la_head row = Some h" "wf_id h"
    using a(1) row unfolding settled_answer_def
    by (auto simp: rbind_eq_Inl Option.bind_eq_Some_conv id_of_Some replay_def ok_or_def split: if_splits option.splits)
  have i: "id_of h = Some h" "from_hex (to_hex h) = Some h" using r(3) by (simp_all add: id_of_Some from_hex_to_hex)
  have "settled_answer env cmd' (w_db w) = Some (join_in_flight env cmd' (w_db w) (lc_head cmd) (Some (outcome_of res)))"
    using key row r(1,2) i Inl e
    by (auto simp: settled_answer_def same_key_def join_in_flight_def outcome_of_def settled_head_of_def settled_replay_def)
  from answered [OF this] a(2) show ?thesis by simp
qed

text \<open>C4: what a joiner of the same key answers, whatever its head and options, once the leader's outcome is published. If
  the leader's land settled the key, or found it settled, the joiner answers exactly what running its own land after the
  leader's would answer, and that land would change nothing. If the leader's land failed in any other way, the joiner
  answers the leader's error - its own land is not tried, although with another head or option it might succeed - and the
  database is as it was before the leader. The hypotheses: hashes have 32 bytes, the head is a well-formed id, and the
  JSON of the result parses to what was printed.\<close>
theorem join_answers_like_own_land:
  assumes hash: "hash32 env" and lead: "execute env cmd w = Some (res, w')"
    and json: "\<And>don. res = Inr don \<Longrightarrow> le_parse env (le_print env (settle_result (ld_landed don) (ld_rebased don) (ld_note don) (ld_conflicts don))) =
      Some (settle_result (ld_landed don) (ld_rebased don) (ld_note don) (ld_conflicts don))"
    and head: "wf_id (lc_head cmd)" and key: "same_key cmd cmd'"
  shows "if (\<exists>don. res = Inr don) \<or> (\<exists>h. res = Inl (Idempotency_Key_Settled h)) then
      execute env cmd' w' = Some (join_in_flight env cmd' (w_db w') (lc_head cmd) (Some (outcome_of res)), w')
    else
      (\<exists>e. res = Inl e \<and> join_in_flight env cmd' (w_db w') (lc_head cmd) (Some (outcome_of res)) = Inl e \<and> w_db w' = w_db w)"
proof (cases "(\<exists>don. res = Inr don) \<or> (\<exists>h. res = Inl (Idempotency_Key_Settled h))")
  case True
  then show ?thesis using join_settled [OF hash lead _ json head key] by simp
next
  case False
  then obtain e where e: "res = Inl e" "\<forall>h. e \<noteq> Idempotency_Key_Settled h" by (cases res) auto
  then have "settled_head_of e = None" by (cases e) (auto simp: settled_head_of_def)
  then show ?thesis using False e execute_fails_db [of env cmd w e w'] lead by (simp add: join_in_flight_def outcome_of_def)
qed

theorem join_answers_like_own_land_witness:
  "\<exists>res w'. execute land_sample_env scmd (land_sample_world True) = Some (res, w') \<and>
     execute land_sample_env (land_sample_cmd 1) w' =
       Some (join_in_flight land_sample_env (land_sample_cmd 1) (w_db w') (lc_head scmd) (Some (outcome_of res)), w')"
proof -
  obtain don w' where e: "execute land_sample_env scmd (land_sample_world True) = Some (Inr don, w')"
    and d: "don = \<lparr>ld_landed = replicate 32 3, ld_main = replicate 32 3, ld_rebased = 1, ld_note = None, ld_conflicts = []\<rparr>"
    using land_sample_run by blast
  have h: "wf_id (lc_head scmd)" "same_key scmd (land_sample_cmd 1)" by (simp_all add: land_sample_cmd_def wf_id_def same_key_def)
  have json: "don = don' \<Longrightarrow> le_parse land_sample_env (le_print land_sample_env
      (settle_result (ld_landed don') (ld_rebased don') (ld_note don') (ld_conflicts don'))) =
      Some (settle_result (ld_landed don') (ld_rebased don') (ld_note don') (ld_conflicts don'))" for don'
    using d by (auto simp: land_sample_env_def)
  have "execute land_sample_env (land_sample_cmd 1) w' =
      Some (join_in_flight land_sample_env (land_sample_cmd 1) (w_db w') (lc_head scmd) (Some (outcome_of (Inr don))), w')"
    using join_answers_like_own_land [OF land_sample_hash e _ h] json by simp
  then show ?thesis using e by blast
qed

end
