(* ===== verification/Land_Chain.thy ===== *)
theory Land_Chain
  imports Land_Correct
begin

text \<open>
  What a successful land makes of the chain: the ancestry that decides whether the head is already contained, the
  first-parent chain that is rebased, and the rebased form of each of its changesets, from the old \<open>main\<close> to the landed one.
\<close>

section \<open>The ancestry of main\<close>

definition cs_parent_rel :: "repo_db \<Rightarrow> i64 \<Rightarrow> (oid \<times> oid) set" where
  "cs_parent_rel db repo = {(i, p). \<exists>g. changeset_graph db repo i = Some g \<and> p \<in> set (cg_parents g)}"

definition contained :: "repo_db \<Rightarrow> i64 \<Rightarrow> oid \<Rightarrow> oid set" where
  "contained db repo main_id = {i. (main_id, i) \<in> (cs_parent_rel db repo)\<^sup>*}"

lemma ancestry_walk:
  assumes "ancestry db repo queue seen = Some r"
  shows "\<forall>S. r = Inr S \<longrightarrow> (\<forall>i \<in> seen. cs_parent_rel db repo `` {i} \<subseteq> seen \<union> set queue) \<longrightarrow>
    seen \<union> set queue \<subseteq> S \<and> cs_parent_rel db repo `` S \<subseteq> S \<and> S \<subseteq> seen \<union> (cs_parent_rel db repo)\<^sup>* `` set queue"
proof (induction rule: ancestry.raw_induct [OF _ assms])
  case (1 ancestry db repo queue seen r)
  show ?case
  proof (cases queue)
    case Nil
    then show ?thesis using 1(2) by auto
  next
    case (Cons i q)
    show ?thesis
    proof (cases "i \<in> seen")
      case True
      then have run: "ancestry db repo q seen = Some r" and same: "seen \<union> set queue = seen \<union> set q" using 1(2) Cons by auto
      have sub: "(cs_parent_rel db repo)\<^sup>* `` set q \<subseteq> (cs_parent_rel db repo)\<^sup>* `` set queue" using Cons by auto
      show ?thesis
      proof (intro allI impI)
        fix S assume S: "r = Inr S" and cl: "\<forall>i \<in> seen. cs_parent_rel db repo `` {i} \<subseteq> seen \<union> set queue"
        have "seen \<union> set q \<subseteq> S \<and> cs_parent_rel db repo `` S \<subseteq> S \<and> S \<subseteq> seen \<union> (cs_parent_rel db repo)\<^sup>* `` set q"
          using 1(1) [OF run] S cl [unfolded same] by blast
        then show "seen \<union> set queue \<subseteq> S \<and> cs_parent_rel db repo `` S \<subseteq> S \<and> S \<subseteq> seen \<union> (cs_parent_rel db repo)\<^sup>* `` set queue"
          unfolding same using sub by blast
      qed
    next
      case False
      then obtain g where g: "changeset_graph db repo i = Some g \<or> r = Inl Land_Internal"
        using 1(2) Cons by (auto split: option.splits)
      show ?thesis
      proof (cases "changeset_graph db repo i")
        case None
        then show ?thesis using 1(2) Cons False by auto
      next
        case (Some g)
        have rel: "cs_parent_rel db repo `` {i} = set (cg_parents g)" using Some by (auto simp: cs_parent_rel_def)
        have run: "ancestry db repo (q @ cg_parents g) (insert i seen) = Some r" using 1(2) Cons False Some by simp
        have reach: "(cs_parent_rel db repo)\<^sup>* `` set (cg_parents g) \<subseteq> (cs_parent_rel db repo)\<^sup>* `` {i}"
          using rel by (auto intro: converse_rtrancl_into_rtrancl)
        show ?thesis
        proof (intro allI impI)
          fix S assume S: "r = Inr S" and cl: "\<forall>i \<in> seen. cs_parent_rel db repo `` {i} \<subseteq> seen \<union> set queue"
          have "\<forall>j \<in> insert i seen. cs_parent_rel db repo `` {j} \<subseteq> insert i seen \<union> set (q @ cg_parents g)"
            using cl rel Cons by auto
          then have *: "insert i seen \<union> set (q @ cg_parents g) \<subseteq> S" "cs_parent_rel db repo `` S \<subseteq> S"
            "S \<subseteq> insert i seen \<union> (cs_parent_rel db repo)\<^sup>* `` set (q @ cg_parents g)"
            using 1(1) [OF run] S by blast+
          have "(cs_parent_rel db repo)\<^sup>* `` set (q @ cg_parents g) \<subseteq> (cs_parent_rel db repo)\<^sup>* `` set queue"
            using reach Cons by (auto simp: Image_Un)
          moreover have "i \<in> (cs_parent_rel db repo)\<^sup>* `` set queue" using Cons by auto
          ultimately have "insert i seen \<union> (cs_parent_rel db repo)\<^sup>* `` set (q @ cg_parents g) \<subseteq> seen \<union> (cs_parent_rel db repo)\<^sup>* `` set queue"
            by blast
          then show "seen \<union> set queue \<subseteq> S \<and> cs_parent_rel db repo `` S \<subseteq> S \<and> S \<subseteq> seen \<union> (cs_parent_rel db repo)\<^sup>* `` set queue"
            using * subset_trans [OF *(3)] Cons by simp
        qed
      qed
    qed
  qed
qed

lemma ancestry_contained:
  assumes "ancestry db repo [main_id] {} = Some (Inr S)" shows "S = contained db repo main_id"
proof -
  have S: "main_id \<in> S" "cs_parent_rel db repo `` S \<subseteq> S" "S \<subseteq> (cs_parent_rel db repo)\<^sup>* `` {main_id}"
    using ancestry_walk [OF assms] by auto
  have "i \<in> S" if "(main_id, i) \<in> (cs_parent_rel db repo)\<^sup>*" for i
    using that by (induction rule: rtrancl_induct) (use S in auto)
  then show ?thesis using S(3) by (auto simp: contained_def)
qed

section \<open>The chain that is rebased\<close>

text \<open>Each changeset has the one before it as its first parent, the first of them the base.\<close>

fun first_parent_chain :: "repo_db \<Rightarrow> i64 \<Rightarrow> oid \<Rightarrow> oid list \<Rightarrow> oid \<Rightarrow> bool" where
  "first_parent_chain db repo base [] head \<longleftrightarrow> head = base"
| "first_parent_chain db repo base (n # ns) head \<longleftrightarrow>
     (\<exists>g ps. changeset_graph db repo n = Some g \<and> cg_parents g = base # ps) \<and> first_parent_chain db repo n ns head"

lemma chain_walk_chain:
  assumes "chain_walk db repo in_main cursor nodes = Some r"
  shows "\<forall>ns base head. r = Inr (ns, base) \<longrightarrow> first_parent_chain db repo cursor (rev nodes) head \<longrightarrow> set nodes \<inter> in_main = {} \<longrightarrow>
    first_parent_chain db repo base (rev ns) head \<and> base \<in> in_main \<and> set ns \<inter> in_main = {}"
proof (induction rule: chain_walk.raw_induct [OF _ assms])
  case (1 chain_walk db repo in_main cursor nodes r)
  show ?case
  proof (cases "cursor \<in> in_main")
    case True
    then show ?thesis using 1(2) by auto
  next
    case False
    show ?thesis
    proof (intro allI impI)
      fix ns base head assume r: "r = Inr (ns, base)" and c: "first_parent_chain db repo cursor (rev nodes) head" and n: "set nodes \<inter> in_main = {}"
      obtain g p ps where g: "changeset_graph db repo cursor = Some g" "cg_parents g = p # ps"
          and run: "chain_walk db repo in_main p (nodes @ [cursor]) = Some r"
        using 1(2) r False by (auto split: if_splits option.splits list.splits)
      have "first_parent_chain db repo p (rev (nodes @ [cursor])) head" using c g by simp
      then show "first_parent_chain db repo base (rev ns) head \<and> base \<in> in_main \<and> set ns \<inter> in_main = {}"
        using 1(1) [OF run] r n False by auto
    qed
  qed
qed

section \<open>The rebased form of a changeset\<close>

text \<open>
  The changeset that \<open>node\<close> becomes on top of \<open>tip\<close>, whose tree is \<open>tree\<close>: one parent, the tip; author, message and
  time of the original; as its changes the delta from the tip's tree to the merge of the tip's tree with the node's, over
  the tree of the node's own parent; and the conflicts that the node carries along or that the merge found. The trees are
  read in a world \<open>v\<close> the land passed through, which has the changesets of \<open>w\<close> and those the land already added.
\<close>

definition rebased_form ::
    "'s land_env \<Rightarrow> land_command \<Rightarrow> 's world \<Rightarrow> oid \<Rightarrow> oid \<Rightarrow> mem_node \<Rightarrow> changeset \<Rightarrow> mem_node \<Rightarrow> mem_node \<Rightarrow> bool" where
  "rebased_form env cmd w node tip tree cs node_tree new_tree \<longleftrightarrow>
     (\<exists>v row graph parent_tree decoded merged found reps.
        (\<exists>rows. db_changesets (w_db v) = db_changesets (w_db w) @ rows) \<and>
        changeset_get (w_db w) (lc_repo cmd) node = Some row \<and> changeset_decode (cr_canonical row) = Inr decoded \<and>
        changeset_graph (w_db v) (lc_repo cmd) node = Some graph \<and>
        load_tree (w_db v) (cr_root_tree row) = Some (Inr node_tree) \<and>
        node_parent_tree (w_db v) (lc_repo cmd) (cg_parents graph) = Some (Inr parent_tree) \<and>
        merge_node env cmd v parent_tree tree node_tree = Inr (merged, found) \<and> new_tree = mt_node merged \<and>
        rmap (\<lambda>c. ok_or (content_rep (env_nfc (le_merge env)) c) Land_Panic) found = Inr reps \<and>
        cs = \<lparr>cs_repo_id = as_u64 (lc_repo cmd), cs_parents = [tip], cs_author = cr_author row, cs_message = cr_message row,
              cs_timestamp_ns = as_u64 (cr_timestamp row), cs_changes = delta_between tree new_tree,
              cs_conflicts = carry (cs_conflicts decoded) reps\<rparr>)"

text \<open>The id of a changeset, over its canonical frame.\<close>

definition frame_id :: "'s land_env \<Rightarrow> changeset \<Rightarrow> bytes \<Rightarrow> oid \<Rightarrow> bool" where
  "frame_id env cs canonical i \<longleftrightarrow> changeset_encode (env_nfc (le_merge env)) cs = Inr canonical \<and>
     i = id_for_encoded (env_blake3 (le_merge env)) canonical (cs_conflicts cs \<noteq> [])"

text \<open>
  From \<open>tip\<close> over the changesets of a chain to the landed one. A changeset without a change and without a conflict on its
  new place is dropped; one that is its own rebased form is kept; any other gets a row, which holds the frame of the
  rebased form, under its id, and the root of the merged tree. Each continues from the one before it.
\<close>

inductive rebased ::
    "'s land_env \<Rightarrow> land_command \<Rightarrow> 's world \<Rightarrow> oid \<Rightarrow> mem_node \<Rightarrow> oid list \<Rightarrow> changeset_row list \<Rightarrow> oid \<Rightarrow> bool" for env cmd w where
  rebased_end: "rebased env cmd w tip tree [] [] tip"
| rebased_drop: "rebased_form env cmd w node tip tree cs node_tree new_tree \<Longrightarrow> cs_changes cs = [] \<Longrightarrow> cs_conflicts cs = [] \<Longrightarrow>
    rebased env cmd w tip tree nodes rows landed \<Longrightarrow> rebased env cmd w tip tree (node # nodes) rows landed"
| rebased_keep: "rebased_form env cmd w node tip tree cs node_tree new_tree \<Longrightarrow> cs_changes cs \<noteq> [] \<or> cs_conflicts cs \<noteq> [] \<Longrightarrow>
    frame_id env cs canonical node \<Longrightarrow>
    rebased env cmd w node node_tree nodes rows landed \<Longrightarrow> rebased env cmd w tip tree (node # nodes) rows landed"
| rebased_insert: "rebased_form env cmd w node tip tree cs node_tree new_tree \<Longrightarrow> cs_changes cs \<noteq> [] \<or> cs_conflicts cs \<noteq> [] \<Longrightarrow>
    frame_id env cs (cr_canonical row) (cr_id row) \<Longrightarrow> cr_id row \<noteq> node \<Longrightarrow>
    mem_collect (env_blake3 (le_merge env)) new_tree = Inr (root, sz, trees) \<Longrightarrow> cr_root_tree row = Some root \<Longrightarrow>
    rebased env cmd w (cr_id row) new_tree nodes rows landed \<Longrightarrow> rebased env cmd w tip tree (node # nodes) (row # rows) landed"

lemma get_append:
  "changeset_get db repo i = Some row \<Longrightarrow> db_changesets db' = db_changesets db @ rows \<Longrightarrow> changeset_get db' repo i = Some row"
proof -
  have "find P xs = Some x \<Longrightarrow> find P (xs @ ys) = Some x" for P :: "changeset_row \<Rightarrow> bool" and xs ys x
    by (induction xs) auto
  then show "changeset_get db repo i = Some row \<Longrightarrow> db_changesets db' = db_changesets db @ rows \<Longrightarrow> changeset_get db' repo i = Some row"
    by (simp add: changeset_get_def)
qed

text \<open>One step of the loop, and what it puts in front of the rest of the chain.\<close>

definition leads :: "'s land_env \<Rightarrow> land_command \<Rightarrow> 's world \<Rightarrow> 's rebase_state \<Rightarrow> oid list \<Rightarrow> 's rebase_state \<Rightarrow> bool" where
  "leads env cmd w st nodes st' \<longleftrightarrow>
     (\<exists>rows. db_changesets (w_db (rs_world st')) = db_changesets (w_db (rs_world st)) @ rows \<and>
        (\<forall>more rest landed. rebased env cmd w (rs_tip st') (rs_tree st') more rest landed \<longrightarrow>
           rebased env cmd w (rs_tip st) (rs_tree st) (nodes @ more) (rows @ rest) landed))"

lemma rebase_merged_leads:
  assumes kinds: "\<forall>kind \<in> set (le_kinds env). keeps_land kind"
    and run: "rebase_merged env cmd node row node_tree parent_tree st = Inr st'"
    and rows0: "db_changesets (w_db (rs_world st)) = db_changesets (w_db w) @ rows0"
    and get: "changeset_get (w_db w) (lc_repo cmd) node = Some row" "changeset_graph (w_db (rs_world st)) (lc_repo cmd) node = Some graph"
    and trees: "load_tree (w_db (rs_world st)) (cr_root_tree row) = Some (Inr node_tree)"
      "node_parent_tree (w_db (rs_world st)) (lc_repo cmd) (cg_parents graph) = Some (Inr parent_tree)"
  shows "leads env cmd w st [node] st'"
proof -
  obtain decoded merged found reps where d: "changeset_decode (cr_canonical row) = Inr decoded"
      and m: "merge_node env cmd (rs_world st) parent_tree (rs_tree st) node_tree = Inr (merged, found)"
      and r: "rmap (\<lambda>c. ok_or (content_rep (env_nfc (le_merge env)) c) Land_Panic) found = Inr reps"
      and rest: "(if delta_between (rs_tree st) (mt_node merged) = [] \<and> carry (cs_conflicts decoded) reps = [] then Inr st
           else place_node env cmd node node_tree
                  \<lparr>cs_repo_id = as_u64 (lc_repo cmd), cs_parents = [rs_tip st], cs_author = cr_author row,
                   cs_message = cr_message row, cs_timestamp_ns = as_u64 (cr_timestamp row),
                   cs_changes = delta_between (rs_tree st) (mt_node merged),
                   cs_conflicts = carry (cs_conflicts decoded) reps\<rparr> merged st) = Inr st'"
    using run unfolding rebase_merged_def Let_def by (auto simp: rbind_eq_Inr map_err_eq_Inr)
  define cs where "cs = \<lparr>cs_repo_id = as_u64 (lc_repo cmd), cs_parents = [rs_tip st], cs_author = cr_author row,
    cs_message = cr_message row, cs_timestamp_ns = as_u64 (cr_timestamp row),
    cs_changes = delta_between (rs_tree st) (mt_node merged), cs_conflicts = carry (cs_conflicts decoded) reps\<rparr>"
  have form: "rebased_form env cmd w node (rs_tip st) (rs_tree st) cs node_tree (mt_node merged)"
    unfolding rebased_form_def cs_def using d m r get trees rows0 by blast
  show ?thesis
  proof (cases "cs_changes cs = [] \<and> cs_conflicts cs = []")
    case True
    then have "st' = st" using rest by (simp add: cs_def)
    then show ?thesis using rebased_drop [OF form] True by (auto simp: leads_def intro: exI [of _ "[]"])
  next
    case False
    then have kept: "cs_changes cs \<noteq> [] \<or> cs_conflicts cs \<noteq> []" by simp
    have "place_node env cmd node node_tree cs merged st = Inr st'" using rest False by (auto simp: cs_def split: if_splits)
    then show ?thesis
    proof (cases rule: place_node_Inr)
      case (1 canonical written w1)
      have "frame_id env cs canonical node" using 1 by (simp add: frame_id_def)
      from rebased_keep [OF form kept this] show ?thesis
        using 1 ledger_land [OF conjunct1 [OF write_blobs_db [OF 1(1)]]] by (auto simp: leads_def intro: exI [of _ "[]"])
    next
      case (2 canonical written w1 new_id db)
      obtain row' root sz trees where row': "db_changesets db = db_changesets (w_db w1) @ [row']" "cr_id row' = new_id" "cr_canonical row' = canonical"
          "mem_collect (env_blake3 (le_merge env)) (mt_node merged) = Inr (root, sz, trees)" "cr_root_tree row' = Some root"
        using insert_node_land [OF kinds 2(4)] by blast
      have "frame_id env cs (cr_canonical row') (cr_id row')" using 2 row' by (simp add: frame_id_def)
      from rebased_insert [OF form kept this _ row'(4,5)] show ?thesis
        using 2 row' ledger_land [OF conjunct1 [OF write_blobs_db [OF 2(1)]]] by (auto simp: leads_def intro: exI [of _ "[row']"])
    qed
  qed
qed

lemma rebase_node_leads:
  assumes "\<forall>kind \<in> set (le_kinds env). keeps_land kind" and "rebase_node env cmd node st = Some (Inr st')"
    and "db_changesets (w_db (rs_world st)) = db_changesets (w_db w) @ rows0"
    and "changeset_get (w_db w) (lc_repo cmd) node = Some row"
  shows "leads env cmd w st [node] st'"
proof -
  have get: "changeset_get (w_db (rs_world st)) (lc_repo cmd) node = Some row" by (rule get_append [OF assms(4,3)])
  obtain graph node_tree parent_tree where
      "changeset_graph (w_db (rs_world st)) (lc_repo cmd) node = Some graph"
      "load_tree (w_db (rs_world st)) (cr_root_tree row) = Some (Inr node_tree)"
      "node_parent_tree (w_db (rs_world st)) (lc_repo cmd) (cg_parents graph) = Some (Inr parent_tree)"
      "rebase_merged env cmd node row node_tree parent_tree st = Inr st'"
    using assms(2) get unfolding rebase_node_def Let_def by (auto simp: obind_eq_Inr split: option.splits)
  then show ?thesis using rebase_merged_leads [OF assms(1) _ assms(3,4)] by blast
qed

lemma rebase_chain_rebased:
  assumes "\<forall>kind \<in> set (le_kinds env). keeps_land kind"
  shows "rebase_chain env cmd nodes st = Some (Inr st') \<Longrightarrow>
    db_changesets (w_db (rs_world st)) = db_changesets (w_db w) @ rows0 \<Longrightarrow>
    \<forall>n \<in> set nodes. \<exists>row. changeset_get (w_db w) (lc_repo cmd) n = Some row \<Longrightarrow>
    \<exists>rows. db_changesets (w_db (rs_world st')) = db_changesets (w_db (rs_world st)) @ rows \<and>
      rebased env cmd w (rs_tip st) (rs_tree st) nodes rows (rs_tip st')"
proof (induction nodes arbitrary: st rows0)
  case Nil
  then show ?case by (auto intro: rebased_end)
next
  case (Cons node nodes)
  obtain st1 where st1: "rebase_node env cmd node st = Some (Inr st1)" "rebase_chain env cmd nodes st1 = Some (Inr st')"
    using Cons.prems(1) by (auto simp: obind_eq_Inr)
  obtain row where "changeset_get (w_db w) (lc_repo cmd) node = Some row" using Cons.prems(3) by auto
  from rebase_node_leads [OF assms st1(1) Cons.prems(2) this] obtain rows where
      rows: "db_changesets (w_db (rs_world st1)) = db_changesets (w_db (rs_world st)) @ rows"
    and lead: "\<And>more rest landed. rebased env cmd w (rs_tip st1) (rs_tree st1) more rest landed \<Longrightarrow>
        rebased env cmd w (rs_tip st) (rs_tree st) (node # more) (rows @ rest) landed"
    by (auto simp: leads_def)
  from Cons.IH [OF st1(2), of "rows0 @ rows"] Cons.prems(2,3) rows obtain rest where
      "db_changesets (w_db (rs_world st')) = db_changesets (w_db (rs_world st1)) @ rest"
      "rebased env cmd w (rs_tip st1) (rs_tree st1) nodes rest (rs_tip st')" by auto
  then show ?case using lead rows by auto
qed

section \<open>The whole land\<close>

lemma rep_paths_cong: "db_changesets db = db_changesets db' \<Longrightarrow> rep_paths_of db = rep_paths_of db'"
  by (intro ext) (simp add: rep_paths_of_def changeset_get_def)

lemma cas_changesets: "db_changesets (snd (main_cas_move repo old new who db)) = db_changesets db"
  by (auto simp: main_cas_move_def split: option.split)

lemma land_rebase_run:
  assumes "land_rebase env cmd old_main nodes note w = Some (Inr r)"
  obtains g tree st reps db where "changeset_graph (w_db w) (lc_repo cmd) old_main = Some g"
    and "load_tree (w_db w) (cg_root_tree g) = Some (Inr tree)"
    and "rebase_chain env cmd nodes \<lparr>rs_tip = old_main, rs_gen = cg_generation g, rs_tree = tree, rs_rebased = 0,
          rs_written = [], rs_world = w\<rparr> = Some (Inr st)"
    and "fst (main_cas_move (lc_repo cmd) old_main (rs_tip st) (lc_principal cmd) (w_db (rs_world st))) \<noteq> 0"
    and "db = snd (main_cas_move (lc_repo cmd) old_main (rs_tip st) (lc_principal cmd) (w_db (rs_world st)))"
    and "rep_paths_of db (lc_repo cmd) (rs_tip st) = Inr reps"
    and "r = settle env cmd old_main (rs_tip st) (rs_rebased st) note reps ((rs_world st)\<lparr>w_db := db\<rparr>)"
  using assms unfolding land_rebase_def
  by (auto simp: obind_eq_Inr rbind_eq_Inr Let_def split_beta split: option.splits if_splits)

lemma land_onto_run:
  assumes "land_onto env cmd old_main w = Some (Inr r)"
  obtains reps where "lc_head cmd \<in> contained (w_db w) (lc_repo cmd) old_main"
    and "rep_paths_of (w_db w) (lc_repo cmd) old_main = Inr reps" and "r = settle env cmd old_main old_main 0 None reps w"
  | nodes base nt where "lc_head cmd \<notin> contained (w_db w) (lc_repo cmd) old_main"
    and "base \<in> contained (w_db w) (lc_repo cmd) old_main" and "set nodes \<inter> contained (w_db w) (lc_repo cmd) old_main = {}"
    and "first_parent_chain (w_db w) (lc_repo cmd) base nodes (lc_head cmd)"
    and "land_rebase env cmd old_main nodes nt w = Some (Inr r)"
proof -
  obtain S where S: "ancestry (w_db w) (lc_repo cmd) [old_main] {} = Some (Inr S)"
      and rest: "(if lc_head cmd = old_main \<or> lc_head cmd \<in> S then
            Some (rbind (at_world w (rep_paths_of (w_db w) (lc_repo cmd) old_main)) (\<lambda>reps.
              Inr (settle env cmd old_main old_main 0 None reps w)))
          else
            obind (map_option (at_world w) (chain_walk (w_db w) (lc_repo cmd) S (lc_head cmd) [])) (\<lambda>(nodes, base).
              if redaction_active (w_db w) (lc_repo cmd) base then Some (Inl (Redacted_Base base, w))
              else
                obind (Some (at_world w (check_scope (w_db w) (lc_repo cmd) (lc_scope cmd) (rev nodes)))) (\<lambda>_.
                  land_rebase env cmd old_main (rev nodes) (base_note (w_db w) cmd) w))) = Some (Inr r)"
    using assms unfolding land_onto_def Let_def by (auto simp: obind_eq_Inr split: if_splits)
  note c = ancestry_contained [OF S]
  have main: "old_main \<in> S" unfolding c by (simp add: contained_def)
  show ?thesis
  proof (cases "lc_head cmd \<in> S")
    case True
    then obtain reps where "rep_paths_of (w_db w) (lc_repo cmd) old_main = Inr reps" "r = settle env cmd old_main old_main 0 None reps w"
      using rest by (auto simp: rbind_eq_Inr)
    then show ?thesis using that(1) True c by simp
  next
    case False
    then obtain ns base where ns: "chain_walk (w_db w) (lc_repo cmd) S (lc_head cmd) [] = Some (Inr (ns, base))"
        "land_rebase env cmd old_main (rev ns) (base_note (w_db w) cmd) w = Some (Inr r)"
      using rest main by (auto simp: obind_eq_Inr split: if_splits)
    have "first_parent_chain (w_db w) (lc_repo cmd) base (rev ns) (lc_head cmd) \<and> base \<in> S \<and> set ns \<inter> S = {}"
      using chain_walk_chain [OF ns(1)] by simp
    then show ?thesis using that(2) [OF _ _ _ _ ns(2), of base] False c by simp
  qed
qed

lemma chain_in_db: "first_parent_chain db repo base nodes head \<Longrightarrow> n \<in> set nodes \<Longrightarrow> \<exists>row. changeset_get db repo n = Some row"
  by (induction nodes arbitrary: base) (auto simp: changeset_graph_def)

text \<open>Loading a tree reads the tables of the trees only.\<close>

lemma discover_tables:
  fixes db db' :: repo_db
  assumes "discover_loop db queue loaded = Some r" "db_trees db' = db_trees db" "db_tree_entries db' = db_tree_entries db"
  shows "discover_loop db' queue loaded = Some r"
proof -
  have "db_trees db' = db_trees db \<longrightarrow> db_tree_entries db' = db_tree_entries db \<longrightarrow> discover_loop db' queue loaded = Some r"
  proof (induction rule: discover_loop.raw_induct [OF _ assms(1)])
    case (1 discover_loop db queue loaded r)
    show ?case
    proof (intro impI)
      assume t: "db_trees db' = db_trees db" "db_tree_entries db' = db_tree_entries db"
      then have same: "tree_repo db' = tree_repo db" "tree_entries_load db' = tree_entries_load db"
        by (auto simp: tree_repo_def tree_entries_load_def intro!: ext)
      show "Tree_Store.discover_loop db' queue loaded = Some r"
        using 1(2) 1(1) t
        by (subst discover_loop.simps) (auto simp: same split: list.splits if_splits option.splits sum.splits)
    qed
  qed
  then show ?thesis using assms(2,3) by blast
qed

lemma load_tree_tables:
  fixes db db' :: repo_db
  assumes "load_tree db root = Some (Inr tree)" "db_trees db' = db_trees db" "db_tree_entries db' = db_tree_entries db"
  shows "load_tree db' root = Some (Inr tree)"
proof -
  have "load_node db' i = Some x" if "load_node db i = Some x" for i x
    using that discover_tables [OF _ assms(2,3), of "[i]" Map.empty] by (auto simp: load_node_def split: option.splits sum.splits)
  then show ?thesis using assms(1) by (auto simp: load_tree_def mem_load_def split: option.splits)
qed

lemma pending_same [simp]:
  "contained (pending_db cmd db) = contained db" "first_parent_chain (pending_db cmd db) = first_parent_chain db"
  "rep_paths_of (pending_db cmd db) = rep_paths_of db" "changeset_get (pending_db cmd db) = changeset_get db"
proof -
  show "contained (pending_db cmd db) = contained db" by (intro ext) (simp add: contained_def cs_parent_rel_def)
  have "first_parent_chain (pending_db cmd db) repo base nodes head = first_parent_chain db repo base nodes head" for repo base nodes head
    by (induction nodes arbitrary: base) simp_all
  then show "first_parent_chain (pending_db cmd db) = first_parent_chain db" by (intro ext)
  show "rep_paths_of (pending_db cmd db) = rep_paths_of db" by (rule rep_paths_cong) simp
  show "changeset_get (pending_db cmd db) = changeset_get db" by (intro ext) (simp add: changeset_get_def)
qed

lemma pending_lands [simp]:
  "om_insert (lc_repo cmd, lc_principal cmd, lc_key cmd) row (db_lands (pending_db cmd db)) =
     om_insert (lc_repo cmd, lc_principal cmd, lc_key cmd) row (db_lands db)"
  by (simp add: pending_db_def)

lemma rebased_pending: "rebased env cmd (w\<lparr>w_db := pending_db c (w_db w)\<rparr>) tip tree nodes rows landed \<Longrightarrow> rebased env cmd w tip tree nodes rows landed"
proof (induction rule: rebased.induct)
  have form: "rebased_form env cmd (w\<lparr>w_db := pending_db c (w_db w)\<rparr>) = rebased_form env cmd w"
    by (intro ext) (simp add: rebased_form_def)
  case (rebased_drop node tip tree cs node_tree new_tree nodes rows landed)
  then show ?case using form rebased.rebased_drop by metis
next
  have form: "rebased_form env cmd (w\<lparr>w_db := pending_db c (w_db w)\<rparr>) = rebased_form env cmd w"
    by (intro ext) (simp add: rebased_form_def)
  case (rebased_keep node tip tree cs node_tree new_tree canonical nodes rows landed)
  then show ?case using form rebased.rebased_keep by metis
next
  have form: "rebased_form env cmd (w\<lparr>w_db := pending_db c (w_db w)\<rparr>) = rebased_form env cmd w"
    by (intro ext) (simp add: rebased_form_def)
  case (rebased_insert node tip tree cs node_tree new_tree row root sz trees nodes rows landed)
  then show ?case using form rebased.rebased_insert by metis
qed (rule rebased_end)

section \<open>The property\<close>

text \<open>C1: what a successful land of a key without a row leaves. The key's row is settled with the result, and the reported
  conflicts are exactly the paths of the conflicts that the landed changeset records (so the row says \<open>conflicted\<close> exactly
  if there are any). If the head is reachable from \<open>main\<close> over parents, no ref moves, no changeset is added, and the
  landed changeset is the old \<open>main\<close>. Otherwise the chain of first parents from the head down to the first changeset
  reachable from \<open>main\<close> is rebased, oldest first: the landed changeset is reached from the old \<open>main\<close> by giving each
  changeset of the chain its rebased form on top of the one before (\<open>rebased\<close>), the added rows are exactly the new ones, in
  order, as many as reported, by the landing principal and with generations counted from that of the old \<open>main\<close>; and
  \<open>main\<close> points to the landed changeset, with its version bumped and the principal noted, while no other ref moved. The
  hypotheses: hashes have 32 bytes, and the derivers leave changesets, refs and land keys alone.\<close>
theorem land_moves_main:
  assumes hash: "hash32 env" and kinds: "\<forall>kind \<in> set (le_kinds env). keeps_land kind"
    and ex: "execute env cmd w = Some (Inr don, w')"
    and key: "land_get (w_db w) (lc_repo cmd) (lc_principal cmd) (lc_key cmd) = None"
  shows "\<exists>row old_main rows. ref_get (w_db w) (lc_repo cmd) (ascii ''main'') = Some row \<and> rf_target row = Some old_main \<and>
    db_changesets (w_db w') = db_changesets (w_db w) @ rows \<and> ld_rebased don = of_nat (length rows) \<and>
    rebase_rows cmd (main_generation (w_db w) (lc_repo cmd) old_main) rows \<and>
    db_lands (w_db w') = om_insert (lc_repo cmd, lc_principal cmd, lc_key cmd) (settled_row env cmd old_main don) (db_lands (w_db w)) \<and>
    rep_paths_of (w_db w') (lc_repo cmd) (ld_landed don) = Inr (ld_conflicts don) \<and>
    (if lc_head cmd \<in> contained (w_db w) (lc_repo cmd) old_main then
       db_refs (w_db w') = db_refs (w_db w) \<and> rows = [] \<and> ld_landed don = old_main
     else
       db_refs (w_db w') = om_insert (lc_repo cmd, ascii ''main'')
         \<lparr>rf_target = Some (ld_landed don), rf_version = i64_add (rf_version row) 1, rf_last_principal = Some (lc_principal cmd)\<rparr>
         (db_refs (w_db w)) \<and>
       (\<exists>base nodes g tree. base \<in> contained (w_db w) (lc_repo cmd) old_main \<and>
          set nodes \<inter> contained (w_db w) (lc_repo cmd) old_main = {} \<and>
          first_parent_chain (w_db w) (lc_repo cmd) base nodes (lc_head cmd) \<and>
          changeset_graph (w_db w) (lc_repo cmd) old_main = Some g \<and> load_tree (w_db w) (cg_root_tree g) = Some (Inr tree) \<and>
          rebased env cmd w old_main tree nodes rows (ld_landed don)))"
proof -
  obtain audit w1 where t: "land_in_txn env cmd w = Some (Inr ((don, audit), w1))" and w': "w' = after_commit audit w1"
    by (rule execute_done [OF ex])
  from t show ?thesis
  proof (cases rule: land_txn_done)
    case (2 row old_main)
    note main = 2(2-4)
    let ?w = "w\<lparr>w_db := pending_db cmd (w_db w)\<rparr>"
    from 2(5) show ?thesis
    proof (cases rule: land_onto_run)
      case (1 reps)
      have "rebase_rows cmd g []" for g by (simp add: rebase_rows_def)
      moreover have "rep_paths_of (w_db w') = rep_paths_of (w_db w)"
        using settle_done [OF 1(3)] w' by (intro rep_paths_cong) simp
      ultimately show ?thesis using settle_done [OF 1(3)] 1(1,2) main w' by auto
    next
      case (2 nodes base nt)
      from 2(5) obtain g tree st reps db where r: "changeset_graph (w_db w) (lc_repo cmd) old_main = Some g"
          "load_tree (w_db ?w) (cg_root_tree g) = Some (Inr tree)"
          "rebase_chain env cmd nodes \<lparr>rs_tip = old_main, rs_gen = cg_generation g, rs_tree = tree, rs_rebased = 0,
            rs_written = [], rs_world = ?w\<rparr> = Some (Inr st)"
          "fst (main_cas_move (lc_repo cmd) old_main (rs_tip st) (lc_principal cmd) (w_db (rs_world st))) \<noteq> 0"
          "db = snd (main_cas_move (lc_repo cmd) old_main (rs_tip st) (lc_principal cmd) (w_db (rs_world st)))"
          "rep_paths_of db (lc_repo cmd) (rs_tip st) = Inr reps"
          "((don, audit), w1) = settle env cmd old_main (rs_tip st) (rs_rebased st) nt reps ((rs_world st)\<lparr>w_db := db\<rparr>)"
        by (rule land_rebase_run) auto
      have "grown cmd ?w (cg_generation g) \<lparr>rs_tip = old_main, rs_gen = cg_generation g, rs_tree = tree, rs_rebased = 0,
          rs_written = [], rs_world = ?w\<rparr>" using main by (simp add: grown_def land_frame_def rebase_rows_def)
      from rebase_chain_grown [OF kinds hash r(3) this]
      obtain rows where rows: "db_changesets (w_db (rs_world st)) = db_changesets (w_db w) @ rows" "rs_rebased st = of_nat (length rows)"
        "rebase_rows cmd (cg_generation g) rows" and fr: "land_frame (w_db ?w) (w_db (rs_world st))" by (auto simp: grown_def)
      have "\<forall>n \<in> set nodes. \<exists>row. changeset_get (w_db w) (lc_repo cmd) n = Some row" using chain_in_db 2(4) by fastforce
      then have "rebased env cmd ?w old_main tree nodes rows (rs_tip st)"
        using rebase_chain_rebased [OF kinds r(3), of ?w "[]"] rows(1) by auto
      then have chain: "rebased env cmd w old_main tree nodes rows (rs_tip st)" by (rule rebased_pending)
      have tree: "load_tree (w_db w) (cg_root_tree g) = Some (Inr tree)"
        by (rule load_tree_tables [OF r(2)]) (simp_all add: pending_db_def)
      have fin: "don = \<lparr>ld_landed = rs_tip st, ld_main = rs_tip st, ld_rebased = rs_rebased st, ld_note = nt, ld_conflicts = reps\<rparr>"
        "db_changesets (w_db w') = db_changesets db" "db_refs (w_db w') = db_refs db"
        "db_lands (w_db w') = om_insert (lc_repo cmd, lc_principal cmd, lc_key cmd) (settled_row env cmd old_main don) (db_lands db)"
        using settle_done [OF r(7)] w' by simp_all
      have reps: "rep_paths_of (w_db w') (lc_repo cmd) (rs_tip st) = Inr reps" using rep_paths_cong [OF fin(2)] r(6) by simp
      have refs: "db_refs (w_db (rs_world st)) = db_refs (w_db w)" "db_lands (w_db (rs_world st)) = db_lands (pending_db cmd (w_db w))"
        using fr by (simp_all add: land_frame_def)
      have moved: "db_refs db = om_insert (lc_repo cmd, ascii ''main'')
          \<lparr>rf_target = Some (rs_tip st), rf_version = i64_add (rf_version row) 1, rf_last_principal = Some (lc_principal cmd)\<rparr> (db_refs (w_db w))"
        "db_lands db = db_lands (pending_db cmd (w_db w))" "db_changesets db = db_changesets (w_db w) @ rows"
        using r(4,5) main refs rows(1) by (auto simp: main_cas_move_def ref_get_def)
      have g: "main_generation (w_db w) (lc_repo cmd) old_main = cg_generation g" using r(1) by (simp add: main_generation_def)
      show ?thesis
        by (rule exI [of _ row], rule exI [of _ old_main], rule exI [of _ rows])
          (use main fin reps moved g rows 2(1-4) r(1) tree chain in auto)
    qed
  qed (use key in \<open>simp add: settled_answer_def\<close>)
qed

theorem land_moves_main_witness:
  "\<exists>don w' rows tree. execute land_sample_env scmd (land_sample_world False) = Some (Inr don, w') \<and> rows \<noteq> [] \<and>
     db_changesets (w_db w') = db_changesets land_sample_db @ rows \<and>
     map_option rf_target (ref_get (w_db w') 1 (ascii ''main'')) = Some (Some (replicate 32 3)) \<and>
     (\<exists>nodes. rebased land_sample_env scmd (land_sample_world False) (replicate 32 1) tree nodes rows (replicate 32 3))"
proof -
  obtain don w' where e: "execute land_sample_env scmd (land_sample_world False) = Some (Inr don, w')"
    and d: "ld_landed don = replicate 32 3" "ld_rebased don = 1" using land_sample_run by fastforce
  have kinds: "\<forall>kind \<in> set (le_kinds land_sample_env). keeps_land kind" by (simp add: land_sample_env_def)
  have db: "w_db (land_sample_world False) = land_sample_db" by (simp add: land_sample_world_def)
  have n: "lc_repo scmd = 1" "lc_principal scmd = []" by (simp_all add: land_sample_cmd_def)
  have key: "land_get (w_db (land_sample_world False)) (lc_repo scmd) (lc_principal scmd) (lc_key scmd) = None"
    by (simp add: land_get_def land_sample_world_def land_sample_db_def)
  obtain row old_main rows where r: "ref_get land_sample_db 1 (ascii ''main'') = Some row" "rf_target row = Some old_main"
      "db_changesets (w_db w') = db_changesets land_sample_db @ rows" "ld_rebased don = of_nat (length rows)"
    and c: "if lc_head scmd \<in> contained land_sample_db 1 old_main then
       db_refs (w_db w') = db_refs land_sample_db \<and> rows = [] \<and> ld_landed don = old_main
     else
       db_refs (w_db w') = om_insert (1, ascii ''main'')
         \<lparr>rf_target = Some (ld_landed don), rf_version = i64_add (rf_version row) 1, rf_last_principal = Some []\<rparr>
         (db_refs land_sample_db) \<and>
       (\<exists>base nodes g tree. base \<in> contained land_sample_db 1 old_main \<and>
          set nodes \<inter> contained land_sample_db 1 old_main = {} \<and>
          first_parent_chain land_sample_db 1 base nodes (lc_head scmd) \<and>
          changeset_graph land_sample_db 1 old_main = Some g \<and> load_tree land_sample_db (cg_root_tree g) = Some (Inr tree) \<and>
          rebased land_sample_env scmd (land_sample_world False) old_main tree nodes rows (ld_landed don))"
    using land_moves_main [OF land_sample_hash kinds e key] unfolding db n by blast
  have main: "old_main = replicate 32 1" using r(1,2) by (auto simp: ref_get_def land_sample_db_def)
  have ne: "rows \<noteq> []" using r(4) d(2) by auto
  then have c: "db_refs (w_db w') = om_insert (1, ascii ''main'')
       \<lparr>rf_target = Some (ld_landed don), rf_version = i64_add (rf_version row) 1, rf_last_principal = Some []\<rparr> (db_refs land_sample_db)"
      "\<exists>nodes tree. rebased land_sample_env scmd (land_sample_world False) old_main tree nodes rows (ld_landed don)"
    using c by (auto split: if_splits)
  then show ?thesis using e r(3) ne d(1) main by (auto simp: ref_get_def)
qed

end
