(* ===== verification/Reach.thy ===== *)
theory Reach
  imports Naatre_Prelude
begin

text \<open>
  Closures over the edges a table stores: the level-by-level walk the program writes as a frontier loop
  (\<open>crates/naatre-server/src/gc.rs\<close>, \<open>mark_repo\<close>) and the database as \<open>WITH RECURSIVE \<dots> UNION\<close>. The
  edges are the rows of a table, so the walk ends; it computes the reflexive transitive closure of the roots.
\<close>

section \<open>The walk\<close>

text \<open>\<open>for p in ps { if set.insert(p) { next.push(p) } }\<close>\<close>

fun insert_new :: "'a list \<Rightarrow> 'a set \<Rightarrow> 'a list \<times> 'a set" where
  "insert_new [] seen = ([], seen)"
| "insert_new (p # ps) seen =
     (if p \<in> seen then insert_new ps seen
      else (let (next_level, seen') = insert_new ps (insert p seen) in (p # next_level, seen')))"

definition children :: "('a \<times> 'a) list \<Rightarrow> 'a list \<Rightarrow> 'a list" where
  "children edges xs = map snd (filter (\<lambda>(x, _). x \<in> set xs) edges)"

lemma insert_new_fst: "set (fst (insert_new ps seen)) = set ps - seen"
  by (induction ps seen rule: insert_new.induct) (auto simp: Let_def split_beta)

lemma insert_new_snd: "snd (insert_new ps seen) = seen \<union> set ps"
  by (induction ps seen rule: insert_new.induct) (auto simp: Let_def split_beta)

lemma insert_new_sets: "insert_new ps seen = (fresh, seen') \<Longrightarrow> set fresh = set ps - seen \<and> seen' = seen \<union> set ps"
  using insert_new_fst [of ps seen] insert_new_snd [of ps seen] by simp

lemma set_children: "set (children edges xs) = set edges `` set xs"
  by (force simp: children_def)

function walk :: "('a \<times> 'a) list \<Rightarrow> 'a list \<Rightarrow> 'a set \<Rightarrow> 'a set" where
  "walk edges frontier seen =
     (if frontier = [] then seen
      else (let (next_level, seen') = insert_new (children edges frontier) seen in walk edges next_level seen'))"
  by pat_completeness auto
termination
proof (relation "measures [\<lambda>(edges, _, seen). card (snd ` set edges - seen), \<lambda>(_, frontier, _). length frontier]")
  fix edges :: "('a \<times> 'a) list" and frontier seen p fresh seen'
  assume ne: "frontier \<noteq> []" and p: "p = insert_new (children edges frontier) seen" "(fresh, seen') = p"
  from p have s: "set fresh = set (children edges frontier) - seen" "seen' = seen \<union> set (children edges frontier)"
    using insert_new_sets [of "children edges frontier" seen fresh seen'] by simp_all
  show "((edges, fresh, seen'), edges, frontier, seen)
      \<in> measures [\<lambda>(edges, _, seen). card (snd ` set edges - seen), \<lambda>(_, frontier, _). length frontier]"
  proof (cases "fresh = []")
    case True
    then have "seen' = seen" using s by auto
    then show ?thesis using True ne by simp
  next
    case False
    have "snd ` set edges - seen' \<subset> snd ` set edges - seen"
    proof
      show "snd ` set edges - seen' \<subseteq> snd ` set edges - seen" using s by auto
      obtain x where x: "x \<in> set fresh" using False by (cases fresh) auto
      then have "x \<in> snd ` set edges - seen" "x \<in> seen'"
        using s(1) s(2) by (auto simp: set_children Image_iff intro!: rev_image_eqI)
      then show "snd ` set edges - seen' \<noteq> snd ` set edges - seen" by blast
    qed
    then have "card (snd ` set edges - seen') < card (snd ` set edges - seen)"
      by (intro psubset_card_mono) auto
    then show ?thesis by simp
  qed
qed simp

declare walk.simps [simp del]

text \<open>For evaluation.\<close>

lemma walk_simps:
  "walk edges [] seen = seen"
  "walk edges (x # xs) seen =
     (let (next_level, seen') = insert_new (children edges (x # xs)) seen in walk edges next_level seen')"
  by (simp_all add: walk.simps [of edges "[]"] walk.simps [of edges "x # xs"])

text \<open>The roots enter the set before the walk.\<close>

definition closure :: "('a \<times> 'a) list \<Rightarrow> 'a list \<Rightarrow> 'a set" where
  "closure edges roots = (let (frontier, seen) = insert_new roots {} in walk edges frontier seen)"

section \<open>It is the reachable set\<close>

definition reachable :: "('a \<times> 'a) list \<Rightarrow> 'a set \<Rightarrow> 'a set" where
  "reachable edges S = (set edges)\<^sup>* `` S"

lemma reachable_base: "x \<in> S \<Longrightarrow> x \<in> reachable edges S"
  by (auto simp: reachable_def)

lemma reachable_step: "x \<in> reachable edges S \<Longrightarrow> (x, y) \<in> set edges \<Longrightarrow> y \<in> reachable edges S"
  by (auto simp: reachable_def intro: rtrancl_into_rtrancl)

lemma reachable_least:
  assumes "S \<subseteq> C" and "\<And>x y. x \<in> C \<Longrightarrow> (x, y) \<in> set edges \<Longrightarrow> y \<in> C"
  shows "reachable edges S \<subseteq> C"
proof
  fix y assume "y \<in> reachable edges S"
  then obtain x where "x \<in> S" "(x, y) \<in> (set edges)\<^sup>*" by (auto simp: reachable_def)
  from this(2,1) show "y \<in> C" by (induction rule: rtrancl_induct) (use assms in auto)
qed

lemma reachable_mono: "set edges \<subseteq> set edges' \<Longrightarrow> S \<subseteq> S' \<Longrightarrow> reachable edges S \<subseteq> reachable edges' S'"
  unfolding reachable_def by (meson Image_mono rtrancl_mono)

lemma walk_reachable:
  assumes "set frontier \<subseteq> seen" and "\<forall>x \<in> seen - set frontier. \<forall>y. (x, y) \<in> set edges \<longrightarrow> y \<in> seen"
  shows "walk edges frontier seen = reachable edges seen"
  using assms
proof (induction edges frontier seen rule: walk.induct)
  case (1 edges frontier seen)
  show ?case
  proof (cases "frontier = []")
    case True
    have "reachable edges seen \<subseteq> seen" by (rule reachable_least) (use 1 True in auto)
    then show ?thesis using True reachable_base [of _ seen edges] by (subst walk.simps) auto
  next
    case False
    obtain fresh seen' where i: "insert_new (children edges frontier) seen = (fresh, seen')" by force
    note s = insert_new_sets [OF i]
    have "set fresh \<subseteq> seen'" "\<forall>x \<in> seen' - set fresh. \<forall>y. (x, y) \<in> set edges \<longrightarrow> y \<in> seen'"
      using 1(2,3) s by (auto simp: set_children)
    then have "walk edges fresh seen' = reachable edges seen'"
      using 1(1) [OF False i [symmetric] refl] by blast
    moreover have "reachable edges seen' = reachable edges seen"
    proof
      show "reachable edges seen' \<subseteq> reachable edges seen"
        using s 1(2) reachable_base [of _ seen edges] reachable_step [of _ edges seen]
        by (intro reachable_least) (auto simp: set_children)
      show "reachable edges seen \<subseteq> reachable edges seen'" using s by (intro reachable_mono) auto
    qed
    ultimately show ?thesis using False i by (subst walk.simps) simp
  qed
qed

lemma closure_reachable: "closure edges roots = reachable edges (set roots)"
proof -
  obtain fresh seen where i: "insert_new roots {} = (fresh, seen)" by force
  then have "set fresh = set roots" "seen = set roots" using insert_new_sets [OF i] by auto
  then show ?thesis unfolding closure_def by (simp add: i walk_reachable)
qed

lemma closure_root: "x \<in> set roots \<Longrightarrow> x \<in> closure edges roots"
  by (simp add: closure_reachable reachable_base)

lemma closure_step: "x \<in> closure edges roots \<Longrightarrow> (x, y) \<in> set edges \<Longrightarrow> y \<in> closure edges roots"
  by (simp add: closure_reachable reachable_step)

lemma finite_closure: "finite (closure edges roots)"
proof -
  have "closure edges roots \<subseteq> set roots \<union> snd ` set edges"
    unfolding closure_reachable by (rule reachable_least) force+
  then show ?thesis by (rule finite_subset) simp
qed

text \<open>Dropping edges that do not start in the closure changes nothing.\<close>

lemma closure_cong:
  assumes "set roots = set roots'" and "\<And>x y. x \<in> closure edges roots \<Longrightarrow> (x, y) \<in> set edges \<longleftrightarrow> (x, y) \<in> set edges'"
  shows "closure edges' roots' = closure edges roots"
proof
  show "closure edges roots \<subseteq> closure edges' roots'"
  proof -
    have "x \<in> closure edges' roots'" if "x \<in> closure edges roots" for x
      using that unfolding closure_reachable reachable_def
    proof clarify
      fix r assume r: "r \<in> set roots" "(r, x) \<in> (set edges)\<^sup>*"
      from r(2) have "(r, x) \<in> (set edges')\<^sup>* \<and> x \<in> closure edges roots"
      proof (induction rule: rtrancl_induct)
        case base
        then show ?case using closure_root r(1) by auto
      next
        case (step y z)
        then show ?case using assms(2) closure_step by (metis rtrancl.rtrancl_into_rtrancl)
      qed
      then show "x \<in> (set edges')\<^sup>* `` set roots'" using r(1) assms(1) by auto
    qed
    then show ?thesis by auto
  qed
  show "closure edges' roots' \<subseteq> closure edges roots"
    unfolding closure_reachable [of edges' roots']
    by (rule reachable_least) (use assms closure_root closure_step in fast)+
qed

end
