(* ===== verification/Gc_Db.thy ===== *)
theory Gc_Db
  imports Repo_Db Reach
begin

text \<open>
  The statements of the collector (\<open>crates/naatre-server/src/db.rs\<close>, the sections on the mark, on the
  \<open>gc_pending\<close> ledger and on collection) over the tables of \<open>Repo_Db\<close>.

  A statement that takes a list of ids runs once for each chunk of 400; every chunk is the same filter, so
  the chunks together are one filter, and deleted rows add up. An id column that holds other than 32 bytes
  is skipped or refused as the statement does. \<open>WITH RECURSIVE \<dots> UNION\<close> is \<open>closure\<close>.
\<close>

section \<open>The inventory of a repository\<close>

datatype column_error = Not_32_Bytes

definition ids32 :: "bytes list \<Rightarrow> oid list" where
  "ids32 = filter (\<lambda>b. length b = 32)"

definition id32 :: "bytes \<Rightarrow> column_error + oid" where
  "id32 b = (if length b = 32 then Inr b else Inl Not_32_Bytes)"

definition gc_repos :: "'a repo_db_scheme \<Rightarrow> i64 list" where
  "gc_repos db = map fst (db_repos db)"

text \<open>The columns \<open>refs.target\<close>, \<open>lands.head\<close>, \<open>lands.base\<close>, \<open>git_map.cs_id\<close> of a repository.\<close>

definition ref_targets :: "'a repo_db_scheme \<Rightarrow> i64 \<Rightarrow> bytes list" where
  "ref_targets db repo = List.map_filter (\<lambda>((r, _), row). if r = repo then rf_target row else None) (db_refs db)"

definition land_column :: "(land_row \<Rightarrow> 'b option) \<Rightarrow> 'a repo_db_scheme \<Rightarrow> i64 \<Rightarrow> 'b list" where
  "land_column f db repo = List.map_filter (\<lambda>((r, _, _), row). if r = repo then f row else None) (db_lands db)"

definition mapped_ids :: "'a repo_db_scheme \<Rightarrow> i64 \<Rightarrow> oid list" where
  "mapped_ids db repo = map snd (filter (\<lambda>((r, _), _). r = repo) (db_git_map db))"

definition gc_seed_changesets :: "'a repo_db_scheme \<Rightarrow> i64 \<Rightarrow> oid list" where
  "gc_seed_changesets db repo =
     ids32 (ref_targets db repo) @ ids32 (land_column la_head db repo @ land_column la_base db repo) @
     ids32 (mapped_ids db repo)"

definition gc_land_result_jsons :: "'a repo_db_scheme \<Rightarrow> i64 \<Rightarrow> bytes list" where
  "gc_land_result_jsons db repo = land_column la_result db repo"

text \<open>The rows of \<open>changeset_parents\<close> of a repository as edges from child to parent.\<close>

definition parent_edges :: "'a repo_db_scheme \<Rightarrow> i64 \<Rightarrow> (oid \<times> oid) list" where
  "parent_edges db repo =
     map (\<lambda>((_, c, _), p). (c, p)) (filter (\<lambda>((r, _, _), p). r = repo \<and> length p = 32) (db_parents db))"

definition gc_parent_ids :: "'a repo_db_scheme \<Rightarrow> i64 \<Rightarrow> oid list \<Rightarrow> oid list" where
  "gc_parent_ids db repo cs_ids = children (parent_edges db repo) cs_ids"

definition gc_all_changesets :: "'a repo_db_scheme \<Rightarrow> i64 \<Rightarrow> column_error + (oid \<times> oid option) list" where
  "gc_all_changesets db repo =
     rmap (\<lambda>r. case cr_root_tree r of
                  None \<Rightarrow> Inr (cr_id r, None)
                | Some b \<Rightarrow> rbind (id32 b) (\<lambda>i. Inr (cr_id r, Some i)))
       (filter (\<lambda>r. cr_repo r = repo) (db_changesets db))"

definition gc_file_change_blobs :: "'a repo_db_scheme \<Rightarrow> i64 \<Rightarrow> column_error + (oid \<times> oid) list" where
  "gc_file_change_blobs db repo =
     rmap (\<lambda>(c, b). rbind (id32 b) (\<lambda>i. Inr (c, i)))
       (List.map_filter (\<lambda>((r, c, _), row). if r = repo then map_option (Pair c) (ch_blob row) else None)
          (db_file_changes db))"

text \<open>The rows of \<open>tree_entries\<close> of one kind as edges from the tree to the object.\<close>

definition entry_edges :: "int \<Rightarrow> 'a tree_db_scheme \<Rightarrow> (oid \<times> bytes) list" where
  "entry_edges kind db =
     concat (map (\<lambda>(i, rows). List.map_filter (\<lambda>(_, e). if er_kind e = kind then Some (i, er_object e) else None) rows)
       (db_tree_entries db))"

definition gc_tree_children :: "'a tree_db_scheme \<Rightarrow> oid list \<Rightarrow> (int \<times> oid) list" where
  "gc_tree_children db ids =
     concat (map (\<lambda>(i, rows).
         if i \<in> set ids then
           List.map_filter (\<lambda>(_, e). if length (er_object e) = 32 then Some (er_kind e, er_object e) else None) rows
         else [])
       (db_tree_entries db))"

definition gc_snapshot_roots :: "'a repo_db_scheme \<Rightarrow> i64 \<Rightarrow> i64 \<Rightarrow> oid list" where
  "gc_snapshot_roots db repo now =
     map (sn_tree \<circ> snd) (filter (\<lambda>(_, s). sn_repo s = repo \<and> sn_expires s > now) (db_snapshots db))"

definition gc_conflict_rep_canonicals :: "'a repo_db_scheme \<Rightarrow> i64 \<Rightarrow> oid set \<Rightarrow> bytes list" where
  "gc_conflict_rep_canonicals db repo ids =
     map cr_canonical
       (filter (\<lambda>r. cr_repo r = repo \<and> take 17 (cr_canonical r) = MAGIC_V2 \<and> cr_id r \<in> ids) (db_changesets db))"

definition gc_all_object_ids :: "'a repo_db_scheme \<Rightarrow> oid list" where
  "gc_all_object_ids db = map fst (db_objects db)"

definition gc_all_tree_ids :: "'a tree_db_scheme \<Rightarrow> oid list" where
  "gc_all_tree_ids db = map fst (db_trees db)"

section \<open>The ledger\<close>

text \<open>A \<open>DELETE\<close>: the number of rows and the table without them.\<close>

definition delete_rows :: "('r \<Rightarrow> bool) \<Rightarrow> 'r list \<Rightarrow> nat \<times> 'r list" where
  "delete_rows P rows = (length (filter P rows), filter (\<lambda>r. \<not> P r) rows)"

fun gc_candidates_upsert ::
    "gc_scope \<Rightarrow> oid list \<Rightarrow> i64 \<Rightarrow> 'a repo_db_scheme \<Rightarrow> nat \<times> 'a repo_db_scheme" where
  "gc_candidates_upsert scope [] first db = (0, db)"
| "gc_candidates_upsert scope (i # ids) first db =
     (if om_get (db_gc_pending db) (scope, i) \<noteq> None then gc_candidates_upsert scope ids first db
      else map_prod Suc id (gc_candidates_upsert scope ids first
        (db\<lparr>db_gc_pending := om_insert (scope, i) \<lparr>gc_first = first, gc_condemned = None\<rparr> (db_gc_pending db)\<rparr>)))"

definition gc_candidates_delete ::
    "gc_scope \<Rightarrow> oid set \<Rightarrow> 'a repo_db_scheme \<Rightarrow> nat \<times> 'a repo_db_scheme" where
  "gc_candidates_delete scope ids db =
     (let (n, rows) = delete_rows (\<lambda>((s, i), _). s = scope \<and> i \<in> ids) (db_gc_pending db)
      in (n, db\<lparr>db_gc_pending := rows\<rparr>))"

definition gc_candidate_counts :: "'a repo_db_scheme \<Rightarrow> i64 \<Rightarrow> nat \<times> nat" where
  "gc_candidate_counts db cutoff =
     (length (db_gc_pending db), length (filter (\<lambda>(_, r). gc_first r \<le> cutoff) (db_gc_pending db)))"

definition gc_pending_ids :: "'a repo_db_scheme \<Rightarrow> gc_scope \<Rightarrow> oid list" where
  "gc_pending_ids db scope = map (snd \<circ> fst) (filter (\<lambda>((s, _), _). s = scope) (db_gc_pending db))"

text \<open>\<open>ORDER BY first_ns ASC, id ASC LIMIT\<close> over the rows of a scope.\<close>

definition ledger_page :: "gc_scope \<Rightarrow> (oid \<Rightarrow> gc_row \<Rightarrow> bool) \<Rightarrow> nat \<Rightarrow> 'a repo_db_scheme \<Rightarrow> oid list" where
  "ledger_page scope P limit db =
     take limit (map (snd \<circ> fst)
       (sort_key (\<lambda>((_, i), r). (gc_first r, i)) (filter (\<lambda>((s, i), r). s = scope \<and> P i r) (db_gc_pending db))))"

definition gc_cs_candidates :: "'a repo_db_scheme \<Rightarrow> i64 \<Rightarrow> nat \<Rightarrow> oid list" where
  "gc_cs_candidates db cutoff limit = ledger_page Gc_Cs (\<lambda>_ r. gc_first r \<le> cutoff) limit db"

definition touched_after :: "'a repo_db_scheme \<Rightarrow> i64 \<Rightarrow> oid \<Rightarrow> bool" where
  "touched_after db cutoff i = (case om_get (db_objects db) i of None \<Rightarrow> False | Some ob \<Rightarrow> ob_touched ob > cutoff)"

definition gc_blob_candidates :: "'a repo_db_scheme \<Rightarrow> i64 \<Rightarrow> nat \<Rightarrow> oid list" where
  "gc_blob_candidates db cutoff limit =
     ledger_page Gc_Blob (\<lambda>i r. gc_first r \<le> cutoff \<and> gc_condemned r = None \<and> \<not> touched_after db cutoff i) limit db"

definition gc_condemned_blob_candidates :: "'a repo_db_scheme \<Rightarrow> i64 \<Rightarrow> i64 \<Rightarrow> nat \<Rightarrow> oid list" where
  "gc_condemned_blob_candidates db now cutoff limit =
     ledger_page Gc_Blob
       (\<lambda>_ r. gc_first r \<le> cutoff \<and> (case gc_condemned r of None \<Rightarrow> False | Some t \<Rightarrow> t < now)) limit db"

definition gc_tree_candidates :: "'a repo_db_scheme \<Rightarrow> i64 \<Rightarrow> nat \<Rightarrow> oid list" where
  "gc_tree_candidates db cutoff limit = ledger_page Gc_Tree (\<lambda>_ r. gc_first r \<le> cutoff) limit db"

section \<open>The probes of a batch\<close>

text \<open>The four \<open>NOT EXISTS\<close> arms: a ref, a land, a git mapping or a child names the changeset.\<close>

definition cs_referenced :: "'a repo_db_scheme \<Rightarrow> oid \<Rightarrow> bool" where
  "cs_referenced db i \<longleftrightarrow>
     list_ex (\<lambda>(_, r). rf_target r = Some i) (db_refs db) \<or>
     list_ex (\<lambda>(_, l). la_head l = Some i \<or> la_base l = Some i) (db_lands db) \<or>
     list_ex (\<lambda>(_, c). c = i) (db_git_map db) \<or>
     list_ex (\<lambda>(_, p). p = i) (db_parents db)"

definition active_tombstone :: "bytes \<Rightarrow> redaction_row \<Rightarrow> bool" where
  "active_tombstone kind r \<longleftrightarrow> rd_kind r = kind \<and> rd_purged r = None"

definition tombstoned :: "'a repo_db_scheme \<Rightarrow> i64 \<Rightarrow> bytes \<Rightarrow> oid \<Rightarrow> bool" where
  "tombstoned db repo kind i \<longleftrightarrow>
     list_ex (\<lambda>((r, j), row). r = repo \<and> j = i \<and> active_tombstone kind row) (db_redactions db)"

definition gc_cs_collectible_probe :: "'a repo_db_scheme \<Rightarrow> i64 \<Rightarrow> oid list \<Rightarrow> (oid \<times> i64) list" where
  "gc_cs_collectible_probe db repo cands =
     map (\<lambda>c. (cr_id c, cr_generation c))
       (filter (\<lambda>c. cr_repo c = repo \<and> cr_id c \<in> set cands \<and> \<not> cs_referenced db (cr_id c) \<and>
                    \<not> tombstoned db repo (ascii ''changeset'') (cr_id c)) (db_changesets db))"

definition gc_cs_present_among :: "'a repo_db_scheme \<Rightarrow> i64 \<Rightarrow> oid list \<Rightarrow> oid list" where
  "gc_cs_present_among db repo cands =
     map cr_id (filter (\<lambda>c. cr_repo c = repo \<and> cr_id c \<in> set cands) (db_changesets db))"

text \<open>\<open>COALESCE(?1, repo_id)\<close>: one repository, or all rows of the file.\<close>

definition gc_tombstoned_among :: "'a repo_db_scheme \<Rightarrow> i64 option \<Rightarrow> bytes \<Rightarrow> oid list \<Rightarrow> oid list" where
  "gc_tombstoned_among db repo kind ids =
     map (snd \<circ> fst)
       (filter (\<lambda>((r, i), row). (repo = None \<or> repo = Some r) \<and> active_tombstone kind row \<and> i \<in> set ids)
          (db_redactions db))"

definition blob_referenced :: "'a repo_db_scheme \<Rightarrow> oid \<Rightarrow> bool" where
  "blob_referenced db i \<longleftrightarrow>
     list_ex (\<lambda>(_, c). ch_blob c = Some i) (db_file_changes db) \<or> i \<in> snd ` set (entry_edges 0 db)"

definition gc_blob_referenced_among :: "'a repo_db_scheme \<Rightarrow> oid list \<Rightarrow> oid list" where
  "gc_blob_referenced_among db ids = filter (blob_referenced db) ids"

text \<open>The recursive \<open>live\<close> set: every surviving root, every unexpired snapshot, and the trees below.\<close>

definition live_roots :: "'a repo_db_scheme \<Rightarrow> i64 \<Rightarrow> bytes list" where
  "live_roots db now =
     List.map_filter cr_root_tree (db_changesets db) @
     map (sn_tree \<circ> snd) (filter (\<lambda>(_, s). sn_expires s > now) (db_snapshots db))"

definition live_trees :: "'a repo_db_scheme \<Rightarrow> i64 \<Rightarrow> bytes set" where
  "live_trees db now = closure (entry_edges 1 db) (live_roots db now)"

definition gc_tree_protected_among :: "'a repo_db_scheme \<Rightarrow> oid list \<Rightarrow> i64 \<Rightarrow> oid list" where
  "gc_tree_protected_among db cands now =
     filter (\<lambda>i. i \<in> live_trees db now \<and> tree_row db i \<noteq> None) cands"

section \<open>Condemning and collecting\<close>

definition gc_condemn_blobs :: "oid list \<Rightarrow> i64 \<Rightarrow> 'a repo_db_scheme \<Rightarrow> nat \<times> 'a repo_db_scheme" where
  "gc_condemn_blobs ids stamp db =
     (length (filter (\<lambda>((s, i), _). s = Gc_Blob \<and> i \<in> set ids) (db_gc_pending db)),
      db\<lparr>db_gc_pending := map (\<lambda>((s, i), r). ((s, i),
           if s = Gc_Blob \<and> i \<in> set ids then r\<lparr>gc_condemned := Some stamp\<rparr> else r)) (db_gc_pending db)\<rparr>)"

definition gc_collect_cs_repo :: "oid list \<Rightarrow> 'a repo_db_scheme \<Rightarrow> nat \<times> 'a repo_db_scheme" where
  "gc_collect_cs_repo ids db =
     (let (n, rows) = delete_rows (\<lambda>r. cr_id r \<in> set ids) (db_changesets db)
      in (n, db\<lparr>db_changesets := rows,
                db_parents := filter (\<lambda>((_, c, _), _). c \<notin> set ids) (db_parents db),
                db_file_changes := filter (\<lambda>((_, c, _), _). c \<notin> set ids) (db_file_changes db),
                db_derive := filter (\<lambda>r. dr_cs r \<notin> set ids) (db_derive db),
                db_reports := filter (\<lambda>r. rp_cs r \<notin> set ids) (db_reports db),
                db_blame := filter (\<lambda>((_, c, _), _). c \<notin> set ids) (db_blame db),
                db_path_history := filter (\<lambda>((_, _, _, c), _). c \<notin> set ids) (db_path_history db)\<rparr>))"

text \<open>The row count of the next two is not read by any caller.\<close>

definition gc_collect_blobs_repo :: "oid list \<Rightarrow> 'a repo_db_scheme \<Rightarrow> 'a repo_db_scheme" where
  "gc_collect_blobs_repo ids db = db\<lparr>db_repo_blobs := Set.filter (\<lambda>(_, i). i \<notin> set ids) (db_repo_blobs db)\<rparr>"

definition gc_collect_blobs_catalog :: "oid list \<Rightarrow> 'a repo_db_scheme \<Rightarrow> 'a repo_db_scheme" where
  "gc_collect_blobs_catalog ids db =
     db\<lparr>db_objects := filter (\<lambda>(i, _). i \<notin> set ids) (db_objects db),
        db_gc_pending := filter (\<lambda>((s, i), _). \<not> (s = Gc_Blob \<and> i \<in> set ids)) (db_gc_pending db)\<rparr>"

definition gc_collect_trees_repo :: "oid list \<Rightarrow> 'a repo_db_scheme \<Rightarrow> 'a repo_db_scheme" where
  "gc_collect_trees_repo ids db =
     db\<lparr>db_tree_entries := filter (\<lambda>(i, _). i \<notin> set ids) (db_tree_entries db),
        db_repo_trees := Set.filter (\<lambda>(_, i). i \<notin> set ids) (db_repo_trees db),
        db_trees := filter (\<lambda>(i, _). i \<notin> set ids) (db_trees db)\<rparr>"

section \<open>The statements of the redaction purge\<close>

definition redact_purgeable_cs_repo :: "'a repo_db_scheme \<Rightarrow> i64 \<Rightarrow> nat \<Rightarrow> oid list" where
  "redact_purgeable_cs_repo db repo limit =
     take limit (map cr_id
       (sort_key (\<lambda>c. (cr_generation c, cr_id c))
         (filter (\<lambda>c. tombstoned db repo (ascii ''changeset'') (cr_id c) \<and> \<not> cs_referenced db (cr_id c))
           (db_changesets db))))"

text \<open>The primary key leaves one row for each id of a repository, so the \<open>GROUP BY\<close> groups single rows.\<close>

definition redact_blob_tombstones_repo :: "'a repo_db_scheme \<Rightarrow> i64 \<Rightarrow> nat \<Rightarrow> (oid \<times> i64) list" where
  "redact_blob_tombstones_repo db repo limit =
     take limit (sort_key (\<lambda>(i, t). (t, i))
       (map (\<lambda>((_, i), row). (i, rd_marked row))
         (filter (\<lambda>((r, _), row). r = repo \<and> active_tombstone (ascii ''blob'') row) (db_redactions db))))"

definition blobs_touched_after :: "'a repo_db_scheme \<Rightarrow> oid list \<Rightarrow> i64 \<Rightarrow> oid list" where
  "blobs_touched_after db ids cutoff = filter (touched_after db cutoff) ids"

definition file_change_blobs_of_cs :: "'a repo_db_scheme \<Rightarrow> oid list \<Rightarrow> oid list" where
  "file_change_blobs_of_cs db ids =
     ids32 (remdups (List.map_filter (\<lambda>((_, c, _), row). if c \<in> set ids then ch_blob row else None) (db_file_changes db)))"

definition redaction_stamp_purged :: "bytes \<Rightarrow> oid \<Rightarrow> i64 \<Rightarrow> 'a repo_db_scheme \<Rightarrow> 'a repo_db_scheme" where
  "redaction_stamp_purged kind i now db =
     db\<lparr>db_redactions := map (\<lambda>((r, j), row). ((r, j),
          if j = i \<and> active_tombstone kind row then row\<lparr>rd_purged := Some now\<rparr> else row)) (db_redactions db)\<rparr>"

definition redactions_active_exist_repo :: "'a repo_db_scheme \<Rightarrow> bool" where
  "redactions_active_exist_repo db \<longleftrightarrow> list_ex (\<lambda>(_, row). rd_purged row = None) (db_redactions db)"

end
