(* ===== verification/Gc.thy ===== *)
theory Gc
  imports Gc_Db Land
begin

text \<open>
  The collector (\<open>crates/naatre-server/src/gc.rs\<close>): the mark over the primary tables, the ledger of
  unreachable data, the collection of changesets, blobs (in two phases) and trees, and the redaction purge;
  with the coordinated write batch of \<open>router.rs\<close> they run in.

  A world has the catalog, the files of the repositories (none in single mode, where the catalog connection
  is every repository's) and the blob store. Other requests run between two accesses of the pass:
  \<open>ge_others\<close> says what they have committed before the \<open>n\<close>-th access, \<open>ge_cat_busy\<close> and \<open>ge_repo_busy\<close> whether
  the catalog's or a repository's write slot is taken then. A batch runs alone (\<open>write_all\<close> holds every slot).
  The blob store is a trait object, its operations are fields of \<open>gc_env\<close>; so are the JSON parser and printer and
  the clock.

  A loop over batches need not end while others add candidates: \<open>None\<close> is a pass that does not return. The
  iteration order of a \<open>HashSet\<close> is one order of its elements. The debug crash points and the test pause are
  not modelled.
\<close>

section \<open>The world and its accesses\<close>

datatype gc_error = Gc_Internal | Gc_Writer_Busy

record 's gc_world =
  gw_cat :: repo_db
  gw_split :: bool
  gw_files :: "(i64, repo_db) omap"
  gw_cas :: 's
  gw_tick :: nat

record 's gc_env =
  ge_others :: "nat \<Rightarrow> 's gc_world \<Rightarrow> 's gc_world"
  ge_cat_busy :: "nat \<Rightarrow> bool"
  ge_repo_busy :: "nat \<Rightarrow> bool"
  ge_clock :: "nat \<Rightarrow> u64"
  ge_grace_ns :: nat
  ge_ids :: "'s \<Rightarrow> bytes + oid list"
  ge_delete :: "oid list \<Rightarrow> 's \<Rightarrow> (bytes + unit) \<times> 's"
  ge_parse :: "bytes \<Rightarrow> json option"
  ge_print :: "json \<Rightarrow> bytes"

definition GC_BATCH_ROWS :: nat where "GC_BATCH_ROWS = 10000"
definition GC_BATCH_BLOBS :: nat where "GC_BATCH_BLOBS = 256"

text \<open>\<open>i64::saturating_sub\<close>.\<close>

definition i64_saturating_sub :: "i64 \<Rightarrow> i64 \<Rightarrow> i64" where
  "i64_saturating_sub a b = max (- (2 ^ 63)) (min (2 ^ 63 - 1) (a - b))"

definition gc_now :: "'s gc_env \<Rightarrow> 's gc_world \<Rightarrow> i64" where
  "gc_now env w = as_i64 (ge_clock env (gw_tick w))"

definition gc_cutoff :: "'s gc_env \<Rightarrow> i64 \<Rightarrow> i64" where
  "gc_cutoff env now = i64_saturating_sub now (as_i64 (of_nat (ge_grace_ns env)))"

text \<open>One access: the other requests commit what they commit before it.\<close>

definition arrive :: "'s gc_env \<Rightarrow> 's gc_world \<Rightarrow> 's gc_world" where
  "arrive env w = (ge_others env (gw_tick w) w)\<lparr>gw_tick := gw_tick w + 1\<rparr>"

type_synonym ('a, 's) gc_run = "'s gc_world \<Rightarrow> (gc_error + 'a) \<times> 's gc_world"

definition gc_read :: "'s gc_env \<Rightarrow> ('s gc_world \<Rightarrow> gc_error + 'a) \<Rightarrow> ('a, 's) gc_run" where
  "gc_read env f w = (let w = arrive env w in (f w, w))"

text \<open>\<open>state.write\<close>: the catalog slot.\<close>

definition gc_write :: "'s gc_env \<Rightarrow> (repo_db \<Rightarrow> 'a \<times> repo_db) \<Rightarrow> ('a, 's) gc_run" where
  "gc_write env f w0 =
     (let w = arrive env w0 in
      if ge_cat_busy env (gw_tick w0) then (Inl Gc_Writer_Busy, w)
      else (let (a, cat) = f (gw_cat w) in (Inr a, w\<lparr>gw_cat := cat\<rparr>)))"

text \<open>\<open>AllCx\<close>: the registry's repositories, and the connection each is routed to.\<close>

definition repo_ids :: "'s gc_world \<Rightarrow> i64 list" where
  "repo_ids w = gc_repos (gw_cat w)"

definition is_single :: "'s gc_world \<Rightarrow> bool" where
  "is_single w \<longleftrightarrow> \<not> gw_split w \<or> repo_ids w = []"

definition has_file :: "'s gc_world \<Rightarrow> i64 \<Rightarrow> bool" where
  "has_file w r \<longleftrightarrow> gw_split w \<and> om_get (gw_files w) r \<noteq> None"

definition conn :: "'s gc_world \<Rightarrow> i64 \<Rightarrow> repo_db" where
  "conn w r = (if has_file w r then the (om_get (gw_files w) r) else gw_cat w)"

definition on_conn :: "i64 \<Rightarrow> (repo_db \<Rightarrow> repo_db) \<Rightarrow> 's gc_world \<Rightarrow> 's gc_world" where
  "on_conn r f w =
     (if has_file w r then w\<lparr>gw_files := om_insert r (f (conn w r)) (gw_files w)\<rparr>
      else w\<lparr>gw_cat := f (gw_cat w)\<rparr>)"

definition on_catalog :: "(repo_db \<Rightarrow> repo_db) \<Rightarrow> 's gc_world \<Rightarrow> 's gc_world" where
  "on_catalog f w = w\<lparr>gw_cat := f (gw_cat w)\<rparr>"

definition each_repo :: "(i64 \<Rightarrow> repo_db \<Rightarrow> repo_db) \<Rightarrow> 's gc_world \<Rightarrow> 's gc_world" where
  "each_repo f w = fold (\<lambda>r. on_conn r (f r)) (repo_ids w) w"

text \<open>\<open>with_all\<close>: every slot, or nothing; a registered repository whose file is missing is an error.\<close>

definition write_all :: "'s gc_env \<Rightarrow> ('a, 's) gc_run \<Rightarrow> ('a, 's) gc_run" where
  "write_all env f w0 =
     (let w = arrive env w0 in
      if ge_cat_busy env (gw_tick w0) then (Inl Gc_Writer_Busy, w)
      else if gw_split w \<and> list_ex (\<lambda>r. om_get (gw_files w) r = None) (repo_ids w) then (Inl Gc_Internal, w)
      else if gw_split w \<and> repo_ids w \<noteq> [] \<and> ge_repo_busy env (gw_tick w0) then (Inl Gc_Writer_Busy, w)
      else f w)"

text \<open>\<open>ReadCx::with_repo\<close>.\<close>

definition read_conn :: "'s gc_world \<Rightarrow> i64 \<Rightarrow> gc_error + repo_db" where
  "read_conn w r =
     (if gw_split w then ok_or (om_get (gw_files w) r) Gc_Internal else Inr (gw_cat w))"

text \<open>A probe that runs once over the one database; a split catalog has no such tables.\<close>

definition whole_probe :: "(repo_db \<Rightarrow> 'b) \<Rightarrow> 's gc_world \<Rightarrow> gc_error + 'b" where
  "whole_probe f w = (if gw_split w then Inl Gc_Internal else Inr (f (gw_cat w)))"

definition gc_bind :: "('a, 's) gc_run \<Rightarrow> ('a \<Rightarrow> ('b, 's) gc_run) \<Rightarrow> ('b, 's) gc_run" where
  "gc_bind m f w = (case m w of (Inl e, w) \<Rightarrow> (Inl e, w) | (Inr a, w) \<Rightarrow> f a w)"

definition gc_return :: "'a \<Rightarrow> ('a, 's) gc_run" where
  "gc_return a w = (Inr a, w)"

section \<open>The mark\<close>

record gc_mark =
  mk_cs :: "oid set"
  mk_blobs :: "oid set"
  mk_trees :: "oid set"

definition landed_ids :: "(bytes \<Rightarrow> json option) \<Rightarrow> bytes list \<Rightarrow> oid list" where
  "landed_ids parse results =
     List.map_filter (\<lambda>t. Option.bind (parse t) (\<lambda>v. Option.bind (as_str (json_get v (ascii ''landed''))) from_hex))
       results"

text \<open>The tree closure: directories go on, everything else is a blob of a protected tree.\<close>

definition dir_edges :: "'a tree_db_scheme \<Rightarrow> (oid \<times> oid) list" where
  "dir_edges db = filter (\<lambda>(_, j). length j = 32) (entry_edges 1 db)"

definition tree_blob_ids :: "'a tree_db_scheme \<Rightarrow> oid set \<Rightarrow> oid list" where
  "tree_blob_ids db trees =
     concat (map (\<lambda>(i, rows).
         if i \<in> trees then
           List.map_filter (\<lambda>(_, e). if length (er_object e) = 32 \<and> er_kind e \<noteq> 1 then Some (er_object e) else None) rows
         else [])
       (db_tree_entries db))"

definition mark_repo :: "(bytes \<Rightarrow> json option) \<Rightarrow> repo_db \<Rightarrow> i64 \<Rightarrow> i64 \<Rightarrow> gc_error + gc_mark" where
  "mark_repo parse db repo now =
     (let seeds = gc_seed_changesets db repo @ landed_ids parse (gc_land_result_jsons db repo);
          cs = closure (parent_edges db repo) seeds in
      rbind (map_err (\<lambda>_. Gc_Internal) (gc_file_change_blobs db repo)) (\<lambda>rows.
      rbind (rmap (\<lambda>c. map_err (\<lambda>_. Gc_Internal) (changeset_decode c)) (gc_conflict_rep_canonicals db repo cs)) (\<lambda>framed.
      rbind (map_err (\<lambda>_. Gc_Internal) (gc_all_changesets db repo)) (\<lambda>all.
        let blobs = map snd (filter (\<lambda>(c, _). c \<in> cs) rows);
            rep_blobs = concat (map (\<lambda>c. concat (map rep_ids (cs_conflicts c))) framed);
            roots = List.map_filter snd (filter (\<lambda>(i, _). i \<in> cs) all) @ gc_snapshot_roots db repo now;
            trees = closure (dir_edges db) roots
        in Inr \<lparr>mk_cs = cs, mk_blobs = set blobs \<union> set rep_blobs \<union> set (tree_blob_ids db trees),
                mk_trees = trees\<rparr>))))"

fun mark_repos ::
    "(bytes \<Rightarrow> json option) \<Rightarrow> 's gc_world \<Rightarrow> i64 \<Rightarrow> i64 list \<Rightarrow> gc_mark \<Rightarrow> gc_error + gc_mark" where
  "mark_repos parse w now [] m = Inr m"
| "mark_repos parse w now (r # rs) m =
     rbind (read_conn w r) (\<lambda>db.
     rbind (mark_repo parse db r now) (\<lambda>n.
       mark_repos parse w now rs
         \<lparr>mk_cs = mk_cs m \<union> mk_cs n, mk_blobs = mk_blobs m \<union> mk_blobs n, mk_trees = mk_trees m \<union> mk_trees n\<rparr>))"

definition empty_mark :: gc_mark where
  "empty_mark = \<lparr>mk_cs = {}, mk_blobs = {}, mk_trees = {}\<rparr>"

definition gc_marks :: "(bytes \<Rightarrow> json option) \<Rightarrow> 's gc_world \<Rightarrow> i64 \<Rightarrow> gc_error + gc_mark" where
  "gc_marks parse w now = mark_repos parse w now (repo_ids w) empty_mark"

definition mark_reachable :: "gc_mark \<Rightarrow> gc_scope \<Rightarrow> oid \<Rightarrow> bool" where
  "mark_reachable m scope i \<longleftrightarrow>
     i \<in> (case scope of Gc_Cs \<Rightarrow> mk_cs m | Gc_Blob \<Rightarrow> mk_blobs m | Gc_Tree \<Rightarrow> mk_trees m)"

text \<open>A value of each repository, in the order of the registry.\<close>

definition gather :: "(repo_db \<Rightarrow> i64 \<Rightarrow> gc_error + 'b list) \<Rightarrow> 's gc_world \<Rightarrow> gc_error + 'b list" where
  "gather f w = rbind (rmap (\<lambda>r. rbind (read_conn w r) (\<lambda>db. f db r)) (repo_ids w)) (\<lambda>xs. Inr (concat xs))"

definition landed_everywhere :: "(bytes \<Rightarrow> json option) \<Rightarrow> 's gc_world \<Rightarrow> gc_error + oid list" where
  "landed_everywhere parse = gather (\<lambda>db r. Inr (landed_ids parse (gc_land_result_jsons db r)))"

section \<open>Probes over the repositories\<close>

definition subtract_blob_probes :: "'s gc_world \<Rightarrow> oid list \<Rightarrow> gc_error + oid list" where
  "subtract_blob_probes w cands =
     rbind (if is_single w then
              whole_probe (\<lambda>db. gc_blob_referenced_among db cands @ gc_tombstoned_among db None (ascii ''blob'') cands) w
            else Inr (concat (map (\<lambda>r. gc_blob_referenced_among (conn w r) cands @
                                       gc_tombstoned_among (conn w r) (Some r) (ascii ''blob'') cands) (repo_ids w))))
       (\<lambda>spared. Inr (filter (\<lambda>i. i \<notin> set spared) cands))"

text \<open>An empty list has no chunk, so no statement runs.\<close>

definition referenced_anywhere :: "'s gc_world \<Rightarrow> oid list \<Rightarrow> gc_error + oid list" where
  "referenced_anywhere w ids =
     (if ids = [] then Inr []
      else if is_single w then whole_probe (\<lambda>db. gc_blob_referenced_among db ids) w
      else Inr (concat (map (\<lambda>r. gc_blob_referenced_among (conn w r) ids) (repo_ids w))))"

definition exclusively_unreferenced :: "'s gc_world \<Rightarrow> oid list \<Rightarrow> i64 \<Rightarrow> gc_error + oid list" where
  "exclusively_unreferenced w blobs cutoff =
     rbind (referenced_anywhere w blobs) (\<lambda>referenced.
       Inr (filter (\<lambda>i. i \<notin> set (blobs_touched_after (gw_cat w) blobs cutoff) \<and> i \<notin> set referenced) blobs))"

section \<open>The batches of the sweep\<close>

definition delete_bytes :: "'s gc_env \<Rightarrow> oid list \<Rightarrow> (unit, 's) gc_run" where
  "delete_bytes env ids w =
     (let (r, cas) = ge_delete env ids (gw_cas w) in (map_err (\<lambda>_. Gc_Internal) r, w\<lparr>gw_cas := cas\<rparr>))"

definition delete_candidates :: "gc_scope \<Rightarrow> oid list \<Rightarrow> 's gc_world \<Rightarrow> 's gc_world" where
  "delete_candidates scope ids = on_catalog (\<lambda>db. snd (gc_candidates_delete scope (set ids) db))"

text \<open>The rows of one repository's share of the batch; the sum of the rows it held.\<close>

fun collect_cs_repos :: "(i64 \<times> oid list) list \<Rightarrow> nat \<Rightarrow> 's gc_world \<Rightarrow> nat \<times> 's gc_world" where
  "collect_cs_repos [] n w = (n, w)"
| "collect_cs_repos ((r, mine) # rest) n w =
     (if mine = [] then collect_cs_repos rest n w
      else collect_cs_repos rest (n + fst (gc_collect_cs_repo mine (conn w r)))
             (on_conn r (\<lambda>db. snd (gc_collect_cs_repo mine db)) w))"

definition cs_batch :: "i64 \<Rightarrow> oid list \<Rightarrow> (nat \<times> nat, 's) gc_run" where
  "cs_batch cutoff landed w =
     (let cands = gc_cs_candidates (gw_cat w) cutoff GC_BATCH_ROWS;
          raw_len = length cands in
      if cands = [] then (Inr (0, raw_len), w)
      else
        let collectible = map (\<lambda>r. (r, gc_cs_collectible_probe (conn w r) r cands)) (repo_ids w);
            present = concat (map (\<lambda>r. gc_cs_present_among (conn w r) r cands) (repo_ids w));
            phantoms = filter (\<lambda>i. i \<notin> set present) cands;
            w = (if phantoms = [] then w else delete_candidates Gc_Cs phantoms w);
            merged = sort_key (\<lambda>(i, g). (g, i)) (concat (map snd collectible));
            batch = take GC_BATCH_ROWS (filter (\<lambda>i. i \<notin> set landed) (map fst merged)) in
        if batch = [] then (Inr (0, raw_len), w)
        else
          let shares = map (\<lambda>(r, rows). (r, filter (\<lambda>i. i \<in> set batch) (map fst rows))) collectible;
              (collected, w) = collect_cs_repos shares 0 w
          in (Inr (collected, raw_len), delete_candidates Gc_Cs batch w))"

definition condemn_batch :: "i64 \<Rightarrow> i64 \<Rightarrow> (nat, 's) gc_run" where
  "condemn_batch now cutoff w =
     (let cands = gc_blob_candidates (gw_cat w) cutoff GC_BATCH_BLOBS in
      if cands = [] then (Inr 0, w)
      else case subtract_blob_probes w cands of
             Inl e \<Rightarrow> (Inl e, w)
           | Inr batch \<Rightarrow>
               if batch = [] then (Inr 0, w)
               else (Inr (fst (gc_condemn_blobs batch now (gw_cat w))),
                     on_catalog (\<lambda>db. snd (gc_condemn_blobs batch now db)) w))"

definition blob_rows_gone :: "oid list \<Rightarrow> 's gc_world \<Rightarrow> 's gc_world" where
  "blob_rows_gone batch w =
     on_catalog (gc_collect_blobs_catalog batch) (each_repo (\<lambda>_. gc_collect_blobs_repo batch) w)"

definition blob_batch :: "'s gc_env \<Rightarrow> i64 \<Rightarrow> i64 \<Rightarrow> (oid list, 's) gc_run" where
  "blob_batch env now cutoff w =
     (let cands = gc_condemned_blob_candidates (gw_cat w) now cutoff GC_BATCH_BLOBS in
      if cands = [] then (Inr [], w)
      else case subtract_blob_probes w cands of
             Inl e \<Rightarrow> (Inl e, w)
           | Inr batch \<Rightarrow>
               if batch = [] then (Inr [], w)
               else gc_bind (delete_bytes env batch) (\<lambda>_ w. (Inr batch, blob_rows_gone batch w)) w)"

definition protected_trees :: "'s gc_world \<Rightarrow> oid list \<Rightarrow> i64 \<Rightarrow> gc_error + oid list" where
  "protected_trees w cands now =
     (if cands = [] then Inr []
      else if is_single w then whole_probe (\<lambda>db. gc_tree_protected_among db cands now) w
      else Inr (concat (map (\<lambda>r. gc_tree_protected_among (conn w r) cands now) (repo_ids w))))"

definition gc_details :: "nat \<Rightarrow> nat \<Rightarrow> nat \<Rightarrow> int \<Rightarrow> json" where
  "gc_details cs blobs trees grace =
     JObj [(ascii ''cs'', JNum (int cs)), (ascii ''blobs'', JNum (int blobs)), (ascii ''trees'', JNum (int trees)),
           (ascii ''grace_secs'', JNum grace)]"

definition tree_batch :: "'s gc_env \<Rightarrow> i64 \<Rightarrow> i64 \<Rightarrow> nat \<Rightarrow> nat \<Rightarrow> nat \<Rightarrow> (nat, 's) gc_run" where
  "tree_batch env now cutoff cs blobs trees_so_far w =
     (let cands = gc_tree_candidates (gw_cat w) cutoff GC_BATCH_ROWS in
      case protected_trees w cands now of
        Inl e \<Rightarrow> (Inl e, w)
      | Inr protected \<Rightarrow>
          let batch = take GC_BATCH_ROWS (filter (\<lambda>i. i \<notin> set protected) cands);
              w = (if batch = [] then w else each_repo (\<lambda>_. gc_collect_trees_repo batch) w);
              w = delete_candidates Gc_Tree batch w;
              w = (if cs + blobs + trees_so_far + length batch > 0 \<and> length batch < GC_BATCH_ROWS then
                     on_catalog (audit_append now (ascii ''system'') (ascii ''gc'')
                       (ge_print env (gc_details cs blobs (trees_so_far + length batch) (int (ge_grace_ns env) div 10 ^ 9)))) w
                   else w)
          in (Inr (length batch), w))"

section \<open>Loops over batches\<close>

text \<open>\<open>loop { \<dots>; if \<dots> { break; } }\<close>: a step says whether to go on, and the counters so far.\<close>

partial_function (option) batches ::
    "('a \<Rightarrow> ('a \<times> bool, 's) gc_run) \<Rightarrow> 'a \<Rightarrow> 's gc_world \<Rightarrow> ((gc_error + 'a) \<times> 's gc_world) option" where
  "batches step a w =
     (case step a w of
        (Inl e, w) \<Rightarrow> Some (Inl e, w)
      | (Inr (a, go_on), w) \<Rightarrow> if go_on then batches step a w else Some (Inr a, w))"

declare batches.simps [code]

text \<open>For evaluation of a loop that ends after one batch.\<close>

lemma batches_once:
  "(case step a w of (Inr (_, True), _) \<Rightarrow> False | _ \<Rightarrow> True) \<Longrightarrow>
     batches step a w = Some (case step a w of (Inl e, w) \<Rightarrow> (Inl e, w) | (Inr (a, _), w) \<Rightarrow> (Inr a, w))"
  by (subst batches.simps) (auto split: prod.splits sum.splits if_splits)

definition then_run ::
    "((gc_error + 'a) \<times> 's gc_world) option \<Rightarrow> ('a \<Rightarrow> 's gc_world \<Rightarrow> ((gc_error + 'b) \<times> 's gc_world) option) \<Rightarrow>
     ((gc_error + 'b) \<times> 's gc_world) option" where
  "then_run m f =
     (case m of None \<Rightarrow> None | Some (Inl e, w) \<Rightarrow> Some (Inl e, w) | Some (Inr a, w) \<Rightarrow> f a w)"

text \<open>The iterations of the four collection loops, with their loop guards.\<close>

definition cs_step :: "'s gc_env \<Rightarrow> i64 \<Rightarrow> oid list \<Rightarrow> nat \<Rightarrow> (nat \<times> bool, 's) gc_run" where
  "cs_step env cutoff landed n =
     gc_bind (write_all env (cs_batch cutoff landed)) (\<lambda>(collected, raw_len).
       gc_return (n + collected, collected \<noteq> 0 \<and> \<not> raw_len < GC_BATCH_ROWS))"

definition condemn_step :: "'s gc_env \<Rightarrow> i64 \<Rightarrow> i64 \<Rightarrow> nat \<Rightarrow> (nat \<times> bool, 's) gc_run" where
  "condemn_step env now cutoff n =
     gc_bind (write_all env (condemn_batch now cutoff)) (\<lambda>stamped.
       gc_return (n + stamped, \<not> (stamped = 0 \<or> stamped < GC_BATCH_BLOBS)))"

definition blob_step :: "'s gc_env \<Rightarrow> i64 \<Rightarrow> i64 \<Rightarrow> nat \<Rightarrow> (nat \<times> bool, 's) gc_run" where
  "blob_step env now cutoff n =
     gc_bind (write_all env (blob_batch env now cutoff)) (\<lambda>batch.
       gc_return (n + length batch, \<not> length batch < GC_BATCH_BLOBS))"

definition tree_step :: "'s gc_env \<Rightarrow> i64 \<Rightarrow> i64 \<Rightarrow> nat \<Rightarrow> nat \<Rightarrow> nat \<Rightarrow> (nat \<times> bool, 's) gc_run" where
  "tree_step env now cutoff cs blobs n =
     gc_bind (write_all env (tree_batch env now cutoff cs blobs n)) (\<lambda>collected.
       gc_return (n + collected, \<not> collected < GC_BATCH_ROWS))"

section \<open>The ledger update\<close>

fun chunks :: "nat \<Rightarrow> 'b list \<Rightarrow> 'b list list" where
  "chunks n [] = []"
| "chunks n (x # xs) = (if n = 0 then [x # xs] else take n (x # xs) # chunks n (drop n (x # xs)))"

text \<open>One write for each chunk of ids of each scope; the sum of the rows.\<close>

fun ledger_writes ::
    "'s gc_env \<Rightarrow> (gc_scope \<Rightarrow> oid list \<Rightarrow> repo_db \<Rightarrow> nat \<times> repo_db) \<Rightarrow> (gc_scope \<times> oid list) list \<Rightarrow> nat \<Rightarrow>
     (nat, 's) gc_run" where
  "ledger_writes env f [] n w = (Inr n, w)"
| "ledger_writes env f ((scope, ids) # rest) n w =
     (case gc_write env (f scope ids) w of
        (Inl e, w) \<Rightarrow> (Inl e, w)
      | (Inr k, w) \<Rightarrow> ledger_writes env f rest (n + k) w)"

definition scope_chunks :: "(gc_scope \<times> oid list) list \<Rightarrow> (gc_scope \<times> oid list) list" where
  "scope_chunks ss = concat (map (\<lambda>(scope, ids). map (Pair scope) (chunks GC_BATCH_ROWS ids)) ss)"

text \<open>\<open>diff\<close>: the elements not in the set.\<close>

definition diff :: "oid list \<Rightarrow> oid set \<Rightarrow> oid list" where
  "diff a b = filter (\<lambda>i. i \<notin> b) a"

record gc_report =
  gr_candidates_new :: nat
  gr_candidates_repaired :: nat
  gr_cs_collected :: nat
  gr_blobs_collected :: nat
  gr_blobs_condemned :: nat
  gr_trees_collected :: nat
  gr_redactions_purged_cs :: nat
  gr_redactions_purged_blobs :: nat

definition collected_any :: "gc_report \<Rightarrow> bool" where
  "collected_any r \<longleftrightarrow> gr_cs_collected r > 0 \<or> gr_blobs_collected r > 0 \<or> gr_trees_collected r > 0"

text \<open>Steps 1 to 3: the mark, the blob universe, and both directions of the ledger; the two counts.\<close>

definition gc_ledger :: "'s gc_env \<Rightarrow> i64 \<Rightarrow> (nat \<times> nat, 's) gc_run" where
  "gc_ledger env now =
     gc_bind (gc_read env (\<lambda>w. gc_marks (ge_parse env) w now)) (\<lambda>m.
     gc_bind (gc_read env (\<lambda>w. Inr (gc_all_object_ids (gw_cat w)))) (\<lambda>rows.
     gc_bind (gc_read env (\<lambda>w. map_err (\<lambda>_. Gc_Internal) (ge_ids env (gw_cas w)))) (\<lambda>cas_ids.
     gc_bind (gc_read env (gather (\<lambda>db r. rbind (map_err (\<lambda>_. Gc_Internal) (gc_all_changesets db r))
                                             (\<lambda>all. Inr (map fst all))))) (\<lambda>all_cs.
     gc_bind (gc_read env (gather (\<lambda>db _. Inr (gc_all_tree_ids db)))) (\<lambda>all_trees.
     gc_bind (ledger_writes env (\<lambda>scope ids. gc_candidates_upsert scope ids now)
                (scope_chunks [(Gc_Cs, diff all_cs (mk_cs m)), (Gc_Blob, diff (remdups (rows @ cas_ids)) (mk_blobs m)),
                               (Gc_Tree, diff all_trees (mk_trees m))]) 0) (\<lambda>fresh.
     gc_bind (ledger_writes env (\<lambda>scope ids. gc_candidates_delete scope (set ids))
                (scope_chunks [(Gc_Cs, sorted_list_of_set (mk_cs m)), (Gc_Blob, sorted_list_of_set (mk_blobs m)),
                               (Gc_Tree, sorted_list_of_set (mk_trees m))]) 0) (\<lambda>repaired.
       gc_return (fresh, repaired))))))))"

section \<open>The sweep\<close>

text \<open>Steps 1 to 5 of \<open>gc_pass\<close>.\<close>

definition gc_sweep :: "'s gc_env \<Rightarrow> 's gc_world \<Rightarrow> ((gc_error + gc_report) \<times> 's gc_world) option" where
  "gc_sweep env w =
     (let now = gc_now env w; cutoff = gc_cutoff env now in
      then_run (Some (gc_ledger env now w)) (\<lambda>(fresh, repaired) w.
      then_run (Some (gc_read env (landed_everywhere (ge_parse env)) w)) (\<lambda>landed w.
      then_run (batches (cs_step env cutoff landed) 0 w) (\<lambda>cs w.
      then_run (batches (condemn_step env now cutoff) 0 w) (\<lambda>condemned w.
      then_run (batches (blob_step env now cutoff) 0 w) (\<lambda>blobs w.
      then_run (batches (tree_step env now cutoff cs blobs) 0 w) (\<lambda>trees w.
        Some (Inr \<lparr>gr_candidates_new = fresh, gr_candidates_repaired = repaired, gr_cs_collected = cs,
                   gr_blobs_collected = blobs, gr_blobs_condemned = condemned, gr_trees_collected = trees,
                   gr_redactions_purged_cs = 0, gr_redactions_purged_blobs = 0\<rparr>, w))))))))"

end
