(* ===== verification/Gc_Purge.thy ===== *)
theory Gc_Purge
  imports Gc
begin

text \<open>
  The redaction purge of \<open>crates/naatre-server/src/gc.rs\<close> (\<open>redaction_purge_pass\<close>): the tombstoned
  changesets nothing refers to, with the blobs only they carried, then the tombstoned blobs nothing refers
  to; and the whole pass, which ends with it. The debug crash points are not modelled.
\<close>

section \<open>Phase 1: tombstoned changesets\<close>

record purge_report =
  pp_cs :: nat
  pp_blobs :: nat

definition purged_any :: "purge_report \<Rightarrow> bool" where
  "purged_any r \<longleftrightarrow> pp_cs r > 0 \<or> pp_blobs r > 0"

definition stamp_all :: "bytes \<Rightarrow> oid list \<Rightarrow> i64 \<Rightarrow> repo_db \<Rightarrow> repo_db" where
  "stamp_all kind ids now db = fold (\<lambda>i. redaction_stamp_purged kind i now) ids db"

text \<open>One repository: its changeset rows, then the stamps, in one transaction.\<close>

definition purge_cs_rows :: "i64 \<Rightarrow> oid list \<Rightarrow> repo_db \<Rightarrow> repo_db" where
  "purge_cs_rows now rows db = stamp_all (ascii ''changeset'') rows now (snd (gc_collect_cs_repo rows db))"

text \<open>Bytes, then the membership rows and stamps of every repository.\<close>

definition purge_blob_rows :: "i64 \<Rightarrow> oid list \<Rightarrow> 's gc_world \<Rightarrow> 's gc_world" where
  "purge_blob_rows now ids = each_repo (\<lambda>_ db. stamp_all (ascii ''blob'') ids now (gc_collect_blobs_repo ids db))"

definition purge_exclusive :: "'s gc_env \<Rightarrow> i64 \<Rightarrow> oid list \<Rightarrow> (unit, 's) gc_run" where
  "purge_exclusive env now ids =
     (if ids = [] then gc_return ()
      else gc_bind (delete_bytes env ids) (\<lambda>_ w.
             (Inr (), on_catalog (gc_collect_blobs_catalog ids) (purge_blob_rows now ids w))))"

definition redact_cs_batch :: "'s gc_env \<Rightarrow> i64 \<Rightarrow> i64 \<Rightarrow> oid list \<Rightarrow> (nat \<times> nat, 's) gc_run" where
  "redact_cs_batch env now cutoff landed w =
     (let selected = map (\<lambda>r. (r, redact_purgeable_cs_repo (conn w r) r GC_BATCH_ROWS)) (repo_ids w) in
      if concat (map snd selected) = [] then (Inr (0, 0), w)
      else
        let purgeable = map (\<lambda>(r, rows). (r, filter (\<lambda>i. i \<notin> set landed) rows)) selected;
            total = length (concat (map snd purgeable)) in
        if total = 0 then (Inr (0, 0), w)
        else
          let blobs = remdups_adj (sort (concat (map (\<lambda>(r, rows). file_change_blobs_of_cs (conn w r) rows) purgeable)));
              w = fold (\<lambda>(r, rows). if rows = [] then id else on_conn r (purge_cs_rows now rows)) purgeable w;
              w = delete_candidates Gc_Cs (concat (map snd purgeable)) w in
          case exclusively_unreferenced w blobs cutoff of
            Inl e \<Rightarrow> (Inl e, w)
          | Inr exclusive \<Rightarrow>
              gc_bind (purge_exclusive env now exclusive) (\<lambda>_. gc_return (total, length exclusive)) w)"

section \<open>Phase 2: tombstoned blobs\<close>

text \<open>The oldest marks of every repository, merged, cut to a page, one row for each id.\<close>

definition purge_work_list :: "'s gc_world \<Rightarrow> oid list" where
  "purge_work_list w =
     (let work = concat (map (\<lambda>r. redact_blob_tombstones_repo (conn w r) r GC_BATCH_BLOBS) (repo_ids w));
          page = take GC_BATCH_BLOBS (sort_key (\<lambda>(i, t). (t, i)) work)
      in rev (remdups (rev (map fst page))))"

definition purge_details :: "nat \<Rightarrow> nat \<Rightarrow> json" where
  "purge_details cs blobs = JObj [(ascii ''cs'', JNum (int cs)), (ascii ''blobs'', JNum (int blobs))]"

definition redact_blob_batch :: "'s gc_env \<Rightarrow> i64 \<Rightarrow> i64 \<Rightarrow> nat \<Rightarrow> nat \<Rightarrow> (nat, 's) gc_run" where
  "redact_blob_batch env now cutoff cs_so_far blobs_so_far w =
     (case referenced_anywhere w (purge_work_list w) of
        Inl e \<Rightarrow> (Inl e, w)
      | Inr referenced \<Rightarrow>
          let batch = filter (\<lambda>i. i \<notin> set referenced) (purge_work_list w);
              batch = filter (\<lambda>i. i \<notin> set (blobs_touched_after (gw_cat w) batch cutoff)) batch in
          gc_bind (if batch = [] then gc_return ()
                   else gc_bind (delete_bytes env batch) (\<lambda>_ w. (Inr (), purge_blob_rows now batch w)))
            (\<lambda>_ w.
              let w = on_catalog (gc_collect_blobs_catalog batch) w;
                  w = (if length batch < GC_BATCH_BLOBS \<and> cs_so_far + blobs_so_far + length batch > 0 then
                         on_catalog (audit_append now (ascii ''system'') (ascii ''redact_purge'')
                           (ge_print env (purge_details cs_so_far (blobs_so_far + length batch)))) w
                       else w)
              in (Inr (length batch), w)) w)"

section \<open>The phase and the pass\<close>

definition redact_cs_step ::
    "'s gc_env \<Rightarrow> i64 \<Rightarrow> i64 \<Rightarrow> oid list \<Rightarrow> purge_report \<Rightarrow> (purge_report \<times> bool, 's) gc_run" where
  "redact_cs_step env now cutoff landed r =
     gc_bind (write_all env (redact_cs_batch env now cutoff landed)) (\<lambda>(cs, blobs).
       gc_return (\<lparr>pp_cs = pp_cs r + cs, pp_blobs = pp_blobs r + blobs\<rparr>, \<not> (cs = 0 \<or> cs < GC_BATCH_ROWS)))"

definition redact_blob_step :: "'s gc_env \<Rightarrow> i64 \<Rightarrow> i64 \<Rightarrow> purge_report \<Rightarrow> (purge_report \<times> bool, 's) gc_run" where
  "redact_blob_step env now cutoff r =
     gc_bind (write_all env (redact_blob_batch env now cutoff (pp_cs r) (pp_blobs r))) (\<lambda>purged.
       gc_return (r\<lparr>pp_blobs := pp_blobs r + purged\<rparr>, \<not> purged < GC_BATCH_BLOBS))"

definition purge_pending :: "'s gc_world \<Rightarrow> gc_error + bool" where
  "purge_pending w = rbind (gather (\<lambda>db _. Inr [redactions_active_exist_repo db]) w) (\<lambda>bs. Inr (True \<in> set bs))"

definition no_purge :: purge_report where
  "no_purge = \<lparr>pp_cs = 0, pp_blobs = 0\<rparr>"

definition redaction_purge_pass ::
    "'s gc_env \<Rightarrow> 's gc_world \<Rightarrow> ((gc_error + purge_report) \<times> 's gc_world) option" where
  "redaction_purge_pass env w =
     (let now = gc_now env w; cutoff = gc_cutoff env now in
      then_run (Some (gc_read env purge_pending w)) (\<lambda>pending w.
        if \<not> pending then Some (Inr no_purge, w)
        else
          then_run (Some (gc_read env (landed_everywhere (ge_parse env)) w)) (\<lambda>landed w.
          then_run (batches (redact_cs_step env now cutoff landed) no_purge w) (\<lambda>r w.
            batches (redact_blob_step env now cutoff) r w))))"

definition gc_pass :: "'s gc_env \<Rightarrow> 's gc_world \<Rightarrow> ((gc_error + gc_report) \<times> 's gc_world) option" where
  "gc_pass env w =
     then_run (gc_sweep env w) (\<lambda>report w.
     then_run (redaction_purge_pass env w) (\<lambda>purge w.
       Some (Inr (report\<lparr>gr_redactions_purged_cs := pp_cs purge, gr_redactions_purged_blobs := pp_blobs purge\<rparr>), w)))"

end
