(* ===== verification/Gc_Sample.thy ===== *)
theory Gc_Sample
  imports Gc_Purge
begin

text \<open>
  A concrete run of the collector, for witnesses: one database with one repository, whose \<open>main\<close> is a root
  changeset; a child of it that nothing refers to, first seen unreachable at time 0; a blob condemned by an
  earlier pass, and a blob no row knows. The pass runs at time 100 with a grace of 10 and collects the child
  and the condemned blob.
\<close>

lemma scope_less [simp]:
  "Gc_Blob < Gc_Cs" "\<not> Gc_Cs < Gc_Blob" "Gc_Cs < Gc_Tree" "\<not> Gc_Tree < Gc_Cs" "Gc_Blob < Gc_Tree" "\<not> Gc_Tree < Gc_Blob"
  by (simp_all add: less_gc_scope_def)

lemma MAGIC_V2_nonempty [simp]: "MAGIC_V2 \<noteq> []" "[] \<noteq> MAGIC_V2"
  by (simp_all add: MAGIC_V2_def)

section \<open>The definitions, in the groups a run unfolds\<close>

lemmas gc_runs = gc_read_def gc_bind_def gc_return_def arrive_def Let_def then_run_def write_all_def is_single_def conn_def
  has_file_def on_conn_def on_catalog_def each_repo_def repo_ids_def gc_repos_def read_conn_def gather_def whole_probe_def

lemmas gc_marking = gc_marks_def mark_repo_def gc_seed_changesets_def ref_targets_def land_column_def mapped_ids_def
  ids32_def landed_ids_def gc_land_result_jsons_def closure_def parent_edges_def walk_simps children_def
  gc_file_change_blobs_def gc_conflict_rep_canonicals_def gc_all_changesets_def List.map_filter_simps
  gc_snapshot_roots_def dir_edges_def entry_edges_def tree_blob_ids_def empty_mark_def

lemmas gc_ledgering = gc_ledger_def gc_all_object_ids_def gc_all_tree_ids_def diff_def scope_chunks_def GC_BATCH_ROWS_def
  gc_write_def gc_candidates_delete_def delete_rows_def

lemmas gc_batching = batches_once ledger_page_def tombstoned_def cs_referenced_def touched_after_def blob_referenced_def
  entry_edges_def GC_BATCH_ROWS_def GC_BATCH_BLOBS_def gc_candidates_delete_def delete_rows_def delete_candidates_def
  delete_bytes_def subtract_blob_probes_def gc_blob_referenced_among_def gc_tombstoned_among_def audit_append_def

lemmas gc_cs_batching = cs_step_def cs_batch_def gc_cs_candidates_def gc_cs_collectible_probe_def gc_cs_present_among_def
  gc_collect_cs_repo_def

lemmas gc_blob_batching = condemn_step_def condemn_batch_def gc_blob_candidates_def gc_condemn_blobs_def blob_step_def
  blob_batch_def gc_condemned_blob_candidates_def blob_rows_gone_def gc_collect_blobs_repo_def gc_collect_blobs_catalog_def

lemmas gc_tree_batching = tree_step_def tree_batch_def gc_tree_candidates_def protected_trees_def
  gc_tree_protected_among_def live_trees_def live_roots_def gc_collect_trees_repo_def

section \<open>The run\<close>

definition gs_row :: "byte \<Rightarrow> i64 \<Rightarrow> changeset_row" where
  "gs_row b g = \<lparr>cr_rowid = 1, cr_repo = 1, cr_id = replicate 32 b, cr_canonical = [], cr_author = [], cr_message = [],
     cr_timestamp = 0, cr_generation = g, cr_principal = [], cr_root_tree = None\<rparr>"

definition gs_orphan :: "(gc_scope \<times> oid) \<times> gc_row" where
  "gs_orphan = ((Gc_Cs, replicate 32 2), \<lparr>gc_first = 0, gc_condemned = None\<rparr>)"

definition gs_condemned :: "(gc_scope \<times> oid) \<times> gc_row" where
  "gs_condemned = ((Gc_Blob, replicate 32 9), \<lparr>gc_first = 0, gc_condemned = Some 5\<rparr>)"

definition gs_unknown :: "(gc_scope \<times> oid) \<times> gc_row" where
  "gs_unknown = ((Gc_Blob, replicate 32 8), \<lparr>gc_first = 100, gc_condemned = None\<rparr>)"

definition gs_db :: repo_db where
  "gs_db = \<lparr>db_trees = [], db_tree_entries = [], db_repo_trees = {}, db_changesets = [gs_row 1 0, gs_row 2 1],
     db_parents = [((1, replicate 32 2, 0), replicate 32 1)], db_file_changes = [], db_repo_blobs = {}, db_git_map = [],
     db_refs = [((1, ascii ''main''), \<lparr>rf_target = Some (replicate 32 1), rf_version = 1, rf_last_principal = None\<rparr>)],
     db_lands = [], db_redactions = [], db_objects = [(replicate 32 9, \<lparr>ob_size = 1, ob_csize = 1, ob_touched = 0\<rparr>)],
     db_gc_pending = [gs_condemned, gs_orphan],
     db_snapshots = [], db_blame = [], db_path_history = [], db_repos = [(1, \<lparr>rr_name = [], rr_created = 0\<rparr>)],
     db_principals = [], db_tokens = [], db_access = [], db_kinds = [], db_meta = [], db_audit = [], db_derive = [], db_reports = []\<rparr>"

definition gs_db_end :: repo_db where
  "gs_db_end = gs_db\<lparr>db_changesets := [gs_row 1 0], db_parents := [], db_objects := [], db_gc_pending := [gs_unknown]\<rparr>"

definition gs_env :: "oid list gc_env" where
  "gs_env = \<lparr>ge_others = (\<lambda>_ w. w), ge_cat_busy = (\<lambda>_. False), ge_repo_busy = (\<lambda>_. False), ge_clock = (\<lambda>_. 100), ge_grace_ns = 10, ge_ids = (\<lambda>s. Inr s),
     ge_delete = (\<lambda>ids s. (Inr (), filter (\<lambda>i. i \<notin> set ids) s)), ge_parse = (\<lambda>_. None), ge_print = (\<lambda>_. [])\<rparr>"

definition gs_at :: "repo_db \<Rightarrow> oid list \<Rightarrow> nat \<Rightarrow> oid list gc_world" where
  "gs_at db blobs n = \<lparr>gw_cat = db, gw_split = False, gw_files = [], gw_cas = blobs, gw_tick = n\<rparr>"

definition gs_world :: "oid list gc_world" where
  "gs_world = gs_at gs_db [replicate 32 9, replicate 32 8] 0"

lemmas gs_defs = gs_world_def gs_at_def gs_env_def gs_db_def gs_db_end_def gs_row_def gs_orphan_def gs_condemned_def
  gs_unknown_def

lemma gs_now: "gc_now gs_env w = 100" "gc_cutoff gs_env 100 = 90"
  by (simp_all add: gc_now_def gs_env_def as_i64_def gc_cutoff_def i64_saturating_sub_def)

lemma gs_stages:
  "gc_ledger gs_env 100 gs_world =
     (Inr (1, 0), gs_at (gs_db\<lparr>db_gc_pending := [gs_unknown, gs_condemned, gs_orphan]\<rparr>) [replicate 32 9, replicate 32 8] 8)"
  "gc_read gs_env (landed_everywhere (ge_parse gs_env))
       (gs_at (gs_db\<lparr>db_gc_pending := [gs_unknown, gs_condemned, gs_orphan]\<rparr>) [replicate 32 9, replicate 32 8] 8) =
     (Inr [], gs_at (gs_db\<lparr>db_gc_pending := [gs_unknown, gs_condemned, gs_orphan]\<rparr>) [replicate 32 9, replicate 32 8] 9)"
  by (simp add: gs_defs gc_runs gc_marking gc_ledgering,
      simp add: gs_defs gc_runs gc_marking landed_everywhere_def)

lemma gs_cs_stage:
  "batches (cs_step gs_env 90 []) 0
       (gs_at (gs_db\<lparr>db_gc_pending := [gs_unknown, gs_condemned, gs_orphan]\<rparr>) [replicate 32 9, replicate 32 8] 9) =
     Some (Inr 1, gs_at (gs_db\<lparr>db_changesets := [gs_row 1 0], db_parents := [], db_gc_pending := [gs_unknown, gs_condemned]\<rparr>)
       [replicate 32 9, replicate 32 8] 10)"
  by (simp add: gs_defs gc_runs gc_batching gc_cs_batching)

lemma gs_blob_stages:
  "batches (condemn_step gs_env 100 90) 0
       (gs_at (gs_db\<lparr>db_changesets := [gs_row 1 0], db_parents := [], db_gc_pending := [gs_unknown, gs_condemned]\<rparr>)
          [replicate 32 9, replicate 32 8] 10) =
     Some (Inr 0, gs_at (gs_db\<lparr>db_changesets := [gs_row 1 0], db_parents := [], db_gc_pending := [gs_unknown, gs_condemned]\<rparr>)
       [replicate 32 9, replicate 32 8] 11)"
  "batches (blob_step gs_env 100 90) 0
       (gs_at (gs_db\<lparr>db_changesets := [gs_row 1 0], db_parents := [], db_gc_pending := [gs_unknown, gs_condemned]\<rparr>)
          [replicate 32 9, replicate 32 8] 11) =
     Some (Inr 1, gs_at gs_db_end [replicate 32 8] 12)"
  by (simp add: gs_defs gc_runs gc_batching gc_blob_batching)+

lemma gs_tree_stage:
  "batches (tree_step gs_env 100 90 1 1) 0 (gs_at gs_db_end [replicate 32 8] 12) =
     Some (Inr 0, gs_at (audit_append 100 (ascii ''system'') (ascii ''gc'') [] gs_db_end) [replicate 32 8] 13)"
  by (simp add: gs_defs gc_runs gc_batching gc_tree_batching)

definition gs_report :: gc_report where
  "gs_report = \<lparr>gr_candidates_new = 1, gr_candidates_repaired = 0, gr_cs_collected = 1, gr_blobs_collected = 1,
     gr_blobs_condemned = 0, gr_trees_collected = 0, gr_redactions_purged_cs = 0, gr_redactions_purged_blobs = 0\<rparr>"

definition gs_end :: "nat \<Rightarrow> oid list gc_world" where
  "gs_end n = gs_at (audit_append 100 (ascii ''system'') (ascii ''gc'') [] gs_db_end) [replicate 32 8] n"

lemma gs_sweep: "gc_sweep gs_env gs_world = Some (Inr gs_report, gs_end 13)"
  by (simp add: gc_sweep_def then_run_def gs_now gs_stages gs_cs_stage gs_blob_stages gs_tree_stage [unfolded One_nat_def]
      gs_report_def gs_end_def)

lemma gs_pass: "gc_pass gs_env gs_world = Some (Inr gs_report, gs_end 14)"
proof -
  have "gc_read gs_env purge_pending (gs_end 13) = (Inr False, gs_end 14)"
    by (simp add: gs_end_def gs_defs gc_runs purge_pending_def redactions_active_exist_repo_def audit_append_def)
  then show ?thesis
    by (simp add: gc_pass_def then_run_def gs_sweep redaction_purge_pass_def no_purge_def gs_report_def Let_def)
qed

end
