(* ===== verification/Gc_Sound.thy ===== *)
theory Gc_Sound
  imports Gc_Sample
begin

text \<open>
  The never-dangling invariant of the collector: whatever other requests commit between two batches, as
  long as they keep it, no batch of the sweep or the purge removes a changeset, a tree or the bytes of a blob
  that a row still refers to, also when the pass ends with an error.
\<close>

section \<open>What a database refers to\<close>

text \<open>Every changeset that a ref, a land, a mapping or a child names is there.\<close>

definition refs_sound :: "repo_db \<Rightarrow> bool" where
  "refs_sound db \<longleftrightarrow> (\<forall>i. cs_referenced db i \<longrightarrow> i \<in> cr_id ` set (db_changesets db))"

text \<open>Every tree below a changeset's root or an unexpired snapshot is there.\<close>

definition trees_sound :: "i64 \<Rightarrow> repo_db \<Rightarrow> bool" where
  "trees_sound now db \<longleftrightarrow> (\<forall>t \<in> live_trees db now. tree_row db t \<noteq> None)"

definition blobs_sound :: "oid set \<Rightarrow> repo_db \<Rightarrow> bool" where
  "blobs_sound held db \<longleftrightarrow> (\<forall>i. blob_referenced db i \<longrightarrow> i \<in> held)"

definition db_sound :: "i64 \<Rightarrow> oid set \<Rightarrow> repo_db \<Rightarrow> bool" where
  "db_sound now held db \<longleftrightarrow> refs_sound db \<and> trees_sound now db \<and> blobs_sound held db"

definition gc_sound :: "('s \<Rightarrow> oid set) \<Rightarrow> i64 \<Rightarrow> 's gc_world \<Rightarrow> bool" where
  "gc_sound held now w \<longleftrightarrow> (\<forall>r \<in> set (repo_ids w). db_sound now (held (gw_cas w)) (conn w r))"

text \<open>The contract of the blob store: \<open>held\<close> are the ids it holds; \<open>delete\<close> removes the ids it is given, or
  some of them when it fails, and no other.\<close>

definition cas_lawful :: "'s gc_env \<Rightarrow> ('s \<Rightarrow> oid set) \<Rightarrow> bool" where
  "cas_lawful env held \<longleftrightarrow>
     (\<forall>s ids. ge_ids env s = Inr ids \<longrightarrow> set ids = held s) \<and>
     (\<forall>s ids. held s - set ids \<subseteq> held (snd (ge_delete env ids s)) \<and> held (snd (ge_delete env ids s)) \<subseteq> held s) \<and>
     (\<forall>s ids. fst (ge_delete env ids s) = Inr () \<longrightarrow> held (snd (ge_delete env ids s)) \<inter> set ids = {})"

section \<open>The primary tables\<close>

definition primary :: "repo_db \<Rightarrow> _" where
  "primary db = (db_refs db, db_lands db, db_git_map db, db_parents db, db_changesets db, db_file_changes db,
     db_tree_entries db, db_trees db, db_snapshots db)"

lemma sound_primary: "primary db = primary db' \<Longrightarrow> db_sound now held db = db_sound now held db'"
  by (simp add: primary_def db_sound_def refs_sound_def trees_sound_def blobs_sound_def cs_referenced_def
      blob_referenced_def live_trees_def live_roots_def entry_edges_def)

named_theorems primary_simps

lemma primary_frames [simp, primary_simps]:
  "primary (snd (gc_candidates_delete scope ids db)) = primary db"
  "primary (snd (gc_condemn_blobs l now db)) = primary db"
  "primary (gc_collect_blobs_repo l db) = primary db"
  "primary (gc_collect_blobs_catalog l db) = primary db"
  "primary (redaction_stamp_purged kind i now db) = primary db"
  "primary (audit_append ts who action details db) = primary db"
  by (simp_all add: primary_def gc_candidates_delete_def gc_condemn_blobs_def gc_collect_blobs_repo_def
      gc_collect_blobs_catalog_def redaction_stamp_purged_def audit_append_def delete_rows_def Let_def)

lemma primary_upsert [simp, primary_simps]: "primary (snd (gc_candidates_upsert scope l now db)) = primary db"
  by (induction scope l now db rule: gc_candidates_upsert.induct) (simp_all add: primary_def)

lemma primary_stamp_all [simp, primary_simps]: "primary (stamp_all kind l now db) = primary db"
  by (induction l arbitrary: db) (simp_all add: stamp_all_def)

lemma repos_frames [simp]:
  "db_repos (snd (gc_candidates_delete scope ids db)) = db_repos db"
  "db_repos (snd (gc_condemn_blobs l now db)) = db_repos db"
  "db_repos (gc_collect_blobs_repo l db) = db_repos db"
  "db_repos (gc_collect_blobs_catalog l db) = db_repos db"
  "db_repos (redaction_stamp_purged kind i now db) = db_repos db"
  "db_repos (audit_append ts who action details db) = db_repos db"
  "db_repos (gc_collect_trees_repo l db) = db_repos db"
  "db_repos (snd (gc_collect_cs_repo l db)) = db_repos db"
  by (simp_all add: gc_candidates_delete_def gc_condemn_blobs_def gc_collect_blobs_repo_def
      gc_collect_blobs_catalog_def redaction_stamp_purged_def audit_append_def delete_rows_def Let_def
      gc_collect_trees_repo_def gc_collect_cs_repo_def)

lemma repos_upsert [simp]: "db_repos (snd (gc_candidates_upsert scope l now db)) = db_repos db"
  by (induction scope l now db rule: gc_candidates_upsert.induct) simp_all

lemma repos_stamp_all [simp]: "db_repos (stamp_all kind l now db) = db_repos db"
  by (induction l arbitrary: db) (simp_all add: stamp_all_def)

lemma repos_purge_cs_rows [simp]: "db_repos (purge_cs_rows now l db) = db_repos db"
  by (simp add: purge_cs_rows_def)

section \<open>Connections\<close>

text \<open>A statement of the pass leaves the registry alone.\<close>

definition keeps_repos :: "(repo_db \<Rightarrow> repo_db) \<Rightarrow> bool" where
  "keeps_repos f \<longleftrightarrow> (\<forall>db. db_repos (f db) = db_repos db)"

lemma on_conn_frame [simp]:
  assumes "keeps_repos f"
  shows "repo_ids (on_conn r f w) = repo_ids w" and "has_file (on_conn r f w) q = has_file w q"
    and "gw_cas (on_conn r f w) = gw_cas w" and "gw_split (on_conn r f w) = gw_split w"
    and "gw_tick (on_conn r f w) = gw_tick w"
  using assms by (auto simp: on_conn_def repo_ids_def gc_repos_def has_file_def keeps_repos_def)

lemma conn_on_conn:
  "conn (on_conn r f w) q = (if q = r \<or> \<not> has_file w r \<and> \<not> has_file w q then f (conn w q) else conn w q)"
  by (auto simp: on_conn_def conn_def has_file_def)

lemma on_catalog_frame [simp]:
  assumes "keeps_repos f"
  shows "repo_ids (on_catalog f w) = repo_ids w" and "has_file (on_catalog f w) q = has_file w q"
    and "gw_cas (on_catalog f w) = gw_cas w" and "gw_split (on_catalog f w) = gw_split w"
    and "gw_tick (on_catalog f w) = gw_tick w"
  using assms by (auto simp: on_catalog_def repo_ids_def gc_repos_def has_file_def keeps_repos_def)

lemma conn_on_catalog: "conn (on_catalog f w) q = (if has_file w q then conn w q else f (conn w q))"
  by (auto simp: on_catalog_def conn_def has_file_def)

lemma keeps_repos_simps [simp]:
  "keeps_repos (\<lambda>db. snd (gc_candidates_delete scope ids db))" "keeps_repos (\<lambda>db. snd (gc_condemn_blobs l now db))"
  "keeps_repos (gc_collect_blobs_repo l)" "keeps_repos (gc_collect_blobs_catalog l)"
  "keeps_repos (audit_append ts who action details)" "keeps_repos (gc_collect_trees_repo l)"
  "keeps_repos (\<lambda>db. snd (gc_collect_cs_repo l db))" "keeps_repos (purge_cs_rows now l)"
  "keeps_repos (\<lambda>db. stamp_all kind l now (gc_collect_blobs_repo m db))"
  by (simp_all add: keeps_repos_def)

text \<open>Worlds with the same registry, routing, bytes and primary tables.\<close>

definition same_primary :: "'s gc_world \<Rightarrow> 's gc_world \<Rightarrow> bool" where
  "same_primary w w' \<longleftrightarrow> repo_ids w' = repo_ids w \<and> has_file w' = has_file w \<and> gw_split w' = gw_split w \<and>
     gw_cas w' = gw_cas w \<and> (\<forall>r. primary (conn w' r) = primary (conn w r))"

lemma same_primary_refl [simp]: "same_primary w w"
  by (simp add: same_primary_def)

lemma same_primary_trans: "same_primary w w' \<Longrightarrow> same_primary w' w'' \<Longrightarrow> same_primary w w''"
  by (simp add: same_primary_def)

lemma sound_same_primary: "same_primary w w' \<Longrightarrow> gc_sound held now w' = gc_sound held now w"
  by (auto simp: same_primary_def gc_sound_def intro: sound_primary [THEN iffD1] sound_primary [THEN iffD2])

lemma same_primary_on_conn:
  "keeps_repos f \<Longrightarrow> (\<And>db. primary (f db) = primary db) \<Longrightarrow> same_primary w (on_conn r f w)"
  by (simp add: same_primary_def conn_on_conn fun_eq_iff)

lemma same_primary_on_catalog:
  "keeps_repos f \<Longrightarrow> (\<And>db. primary (f db) = primary db) \<Longrightarrow> same_primary w (on_catalog f w)"
  by (simp add: same_primary_def conn_on_catalog fun_eq_iff)

lemma same_primary_delete_candidates [simp]: "same_primary w (delete_candidates scope l w)"
  unfolding delete_candidates_def by (rule same_primary_on_catalog) simp_all

text \<open>The loop over the repositories, by an invariant of the world.\<close>

lemma fold_inv: "I w \<Longrightarrow> (\<And>x w. x \<in> set xs \<Longrightarrow> I w \<Longrightarrow> I (f x w)) \<Longrightarrow> I (fold f xs w)"
  by (induction xs arbitrary: w) auto

lemma each_repo_inv:
  assumes "I w" and "\<And>r w. I w \<Longrightarrow> I (on_conn r (f r) w)"
  shows "I (each_repo f w)"
  unfolding each_repo_def by (rule fold_inv) (use assms in auto)

lemma same_primary_each_repo:
  assumes "\<And>r. keeps_repos (f r)" and "\<And>r db. primary (f r db) = primary db"
  shows "same_primary w (each_repo f w)"
  by (rule each_repo_inv) (auto intro: same_primary_trans same_primary_on_conn assms)

section \<open>Collecting changesets\<close>

lemma cs_referenced_collect: "cs_referenced (snd (gc_collect_cs_repo l db)) i \<Longrightarrow> cs_referenced db i"
  by (auto simp: cs_referenced_def gc_collect_cs_repo_def delete_rows_def Let_def list_ex_iff)

lemma blob_referenced_collect: "blob_referenced (snd (gc_collect_cs_repo l db)) i \<Longrightarrow> blob_referenced db i"
proof -
  let ?db = "snd (gc_collect_cs_repo l db)"
  have "set (db_file_changes ?db) \<subseteq> set (db_file_changes db)" "entry_edges 0 ?db = entry_edges 0 db"
    by (auto simp: gc_collect_cs_repo_def delete_rows_def Let_def entry_edges_def)
  then show "blob_referenced ?db i \<Longrightarrow> blob_referenced db i"
    by (auto simp: blob_referenced_def list_ex_iff)
qed

lemma collect_cs_sound:
  assumes "db_sound now held db" and "\<forall>i \<in> set l. \<not> cs_referenced db i"
  shows "db_sound now held (snd (gc_collect_cs_repo l db))"
proof -
  let ?db = "snd (gc_collect_cs_repo l db)"
  have rows: "db_changesets ?db = filter (\<lambda>r. cr_id r \<notin> set l) (db_changesets db)"
    by (simp add: gc_collect_cs_repo_def delete_rows_def Let_def)
  have "refs_sound ?db"
    unfolding refs_sound_def
  proof clarify
    fix i assume "cs_referenced ?db i"
    then have i: "cs_referenced db i" by (rule cs_referenced_collect)
    then obtain r where "r \<in> set (db_changesets db)" "cr_id r = i" using assms(1) by (auto simp: db_sound_def refs_sound_def)
    moreover have "i \<notin> set l" using i assms(2) by blast
    ultimately show "i \<in> cr_id ` set (db_changesets ?db)" by (auto simp: rows)
  qed
  moreover have "trees_sound now ?db"
  proof -
    have same: "entry_edges 1 ?db = entry_edges 1 db" "db_trees ?db = db_trees db" "db_snapshots ?db = db_snapshots db"
      by (simp_all add: gc_collect_cs_repo_def delete_rows_def Let_def entry_edges_def)
    have "set (live_roots ?db now) \<subseteq> set (live_roots db now)"
      by (auto simp: live_roots_def same rows List.map_filter_def)
    then have "live_trees ?db now \<subseteq> live_trees db now"
      unfolding live_trees_def closure_reachable same by (intro reachable_mono) auto
    then show ?thesis using assms(1) by (auto simp: db_sound_def trees_sound_def same)
  qed
  moreover have "blobs_sound held ?db"
    using assms(1) blob_referenced_collect by (auto simp: db_sound_def blobs_sound_def)
  ultimately show ?thesis by (simp add: db_sound_def)
qed

text \<open>A world that refers to no more changesets than another, on the same connections.\<close>

definition refers_less :: "'s gc_world \<Rightarrow> 's gc_world \<Rightarrow> bool" where
  "refers_less w w' \<longleftrightarrow> repo_ids w' = repo_ids w \<and> has_file w' = has_file w \<and> gw_cas w' = gw_cas w \<and>
     gw_split w' = gw_split w \<and>
     (\<forall>r i. cs_referenced (conn w' r) i \<longrightarrow> cs_referenced (conn w r) i)"

lemma refers_less_trans: "refers_less w w' \<Longrightarrow> refers_less w' w'' \<Longrightarrow> refers_less w w''"
  by (simp add: refers_less_def)

lemma refers_less_refl [simp]: "refers_less w w"
  by (simp add: refers_less_def)

lemma cs_referenced_primary: "primary db' = primary db \<Longrightarrow> cs_referenced db' i = cs_referenced db i"
  by (simp add: primary_def cs_referenced_def)

lemma refers_less_same_primary: "same_primary w w' \<Longrightarrow> refers_less w w'"
  unfolding same_primary_def refers_less_def by (metis cs_referenced_primary)

text \<open>One repository's share of changesets that nothing there refers to, and rows that are not primary.\<close>

lemma on_conn_collect:
  assumes "gc_sound held now w" and "r \<in> set (repo_ids w)" and "\<forall>i \<in> set l. \<not> cs_referenced (conn w r) i"
    and f: "\<And>db. primary (f db) = primary (snd (gc_collect_cs_repo l db))" "keeps_repos f"
  shows "gc_sound held now (on_conn r f w)" and "refers_less w (on_conn r f w)"
proof -
  have same: "conn w q = conn w r" if "\<not> has_file w r" "\<not> has_file w q" for q
    using that by (simp add: conn_def)
  show "gc_sound held now (on_conn r f w)"
    unfolding gc_sound_def
  proof
    fix q assume "q \<in> set (repo_ids (on_conn r f w))"
    then have q: "db_sound now (held (gw_cas w)) (conn w q)" using assms(1) f(2) by (simp add: gc_sound_def)
    show "db_sound now (held (gw_cas (on_conn r f w))) (conn (on_conn r f w) q)"
    proof (cases "q = r \<or> \<not> has_file w r \<and> \<not> has_file w q")
      case True
      then have "conn w q = conn w r" using same by auto
      then have "db_sound now (held (gw_cas w)) (snd (gc_collect_cs_repo l (conn w q)))"
        using collect_cs_sound q assms(3) by metis
      then show ?thesis using True f sound_primary [OF f(1) [of "conn w q"]] by (simp add: conn_on_conn)
    next
      case False
      then have "conn (on_conn r f w) q = conn w q" by (simp only: conn_on_conn if_False)
      then show ?thesis using q f(2) by simp
    qed
  qed
  show "refers_less w (on_conn r f w)"
  proof -
    have "cs_referenced (f db) i \<Longrightarrow> cs_referenced db i" for db i
      using cs_referenced_primary [OF f(1)] cs_referenced_collect by metis
    then show ?thesis using f(2) by (auto simp: refers_less_def conn_on_conn fun_eq_iff split: if_splits)
  qed
qed

lemma collect_cs_repos_sound:
  assumes "gc_sound held now w" and "\<forall>(r, l) \<in> set shares. r \<in> set (repo_ids w) \<and> (\<forall>i \<in> set l. \<not> cs_referenced (conn w r) i)"
  shows "gc_sound held now (snd (collect_cs_repos shares n w)) \<and> refers_less w (snd (collect_cs_repos shares n w))"
  using assms
proof (induction shares n w rule: collect_cs_repos.induct)
  case (2 r mine rest n w)
  show ?case
  proof (cases "mine = []")
    case True
    then show ?thesis using 2 by simp
  next
    case False
    let ?w = "on_conn r (\<lambda>db. snd (gc_collect_cs_repo mine db)) w"
    have r: "r \<in> set (repo_ids w)" "\<forall>i \<in> set mine. \<not> cs_referenced (conn w r) i" using "2.prems"(2) by auto
    have c: "gc_sound held now ?w" "refers_less w ?w"
      by (rule on_conn_collect [OF "2.prems"(1) r]; simp)+
    have "\<forall>(q, l) \<in> set rest. q \<in> set (repo_ids ?w) \<and> (\<forall>i \<in> set l. \<not> cs_referenced (conn ?w q) i)"
      using "2.prems"(2) c(2) unfolding refers_less_def by fastforce
    then show ?thesis using False "2.IH"(2) [OF False c(1)] refers_less_trans [OF c(2)] by simp
  qed
qed simp

lemma collectible_unreferenced: "(i, g) \<in> set (gc_cs_collectible_probe db r cands) \<Longrightarrow> \<not> cs_referenced db i"
  by (auto simp: gc_cs_collectible_probe_def)

text \<open>The three ends of a changeset batch: no candidate, nothing collectible, or the shares of the repositories.\<close>

lemma cs_batch_form:
  obtains u shares k v batch
  where "same_primary w u" and "u = w \<or> (\<exists>l. u = delete_candidates Gc_Cs l w)"
    and "\<forall>(r, l) \<in> set shares. r \<in> set (repo_ids u) \<and> set l \<subseteq> set (gc_cs_candidates (gw_cat w) cutoff GC_BATCH_ROWS) \<and>
           (\<forall>i \<in> set l. \<not> cs_referenced (conn u r) i)"
    and "collect_cs_repos shares 0 u = (k, v)"
    and "\<exists>c. cs_batch cutoff landed w = (Inr (c, length (gc_cs_candidates (gw_cat w) cutoff GC_BATCH_ROWS)),
           snd (cs_batch cutoff landed w))"
    and "snd (cs_batch cutoff landed w) \<in> {w, u, delete_candidates Gc_Cs batch v}"
proof -
  define cands where "cands = gc_cs_candidates (gw_cat w) cutoff GC_BATCH_ROWS"
  define collectible where "collectible = map (\<lambda>r. (r, gc_cs_collectible_probe (conn w r) r cands)) (repo_ids w)"
  define phantoms where "phantoms = filter (\<lambda>i. i \<notin> set (concat (map (\<lambda>r. gc_cs_present_among (conn w r) r cands) (repo_ids w)))) cands"
  define u where "u = (if phantoms = [] then w else delete_candidates Gc_Cs phantoms w)"
  define batch where "batch = take GC_BATCH_ROWS (filter (\<lambda>i. i \<notin> set landed)
      (map fst (sort_key (\<lambda>(i, g). (g, i)) (concat (map snd collectible)))))"
  define shares where "shares = map (\<lambda>(r, rows). (r, filter (\<lambda>i. i \<in> set batch) (map fst rows))) collectible"
  note defs = cands_def collectible_def phantoms_def u_def batch_def shares_def
  obtain k v where kv: "collect_cs_repos shares 0 u = (k, v)" by force
  have u: "same_primary w u" by (simp add: u_def)
  have "repo_ids u = repo_ids w" "\<And>r. primary (conn u r) = primary (conn w r)" using u by (simp_all add: same_primary_def)
  then have "cs_referenced (conn u r) i = cs_referenced (conn w r) i" "repo_ids u = repo_ids w" for r i
    using cs_referenced_primary by blast+
  then have "\<forall>(r, l) \<in> set shares. r \<in> set (repo_ids u) \<and> set l \<subseteq> set cands \<and> (\<forall>i \<in> set l. \<not> cs_referenced (conn u r) i)"
    by (auto simp: shares_def collectible_def gc_cs_collectible_probe_def)
  moreover have form: "cs_batch cutoff landed w =
      (if cands = [] then (Inr (0, length cands), w) else if batch = [] then (Inr (0, length cands), u)
       else (Inr (k, length cands), delete_candidates Gc_Cs batch v))"
    unfolding cs_batch_def Let_def defs [symmetric] by (simp add: kv)
  ultimately show ?thesis
    using that [of u shares k v batch] u kv unfolding cands_def [symmetric] by (auto simp: u_def split: if_splits)
qed

lemma cs_batch_sound:
  assumes "gc_sound held now w"
  shows "gc_sound held now (snd (cs_batch cutoff landed w))"
proof (rule cs_batch_form [of w cutoff landed])
  fix u shares k v batch
  assume u: "same_primary w u" and c: "collect_cs_repos shares 0 u = (k, v)"
    and shares: "\<forall>(r, l) \<in> set shares. r \<in> set (repo_ids u) \<and> set l \<subseteq> set (gc_cs_candidates (gw_cat w) cutoff GC_BATCH_ROWS) \<and>
           (\<forall>i \<in> set l. \<not> cs_referenced (conn u r) i)"
    and ends: "snd (cs_batch cutoff landed w) \<in> {w, u, delete_candidates Gc_Cs batch v}"
  have s: "gc_sound held now u" using assms u sound_same_primary by blast
  have "gc_sound held now v" using collect_cs_repos_sound [OF s, of shares 0] shares c by fastforce
  then have "gc_sound held now (delete_candidates Gc_Cs batch v)"
    using sound_same_primary same_primary_delete_candidates by blast
  then show ?thesis using assms s ends by auto
qed

section \<open>Collecting bytes\<close>

lemma conn_cas [simp]:
  "conn (w\<lparr>gw_cas := s\<rparr>) r = conn w r" "repo_ids (w\<lparr>gw_cas := s\<rparr>) = repo_ids w" "has_file (w\<lparr>gw_cas := s\<rparr>) = has_file w"
  by (auto simp: conn_def repo_ids_def has_file_def fun_eq_iff)

lemma conn_single: "\<not> gw_split w \<Longrightarrow> conn w r = gw_cat w"
  by (simp add: conn_def has_file_def)

definition unreferenced :: "'s gc_world \<Rightarrow> oid list \<Rightarrow> bool" where
  "unreferenced w l \<longleftrightarrow> (\<forall>r \<in> set (repo_ids w). \<forall>i \<in> set l. \<not> blob_referenced (conn w r) i)"

lemma probes_unreferenced: "subtract_blob_probes w cands = Inr l \<Longrightarrow> unreferenced w l"
  by (auto simp: unreferenced_def subtract_blob_probes_def rbind_eq_Inr whole_probe_def gc_blob_referenced_among_def
      conn_single is_single_def split: if_splits)

lemma referenced_unreferenced: "referenced_anywhere w cands = Inr l \<Longrightarrow> unreferenced w (filter (\<lambda>i. i \<notin> set l) cands)"
  by (auto simp: unreferenced_def referenced_anywhere_def whole_probe_def gc_blob_referenced_among_def conn_single
      is_single_def split: if_splits)

lemma delete_bytes_sound:
  assumes "cas_lawful env held" and "gc_sound held now w" and "unreferenced w l"
  shows "gc_sound held now (snd (delete_bytes env l w))"
proof -
  have "held (gw_cas w) - set l \<subseteq> held (snd (ge_delete env l (gw_cas w)))" using assms(1) by (simp add: cas_lawful_def)
  then show ?thesis using assms(2,3)
    by (fastforce simp: delete_bytes_def split_beta Let_def gc_sound_def db_sound_def blobs_sound_def unreferenced_def)
qed

lemma blob_rows_gone_primary: "same_primary w (blob_rows_gone l w)"
  unfolding blob_rows_gone_def
  by (rule same_primary_trans [OF same_primary_each_repo same_primary_on_catalog]) simp_all

lemma blob_batch_sound:
  assumes "cas_lawful env held" and "gc_sound held now w"
  shows "gc_sound held now (snd (blob_batch env stamp cutoff w))"
proof -
  define cands where "cands = gc_condemned_blob_candidates (gw_cat w) stamp cutoff GC_BATCH_BLOBS"
  show ?thesis
  proof (cases "cands = [] \<or> (\<exists>e. subtract_blob_probes w cands = Inl e) \<or> subtract_blob_probes w cands = Inr []")
    case True
    then show ?thesis using assms(2) by (auto simp: blob_batch_def cands_def [symmetric] Let_def)
  next
    case False
    then obtain l where l: "subtract_blob_probes w cands = Inr l" "l \<noteq> []" "cands \<noteq> []"
      by (cases "subtract_blob_probes w cands") auto
    obtain r v where d: "delete_bytes env l w = (r, v)" by force
    have "gc_sound held now v" using delete_bytes_sound [OF assms probes_unreferenced [OF l(1)]] d by simp
    then show ?thesis
      using l d sound_same_primary [OF blob_rows_gone_primary [of v l]]
      by (cases r) (simp_all add: blob_batch_def cands_def [symmetric] Let_def gc_bind_def)
  qed
qed

lemma condemn_batch_sound: "gc_sound held now w \<Longrightarrow> gc_sound held now (snd (condemn_batch stamp cutoff w))"
proof -
  have "gc_sound held now (on_catalog (\<lambda>db. snd (gc_condemn_blobs l stamp db)) w) = gc_sound held now w" for l
    by (rule sound_same_primary [OF same_primary_on_catalog]) simp_all
  then show "gc_sound held now w \<Longrightarrow> ?thesis"
    by (auto simp: condemn_batch_def Let_def split: sum.split)
qed

section \<open>Collecting trees\<close>

lemma om_get_filter: "om_get (filter (\<lambda>(k, _). P k) m) k = (if P k then om_get m k else None)"
  by (induction m) auto

lemma entry_edges_collect: "entry_edges kind (gc_collect_trees_repo l db) = filter (\<lambda>(i, _). i \<notin> set l) (entry_edges kind db)"
proof -
  have one: "filter (\<lambda>(i, _). i \<notin> set l) (List.map_filter (\<lambda>(_, e). if er_kind e = kind then Some (i, er_object e) else None) rows) =
      (if i \<in> set l then [] else List.map_filter (\<lambda>(_, e). if er_kind e = kind then Some (i, er_object e) else None) rows)"
    for i and rows :: "(bytes \<times> entry_row) list"
    by (induction rows) (auto simp: List.map_filter_simps split: option.splits if_splits)
  have "concat (map (\<lambda>(i, rows). List.map_filter (\<lambda>(_, e). if er_kind e = kind then Some (i, er_object e) else None) rows)
          (filter (\<lambda>(i, _). i \<notin> set l) m)) =
      filter (\<lambda>(i, _). i \<notin> set l)
        (concat (map (\<lambda>(i, rows). List.map_filter (\<lambda>(_, e). if er_kind e = kind then Some (i, er_object e) else None) rows) m))"
    for m :: "(oid \<times> (bytes \<times> entry_row) list) list"
    by (induction m) (auto simp: one)
  then show ?thesis by (simp add: entry_edges_def gc_collect_trees_repo_def)
qed

lemma collect_trees_sound:
  assumes "db_sound now held db" and "live_trees db now \<inter> set l = {}"
  shows "db_sound now held (gc_collect_trees_repo l db)" and "live_trees (gc_collect_trees_repo l db) now = live_trees db now"
proof -
  let ?db = "gc_collect_trees_repo l db"
  have rest: "db_refs ?db = db_refs db" "db_lands ?db = db_lands db" "db_git_map ?db = db_git_map db"
    "db_parents ?db = db_parents db" "db_changesets ?db = db_changesets db" "db_file_changes ?db = db_file_changes db"
    "db_snapshots ?db = db_snapshots db"
    by (simp_all add: gc_collect_trees_repo_def)
  have roots: "live_roots ?db now = live_roots db now" by (simp add: live_roots_def rest)
  show live: "live_trees ?db now = live_trees db now"
    unfolding live_trees_def roots entry_edges_collect
    by (rule closure_cong) (use assms(2) in \<open>auto simp: live_trees_def\<close>)
  have rows: "tree_row ?db t = (if t \<notin> set l then tree_row db t else None)" for t
    by (simp add: gc_collect_trees_repo_def om_get_filter [of "\<lambda>i. i \<notin> set l"])
  have "trees_sound now ?db"
    using assms by (auto simp: trees_sound_def live rows db_sound_def disjoint_iff)
  moreover have "refs_sound ?db" using assms(1) by (simp add: db_sound_def refs_sound_def cs_referenced_def rest)
  moreover have "blob_referenced ?db i \<Longrightarrow> blob_referenced db i" for i
    by (auto simp: blob_referenced_def rest entry_edges_collect)
  ultimately show "db_sound now held ?db" using assms(1) by (auto simp: db_sound_def blobs_sound_def)
qed

lemma collect_trees_world:
  assumes "gc_sound held now w" and "\<forall>r \<in> set (repo_ids w). live_trees (conn w r) now \<inter> set l = {}"
  shows "gc_sound held now (each_repo (\<lambda>_. gc_collect_trees_repo l) w)"
proof -
  let ?I = "\<lambda>v. gc_sound held now v \<and> (\<forall>r \<in> set (repo_ids v). live_trees (conn v r) now \<inter> set l = {})"
  have "?I (each_repo (\<lambda>_. gc_collect_trees_repo l) w)"
  proof (rule each_repo_inv)
    fix r v assume v: "?I v"
    then show "?I (on_conn r (gc_collect_trees_repo l) v)"
      using collect_trees_sound [where now = now and held = "held (gw_cas v)" and l = l]
      by (auto simp: gc_sound_def conn_on_conn)
  qed (use assms in auto)
  then show ?thesis ..
qed

lemma protected_disjoint:
  assumes "gc_sound held now w" and "protected_trees w cands now = Inr protected"
  shows "\<forall>r \<in> set (repo_ids w). live_trees (conn w r) now \<inter> set (take k (filter (\<lambda>i. i \<notin> set protected) cands)) = {}"
proof (clarsimp simp: disjoint_iff)
  fix r t assume r: "r \<in> set (repo_ids w)" and t: "t \<in> live_trees (conn w r) now"
    and m: "t \<in> set (take k (filter (\<lambda>i. i \<notin> set protected) cands))"
  have c: "t \<in> set cands" "t \<notin> set protected" using in_set_takeD [OF m] by auto
  have "t \<in> set (gc_tree_protected_among (conn w r) cands now)"
    using assms(1) r t c(1) by (auto simp: gc_tree_protected_among_def gc_sound_def db_sound_def trees_sound_def)
  then have "t \<in> set protected"
    using assms(2) r c(1) by (auto simp: protected_trees_def whole_probe_def conn_single is_single_def split: if_splits)
  with c(2) show False by blast
qed

lemma tree_batch_sound:
  assumes "gc_sound held now w"
  shows "gc_sound held now (snd (tree_batch env now cutoff cs blobs n w))"
proof (cases "protected_trees w (gc_tree_candidates (gw_cat w) cutoff GC_BATCH_ROWS) now")
  case (Inl e)
  then show ?thesis using assms by (simp add: tree_batch_def)
next
  case (Inr protected)
  define batch where "batch = take GC_BATCH_ROWS (filter (\<lambda>i. i \<notin> set protected) (gc_tree_candidates (gw_cat w) cutoff GC_BATCH_ROWS))"
  define v where "v = delete_candidates Gc_Tree batch (if batch = [] then w else each_repo (\<lambda>_. gc_collect_trees_repo batch) w)"
  have "gc_sound held now (each_repo (\<lambda>_. gc_collect_trees_repo batch) w)"
    unfolding batch_def by (rule collect_trees_world [OF assms protected_disjoint [OF assms Inr]])
  then have v: "gc_sound held now v"
    unfolding v_def using assms sound_same_primary same_primary_delete_candidates by (metis (full_types))
  have "same_primary v (on_catalog (audit_append ts who action details) v)" for ts who action details
    by (rule same_primary_on_catalog) simp_all
  then have "gc_sound held now (on_catalog (audit_append ts who action details) v)" for ts who action details
    using v sound_same_primary by blast
  then show ?thesis using v by (simp add: tree_batch_def Inr Let_def batch_def [symmetric] v_def [symmetric])
qed

section \<open>The purge\<close>

lemma primary_purge_cs_rows: "primary (purge_cs_rows now l db) = primary (snd (gc_collect_cs_repo l db))"
  by (simp add: purge_cs_rows_def)

lemma purge_shares_sound:
  assumes "gc_sound held now w" and "\<forall>(r, l) \<in> set shares. r \<in> set (repo_ids w) \<and> (\<forall>i \<in> set l. \<not> cs_referenced (conn w r) i)"
  shows "gc_sound held now (fold (\<lambda>(r, rows). if rows = [] then id else on_conn r (purge_cs_rows stamp rows)) shares w)"
  using assms
proof (induction shares arbitrary: w)
  case (Cons share shares)
  obtain r l where share: "share = (r, l)" by force
  let ?w = "on_conn r (purge_cs_rows stamp l) w"
  have r: "r \<in> set (repo_ids w)" "\<forall>i \<in> set l. \<not> cs_referenced (conn w r) i" using Cons.prems(2) share by auto
  have c: "gc_sound held now ?w" "refers_less w ?w"
    by (rule on_conn_collect [OF Cons.prems(1) r primary_purge_cs_rows]; simp)+
  have "\<forall>(q, m) \<in> set shares. q \<in> set (repo_ids ?w) \<and> (\<forall>i \<in> set m. \<not> cs_referenced (conn ?w q) i)"
    using Cons.prems(2) c(2) unfolding refers_less_def by fastforce
  then show ?case using Cons c share by simp
qed simp

lemma purge_blob_rows_primary: "same_primary w (purge_blob_rows now l w)"
  unfolding purge_blob_rows_def by (rule same_primary_each_repo) simp_all

lemma catalog_blobs_primary: "same_primary w (on_catalog (gc_collect_blobs_catalog l) w)"
  by (rule same_primary_on_catalog) simp_all

lemma purge_exclusive_sound:
  assumes "cas_lawful env held" and "gc_sound held now w" and "unreferenced w l"
  shows "gc_sound held now (snd (purge_exclusive env stamp l w))"
proof -
  obtain r v where d: "delete_bytes env l w = (r, v)" by force
  then have v: "gc_sound held now v" using delete_bytes_sound [OF assms] by simp
  have "same_primary v (on_catalog (gc_collect_blobs_catalog l) (purge_blob_rows stamp l v))"
    using purge_blob_rows_primary catalog_blobs_primary by (rule same_primary_trans)
  then show ?thesis using v assms(2) sound_same_primary
    by (cases r) (auto simp: purge_exclusive_def gc_return_def gc_bind_def d)
qed

lemma purgeable_unreferenced: "i \<in> set (redact_purgeable_cs_repo db r k) \<Longrightarrow> \<not> cs_referenced db i"
  by (auto simp: redact_purgeable_cs_repo_def dest: in_set_takeD)

lemma exclusive_unreferenced: "exclusively_unreferenced w l cutoff = Inr m \<Longrightarrow> unreferenced w m"
  by (auto simp: exclusively_unreferenced_def rbind_eq_Inr unreferenced_def dest: referenced_unreferenced)

lemma redact_cs_batch_sound:
  assumes "cas_lawful env held" and "gc_sound held now w"
  shows "gc_sound held now (snd (redact_cs_batch env stamp cutoff landed w))"
proof -
  define selected where "selected = map (\<lambda>r. (r, redact_purgeable_cs_repo (conn w r) r GC_BATCH_ROWS)) (repo_ids w)"
  define purgeable where "purgeable = map (\<lambda>(r, rows). (r, filter (\<lambda>i. i \<notin> set landed) rows)) selected"
  define blobs where "blobs = remdups_adj (sort (concat (map (\<lambda>(r, rows). file_change_blobs_of_cs (conn w r) rows) purgeable)))"
  define v where "v = delete_candidates Gc_Cs (concat (map snd purgeable))
      (fold (\<lambda>(r, rows). if rows = [] then id else on_conn r (purge_cs_rows stamp rows)) purgeable w)"
  note defs = selected_def purgeable_def blobs_def v_def
  have "\<forall>(r, l) \<in> set purgeable. r \<in> set (repo_ids w) \<and> (\<forall>i \<in> set l. \<not> cs_referenced (conn w r) i)"
    by (auto simp: purgeable_def selected_def dest: purgeable_unreferenced)
  then have v: "gc_sound held now v"
    using purge_shares_sound [OF assms(2)] sound_same_primary same_primary_delete_candidates unfolding v_def by blast
  show ?thesis
  proof (cases "exclusively_unreferenced v blobs cutoff")
    case (Inl e)
    then show ?thesis using assms(2) v by (simp add: redact_cs_batch_def Let_def defs [symmetric])
  next
    case (Inr m)
    have "gc_sound held now (snd (purge_exclusive env stamp m v))"
      using purge_exclusive_sound [OF assms(1) v exclusive_unreferenced [OF Inr]] .
    then show ?thesis
      using assms(2) v by (cases "purge_exclusive env stamp m v"; cases "fst (purge_exclusive env stamp m v)")
        (simp_all add: redact_cs_batch_def Let_def defs [symmetric] Inr gc_bind_def gc_return_def)
  qed
qed

lemma redact_blob_batch_sound:
  fixes env :: "'s gc_env"
  assumes "cas_lawful env held" and "gc_sound held now w"
  shows "gc_sound held now (snd (redact_blob_batch env stamp cutoff cs blobs w))"
proof (cases "referenced_anywhere w (purge_work_list w)")
  case (Inl e)
  then show ?thesis using assms(2) by (simp add: redact_blob_batch_def)
next
  case (Inr referenced)
  define free where "free = filter (\<lambda>i. i \<notin> set referenced) (purge_work_list w)"
  define batch where "batch = filter (\<lambda>i. i \<notin> set (blobs_touched_after (gw_cat w) free cutoff)) free"
  define del where "del = (if batch = [] then gc_return () else gc_bind (delete_bytes env batch) (\<lambda>_ w. (Inr (), purge_blob_rows stamp batch w)))"
  define fin where "fin = (\<lambda>w :: 's gc_world. if length batch < GC_BATCH_BLOBS \<and> cs + blobs + length batch > 0 then
      on_catalog (audit_append stamp (ascii ''system'') (ascii ''redact_purge'') (ge_print env (purge_details cs (blobs + length batch)))) w
      else w)"
  have u: "unreferenced w batch"
    using referenced_unreferenced [OF Inr] by (auto simp: unreferenced_def batch_def free_def)
  obtain r v where d: "delete_bytes env batch w = (r, v)" by force
  have v: "gc_sound held now v" using delete_bytes_sound [OF assms u] d by simp
  have del: "gc_sound held now (snd (del w))"
    using assms(2) v sound_same_primary [OF purge_blob_rows_primary [of v stamp batch]]
    by (cases r) (simp_all add: del_def gc_return_def gc_bind_def d)
  have "gc_sound held now (fin u) = gc_sound held now u" for u :: "'s gc_world"
    unfolding fin_def by (auto intro!: sound_same_primary same_primary_on_catalog)
  then have "gc_sound held now u \<Longrightarrow> gc_sound held now (fin (on_catalog (gc_collect_blobs_catalog batch) u))" for u :: "'s gc_world"
    using sound_same_primary [OF catalog_blobs_primary] by blast
  moreover have "redact_blob_batch env stamp cutoff cs blobs w =
      gc_bind del (\<lambda>_ u. (Inr (length batch), fin (on_catalog (gc_collect_blobs_catalog batch) u))) w"
    unfolding redact_blob_batch_def Inr sum.case free_def [symmetric] Let_def batch_def [symmetric] del_def fin_def ..
  ultimately show ?thesis
    using del by (cases "del w"; cases "fst (del w)") (simp_all add: gc_bind_def)
qed

section \<open>Every run keeps the invariant\<close>

definition gc_keeps :: "('s gc_world \<Rightarrow> bool) \<Rightarrow> ('a, 's) gc_run \<Rightarrow> bool" where
  "gc_keeps I run \<longleftrightarrow> (\<forall>w. I w \<longrightarrow> I (snd (run w)))"

lemma keeps_bind: "gc_keeps I m \<Longrightarrow> (\<And>a. gc_keeps I (f a)) \<Longrightarrow> gc_keeps I (gc_bind m f)"
  unfolding gc_keeps_def gc_bind_def by (fastforce split: prod.splits sum.splits)

lemma keeps_return [simp]: "gc_keeps I (gc_return a)"
  by (simp add: gc_keeps_def gc_return_def)

lemma keeps_read: "(\<And>w. I w \<Longrightarrow> I (arrive env w)) \<Longrightarrow> gc_keeps I (gc_read env f)"
  by (simp add: gc_keeps_def gc_read_def Let_def)

lemma keeps_write:
  "(\<And>w. I w \<Longrightarrow> I (arrive env w)) \<Longrightarrow> (\<And>w. I w \<Longrightarrow> I (on_catalog (\<lambda>db. snd (f db)) w)) \<Longrightarrow> gc_keeps I (gc_write env f)"
  by (simp add: gc_keeps_def gc_write_def Let_def split_beta on_catalog_def)

lemma keeps_write_all: "(\<And>w. I w \<Longrightarrow> I (arrive env w)) \<Longrightarrow> gc_keeps I f \<Longrightarrow> gc_keeps I (write_all env f)"
  by (simp add: gc_keeps_def write_all_def Let_def)

lemma keeps_batches:
  assumes "\<And>a. gc_keeps I (step a)" and "batches step a w = Some res" and "I w"
  shows "I (snd res)"
proof -
  have "(\<forall>a. gc_keeps I (step a)) \<longrightarrow> I w \<longrightarrow> I (snd res)"
  proof (induction rule: batches.raw_induct [OF _ assms(2)])
    case (1 f step a w res)
    obtain r w' where s: "step a w = (r, w')" by force
    have "gc_keeps I (step a) \<longrightarrow> I w \<longrightarrow> I w'" using s by (auto simp: gc_keeps_def)
    then show ?case using 1 s by (cases res) (fastforce split: sum.splits if_splits)
  qed
  then show ?thesis using assms by blast
qed

definition runs_keep :: "('s gc_world \<Rightarrow> bool) \<Rightarrow> ('s gc_world \<Rightarrow> ((gc_error + 'a) \<times> 's gc_world) option) \<Rightarrow> bool" where
  "runs_keep I m \<longleftrightarrow> (\<forall>w res. I w \<longrightarrow> m w = Some res \<longrightarrow> I (snd res))"

lemma runs_keep_then:
  assumes "runs_keep I m" and "\<And>a. runs_keep I (f a)"
  shows "runs_keep I (\<lambda>w. then_run (m w) f)"
  unfolding runs_keep_def
proof (intro allI impI)
  fix w res assume w: "I w" "then_run (m w) f = Some res"
  then obtain r v where m: "m w = Some (r, v)" by (auto simp: then_run_def split: option.splits)
  then have "I v" using assms(1) w(1) by (fastforce simp: runs_keep_def)
  then show "I (snd res)" using w(2) m assms(2) by (cases r; cases res) (auto simp: then_run_def runs_keep_def)
qed

lemma runs_keep_some: "gc_keeps I m \<Longrightarrow> runs_keep I (\<lambda>w. Some (m w))"
  by (auto simp: runs_keep_def gc_keeps_def)

lemma runs_keep_batches:
  assumes "\<And>a. gc_keeps I (step a)"
  shows "runs_keep I (batches step a)"
  unfolding runs_keep_def using keeps_batches [OF assms] by simp

lemma runs_keep_split: "(\<And>x y. runs_keep I (f x y)) \<Longrightarrow> runs_keep I (case p of (x, y) \<Rightarrow> f x y)"
  by (cases p) simp

lemma runs_keep_if: "runs_keep I f \<Longrightarrow> runs_keep I g \<Longrightarrow> runs_keep I (\<lambda>w. if b then f w else g w)"
  by (cases b) simp_all

lemma runs_keep_value [simp]: "runs_keep I (\<lambda>w. Some (a, w))"
  by (simp add: runs_keep_def)

lemmas runs_keep_rules = runs_keep_split runs_keep_then runs_keep_if runs_keep_some runs_keep_batches runs_keep_value keeps_read

lemma sound_tick [simp]: "gc_sound held now (w\<lparr>gw_tick := n\<rparr>) = gc_sound held now w"
proof -
  have "conn (w\<lparr>gw_tick := n\<rparr>) = conn w" "repo_ids (w\<lparr>gw_tick := n\<rparr>) = repo_ids w"
    by (auto simp: conn_def repo_ids_def has_file_def fun_eq_iff)
  then show ?thesis by (simp add: gc_sound_def)
qed

lemma ledger_writes_keeps:
  assumes "\<And>w. I w \<Longrightarrow> I (arrive env w)" and "\<And>scope ids w. I w \<Longrightarrow> I (on_catalog (\<lambda>db. snd (f scope ids db)) w)"
  shows "gc_keeps I (ledger_writes env f ss n)"
proof -
  have one: "I w \<Longrightarrow> I (snd (gc_write env (f scope ids) w))" for scope ids w
    using keeps_write [of I env "f scope ids"] assms by (simp add: gc_keeps_def)
  have "I w \<Longrightarrow> I (snd (ledger_writes env f ss n w))" for w
  proof (induction ss arbitrary: n w)
    case (Cons s ss)
    obtain scope ids where s: "s = (scope, ids)" by force
    obtain r v where g: "gc_write env (f scope ids) w = (r, v)" by force
    then have "I v" using one [OF Cons.prems, of scope ids] by simp
    then show ?case using Cons.IH s g by (cases r) simp_all
  qed simp
  then show ?thesis by (simp add: gc_keeps_def)
qed

text \<open>What other requests do between two accesses of the pass.\<close>

definition others_keep :: "('s gc_world \<Rightarrow> bool) \<Rightarrow> 's gc_env \<Rightarrow> bool" where
  "others_keep I env \<longleftrightarrow> (\<forall>n w. I w \<longrightarrow> I (ge_others env n w))"

lemma arrive_sound: "others_keep (gc_sound held now) env \<Longrightarrow> gc_sound held now w \<Longrightarrow> gc_sound held now (arrive env w)"
  by (simp add: arrive_def others_keep_def)

lemma gc_ledger_sound:
  assumes "others_keep (gc_sound held now) env"
  shows "gc_keeps (gc_sound held now) (gc_ledger env t)"
proof -
  have up: "gc_sound held now w \<Longrightarrow> gc_sound held now (on_catalog (\<lambda>db. snd (gc_candidates_upsert scope ids t db)) w)"
    and del: "gc_sound held now w \<Longrightarrow> gc_sound held now (on_catalog (\<lambda>db. snd (gc_candidates_delete scope (set ids) db)) w)"
    for scope ids w
    by (subst sound_same_primary [OF same_primary_on_catalog]; simp add: keeps_repos_def)+
  show ?thesis
    unfolding gc_ledger_def
    by (intro keeps_bind keeps_read keeps_return ledger_writes_keeps arrive_sound [OF assms] up del; simp)
qed

lemma steps_sound:
  assumes "cas_lawful env held" and "others_keep (gc_sound held now) env"
  shows "gc_keeps (gc_sound held now) (cs_step env cutoff landed n)"
    and "gc_keeps (gc_sound held now) (condemn_step env t cutoff n)"
    and "gc_keeps (gc_sound held now) (blob_step env t cutoff n)"
    and "gc_keeps (gc_sound held now) (tree_step env now cutoff cs blobs n)"
    and "gc_keeps (gc_sound held now) (redact_cs_step env t cutoff landed r)"
    and "gc_keeps (gc_sound held now) (redact_blob_step env t cutoff r)"
  unfolding cs_step_def condemn_step_def blob_step_def tree_step_def redact_cs_step_def redact_blob_step_def
  by (auto intro!: keeps_bind keeps_write_all arrive_sound [OF assms(2)] split: prod.splits
      simp: gc_keeps_def [of _ "cs_batch _ _"] gc_keeps_def [of _ "condemn_batch _ _"] gc_keeps_def [of _ "blob_batch _ _ _"]
      gc_keeps_def [of _ "tree_batch _ _ _ _ _ _"] gc_keeps_def [of _ "redact_cs_batch _ _ _ _"]
      gc_keeps_def [of _ "redact_blob_batch _ _ _ _ _"]
      cs_batch_sound condemn_batch_sound blob_batch_sound [OF assms(1)] tree_batch_sound
      redact_cs_batch_sound [OF assms(1)] redact_blob_batch_sound [OF assms(1)])

text \<open>C5: the collector never dangles. Say that nothing dangles when every changeset that a ref, land, mapping or child names
  is there, so is every tree below a stored root or an unexpired snapshot, and the blob store holds every blob that a file
  change or a tree entry names. If nothing dangles at the start, the blob store deletes only what it is told to, and the other
  requests never make anything dangle, then after a pass of the collector (mark, ledger, the collection of changesets, blobs
  and trees, and the redaction purge), in one database or with a file per repository, nothing dangles either, however its
  accesses interleave with the other requests, and whether it succeeds or stops at an error. It is a statement of passes
  that return.\<close>
theorem gc_never_dangles:
  assumes "cas_lawful env held" and "others_keep (gc_sound held (gc_now env w)) env"
    and "gc_sound held (gc_now env w) w" and "gc_pass env w = Some res"
  shows "gc_sound held (gc_now env w) (snd res)"
proof -
  let ?I = "gc_sound held (gc_now env w)"
  note arrive = arrive_sound [OF assms(2)]
  have purge: "runs_keep ?I (redaction_purge_pass env)"
  proof -
    have "runs_keep ?I (\<lambda>w. then_run (Some (gc_read env purge_pending w)) (\<lambda>pending w.
        if \<not> pending then Some (Inr no_purge, w)
        else then_run (Some (gc_read env (landed_everywhere (ge_parse env)) w)) (\<lambda>landed w.
          then_run (batches (redact_cs_step env now cutoff landed) no_purge w) (\<lambda>r w.
            batches (redact_blob_step env now cutoff) r w))))" for now cutoff
      by (intro runs_keep_rules arrive steps_sound [OF assms(1,2)])
    then show ?thesis unfolding redaction_purge_pass_def runs_keep_def Let_def by blast
  qed
  have sweep: "?I (snd r)" if "gc_sweep env w = Some r" for r
  proof -
    have "runs_keep ?I (\<lambda>v. then_run (Some (gc_ledger env (gc_now env w) v)) (\<lambda>(fresh, repaired) v.
        then_run (Some (gc_read env (landed_everywhere (ge_parse env)) v)) (\<lambda>landed v.
        then_run (batches (cs_step env (gc_cutoff env (gc_now env w)) landed) 0 v) (\<lambda>cs v.
        then_run (batches (condemn_step env (gc_now env w) (gc_cutoff env (gc_now env w))) 0 v) (\<lambda>condemned v.
        then_run (batches (blob_step env (gc_now env w) (gc_cutoff env (gc_now env w))) 0 v) (\<lambda>blobs v.
        then_run (batches (tree_step env (gc_now env w) (gc_cutoff env (gc_now env w)) cs blobs) 0 v) (\<lambda>trees v.
          Some (Inr \<lparr>gr_candidates_new = fresh, gr_candidates_repaired = repaired, gr_cs_collected = cs,
                     gr_blobs_collected = blobs, gr_blobs_condemned = condemned, gr_trees_collected = trees,
                     gr_redactions_purged_cs = 0, gr_redactions_purged_blobs = 0\<rparr>, v))))))))"
      by (intro runs_keep_rules arrive steps_sound [OF assms(1,2)] gc_ledger_sound [OF assms(2)])
    then show ?thesis using that assms(3) unfolding gc_sweep_def runs_keep_def Let_def by blast
  qed
  obtain r v where s: "gc_sweep env w = Some (r, v)"
    using assms(4) by (cases "gc_sweep env w") (auto simp: gc_pass_def then_run_def)
  show ?thesis
  proof (cases r)
    case (Inl e)
    then show ?thesis using s sweep assms(4) by (auto simp: gc_pass_def then_run_def)
  next
    case (Inr report)
    have "runs_keep ?I (\<lambda>u. then_run (redaction_purge_pass env u) (\<lambda>purge u.
        Some (Inr (report\<lparr>gr_redactions_purged_cs := pp_cs purge, gr_redactions_purged_blobs := pp_blobs purge\<rparr>), u)))"
      by (intro runs_keep_rules purge)
    then show ?thesis using s sweep [OF s] Inr assms(4) unfolding runs_keep_def
      by (cases res) (auto simp: gc_pass_def then_run_def)
  qed
qed


theorem gc_never_dangles_witness:
  "gc_sound set 100 gs_world \<and> gc_pass gs_env gs_world = Some (Inr gs_report, gs_end 14) \<and> gc_sound set 100 (gs_end 14)"
proof -
  have lawful: "cas_lawful gs_env set" by (auto simp: cas_lawful_def gs_env_def)
  have others: "others_keep (gc_sound set (gc_now gs_env gs_world)) gs_env" by (simp add: others_keep_def gs_env_def)
  have sound: "gc_sound set (gc_now gs_env gs_world) gs_world"
    by (simp add: gc_sound_def db_sound_def refs_sound_def trees_sound_def blobs_sound_def gs_defs gc_runs cs_referenced_def
        live_trees_def live_roots_def closure_def List.map_filter_simps walk_simps blob_referenced_def entry_edges_def children_def)
  show ?thesis using gc_never_dangles [OF lawful others sound gs_pass] sound gs_pass by (simp add: gs_now)
qed

end
