(* ===== verification/Gc_Mark.thy ===== *)
theory Gc_Mark
  imports Gc_Sample
begin

text \<open>
  The mark as a set: what each repository's primary tables reach from its refs, lands, mappings and
  unexpired snapshots. \<open>marks_exactly\<close> compares the frontier loops of \<open>gc.rs\<close> with it.
\<close>

section \<open>What a repository reaches\<close>

definition seed_set :: "(bytes \<Rightarrow> json option) \<Rightarrow> repo_db \<Rightarrow> i64 \<Rightarrow> oid set" where
  "seed_set parse db repo =
     {i. length i = 32 \<and>
         ((\<exists>n r. ((repo, n), r) \<in> set (db_refs db) \<and> rf_target r = Some i) \<or>
          (\<exists>k l. ((repo, k), l) \<in> set (db_lands db) \<and> (la_head l = Some i \<or> la_base l = Some i)) \<or>
          (\<exists>g. ((repo, g), i) \<in> set (db_git_map db)))} \<union>
     {i. \<exists>k l t v s. ((repo, k), l) \<in> set (db_lands db) \<and> la_result l = Some t \<and> parse t = Some v \<and>
           json_get v (ascii ''landed'') = JStr s \<and> from_hex s = Some i}"

definition reached_cs :: "(bytes \<Rightarrow> json option) \<Rightarrow> repo_db \<Rightarrow> i64 \<Rightarrow> oid set" where
  "reached_cs parse db repo =
     {(c, p). length p = 32 \<and> (\<exists>n. ((repo, c, n), p) \<in> set (db_parents db))}\<^sup>* `` seed_set parse db repo"

definition reached_trees :: "(bytes \<Rightarrow> json option) \<Rightarrow> repo_db \<Rightarrow> i64 \<Rightarrow> i64 \<Rightarrow> oid set" where
  "reached_trees parse db repo now =
     {(t, u). length u = 32 \<and> (\<exists>rows n e. (t, rows) \<in> set (db_tree_entries db) \<and> (n, e) \<in> set rows \<and>
                er_kind e = 1 \<and> er_object e = u)}\<^sup>* ``
     ({t. \<exists>r \<in> set (db_changesets db). cr_repo r = repo \<and> cr_id r \<in> reached_cs parse db repo \<and> cr_root_tree r = Some t} \<union>
      {t. \<exists>n s. (n, s) \<in> set (db_snapshots db) \<and> sn_repo s = repo \<and> now < sn_expires s \<and> sn_tree s = t})"

text \<open>Blobs of reached changesets, of their conflict representations, and of reached trees.\<close>

definition reached_blobs :: "(bytes \<Rightarrow> json option) \<Rightarrow> repo_db \<Rightarrow> i64 \<Rightarrow> i64 \<Rightarrow> oid set" where
  "reached_blobs parse db repo now =
     {b. \<exists>c p row. ((repo, c, p), row) \<in> set (db_file_changes db) \<and> c \<in> reached_cs parse db repo \<and> ch_blob row = Some b} \<union>
     {b. \<exists>r cs rep. r \<in> set (db_changesets db) \<and> cr_repo r = repo \<and> cr_id r \<in> reached_cs parse db repo \<and>
           take 17 (cr_canonical r) = MAGIC_V2 \<and> changeset_decode (cr_canonical r) = Inr cs \<and>
           rep \<in> set (cs_conflicts cs) \<and> (rep_base rep = Some b \<or> b \<in> set (rep_sides rep))} \<union>
     {b. length b = 32 \<and> (\<exists>t rows n e. t \<in> reached_trees parse db repo now \<and> (t, rows) \<in> set (db_tree_entries db) \<and>
           (n, e) \<in> set rows \<and> er_kind e \<noteq> 1 \<and> er_object e = b)}"

section \<open>The loops compute it\<close>

lemma set_map_filter: "set (List.map_filter f xs) = {y. \<exists>x. x \<in> set xs \<and> f x = Some y}"
  by (force simp: List.map_filter_def)

lemma ref_targets_set: "set (ref_targets db repo) = {i. \<exists>n r. ((repo, n), r) \<in> set (db_refs db) \<and> rf_target r = Some i}"
  by (auto simp: ref_targets_def set_map_filter split: if_splits)

lemma land_column_set: "set (land_column f db repo) = {i. \<exists>k l. ((repo, k), l) \<in> set (db_lands db) \<and> f l = Some i}"
  by (auto simp: land_column_def set_map_filter split: if_splits)

lemma mapped_ids_set: "set (mapped_ids db repo) = {i. \<exists>g. ((repo, g), i) \<in> set (db_git_map db)}"
  by (force simp: mapped_ids_def)

lemma landed_ids_set:
  "set (landed_ids parse ts) = {i. \<exists>t \<in> set ts. \<exists>v s. parse t = Some v \<and> json_get v (ascii ''landed'') = JStr s \<and> from_hex s = Some i}"
proof -
  have "as_str v = Some s \<longleftrightarrow> v = JStr s" for v s by (cases v) (auto simp: as_str_def)
  then show ?thesis by (auto simp: landed_ids_def set_map_filter Option.bind_eq_Some_conv)
qed

lemma seeds_set: "set (gc_seed_changesets db repo @ landed_ids parse (gc_land_result_jsons db repo)) = seed_set parse db repo"
proof -
  have "set (landed_ids parse (gc_land_result_jsons db repo)) =
      {i. \<exists>k l t v s. ((repo, k), l) \<in> set (db_lands db) \<and> la_result l = Some t \<and> parse t = Some v \<and>
           json_get v (ascii ''landed'') = JStr s \<and> from_hex s = Some i}"
    unfolding landed_ids_set gc_land_result_jsons_def land_column_set by blast
  then show ?thesis
    by (auto simp: gc_seed_changesets_def ids32_def ref_targets_set land_column_set mapped_ids_set seed_set_def)
qed

lemma parent_edges_set: "set (parent_edges db repo) = {(c, p). length p = 32 \<and> (\<exists>n. ((repo, c, n), p) \<in> set (db_parents db))}"
  by (force simp: parent_edges_def)

lemma entry_edges_set:
  "set (entry_edges kind db) = {(t, u). \<exists>rows n e. (t, rows) \<in> set (db_tree_entries db) \<and> (n, e) \<in> set rows \<and>
     er_kind e = kind \<and> er_object e = u}"
proof (intro set_eqI iffI)
  fix p assume "p \<in> set (entry_edges kind db)"
  then show "p \<in> {(t, u). \<exists>rows n e. (t, rows) \<in> set (db_tree_entries db) \<and> (n, e) \<in> set rows \<and> er_kind e = kind \<and> er_object e = u}"
    by (auto simp: entry_edges_def set_map_filter split: if_splits)
next
  fix p assume "p \<in> {(t, u). \<exists>rows n e. (t, rows) \<in> set (db_tree_entries db) \<and> (n, e) \<in> set rows \<and> er_kind e = kind \<and> er_object e = u}"
  then obtain t rows n e where e: "p = (t, er_object e)" "(t, rows) \<in> set (db_tree_entries db)" "(n, e) \<in> set rows" "er_kind e = kind"
    by auto
  then have "p \<in> set (List.map_filter (\<lambda>(_, e). if er_kind e = kind then Some (t, er_object e) else None) rows)"
    unfolding set_map_filter by (intro CollectI exI [of _ "(n, e)"]) simp
  then show "p \<in> set (entry_edges kind db)"
    unfolding entry_edges_def set_concat set_map using e(2) by (intro UN_I [OF imageI]) auto
qed

lemma cs_closure:
  "closure (parent_edges db repo) (gc_seed_changesets db repo @ landed_ids parse (gc_land_result_jsons db repo)) =
     reached_cs parse db repo"
  unfolding closure_reachable reachable_def seeds_set reached_cs_def parent_edges_set ..

lemma dir_edges_set:
  "set (dir_edges db) = {(t, u). length u = 32 \<and> (\<exists>rows n e. (t, rows) \<in> set (db_tree_entries db) \<and> (n, e) \<in> set rows \<and>
     er_kind e = 1 \<and> er_object e = u)}"
  by (auto simp: dir_edges_def entry_edges_set)

lemma rmap_set: "rmap f xs = Inr ys \<Longrightarrow> set ys = {y. \<exists>x \<in> set xs. f x = Inr y}"
proof -
  assume "rmap f xs = Inr ys"
  then have "list_all2 (\<lambda>x y. f x = Inr y) xs ys" by (simp add: rmap_eq_Inr)
  then show ?thesis by (induction) auto
qed

text \<open>An accepted inventory holds columns of 32 bytes only.\<close>

lemma all_changesets_set:
  assumes "gc_all_changesets db repo = Inr all"
  shows "(i, Some t) \<in> set all \<longleftrightarrow> (\<exists>r \<in> set (db_changesets db). cr_repo r = repo \<and> cr_id r = i \<and> cr_root_tree r = Some t)"
proof
  assume "(i, Some t) \<in> set all"
  then show "\<exists>r \<in> set (db_changesets db). cr_repo r = repo \<and> cr_id r = i \<and> cr_root_tree r = Some t"
    unfolding rmap_set [OF assms [unfolded gc_all_changesets_def]]
    by (auto simp: id32_def rbind_eq_Inr split: option.splits if_splits)
next
  assume "\<exists>r \<in> set (db_changesets db). cr_repo r = repo \<and> cr_id r = i \<and> cr_root_tree r = Some t"
  then obtain r where r: "r \<in> set (filter (\<lambda>r. cr_repo r = repo) (db_changesets db))" "cr_id r = i" "cr_root_tree r = Some t" by auto
  from rmap_member [OF assms [unfolded gc_all_changesets_def] r(1)] r(2,3) show "(i, Some t) \<in> set all"
    by (auto simp: id32_def rbind_eq_Inr split: if_splits)
qed

lemma root_trees_set:
  assumes "gc_all_changesets db repo = Inr all"
  shows "set (List.map_filter snd (filter (\<lambda>(i, _). i \<in> C) all) @ gc_snapshot_roots db repo now) =
     {t. \<exists>r \<in> set (db_changesets db). cr_repo r = repo \<and> cr_id r \<in> C \<and> cr_root_tree r = Some t} \<union>
     {t. \<exists>n s. (n, s) \<in> set (db_snapshots db) \<and> sn_repo s = repo \<and> now < sn_expires s \<and> sn_tree s = t}"
proof -
  have "set (List.map_filter snd (filter (\<lambda>(i, _). i \<in> C) all)) = {t. \<exists>i \<in> C. (i, Some t) \<in> set all}"
    unfolding set_map_filter by auto
  moreover have "set (gc_snapshot_roots db repo now) =
      {t. \<exists>n s. (n, s) \<in> set (db_snapshots db) \<and> sn_repo s = repo \<and> now < sn_expires s \<and> sn_tree s = t}"
    by (force simp: gc_snapshot_roots_def)
  ultimately show ?thesis unfolding set_append by (auto simp: all_changesets_set [OF assms])
qed

lemma change_blobs_set:
  assumes "gc_file_change_blobs db repo = Inr rows"
  shows "(c, b) \<in> set rows \<longleftrightarrow> (\<exists>p row. ((repo, c, p), row) \<in> set (db_file_changes db) \<and> ch_blob row = Some b)"
proof -
  let ?col = "List.map_filter (\<lambda>((r, c, _), row). if r = repo then map_option (Pair c) (ch_blob row) else None) (db_file_changes db)"
  have col: "(c, b) \<in> set ?col \<longleftrightarrow> (\<exists>p row. ((repo, c, p), row) \<in> set (db_file_changes db) \<and> ch_blob row = Some b)" for c b
  proof
    assume "(c, b) \<in> set ?col"
    then show "\<exists>p row. ((repo, c, p), row) \<in> set (db_file_changes db) \<and> ch_blob row = Some b"
      by (auto simp: set_map_filter split: if_splits)
  next
    assume "\<exists>p row. ((repo, c, p), row) \<in> set (db_file_changes db) \<and> ch_blob row = Some b"
    then obtain p row where "((repo, c, p), row) \<in> set (db_file_changes db)" "ch_blob row = Some b" by blast
    then show "(c, b) \<in> set ?col" unfolding set_map_filter by (intro CollectI exI [of _ "((repo, c, p), row)"]) simp
  qed
  note ok = assms [unfolded gc_file_change_blobs_def]
  have "(c, b) \<in> set rows \<longleftrightarrow> (c, b) \<in> set ?col"
  proof
    assume "(c, b) \<in> set rows"
    then obtain x where x: "x \<in> set ?col" "(case x of (c, b) \<Rightarrow> rbind (id32 b) (\<lambda>i. Inr (c, i))) = Inr (c, b)"
      unfolding rmap_set [OF ok] by blast
    from x(2) have "x = (c, b)"
      by (cases x) (simp add: id32_def rbind_eq_Inr split: if_splits)
    then show "(c, b) \<in> set ?col" using x(1) by simp
  next
    assume "(c, b) \<in> set ?col"
    from rmap_member [OF ok this] show "(c, b) \<in> set rows" by (auto simp: id32_def rbind_eq_Inr split: if_splits)
  qed
  then show ?thesis by (simp only: col)
qed

lemma framed_set:
  assumes "rmap (\<lambda>c. map_err (\<lambda>_. Gc_Internal) (changeset_decode c)) (gc_conflict_rep_canonicals db repo C) = Inr framed"
  shows "set (concat (map (\<lambda>c. concat (map rep_ids (cs_conflicts c))) framed)) =
     {b. \<exists>r cs rep. r \<in> set (db_changesets db) \<and> cr_repo r = repo \<and> cr_id r \<in> C \<and>
           take 17 (cr_canonical r) = MAGIC_V2 \<and> changeset_decode (cr_canonical r) = Inr cs \<and>
           rep \<in> set (cs_conflicts cs) \<and> (rep_base rep = Some b \<or> b \<in> set (rep_sides rep))}"
proof -
  have f: "cs \<in> set framed \<longleftrightarrow> (\<exists>r \<in> set (db_changesets db). cr_repo r = repo \<and> cr_id r \<in> C \<and>
      take 17 (cr_canonical r) = MAGIC_V2 \<and> changeset_decode (cr_canonical r) = Inr cs)" for cs
    unfolding rmap_set [OF assms] gc_conflict_rep_canonicals_def by (auto simp: map_err_eq_Inr)
  have "set (rep_ids rep) = {b. rep_base rep = Some b \<or> b \<in> set (rep_sides rep)}" for rep
    by (cases "rep_base rep") (auto simp: rep_ids_def)
  then have "set (concat (map (\<lambda>c. concat (map rep_ids (cs_conflicts c))) framed)) =
      {b. \<exists>cs \<in> set framed. \<exists>rep \<in> set (cs_conflicts cs). rep_base rep = Some b \<or> b \<in> set (rep_sides rep)}"
    by auto
  then show ?thesis by (simp only: Bex_def f) blast
qed

lemma leaves_set:
  "set (tree_blob_ids db T) =
     {b. length b = 32 \<and> (\<exists>t rows n e. t \<in> T \<and> (t, rows) \<in> set (db_tree_entries db) \<and> (n, e) \<in> set rows \<and> er_kind e \<noteq> 1 \<and> er_object e = b)}"
proof -
  have "b \<in> set (List.map_filter (\<lambda>(_, e). if length (er_object e) = 32 \<and> er_kind e \<noteq> 1 then Some (er_object e) else None) rows)
      \<longleftrightarrow> length b = 32 \<and> (\<exists>n e. (n, e) \<in> set rows \<and> er_kind e \<noteq> 1 \<and> er_object e = b)" for rows :: "(bytes \<times> entry_row) list" and b
    unfolding set_map_filter by auto
  then have leaf: "b \<in> set (case x of (i, rows) \<Rightarrow> if i \<in> T then List.map_filter (\<lambda>(_, e).
        if length (er_object e) = 32 \<and> er_kind e \<noteq> 1 then Some (er_object e) else None) rows else []) \<longleftrightarrow>
      length b = 32 \<and> (\<exists>t rows n e. x = (t, rows) \<and> t \<in> T \<and> (n, e) \<in> set rows \<and> er_kind e \<noteq> 1 \<and> er_object e = b)" for x :: "bytes \<times> (bytes \<times> entry_row) list" and b
    by (cases x) auto
  show ?thesis
    unfolding tree_blob_ids_def set_concat set_map by (intro set_eqI) (simp only: UN_iff bex_simps leaf mem_Collect_eq, blast)
qed

lemma mark_repo_exact:
  assumes "mark_repo parse db repo now = Inr m"
  shows "mk_cs m = reached_cs parse db repo" and "mk_trees m = reached_trees parse db repo now"
    and "mk_blobs m = reached_blobs parse db repo now"
proof -
  let ?cs = "reached_cs parse db repo"
  obtain rows framed all where r: "gc_file_change_blobs db repo = Inr rows"
      "rmap (\<lambda>c. map_err (\<lambda>_. Gc_Internal) (changeset_decode c)) (gc_conflict_rep_canonicals db repo ?cs) = Inr framed"
      "gc_all_changesets db repo = Inr all"
    and m: "m = \<lparr>mk_cs = ?cs,
       mk_blobs = set (map snd (filter (\<lambda>(c, _). c \<in> ?cs) rows)) \<union>
         set (concat (map (\<lambda>c. concat (map rep_ids (cs_conflicts c))) framed)) \<union>
         set (tree_blob_ids db (closure (dir_edges db) (List.map_filter snd (filter (\<lambda>(i, _). i \<in> ?cs) all) @ gc_snapshot_roots db repo now))),
       mk_trees = closure (dir_edges db) (List.map_filter snd (filter (\<lambda>(i, _). i \<in> ?cs) all) @ gc_snapshot_roots db repo now)\<rparr>"
    using assms by (auto simp: mark_repo_def Let_def rbind_eq_Inr map_err_eq_Inr cs_closure)
  show "mk_cs m = ?cs" by (simp add: m)
  have trees: "closure (dir_edges db) (List.map_filter snd (filter (\<lambda>(i, _). i \<in> ?cs) all) @ gc_snapshot_roots db repo now) =
      reached_trees parse db repo now"
    unfolding closure_reachable reachable_def root_trees_set [OF r(3)] dir_edges_set reached_trees_def ..
  then show "mk_trees m = reached_trees parse db repo now" by (simp add: m)
  have "set (map snd (filter (\<lambda>(c, _). c \<in> ?cs) rows)) =
      {b. \<exists>c p row. ((repo, c, p), row) \<in> set (db_file_changes db) \<and> c \<in> ?cs \<and> ch_blob row = Some b}"
  proof -
    have "set (map snd (filter (\<lambda>(c, _). c \<in> ?cs) rows)) = {b. \<exists>c \<in> ?cs. (c, b) \<in> set rows}" by force
    then show ?thesis by (auto simp: change_blobs_set [OF r(1)])
  qed
  then show "mk_blobs m = reached_blobs parse db repo now"
    unfolding m reached_blobs_def gc_mark.select_convs framed_set [OF r(2)] trees leaves_set by (simp only:)
qed

text \<open>The connection a read is routed to is the one a batch is routed to, when the file is there.\<close>

lemma read_conn_conn: "read_conn w r = Inr db \<Longrightarrow> conn w r = db"
  by (auto simp: read_conn_def conn_def has_file_def ok_or_def split: if_splits option.splits)

lemma mark_repos_exact:
  assumes "mark_repos parse w now rs m = Inr n"
  shows "mk_cs n = mk_cs m \<union> (\<Union>r \<in> set rs. reached_cs parse (conn w r) r) \<and>
    mk_trees n = mk_trees m \<union> (\<Union>r \<in> set rs. reached_trees parse (conn w r) r now) \<and>
    mk_blobs n = mk_blobs m \<union> (\<Union>r \<in> set rs. reached_blobs parse (conn w r) r now)"
  using assms
proof (induction parse w now rs m rule: mark_repos.induct)
  case (2 parse w now r rs m)
  then obtain db k where k: "read_conn w r = Inr db" "mark_repo parse db r now = Inr k"
    "mark_repos parse w now rs \<lparr>mk_cs = mk_cs m \<union> mk_cs k, mk_blobs = mk_blobs m \<union> mk_blobs k, mk_trees = mk_trees m \<union> mk_trees k\<rparr> = Inr n"
    by (auto simp: rbind_eq_Inr)
  from "2.IH" [OF k(3)] mark_repo_exact [OF k(2)] read_conn_conn [OF k(1)] show ?case by auto
qed simp

lemma gc_marks_exact:
  assumes "gc_marks parse w now = Inr m"
  shows "mk_cs m = (\<Union>r \<in> set (repo_ids w). reached_cs parse (conn w r) r) \<and>
    mk_trees m = (\<Union>r \<in> set (repo_ids w). reached_trees parse (conn w r) r now) \<and>
    mk_blobs m = (\<Union>r \<in> set (repo_ids w). reached_blobs parse (conn w r) r now)"
  using mark_repos_exact [OF assms [unfolded gc_marks_def]] by (simp add: empty_mark_def)

text \<open>C7: the mark is reachability. When the mark succeeds, the sets that its frontier loops and statements
  compute are, for every registered repository on its own connection, the changesets reached over parent rows from
  refs, lands (heads, bases and recorded results) and git mappings; the trees reached over directory entries from
  the roots of those changesets and from unexpired snapshots; and the blobs of their file changes, of their conflict
  representations and of the entries of those trees.\<close>
theorem gc_mark_is_reachability:
  assumes "gc_marks parse w now = Inr m"
  shows "mk_cs m = (\<Union>r \<in> set (repo_ids w). reached_cs parse (conn w r) r) \<and>
    mk_trees m = (\<Union>r \<in> set (repo_ids w). reached_trees parse (conn w r) r now) \<and>
    mk_blobs m = (\<Union>r \<in> set (repo_ids w). reached_blobs parse (conn w r) r now)"
  by (rule gc_marks_exact [OF assms])

theorem gc_mark_is_reachability_witness:
  "replicate 32 1 \<in> reached_cs (\<lambda>_. None) gs_db 1 \<and> replicate 32 2 \<notin> reached_cs (\<lambda>_. None) gs_db 1"
proof -
  have "\<exists>m. gc_marks (\<lambda>_. None) gs_world 100 = Inr m \<and> replicate 32 1 \<in> mk_cs m \<and> replicate 32 2 \<notin> mk_cs m"
    by (simp add: gs_defs gc_runs gc_marking)
  then obtain m where m: "gc_marks (\<lambda>_. None) gs_world 100 = Inr m" "replicate 32 1 \<in> mk_cs m" "replicate 32 2 \<notin> mk_cs m" by blast
  have "repo_ids gs_world = [1]" "conn gs_world 1 = gs_db" by (simp_all add: gs_defs gc_runs)
  then show ?thesis using gc_mark_is_reachability [OF m(1)] m(2,3) by simp
qed

end
