(* ===== verification/Gc_Grace.thy ===== *)
theory Gc_Grace
  imports Gc_Sound Gc_Mark
begin

text \<open>
  The grace period: what a sweep removes was unreachable when the sweep marked, and its ledger row was there
  before the sweep and old enough; a blob had been condemned by an earlier sweep. The ledger says so because the
  mark is subtracted from it before the first batch, and only its rows are candidates.
\<close>

section \<open>What is stored, and what a statement loses\<close>

definition ledger :: "'s gc_world \<Rightarrow> ((gc_scope \<times> oid) \<times> gc_row) set" where
  "ledger w = set (db_gc_pending (gw_cat w))"

definition db_stored :: "repo_db \<Rightarrow> gc_scope \<Rightarrow> oid set" where
  "db_stored db s = (case s of Gc_Cs \<Rightarrow> cr_id ` set (db_changesets db) | Gc_Blob \<Rightarrow> {} | Gc_Tree \<Rightarrow> {t. tree_row db t \<noteq> None})"

definition stored :: "('s \<Rightarrow> oid set) \<Rightarrow> 's gc_world \<Rightarrow> i64 \<Rightarrow> gc_scope \<Rightarrow> oid set" where
  "stored held w r s = (if s = Gc_Blob then held (gw_cas w) else db_stored (conn w r) s)"

text \<open>From one database to the next, only ids of \<open>X\<close> of the scope \<open>s\<close> are lost, and no ledger row is new.\<close>

definition db_loses :: "gc_scope \<Rightarrow> oid set \<Rightarrow> (repo_db \<Rightarrow> repo_db) \<Rightarrow> bool" where
  "db_loses s X f \<longleftrightarrow> keeps_repos f \<and>
     (\<forall>db. set (db_gc_pending (f db)) \<subseteq> set (db_gc_pending db) \<and>
       (\<forall>q. db_stored db q - (if q = s then X else {}) \<subseteq> db_stored (f db) q))"

definition loses :: "('s \<Rightarrow> oid set) \<Rightarrow> gc_scope \<Rightarrow> oid set \<Rightarrow> 's gc_world \<Rightarrow> 's gc_world \<Rightarrow> bool" where
  "loses held s X w v \<longleftrightarrow> repo_ids v = repo_ids w \<and> ledger v \<subseteq> ledger w \<and>
     (\<forall>r q. stored held w r q - (if q = s then X else {}) \<subseteq> stored held v r q)"

lemma loses_refl [simp]: "loses held s X w w"
  by (simp add: loses_def)

lemma loses_trans:
  assumes "loses held s X u w" and "loses held s X w v"
  shows "loses held s X u v"
  unfolding loses_def
proof (intro conjI allI)
  fix r q
  have "stored held u r q - (if q = s then X else {}) \<subseteq> stored held w r q"
    "stored held w r q - (if q = s then X else {}) \<subseteq> stored held v r q" using assms by (simp_all add: loses_def)
  then show "stored held u r q - (if q = s then X else {}) \<subseteq> stored held v r q" by blast
qed (use assms in \<open>auto simp: loses_def\<close>)

lemma db_stored_primary: "primary db' = primary db \<Longrightarrow> db_stored db' s = db_stored db s"
  by (cases s) (simp_all add: db_stored_def primary_def)

lemma db_loses_primary:
  "(\<And>db. primary (f db) = primary db) \<Longrightarrow> (\<And>db. set (db_gc_pending (f db)) \<subseteq> set (db_gc_pending db)) \<Longrightarrow>
     keeps_repos f \<Longrightarrow> db_loses s X f"
  unfolding db_loses_def using db_stored_primary by blast

lemma pending_frames:
  "set (db_gc_pending (snd (gc_candidates_delete scope ids db))) \<subseteq> set (db_gc_pending db)"
  "set (db_gc_pending (gc_collect_blobs_repo l db)) \<subseteq> set (db_gc_pending db)"
  "set (db_gc_pending (gc_collect_blobs_catalog l db)) \<subseteq> set (db_gc_pending db)"
  "set (db_gc_pending (audit_append ts who action details db)) \<subseteq> set (db_gc_pending db)"
  by (auto simp: gc_candidates_delete_def gc_collect_blobs_repo_def gc_collect_blobs_catalog_def audit_append_def delete_rows_def)

lemma db_loses_frames [simp]:
  "db_loses s X (\<lambda>db. snd (gc_candidates_delete scope ids db))" "db_loses s X (gc_collect_blobs_repo l)"
  "db_loses s X (gc_collect_blobs_catalog l)" "db_loses s X (audit_append ts who action details)"
  by (rule db_loses_primary; simp add: pending_frames)+

lemma db_loses_cs:
  assumes "set l \<subseteq> X"
  shows "db_loses Gc_Cs X (\<lambda>db. snd (gc_collect_cs_repo l db))"
  unfolding db_loses_def
proof (intro conjI allI)
  fix db q
  show "db_stored db q - (if q = Gc_Cs then X else {}) \<subseteq> db_stored (snd (gc_collect_cs_repo l db)) q"
    using assms by (cases q) (auto simp: db_stored_def gc_collect_cs_repo_def delete_rows_def)
qed (simp_all add: gc_collect_cs_repo_def [of l] delete_rows_def keeps_repos_def)

lemma db_loses_trees:
  assumes "set l \<subseteq> X"
  shows "db_loses Gc_Tree X (gc_collect_trees_repo l)"
  unfolding db_loses_def
proof (intro conjI allI)
  fix db q
  show "db_stored db q - (if q = Gc_Tree then X else {}) \<subseteq> db_stored (gc_collect_trees_repo l db) q"
    using assms by (cases q) (auto simp: db_stored_def gc_collect_trees_repo_def om_get_filter)
qed (simp_all add: gc_collect_trees_repo_def [of l] keeps_repos_def)

lemma ledger_on_conn: "ledger (on_conn r f w) = (if has_file w r then ledger w else set (db_gc_pending (f (gw_cat w))))"
  by (simp add: ledger_def on_conn_def)

lemma loses_on_conn:
  assumes "db_loses s X f"
  shows "loses held s X w (on_conn r f w)"
proof -
  have k: "keeps_repos f" using assms by (simp add: db_loses_def)
  have "ledger (on_conn r f w) \<subseteq> ledger w"
    using assms unfolding ledger_on_conn by (auto simp: db_loses_def ledger_def)
  moreover have "db_stored (conn w q) p - (if p = s then X else {}) \<subseteq> db_stored (conn (on_conn r f w) q) p" for q p
    using assms unfolding conn_on_conn db_loses_def by (cases "q = r \<or> \<not> has_file w r \<and> \<not> has_file w q") auto
  ultimately show ?thesis using on_conn_frame [OF k, of r w] by (simp add: loses_def stored_def)
qed

lemma loses_on_catalog:
  assumes "db_loses s X f"
  shows "loses held s X w (on_catalog f w)"
proof -
  have k: "keeps_repos f" using assms by (simp add: db_loses_def)
  have "ledger (on_catalog f w) \<subseteq> ledger w" using assms by (auto simp: on_catalog_def db_loses_def ledger_def)
  moreover have "db_stored (conn w q) p - (if p = s then X else {}) \<subseteq> db_stored (conn (on_catalog f w) q) p" for q p
    using assms unfolding conn_on_catalog db_loses_def by (cases "has_file w q") auto
  ultimately show ?thesis using on_catalog_frame [OF k, of w] by (simp add: loses_def stored_def)
qed

lemma loses_each_repo: "(\<And>r. db_loses s X (f r)) \<Longrightarrow> loses held s X w (each_repo f w)"
  by (rule each_repo_inv) (auto intro: loses_trans loses_on_conn)

lemma loses_delete_candidates [simp]: "loses held s X w (delete_candidates scope l w)"
  unfolding delete_candidates_def by (rule loses_on_catalog) simp

lemma loses_blob_rows_gone [simp]: "loses held s X w (blob_rows_gone l w)"
  unfolding blob_rows_gone_def by (rule loses_trans [OF loses_each_repo loses_on_catalog]) simp_all

lemma loses_delete_bytes:
  assumes "cas_lawful env held" and "set l \<subseteq> X"
  shows "loses held Gc_Blob X w (snd (delete_bytes env l w))"
proof -
  obtain e s where d: "ge_delete env l (gw_cas w) = (e, s)" by force
  have "held (gw_cas w) - set l \<subseteq> held s" using assms(1) d unfolding cas_lawful_def by (metis snd_conv)
  then show ?thesis using assms(2)
    by (auto simp: loses_def delete_bytes_def d stored_def ledger_def repo_ids_def)
qed

section \<open>What a batch loses\<close>

lemma ledger_page_row: "i \<in> set (ledger_page s P n db) \<Longrightarrow> \<exists>row. ((s, i), row) \<in> set (db_gc_pending db) \<and> P i row"
  unfolding ledger_page_def by (drule in_set_takeD) auto

lemma collect_cs_repos_loses:
  "\<forall>(r, l) \<in> set shares. set l \<subseteq> X \<Longrightarrow> loses held Gc_Cs X w (snd (collect_cs_repos shares n w))"
proof (induction shares n w rule: collect_cs_repos.induct)
  case (2 r mine rest n w)
  then show ?case using loses_on_conn [OF db_loses_cs, of mine X] by (auto intro: loses_trans)
qed simp

lemma cs_batch_loses: "loses held Gc_Cs (set (gc_cs_candidates (gw_cat w) cutoff GC_BATCH_ROWS)) w (snd (cs_batch cutoff landed w))"
  (is "loses held Gc_Cs ?X w _")
proof (rule cs_batch_form [of w cutoff landed])
  fix u shares k v batch
  assume u: "u = w \<or> (\<exists>l. u = delete_candidates Gc_Cs l w)" and c: "collect_cs_repos shares 0 u = (k, v)"
    and shares: "\<forall>(r, l) \<in> set shares. r \<in> set (repo_ids u) \<and> set l \<subseteq> ?X \<and> (\<forall>i \<in> set l. \<not> cs_referenced (conn u r) i)"
    and ends: "snd (cs_batch cutoff landed w) \<in> {w, u, delete_candidates Gc_Cs batch v}"
  have u': "loses held Gc_Cs ?X w u" using u by auto
  have "loses held Gc_Cs ?X u v" using collect_cs_repos_loses [of shares ?X held u 0] shares c by auto
  then have "loses held Gc_Cs ?X w (delete_candidates Gc_Cs batch v)" using u' by (auto intro: loses_trans)
  then show ?thesis using u' ends by auto
qed

lemma probes_subset: "subtract_blob_probes w cands = Inr l \<Longrightarrow> set l \<subseteq> set cands"
  by (auto simp: subtract_blob_probes_def rbind_eq_Inr)

lemma blob_batch_loses:
  assumes "cas_lawful env held"
  shows "loses held Gc_Blob (set (gc_condemned_blob_candidates (gw_cat w) now cutoff GC_BATCH_BLOBS)) w (snd (blob_batch env now cutoff w))"
proof -
  define cands where "cands = gc_condemned_blob_candidates (gw_cat w) now cutoff GC_BATCH_BLOBS"
  show ?thesis
  proof (cases "cands = [] \<or> (\<exists>e. subtract_blob_probes w cands = Inl e)")
    case True
    then show ?thesis by (auto simp: blob_batch_def cands_def [symmetric])
  next
    case False
    then obtain l where l: "subtract_blob_probes w cands = Inr l" "cands \<noteq> []" by (cases "subtract_blob_probes w cands") auto
    note d = loses_delete_bytes [OF assms probes_subset [OF l(1)], of w]
    obtain e v where v: "delete_bytes env l w = (e, v)" by force
    then show ?thesis
      using d l by (cases e) (auto simp: blob_batch_def cands_def [symmetric] gc_bind_def intro: loses_trans)
  qed
qed

lemma tree_batch_loses:
  "loses held Gc_Tree (set (gc_tree_candidates (gw_cat w) cutoff GC_BATCH_ROWS)) w (snd (tree_batch env now cutoff cs blobs n w))"
proof -
  define cands where "cands = gc_tree_candidates (gw_cat w) cutoff GC_BATCH_ROWS"
  show ?thesis
  proof (cases "protected_trees w cands now")
    case (Inl e)
    then show ?thesis by (simp add: tree_batch_def cands_def [symmetric])
  next
    case (Inr protected)
    define batch where "batch = take GC_BATCH_ROWS (filter (\<lambda>i. i \<notin> set protected) cands)"
    define v where "v = delete_candidates Gc_Tree batch (if batch = [] then w else each_repo (\<lambda>_. gc_collect_trees_repo batch) w)"
    have "set batch \<subseteq> set cands" by (auto simp: batch_def dest: in_set_takeD)
    then have "loses held Gc_Tree (set cands) w v"
      unfolding v_def by (auto intro!: loses_trans [OF loses_each_repo [OF db_loses_trees] loses_delete_candidates])
    moreover have "loses held Gc_Tree (set cands) v (on_catalog (audit_append now who act d) v)" for who act d
      by (rule loses_on_catalog) simp
    ultimately show ?thesis
      unfolding tree_batch_def cands_def [symmetric] Inr sum.case Let_def batch_def [symmetric] v_def [symmetric]
      by (auto intro: loses_trans)
  qed
qed

section \<open>What the sweep may lose\<close>

text \<open>A ledger row that was there before the sweep and is old enough, a condemned one for a blob.\<close>

definition old_row :: "((gc_scope \<times> oid) \<times> gc_row) set \<Rightarrow> i64 \<Rightarrow> i64 \<Rightarrow> gc_scope \<Rightarrow> oid \<Rightarrow> bool" where
  "old_row L now cutoff s i \<longleftrightarrow>
     (\<exists>row. ((s, i), row) \<in> L \<and> gc_first row \<le> cutoff \<and> (s = Gc_Blob \<longrightarrow> (\<exists>t. gc_condemned row = Some t \<and> t < now)))"

definition garbage :: "gc_mark \<Rightarrow> ((gc_scope \<times> oid) \<times> gc_row) set \<Rightarrow> i64 \<Rightarrow> i64 \<Rightarrow> gc_scope \<Rightarrow> oid set" where
  "garbage m L now cutoff s = {i. \<not> mark_reachable m s i \<and> old_row L now cutoff s i}"

text \<open>A ledger row is one of \<open>L\<close>, perhaps condemned in this sweep, or was added in this sweep.\<close>

definition row_from :: "((gc_scope \<times> oid) \<times> gc_row) set \<Rightarrow> i64 \<Rightarrow> (gc_scope \<times> oid) \<times> gc_row \<Rightarrow> bool" where
  "row_from L now x \<longleftrightarrow> (case x of (key, row) \<Rightarrow>
     gc_first row = now \<and> gc_condemned row \<in> {None, Some now} \<or>
     (\<exists>old. (key, old) \<in> L \<and> gc_first row = gc_first old \<and> gc_condemned row \<in> {gc_condemned old, None, Some now}))"

definition keeps_stored ::
    "('s \<Rightarrow> oid set) \<Rightarrow> 's gc_world \<Rightarrow> (gc_scope \<Rightarrow> oid set) \<Rightarrow> 's gc_world \<Rightarrow> bool" where
  "keeps_stored held w0 G w \<longleftrightarrow> set (repo_ids w0) \<subseteq> set (repo_ids w) \<and>
     (\<forall>r \<in> set (repo_ids w0). \<forall>s. stored held w0 r s - G s \<subseteq> stored held w r s)"

text \<open>Other requests add data and no ledger row; an upload takes the condemnation of its blob back.\<close>

definition no_new_rows :: "((gc_scope \<times> oid) \<times> gc_row) set \<Rightarrow> ((gc_scope \<times> oid) \<times> gc_row) set \<Rightarrow> bool" where
  "no_new_rows L L' \<longleftrightarrow>
     (\<forall>(key, row) \<in> L'. \<exists>old. (key, old) \<in> L \<and> gc_first row = gc_first old \<and> gc_condemned row \<in> {gc_condemned old, None})"

lemma no_new_rows_refl [simp]: "no_new_rows L L"
  by (auto simp: no_new_rows_def)

lemma no_new_rowsD:
  "no_new_rows L L' \<Longrightarrow> (key, row) \<in> L' \<Longrightarrow>
     \<exists>old. (key, old) \<in> L \<and> gc_first row = gc_first old \<and> gc_condemned row \<in> {gc_condemned old, None}"
  by (auto simp: no_new_rows_def)

lemma row_from_no_new:
  "no_new_rows L L' \<Longrightarrow> \<forall>x \<in> L. row_from L0 now x \<Longrightarrow> x \<in> L' \<Longrightarrow> row_from L0 now x"
  by (cases x) (fastforce simp: row_from_def dest: no_new_rowsD)

definition others_only_add :: "('s \<Rightarrow> oid set) \<Rightarrow> 's gc_env \<Rightarrow> bool" where
  "others_only_add held env \<longleftrightarrow> (\<forall>n w. set (repo_ids w) \<subseteq> set (repo_ids (ge_others env n w)) \<and>
     (\<forall>r \<in> set (repo_ids w). \<forall>s. stored held w r s \<subseteq> stored held (ge_others env n w) r s) \<and>
     no_new_rows (ledger w) (ledger (ge_others env n w)))"

lemma tick_frames [simp]:
  "repo_ids (w\<lparr>gw_tick := n\<rparr>) = repo_ids w" "conn (w\<lparr>gw_tick := n\<rparr>) r = conn w r" "ledger (w\<lparr>gw_tick := n\<rparr>) = ledger w"
  "stored held (w\<lparr>gw_tick := n\<rparr>) r s = stored held w r s"
proof -
  show c: "conn (w\<lparr>gw_tick := n\<rparr>) r = conn w r" by (auto simp: conn_def has_file_def)
  show "stored held (w\<lparr>gw_tick := n\<rparr>) r s = stored held w r s" by (simp add: stored_def c)
qed (simp_all add: repo_ids_def ledger_def)

lemma arrive_adds:
  fixes w :: "'s gc_world"
  assumes "others_only_add held env"
  shows "set (repo_ids w) \<subseteq> set (repo_ids (arrive env w))" "no_new_rows (ledger w) (ledger (arrive env w))"
    and "r \<in> set (repo_ids w) \<Longrightarrow> stored held w r s \<subseteq> stored held (arrive env w) r s"
proof -
  define v where "v = ge_others env (gw_tick w) w"
  have "set (repo_ids w) \<subseteq> set (repo_ids v) \<and> (\<forall>r \<in> set (repo_ids w). \<forall>s. stored held w r s \<subseteq> stored held v r s) \<and> no_new_rows (ledger w) (ledger v)"
    using assms unfolding others_only_add_def v_def by blast
  then show "set (repo_ids w) \<subseteq> set (repo_ids (arrive env w))" "no_new_rows (ledger w) (ledger (arrive env w))"
    "r \<in> set (repo_ids w) \<Longrightarrow> stored held w r s \<subseteq> stored held (arrive env w) r s"
    by (simp_all add: arrive_def v_def [symmetric])
qed

lemma keeps_stored_arrive:
  fixes w :: "'s gc_world"
  shows "others_only_add held env \<Longrightarrow> keeps_stored held w0 G w \<Longrightarrow> keeps_stored held w0 G (arrive env w)"
  unfolding keeps_stored_def using arrive_adds [where w = w and env = env and held = held] by blast

lemma keeps_stored_loses:
  assumes "keeps_stored held w0 G w" and "loses held s X w v" and "X \<subseteq> G s"
  shows "keeps_stored held w0 G v"
  unfolding keeps_stored_def
proof (intro conjI ballI allI)
  fix r q assume "r \<in> set (repo_ids w0)"
  then have "stored held w0 r q - G q \<subseteq> stored held w r q" using assms(1) by (simp add: keeps_stored_def)
  moreover have "stored held w r q - (if q = s then X else {}) \<subseteq> stored held v r q" using assms(2) by (simp add: loses_def)
  ultimately show "stored held w0 r q - G q \<subseteq> stored held v r q" using assms(3) by (auto split: if_splits)
qed (use assms in \<open>simp add: keeps_stored_def loses_def\<close>)

lemma om_insert_rows: "set (om_insert k v m) \<subseteq> insert (k, v) (set m)"
proof (induction m)
  case (Cons x m)
  then show ?case by (cases x) auto
qed simp

lemma upload_no_new_rows:
  "no_new_rows (set (db_gc_pending db)) (set (db_gc_pending (snd (object_row_upsert i sz csz touched db))))"
proof (cases "om_get (db_gc_pending db) (Gc_Blob, i)")
  case (Some g)
  have "((Gc_Blob, i), g) \<in> set (db_gc_pending db)" using Some by (simp add: om_get_map_of map_of_SomeD)
  then show ?thesis using om_insert_rows [of "(Gc_Blob, i)" "g\<lparr>gc_condemned := None\<rparr>" "db_gc_pending db"] Some
    by (fastforce simp: object_row_upsert_def Let_def no_new_rows_def)
qed (simp add: object_row_upsert_def Let_def)

section \<open>The ledger update\<close>

lemma upsert_rows:
  "set (db_gc_pending (snd (gc_candidates_upsert s l now db))) \<subseteq>
     set (db_gc_pending db) \<union> {x. gc_first (snd x) = now \<and> gc_condemned (snd x) = None}"
proof (induction s l now db rule: gc_candidates_upsert.induct)
  case (2 s i l now db)
  show ?case
  proof (cases "om_get (db_gc_pending db) (s, i) \<noteq> None")
    case True
    then show ?thesis using 2(1) by simp
  next
    case False
    have "set (om_insert (s, i) \<lparr>gc_first = now, gc_condemned = None\<rparr> (db_gc_pending db)) \<subseteq>
        set (db_gc_pending db) \<union> {x. gc_first (snd x) = now \<and> gc_condemned (snd x) = None}"
      using om_insert_rows by fastforce
    then show ?thesis using 2(2) False by auto
  qed
qed simp

lemma keeps_stored_catalog:
  assumes "keeps_repos f" and "\<And>db. primary (f db) = primary db" and "keeps_stored held w0 G w"
  shows "keeps_stored held w0 G (on_catalog f w)"
proof -
  have "stored held (on_catalog f w) r s = stored held w r s" for r s
    using on_catalog_frame(3) [OF assms(1), of w] db_stored_primary [OF assms(2)] by (simp add: stored_def conn_on_catalog)
  then show ?thesis using assms(1,3) by (simp add: keeps_stored_def)
qed

lemma set_chunks: "n \<noteq> 0 \<Longrightarrow> set (concat (chunks n xs)) = set xs"
proof (induction n xs rule: chunks.induct)
  case (2 n x xs)
  then have "set (concat (chunks n (x # xs))) = set (take n (x # xs)) \<union> set (drop n (x # xs))" by simp
  then show ?case by (metis append_take_drop_id set_append)
qed simp

lemma scope_chunks_member:
  assumes "(s, ids) \<in> set ss" and "i \<in> set ids"
  shows "\<exists>c. (s, c) \<in> set (scope_chunks ss) \<and> i \<in> set c"
proof -
  have "i \<in> set (concat (chunks GC_BATCH_ROWS ids))" using assms(2) set_chunks [of GC_BATCH_ROWS ids] by (simp add: GC_BATCH_ROWS_def)
  then show ?thesis using assms(1) unfolding scope_chunks_def by fastforce
qed

lemma finite_mark_repo: "mark_repo parse db r now = Inr k \<Longrightarrow> finite {i. mark_reachable k s i}"
  by (cases s) (auto simp: mark_reachable_def mark_repo_def Let_def rbind_eq_Inr map_err_eq_Inr finite_closure)

lemma finite_mark_repos:
  "mark_repos parse w now rs k = Inr n \<Longrightarrow> finite {i. mark_reachable k s i} \<Longrightarrow> finite {i. mark_reachable n s i}"
proof (induction parse w now rs k rule: mark_repos.induct)
  case (2 parse w now r rs k)
  let ?k = "\<lambda>j. \<lparr>mk_cs = mk_cs k \<union> mk_cs j, mk_blobs = mk_blobs k \<union> mk_blobs j, mk_trees = mk_trees k \<union> mk_trees j\<rparr>"
  obtain db j where j: "read_conn w r = Inr db" "mark_repo parse db r now = Inr j" "mark_repos parse w now rs (?k j) = Inr n"
    using "2.prems"(1) by (auto simp: rbind_eq_Inr)
  have "{i. mark_reachable (?k j) s i} = {i. mark_reachable k s i} \<union> {i. mark_reachable j s i}"
    by (cases s) (auto simp: mark_reachable_def)
  then show ?case using "2.IH" [OF j(3)] finite_mark_repo [OF j(2)] "2.prems"(2) by simp
qed simp

lemma finite_marks: "gc_marks parse w now = Inr m \<Longrightarrow> finite {i. mark_reachable m s i}"
  unfolding gc_marks_def by (rule finite_mark_repos) (auto simp: empty_mark_def mark_reachable_def split: gc_scope.split)

lemma gc_write_ok:
  assumes "gc_write env f w = (Inr k, v)"
  shows "v = on_catalog (\<lambda>db. snd (f db)) (arrive env w)"
  using assms by (auto simp: gc_write_def Let_def on_catalog_def split: if_splits prod.splits)

text \<open>After the deletes, no row of an id they were given is left.\<close>

lemma ledger_deletes:
  assumes "others_only_add held env" and "ledger_writes env (\<lambda>s ids. gc_candidates_delete s (set ids)) ss n w = (Inr k, v)"
  shows "fst ` ledger v \<subseteq> fst ` ledger w \<and> (\<forall>(s, ids) \<in> set ss. \<forall>i \<in> set ids. \<forall>row. ((s, i), row) \<notin> ledger v)"
  using assms(2)
proof (induction ss arbitrary: n w)
  case (Cons p ss)
  obtain s ids where p: "p = (s, ids)" by force
  obtain j u where u: "gc_write env (gc_candidates_delete s (set ids)) w = (Inr j, u)"
    and rest: "ledger_writes env (\<lambda>s ids. gc_candidates_delete s (set ids)) ss (n + j) u = (Inr k, v)"
    using Cons.prems p by (auto split: prod.splits sum.splits)
  have "ledger u = {x \<in> ledger (arrive env w). \<not> (fst (fst x) = s \<and> snd (fst x) \<in> set ids)}"
    unfolding gc_write_ok [OF u] by (auto simp: ledger_def on_catalog_def gc_candidates_delete_def delete_rows_def)
  then have gone: "\<forall>i \<in> set ids. \<forall>row. ((s, i), row) \<notin> ledger u" by simp
  have "key \<in> fst ` ledger w" if "(key, row) \<in> ledger (arrive env w)" for key row
    using no_new_rowsD [OF arrive_adds(2) [OF assms(1)] that] by (auto intro: rev_image_eqI)
  then have "fst ` ledger u \<subseteq> fst ` ledger w" using \<open>ledger u = _\<close> by auto
  moreover have "\<forall>i \<in> set ids. \<forall>row. ((s, i), row) \<notin> ledger v"
  proof (intro ballI allI notI)
    fix i row assume i: "i \<in> set ids" "((s, i), row) \<in> ledger v"
    then have "(s, i) \<in> fst ` ledger v" by (rule_tac image_eqI [of _ _ "((s, i), row)"]) simp_all
    then have "(s, i) \<in> fst ` ledger u" using Cons.IH [OF rest] by blast
    then show False using gone i(1) by auto
  qed
  moreover have "fst ` ledger v \<subseteq> fst ` ledger w"
    by (rule subset_trans [OF conjunct1 [OF Cons.IH [OF rest]] \<open>fst ` ledger u \<subseteq> fst ` ledger w\<close>])
  ultimately show ?case using conjunct2 [OF Cons.IH [OF rest]] unfolding p by simp
qed simp

text \<open>Before the deletes: nothing is lost, and the rows come from \<open>L\<close> or from this sweep.\<close>

definition ledgering :: "('s \<Rightarrow> oid set) \<Rightarrow> 's gc_world \<Rightarrow> i64 \<Rightarrow> 's gc_world \<Rightarrow> bool" where
  "ledgering held w0 now w \<longleftrightarrow> keeps_stored held w0 (\<lambda>_. {}) w \<and> (\<forall>x \<in> ledger w. row_from (ledger w0) now x)"

text \<open>After them: also, no row of a marked id.\<close>

definition sweeping :: "('s \<Rightarrow> oid set) \<Rightarrow> 's gc_world \<Rightarrow> gc_mark \<Rightarrow> i64 \<Rightarrow> i64 \<Rightarrow> 's gc_world \<Rightarrow> bool" where
  "sweeping held w0 m now cutoff w \<longleftrightarrow> keeps_stored held w0 (garbage m (ledger w0) now cutoff) w \<and>
     (\<forall>((s, i), row) \<in> ledger w. row_from (ledger w0) now ((s, i), row) \<and> \<not> mark_reachable m s i)"

lemma ledgering_arrive: "others_only_add held env \<Longrightarrow> ledgering held w0 now w \<Longrightarrow> ledgering held w0 now (arrive env w)"
  unfolding ledgering_def using keeps_stored_arrive row_from_no_new [OF arrive_adds(2)] by blast

lemma sweeping_arrive:
  assumes "others_only_add held env" and "sweeping held w0 m now cutoff w"
  shows "sweeping held w0 m now cutoff (arrive env w)"
proof -
  have "row_from (ledger w0) now x" if "x \<in> ledger (arrive env w)" for x
    using row_from_no_new [OF arrive_adds(2) [OF assms(1)] _ that] assms(2) by (fastforce simp: sweeping_def)
  moreover have "\<not> mark_reachable m s i" if "((s, i), row) \<in> ledger (arrive env w)" for s i row
    using no_new_rowsD [OF arrive_adds(2) [OF assms(1)] that] assms(2) by (fastforce simp: sweeping_def)
  ultimately show ?thesis using keeps_stored_arrive [OF assms(1)] assms(2) unfolding sweeping_def by blast
qed

lemma ledgering_catalog:
  assumes "ledgering held w0 now w" and "keeps_repos f" and "\<And>db. primary (f db) = primary db"
    and "\<And>db. set (db_gc_pending (f db)) \<subseteq> set (db_gc_pending db) \<union> {x. gc_first (snd x) = now \<and> gc_condemned (snd x) = None}"
  shows "ledgering held w0 now (on_catalog f w)"
proof -
  have "ledger (on_catalog f w) \<subseteq> ledger w \<union> {x. gc_first (snd x) = now \<and> gc_condemned (snd x) = None}"
    using assms(4) by (simp add: ledger_def on_catalog_def)
  moreover have "row_from L now x" if "gc_first (snd x) = now" "gc_condemned (snd x) = None" for x L
    using that by (cases x) (simp add: row_from_def)
  ultimately show ?thesis using assms(1) keeps_stored_catalog [OF assms(2,3)] unfolding ledgering_def by blast
qed

lemma ledgering_ledger_writes:
  assumes "others_only_add held env"
  shows "gc_keeps (ledgering held w0 now) (ledger_writes env (\<lambda>s ids. gc_candidates_upsert s ids now) ss n)"
    and "gc_keeps (ledgering held w0 now) (ledger_writes env (\<lambda>s ids. gc_candidates_delete s (set ids)) ss n)"
proof -
  have up: "ledgering held w0 now w \<Longrightarrow> ledgering held w0 now (on_catalog (\<lambda>db. snd (gc_candidates_upsert s ids now db)) w)" for s ids w
    by (rule ledgering_catalog) (simp_all add: keeps_repos_def upsert_rows)
  have del: "ledgering held w0 now w \<Longrightarrow> ledgering held w0 now (on_catalog (\<lambda>db. snd (gc_candidates_delete s (set ids) db)) w)" for s ids w
    using pending_frames(1) by (intro ledgering_catalog) (simp, simp, simp, blast)
  show "gc_keeps (ledgering held w0 now) (ledger_writes env (\<lambda>s ids. gc_candidates_upsert s ids now) ss n)"
    "gc_keeps (ledgering held w0 now) (ledger_writes env (\<lambda>s ids. gc_candidates_delete s (set ids)) ss n)"
    by (intro ledger_writes_keeps ledgering_arrive [OF assms] up del; simp)+
qed

lemma gc_bind_Inr: "gc_bind m f w = (Inr b, v) \<Longrightarrow> \<exists>a u. m w = (Inr a, u) \<and> f a u = (Inr b, v)"
  by (auto simp: gc_bind_def split: prod.splits sum.splits)

definition gc_ledger_writes :: "'s gc_env \<Rightarrow> i64 \<Rightarrow> gc_mark \<Rightarrow> (nat \<times> nat, 's) gc_run" where
  "gc_ledger_writes env now m =
     gc_bind (gc_read env (\<lambda>w. Inr (gc_all_object_ids (gw_cat w)))) (\<lambda>rows.
     gc_bind (gc_read env (\<lambda>w. map_err (\<lambda>_. Gc_Internal) (ge_ids env (gw_cas w)))) (\<lambda>cas_ids.
     gc_bind (gc_read env (gather (\<lambda>db r. rbind (map_err (\<lambda>_. Gc_Internal) (gc_all_changesets db r))
                                             (\<lambda>all. Inr (map fst all))))) (\<lambda>all_cs.
     gc_bind (gc_read env (gather (\<lambda>db _. Inr (gc_all_tree_ids db)))) (\<lambda>all_trees.
     gc_bind (ledger_writes env (\<lambda>scope ids. gc_candidates_upsert scope ids now)
                (scope_chunks [(Gc_Cs, diff all_cs (mk_cs m)), (Gc_Blob, diff (remdups (rows @ cas_ids)) (mk_blobs m)),
                               (Gc_Tree, diff all_trees (mk_trees m))]) 0) (\<lambda>fresh.
     gc_bind (ledger_writes env (\<lambda>scope ids. gc_candidates_delete scope (set ids))
                (scope_chunks [(Gc_Cs, sorted_list_of_set (mk_cs m)), (Gc_Blob, sorted_list_of_set (mk_blobs m)),
                               (Gc_Tree, sorted_list_of_set (mk_trees m))]) 0) (\<lambda>repaired.
       gc_return (fresh, repaired)))))))"

lemma gc_ledger_split:
  "gc_ledger env now w =
     (case gc_marks (ge_parse env) (arrive env w) now of
        Inl e \<Rightarrow> (Inl e, arrive env w) | Inr m \<Rightarrow> gc_ledger_writes env now m (arrive env w))"
  unfolding gc_ledger_def gc_ledger_writes_def
  by (subst gc_bind_def) (simp add: gc_read_def [of env "\<lambda>w. gc_marks (ge_parse env) w now"] Let_def split: sum.split)

lemma ledgering_start: "ledgering held w0 now w0"
  by (auto simp: ledgering_def keeps_stored_def row_from_def)

lemma gc_ledger_effect:
  assumes others: "others_only_add held env" and run: "gc_ledger env now w = (r, v)"
  shows "ledgering held (arrive env w) now v"
    and "r = Inr counts \<Longrightarrow> \<exists>m. gc_marks (ge_parse env) (arrive env w) now = Inr m \<and>
           (\<forall>((s, i), row) \<in> ledger v. \<not> mark_reachable m s i)"
proof -
  let ?w = "arrive env w"
  have keeps: "gc_keeps (ledgering held ?w now) (gc_ledger_writes env now m)" for m
    unfolding gc_ledger_writes_def
    by (intro keeps_bind keeps_read keeps_return ledgering_ledger_writes [OF others] ledgering_arrive [OF others])
  show "ledgering held ?w now v"
  proof (cases "gc_marks (ge_parse env) ?w now")
    case (Inl e)
    then show ?thesis using run ledgering_start by (simp add: gc_ledger_split)
  next
    case (Inr m)
    then have "v = snd (gc_ledger_writes env now m ?w)" using run by (simp add: gc_ledger_split)
    then show ?thesis using keeps [of m] ledgering_start [of held ?w now] unfolding gc_keeps_def by simp
  qed
  assume "r = Inr counts"
  then obtain m where m: "gc_marks (ge_parse env) ?w now = Inr m" "gc_ledger_writes env now m ?w = (Inr counts, v)"
    using run unfolding gc_ledger_split by (cases "gc_marks (ge_parse env) ?w now") auto
  let ?ss = "[(Gc_Cs, sorted_list_of_set (mk_cs m)), (Gc_Blob, sorted_list_of_set (mk_blobs m)), (Gc_Tree, sorted_list_of_set (mk_trees m))]"
  obtain k u where k: "ledger_writes env (\<lambda>scope ids. gc_candidates_delete scope (set ids)) (scope_chunks ?ss) 0 u = (Inr k, v)"
    using m(2) unfolding gc_ledger_writes_def by (auto dest!: gc_bind_Inr simp: gc_return_def)
  have "\<not> mark_reachable m s i" if "((s, i), row) \<in> ledger v" for s i row
  proof
    assume i: "mark_reachable m s i"
    define l where "l = sorted_list_of_set {i. mark_reachable m s i}"
    have "(s, l) \<in> set ?ss" by (cases s) (simp_all add: l_def mark_reachable_def)
    moreover have "i \<in> set l" using i finite_marks [OF m(1), of s] by (simp add: l_def)
    ultimately obtain c where "(s, c) \<in> set (scope_chunks ?ss)" "i \<in> set c" using scope_chunks_member by blast
    then show False using ledger_deletes [OF others k] that by blast
  qed
  then show "\<exists>m. gc_marks (ge_parse env) ?w now = Inr m \<and> (\<forall>((s, i), row) \<in> ledger v. \<not> mark_reachable m s i)"
    using m(1) by auto
qed

section \<open>The batches\<close>

lemma sweeping_loses:
  assumes "sweeping held w0 m now cutoff w" and "loses held s X w v" and "cutoff < now"
    and "\<And>i. i \<in> X \<Longrightarrow> \<exists>row. ((s, i), row) \<in> ledger w \<and> gc_first row \<le> cutoff \<and>
           (s = Gc_Blob \<longrightarrow> (\<exists>t. gc_condemned row = Some t \<and> t < now))"
  shows "sweeping held w0 m now cutoff v"
proof -
  have "X \<subseteq> garbage m (ledger w0) now cutoff s"
  proof
    fix i assume "i \<in> X"
    then obtain row where row: "((s, i), row) \<in> ledger w" "gc_first row \<le> cutoff"
      "s = Gc_Blob \<longrightarrow> (\<exists>t. gc_condemned row = Some t \<and> t < now)" using assms(4) by blast
    then have "row_from (ledger w0) now ((s, i), row)" "\<not> mark_reachable m s i" using assms(1) by (auto simp: sweeping_def)
    moreover have "gc_first row \<noteq> now" using row(2) assms(3) by simp
    ultimately obtain old where "((s, i), old) \<in> ledger w0" "gc_first row = gc_first old"
      "gc_condemned row \<in> {gc_condemned old, None, Some now}" by (auto simp: row_from_def)
    then have "old_row (ledger w0) now cutoff s i" using row(2,3) unfolding old_row_def by (intro exI [of _ old]) auto
    then show "i \<in> garbage m (ledger w0) now cutoff s"
      using \<open>\<not> mark_reachable m s i\<close> by (simp add: garbage_def)
  qed
  then have "keeps_stored held w0 (garbage m (ledger w0) now cutoff) v"
    using assms(1) keeps_stored_loses [OF _ assms(2)] by (simp add: sweeping_def)
  moreover have "ledger v \<subseteq> ledger w" using assms(2) by (simp add: loses_def)
  ultimately show ?thesis using assms(1) unfolding sweeping_def by blast
qed

lemma sweeping_condemn:
  assumes "sweeping held w0 m now cutoff w"
  shows "sweeping held w0 m now cutoff (on_catalog (\<lambda>db. snd (gc_condemn_blobs l now db)) w)"
proof -
  let ?v = "on_catalog (\<lambda>db. snd (gc_condemn_blobs l now db)) w"
  have "row_from (ledger w0) now ((s, i), row) \<and> \<not> mark_reachable m s i" if row: "((s, i), row) \<in> ledger ?v" for s i row
  proof -
    obtain old where "((s, i), old) \<in> ledger w" "row = old \<or> row = old\<lparr>gc_condemned := Some now\<rparr>"
      using row by (auto simp: ledger_def on_catalog_def gc_condemn_blobs_def split: if_splits)
    then show ?thesis using assms by (fastforce simp: sweeping_def row_from_def)
  qed
  moreover have "keeps_stored held w0 (garbage m (ledger w0) now cutoff) ?v"
    using assms by (intro keeps_stored_catalog) (simp_all add: sweeping_def)
  ultimately show ?thesis unfolding sweeping_def by auto
qed

lemma sweep_steps:
  assumes cas: "cas_lawful env held" and others: "others_only_add held env" and grace: "cutoff < now"
  shows "gc_keeps (sweeping held w0 m now cutoff) (cs_step env cutoff landed n)"
    and "gc_keeps (sweeping held w0 m now cutoff) (condemn_step env now cutoff n)"
    and "gc_keeps (sweeping held w0 m now cutoff) (blob_step env now cutoff n)"
    and "gc_keeps (sweeping held w0 m now cutoff) (tree_step env now cutoff cs blobs n)"
proof -
  let ?I = "sweeping held w0 m now cutoff"
  have cs: "gc_keeps ?I (cs_batch cutoff landed)"
    unfolding gc_keeps_def
    by (intro allI impI, rule sweeping_loses [OF _ cs_batch_loses grace])
       (auto simp: gc_cs_candidates_def ledger_def dest: ledger_page_row)
  have blob: "gc_keeps ?I (blob_batch env now cutoff)"
    unfolding gc_keeps_def
    by (intro allI impI, rule sweeping_loses [OF _ blob_batch_loses [OF cas] grace])
       (auto simp: gc_condemned_blob_candidates_def ledger_def dest!: ledger_page_row split: option.splits)
  have tree: "gc_keeps ?I (tree_batch env now cutoff cs blobs n)"
    unfolding gc_keeps_def
    by (intro allI impI, rule sweeping_loses [OF _ tree_batch_loses grace])
       (auto simp: gc_tree_candidates_def ledger_def dest: ledger_page_row)
  have condemn: "gc_keeps ?I (condemn_batch now cutoff)"
    unfolding gc_keeps_def condemn_batch_def Let_def by (auto simp: sweeping_condemn split: sum.splits)
  note arrive = sweeping_arrive [OF others]
  show "gc_keeps ?I (cs_step env cutoff landed n)" "gc_keeps ?I (condemn_step env now cutoff n)"
    "gc_keeps ?I (blob_step env now cutoff n)" "gc_keeps ?I (tree_step env now cutoff cs blobs n)"
    unfolding cs_step_def condemn_step_def blob_step_def tree_step_def
    by (intro keeps_bind keeps_write_all arrive cs blob tree condemn; auto split: prod.split)+
qed

section \<open>The sweep\<close>

text \<open>What the tables reach in any repository, by the abstract mark.\<close>

definition reached :: "(bytes \<Rightarrow> json option) \<Rightarrow> 's gc_world \<Rightarrow> i64 \<Rightarrow> gc_scope \<Rightarrow> oid set" where
  "reached parse w now s = (\<Union>r \<in> set (repo_ids w). case s of
     Gc_Cs \<Rightarrow> reached_cs parse (conn w r) r
   | Gc_Blob \<Rightarrow> reached_blobs parse (conn w r) r now
   | Gc_Tree \<Rightarrow> reached_trees parse (conn w r) r now)"

lemma marked_reached: "gc_marks parse w now = Inr m \<Longrightarrow> mark_reachable m s i \<longleftrightarrow> i \<in> reached parse w now s"
  using gc_marks_exact [of parse w now m] by (cases s) (simp_all add: mark_reachable_def reached_def)

text \<open>C6: the grace period. Let the blob store delete only what it is told to, and list what it holds. Other requests may add
  data during the sweep and take condemnations back (as an upload does), but they remove nothing and add no ledger row.
  Then, as long as the grace period is positive, an object
  (a changeset or tree row of a repository, or the bytes of a blob) that is there when the sweep marks and gone
  when it ends, with success or with an error, was not reached from any ref, land, mapping or unexpired snapshot
  of any repository at the mark, and the ledger already held a row for it, first seen at or before \<open>now\<close> minus
  the grace period; for a blob the row was condemned before, so an earlier sweep had found it unreferenced.
  Nothing is found and collected in one sweep.\<close>
theorem gc_collects_only_old_garbage:
  fixes env :: "'s gc_env"
  assumes cas: "cas_lawful env held" and others: "others_only_add held env"
    and grace: "gc_cutoff env (gc_now env w) < gc_now env w" and run: "gc_sweep env w = Some (result, v)"
    and r: "r \<in> set (repo_ids (arrive env w))" and i: "i \<in> stored held (arrive env w) r s" "i \<notin> stored held v r s"
  shows "i \<notin> reached (ge_parse env) (arrive env w) (gc_now env w) s \<and>
    old_row (ledger (arrive env w)) (gc_now env w) (gc_cutoff env (gc_now env w)) s i"
proof -
  let ?now = "gc_now env w" and ?w = "arrive env w"
  let ?cutoff = "gc_cutoff env ?now"
  obtain c u where u: "gc_ledger env ?now w = (c, u)" by force
  note effect = gc_ledger_effect [OF others u]
  show ?thesis
  proof (cases c)
    case (Inl e)
    then have "v = u" using run u by (simp add: gc_sweep_def then_run_def Let_def)
    then show ?thesis using effect(1) r i by (fastforce simp: ledgering_def keeps_stored_def)
  next
    case (Inr counts)
    then obtain m where m: "gc_marks (ge_parse env) ?w ?now = Inr m" "\<forall>((s, i), row) \<in> ledger u. \<not> mark_reachable m s i"
      using effect(2) by blast
    let ?I = "sweeping held ?w m ?now ?cutoff"
    have "?I u" using effect(1) m(2) by (fastforce simp: ledgering_def sweeping_def keeps_stored_def)
    moreover have "runs_keep ?I (\<lambda>v.
        then_run (Some (gc_read env (landed_everywhere (ge_parse env)) v)) (\<lambda>landed v.
        then_run (batches (cs_step env ?cutoff landed) 0 v) (\<lambda>cs v.
        then_run (batches (condemn_step env ?now ?cutoff) 0 v) (\<lambda>condemned v.
        then_run (batches (blob_step env ?now ?cutoff) 0 v) (\<lambda>blobs v.
        then_run (batches (tree_step env ?now ?cutoff cs blobs) 0 v) (\<lambda>trees v.
          Some (Inr \<lparr>gr_candidates_new = fst counts, gr_candidates_repaired = snd counts, gr_cs_collected = cs,
                     gr_blobs_collected = blobs, gr_blobs_condemned = condemned, gr_trees_collected = trees,
                     gr_redactions_purged_cs = 0, gr_redactions_purged_blobs = 0\<rparr>, v)))))))"
      by (intro runs_keep_rules sweeping_arrive [OF others] sweep_steps [OF cas others grace])
    ultimately have "?I v"
      using run u Inr unfolding runs_keep_def gc_sweep_def Let_def by (cases counts) (fastforce simp: then_run_def [of "Some (Inr _, _)"])
    then have "i \<in> garbage m (ledger ?w) ?now ?cutoff s" using r i by (fastforce simp: sweeping_def keeps_stored_def)
    then show ?thesis using marked_reached [OF m(1)] by (simp add: garbage_def)
  qed
qed

theorem gc_collects_only_old_garbage_witness:
  "gc_sweep gs_env gs_world = Some (Inr gs_report, gs_end 13) \<and>
   replicate 32 2 \<in> stored set (arrive gs_env gs_world) 1 Gc_Cs \<and> replicate 32 2 \<notin> stored set (gs_end 13) 1 Gc_Cs \<and>
   replicate 32 2 \<notin> reached (ge_parse gs_env) (arrive gs_env gs_world) 100 Gc_Cs \<and>
   old_row (ledger (arrive gs_env gs_world)) 100 90 Gc_Cs (replicate 32 2)"
proof -
  have lawful: "cas_lawful gs_env set" by (auto simp: cas_lawful_def gs_env_def)
  have others: "others_only_add set gs_env" by (simp add: others_only_add_def gs_env_def)
  have here: "replicate 32 2 \<in> stored set (arrive gs_env gs_world) 1 Gc_Cs" "1 \<in> set (repo_ids (arrive gs_env gs_world))"
    and gone: "replicate 32 2 \<notin> stored set (gs_end 13) 1 Gc_Cs"
    by (simp_all add: stored_def db_stored_def gs_defs gc_runs gs_end_def audit_append_def)
  have "gc_cutoff gs_env (gc_now gs_env gs_world) < gc_now gs_env gs_world" by (simp add: gs_now)
  from gc_collects_only_old_garbage [OF lawful others this gs_sweep here(2,1) gone] show ?thesis
    using gs_sweep here(1) gone by (simp add: gs_now)
qed

end
