(* ===== verification/Gc_Stall.thy ===== *)
theory Gc_Stall
  imports Gc_Grace
begin

text \<open>
  Where the collector makes no progress. Its loops select a page of the oldest rows and drop from it what is still
  referred to; the page does not advance past such rows. So one pass over a short ledger collects one generation of
  an abandoned chain, and a page of referenced rows hides every younger row from all passes.
\<close>

section \<open>One changeset batch\<close>

lemma write_all_open:
  fixes f :: "('a, 's) gc_run"
  assumes "\<not> (gw_split (arrive env w) \<and> list_ex (\<lambda>r. om_get (gw_files (arrive env w)) r = None) (repo_ids (arrive env w)))"
    and "\<not> ge_cat_busy env (gw_tick w)" "\<not> ge_repo_busy env (gw_tick w)"
  shows "write_all env f w = f (arrive env w)"
  by (simp only: write_all_def Let_def assms if_False simp_thms)

lemma write_all_cases: "write_all env f w = f (arrive env w) \<or> (\<exists>e. write_all env f w = (Inl e, arrive env w))"
  by (auto simp: write_all_def Let_def)

lemma batches_stop:
  assumes "step a w = (Inr (b, False), v)"
  shows "batches step a w = Some (Inr b, v)"
  using batches_once [of step a w] assms by simp

text \<open>What a share of changesets nothing refers to leaves.\<close>

lemma collect_cs_repos_keeps:
  fixes w :: "'s gc_world"
  assumes "\<forall>(q, l) \<in> set shares. q \<in> set (repo_ids w) \<and> (\<forall>i \<in> set l. \<not> cs_referenced (conn w q) i)"
    and "cs_referenced (conn w r) p" and "p \<in> db_stored (conn w r) Gc_Cs"
    and "r \<in> set (repo_ids w)"
  shows "p \<in> db_stored (conn (snd (collect_cs_repos shares n w)) r) Gc_Cs"
proof -
  define I where "I = (\<lambda>v :: 's gc_world. p \<in> db_stored (conn v r) Gc_Cs \<and> has_file v = has_file w)"
  have "I (snd (collect_cs_repos shares n v))" if "I v" "\<forall>(q, l) \<in> set shares. \<forall>i \<in> set l. \<not> cs_referenced (conn w q) i" for n v
    using that
  proof (induction shares n v rule: collect_cs_repos.induct)
    case (2 q mine rest n v)
    show ?case
    proof (cases "mine = []")
      case True
      then show ?thesis using 2 by simp
    next
      case False
      have "p \<notin> set mine" if "q = r \<or> \<not> has_file w q \<and> \<not> has_file w r"
      proof -
        have "conn w q = conn w r" using that by (auto simp: conn_def)
        then show ?thesis using "2.prems"(2) assms(2) by auto
      qed
      then have "p \<in> db_stored (conn (on_conn q (\<lambda>db. snd (gc_collect_cs_repo mine db)) v) r) Gc_Cs"
        using "2.prems"(1) unfolding I_def conn_on_conn
        by (auto simp: db_stored_def gc_collect_cs_repo_def delete_rows_def)
      then have "I (on_conn q (\<lambda>db. snd (gc_collect_cs_repo mine db)) v)"
        using "2.prems"(1) by (simp add: I_def fun_eq_iff)
      then show ?thesis using "2.IH"(2) False "2.prems"(2) by simp
    qed
  qed simp
  moreover have "\<forall>(q, l) \<in> set shares. \<forall>i \<in> set l. \<not> cs_referenced (conn w q) i" using assms(1) by auto
  ultimately show ?thesis using assms(3) unfolding I_def by blast
qed

lemma same_primary_stored: "same_primary w v \<Longrightarrow> db_stored (conn v r) s = db_stored (conn w r) s"
  unfolding same_primary_def by (rule db_stored_primary) simp

lemma cs_batch_keeps_referenced:
  assumes "r \<in> set (repo_ids w)" and "cs_referenced (conn w r) p" and "p \<in> db_stored (conn w r) Gc_Cs"
  shows "p \<in> db_stored (conn (snd (cs_batch cutoff landed w)) r) Gc_Cs"
proof (rule cs_batch_form [of w cutoff landed])
  fix u shares k v batch
  assume u: "same_primary w u" and c: "collect_cs_repos shares 0 u = (k, v)"
    and shares: "\<forall>(r, l) \<in> set shares. r \<in> set (repo_ids u) \<and> set l \<subseteq> set (gc_cs_candidates (gw_cat w) cutoff GC_BATCH_ROWS) \<and>
           (\<forall>i \<in> set l. \<not> cs_referenced (conn u r) i)"
    and ends: "snd (cs_batch cutoff landed w) \<in> {w, u, delete_candidates Gc_Cs batch v}"
  have p: "p \<in> db_stored (conn u r) Gc_Cs" unfolding same_primary_stored [OF u] by (rule assms(3))
  have eq: "primary (conn u r) = primary (conn w r)" "repo_ids u = repo_ids w" using u by (simp_all add: same_primary_def)
  have "cs_referenced (conn u r) p" using assms(2) by (simp only: cs_referenced_primary [OF eq(1)])
  moreover have "r \<in> set (repo_ids u)" using assms(1) by (simp only: eq(2))
  ultimately have "p \<in> db_stored (conn v r) Gc_Cs"
    using collect_cs_repos_keeps [OF _ _ p, of shares 0] shares c by fastforce
  then have "p \<in> db_stored (conn (delete_candidates Gc_Cs batch v) r) Gc_Cs"
    unfolding same_primary_stored [OF same_primary_delete_candidates] .
  then show ?thesis using p assms(3) ends by auto
qed

text \<open>One generation per pass. When fewer than \<open>GC_BATCH_ROWS\<close> ledger rows are past the grace period, the
  changeset phase runs one batch, and a changeset that has a child row on its connection when the batch starts
  (garbage or not) is still there afterwards, although the comment in the code says that children
  collect after their parents' chains: an abandoned chain of \<open>n\<close> changesets takes \<open>n\<close> passes.\<close>
theorem gc_collects_one_generation:
  assumes short: "length (gc_cs_candidates (gw_cat (arrive env w)) cutoff GC_BATCH_ROWS) < GC_BATCH_ROWS"
    and r: "r \<in> set (repo_ids (arrive env w))"
    and child: "((q, c, n), p) \<in> set (db_parents (conn (arrive env w) r))"
    and p: "p \<in> cr_id ` set (db_changesets (conn (arrive env w) r))"
  shows "\<exists>res v. batches (cs_step env cutoff landed) 0 w = Some (res, v) \<and>
    p \<in> cr_id ` set (db_changesets (conn v r))"
proof -
  let ?w = "arrive env w"
  have ref: "cs_referenced (conn ?w r) p" using child by (fastforce simp: cs_referenced_def list_ex_iff)
  note keep = cs_batch_keeps_referenced [OF r ref, of cutoff landed]
  consider "write_all env (cs_batch cutoff landed) w = cs_batch cutoff landed ?w"
    | e where "write_all env (cs_batch cutoff landed) w = (Inl e, ?w)" using write_all_cases by blast
  then show ?thesis
  proof cases
    case 1
    obtain k v where x: "cs_batch cutoff landed ?w = (Inr (k, length (gc_cs_candidates (gw_cat ?w) cutoff GC_BATCH_ROWS)), v)"
      by (rule cs_batch_form [of ?w cutoff landed]) blast
    have v: "p \<in> cr_id ` set (db_changesets (conn v r))" using keep p x by (simp add: db_stored_def)
    show ?thesis using 1 x v short
      by (subst batches.simps) (simp add: cs_step_def gc_bind_def gc_return_def)
  next
    case 2
    then show ?thesis using p by (subst batches.simps) (simp add: cs_step_def gc_bind_def)
  qed
qed

theorem gc_collects_one_generation_witness:
  "\<exists>res v. batches (cs_step gs_env 90 []) 0 gs_world = Some (res, v) \<and>
     replicate 32 1 \<in> cr_id ` set (db_changesets (conn v 1))"
  by (rule gc_collects_one_generation [where q = 1 and c = "replicate 32 2" and n = 0])
     (simp_all add: gs_defs gc_runs gc_batching gc_cs_batching)

section \<open>A page of referenced rows\<close>

text \<open>The ledger page does not advance. If every changeset on the page of the \<open>GC_BATCH_ROWS\<close> oldest
  ledger rows past the grace period is there and something (its child, say) refers to it, the changeset phase
  changes nothing, whatever the younger rows hold; the next pass selects the same page. An abandoned chain
  of more than \<open>GC_BATCH_ROWS\<close> changesets whose tip is not among the smallest ids of the page is never
  collected, and neither is anything younger; the comment at the loop guard says that nothing collectible is
  skipped that the next pass would not select.\<close>
theorem gc_page_of_parents_starves:
  fixes w :: "'s gc_world" and env cutoff
  defines "v \<equiv> arrive env w"
  assumes ready: "\<not> (gw_split v \<and> list_ex (\<lambda>r. om_get (gw_files v) r = None) (repo_ids v))" "\<not> ge_cat_busy env (gw_tick w)" "\<not> ge_repo_busy env (gw_tick w)"
    and page: "\<forall>i \<in> set (gc_cs_candidates (gw_cat v) cutoff GC_BATCH_ROWS).
      (\<forall>r \<in> set (repo_ids v). cs_referenced (conn v r) i) \<and>
      (\<exists>r \<in> set (repo_ids v). \<exists>c \<in> set (db_changesets (conn v r)). cr_repo c = r \<and> cr_id c = i)"
  shows "batches (cs_step env cutoff landed) 0 w = Some (Inr 0, v)"
proof -
  define cands where "cands = gc_cs_candidates (gw_cat v) cutoff GC_BATCH_ROWS"
  have coll: "gc_cs_collectible_probe (conn v r) r cands = []" if "r \<in> set (repo_ids v)" for r
    using page that by (auto simp: gc_cs_collectible_probe_def cands_def filter_empty_conv)
  then have empty: "concat (map snd (map (\<lambda>r. (r, gc_cs_collectible_probe (conn v r) r cands)) (repo_ids v))) = []" by simp
  have phantoms: "filter (\<lambda>i. i \<notin> set (concat (map (\<lambda>r. gc_cs_present_among (conn v r) r cands) (repo_ids v)))) cands = []"
  proof (unfold filter_empty_conv, intro ballI notI)
    fix i assume i: "i \<in> set cands" "i \<notin> set (concat (map (\<lambda>r. gc_cs_present_among (conn v r) r cands) (repo_ids v)))"
    then obtain r c where "r \<in> set (repo_ids v)" "c \<in> set (db_changesets (conn v r))" "cr_repo c = r" "cr_id c = i"
      using page by (auto simp: cands_def)
    then have "i \<in> set (gc_cs_present_among (conn v r) r cands)" using i(1) by (auto simp: gc_cs_present_among_def)
    then show False using i(2) \<open>r \<in> _\<close> by auto
  qed
  have "cs_batch cutoff landed v = (Inr (0, length cands), v)"
    unfolding cs_batch_def cands_def [symmetric] Let_def empty phantoms by simp
  then have "cs_step env cutoff landed 0 w = (Inr (0, False), v)"
    using write_all_open [OF ready [unfolded v_def], of "cs_batch cutoff landed"] by (simp add: cs_step_def gc_bind_def gc_return_def v_def)
  then show ?thesis by (rule batches_stop)
qed

theorem gc_page_of_parents_starves_witness:
  "let w = gs_at (gs_db\<lparr>db_gc_pending := [((Gc_Cs, replicate 32 1), \<lparr>gc_first = 0, gc_condemned = None\<rparr>)]\<rparr>) [] 0 in
     batches (cs_step gs_env 90 []) 0 w = Some (Inr 0, w\<lparr>gw_tick := 1\<rparr>)"
proof -
  define w where "w = gs_at (gs_db\<lparr>db_gc_pending := [((Gc_Cs, replicate 32 1), \<lparr>gc_first = 0, gc_condemned = None\<rparr>)]\<rparr>) [] 0"
  have "batches (cs_step gs_env 90 []) 0 w = Some (Inr 0, arrive gs_env w)"
    by (rule gc_page_of_parents_starves)
       (simp_all add: w_def gs_defs gc_runs gc_batching gc_cs_batching)
  moreover have "arrive gs_env w = w\<lparr>gw_tick := 1\<rparr>" by (simp add: w_def gs_at_def arrive_def gs_env_def)
  ultimately show ?thesis by (simp add: w_def)
qed

section \<open>A page of referenced tombstones\<close>

lemma purge_blob_nothing: "gc_collect_blobs_catalog [] db = db"
proof -
  have "(\<lambda>((s :: gc_scope, i :: oid), _ :: gc_row). True) = (\<lambda>_. True)" by auto
  then show ?thesis by (simp add: gc_collect_blobs_catalog_def)
qed

text \<open>One page of tombstones is all the purge ever sees. If every blob on the purge's work list (the
  \<open>GC_BATCH_BLOBS\<close> oldest active tombstones) is still referred to in some repository, the blob phase of the
  redaction purge deletes no bytes and stamps no tombstone, whatever younger tombstones wait, and every later pass
  selects the same list until history moves past those blobs. A redacted blob usually stays referenced by its
  changesets, so after \<open>GC_BATCH_BLOBS\<close> redactions the purge of younger ones stops.\<close>
theorem redact_blob_purge_starves:
  fixes w :: "'s gc_world" and env
  defines "v \<equiv> arrive env w"
  assumes ready: "\<not> (gw_split v \<and> list_ex (\<lambda>r. om_get (gw_files v) r = None) (repo_ids v))" "\<not> ge_cat_busy env (gw_tick w)" "\<not> ge_repo_busy env (gw_tick w)"
    and page: "\<forall>i \<in> set (purge_work_list v). \<exists>r \<in> set (repo_ids v). blob_referenced (conn v r) i"
  shows "\<exists>u. batches (redact_blob_step env now cutoff) report w = Some (Inr report, u) \<and> gw_cas u = gw_cas v \<and>
    (\<forall>r. db_redactions (conn u r) = db_redactions (conn v r))"
proof -
  obtain referenced where ref: "referenced_anywhere v (purge_work_list v) = Inr referenced"
    and all: "set (purge_work_list v) \<subseteq> set referenced"
  proof (cases "purge_work_list v = []")
    case True
    then show ?thesis using that by (simp add: referenced_anywhere_def)
  next
    case False
    then obtain r where "r \<in> set (repo_ids v)" using page by (cases "purge_work_list v") auto
    then have single: "is_single v \<longleftrightarrow> \<not> gw_split v" by (auto simp: is_single_def)
    show ?thesis
    proof (cases "gw_split v")
      case True
      then show ?thesis using that page False single
        by (auto simp: referenced_anywhere_def gc_blob_referenced_among_def)
    next
      case split: False
      then have "\<forall>i \<in> set (purge_work_list v). blob_referenced (gw_cat v) i" using page by (simp add: conn_single)
      then show ?thesis using that False single split
        by (auto simp: referenced_anywhere_def gc_blob_referenced_among_def whole_probe_def)
    qed
  qed
  have none: "filter (\<lambda>i. i \<notin> set referenced) (purge_work_list v) = []" using all by (auto simp: filter_empty_conv)
  define fin where "fin = (if 0 < GC_BATCH_BLOBS \<and> pp_cs report + pp_blobs report + 0 > 0 then
      on_catalog (audit_append now (ascii ''system'') (ascii ''redact_purge'')
        (ge_print env (purge_details (pp_cs report) (pp_blobs report + 0)))) v else v)"
  have "on_catalog (gc_collect_blobs_catalog []) v = v" by (simp add: on_catalog_def purge_blob_nothing)
  then have "redact_blob_batch env now cutoff (pp_cs report) (pp_blobs report) v = (Inr 0, fin)"
    unfolding redact_blob_batch_def ref sum.case none Let_def filter.simps list.size
    by (simp add: gc_bind_def gc_return_def fin_def)
  then have "write_all env (redact_blob_batch env now cutoff (pp_cs report) (pp_blobs report)) w = (Inr 0, fin)"
    using write_all_open [OF ready [unfolded v_def], of "redact_blob_batch env now cutoff (pp_cs report) (pp_blobs report)"]
    by (simp add: v_def)
  then have "redact_blob_step env now cutoff report w = (Inr (report, False), fin)"
    by (simp add: redact_blob_step_def gc_bind_def gc_return_def GC_BATCH_BLOBS_def)
  moreover have "gw_cas fin = gw_cas v" by (simp add: fin_def)
  moreover have "db_redactions (conn fin r) = db_redactions (conn v r)" for r
    by (simp add: fin_def conn_on_catalog audit_append_def)
  ultimately show ?thesis using batches_stop [of "redact_blob_step env now cutoff" report w report fin] by blast
qed

text \<open>257 redacted blobs; the first 256 are referenced by a file change, the last one is not.\<close>

definition st_id :: "nat \<Rightarrow> oid" where
  "st_id k = [of_nat (k div 256), of_nat (k mod 256)] @ replicate 30 0"

definition st_db :: repo_db where
  "st_db = gs_db\<lparr>db_gc_pending := [],
     db_redactions := map (\<lambda>k. ((1, st_id k), \<lparr>rd_kind = ascii ''blob'', rd_path = None, rd_marked = int k, rd_purged = None\<rparr>)) [0..<257],
     db_file_changes := map (\<lambda>k. ((1, replicate 32 1, st_id k), \<lparr>ch_op = 1, ch_blob = Some (st_id k), ch_size = None, ch_exec = False\<rparr>)) [0..<256]\<rparr>"

definition st_world :: "nat \<Rightarrow> oid list gc_world" where
  "st_world n = gs_at st_db (map st_id [0..<257]) n"

lemma st_page: "purge_work_list (st_world n) = rev (remdups (rev (map st_id [0..<256])))"
proof -
  let ?row = "\<lambda>k. (st_id k, int k)"
  have sorted: "sort_key (\<lambda>(i, t). (t, i)) (map ?row [0..<m]) = map ?row [0..<m]" for m
    by (rule sort_key_id_if_sorted) (auto simp: sorted_iff_nth_mono le_less)
  have "redact_blob_tombstones_repo st_db 1 GC_BATCH_BLOBS = take GC_BATCH_BLOBS (sort_key (\<lambda>(i, t). (t, i)) (map ?row [0..<257]))"
    by (simp add: redact_blob_tombstones_repo_def st_db_def active_tombstone_def filter_map o_def)
  also have "\<dots> = take GC_BATCH_BLOBS (map ?row [0..<257])" by (simp only: sorted)
  also have "\<dots> = map ?row [0..<256]" by (simp add: GC_BATCH_BLOBS_def take_map take_upt)
  finally have "redact_blob_tombstones_repo st_db 1 GC_BATCH_BLOBS = map ?row [0..<256]" .
  moreover have "conn (st_world n) 1 = st_db" "repo_ids (st_world n) = [1]"
    by (simp_all add: st_world_def gs_at_def gc_runs) (simp add: st_db_def gs_db_def)
  ultimately show ?thesis
    by (simp add: purge_work_list_def Let_def sorted) (simp add: GC_BATCH_BLOBS_def o_def)
qed

theorem redact_blob_purge_starves_witness:
  "\<exists>u. batches (redact_blob_step gs_env 100 90) no_purge (st_world 0) = Some (Inr no_purge, u) \<and>
     tombstoned (conn u 1) 1 (ascii ''blob'') (st_id 256) \<and> \<not> blob_referenced (conn (st_world 0) 1) (st_id 256)"
proof -
  have a: "arrive gs_env (st_world 0) = st_world 1" by (simp add: arrive_def gs_env_def st_world_def gs_at_def)
  have c: "conn (st_world n) 1 = st_db" "repo_ids (st_world n) = [1]" "\<not> gw_split (st_world n)" for n
    by (simp_all add: st_world_def gs_at_def gc_runs) (simp add: st_db_def gs_db_def)
  have ref: "blob_referenced st_db (st_id k) \<longleftrightarrow> st_id k \<in> st_id ` {0..<256}" for k
    by (auto simp: blob_referenced_def list_ex_iff st_db_def gs_db_def entry_edges_def image_iff) (metis atLeast0LessThan lessThan_iff)
  have "\<exists>u. batches (redact_blob_step gs_env 100 90) no_purge (st_world 0) = Some (Inr no_purge, u) \<and>
      gw_cas u = gw_cas (st_world 1) \<and> (\<forall>r. db_redactions (conn u r) = db_redactions (conn (st_world 1) r))"
    using redact_blob_purge_starves [of gs_env "st_world 0" 100 90 no_purge]
    unfolding a by (simp add: c st_page ref) (simp add: gs_env_def)
  moreover have "st_id 256 \<notin> st_id ` {0..<256}"
  proof -
    have "hd (st_id k) = 0" if "k < 256" for k using that by (simp add: st_id_def)
    moreover have "hd (st_id 256) = 1" by (simp add: st_id_def)
    ultimately show ?thesis by force
  qed
  moreover have "tombstoned st_db 1 (ascii ''blob'') (st_id 256)"
    by (auto simp: tombstoned_def list_ex_iff st_db_def active_tombstone_def intro!: bexI [of _ 256])
  ultimately show ?thesis by (fastforce simp: c ref tombstoned_def)
qed

end
