(* ===== verification/Merge_Base.thy ===== *)
theory Merge_Base
  imports Repo_Db
begin

text \<open>
  The merge base of two changesets (\<open>crates/naatre-server/src/routes/history.rs\<close>): the seeded walk over two
  ancestor sets and the walk that first climbs the higher side over the derived skip entries. Both are
  parametrised by a lookup \<open>fetch\<close> that can fail; a failed lookup and a missing changeset are skipped alike.

  The loops run on a queue with a visited set and return when finitely many ids are found; \<open>None\<close> is a loop
  that does not return. A \<open>HashSet\<close> is a set.
\<close>

section \<open>The lookup\<close>

type_synonym ('e, 'n) lookup = "oid \<Rightarrow> 'e + 'n option"

text \<open>\<open>fetch(id).ok().flatten()\<close>\<close>

definition found :: "'e + 'n option \<Rightarrow> 'n option" where
  "found r = (case r of Inl _ \<Rightarrow> None | Inr n \<Rightarrow> n)"

type_synonym graph_node = "i64 \<times> oid list"

section \<open>The seeded walk\<close>

partial_function (option) ancestor_loop :: "('e, graph_node) lookup \<Rightarrow> oid list \<Rightarrow> oid set \<Rightarrow> oid set option" where
  "ancestor_loop fetch queue seen =
     (case queue of
        [] \<Rightarrow> Some seen
      | i # queue \<Rightarrow>
          if i \<in> seen then ancestor_loop fetch queue seen
          else (case found (fetch i) of
                  None \<Rightarrow> ancestor_loop fetch queue (insert i seen)
                | Some (_, parents) \<Rightarrow> ancestor_loop fetch (queue @ parents) (insert i seen)))"

definition better :: "oid set \<Rightarrow> oid set \<Rightarrow> oid \<Rightarrow> i64 \<Rightarrow> (i64 \<times> oid) option \<Rightarrow> (i64 \<times> oid) option" where
  "better ancestors excluded i generation best =
     (if i \<in> ancestors \<and> i \<notin> excluded \<and> (case best of None \<Rightarrow> True | Some (g, _) \<Rightarrow> g < generation)
      then Some (generation, i) else best)"

partial_function (option) best_loop ::
    "('e, graph_node) lookup \<Rightarrow> oid set \<Rightarrow> oid set \<Rightarrow> oid list \<Rightarrow> oid set \<Rightarrow> (i64 \<times> oid) option \<Rightarrow>
     (i64 \<times> oid) option option" where
  "best_loop fetch ancestors excluded queue seen best =
     (case queue of
        [] \<Rightarrow> Some best
      | i # queue \<Rightarrow>
          if i \<in> seen then best_loop fetch ancestors excluded queue seen best
          else (case found (fetch i) of
                  None \<Rightarrow> best_loop fetch ancestors excluded queue (insert i seen) best
                | Some (generation, parents) \<Rightarrow>
                    best_loop fetch ancestors excluded (queue @ parents) (insert i seen)
                      (better ancestors excluded i generation best)))"

definition merge_base_walk_seeded ::
    "('e, graph_node) lookup \<Rightarrow> oid list \<Rightarrow> oid list \<Rightarrow> oid set \<Rightarrow> oid option option" where
  "merge_base_walk_seeded fetch set_seeds walk_seeds excluded =
     Option.bind (ancestor_loop fetch set_seeds {}) (\<lambda>ancestors.
       map_option (map_option snd) (best_loop fetch ancestors excluded walk_seeds {} None))"

definition merge_base_walk :: "('e, graph_node) lookup \<Rightarrow> oid \<Rightarrow> oid \<Rightarrow> oid option option" where
  "merge_base_walk fetch a b = merge_base_walk_seeded fetch [a] [b] {}"

section \<open>The skip walk\<close>

record skip_edge =
  se_target :: oid
  se_hop :: u64
  se_generation :: i64
  se_pure :: bool

record skip_node =
  sk_generation :: i64
  sk_parents :: "oid list"
  sk_skips :: "skip_edge list"

text \<open>\<open>max_by_key(|e| e.hop)\<close>: the last of the largest.\<close>

definition max_by_hop :: "skip_edge list \<Rightarrow> skip_edge option" where
  "max_by_hop es =
     fold (\<lambda>e best. case best of None \<Rightarrow> Some e | Some b \<Rightarrow> if se_hop b \<le> se_hop e then Some e else Some b) es None"

definition jump_of :: "i64 \<Rightarrow> skip_node \<Rightarrow> skip_edge option" where
  "jump_of lo_gen hi = max_by_hop (filter (\<lambda>e. se_pure e \<and> lo_gen \<le> se_generation e) (sk_skips hi))"

text \<open>One accepted step: it must descend; a refused jump falls back to the first parent.\<close>

definition plain_step :: "('e, skip_node) lookup \<Rightarrow> skip_node \<Rightarrow> oid \<Rightarrow> (oid \<times> skip_node) option" where
  "plain_step fetch hi p =
     (case found (fetch p) of
        Some node \<Rightarrow> if sk_generation node < sk_generation hi then Some (p, node) else None
      | None \<Rightarrow> None)"

definition jump_step :: "('e, skip_node) lookup \<Rightarrow> skip_node \<Rightarrow> oid \<Rightarrow> (oid \<times> skip_node) option" where
  "jump_step fetch hi target =
     (case found (fetch target) of
        Some node \<Rightarrow>
          if sk_generation node < sk_generation hi then Some (target, node)
          else (case sk_parents hi of
                  p # _ \<Rightarrow> if p \<noteq> target then plain_step fetch hi p else None
                | [] \<Rightarrow> None)
      | None \<Rightarrow> None)"

definition climb_step :: "('e, skip_node) lookup \<Rightarrow> i64 \<Rightarrow> skip_node \<Rightarrow> (oid \<times> skip_node) option" where
  "climb_step fetch lo_gen hi =
     (case jump_of lo_gen hi of
        Some e \<Rightarrow> jump_step fetch hi (se_target e)
      | None \<Rightarrow> (case sk_parents hi of p # _ \<Rightarrow> plain_step fetch hi p | [] \<Rightarrow> None))"

definition CLIMB_MAX_STEPS :: nat where "CLIMB_MAX_STEPS = 100000"

fun climb :: "nat \<Rightarrow> ('e, skip_node) lookup \<Rightarrow> i64 \<Rightarrow> oid \<Rightarrow> skip_node \<Rightarrow> oid list \<Rightarrow> oid list \<times> oid" where
  "climb 0 fetch lo_gen hi_id hi frontier = (frontier, hi_id)"
| "climb (Suc n) fetch lo_gen hi_id hi frontier =
     (if sk_generation hi \<le> lo_gen then (frontier, hi_id)
      else let frontier = frontier @ drop 1 (sk_parents hi) in
        case climb_step fetch lo_gen hi of
          None \<Rightarrow> (frontier, hi_id)
        | Some (i, node) \<Rightarrow> climb n fetch lo_gen i node frontier)"

definition base_fetch :: "('e, skip_node) lookup \<Rightarrow> ('e, graph_node) lookup" where
  "base_fetch fetch i = rbind (fetch i) (\<lambda>n. Inr (map_option (\<lambda>n. (sk_generation n, sk_parents n)) n))"

definition merge_base_skip :: "('e, skip_node) lookup \<Rightarrow> oid \<Rightarrow> oid \<Rightarrow> oid set \<Rightarrow> oid option option" where
  "merge_base_skip fetch a b excluded =
     (case (found (fetch a), found (fetch b)) of
        (Some na, Some nb) \<Rightarrow>
          let (lo_id, lo, hi_id, hi) =
                (if sk_generation nb \<le> sk_generation na then (b, nb, a, na) else (a, na, b, nb));
              (frontier, hi_id) = climb CLIMB_MAX_STEPS fetch (sk_generation lo) hi_id hi []
          in merge_base_walk_seeded (base_fetch fetch) [lo_id] (frontier @ [hi_id]) excluded
      | _ \<Rightarrow> Some None)"

section \<open>The fast-forward gate of a ref move\<close>

text \<open>\<open>ref_contains\<close> of \<open>routes/refs.rs\<close>. A statement of the model does not fail.\<close>

definition ref_fetch :: "'a repo_db_scheme \<Rightarrow> i64 \<Rightarrow> (unit, graph_node) lookup" where
  "ref_fetch db repo i = Inr (map_option (\<lambda>g. (cg_generation g, cg_parents g)) (changeset_graph db repo i))"

definition ref_contains :: "'a repo_db_scheme \<Rightarrow> i64 \<Rightarrow> oid \<Rightarrow> oid \<Rightarrow> bool option" where
  "ref_contains db repo old new =
     (if found (ref_fetch db repo old) = None \<or> found (ref_fetch db repo new) = None then Some False
      else map_option (\<lambda>base. base = Some old) (merge_base_walk (ref_fetch db repo) old new))"

section \<open>Ancestors\<close>

definition parent_rel :: "('e, graph_node) lookup \<Rightarrow> (oid \<times> oid) set" where
  "parent_rel fetch = {(x, y). \<exists>g ps. found (fetch x) = Some (g, ps) \<and> y \<in> set ps}"

definition ancestors_of :: "('e, graph_node) lookup \<Rightarrow> oid set \<Rightarrow> oid set" where
  "ancestors_of fetch S = (parent_rel fetch)\<^sup>* `` S"

definition known :: "('e, graph_node) lookup \<Rightarrow> oid set" where
  "known fetch = {i. found (fetch i) \<noteq> None}"

definition gen_of :: "('e, graph_node) lookup \<Rightarrow> oid \<Rightarrow> i64" where
  "gen_of fetch i = fst (the (found (fetch i)))"

text \<open>The common ancestors that may be named, and the best of them.\<close>

definition candidates :: "('e, graph_node) lookup \<Rightarrow> oid set \<Rightarrow> oid set \<Rightarrow> oid set \<Rightarrow> oid set" where
  "candidates fetch S T excluded = (ancestors_of fetch S \<inter> ancestors_of fetch T \<inter> known fetch) - excluded"

definition best_common :: "('e, graph_node) lookup \<Rightarrow> oid set \<Rightarrow> oid option \<Rightarrow> bool" where
  "best_common fetch C r \<longleftrightarrow>
     (case r of None \<Rightarrow> C = {} | Some i \<Rightarrow> i \<in> C \<and> (\<forall>j \<in> C. gen_of fetch j \<le> gen_of fetch i))"

lemma found_simps [simp]: "found (Inl e) = None" "found (Inr n) = n"
  by (simp_all add: found_def)

lemma ancestors_base: "S \<subseteq> ancestors_of fetch S"
  by (auto simp: ancestors_of_def)

lemma ancestors_Un: "ancestors_of fetch (S \<union> T) = ancestors_of fetch S \<union> ancestors_of fetch T"
  by (auto simp: ancestors_of_def)

lemma ancestors_least:
  assumes "S \<subseteq> C" and "parent_rel fetch `` C \<subseteq> C"
  shows "ancestors_of fetch S \<subseteq> C"
proof
  fix y assume "y \<in> ancestors_of fetch S"
  then obtain x where "x \<in> S" "(x, y) \<in> (parent_rel fetch)\<^sup>*" by (auto simp: ancestors_of_def)
  from this(2,1) show "y \<in> C" by (induction rule: rtrancl_induct) (use assms in auto)
qed

lemma ancestors_closed: "parent_rel fetch `` ancestors_of fetch S \<subseteq> ancestors_of fetch S"
  by (auto simp: ancestors_of_def intro: rtrancl_into_rtrancl)

lemma ancestors_unfold: "ancestors_of fetch S = S \<union> ancestors_of fetch (parent_rel fetch `` S)"
proof
  have "parent_rel fetch `` (S \<union> ancestors_of fetch (parent_rel fetch `` S))
      \<subseteq> S \<union> ancestors_of fetch (parent_rel fetch `` S)"
    using ancestors_closed [of fetch "parent_rel fetch `` S"] ancestors_base [of "parent_rel fetch `` S" fetch] by blast
  then show "ancestors_of fetch S \<subseteq> S \<union> ancestors_of fetch (parent_rel fetch `` S)" by (intro ancestors_least) auto
  have "parent_rel fetch `` S \<subseteq> ancestors_of fetch S"
    using ancestors_closed [of fetch S] ancestors_base [of S fetch] by blast
  then have "ancestors_of fetch (parent_rel fetch `` S) \<subseteq> ancestors_of fetch S"
    by (intro ancestors_least ancestors_closed)
  then show "S \<union> ancestors_of fetch (parent_rel fetch `` S) \<subseteq> ancestors_of fetch S"
    using ancestors_base [of S fetch] by blast
qed

lemma ancestors_absorb: "T \<subseteq> ancestors_of fetch S \<Longrightarrow> ancestors_of fetch (S \<union> T) = ancestors_of fetch S"
proof -
  assume "T \<subseteq> ancestors_of fetch S"
  then have "ancestors_of fetch T \<subseteq> ancestors_of fetch S" by (intro ancestors_least ancestors_closed)
  then show ?thesis by (simp only: ancestors_Un) blast
qed

lemma ancestors_mono: "S \<subseteq> T \<Longrightarrow> ancestors_of fetch S \<subseteq> ancestors_of fetch T"
  by (auto simp: ancestors_of_def)

lemma parents_ancestors: "found (fetch i) = Some (g, ps) \<Longrightarrow> i \<in> S \<Longrightarrow> set ps \<subseteq> ancestors_of fetch S"
  using ancestors_closed [of fetch S] ancestors_base [of S fetch] by (auto simp: parent_rel_def)

section \<open>The visits of a walk\<close>

text \<open>The ids a walk visits, in order, from its queue and its visited set.\<close>

inductive visits :: "('e, graph_node) lookup \<Rightarrow> oid list \<Rightarrow> oid set \<Rightarrow> oid list \<Rightarrow> bool" for fetch where
  visits_done: "visits fetch [] seen []"
| visits_again: "i \<in> seen \<Longrightarrow> visits fetch queue seen order \<Longrightarrow> visits fetch (i # queue) seen order"
| visits_missing: "i \<notin> seen \<Longrightarrow> found (fetch i) = None \<Longrightarrow> visits fetch queue (insert i seen) order \<Longrightarrow>
    visits fetch (i # queue) seen (i # order)"
| visits_node: "i \<notin> seen \<Longrightarrow> found (fetch i) = Some (g, ps) \<Longrightarrow>
    visits fetch (queue @ ps) (insert i seen) order \<Longrightarrow> visits fetch (i # queue) seen (i # order)"

lemma visits_exist:
  assumes "finite (known fetch)"
  shows "\<exists>order. visits fetch queue seen order"
proof -
  let ?R = "measures [\<lambda>(queue :: oid list, seen). card (known fetch - seen), \<lambda>(queue, seen). length queue]"
  have wf: "wf ?R" by simp
  have "\<exists>order. visits fetch (fst s) (snd s) order" for s
  proof (induction s rule: wf_induct_rule [OF wf])
    case (1 s)
    obtain queue seen where s: "s = (queue, seen)" by force
    show ?case
    proof (cases queue)
      case Nil
      then show ?thesis using s by (auto intro: visits_done)
    next
      case (Cons i q)
      show ?thesis
      proof (cases "i \<in> seen")
        case True
        then show ?thesis using 1 [of "(q, seen)"] s Cons by (auto intro: visits_again)
      next
        case new: False
        show ?thesis
        proof (cases "found (fetch i)")
          case None
          then have "known fetch - insert i seen = known fetch - seen" by (auto simp: known_def)
          then show ?thesis using 1 [of "(q, insert i seen)"] s Cons new None by (auto intro: visits_missing)
        next
          case (Some n)
          obtain g ps where n: "n = (g, ps)" by force
          have "card (known fetch - insert i seen) < card (known fetch - seen)"
            using assms new Some by (intro psubset_card_mono) (auto simp: known_def)
          then show ?thesis using 1 [of "(q @ ps, insert i seen)"] s Cons new Some n by (auto intro: visits_node)
        qed
      qed
    qed
  qed
  from this [of "(queue, seen)"] show ?thesis by simp
qed

lemma visits_ancestor_loop: "visits fetch queue seen order \<Longrightarrow> ancestor_loop fetch queue seen = Some (seen \<union> set order)"
  by (induction rule: visits.induct) (subst ancestor_loop.simps; simp)+

definition pick :: "('e, graph_node) lookup \<Rightarrow> oid set \<Rightarrow> oid set \<Rightarrow> oid \<Rightarrow> (i64 \<times> oid) option \<Rightarrow> (i64 \<times> oid) option" where
  "pick fetch ancestors excluded i best =
     (case found (fetch i) of None \<Rightarrow> best | Some (g, _) \<Rightarrow> better ancestors excluded i g best)"

lemma visits_best_loop:
  "visits fetch queue seen order \<Longrightarrow>
   best_loop fetch ancestors excluded queue seen best = Some (fold (pick fetch ancestors excluded) order best)"
  by (induction arbitrary: best rule: visits.induct) (subst best_loop.simps; simp add: pick_def)+

lemma visits_set:
  assumes "visits fetch queue seen order" and "parent_rel fetch `` seen \<subseteq> seen \<union> set queue"
  shows "seen \<union> set order = ancestors_of fetch (seen \<union> set queue)"
  using assms
proof (induction rule: visits.induct)
  case (visits_done seen)
  then show ?case using ancestors_least [of seen seen fetch] ancestors_base [of seen fetch] by auto
next
  case (visits_again i seen queue order)
  then show ?case by (auto simp: insert_absorb)
next
  case (visits_missing i seen queue order)
  have "parent_rel fetch `` insert i seen \<subseteq> insert i seen \<union> set queue"
    using visits_missing.hyps(2) visits_missing.prems by (auto simp: parent_rel_def)
  from visits_missing.IH [OF this] show ?case by (simp add: Un_commute)
next
  case (visits_node i seen g ps queue order)
  have step: "parent_rel fetch `` {i} = set ps" using visits_node.hyps(2) by (auto simp: parent_rel_def)
  have "parent_rel fetch `` insert i seen \<subseteq> insert i seen \<union> set (queue @ ps)"
    using visits_node.prems step by auto
  from visits_node.IH [OF this]
  have "seen \<union> set (i # order) = ancestors_of fetch ((seen \<union> set (i # queue)) \<union> set ps)" by (simp add: ac_simps)
  also have "\<dots> = ancestors_of fetch (seen \<union> set (i # queue))"
    using visits_node.hyps(2) by (intro ancestors_absorb parents_ancestors) auto
  finally show ?case .
qed

section \<open>The seeded walk names a best common ancestor\<close>

definition best_so_far :: "('e, graph_node) lookup \<Rightarrow> oid set \<Rightarrow> (i64 \<times> oid) option \<Rightarrow> bool" where
  "best_so_far fetch C best \<longleftrightarrow>
     best_common fetch C (map_option snd best) \<and> (\<forall>g i. best = Some (g, i) \<longrightarrow> g = gen_of fetch i)"

lemma fold_pick:
  "best_so_far fetch {i \<in> set order. i \<in> ancestors \<and> i \<notin> excluded \<and> i \<in> known fetch}
     (fold (pick fetch ancestors excluded) order None)"
proof (induction order rule: rev_induct)
  case Nil
  then show ?case by (simp add: best_so_far_def best_common_def)
next
  case (snoc i order)
  let ?C = "{i \<in> set order. i \<in> ancestors \<and> i \<notin> excluded \<and> i \<in> known fetch}"
  let ?C' = "{j \<in> set (order @ [i]). j \<in> ancestors \<and> j \<notin> excluded \<and> j \<in> known fetch}"
  let ?best = "fold (pick fetch ancestors excluded) order None"
  show ?case
  proof (cases "i \<in> ancestors \<and> i \<notin> excluded \<and> i \<in> known fetch")
    case True
    then obtain g ps where n: "found (fetch i) = Some (g, ps)" by (auto simp: known_def)
    have C': "?C' = insert i ?C" using True by auto
    have g: "gen_of fetch i = g" using n by (simp add: gen_of_def)
    show ?thesis unfolding C' using snoc.IH True
      by (auto simp: pick_def n better_def best_so_far_def best_common_def g split: option.splits)
  next
    case False
    then have "?C' = ?C" by auto
    moreover have "pick fetch ancestors excluded i ?best = ?best"
      using False by (auto simp: pick_def better_def known_def split: option.split)
    ultimately show ?thesis using snoc.IH by simp
  qed
qed

text \<open>The merge-base walk returns, and names a best common ancestor: an id that is an ancestor of a set
  seed and of a walk seed, is a changeset the lookup finds, is not tombstoned, and has the largest generation
  of all such ids; it names nothing only when there is none. The only assumption is that the lookup finds
  finitely many ids, so that the two loops end on any graph, cyclic ones included.\<close>
theorem merge_base_walk_best:
  assumes "finite (known fetch)"
  shows "\<exists>r. merge_base_walk_seeded fetch set_seeds walk_seeds excluded = Some r \<and>
             best_common fetch (candidates fetch (set set_seeds) (set walk_seeds) excluded) r"
proof -
  obtain os ws where v: "visits fetch set_seeds {} os" "visits fetch walk_seeds {} ws"
    using visits_exist [OF assms] by blast
  have sets: "set os = ancestors_of fetch (set set_seeds)" "set ws = ancestors_of fetch (set walk_seeds)"
    using visits_set [OF v(1)] visits_set [OF v(2)] by simp_all
  let ?best = "fold (pick fetch (set os) excluded) ws None"
  have r: "merge_base_walk_seeded fetch set_seeds walk_seeds excluded = Some (map_option snd ?best)"
    by (simp add: merge_base_walk_seeded_def visits_ancestor_loop [OF v(1)] visits_best_loop [OF v(2)])
  have "{i \<in> set ws. i \<in> set os \<and> i \<notin> excluded \<and> i \<in> known fetch} =
      candidates fetch (set set_seeds) (set walk_seeds) excluded"
    unfolding candidates_def sets by blast
  then have "best_common fetch (candidates fetch (set set_seeds) (set walk_seeds) excluded) (map_option snd ?best)"
    using fold_pick [of fetch ws "set os" excluded] by (simp add: best_so_far_def)
  then show ?thesis using r by blast
qed

section \<open>Spans\<close>

text \<open>Along parent edges the generation falls.\<close>

definition descending :: "('e, graph_node) lookup \<Rightarrow> bool" where
  "descending fetch \<longleftrightarrow>
     (\<forall>x y g ps g' qs. found (fetch x) = Some (g, ps) \<longrightarrow> y \<in> set ps \<longrightarrow> found (fetch y) = Some (g', qs) \<longrightarrow> g' < g)"

text \<open>From an id down its first parents to another, every changeset between the two with one parent.\<close>

inductive pure_span :: "('e, graph_node) lookup \<Rightarrow> oid \<Rightarrow> oid \<Rightarrow> bool" for fetch where
  span_edge: "found (fetch x) = Some (g, t # ps) \<Longrightarrow> pure_span fetch x t"
| span_step: "found (fetch x) = Some (g, p # ps) \<Longrightarrow> found (fetch p) = Some (g', [q]) \<Longrightarrow> pure_span fetch p t \<Longrightarrow>
    pure_span fetch x t"

lemma pure_span_trans:
  "pure_span fetch x m \<Longrightarrow> found (fetch m) = Some (g, [q]) \<Longrightarrow> pure_span fetch m t \<Longrightarrow> pure_span fetch x t"
  by (induction rule: pure_span.induct) (auto intro: span_step)

lemma pure_span_source: "pure_span fetch x t \<Longrightarrow> \<exists>g p ps. found (fetch x) = Some (g, p # ps)"
  by (cases rule: pure_span.cases) auto

text \<open>The known ids of a generation at most \<open>L\<close>.\<close>

definition low :: "('e, graph_node) lookup \<Rightarrow> i64 \<Rightarrow> oid set" where
  "low fetch L = {i \<in> known fetch. gen_of fetch i \<le> L}"

lemma descending_step:
  "descending fetch \<Longrightarrow> found (fetch x) = Some (g, ps) \<Longrightarrow> y \<in> set ps \<Longrightarrow> found (fetch y) = Some (g', qs) \<Longrightarrow> g' < g"
  unfolding descending_def by blast

lemma pure_span_descends:
  assumes "pure_span fetch x t" and "descending fetch" and "found (fetch t) = Some (gt, qs)"
    and "found (fetch x) = Some (gx, ps)"
  shows "gt < gx"
  using assms
proof (induction arbitrary: gx ps rule: pure_span.induct)
  case (span_edge x g t ps')
  then show ?case using descending_step [of fetch x g "t # ps'" t gt qs] by simp
next
  case (span_step x g p ps' g' q t)
  then have "gt < g'" by blast
  moreover have "g' < g" using descending_step [OF span_step.prems(1) span_step.hyps(1) _ span_step.hyps(2)] by simp
  ultimately show ?case using span_step.hyps(1) span_step.prems(3) by simp
qed

lemma ancestors_below:
  assumes "descending fetch" and "y \<in> ancestors_of fetch {lo}" and "y \<in> known fetch"
  shows "y = lo \<or> gen_of fetch y < gen_of fetch lo"
proof -
  have "(lo, y) \<in> (parent_rel fetch)\<^sup>*" using assms(2) by (auto simp: ancestors_of_def)
  then have "y \<in> known fetch \<longrightarrow> y = lo \<or> gen_of fetch y < gen_of fetch lo"
  proof (induction rule: rtrancl_induct)
    case (step x y)
    obtain g ps where x: "found (fetch x) = Some (g, ps)" "y \<in> set ps" using step.hyps(2) by (auto simp: parent_rel_def)
    then have "x \<in> known fetch" by (simp add: known_def)
    then have "x = lo \<or> gen_of fetch x < gen_of fetch lo" using step.IH by blast
    moreover have "gen_of fetch y < gen_of fetch x" if "y \<in> known fetch"
      using that x descending_step [OF assms(1) x] by (auto simp: known_def gen_of_def)
    ultimately show ?case by force
  qed simp
  then show ?thesis using assms(3) by blast
qed

lemma ancestors_low:
  assumes "descending fetch" and "lo \<in> known fetch"
  shows "ancestors_of fetch {lo} \<inter> known fetch \<subseteq> low fetch (gen_of fetch lo)"
  using ancestors_below [OF assms(1)] by (fastforce simp: low_def)

text \<open>Above the generation \<open>L\<close> an id can be replaced by its parents.\<close>

lemma replace_by_parents:
  assumes "found (fetch x) = Some (g, ps)" and "L < g"
  shows "ancestors_of fetch {x} \<inter> low fetch L = ancestors_of fetch (set ps) \<inter> low fetch L"
proof -
  have ps: "parent_rel fetch `` {x} = set ps" using assms(1) by (auto simp: parent_rel_def)
  have "ancestors_of fetch {x} = {x} \<union> ancestors_of fetch (set ps)"
    using ancestors_unfold [of fetch "{x}"] unfolding ps .
  moreover have "x \<notin> low fetch L" using assms by (simp add: low_def gen_of_def)
  ultimately show ?thesis by auto
qed

text \<open>And by its other parents and the end of a pure span.\<close>

lemma replace_by_span:
  assumes "pure_span fetch x t" and "descending fetch" and "found (fetch t) = Some (gt, qs)" and "L \<le> gt"
    and "found (fetch x) = Some (gx, p # ps)"
  shows "ancestors_of fetch {x} \<inter> low fetch L = ancestors_of fetch (set ps \<union> {t}) \<inter> low fetch L"
  using assms
proof (induction arbitrary: gx p ps rule: pure_span.induct)
  case (span_edge x g t ps')
  have "pure_span fetch x t" using span_edge.hyps by (rule pure_span.span_edge)
  then have "L < gx" using pure_span_descends span_edge.prems by fastforce
  then show ?case using replace_by_parents [of fetch x gx "p # ps" L] span_edge.hyps span_edge.prems(4) by simp
next
  case (span_step x g p' ps' g' q t)
  have eq: "p' = p" "ps' = ps" "g = gx" using span_step.hyps(1) span_step.prems(4) by simp_all
  have "gt < g'" using pure_span_descends [OF span_step.hyps(3) span_step.prems(1,2) span_step.hyps(2)] .
  moreover have "g' < gx"
    using descending_step [OF span_step.prems(1) span_step.hyps(1) _ span_step.hyps(2)] eq by simp
  ultimately have "L < gx" using span_step.prems(3) by simp
  then have "ancestors_of fetch {x} \<inter> low fetch L = ancestors_of fetch (set ps \<union> {p}) \<inter> low fetch L"
    using replace_by_parents [of fetch x gx "p # ps" L] span_step.prems(4) by simp
  also have "\<dots> = (ancestors_of fetch (set ps) \<inter> low fetch L) \<union> (ancestors_of fetch {p} \<inter> low fetch L)"
    by (simp only: ancestors_Un) blast
  also have "ancestors_of fetch {p} \<inter> low fetch L = ancestors_of fetch {t} \<inter> low fetch L"
    using span_step.IH [OF span_step.prems(1,2,3) span_step.hyps(2)] eq by simp
  finally show ?case by (simp only: ancestors_Un) blast
qed

section \<open>The climb keeps the common ancestors\<close>

text \<open>What the derived skip entries promise: a pure entry spans single-parent changesets only, and carries the
  generation of its target.\<close>

definition skip_sound :: "('e, skip_node) lookup \<Rightarrow> oid \<Rightarrow> skip_edge \<Rightarrow> bool" where
  "skip_sound fetch x e \<longleftrightarrow>
     pure_span (base_fetch fetch) x (se_target e) \<and>
     (\<forall>m. found (fetch (se_target e)) = Some m \<longrightarrow> se_generation e = sk_generation m)"

definition skips_sound :: "('e, skip_node) lookup \<Rightarrow> bool" where
  "skips_sound fetch \<longleftrightarrow>
     (\<forall>x n. found (fetch x) = Some n \<longrightarrow> (\<forall>e \<in> set (sk_skips n). se_pure e \<longrightarrow> skip_sound fetch x e))"

lemma found_base_fetch: "found (base_fetch fetch i) = map_option (\<lambda>n. (sk_generation n, sk_parents n)) (found (fetch i))"
  by (cases "fetch i") (simp_all add: base_fetch_def)

lemma known_base_fetch: "known (base_fetch fetch) = {i. found (fetch i) \<noteq> None}"
  by (simp add: known_def found_base_fetch)

lemma max_by_hop_mem: "max_by_hop es = Some e \<Longrightarrow> e \<in> set es"
proof -
  have "fold (\<lambda>e best. case best of None \<Rightarrow> Some e | Some b \<Rightarrow> if se_hop b \<le> se_hop e then Some e else Some b) es b = Some e \<Longrightarrow>
      e \<in> set es \<or> b = Some e" for b
    by (induction es arbitrary: b) (auto split: option.splits if_splits)
  then show "max_by_hop es = Some e \<Longrightarrow> e \<in> set es" unfolding max_by_hop_def by fastforce
qed

text \<open>An accepted step goes to the first parent, or to the end of a pure span that stays above the lower side.\<close>

lemma climb_step_cases:
  assumes "climb_step fetch lo_gen hi = Some (i, node)"
  shows "found (fetch i) = Some node \<and>
         ((\<exists>ps. sk_parents hi = i # ps) \<or>
          (\<exists>e \<in> set (sk_skips hi). se_pure e \<and> lo_gen \<le> se_generation e \<and> se_target e = i))"
proof (cases "jump_of lo_gen hi")
  case None
  then show ?thesis using assms by (auto simp: climb_step_def plain_step_def split: list.splits option.splits if_splits)
next
  case (Some e)
  then have "e \<in> set (sk_skips hi)" "se_pure e" "lo_gen \<le> se_generation e"
    using max_by_hop_mem unfolding jump_of_def by fastforce+
  then show ?thesis using assms Some
    by (auto simp: climb_step_def jump_step_def plain_step_def split: list.splits option.splits if_splits)
qed

lemma climb_step_common:
  assumes "descending (base_fetch fetch)" and "skips_sound fetch" and "found (fetch hi_id) = Some hi"
    and "L < sk_generation hi" and "climb_step fetch L hi = Some (i, node)"
  shows "ancestors_of (base_fetch fetch) {hi_id} \<inter> low (base_fetch fetch) L =
         ancestors_of (base_fetch fetch) (set (drop 1 (sk_parents hi)) \<union> {i}) \<inter> low (base_fetch fetch) L"
proof -
  have hi: "found (base_fetch fetch hi_id) = Some (sk_generation hi, sk_parents hi)"
    using assms(3) by (simp add: found_base_fetch)
  consider (parent) ps where "sk_parents hi = i # ps"
    | (jump) e where "e \<in> set (sk_skips hi)" "se_pure e" "L \<le> se_generation e" "se_target e = i"
    using climb_step_cases [OF assms(5)] by blast
  then show ?thesis
  proof cases
    case parent
    then show ?thesis using replace_by_parents [of "base_fetch fetch" hi_id, OF hi assms(4)] by simp
  next
    case jump
    have sound: "skip_sound fetch hi_id e" using assms(2,3) jump(1,2) by (auto simp: skips_sound_def)
    have node: "found (fetch i) = Some node" using climb_step_cases [OF assms(5)] by blast
    have span: "pure_span (base_fetch fetch) hi_id i" using sound jump(4) by (simp add: skip_sound_def)
    have gen: "L \<le> sk_generation node" using sound jump(3,4) node by (simp add: skip_sound_def)
    have i: "found (base_fetch fetch i) = Some (sk_generation node, sk_parents node)"
      using node by (simp add: found_base_fetch)
    obtain p ps where ps: "sk_parents hi = p # ps" using pure_span_source [OF span] hi by auto
    show ?thesis using replace_by_span [OF span assms(1) i gen] hi ps by simp
  qed
qed

lemma climb_common:
  assumes "descending (base_fetch fetch)" and "skips_sound fetch" and "found (fetch hi_id) = Some hi"
    and "climb n fetch L hi_id hi frontier = (frontier', hi_id')"
  shows "ancestors_of (base_fetch fetch) (set frontier \<union> {hi_id}) \<inter> low (base_fetch fetch) L =
         ancestors_of (base_fetch fetch) (set frontier' \<union> {hi_id'}) \<inter> low (base_fetch fetch) L"
  using assms(3,4)
proof (induction n arbitrary: hi_id hi frontier)
  case (Suc n)
  show ?case
  proof (cases "sk_generation hi \<le> L")
    case False
    let ?rest = "drop 1 (sk_parents hi)"
    have hi: "found (base_fetch fetch hi_id) = Some (sk_generation hi, sk_parents hi)"
      using Suc.prems(1) by (simp add: found_base_fetch)
    show ?thesis
    proof (cases "climb_step fetch L hi")
      case None
      have "set ?rest \<subseteq> ancestors_of (base_fetch fetch) {hi_id}"
        using parents_ancestors [of "base_fetch fetch" hi_id, OF hi, of "{hi_id}"] set_drop_subset [of 1 "sk_parents hi"] by auto
      then have "set ?rest \<subseteq> ancestors_of (base_fetch fetch) (set frontier \<union> {hi_id})"
        using ancestors_mono [of "{hi_id}" "set frontier \<union> {hi_id}" "base_fetch fetch"] by blast
      note absorb = ancestors_absorb [OF this]
      have "frontier' = frontier @ ?rest" "hi_id' = hi_id" using Suc.prems(2) False None by (simp_all add: Let_def)
      then have "set frontier' \<union> {hi_id'} = (set frontier \<union> {hi_id}) \<union> set ?rest" by auto
      then show ?thesis using absorb by simp
    next
      case (Some s)
      obtain i node where s: "s = (i, node)" by force
      have next_hi: "found (fetch i) = Some node" using climb_step_cases [OF Some [unfolded s]] by blast
      have "ancestors_of (base_fetch fetch) (set frontier \<union> {hi_id}) \<inter> low (base_fetch fetch) L =
          (ancestors_of (base_fetch fetch) (set frontier) \<inter> low (base_fetch fetch) L) \<union>
          (ancestors_of (base_fetch fetch) {hi_id} \<inter> low (base_fetch fetch) L)"
        by (simp only: ancestors_Un) blast
      also have "\<dots> = ancestors_of (base_fetch fetch) (set (frontier @ ?rest) \<union> {i}) \<inter> low (base_fetch fetch) L"
        unfolding climb_step_common [OF assms(1,2) Suc.prems(1) _ Some [unfolded s], OF False [unfolded not_le]]
        by (simp only: ancestors_Un set_append) blast
      also have "\<dots> = ancestors_of (base_fetch fetch) (set frontier' \<union> {hi_id'}) \<inter> low (base_fetch fetch) L"
        by (rule Suc.IH [OF next_hi]) (use Suc.prems(2) False Some s in \<open>simp add: Let_def\<close>)
      finally show ?thesis .
    qed
  qed (use Suc.prems in simp)
qed simp

lemma candidates_commute: "candidates fetch S T excluded = candidates fetch T S excluded"
  by (auto simp: candidates_def)

lemma candidates_climb:
  assumes "descending (base_fetch fetch)" and "skips_sound fetch" and "found (fetch hi_id) = Some hi"
    and "found (fetch lo_id) = Some lo" and "climb n fetch (sk_generation lo) hi_id hi [] = (frontier, hi_id')"
  shows "candidates (base_fetch fetch) {lo_id} {hi_id} excluded =
         candidates (base_fetch fetch) {lo_id} (set (frontier @ [hi_id'])) excluded"
proof -
  have lo: "lo_id \<in> known (base_fetch fetch)" "gen_of (base_fetch fetch) lo_id = sk_generation lo"
    using assms(4) by (simp_all add: known_base_fetch gen_of_def found_base_fetch)
  have "ancestors_of (base_fetch fetch) {lo_id} \<inter> known (base_fetch fetch) \<subseteq> low (base_fetch fetch) (sk_generation lo)"
    using ancestors_low [OF assms(1) lo(1)] lo(2) by simp
  then show ?thesis using climb_common [OF assms(1,2,3,5)] by (auto simp: candidates_def)
qed

text \<open>C10: climbing over the derived skip entries changes nothing. In a finite history where generations fall along parent edges
  and every pure entry spans single-parent changesets, \<open>merge_base_skip\<close> returns and names a best common ancestor
  of its two arguments, exactly what the plain walk promises, whatever the hop counts, the impure entries
  and the tombstones are, and also where the climb is cut off by its step bound.\<close>
theorem merge_base_skip_exact:
  assumes "finite {i. found (fetch i) \<noteq> None}" and "descending (base_fetch fetch)" and "skips_sound fetch"
  shows "\<exists>r. merge_base_skip fetch a b excluded = Some r \<and>
             best_common (base_fetch fetch) (candidates (base_fetch fetch) {a} {b} excluded) r"
proof -
  let ?f = "base_fetch fetch"
  have fin: "finite (known ?f)" using assms(1) by (simp add: known_base_fetch)
  have main: "\<exists>r. merge_base_walk_seeded ?f [lo_id] (fst c @ [snd c]) excluded = Some r \<and>
      best_common ?f (candidates ?f {lo_id} {hi_id} excluded) r"
    if "found (fetch hi_id) = Some hi" "found (fetch lo_id) = Some lo"
      "c = climb CLIMB_MAX_STEPS fetch (sk_generation lo) hi_id hi []" for lo_id lo hi_id hi c
    using merge_base_walk_best [OF fin, of "[lo_id]" "fst c @ [snd c]" excluded]
      candidates_climb [OF assms(2,3) that(1,2), of CLIMB_MAX_STEPS "fst c" "snd c" excluded] that(3) by simp
  have none: "candidates ?f {x} {y} excluded = {}" if "found (fetch x) = None" for x y
  proof -
    have "parent_rel ?f `` {x} = {}" using that by (auto simp: parent_rel_def found_base_fetch)
    then have "ancestors_of ?f {x} \<subseteq> {x}" by (intro ancestors_least) auto
    then show ?thesis using that by (auto simp: candidates_def known_base_fetch)
  qed
  show ?thesis
  proof (cases "found (fetch a) = None \<or> found (fetch b) = None")
    case True
    then have "merge_base_skip fetch a b excluded = Some None" by (auto simp: merge_base_skip_def split: option.split)
    then show ?thesis using True none [of a b] none [of b a]
      by (auto simp: best_common_def candidates_commute [of _ "{a}"])
  next
    case False
    then obtain na nb where n: "found (fetch a) = Some na" "found (fetch b) = Some nb" by auto
    show ?thesis
    proof (cases "sk_generation nb \<le> sk_generation na")
      case True
      then have "merge_base_skip fetch a b excluded =
          (let c = climb CLIMB_MAX_STEPS fetch (sk_generation nb) a na []
           in merge_base_walk_seeded ?f [b] (fst c @ [snd c]) excluded)"
        using n by (simp add: merge_base_skip_def Let_def split_beta)
      then show ?thesis using main [OF n refl] by (simp add: candidates_commute [of _ "{a}"] Let_def)
    next
      case le: False
      then have "merge_base_skip fetch a b excluded =
          (let c = climb CLIMB_MAX_STEPS fetch (sk_generation na) b nb []
           in merge_base_walk_seeded ?f [a] (fst c @ [snd c]) excluded)"
        using n by (simp add: merge_base_skip_def Let_def split_beta)
      then show ?thesis using main [OF n(2) n(1) refl] by (simp add: Let_def)
    qed
  qed
qed

section \<open>Moving a ref\<close>

lemma changeset_get_known: "changeset_get db repo i \<noteq> None \<Longrightarrow> i \<in> cr_id ` set (db_changesets db)"
  by (auto simp: changeset_get_def is_changeset_def find_Some_iff)

lemma finite_known_ref_fetch: "finite (known (ref_fetch db repo))"
proof (rule finite_subset)
  show "known (ref_fetch db repo) \<subseteq> cr_id ` set (db_changesets db)"
    using changeset_get_known [of db repo] by (auto simp: known_def ref_fetch_def changeset_graph_def)
qed simp

text \<open>The fast-forward gate of a ref move answers exactly the question it asks. When generations fall along
  the parent rows of a repository, \<open>ref_contains\<close> returns, and says yes exactly when both targets are
  changesets of the repository and the old one is an ancestor of the new one (or the new one itself).\<close>
theorem ref_contains_iff_ancestor:
  assumes "descending (ref_fetch db repo)"
  shows "ref_contains db repo old new =
         Some (old \<in> known (ref_fetch db repo) \<and> new \<in> known (ref_fetch db repo) \<and>
               old \<in> ancestors_of (ref_fetch db repo) {new})"
proof (cases "old \<in> known (ref_fetch db repo) \<and> new \<in> known (ref_fetch db repo)")
  case False
  then show ?thesis by (auto simp: ref_contains_def known_def)
next
  case True
  let ?f = "ref_fetch db repo"
  let ?C = "candidates ?f {old} {new} {}"
  obtain r where r: "merge_base_walk ?f old new = Some r" "best_common ?f ?C r"
    using merge_base_walk_best [OF finite_known_ref_fetch, of db repo "[old]" "[new]" "{}"]
    by (auto simp: merge_base_walk_def)
  have "r = Some old \<longleftrightarrow> old \<in> ancestors_of ?f {new}"
  proof
    assume "r = Some old"
    then show "old \<in> ancestors_of ?f {new}" using r(2) by (simp add: best_common_def candidates_def)
  next
    assume "old \<in> ancestors_of ?f {new}"
    then have old: "old \<in> ?C" using True ancestors_base [of "{old}" ?f] by (auto simp: candidates_def)
    then obtain i where i: "r = Some i" "i \<in> ?C" "gen_of ?f old \<le> gen_of ?f i"
      using r(2) by (auto simp: best_common_def split: option.splits)
    then show "r = Some old" using ancestors_below [OF assms, of i old] by (auto simp: candidates_def)
  qed
  then show ?thesis using True r(1) by (auto simp: ref_contains_def known_def)
qed

section \<open>Witnesses\<close>

text \<open>A fork over a root with an unrelated changeset, and a chain with a skip over its middle.\<close>

definition fork_sample :: "(unit, graph_node) lookup" where
  "fork_sample i = Inr (map_of [([1], (0, [])), ([2], (1, [[1]])), ([3], (1, [[1]])), ([9], (0, []))] i)"

lemma finite_map_of: "finite {i. map_of m i \<noteq> None}"
  using finite_dom_map_of [of m] by (simp add: dom_def)

lemma merge_base_walk_best_witness:
  "\<exists>r. merge_base_walk_seeded fork_sample [[2]] [[3], [9]] {} = Some r \<and>
       best_common fork_sample (candidates fork_sample {[2]} {[3], [9]} {}) r"
proof -
  have "finite (known fork_sample)"
    using finite_map_of [of "[([1], (0, [])), ([2], (1, [[1]])), ([3], (1, [[1]])), ([9], (0, []))]"]
    by (simp add: known_def fork_sample_def)
  from merge_base_walk_best [OF this, of "[[2]]" "[[3], [9]]" "{}"] show ?thesis by simp
qed

lemma fork_sample_run: "merge_base_walk fork_sample [2] [3] = Some (Some [1])"
  by (simp add: merge_base_walk_def merge_base_walk_seeded_def ancestor_loop.simps best_loop.simps better_def fork_sample_def)

definition chain_nodes :: "(oid \<times> skip_node) list" where
  "chain_nodes =
     [([1], \<lparr>sk_generation = 0, sk_parents = [], sk_skips = []\<rparr>),
      ([2], \<lparr>sk_generation = 1, sk_parents = [[1]], sk_skips = []\<rparr>),
      ([3], \<lparr>sk_generation = 2, sk_parents = [[2]],
             sk_skips = [\<lparr>se_target = [1], se_hop = 2, se_generation = 0, se_pure = True\<rparr>]\<rparr>)]"

definition chain_sample :: "(unit, skip_node) lookup" where
  "chain_sample i = Inr (map_of chain_nodes i)"

lemma chain_sample_ok:
  "finite {i. found (chain_sample i) \<noteq> None}" "descending (base_fetch chain_sample)" "skips_sound chain_sample"
proof -
  show "finite {i. found (chain_sample i) \<noteq> None}" using finite_map_of [of chain_nodes] by (simp add: chain_sample_def)
  show "descending (base_fetch chain_sample)"
    by (auto simp: descending_def found_base_fetch chain_sample_def chain_nodes_def split: if_splits)
  have "pure_span (base_fetch chain_sample) [3] [1]"
    by (rule span_step [where g = 2 and p = "[2]" and ps = "[]" and g' = 1 and q = "[1]"], goal_cases)
      (auto simp: found_base_fetch chain_sample_def chain_nodes_def intro: span_edge [where g = 1 and ps = "[]"])
  then show "skips_sound chain_sample"
    by (auto simp: skips_sound_def skip_sound_def chain_sample_def chain_nodes_def split: if_splits)
qed

lemma merge_base_skip_exact_witness:
  "\<exists>r. merge_base_skip chain_sample [3] [1] {} = Some r \<and>
       best_common (base_fetch chain_sample) (candidates (base_fetch chain_sample) {[3]} {[1]} {}) r"
  using merge_base_skip_exact [OF chain_sample_ok, of "[3]" "[1]" "{}"] by simp

definition sample_cs :: "nat \<Rightarrow> byte \<Rightarrow> i64 \<Rightarrow> changeset_row" where
  "sample_cs rowid b g = \<lparr>cr_rowid = rowid, cr_repo = 1, cr_id = [b], cr_canonical = [], cr_author = [], cr_message = [],
     cr_timestamp = 0, cr_generation = g, cr_principal = [], cr_root_tree = None\<rparr>"

definition two_changesets :: repo_db where
  "two_changesets = empty_repo_db\<lparr>db_changesets := [sample_cs 1 1 0, sample_cs 2 2 1],
     db_parents := [((1, [2], 0), [1])]\<rparr>"

lemmas two_changesets_graph = ref_fetch_def changeset_graph_def changeset_get_def is_changeset_def parents_of_def
  two_changesets_def sample_cs_def empty_repo_db_def

lemma ref_contains_iff_ancestor_witness:
  "ref_contains two_changesets 1 [1] [2] =
     Some ([1] \<in> known (ref_fetch two_changesets 1) \<and> [2] \<in> known (ref_fetch two_changesets 1) \<and>
           [1] \<in> ancestors_of (ref_fetch two_changesets 1) {[2]})"
proof -
  have "descending (ref_fetch two_changesets 1)"
    by (auto simp: descending_def two_changesets_graph split: if_splits)
  from ref_contains_iff_ancestor [OF this, of "[1]" "[2]"] show ?thesis .
qed

end
