(* ===== verification/Api_Error.thy ===== *)
theory Api_Error
  imports Repo_Db
begin

text \<open>
  The error registry and the error envelope (\<open>crates/naatre-server/src/api_code.rs\<close>,
  \<open>crates/naatre-server/src/api_error.rs\<close>). A response is its status, its JSON body and whether it
  carries \<open>Retry-After: 1\<close>; logging and the task-local request id are not modelled, the id is an argument.
\<close>

section \<open>The registry\<close>

datatype api_code =
    TokenInvalid | TokenExpired | TokenRevoked | Forbidden | NotFound | RepoNotFound | RepoExists | ObjectNotFound
  | RefConflict | IdempotencyKeySettled | DirtyWorkingCopy | GitHistoryDiverged | RedactedBase
  | ConflictMarkersPresent | VersionSkewConflicted | Malformed | Validation | PathNotNormalized | EmptyChangeset
  | NotFastForward | UnknownParent | Duality | UnsortedChanges | DuplicatePath | TooLarge | SnapshotExpired
  | ObjectCollected | ObjectRedacted | WriterBusy | DerivationPending | BlameTooLarge | RequestTimeout | ServerBusy
  | BlobSwept | OriginUnreachable | CacheDisabled | Internal

definition ALL_codes :: "api_code list" where
  "ALL_codes = [TokenInvalid, TokenExpired, TokenRevoked, Forbidden, NotFound, RepoNotFound, RepoExists, ObjectNotFound,
     RefConflict, IdempotencyKeySettled, DirtyWorkingCopy, GitHistoryDiverged, RedactedBase,
     ConflictMarkersPresent, VersionSkewConflicted, Malformed, Validation, PathNotNormalized, EmptyChangeset,
     NotFastForward, UnknownParent, Duality, UnsortedChanges, DuplicatePath, TooLarge, SnapshotExpired,
     ObjectCollected, ObjectRedacted, WriterBusy, DerivationPending, BlameTooLarge, RequestTimeout, ServerBusy,
     BlobSwept, OriginUnreachable, CacheDisabled, Internal]"

primrec code_name :: "api_code \<Rightarrow> string" where
  "code_name TokenInvalid = ''token_invalid''"
| "code_name TokenExpired = ''token_expired''"
| "code_name TokenRevoked = ''token_revoked''"
| "code_name Forbidden = ''forbidden''"
| "code_name NotFound = ''not_found''"
| "code_name RepoNotFound = ''repo_not_found''"
| "code_name RepoExists = ''repo_exists''"
| "code_name ObjectNotFound = ''object_not_found''"
| "code_name RefConflict = ''ref_conflict''"
| "code_name IdempotencyKeySettled = ''idempotency_key_settled''"
| "code_name DirtyWorkingCopy = ''dirty_working_copy''"
| "code_name GitHistoryDiverged = ''git_history_diverged''"
| "code_name RedactedBase = ''redacted_base''"
| "code_name ConflictMarkersPresent = ''conflict_markers_present''"
| "code_name VersionSkewConflicted = ''version_skew_conflicted''"
| "code_name Malformed = ''malformed''"
| "code_name Validation = ''validation''"
| "code_name PathNotNormalized = ''path_not_normalized''"
| "code_name EmptyChangeset = ''empty_changeset''"
| "code_name NotFastForward = ''not_fast_forward''"
| "code_name UnknownParent = ''unknown_parent''"
| "code_name Duality = ''duality''"
| "code_name UnsortedChanges = ''unsorted_changes''"
| "code_name DuplicatePath = ''duplicate_path''"
| "code_name TooLarge = ''too_large''"
| "code_name SnapshotExpired = ''snapshot_expired''"
| "code_name ObjectCollected = ''object_collected''"
| "code_name ObjectRedacted = ''object_redacted''"
| "code_name WriterBusy = ''writer_busy''"
| "code_name DerivationPending = ''derivation_pending''"
| "code_name BlameTooLarge = ''blame_too_large''"
| "code_name RequestTimeout = ''request_timeout''"
| "code_name ServerBusy = ''server_busy''"
| "code_name BlobSwept = ''blob_swept''"
| "code_name OriginUnreachable = ''origin_unreachable''"
| "code_name CacheDisabled = ''cache_disabled''"
| "code_name Internal = ''internal''"

definition code_str :: "api_code \<Rightarrow> bytes" where
  "code_str c = ascii (code_name c)"

definition code_status :: "api_code \<Rightarrow> nat" where
  "code_status c =
     (if c \<in> {TokenInvalid, TokenExpired, TokenRevoked} then 401
      else if c = Forbidden then 403
      else if c \<in> {NotFound, RepoNotFound, ObjectNotFound} then 404
      else if c \<in> {RefConflict, RepoExists, IdempotencyKeySettled, DirtyWorkingCopy, GitHistoryDiverged, RedactedBase,
                    ConflictMarkersPresent, VersionSkewConflicted} then 409
      else if c = Malformed then 400
      else if c \<in> {Validation, PathNotNormalized, EmptyChangeset, NotFastForward, UnknownParent, Duality,
                    UnsortedChanges, DuplicatePath} then 422
      else if c = TooLarge then 413
      else if c \<in> {SnapshotExpired, ObjectCollected, ObjectRedacted} then 410
      else if c = Internal then 500
      else 503)"

section \<open>The envelope\<close>

record api_error =
  ae_code :: api_code
  ae_message :: bytes
  ae_retryable :: bool
  ae_details :: json

definition api_new :: "api_code \<Rightarrow> bytes \<Rightarrow> api_error" where
  "api_new c m = \<lparr>ae_code = c, ae_message = m, ae_retryable = False, ae_details = JObj []\<rparr>"

definition api_internal :: api_error where
  "api_internal = api_new Internal (ascii ''internal error'')"

definition api_retryable :: "bool \<Rightarrow> api_error \<Rightarrow> api_error" where
  "api_retryable b e = e\<lparr>ae_retryable := b\<rparr>"

definition with_details :: "json \<Rightarrow> api_error \<Rightarrow> api_error" where
  "with_details d e = e\<lparr>ae_details := d\<rparr>"

definition api_body :: "bytes \<Rightarrow> api_error \<Rightarrow> json" where
  "api_body request_id e =
     JObj [(ascii ''error'', JObj [
       (ascii ''code'', JStr (code_str (ae_code e))),
       (ascii ''message'', JStr (ae_message e)),
       (ascii ''retryable'', JBool (ae_retryable e)),
       (ascii ''details'', ae_details e),
       (ascii ''request_id'', JStr request_id)])]"

record response =
  rs_status :: nat
  rs_body :: json
  rs_retry_after :: bool

definition into_response :: "bytes \<Rightarrow> api_error \<Rightarrow> response" where
  "into_response request_id e =
     \<lparr>rs_status = code_status (ae_code e), rs_body = api_body request_id e,
      rs_retry_after = (ae_code e = WriterBusy \<or> ae_code e = DerivationPending)\<rparr>"

text \<open>\<open>lock_or_busy\<close>, \<open>writer_busy\<close>.\<close>

definition writer_busy :: api_error where
  "writer_busy = api_retryable True (api_new WriterBusy (ascii ''writer busy''))"

section \<open>The registry is closed\<close>

lemma ALL_codes_complete: "set ALL_codes = UNIV" and ALL_codes_distinct: "distinct ALL_codes"
proof -
  have "c \<in> set ALL_codes" for c by (cases c) (simp_all add: ALL_codes_def)
  then show "set ALL_codes = UNIV" by blast
  show "distinct ALL_codes" by (simp add: ALL_codes_def)
qed

lemma of_char_inj: "inj (of_char :: char \<Rightarrow> byte)"
proof
  fix c d :: char assume "(of_char c :: byte) = of_char d"
  then have "unat (of_char c :: byte) = unat (of_char d :: byte)" by simp
  moreover have "unat (of_char c :: byte) = of_char c" for c :: char
  proof -
    have "unat (of_nat (of_char c) :: byte) = of_char c"
      using nat_of_char_less_256 [of c] by (simp only: unat_of_nat) simp
    then show ?thesis by (simp only: of_nat_of_char)
  qed
  ultimately show "c = d" by simp
qed

lemma code_names_distinct: "distinct (map code_name ALL_codes)"
  by (simp add: ALL_codes_def)

lemma code_str_inj: "inj code_str"
proof -
  have "inj code_name" using code_names_distinct ALL_codes_complete by (simp add: distinct_map)
  moreover have "inj ascii" unfolding ascii_def using of_char_inj by (simp add: inj_mapI)
  ultimately show ?thesis unfolding code_str_def inj_def by simp
qed

text \<open>What a client recovers from the wire: the code, and whether it may retry.\<close>

definition wire_code :: "json \<Rightarrow> api_code option" where
  "wire_code body =
     (case body of
        JObj [(k, JObj fs)] \<Rightarrow>
          (case map_of fs (ascii ''code'') of Some (JStr s) \<Rightarrow> find (\<lambda>c. code_str c = s) ALL_codes | _ \<Rightarrow> None)
      | _ \<Rightarrow> None)"

lemma find_code: "find (\<lambda>d. code_str d = code_str c) ALL_codes = Some c"
proof -
  have "c \<in> set ALL_codes" using ALL_codes_complete by simp
  then show ?thesis using code_str_inj
    by (cases "find (\<lambda>d. code_str d = code_str c) ALL_codes") (auto simp: find_None_iff find_Some_iff inj_eq)
qed

section \<open>Responses\<close>

text \<open>\<open>shed\<close> of \<open>middleware.rs\<close>: the two transport guards add the header themselves.\<close>

definition shed :: "bytes \<Rightarrow> api_code \<Rightarrow> bytes \<Rightarrow> response" where
  "shed request_id c m = (into_response request_id (api_retryable True (api_new c m)))\<lparr>rs_retry_after := True\<rparr>"

text \<open>Every error is answered by a well-formed envelope. The status is one of the registry's ten, it is
  a client error exactly when the code is none of the nine 5xx codes, and a client that reads \<open>error.code\<close> in the
  body recovers the code the server meant, whatever the message, the details and the request id: the wire strings
  of the 37 codes are distinct and the published list \<open>ALL\<close> holds every one.\<close>
theorem api_envelope_well_typed:
  "rs_status (into_response rid e) \<in> {400, 401, 403, 404, 409, 410, 413, 422, 500, 503} \<and>
   (rs_status (into_response rid e) < 500 \<longleftrightarrow>
      ae_code e \<notin> {WriterBusy, DerivationPending, BlameTooLarge, RequestTimeout, ServerBusy, BlobSwept,
                    OriginUnreachable, CacheDisabled, Internal}) \<and>
   wire_code (rs_body (into_response rid e)) = Some (ae_code e)"
proof -
  have "ascii ''code'' \<noteq> ascii ''message''" by (simp add: ascii_def)
  then have "wire_code (rs_body (into_response rid e)) = find (\<lambda>c. code_str c = code_str (ae_code e)) ALL_codes"
    by (simp add: wire_code_def into_response_def api_body_def)
  then show ?thesis by (cases "ae_code e") (simp_all add: find_code into_response_def code_status_def)
qed

text \<open>The retryable 503 of a swept upload does not carry the header that the README promises for every
  retryable 503; the guards' answers do.\<close>

theorem swept_upload_without_retry_after:
  "rs_status (into_response rid (api_retryable True (api_new BlobSwept m))) = 503 \<and>
   \<not> rs_retry_after (into_response rid (api_retryable True (api_new BlobSwept m))) \<and>
   rs_retry_after (shed rid ServerBusy m) \<and> rs_retry_after (into_response rid writer_busy)"
  by (simp add: into_response_def code_status_def api_retryable_def api_new_def shed_def writer_busy_def)

end
