(* ===== verification/Access_Db.thy ===== *)
theory Access_Db
  imports Gc_Db
begin

text \<open>
  The statements on repositories, refs, principals, tokens, grants and the audit log
  (\<open>crates/naatre-server/src/db.rs\<close>). Those of one transaction are one function; a violated constraint leaves the
  tables as they were. The id of an \<open>INTEGER PRIMARY KEY\<close> row is one more than the largest of the table. Rows of
  the audit log are never removed, so the id of a row is its position, from 1.
\<close>

section \<open>Repositories\<close>

text \<open>A row id the database assigns.\<close>

definition next_id :: "i64 list \<Rightarrow> i64" where
  "next_id ids = fold max ids 0 + 1"

definition repo_id_by_name :: "'a repo_db_scheme \<Rightarrow> bytes \<Rightarrow> i64 option" where
  "repo_id_by_name db name = map_option fst (find (\<lambda>(_, r). rr_name r = name) (db_repos db))"

definition repos_create :: "bytes \<Rightarrow> i64 \<Rightarrow> 'a repo_db_scheme \<Rightarrow> db_error + i64 \<times> 'a repo_db_scheme" where
  "repos_create name created db =
     (if repo_id_by_name db name \<noteq> None then Inl Constraint
      else let i = next_id (map fst (db_repos db))
           in Inr (i, db\<lparr>db_repos := om_insert i \<lparr>rr_name = name, rr_created = created\<rparr> (db_repos db)\<rparr>))"

text \<open>Ascending by id, which is the order of the key.\<close>

definition repos_list :: "'a repo_db_scheme \<Rightarrow> i64 \<Rightarrow> i64 \<Rightarrow> (i64 \<times> repo_row) list" where
  "repos_list db after limit = take (nat limit) (filter (\<lambda>(i, _). after < i) (db_repos db))"

definition repo_changeset_count :: "'a repo_db_scheme \<Rightarrow> i64 \<Rightarrow> nat" where
  "repo_changeset_count db repo = length (filter (\<lambda>r. cr_repo r = repo) (db_changesets db))"

text \<open>Count, size and compressed size of the rows among the ids; an id without a row adds nothing.\<close>

definition repo_object_sums :: "'a repo_db_scheme \<Rightarrow> oid set \<Rightarrow> nat \<times> i64 \<times> i64" where
  "repo_object_sums db ids =
     (let rows = filter (\<lambda>(i, _). i \<in> ids) (db_objects db)
      in (length rows, sum_list (map (ob_size \<circ> snd) rows), sum_list (map (ob_csize \<circ> snd) rows)))"

definition redaction_ids :: "'a repo_db_scheme \<Rightarrow> i64 \<Rightarrow> oid list" where
  "redaction_ids db repo = map (snd \<circ> fst) (filter (\<lambda>((r, _), _). r = repo) (db_redactions db))"

definition repo_blob_check :: "'a repo_db_scheme \<Rightarrow> i64 \<Rightarrow> oid \<Rightarrow> bool" where
  "repo_blob_check db repo i \<longleftrightarrow> (repo, i) \<in> db_repo_blobs db"

section \<open>Moving a ref\<close>

record ref_move =
  rm_repo :: i64
  rm_repo_name :: bytes
  rm_name :: bytes
  rm_target :: oid
  rm_expected :: "i64 option"
  rm_principal :: bytes
  rm_now :: i64

datatype ref_cas_outcome =
    Ref_Created
  | Ref_Updated i64
  | Ref_Stale i64 "bytes option"
  | Ref_Repo_Missing
  | Ref_Missing

definition ref_row_of :: "ref_move \<Rightarrow> i64 \<Rightarrow> ref_row" where
  "ref_row_of mv version =
     \<lparr>rf_target = Some (rm_target mv), rf_version = version, rf_last_principal = Some (rm_principal mv)\<rparr>"

definition ref_cas_rows :: "ref_move \<Rightarrow> 'a repo_db_scheme \<Rightarrow> ref_cas_outcome \<times> 'a repo_db_scheme" where
  "ref_cas_rows mv db =
     (case (rm_expected mv, ref_get db (rm_repo mv) (rm_name mv)) of
        (None, None) \<Rightarrow>
          (Ref_Created, db\<lparr>db_refs := om_insert (rm_repo mv, rm_name mv) (ref_row_of mv 1) (db_refs db)\<rparr>)
      | (None, Some cur) \<Rightarrow> (Ref_Stale (rf_version cur) (rf_target cur), db)
      | (Some _, None) \<Rightarrow> (Ref_Missing, db)
      | (Some expected, Some cur) \<Rightarrow>
          if rf_version cur \<noteq> expected then (Ref_Stale (rf_version cur) (rf_target cur), db)
          else let version = i64_add (rf_version cur) 1
               in (Ref_Updated version,
                   db\<lparr>db_refs := om_insert (rm_repo mv, rm_name mv) (ref_row_of mv version) (db_refs db)\<rparr>))"

definition ref_moved :: "ref_cas_outcome \<Rightarrow> bool" where
  "ref_moved out = (case out of Ref_Created \<Rightarrow> True | Ref_Updated _ \<Rightarrow> True | _ \<Rightarrow> False)"

definition ref_move_details :: "ref_move \<Rightarrow> bytes option \<Rightarrow> json" where
  "ref_move_details mv via =
     JObj ([(ascii ''repo'', JStr (rm_repo_name mv)), (ascii ''ref'', JStr (rm_name mv)),
            (ascii ''target'', JStr (to_hex (rm_target mv)))] @
           (case via of None \<Rightarrow> [] | Some v \<Rightarrow> [(ascii ''via'', JStr v)]))"

text \<open>The repository's tables and the catalog after the move; in one database they are the same tables.\<close>

definition ref_cas_inner ::
    "(json \<Rightarrow> bytes) \<Rightarrow> ref_move \<Rightarrow> bytes option \<Rightarrow> bool \<Rightarrow> 'a repo_db_scheme \<Rightarrow> 'a repo_db_scheme \<Rightarrow>
     ref_cas_outcome \<times> 'a repo_db_scheme \<times> 'a repo_db_scheme" where
  "ref_cas_inner print mv via split db cat =
     (if om_get (db_repos (if split then cat else db)) (rm_repo mv) = None then (Ref_Repo_Missing, db, cat)
      else let (out, db) = ref_cas_rows mv db;
               audit = audit_append (rm_now mv) (rm_principal mv) (ascii ''ref_move'') (print (ref_move_details mv via))
           in if \<not> ref_moved out then (out, db, cat)
              else if split then (out, db, audit cat)
              else (out, audit db, cat))"

section \<open>Principals and tokens\<close>

definition ROLES :: "bytes list" where
  "ROLES = [ascii ''admin'', ascii ''writer'', ascii ''reader'']"

text \<open>The column has a \<open>CHECK\<close> on the role.\<close>

definition principal_upsert :: "bytes \<Rightarrow> bytes \<Rightarrow> i64 \<Rightarrow> 'a repo_db_scheme \<Rightarrow> db_error + 'a repo_db_scheme" where
  "principal_upsert name rl created db =
     (if rl \<notin> set ROLES then Inl Constraint
      else let row = (case om_get (db_principals db) name of
                        None \<Rightarrow> \<lparr>pr_role = rl, pr_created = created\<rparr>
                      | Some p \<Rightarrow> p\<lparr>pr_role := rl\<rparr>)
           in Inr (db\<lparr>db_principals := om_insert name row (db_principals db)\<rparr>))"

definition token_insert ::
    "bytes \<Rightarrow> bytes \<Rightarrow> i64 option \<Rightarrow> bytes option \<Rightarrow> 'a repo_db_scheme \<Rightarrow> db_error + i64 \<times> 'a repo_db_scheme" where
  "token_insert who hash expires scope db =
     (if list_ex (\<lambda>t. tk_hash t = hash) (db_tokens db) then Inl Constraint
      else let i = next_id (map tk_id (db_tokens db))
           in Inr (i, db\<lparr>db_tokens := db_tokens db @
                [\<lparr>tk_id = i, tk_principal = who, tk_hash = hash, tk_expires = expires, tk_revoked = False,
                  tk_scope = scope\<rparr>]\<rparr>))"

definition token_create ::
    "(json \<Rightarrow> bytes) \<Rightarrow> bytes \<Rightarrow> bytes \<Rightarrow> bytes \<Rightarrow> i64 option \<Rightarrow> bytes option \<Rightarrow> i64 \<Rightarrow> 'a repo_db_scheme \<Rightarrow>
     db_error + i64 \<times> 'a repo_db_scheme" where
  "token_create print who rl hash expires scope now db =
     rbind (principal_upsert who rl now db) (\<lambda>db.
     rbind (token_insert who hash expires scope db) (\<lambda>(i, db).
       Inr (i, audit_append now who (ascii ''token_create'')
                 (print (JObj [(ascii ''token_id'', JNum i), (ascii ''principal'', JStr who),
                               (ascii ''role'', JStr rl)])) db)))"

text \<open>A token row joined with its principal's role: \<open>TokenRow\<close> and \<open>AuthRow\<close>.\<close>

record auth_row =
  ar_id :: i64
  ar_principal :: bytes
  ar_role :: bytes
  ar_expires :: "i64 option"
  ar_revoked :: bool
  ar_scope :: "bytes option"

definition token_join :: "'a repo_db_scheme \<Rightarrow> token_row \<Rightarrow> auth_row option" where
  "token_join db t =
     map_option (\<lambda>p. \<lparr>ar_id = tk_id t, ar_principal = tk_principal t, ar_role = pr_role p, ar_expires = tk_expires t,
                      ar_revoked = tk_revoked t, ar_scope = tk_scope t\<rparr>)
       (om_get (db_principals db) (tk_principal t))"

text \<open>The rows of the table are in id order.\<close>

definition tokens_list :: "'a repo_db_scheme \<Rightarrow> auth_row list" where
  "tokens_list db = List.map_filter (token_join db) (db_tokens db)"

definition auth_lookup :: "'a repo_db_scheme \<Rightarrow> bytes \<Rightarrow> auth_row option" where
  "auth_lookup db hash = Option.bind (find (\<lambda>t. tk_hash t = hash) (db_tokens db)) (token_join db)"

definition token_revoke ::
    "(json \<Rightarrow> bytes) \<Rightarrow> i64 \<Rightarrow> i64 \<Rightarrow> 'a repo_db_scheme \<Rightarrow> bool option \<times> 'a repo_db_scheme" where
  "token_revoke print i now db =
     (case find (\<lambda>t. tk_id t = i) (db_tokens db) of
        None \<Rightarrow> (None, db)
      | Some t \<Rightarrow>
          if tk_revoked t then (Some False, db)
          else (Some True,
            audit_append now (tk_principal t) (ascii ''token_revoke'') (print (JObj [(ascii ''token_id'', JNum i)]))
              (db\<lparr>db_tokens := map (\<lambda>t. if tk_id t = i \<and> \<not> tk_revoked t then t\<lparr>tk_revoked := True\<rparr> else t) (db_tokens db)\<rparr>)))"

section \<open>Deleting a principal\<close>

datatype delete_error = Bad_Details

text \<open>The details of the principal's own \<open>token_create\<close> rows, with the name replaced by the pseudonym. A
  \<open>serde_json\<close> object is sorted by key.\<close>

definition pseudonymize ::
    "(bytes \<Rightarrow> json option) \<Rightarrow> (json \<Rightarrow> bytes) \<Rightarrow> bytes \<Rightarrow> bytes \<Rightarrow> delete_error + bytes" where
  "pseudonymize parse print pseudo details =
     (case parse details of
        None \<Rightarrow> Inl Bad_Details
      | Some v \<Rightarrow>
          Inr (print (case v of JObj fs \<Rightarrow> JObj (om_insert (ascii ''principal'') (JStr pseudo) fs) | _ \<Rightarrow> v)))"

definition erase_actor ::
    "(bytes \<Rightarrow> json option) \<Rightarrow> (json \<Rightarrow> bytes) \<Rightarrow> bytes \<Rightarrow> bytes \<Rightarrow> audit_row \<Rightarrow> delete_error + audit_row" where
  "erase_actor parse print name pseudo row =
     (if au_principal row \<noteq> name then Inr row
      else if au_action row = ascii ''token_create'' then
        rbind (pseudonymize parse print pseudo (au_details row)) (\<lambda>d.
          Inr (row\<lparr>au_principal := pseudo, au_details := d\<rparr>))
      else Inr (row\<lparr>au_principal := pseudo\<rparr>))"

definition principal_delete ::
    "(bytes \<Rightarrow> json option) \<Rightarrow> (json \<Rightarrow> bytes) \<Rightarrow> bytes \<Rightarrow> i64 \<Rightarrow> bytes \<Rightarrow> bytes \<Rightarrow> 'a repo_db_scheme \<Rightarrow>
     delete_error + nat option \<times> 'a repo_db_scheme" where
  "principal_delete parse print name now actor raw db =
     (if om_get (db_principals db) name = None then Inr (None, db)
      else
        let n = length (filter (\<lambda>t. tk_principal t = name) (db_tokens db));
            pseudo = ascii ''deleted:'' @ to_hex raw
        in rbind (rmap (erase_actor parse print name pseudo) (db_audit db)) (\<lambda>audit.
             Inr (Some n, audit_append now actor (ascii ''principal_delete'')
               (print (JObj [(ascii ''principal'', JStr pseudo), (ascii ''tokens_deleted'', JNum (int n))]))
               (db\<lparr>db_tokens := filter (\<lambda>t. tk_principal t \<noteq> name) (db_tokens db),
                   db_principals := om_remove name (db_principals db), db_audit := audit\<rparr>))))"

section \<open>The audit log\<close>

definition audit_rows :: "'a repo_db_scheme \<Rightarrow> (i64 \<times> audit_row) list" where
  "audit_rows db = map (\<lambda>(n, r). (int n, r)) (enumerate 1 (db_audit db))"

definition audit_list :: "'a repo_db_scheme \<Rightarrow> i64 \<Rightarrow> i64 \<Rightarrow> (i64 \<times> audit_row) list" where
  "audit_list db before limit = take (nat limit) (rev (filter (\<lambda>(i, _). i < before) (audit_rows db)))"

definition audit_page_action :: "'a repo_db_scheme \<Rightarrow> bytes \<Rightarrow> i64 \<Rightarrow> i64 \<Rightarrow> (i64 \<times> bytes) list" where
  "audit_page_action db action before limit =
     take (nat limit)
       (map (\<lambda>(i, r). (i, au_details r))
         (rev (filter (\<lambda>(i, r). au_action r = action \<and> i < before) (audit_rows db))))"

section \<open>Grants\<close>

definition access_rows :: "'a repo_db_scheme \<Rightarrow> i64 \<Rightarrow> ((i64 \<times> bytes) \<times> access_row) list" where
  "access_rows db repo = filter (\<lambda>((r, _), _). r = repo) (db_access db)"

definition access_is_private :: "'a repo_db_scheme \<Rightarrow> i64 \<Rightarrow> bool" where
  "access_is_private db repo \<longleftrightarrow> access_rows db repo \<noteq> []"

definition access_row_of :: "'a repo_db_scheme \<Rightarrow> i64 \<Rightarrow> bytes \<Rightarrow> access_row option" where
  "access_row_of db repo who = om_get (db_access db) (repo, who)"

definition access_visibility :: "'a repo_db_scheme \<Rightarrow> i64 \<Rightarrow> bytes \<Rightarrow> bool \<times> bool" where
  "access_visibility db repo who =
     (access_rows db repo \<noteq> [], (case access_row_of db repo who of None \<Rightarrow> False | Some a \<Rightarrow> ac_read a))"

definition access_set :: "i64 \<Rightarrow> bytes \<Rightarrow> bool \<Rightarrow> bool \<Rightarrow> 'a repo_db_scheme \<Rightarrow> 'a repo_db_scheme" where
  "access_set repo who rd wr db =
     db\<lparr>db_access := om_insert (repo, who) \<lparr>ac_read = (rd \<or> wr), ac_write = wr\<rparr> (db_access db)\<rparr>"

definition access_clear :: "i64 \<Rightarrow> bytes \<Rightarrow> 'a repo_db_scheme \<Rightarrow> bool \<times> 'a repo_db_scheme" where
  "access_clear repo who db =
     (access_row_of db repo who \<noteq> None, db\<lparr>db_access := om_remove (repo, who) (db_access db)\<rparr>)"

definition access_list :: "'a repo_db_scheme \<Rightarrow> i64 \<Rightarrow> (bytes \<times> access_row) list" where
  "access_list db repo = map (\<lambda>((_, who), a). (who, a)) (access_rows db repo)"

definition access_grant ::
    "(json \<Rightarrow> bytes) \<Rightarrow> i64 \<Rightarrow> bytes \<Rightarrow> bytes \<Rightarrow> bool \<Rightarrow> bool \<Rightarrow> i64 \<Rightarrow> bytes \<Rightarrow> 'a repo_db_scheme \<Rightarrow>
     (bool \<times> bool) option \<times> 'a repo_db_scheme" where
  "access_grant print repo repo_name who rd wr now actor db =
     (if om_get (db_principals db) who = None then (None, db)
      else let stored_read = (rd \<or> wr) in
        (Some (stored_read, wr),
         audit_append now actor (ascii ''access_grant'')
           (print (JObj [(ascii ''repo'', JStr repo_name), (ascii ''principal'', JStr who),
                         (ascii ''read'', JBool stored_read), (ascii ''write'', JBool wr)]))
           (access_set repo who stored_read wr db)))"

definition access_revoke ::
    "(json \<Rightarrow> bytes) \<Rightarrow> i64 \<Rightarrow> bytes \<Rightarrow> bytes \<Rightarrow> i64 \<Rightarrow> bytes \<Rightarrow> 'a repo_db_scheme \<Rightarrow> bool \<times> 'a repo_db_scheme" where
  "access_revoke print repo repo_name who now actor db =
     (let (removed, db) = access_clear repo who db in
      if removed then
        (True, audit_append now actor (ascii ''access_revoke'')
                 (print (JObj [(ascii ''repo'', JStr repo_name), (ascii ''principal'', JStr who)])) db)
      else (False, db))"

section \<open>Support of the cache tier\<close>

definition repo_tree_member :: "'a repo_db_scheme \<Rightarrow> i64 \<Rightarrow> oid \<Rightarrow> bool" where
  "repo_tree_member db repo tree \<longleftrightarrow> (repo, tree) \<in> db_repo_trees db"

definition tombstone_epoch :: "'a repo_db_scheme \<Rightarrow> i64 \<Rightarrow> nat" where
  "tombstone_epoch db repo = length (filter (\<lambda>((r, _), _). r = repo) (db_redactions db))"

text \<open>The recursive query is \<open>closure\<close> over the directory entries.\<close>

definition cache_membership :: "'a repo_db_scheme \<Rightarrow> i64 \<Rightarrow> oid \<Rightarrow> oid list" where
  "cache_membership db repo root =
     (let reach = closure (entry_edges 1 db) [root]
      in remdups (map snd (filter (\<lambda>(t, b). t \<in> reach \<and> repo_blob_check db repo b \<and> \<not> redaction_active db repo b)
           (entry_edges 0 db))))"

end
