(* ===== verification/Server.thy ===== *)
theory Server
  imports Access_Db Api_Error Derive_Queue
begin

text \<open>
  The server's state and its accesses to the databases (\<open>crates/naatre-server/src/state.rs\<close>,
  \<open>crates/naatre-server/src/router.rs\<close>): the catalog, in a split layout a file for each repository, and the
  rate limiter of failed authentications.

  A request is a function of the server's state. It makes its accesses one after the other; before each, other
  requests may commit what they like (\<open>en_others\<close>, indexed by the number of accesses so far). The environment
  also says when a write slot is taken, what the clock and the random generator return, and what the libraries
  compute (the hash, the JSON text, the quoted form of a string in a message, the base64 code, the signatures).
  A write that fails leaves the tables as it found them.
\<close>

section \<open>The limiter of failed authentications\<close>

record auth_fail =
  af_buckets :: "(bytes, u64 list) omap"
  af_rows :: "u64 list"
  af_count :: u64
  af_written :: u64

definition AUTH_FAIL_WINDOW_NS :: u64 where "AUTH_FAIL_WINDOW_NS = 60 * 1000000000"
definition AUTH_FAIL_PER_KEY_LIMIT :: nat where "AUTH_FAIL_PER_KEY_LIMIT = 10"
definition AUTH_FAIL_GLOBAL_ROW_CAP :: nat where "AUTH_FAIL_GLOBAL_ROW_CAP = 200"

definition in_window :: "u64 \<Rightarrow> u64 \<Rightarrow> bool" where
  "in_window now ts \<longleftrightarrow> u64_saturating_sub now ts < AUTH_FAIL_WINDOW_NS"

definition tick_auth_failure :: "bytes \<Rightarrow> u64 \<Rightarrow> auth_fail \<Rightarrow> bool \<times> auth_fail" where
  "tick_auth_failure key now inner =
     (let bucket = filter (in_window now) (case om_get (af_buckets inner) key of None \<Rightarrow> [] | Some b \<Rightarrow> b);
          rows = filter (in_window now) (af_rows inner);
          inner = inner\<lparr>af_buckets := om_insert key bucket (af_buckets inner), af_rows := rows,
                        af_count := af_count inner + 1\<rparr>
      in if AUTH_FAIL_PER_KEY_LIMIT \<le> length bucket \<or> AUTH_FAIL_GLOBAL_ROW_CAP \<le> length rows then (False, inner)
         else (True, inner\<lparr>af_buckets := om_insert key (bucket @ [now]) (af_buckets inner), af_rows := rows @ [now],
                           af_written := af_written inner + 1\<rparr>))"

section \<open>The state and the environment\<close>

record server =
  sv_cat :: repo_db
  sv_split :: bool
  sv_files :: "(i64, repo_db) omap"
  sv_fails :: auth_fail
  sv_tick :: nat

record server_env =
  en_others :: "nat \<Rightarrow> server \<Rightarrow> server"
  en_busy :: "nat \<Rightarrow> bool"
  en_now :: "nat \<Rightarrow> u64"
  en_random :: "nat \<Rightarrow> nat \<Rightarrow> bytes"
  en_hash :: "bytes \<Rightarrow> bytes"
  en_print :: "json \<Rightarrow> bytes"
  en_parse :: "bytes \<Rightarrow> json option"
  en_debug :: "bytes \<Rightarrow> bytes"

type_synonym 'a req = "server \<Rightarrow> (api_error + 'a) \<times> server"

definition ret :: "'a \<Rightarrow> 'a req" where "ret a w = (Inr a, w)"
definition fail :: "api_error \<Rightarrow> 'a req" where "fail e w = (Inl e, w)"

definition req_bind :: "'a req \<Rightarrow> ('a \<Rightarrow> 'b req) \<Rightarrow> 'b req" where
  "req_bind m f w = (case m w of (Inl e, w) \<Rightarrow> (Inl e, w) | (Inr a, w) \<Rightarrow> f a w)"

definition req_lift :: "api_error + 'a \<Rightarrow> 'a req" where "req_lift r w = (r, w)"

definition guard :: "bool \<Rightarrow> api_error \<Rightarrow> unit req" where
  "guard ok e w = (if ok then Inr () else Inl e, w)"

text \<open>One access.\<close>

definition arrive_req :: "server_env \<Rightarrow> server \<Rightarrow> server" where
  "arrive_req env w = (en_others env (sv_tick w) w)\<lparr>sv_tick := sv_tick w + 1\<rparr>"

definition now_ns :: "server_env \<Rightarrow> u64 req" where
  "now_ns env w = (Inr (en_now env (sv_tick w)), w)"

definition random_bytes :: "server_env \<Rightarrow> nat \<Rightarrow> bytes req" where
  "random_bytes env n w = (Inr (en_random env (sv_tick w) n), w)"

section \<open>Accesses\<close>

text \<open>\<open>read\<close>, \<open>write\<close>: the catalog.\<close>

definition sv_read :: "server_env \<Rightarrow> (repo_db \<Rightarrow> api_error + 'a) \<Rightarrow> 'a req" where
  "sv_read env f w = (let w = arrive_req env w in (f (sv_cat w), w))"

definition sv_write :: "server_env \<Rightarrow> (repo_db \<Rightarrow> api_error + 'a \<times> repo_db) \<Rightarrow> 'a req" where
  "sv_write env f w0 =
     (let w = arrive_req env w0 in
      if en_busy env (sv_tick w0) then (Inl writer_busy, w)
      else (case f (sv_cat w) of
              Inl e \<Rightarrow> (Inl e, w)
            | Inr (a, cat) \<Rightarrow> (Inr a, w\<lparr>sv_cat := cat\<rparr>)))"

text \<open>\<open>RepoCx\<close>: the repository's id and connection, and the catalog.\<close>

record cx =
  cx_id :: i64
  cx_split :: bool
  cx_cat :: repo_db
  cx_db :: repo_db

definition cat_of :: "cx \<Rightarrow> repo_db" where
  "cat_of c = (if cx_split c then cx_cat c else cx_db c)"

definition no_repo :: "server_env \<Rightarrow> bytes \<Rightarrow> api_error" where
  "no_repo env name =
     api_new RepoNotFound (ascii ''no repo named '' @ en_debug env name @ ascii '' on this server'')"

definition resolve_repo :: "server_env \<Rightarrow> bytes \<Rightarrow> i64 option req" where
  "resolve_repo env name = sv_read env (\<lambda>db. Inr (repo_id_by_name db name))"

definition cx_at :: "server \<Rightarrow> i64 \<Rightarrow> cx option" where
  "cx_at w i =
     (if sv_split w then
        map_option (\<lambda>db. \<lparr>cx_id = i, cx_split = True, cx_cat = sv_cat w, cx_db = db\<rparr>) (om_get (sv_files w) i)
      else Some \<lparr>cx_id = i, cx_split = False, cx_cat = sv_cat w, cx_db = sv_cat w\<rparr>)"

definition sv_read_repo :: "server_env \<Rightarrow> bytes \<Rightarrow> (cx \<Rightarrow> api_error + 'a) \<Rightarrow> 'a req" where
  "sv_read_repo env name f =
     req_bind (resolve_repo env name) (\<lambda>found.
       case found of
         None \<Rightarrow> fail (no_repo env name)
       | Some i \<Rightarrow> (\<lambda>w. let w = arrive_req env w in
           case cx_at w i of
             None \<Rightarrow> (Inl api_internal, w)
           | Some c \<Rightarrow> (f c, w)))"

text \<open>The tables of a context back into the state.\<close>

definition put_cx :: "cx \<Rightarrow> server \<Rightarrow> server" where
  "put_cx c w =
     (if sv_split w then w\<lparr>sv_cat := cx_cat c, sv_files := om_insert (cx_id c) (cx_db c) (sv_files w)\<rparr>
      else w\<lparr>sv_cat := cx_db c\<rparr>)"

definition sv_write_repo :: "server_env \<Rightarrow> bytes \<Rightarrow> (cx \<Rightarrow> api_error + 'a \<times> cx) \<Rightarrow> 'a req" where
  "sv_write_repo env name f =
     req_bind (resolve_repo env name) (\<lambda>found.
       case found of
         None \<Rightarrow> fail (no_repo env name)
       | Some i \<Rightarrow> (\<lambda>w0. let w = arrive_req env w0 in
           if en_busy env (sv_tick w0) then (Inl writer_busy, w)
           else (case cx_at w i of
             None \<Rightarrow> (Inl api_internal, w)
           | Some c \<Rightarrow>
               (case f c of
                  Inl e \<Rightarrow> (Inl e, w)
                | Inr (a, c) \<Rightarrow> (Inr a, put_cx c w)))))"

section \<open>Running a request\<close>

named_theorems runs

lemmas [runs] = ret_def fail_def req_bind_def req_lift_def guard_def now_ns_def random_bytes_def

lemma req_bind_ret [simp]: "req_bind (ret a) f = f a"
  by (rule ext) (simp add: req_bind_def ret_def)

lemma req_bind_fail [simp]: "req_bind (fail e) f = fail e"
  by (rule ext) (simp add: req_bind_def fail_def)

lemma req_bind_assoc: "req_bind (req_bind m f) g = req_bind m (\<lambda>a. req_bind (f a) g)"
  by (rule ext) (simp add: req_bind_def split: prod.split sum.split)

lemma arrive_tick [simp]: "sv_tick (arrive_req env w) = sv_tick w + 1"
  by (simp add: arrive_req_def)

end
