(* ===== verification/Ticket.thy ===== *)
theory Ticket
  imports Server
begin

text \<open>
  Cache tickets (\<open>crates/naatre-server/src/ticket.rs\<close>): what the origin mints and the cache tier verifies, and the
  key files. Base64, Ed25519, BLAKE3 and the JSON text of the claims and of the key file are libraries: fields of
  \<open>crypto\<close>; \<open>crypto_lawful\<close> states what a round trip needs of them. A key file is its mode bits and its
  contents, if it is there.
\<close>

section \<open>Claims and keys\<close>

definition TICKET_MAX_LIFETIME_SECS :: u64 where "TICKET_MAX_LIFETIME_SECS = 900"
definition TICKET_DEFAULT_LIFETIME_SECS :: u64 where "TICKET_DEFAULT_LIFETIME_SECS = 600"
definition TICKET_SCHEME :: bytes where "TICKET_SCHEME = ascii ''NaatreTicket''"
definition SIGNING_DOMAIN :: bytes where "SIGNING_DOMAIN = ascii ''naatre-ticket-v1'' @ [10]"
definition IAT_SKEW_SECS :: u64 where "IAT_SKEW_SECS = 30"
definition SEC_NS :: u64 where "SEC_NS = 1000000000"

record ticket_claims =
  tc_v :: u32
  tc_tid :: bytes
  tc_principal :: bytes
  tc_repo :: bytes
  tc_root_tree :: bytes
  tc_iat :: u64
  tc_exp :: u64

datatype ticket_error = Ticket_Invalid | Ticket_Expired

record verify_key =
  vk_id :: bytes
  vk_public :: bytes
  vk_current :: bool

record raw_key =
  rk_raw_id :: bytes
  rk_raw_public :: bytes
  rk_raw_current :: bool

record 'k crypto =
  ct_b64 :: "bytes \<Rightarrow> bytes"
  ct_unb64 :: "bytes \<Rightarrow> bytes option"
  ct_sign :: "'k \<Rightarrow> bytes \<Rightarrow> bytes"
  ct_public :: "'k \<Rightarrow> bytes"
  ct_verify :: "bytes \<Rightarrow> bytes \<Rightarrow> bytes \<Rightarrow> bool"
  ct_hash :: "bytes \<Rightarrow> bytes"
  ct_claims_json :: "ticket_claims \<Rightarrow> bytes"
  ct_claims_parse :: "bytes \<Rightarrow> ticket_claims option"
  ct_keys_parse :: "bytes \<Rightarrow> raw_key list option"
  ct_pkcs8 :: "bytes \<Rightarrow> 'k option"

text \<open>The first four bytes of the hash, in lower-case hex.\<close>

definition key_id :: "'k crypto \<Rightarrow> bytes \<Rightarrow> bytes" where
  "key_id cr public = to_hex (take 4 (ct_hash cr public))"

section \<open>Minting and verifying\<close>

definition mint_ticket :: "'k crypto \<Rightarrow> ticket_claims \<Rightarrow> 'k \<Rightarrow> bytes" where
  "mint_ticket cr claims k =
     (let payload = ct_claims_json cr claims;
          signature = ct_sign cr k (SIGNING_DOMAIN @ payload)
      in ct_b64 cr payload @ [46] @ ct_b64 cr signature @ [46] @ key_id cr (ct_public cr k))"

definition split_ticket :: "bytes \<Rightarrow> (bytes \<times> bytes \<times> bytes) option" where
  "split_ticket ticket =
     Option.bind (split_once [46] ticket) (\<lambda>(a, rest).
       map_option (\<lambda>(b, c). (a, b, c)) (split_once [46] rest))"

text \<open>The checks on the claims, in the order of the code.\<close>

definition check_claims :: "ticket_claims \<Rightarrow> u64 \<Rightarrow> ticket_error + ticket_claims" where
  "check_claims c now =
     (if tc_v c \<noteq> 1 then Inl Ticket_Invalid
      else if from_hex (tc_root_tree c) = None then Inl Ticket_Invalid
      else if TICKET_MAX_LIFETIME_SECS * SEC_NS < u64_saturating_sub (tc_exp c) (tc_iat c) then Inl Ticket_Invalid
      else if u64_saturating_add now (IAT_SKEW_SECS * SEC_NS) < tc_iat c then Inl Ticket_Invalid
      else if u64_saturating_add now (TICKET_MAX_LIFETIME_SECS * SEC_NS) < tc_exp c then Inl Ticket_Invalid
      else if tc_exp c \<le> now then Inl Ticket_Expired
      else Inr c)"

definition verify_ticket :: "'k crypto \<Rightarrow> bytes \<Rightarrow> verify_key list \<Rightarrow> u64 \<Rightarrow> ticket_error + ticket_claims" where
  "verify_ticket cr ticket keys now =
     (case split_ticket ticket of
        None \<Rightarrow> Inl Ticket_Invalid
      | Some (payload_b64, sig_b64, kid) \<Rightarrow>
          (case find (\<lambda>k. vk_id k = kid) keys of
             None \<Rightarrow> Inl Ticket_Invalid
           | Some key \<Rightarrow>
               rbind (ok_or (ct_unb64 cr payload_b64) Ticket_Invalid) (\<lambda>payload.
               rbind (ok_or (ct_unb64 cr sig_b64) Ticket_Invalid) (\<lambda>signature.
                 if \<not> ct_verify cr (vk_public key) (SIGNING_DOMAIN @ payload) signature then Inl Ticket_Invalid
                 else rbind (ok_or (ct_claims_parse cr payload) Ticket_Invalid) (\<lambda>claims.
                   check_claims claims now)))))"

section \<open>Key files\<close>

datatype key_error =
    Key_Json
  | Key_Not_Hex
  | Key_Wrong_Id bytes
  | Key_Duplicate_Id bytes
  | Key_Empty
  | Key_Unreadable
  | Key_Wide_Mode nat
  | Key_Not_Pkcs8

text \<open>64 lower-case hex digits.\<close>

definition raw_public :: "bytes \<Rightarrow> key_error + bytes" where
  "raw_public hex = ok_or (from_hex hex) Key_Not_Hex"

definition key_id_from_hex_checked :: "'k crypto \<Rightarrow> bytes \<Rightarrow> key_error + bytes" where
  "key_id_from_hex_checked cr hex = rbind (raw_public hex) (\<lambda>p. Inr (key_id cr p))"

primrec parse_keys :: "'k crypto \<Rightarrow> raw_key list \<Rightarrow> verify_key list \<Rightarrow> key_error + verify_key list" where
  "parse_keys cr [] keys = Inr keys"
| "parse_keys cr (k # ks) keys =
     rbind (key_id_from_hex_checked cr (rk_raw_public k)) (\<lambda>i.
       if rk_raw_id k \<noteq> i then Inl (Key_Wrong_Id (rk_raw_id k))
       else if list_ex (\<lambda>e. vk_id e = rk_raw_id k) keys then Inl (Key_Duplicate_Id (rk_raw_id k))
       else rbind (raw_public (rk_raw_public k)) (\<lambda>p.
         parse_keys cr ks (keys @ [\<lparr>vk_id = rk_raw_id k, vk_public = p, vk_current = rk_raw_current k\<rparr>])))"

definition verify_keys_parse :: "'k crypto \<Rightarrow> bytes \<Rightarrow> key_error + verify_key list" where
  "verify_keys_parse cr json =
     (case ct_keys_parse cr json of
        None \<Rightarrow> Inl Key_Json
      | Some raw \<Rightarrow> rbind (parse_keys cr raw []) (\<lambda>keys. if keys = [] then Inl Key_Empty else Inr keys))"

type_synonym key_file = "(nat \<times> bytes) option"

text \<open>\<open>mode & 0o077\<close> must be zero.\<close>

definition read_private :: "key_file \<Rightarrow> key_error + bytes" where
  "read_private f =
     (case f of
        None \<Rightarrow> Inl Key_Unreadable
      | Some (mode, contents) \<Rightarrow> if mode mod 64 \<noteq> 0 then Inl (Key_Wide_Mode mode) else Inr contents)"

definition load_signing_key :: "'k crypto \<Rightarrow> key_file \<Rightarrow> key_error + 'k" where
  "load_signing_key cr f = rbind (read_private f) (\<lambda>b. ok_or (ct_pkcs8 cr b) Key_Not_Pkcs8)"

definition load_verify_key_file :: "'k crypto \<Rightarrow> key_file \<Rightarrow> key_error + verify_key list" where
  "load_verify_key_file cr f = rbind (read_private f) (verify_keys_parse cr)"

section \<open>What the libraries must do\<close>

definition crypto_lawful :: "'k crypto \<Rightarrow> bool" where
  "crypto_lawful cr \<longleftrightarrow>
     (\<forall>x. ct_unb64 cr (ct_b64 cr x) = Some x) \<and> (\<forall>x. 46 \<notin> set (ct_b64 cr x)) \<and>
     (\<forall>k m. ct_verify cr (ct_public cr k) m (ct_sign cr k m)) \<and>
     (\<forall>c. ct_claims_parse cr (ct_claims_json cr c) = Some c)"

lemma split_once_at: "c \<notin> set xs \<Longrightarrow> split_once [c] (xs @ c # ys) = Some (xs, ys)"
  by (induction xs) auto

lemma split_ticket_mint:
  assumes "crypto_lawful cr"
  shows "split_ticket (ct_b64 cr p @ [46] @ ct_b64 cr s @ [46] @ i) = Some (ct_b64 cr p, ct_b64 cr s, i)"
proof -
  have "46 \<notin> set (ct_b64 cr x)" for x using assms by (simp add: crypto_lawful_def)
  then show ?thesis by (simp add: split_ticket_def split_once_at)
qed

lemma verify_minted:
  assumes "crypto_lawful cr" and "find (\<lambda>v. vk_id v = key_id cr (ct_public cr k)) keys = Some v"
    and "vk_public v = ct_public cr k"
  shows "verify_ticket cr (mint_ticket cr claims k) keys now = check_claims claims now"
  using assms(2,3) split_ticket_mint [OF assms(1)] assms(1)
  by (simp add: verify_ticket_def mint_ticket_def Let_def crypto_lawful_def)

section \<open>The lifetime of a ticket\<close>

definition max_ns :: nat where "max_ns = 900000000000"
definition skew_ns :: nat where "skew_ns = 30000000000"

lemma unat_saturating_add: "unat (u64_saturating_add a b) = min (unat a + unat b) (2 ^ 64 - 1)"
proof (cases "unat a + unat b < 2 ^ 64")
  case True
  then have "unat (a + b) = unat a + unat b" by (simp add: unat_word_ariths)
  then show ?thesis using True by (simp add: u64_saturating_add_def)
next
  case False
  have "unat (- 1 :: u64) = 2 ^ 64 - 1" by (simp add: unsigned_minus_1_eq_mask mask_eq_exp_minus_1)
  then show ?thesis using False by (simp add: u64_saturating_add_def)
qed

lemma unat_saturating_sub: "unat (u64_saturating_sub a b) = unat a - unat b"
  by (simp add: u64_saturating_sub_def unat_sub word_le_nat_alt)

lemma ticket_constants:
  "unat (TICKET_MAX_LIFETIME_SECS * SEC_NS) = max_ns" "unat (IAT_SKEW_SECS * SEC_NS) = skew_ns"
  by (simp_all add: TICKET_MAX_LIFETIME_SECS_def SEC_NS_def IAT_SKEW_SECS_def max_ns_def skew_ns_def)

text \<open>The verdict on claims, over the natural numbers.\<close>

lemma check_claims_iff:
  "check_claims c now = Inr c' \<longleftrightarrow>
     c' = c \<and> tc_v c = 1 \<and> from_hex (tc_root_tree c) \<noteq> None \<and>
     unat (tc_exp c) \<le> unat (tc_iat c) + max_ns \<and> unat (tc_iat c) \<le> unat now + skew_ns \<and>
     unat (tc_exp c) \<le> unat now + max_ns \<and> unat now < unat (tc_exp c)"
proof -
  have "unat (tc_exp c) < 2 ^ 64" "unat (tc_iat c) < 2 ^ 64" using unat_u64_less [of "tc_exp c"] unat_u64_less [of "tc_iat c"] by simp_all
  then show ?thesis
    by (auto simp: check_claims_def word_less_nat_alt word_le_nat_alt unat_saturating_add unat_saturating_sub ticket_constants)
qed

text \<open>C30: what an accepted ticket guarantees, whatever string was presented. Some listed key's id is its third part,
  and that key's signature over the domain separator and the payload checks; the claims are what the payload
  says; and the ticket is short-lived by the verifier's own clock: it has not expired, it expires within 15 minutes
  of now, its stamped lifetime is at most 15 minutes, and it was not issued more than 30 seconds in the future.\<close>
theorem accepted_ticket_is_bounded:
  assumes "verify_ticket cr ticket keys now = Inr c"
  shows "\<exists>payload_b64 sig_b64 key payload sig.
           split_ticket ticket = Some (payload_b64, sig_b64, vk_id key) \<and> key \<in> set keys \<and>
           ct_unb64 cr payload_b64 = Some payload \<and> ct_unb64 cr sig_b64 = Some sig \<and>
           ct_verify cr (vk_public key) (SIGNING_DOMAIN @ payload) sig \<and> ct_claims_parse cr payload = Some c \<and>
           from_hex (tc_root_tree c) \<noteq> None \<and>
           unat now < unat (tc_exp c) \<and> unat (tc_exp c) \<le> unat now + max_ns \<and>
           unat (tc_exp c) \<le> unat (tc_iat c) + max_ns \<and> unat (tc_iat c) \<le> unat now + skew_ns"
proof -
  obtain p s kid where split: "split_ticket ticket = Some (p, s, kid)"
    using assms by (auto simp: verify_ticket_def split: option.splits)
  obtain key where key: "find (\<lambda>k. vk_id k = kid) keys = Some key"
    using assms split by (auto simp: verify_ticket_def split: option.splits)
  have k: "key \<in> set keys" "vk_id key = kid" using key by (auto simp: find_Some_iff)
  obtain payload sig where d: "ct_unb64 cr p = Some payload" "ct_unb64 cr s = Some sig"
    using assms split key by (cases "ct_unb64 cr p"; cases "ct_unb64 cr s") (auto simp: verify_ticket_def ok_or_def)
  have v: "ct_verify cr (vk_public key) (SIGNING_DOMAIN @ payload) sig"
    using assms split key d by (auto simp: verify_ticket_def ok_or_def split: if_splits)
  obtain claims where c: "ct_claims_parse cr payload = Some claims" "check_claims claims now = Inr c"
    using assms split key d v by (cases "ct_claims_parse cr payload") (auto simp: verify_ticket_def ok_or_def)
  from c(2) have "c = claims" "from_hex (tc_root_tree c) \<noteq> None" "unat now < unat (tc_exp c)"
    "unat (tc_exp c) \<le> unat now + max_ns" "unat (tc_exp c) \<le> unat (tc_iat c) + max_ns" "unat (tc_iat c) \<le> unat now + skew_ns"
    unfolding check_claims_iff by simp_all
  then show ?thesis using split k d v c(1) by blast
qed

text \<open>C31: a minted ticket is accepted exactly in its window. A ticket issued at \<open>iat\<close> for \<open>ttl\<close> nanoseconds of at
  most 15 minutes (the expiry does not wrap around), of claim version 1, with a well-formed root, verifies at \<open>now\<close> - and
  gives back the claims that were minted - exactly
  when it has not expired, the verifier's clock is at most 30 seconds behind the issuer's, and the remaining
  lifetime by the verifier's clock is at most 15 minutes. So the clock drift a ticket tolerates shrinks as
  \<open>ttl\<close> grows: at the cap of 15 minutes a verifier that is behind by a nanosecond refuses a fresh ticket. The conditions:
  the first listed key under the signing key's id is its public key, and the libraries do what they document (signatures
  check under the public key, base64 and JSON round-trip and write no dot).\<close>
theorem minted_ticket_window:
  assumes "crypto_lawful cr" and "find (\<lambda>v. vk_id v = key_id cr (ct_public cr k)) keys = Some v"
    and "vk_public v = ct_public cr k" and "tc_v c = 1" and "from_hex (tc_root_tree c) \<noteq> None"
    and "unat (tc_exp c) = unat (tc_iat c) + ttl" and "ttl \<le> max_ns"
  shows "verify_ticket cr (mint_ticket cr c k) keys now = Inr c \<longleftrightarrow>
         unat now < unat (tc_iat c) + ttl \<and> unat (tc_iat c) \<le> unat now + min skew_ns (max_ns - ttl)"
  using assms(4-7) unfolding verify_minted [OF assms(1-3)] check_claims_iff by (auto simp: min_def)

text \<open>Loaded keys have distinct ids, each its own key's.\<close>

lemma parse_keys_ok:
  assumes "parse_keys cr raw keys = Inr keys'" and "distinct (map vk_id keys)"
    and "\<forall>v \<in> set keys. vk_id v = key_id cr (vk_public v)"
  shows "distinct (map vk_id keys') \<and> (\<forall>v \<in> set keys'. vk_id v = key_id cr (vk_public v))"
  using assms
proof (induction raw arbitrary: keys)
  case (Cons r raw)
  from Cons.prems(1) obtain p where p: "raw_public (rk_raw_public r) = Inr p"
    by (cases "raw_public (rk_raw_public r)") (simp_all add: key_id_from_hex_checked_def)
  let ?v = "\<lparr>vk_id = rk_raw_id r, vk_public = p, vk_current = rk_raw_current r\<rparr>"
  from Cons.prems(1) p have r: "rk_raw_id r = key_id cr p" "rk_raw_id r \<notin> vk_id ` set keys"
    "parse_keys cr raw (keys @ [?v]) = Inr keys'"
    by (auto simp: key_id_from_hex_checked_def list_ex_iff split: if_splits)
  show ?case using Cons.IH [OF r(3)] Cons.prems(2,3) r(1,2) by auto
qed simp

section \<open>Witnesses\<close>

text \<open>A cipher suite that keeps the laws: hex for base64, the message as its own signature.\<close>

definition claims_fields :: "ticket_claims \<Rightarrow> bytes list" where
  "claims_fields c = [u32_le (tc_v c), tc_tid c, tc_principal c, tc_repo c, tc_root_tree c, u64_le (tc_iat c), u64_le (tc_exp c)]"

definition claims_of :: "bytes option list \<Rightarrow> ticket_claims option" where
  "claims_of fs =
     (case fs of
        [Some v, Some t, Some p, Some r, Some tree, Some iat, Some exp] \<Rightarrow>
          Some \<lparr>tc_v = word_of_nat (le_nat v), tc_tid = t, tc_principal = p, tc_repo = r, tc_root_tree = tree,
                tc_iat = word_of_nat (le_nat iat), tc_exp = word_of_nat (le_nat exp)\<rparr>
      | _ \<Rightarrow> None)"

definition toy_crypto :: "bytes crypto" where
  "toy_crypto =
     \<lparr>ct_b64 = to_hex, ct_unb64 = hex_bytes, ct_sign = (\<lambda>k m. m), ct_public = (\<lambda>k. k), ct_verify = (\<lambda>p m s. s = m),
      ct_hash = (\<lambda>x. x), ct_claims_json = (\<lambda>c. join_with 46 (map to_hex (claims_fields c))),
      ct_claims_parse = (\<lambda>b. claims_of (map hex_bytes (split_on 46 b))), ct_keys_parse = (\<lambda>_. None), ct_pkcs8 = Some\<rparr>"

lemma to_hex_no_dot: "46 \<notin> set (to_hex i)"
  using to_hex_set [of i] by (auto simp: HEX_DIGITS_def ascii_def)

lemma toy_crypto_lawful: "crypto_lawful toy_crypto"
proof -
  have "claims_of (map hex_bytes (split_on 46 (join_with 46 (map to_hex (claims_fields c))))) = Some c" for c
  proof -
    have "split_on 46 (join_with 46 (map to_hex (claims_fields c))) = map to_hex (claims_fields c)"
      by (rule split_join) (auto simp: claims_fields_def to_hex_no_dot)
    then show ?thesis
      by (simp add: claims_fields_def claims_of_def hex_bytes_to_hex u32_le_inverse u64_le_inverse o_def)
  qed
  then show ?thesis by (simp add: crypto_lawful_def toy_crypto_def hex_bytes_to_hex to_hex_no_dot)
qed

definition toy_claims :: "nat \<Rightarrow> ticket_claims" where
  "toy_claims ttl = \<lparr>tc_v = 1, tc_tid = [], tc_principal = [], tc_repo = [], tc_root_tree = to_hex (replicate 32 0),
     tc_iat = 1000, tc_exp = 1000 + of_nat ttl\<rparr>"

definition toy_keys :: "verify_key list" where
  "toy_keys = [\<lparr>vk_id = key_id toy_crypto [7], vk_public = [7], vk_current = True\<rparr>]"

lemma toy_root: "from_hex (to_hex (replicate 32 0)) \<noteq> None"
  using from_hex_to_hex [of "replicate 32 0"] by (simp add: wf_id_def)

lemma toy_find: "find (\<lambda>v. vk_id v = key_id toy_crypto (ct_public toy_crypto [7])) toy_keys = Some (hd toy_keys)"
  "vk_public (hd toy_keys) = ct_public toy_crypto [7]"
  by (simp_all add: toy_keys_def toy_crypto_def)

lemma toy_accepted: "verify_ticket toy_crypto (mint_ticket toy_crypto (toy_claims 500) [7]) toy_keys 1200 = Inr (toy_claims 500)"
proof -
  have "check_claims (toy_claims 500) 1200 = Inr (toy_claims 500)"
    unfolding check_claims_iff using toy_root by (simp add: toy_claims_def max_ns_def skew_ns_def)
  then show ?thesis using verify_minted [OF toy_crypto_lawful toy_find] by simp
qed

lemma accepted_ticket_is_bounded_witness:
  "\<exists>payload_b64 sig_b64 key payload sig.
     split_ticket (mint_ticket toy_crypto (toy_claims 500) [7]) = Some (payload_b64, sig_b64, vk_id key) \<and> key \<in> set toy_keys \<and>
     ct_unb64 toy_crypto payload_b64 = Some payload \<and> ct_unb64 toy_crypto sig_b64 = Some sig \<and>
     ct_verify toy_crypto (vk_public key) (SIGNING_DOMAIN @ payload) sig \<and>
     ct_claims_parse toy_crypto payload = Some (toy_claims 500) \<and> from_hex (tc_root_tree (toy_claims 500)) \<noteq> None \<and>
     unat (1200 :: u64) < unat (tc_exp (toy_claims 500)) \<and> unat (tc_exp (toy_claims 500)) \<le> unat (1200 :: u64) + max_ns \<and>
     unat (tc_exp (toy_claims 500)) \<le> unat (tc_iat (toy_claims 500)) + max_ns \<and>
     unat (tc_iat (toy_claims 500)) \<le> unat (1200 :: u64) + skew_ns"
  using accepted_ticket_is_bounded [OF toy_accepted] .

lemma minted_ticket_window_witness:
  "(verify_ticket toy_crypto (mint_ticket toy_crypto (toy_claims 900000000000) [7]) toy_keys 999 =
      Inr (toy_claims 900000000000)) = False"
proof -
  have ttl: "unat (tc_exp (toy_claims 900000000000)) = unat (tc_iat (toy_claims 900000000000)) + 900000000000"
    "(900000000000 :: nat) \<le> max_ns" "tc_v (toy_claims 900000000000) = 1"
    "from_hex (tc_root_tree (toy_claims 900000000000)) \<noteq> None"
    using toy_root by (simp_all add: toy_claims_def max_ns_def)
  from minted_ticket_window [OF toy_crypto_lawful toy_find ttl(3,4,1,2), of 999]
  show ?thesis by (simp add: toy_claims_def max_ns_def)
qed

end
