(* ===== verification/Auth.thy ===== *)
theory Auth
  imports Ticket
begin

text \<open>
  Authentication (\<open>crates/naatre-server/src/auth.rs\<close>) and the visibility gates that run before every
  statement of a repository-scoped route (\<open>crates/naatre-server/src/routes/mod.rs\<close>). The result of the
  middleware is what it inserts into the request: the principal and, for a cache ticket, its claims. A header value
  is the text of visible ASCII that \<open>to_str\<close> accepts.
\<close>

section \<open>Roles\<close>

datatype role = Admin | Writer | Reader | Ticket_Role

definition role_parse :: "bytes \<Rightarrow> role option" where
  "role_parse s =
     (if s = ascii ''admin'' then Some Admin
      else if s = ascii ''writer'' then Some Writer
      else if s = ascii ''reader'' then Some Reader
      else None)"

primrec role_name :: "role \<Rightarrow> string" where
  "role_name Admin = ''admin''"
| "role_name Writer = ''writer''"
| "role_name Reader = ''reader''"
| "role_name Ticket_Role = ''ticket''"

definition role_str :: "role \<Rightarrow> bytes" where "role_str r = ascii (role_name r)"

primrec role_rank :: "role \<Rightarrow> nat" where
  "role_rank Admin = 3"
| "role_rank Writer = 2"
| "role_rank Reader = 1"
| "role_rank Ticket_Role = 0"

definition at_least :: "role \<Rightarrow> role \<Rightarrow> bool" where
  "at_least r min_role \<longleftrightarrow> role_rank min_role \<le> role_rank r"

record authed =
  ap_principal :: bytes
  ap_role :: role
  ap_scope :: "bytes option"

record cache_ticket =
  ck_repo :: bytes
  ck_root :: oid
  ck_exp :: u64

definition lacks_role :: api_error where
  "lacks_role = api_new Forbidden (ascii ''authenticated principal lacks the required role'')"

definition require_role :: "authed \<Rightarrow> role \<Rightarrow> unit req" where
  "require_role auth min_role = guard (at_least (ap_role auth) min_role) lacks_role"

section \<open>Credentials\<close>

definition TOKEN_PREFIX :: bytes where "TOKEN_PREFIX = ascii ''ntk_''"
definition TOKEN_SECRET_BYTES :: nat where "TOKEN_SECRET_BYTES = 24"
definition BEARER :: bytes where "BEARER = ascii ''bearer''"

definition lower_byte :: "byte \<Rightarrow> byte" where
  "lower_byte b = (if 65 \<le> b \<and> b \<le> 90 then b + 32 else b)"

definition eq_ignore_ascii_case :: "bytes \<Rightarrow> bytes \<Rightarrow> bool" where
  "eq_ignore_ascii_case a b \<longleftrightarrow> map lower_byte a = map lower_byte b"

definition is_blank :: "byte \<Rightarrow> bool" where "is_blank b \<longleftrightarrow> b = 32 \<or> (9 \<le> b \<and> b \<le> 13)"

definition trim :: "bytes \<Rightarrow> bytes" where
  "trim s = rev (dropWhile is_blank (rev (dropWhile is_blank s)))"

definition mint_token :: "server_env \<Rightarrow> 'k crypto \<Rightarrow> (bytes \<times> bytes) req" where
  "mint_token env cr =
     req_bind (random_bytes env TOKEN_SECRET_BYTES) (\<lambda>secret.
       let token = TOKEN_PREFIX @ ct_b64 cr secret in ret (token, en_hash env token))"

definition split_header :: "bytes option \<Rightarrow> (bytes \<times> bytes) option" where
  "split_header h = Option.bind h (split_once [32])"

definition is_ticket_header :: "bytes option \<Rightarrow> bool" where
  "is_ticket_header h =
     (case split_header h of None \<Rightarrow> False | Some (scheme, _) \<Rightarrow> eq_ignore_ascii_case scheme TICKET_SCHEME)"

definition bearer_token :: "bytes option \<Rightarrow> bytes option" where
  "bearer_token h =
     (case split_header h of
        None \<Rightarrow> None
      | Some (scheme, token) \<Rightarrow>
          if eq_ignore_ascii_case scheme BEARER \<and> take 4 (trim token) = TOKEN_PREFIX then Some (trim token) else None)"

definition presented :: "bytes option \<Rightarrow> bytes option" where
  "presented h =
     (case split_header h of
        None \<Rightarrow> None
      | Some (scheme, credential) \<Rightarrow>
          if (eq_ignore_ascii_case scheme BEARER \<or> eq_ignore_ascii_case scheme TICKET_SCHEME) \<and> trim credential \<noteq> []
          then Some (trim credential) else None)"

definition failure_key :: "server_env \<Rightarrow> bytes option \<Rightarrow> bytes" where
  "failure_key env h =
     (case presented h of
        None \<Rightarrow> ascii ''anon''
      | Some credential \<Rightarrow>
          (if is_ticket_header h then ascii ''ct:'' else ascii ''tk:'') @ to_hex (take 8 (en_hash env credential)))"

section \<open>The middleware\<close>

definition tick_failure :: "server_env \<Rightarrow> bytes \<Rightarrow> bool req" where
  "tick_failure env key w =
     (let (row, fails) = tick_auth_failure key (en_now env (sv_tick w)) (sv_fails w)
      in (Inr row, w\<lparr>sv_fails := fails\<rparr>))"

text \<open>\<open>let _ = \<dots>.await\<close>: the outcome of the write is ignored.\<close>

definition ignore :: "'a req \<Rightarrow> unit req" where
  "ignore m w = (Inr (), snd (m w))"

definition audit_failure :: "server_env \<Rightarrow> bytes \<Rightarrow> unit req" where
  "audit_failure env key =
     req_bind (now_ns env) (\<lambda>now.
       ignore (sv_write env (\<lambda>db. Inr ((), audit_append (as_i64 now) (ascii ''unknown'') (ascii ''auth_failure'')
         (en_print env (JObj [(ascii ''key'', JStr key)])) db))))"

definition fail_auth :: "server_env \<Rightarrow> bytes option \<Rightarrow> api_code \<Rightarrow> string \<Rightarrow> 'a req" where
  "fail_auth env h code message =
     (let key = failure_key env h in
      req_bind (tick_failure env key) (\<lambda>row.
      req_bind (if row then audit_failure env key else ret ()) (\<lambda>_.
        fail (api_new code (ascii message)))))"

text \<open>The key files at the time of an access.\<close>

record 'k ticket_env =
  te_crypto :: "'k crypto"
  te_verify :: "nat \<Rightarrow> key_file"
  te_signing :: "nat \<Rightarrow> key_file"

definition authenticate_ticket ::
    "server_env \<Rightarrow> 'k ticket_env \<Rightarrow> bytes option \<Rightarrow> (authed \<times> cache_ticket option) req" where
  "authenticate_ticket env te h =
     (case split_header h of
        None \<Rightarrow> fail_auth env h TokenInvalid ''malformed ticket header''
      | Some (_, credential) \<Rightarrow> (\<lambda>w.
          case load_verify_key_file (te_crypto te) (te_verify te (sv_tick w)) of
            Inl _ \<Rightarrow> fail_auth env h TokenInvalid ''cache tickets are not configured on this origin'' w
          | Inr keys \<Rightarrow>
              req_bind (now_ns env) (\<lambda>now.
                case verify_ticket (te_crypto te) (trim credential) keys now of
                  Inl Ticket_Expired \<Rightarrow> fail_auth env h TokenExpired ''cache ticket is expired''
                | Inl Ticket_Invalid \<Rightarrow> fail_auth env h TokenInvalid ''invalid cache ticket''
                | Inr c \<Rightarrow>
                    ret (\<lparr>ap_principal = tc_principal c, ap_role = Ticket_Role, ap_scope = None\<rparr>,
                         Some \<lparr>ck_repo = tc_repo c, ck_root = the (from_hex (tc_root_tree c)), ck_exp = tc_exp c\<rparr>)) w))"

definition authenticate ::
    "server_env \<Rightarrow> 'k ticket_env \<Rightarrow> bytes option \<Rightarrow> (authed \<times> cache_ticket option) req" where
  "authenticate env te h =
     (if is_ticket_header h then authenticate_ticket env te h
      else (case bearer_token h of
              None \<Rightarrow> fail_auth env h TokenInvalid ''missing or malformed bearer token''
            | Some token \<Rightarrow>
                req_bind (sv_read env (\<lambda>db. Inr (auth_lookup db (en_hash env token)))) (\<lambda>found.
                  case found of
                    None \<Rightarrow> fail_auth env h TokenInvalid ''unknown bearer token''
                  | Some row \<Rightarrow>
                      if ar_revoked row then fail_auth env h TokenRevoked ''bearer token is revoked''
                      else req_bind (now_ns env) (\<lambda>now.
                        if (case ar_expires row of None \<Rightarrow> False | Some e \<Rightarrow> e \<le> as_i64 now)
                        then fail_auth env h TokenExpired ''bearer token is expired''
                        else (case role_parse (ar_role row) of
                                None \<Rightarrow> fail api_internal
                              | Some r \<Rightarrow>
                                  ret (\<lparr>ap_principal = ar_principal row, ap_role = r, ap_scope = ar_scope row\<rparr>, None))))))"

section \<open>The visibility gates\<close>

definition repo_id_or_404 :: "server_env \<Rightarrow> bytes \<Rightarrow> i64 req" where
  "repo_id_or_404 env name =
     req_bind (sv_read env (\<lambda>db. Inr (repo_id_by_name db name))) (\<lambda>found.
       case found of None \<Rightarrow> fail (no_repo env name) | Some i \<Rightarrow> ret i)"

definition invisible :: "server_env \<Rightarrow> bytes \<Rightarrow> api_error" where
  "invisible env name =
     api_new RepoNotFound (ascii ''no repo named '' @ en_debug env name @ ascii '' on this server'')"

definition ticket_floor :: api_error where
  "ticket_floor = api_new Forbidden (ascii ''cache tickets are not credentials on this route'')"

definition may_read :: "repo_db \<Rightarrow> i64 \<Rightarrow> bytes \<Rightarrow> bool" where
  "may_read db repo who \<longleftrightarrow>
     \<not> access_is_private db repo \<or> (case access_row_of db repo who of None \<Rightarrow> False | Some a \<Rightarrow> ac_read a)"

definition repo_read_gate :: "server_env \<Rightarrow> authed \<Rightarrow> bytes \<Rightarrow> unit req" where
  "repo_read_gate env auth repo =
     (if ap_role auth = Ticket_Role then fail ticket_floor
      else req_bind (repo_id_or_404 env repo) (\<lambda>i.
        if ap_role auth = Admin then ret ()
        else req_bind (sv_read env (\<lambda>db. Inr (may_read db i (ap_principal auth)))) (\<lambda>visible.
          if visible then ret () else fail (invisible env repo))))"

text \<open>What the grants say of a write.\<close>

datatype write_admission = Public_Allowed | Public_Denied | Private_Allowed | Private_Denied

definition write_admission :: "repo_db \<Rightarrow> i64 \<Rightarrow> authed \<Rightarrow> write_admission" where
  "write_admission db repo auth =
     (if \<not> access_is_private db repo then
        (if at_least (ap_role auth) Writer then Public_Allowed else Public_Denied)
      else (case access_row_of db repo (ap_principal auth) of
              Some a \<Rightarrow> if ac_write a then Private_Allowed else Private_Denied
            | None \<Rightarrow> Private_Denied))"

definition repo_write_gate_sync :: "server_env \<Rightarrow> repo_db \<Rightarrow> i64 \<Rightarrow> authed \<Rightarrow> bytes \<Rightarrow> api_error + unit" where
  "repo_write_gate_sync env cat repo auth name =
     (if ap_role auth = Ticket_Role then Inl ticket_floor
      else if ap_role auth = Admin then Inr ()
      else if \<not> access_is_private cat repo then
        (if at_least (ap_role auth) Writer then Inr () else Inl lacks_role)
      else (case access_row_of cat repo (ap_principal auth) of
              Some a \<Rightarrow> if ac_write a then Inr () else Inl (invisible env name)
            | None \<Rightarrow> Inl (invisible env name)))"

definition repo_write_gate :: "server_env \<Rightarrow> authed \<Rightarrow> bytes \<Rightarrow> unit req" where
  "repo_write_gate env auth repo =
     (if ap_role auth = Ticket_Role then fail ticket_floor
      else req_bind (repo_id_or_404 env repo) (\<lambda>i.
        if ap_role auth = Admin then ret ()
        else req_bind (sv_read env (\<lambda>db. Inr (write_admission db i auth))) (\<lambda>admission.
          case admission of
            Public_Allowed \<Rightarrow> ret ()
          | Private_Allowed \<Rightarrow> ret ()
          | Public_Denied \<Rightarrow> fail lacks_role
          | Private_Denied \<Rightarrow> fail (invisible env repo))))"

end
