(* ===== verification/Limiter.thy ===== *)
theory Limiter
  imports Auth
begin

text \<open>
  What the limiter of failed authentications (\<open>crates/naatre-server/src/state.rs\<close>) lets through to the audit log.
\<close>

section \<open>The limiter\<close>

text \<open>The failures of a sequence of keys and times that are written to the audit log.\<close>

primrec written_rows :: "(bytes \<times> u64) list \<Rightarrow> auth_fail \<Rightarrow> (bytes \<times> u64) list" where
  "written_rows [] inner = []"
| "written_rows (f # fs) inner =
     (let (row, inner) = tick_auth_failure (fst f) (snd f) inner
      in (if row then [f] else []) @ written_rows fs inner)"

definition no_failures :: auth_fail where
  "no_failures = \<lparr>af_buckets = [], af_rows = [], af_count = 0, af_written = 0\<rparr>"

text \<open>The times of a list in the sixty seconds from \<open>t\<close> on.\<close>

definition within :: "nat \<Rightarrow> u64 \<Rightarrow> bool" where
  "within t x \<longleftrightarrow> t \<le> unat x \<and> unat x < t + 60 * 10 ^ 9"

definition spaced :: "nat \<Rightarrow> u64 list \<Rightarrow> bool" where
  "spaced L ts \<longleftrightarrow> (\<forall>t. length (filter (within t) ts) \<le> L)"

text \<open>A pruned list stands for the full one from a time on.\<close>

definition covers :: "u64 \<Rightarrow> u64 list \<Rightarrow> u64 list \<Rightarrow> bool" where
  "covers now b ts \<longleftrightarrow> (\<forall>n \<ge> now. filter (in_window n) b = filter (in_window n) ts)"

lemma in_window_unat: "in_window n x \<longleftrightarrow> unat n - unat x < 60 * 10 ^ 9"
  by (auto simp: in_window_def u64_saturating_sub_def AUTH_FAIL_WINDOW_NS_def word_less_nat_alt word_le_nat_alt unat_sub)

lemma in_window_antimono: "n \<le> n' \<Longrightarrow> in_window n' x \<Longrightarrow> in_window n x"
  unfolding in_window_unat word_le_nat_alt by arith

lemma covers_later: "covers now b ts \<Longrightarrow> now \<le> n \<Longrightarrow> covers n b ts"
  by (auto simp: covers_def)

lemma filter_window_twice: "n \<le> n' \<Longrightarrow> filter (in_window n') (filter (in_window n) b) = filter (in_window n') b"
  using in_window_antimono by (induction b) auto

lemma covers_prune: "covers now b ts \<Longrightarrow> now \<le> n \<Longrightarrow> covers n (filter (in_window n) b) ts"
  unfolding covers_def using filter_window_twice order_trans by metis

lemma covers_add: "covers now b ts \<Longrightarrow> covers now (b @ [n]) (ts @ [n])"
  by (simp add: covers_def)

lemma spaced_add:
  assumes "spaced L ts" "\<forall>x \<in> set ts. x \<le> n" "length (filter (in_window n) ts) < L"
  shows "spaced L (ts @ [n])"
  unfolding spaced_def
proof
  fix t
  show "length (filter (within t) (ts @ [n])) \<le> L"
  proof (cases "within t n")
    case False
    then show ?thesis using assms(1) by (simp add: spaced_def)
  next
    case True
    then have "filter (within t) ts = filter (within t) (filter (in_window n) ts)"
      by (auto simp: within_def in_window_unat intro!: filter_cong)
    then have "length (filter (within t) ts) < L"
      using assms(3) length_filter_le [of "within t" "filter (in_window n) ts"] by simp
    then show ?thesis using True by simp
  qed
qed

definition times_of :: "bytes \<Rightarrow> (bytes \<times> u64) list \<Rightarrow> u64 list" where
  "times_of k fs = map snd (filter (\<lambda>f. fst f = k) fs)"

definition bucket_of :: "auth_fail \<Rightarrow> bytes \<Rightarrow> u64 list" where
  "bucket_of inner k = (case om_get (af_buckets inner) k of None \<Rightarrow> [] | Some b \<Rightarrow> b)"

text \<open>The state of the limiter after it has let the failures of a list through, the last at \<open>now\<close>.\<close>

definition limiter_ok :: "u64 \<Rightarrow> (bytes \<times> u64) list \<Rightarrow> auth_fail \<Rightarrow> bool" where
  "limiter_ok now acc inner \<longleftrightarrow>
     (\<forall>f \<in> set acc. snd f \<le> now) \<and>
     spaced AUTH_FAIL_GLOBAL_ROW_CAP (map snd acc) \<and> covers now (af_rows inner) (map snd acc) \<and>
     (\<forall>k. spaced AUTH_FAIL_PER_KEY_LIMIT (times_of k acc) \<and> covers now (bucket_of inner k) (times_of k acc))"

lemma limiter_ok_init: "limiter_ok 0 [] no_failures"
  by (simp add: limiter_ok_def no_failures_def spaced_def covers_def times_of_def bucket_of_def)

lemma bucket_of_insert [simp]:
  "bucket_of (inner\<lparr>af_buckets := om_insert k b m, af_rows := r, af_count := c\<rparr>) k' =
     (if k' = k then b else (case om_get m k' of None \<Rightarrow> [] | Some b \<Rightarrow> b))"
  "bucket_of (inner\<lparr>af_buckets := om_insert k b m, af_rows := r, af_count := c, af_written := w\<rparr>) k' =
     (if k' = k then b else (case om_get m k' of None \<Rightarrow> [] | Some b \<Rightarrow> b))"
  by (auto simp: bucket_of_def)

lemma limiter_ok_tick:
  assumes "limiter_ok before acc inner" "before \<le> snd f" "tick_auth_failure (fst f) (snd f) inner = (row, inner')"
  shows "limiter_ok (snd f) (if row then acc @ [f] else acc) inner'"
proof -
  obtain k now where f: "f = (k, now)" by (cases f)
  note ok = assms(1) [unfolded limiter_ok_def]
  let ?b = "filter (in_window now) (bucket_of inner k)"
  let ?r = "filter (in_window now) (af_rows inner)"
  have b: "covers now ?b (times_of k acc)" and r: "covers now ?r (map snd acc)"
    using ok assms(2) f by (auto intro: covers_prune)
  then have len: "length ?b = length (filter (in_window now) (times_of k acc))"
      "length ?r = length (filter (in_window now) (map snd acc))"
    by (auto simp: covers_def)
  have le: "\<forall>x \<in> set (map snd acc). x \<le> now" "\<forall>x \<in> set (times_of k acc). x \<le> now"
    using ok assms(2) f by (force simp: times_of_def)+
  have other: "covers now (bucket_of inner k') (times_of k' acc)" for k'
    using ok assms(2) f by (auto intro: covers_later)
  have grow: "times_of k' (acc @ [f]) = (if k' = k then times_of k acc @ [now] else times_of k' acc)" for k'
    by (simp add: times_of_def f)
  show ?thesis
  proof (cases "AUTH_FAIL_PER_KEY_LIMIT \<le> length ?b \<or> AUTH_FAIL_GLOBAL_ROW_CAP \<le> length ?r")
    case True
    then have "row = False" "inner' = inner\<lparr>af_buckets := om_insert k ?b (af_buckets inner), af_rows := ?r, af_count := af_count inner + 1\<rparr>"
      using assms(3) f by (auto simp: tick_auth_failure_def Let_def bucket_of_def split: if_splits)
    then show ?thesis using ok le b r other f
      by (auto simp: limiter_ok_def bucket_of_def times_of_def)
  next
    case False
    then have row: "row = True" "inner' = inner\<lparr>af_buckets := om_insert k (?b @ [now]) (af_buckets inner),
        af_rows := ?r @ [now], af_count := af_count inner + 1, af_written := af_written inner + 1\<rparr>"
      using assms(3) f by (auto simp: tick_auth_failure_def Let_def bucket_of_def split: if_splits)
    have "spaced AUTH_FAIL_GLOBAL_ROW_CAP (map snd acc @ [now])"
      by (rule spaced_add) (use ok le False len in auto)
    moreover have "spaced AUTH_FAIL_PER_KEY_LIMIT (times_of k acc @ [now])"
      by (rule spaced_add) (use ok le False len in auto)
    ultimately show ?thesis using ok le covers_add [OF b] covers_add [OF r] other row f grow
      by (auto simp: limiter_ok_def bucket_of_def)
  qed
qed

lemma limiter_ok_run:
  "limiter_ok before acc inner \<Longrightarrow> sorted (before # map snd fs) \<Longrightarrow>
     \<exists>now inner'. limiter_ok now (acc @ written_rows fs inner) inner'"
proof (induction fs arbitrary: before acc inner)
  case (Cons f fs)
  obtain row inner' where t: "tick_auth_failure (fst f) (snd f) inner = (row, inner')" by fastforce
  have "limiter_ok (snd f) (if row then acc @ [f] else acc) inner'"
    by (rule limiter_ok_tick [OF Cons.prems(1) _ t]) (use Cons.prems(2) in simp)
  from Cons.IH [OF this] Cons.prems(2) show ?case by (cases row) (auto simp: t)
next
  case Nil
  then show ?case by auto
qed

text \<open>C32: failed authentications cannot flood the audit log. Of any sequence of failures in the order of
  the clock (which is monotonic), with whatever keys, from a fresh limiter, those whose row is written number at most 200 in
  any sixty seconds, and at most ten of one key.\<close>
theorem auth_failure_rows_bounded:
  assumes "sorted (map snd fs)"
  shows "length (filter (within t) (map snd (written_rows fs no_failures))) \<le> 200 \<and>
         length (filter (within t) (times_of key (written_rows fs no_failures))) \<le> 10"
proof -
  obtain now inner where "limiter_ok now (written_rows fs no_failures) inner"
    using limiter_ok_run [OF limiter_ok_init, of fs] assms by auto
  then show ?thesis
    by (simp add: limiter_ok_def spaced_def AUTH_FAIL_GLOBAL_ROW_CAP_def AUTH_FAIL_PER_KEY_LIMIT_def)
qed

lemma auth_failure_rows_bounded_witness:
  "length (filter (within 0) (map snd (written_rows (replicate 11 ([1], 5)) no_failures))) \<le> 200 \<and>
   length (filter (within 0) (times_of [1] (written_rows (replicate 11 ([1], 5)) no_failures))) \<le> 10"
  using auth_failure_rows_bounded [of "replicate 11 ([1], 5)" 0 "[1]"] by simp

text \<open>The eleventh failure of a key in the same minute leaves no row.\<close>

lemma eleventh_failure_is_dropped: "length (written_rows (replicate 11 ([1], 5)) no_failures) = 10"
  by code_simp

end
