(* ===== verification/Accounts.thy ===== *)
theory Accounts
  imports Limiter
begin

text \<open>
  The invariant of the accounts in the catalog: what every sequence of the catalog's writes
  (\<open>crates/naatre-server/src/db.rs\<close>) keeps, and what the middleware of \<open>auth.rs\<close> makes of it.
\<close>

section \<open>The writes of the catalog\<close>

datatype catalog_write =
    W_Token_Create bytes bytes bytes "i64 option" "bytes option" i64
  | W_Token_Revoke i64 i64
  | W_Principal_Delete bytes i64 bytes bytes
  | W_Access_Grant i64 bytes bytes bool bool i64 bytes
  | W_Access_Revoke i64 bytes bytes i64 bytes
  | W_Repo_Create bytes i64
  | W_Audit i64 bytes bytes bytes

text \<open>A transaction that fails leaves the tables as they were.\<close>

definition or_else :: "'a \<Rightarrow> 'e + 'a \<Rightarrow> 'a" where
  "or_else a r = (case r of Inl _ \<Rightarrow> a | Inr b \<Rightarrow> b)"

lemma or_else_simps [simp]: "or_else a (Inl e) = a" "or_else a (Inr b) = b"
  by (simp_all add: or_else_def)

primrec run_write :: "(bytes \<Rightarrow> json option) \<Rightarrow> (json \<Rightarrow> bytes) \<Rightarrow> catalog_write \<Rightarrow> 'a repo_db_scheme \<Rightarrow> 'a repo_db_scheme" where
  "run_write parse print (W_Token_Create who rl hash expires scope now) db =
     or_else db (map_sum id snd (token_create print who rl hash expires scope now db))"
| "run_write parse print (W_Token_Revoke i now) db = snd (token_revoke print i now db)"
| "run_write parse print (W_Principal_Delete name now actor raw) db =
     or_else db (map_sum id snd (principal_delete parse print name now actor raw db))"
| "run_write parse print (W_Access_Grant repo repo_name who rd wr now actor) db =
     snd (access_grant print repo repo_name who rd wr now actor db)"
| "run_write parse print (W_Access_Revoke repo repo_name who now actor) db =
     snd (access_revoke print repo repo_name who now actor db)"
| "run_write parse print (W_Repo_Create name created) db = or_else db (map_sum id snd (repos_create name created db))"
| "run_write parse print (W_Audit ts who action details) db = audit_append ts who action details db"

definition run_writes :: "(bytes \<Rightarrow> json option) \<Rightarrow> (json \<Rightarrow> bytes) \<Rightarrow> catalog_write list \<Rightarrow> 'a repo_db_scheme \<Rightarrow> 'a repo_db_scheme" where
  "run_writes parse print ws db = fold (run_write parse print) ws db"

definition new_hash :: "catalog_write \<Rightarrow> bytes option" where
  "new_hash x = (case x of W_Token_Create _ _ hash _ _ _ \<Rightarrow> Some hash | _ \<Rightarrow> None)"

section \<open>The invariant\<close>

definition tokens_ok :: "token_row list \<Rightarrow> (bytes, principal_row) omap \<Rightarrow> bool" where
  "tokens_ok ts ps \<longleftrightarrow>
     om_inv ps \<and> (\<forall>n p. om_get ps n = Some p \<longrightarrow> pr_role p \<in> set ROLES) \<and>
     (\<forall>t \<in> set ts. om_get ps (tk_principal t) \<noteq> None) \<and>
     sorted_wrt (<) (map tk_id ts) \<and> distinct (map tk_hash ts)"

definition grants_ok :: "(i64 \<times> bytes, access_row) omap \<Rightarrow> bool" where
  "grants_ok acc \<longleftrightarrow> om_inv acc \<and> (\<forall>k a. om_get acc k = Some a \<longrightarrow> ac_write a \<longrightarrow> ac_read a)"

definition repos_ok :: "(i64, repo_row) omap \<Rightarrow> bool" where
  "repos_ok rs \<longleftrightarrow> om_inv rs \<and> distinct (map (rr_name \<circ> snd) rs) \<and> (\<forall>i \<in> set (map fst rs). 0 < i)"

definition accounts_ok :: "'a repo_db_scheme \<Rightarrow> bool" where
  "accounts_ok db \<longleftrightarrow>
     tokens_ok (db_tokens db) (db_principals db) \<and> grants_ok (db_access db) \<and> repos_ok (db_repos db)"

lemma next_id_less: "i \<in> set ids \<Longrightarrow> i < next_id ids" "0 < next_id ids"
proof -
  have "a \<le> fold max ids a \<and> (\<forall>i \<in> set ids. i \<le> fold max ids a)" for a :: int
    by (induction ids arbitrary: a) (auto intro: order_trans [OF max.cobounded1] order_trans [OF max.cobounded2])
  from this [of 0] show "i \<in> set ids \<Longrightarrow> i < next_id ids" "0 < next_id ids" by (auto simp: next_id_def)
qed

lemma om_insert_last: "\<forall>i \<in> set (map fst m). i < k \<Longrightarrow> om_insert k v m = m @ [(k, v)]"
  by (induction k v m rule: om_insert.induct) auto

lemma repos_ok_create: "repos_ok (db_repos db) \<Longrightarrow> repos_create name created db = Inr (i, db') \<Longrightarrow> repos_ok (db_repos db')"
proof -
  assume ok: "repos_ok (db_repos db)" and c: "repos_create name created db = Inr (i, db')"
  have i: "i = next_id (map fst (db_repos db))" and new: "repo_id_by_name db name = None"
    and db': "db_repos db' = om_insert i \<lparr>rr_name = name, rr_created = created\<rparr> (db_repos db)"
    using c by (auto simp: repos_create_def Let_def split: if_splits)
  have last: "db_repos db' = db_repos db @ [(i, \<lparr>rr_name = name, rr_created = created\<rparr>)]"
    unfolding db' by (rule om_insert_last) (use i next_id_less(1) in blast)
  have "name \<notin> rr_name ` snd ` set (db_repos db)"
    using new by (fastforce simp: repo_id_by_name_def find_None_iff)
  moreover have "om_inv (db_repos db')" unfolding db' using ok by (simp add: repos_ok_def om_inv_insert)
  ultimately show "repos_ok (db_repos db')"
    using ok next_id_less(2) [of "map fst (db_repos db)"] unfolding repos_ok_def last
    by (auto simp: i [symmetric] image_image)
qed

lemma grants_ok_insert: "grants_ok acc \<Longrightarrow> grants_ok (om_insert k \<lparr>ac_read = (rd \<or> wr), ac_write = wr\<rparr> acc)"
  by (auto simp: grants_ok_def om_inv_insert split: if_splits)

lemma grants_ok_remove: "grants_ok acc \<Longrightarrow> grants_ok (om_remove k acc)"
  by (auto simp: grants_ok_def om_inv_remove om_get_remove split: if_splits)

lemma tokens_ok_upsert:
  assumes "tokens_ok (db_tokens db) (db_principals db)" "principal_upsert who rl now db = Inr db'"
  shows "tokens_ok (db_tokens db') (db_principals db') \<and> om_get (db_principals db') who \<noteq> None"
  using assms by (auto simp: principal_upsert_def tokens_ok_def om_inv_insert Let_def split: if_splits option.splits)

lemma tokens_ok_insert:
  assumes "tokens_ok (db_tokens db) (db_principals db)" "om_get (db_principals db) who \<noteq> None"
    and "token_insert who hash expires scope db = Inr (i, db')"
  shows "tokens_ok (db_tokens db') (db_principals db')"
  using assms next_id_less(1) [of _ "map tk_id (db_tokens db)"]
  by (auto simp: token_insert_def tokens_ok_def sorted_wrt_append list_ex_iff Let_def split: if_splits)

lemma tokens_ok_filter: "tokens_ok ts ps \<Longrightarrow> tokens_ok (filter (\<lambda>t. tk_principal t \<noteq> n) ts) (om_remove n ps)"
  by (auto simp: tokens_ok_def om_inv_remove om_get_remove distinct_map_filter sorted_wrt_filter sorted_wrt_map split: if_splits)

lemma tokens_ok_update:
  "(\<And>t. tk_id (f t) = tk_id t \<and> tk_hash (f t) = tk_hash t \<and> tk_principal (f t) = tk_principal t) \<Longrightarrow>
     tokens_ok (map f ts) ps = tokens_ok ts ps"
  by (simp add: tokens_ok_def o_def)

lemma rows_after [simp]:
  "db_tokens (audit_append ts who a d db) = db_tokens db"
  "db_principals (audit_append ts who a d db) = db_principals db"
  "db_access (audit_append ts who a d db) = db_access db" "db_repos (audit_append ts who a d db) = db_repos db"
  by (simp_all add: audit_append_def)

lemma upserted_rows:
  assumes "principal_upsert who rl now db = Inr db'"
  shows "db_tokens db' = db_tokens db" "db_access db' = db_access db" "db_repos db' = db_repos db"
  using assms by (auto simp: principal_upsert_def Let_def split: if_splits)

lemma insert_rows:
  assumes "token_insert who hash expires scope db = Inr (i, db')"
  shows "db_access db' = db_access db" "db_repos db' = db_repos db" "db_principals db' = db_principals db"
  using assms by (auto simp: token_insert_def Let_def split: if_splits)

lemma token_create_elim:
  assumes "token_create print who rl hash expires scope now db = Inr (i, db')"
  obtains db1 db2 where "principal_upsert who rl now db = Inr db1" "token_insert who hash expires scope db1 = Inr (i, db2)"
    "\<exists>d. db' = audit_append now who (ascii ''token_create'') d db2"
proof -
  obtain db1 where u: "principal_upsert who rl now db = Inr db1"
    using assms by (cases "principal_upsert who rl now db") (auto simp: token_create_def)
  obtain r where t: "token_insert who hash expires scope db1 = Inr r"
    using assms u by (cases "token_insert who hash expires scope db1") (auto simp: token_create_def)
  show ?thesis by (rule that [OF u, of "snd r"]) (use assms u t in \<open>auto simp: token_create_def split: prod.splits\<close>)
qed

lemma token_create_ok:
  assumes "accounts_ok db" "token_create print who rl hash expires scope now db = Inr (i, db')"
  shows "accounts_ok db'"
  using assms(2)
proof (rule token_create_elim)
  fix db1 db2
  assume s: "principal_upsert who rl now db = Inr db1" "token_insert who hash expires scope db1 = Inr (i, db2)"
    "\<exists>d. db' = audit_append now who (ascii ''token_create'') d db2"
  have "tokens_ok (db_tokens db2) (db_principals db2)"
    using assms(1) tokens_ok_upsert [OF _ s(1)] tokens_ok_insert [OF _ _ s(2)] by (auto simp: accounts_ok_def)
  then show "accounts_ok db'" using assms(1) s(3) upserted_rows [OF s(1)] insert_rows [OF s(2)] by (auto simp: accounts_ok_def)
qed

lemma principal_delete_rows:
  assumes "principal_delete parse print name now actor raw db = Inr (n, db')"
  shows "db_access db' = db_access db \<and> db_repos db' = db_repos db \<and>
     (if om_get (db_principals db) name = None then db' = db
      else db_tokens db' = filter (\<lambda>t. tk_principal t \<noteq> name) (db_tokens db) \<and>
           db_principals db' = om_remove name (db_principals db))"
proof (cases "om_get (db_principals db) name = None")
  case False
  then obtain audit where "rmap (erase_actor parse print name (ascii ''deleted:'' @ to_hex raw)) (db_audit db) = Inr audit"
    using assms by (cases "rmap (erase_actor parse print name (ascii ''deleted:'' @ to_hex raw)) (db_audit db)")
      (auto simp: principal_delete_def Let_def)
  then show ?thesis using assms False by (auto simp: principal_delete_def Let_def)
qed (use assms in \<open>simp add: principal_delete_def\<close>)

lemma token_revoke_rows:
  "db_access (snd (token_revoke print i now db)) = db_access db"
  "db_repos (snd (token_revoke print i now db)) = db_repos db"
  "db_principals (snd (token_revoke print i now db)) = db_principals db"
  by (auto simp: token_revoke_def split: option.splits)

definition same_token :: "token_row \<Rightarrow> token_row \<Rightarrow> bool" where
  "same_token t t' \<longleftrightarrow> tk_id t' = tk_id t \<and> tk_hash t' = tk_hash t \<and> tk_principal t' = tk_principal t \<and>
     (tk_revoked t \<longrightarrow> tk_revoked t')"

lemma token_revoke_tokens:
  "\<exists>f. db_tokens (snd (token_revoke print i now db)) = map f (db_tokens db) \<and> (\<forall>t. same_token t (f t))"
proof -
  let ?f = "\<lambda>t. if tk_id t = i \<and> \<not> tk_revoked t then t\<lparr>tk_revoked := True\<rparr> else t"
  have "\<forall>t. same_token t t" "\<forall>t. same_token t (?f t)" by (simp_all add: same_token_def)
  moreover have "db_tokens (snd (token_revoke print i now db)) = map (\<lambda>t. t) (db_tokens db) \<or>
      db_tokens (snd (token_revoke print i now db)) = map ?f (db_tokens db)"
    by (auto simp: token_revoke_def split: option.splits)
  ultimately show ?thesis by blast
qed

lemma run_write_ok: "accounts_ok db \<Longrightarrow> accounts_ok (run_write parse print x db)"
proof (induction x)
  case (W_Token_Create who rl hash expires scope now)
  then show ?case
    using token_create_ok by (cases "token_create print who rl hash expires scope now db") auto
next
  case (W_Token_Revoke i now)
  obtain f where f: "db_tokens (snd (token_revoke print i now db)) = map f (db_tokens db)" "\<forall>t. same_token t (f t)"
    using token_revoke_tokens by blast
  then have "tokens_ok (map f (db_tokens db)) ps = tokens_ok (db_tokens db) ps" for ps
    by (intro tokens_ok_update) (simp add: same_token_def)
  then show ?case using W_Token_Revoke by (simp add: accounts_ok_def token_revoke_rows f(1))
next
  case (W_Principal_Delete name now actor raw)
  then show ?case
    using principal_delete_rows [of parse print name now actor raw db] tokens_ok_filter
    by (cases "principal_delete parse print name now actor raw db") (auto simp: accounts_ok_def split: if_splits)
next
  case (W_Repo_Create name created)
  have "db_tokens db' = db_tokens db \<and> db_principals db' = db_principals db \<and> db_access db' = db_access db"
    if "repos_create name created db = Inr (i, db')" for i db'
    using that by (auto simp: repos_create_def Let_def split: if_splits)
  then show ?case using W_Repo_Create repos_ok_create
    by (cases "repos_create name created db") (auto simp: accounts_ok_def)
next
  case (W_Access_Revoke repo repo_name who now actor)
  then show ?case by (auto simp: accounts_ok_def access_revoke_def access_clear_def grants_ok_remove)
next
  case (W_Access_Grant repo repo_name who rd wr now actor)
  have "access_grant print repo repo_name who rd wr now actor db = (g, db') \<Longrightarrow>
      db_access db' = db_access db \<or> db_access db' = om_insert (repo, who) \<lparr>ac_read = rd \<or> wr, ac_write = wr\<rparr> (db_access db)"
    for g db' by (auto simp: access_grant_def access_set_def Let_def split: if_splits)
  then show ?case using W_Access_Grant grants_ok_insert
    by (cases "access_grant print repo repo_name who rd wr now actor db")
      (auto simp: accounts_ok_def access_grant_def access_set_def Let_def split: if_splits)
qed (simp add: accounts_ok_def)

lemma run_writes_ok: "accounts_ok db \<Longrightarrow> accounts_ok (run_writes parse print ws db)"
  by (induction ws arbitrary: db) (simp_all add: run_writes_def run_write_ok)

section \<open>Looking a token up\<close>

lemma find_distinct_hash: "distinct (map tk_hash ts) \<Longrightarrow> t \<in> set ts \<Longrightarrow> find (\<lambda>u. tk_hash u = tk_hash t) ts = Some t"
  by (induction ts) auto

lemma auth_lookup_iff:
  assumes "accounts_ok db"
  shows "auth_lookup db hash = Some row \<longleftrightarrow> (\<exists>t \<in> set (db_tokens db). tk_hash t = hash \<and> token_join db t = Some row)"
proof -
  have d: "distinct (map tk_hash (db_tokens db))" using assms by (simp add: accounts_ok_def tokens_ok_def)
  show ?thesis
  proof
    assume "auth_lookup db hash = Some row"
    then show "\<exists>t \<in> set (db_tokens db). tk_hash t = hash \<and> token_join db t = Some row"
      by (auto simp: auth_lookup_def bind_eq_Some_conv find_Some_iff)
  qed (auto simp: auth_lookup_def find_distinct_hash [OF d])
qed

lemma role_parse_ROLES: "rl \<in> set ROLES \<Longrightarrow> \<exists>r. role_parse rl = Some r \<and> role_str r = rl"
  by (auto simp: ROLES_def role_parse_def role_str_def)

lemma token_joins: "accounts_ok db \<Longrightarrow> t \<in> set (db_tokens db) \<Longrightarrow>
    \<exists>row r. token_join db t = Some row \<and> ar_id row = tk_id t \<and> role_parse (ar_role row) = Some r"
  using role_parse_ROLES unfolding accounts_ok_def tokens_ok_def token_join_def by fastforce

text \<open>C28: the accounts stay consistent. From accounts that are consistent (as an empty catalog's are), after any sequence of the
  catalog's writes, in any order and with any
  arguments, failed ones included: token ids rise and token hashes are distinct, every token belongs to a principal,
  every role and every grant is well formed (write implies read), repository names are unique; so every stored
  token is found by its hash, and what is found always has a role that the middleware can read.\<close>
theorem accounts_invariant:
  assumes "accounts_ok db"
  shows "accounts_ok (run_writes parse print ws db) \<and>
     (\<forall>t \<in> set (db_tokens (run_writes parse print ws db)).
        \<exists>row r. auth_lookup (run_writes parse print ws db) (tk_hash t) = Some row \<and> ar_id row = tk_id t \<and>
               role_parse (ar_role row) = Some r)"
proof -
  note ok = run_writes_ok [OF assms, of parse print ws]
  then show ?thesis using token_joins [OF ok] auth_lookup_iff [OF ok] by blast
qed

section \<open>Revoked tokens\<close>

text \<open>Every token with the hash, if there is one, is revoked.\<close>

definition dead_hash :: "bytes \<Rightarrow> token_row list \<Rightarrow> bool" where
  "dead_hash hash ts \<longleftrightarrow> (\<forall>t \<in> set ts. tk_hash t = hash \<longrightarrow> tk_revoked t)"

lemma dead_hash_write:
  assumes "dead_hash hash (db_tokens db)" "new_hash x \<noteq> Some hash"
  shows "dead_hash hash (db_tokens (run_write parse print x db))"
  using assms
proof (induction x)
  case (W_Token_Create who rl h expires scope now)
  have "dead_hash hash (db_tokens db')" if "token_create print who rl h expires scope now db = Inr (i, db')" for i db'
    using that
  proof (rule token_create_elim)
    fix db1 db2
    assume s: "principal_upsert who rl now db = Inr db1" "token_insert who h expires scope db1 = Inr (i, db2)"
      "\<exists>d. db' = audit_append now who (ascii ''token_create'') d db2"
    then have "\<exists>t. tk_hash t = h \<and> db_tokens db' = db_tokens db @ [t]"
      using upserted_rows [OF s(1)] by (auto simp: token_insert_def Let_def split: if_splits)
    then show ?thesis using W_Token_Create by (auto simp: dead_hash_def new_hash_def)
  qed
  then show ?case using W_Token_Create by (cases "token_create print who rl h expires scope now db") auto
next
  case (W_Token_Revoke i now)
  then show ?case using token_revoke_tokens [of print i now db] by (auto simp: dead_hash_def same_token_def)
next
  case (W_Principal_Delete name now actor raw)
  then show ?case
    using principal_delete_rows [of parse print name now actor raw db]
    by (cases "principal_delete parse print name now actor raw db") (auto simp: dead_hash_def split: if_splits)
next
  case (W_Repo_Create name created)
  have "db_tokens db' = db_tokens db" if "repos_create name created db = Inr (i, db')" for i db'
    using that by (auto simp: repos_create_def Let_def split: if_splits)
  then show ?case using W_Repo_Create by (cases "repos_create name created db") auto
qed (auto simp: access_revoke_def access_clear_def access_grant_def access_set_def Let_def)

lemma dead_hash_writes:
  "dead_hash hash (db_tokens db) \<Longrightarrow> \<forall>x \<in> set ws. new_hash x \<noteq> Some hash \<Longrightarrow>
     dead_hash hash (db_tokens (run_writes parse print ws db))"
  by (induction ws arbitrary: db) (simp_all add: run_writes_def dead_hash_write)

lemma fail_auth_code: "code \<in> codes \<Longrightarrow> \<exists>e. fst (fail_auth env h code message w) = Inl e \<and> ae_code e \<in> codes"
  by (auto simp: fail_auth_def runs api_new_def Let_def tick_failure_def audit_failure_def ignore_def split: prod.split)

lemma authenticate_unknown:
  "\<not> is_ticket_header h \<Longrightarrow> bearer_token h = Some token \<Longrightarrow>
   auth_lookup (sv_cat (arrive_req env w)) (en_hash env token) = None \<Longrightarrow>
   authenticate env te h w = fail_auth env h TokenInvalid ''unknown bearer token'' (arrive_req env w)"
  by (simp add: authenticate_def req_bind_def sv_read_def)

lemma authenticate_revoked:
  "\<not> is_ticket_header h \<Longrightarrow> bearer_token h = Some token \<Longrightarrow>
   auth_lookup (sv_cat (arrive_req env w)) (en_hash env token) = Some row \<Longrightarrow> ar_revoked row \<Longrightarrow>
   authenticate env te h w = fail_auth env h TokenRevoked ''bearer token is revoked'' (arrive_req env w)"
  by (simp add: authenticate_def req_bind_def sv_read_def)

lemma authenticate_live:
  "\<not> is_ticket_header h \<Longrightarrow> bearer_token h = Some token \<Longrightarrow>
   auth_lookup (sv_cat (arrive_req env w)) (en_hash env token) = Some row \<Longrightarrow> \<not> ar_revoked row \<Longrightarrow>
   authenticate env te h w =
     (if (case ar_expires row of None \<Rightarrow> False | Some e \<Rightarrow> e \<le> as_i64 (en_now env (sv_tick w + 1)))
      then fail_auth env h TokenExpired ''bearer token is expired'' (arrive_req env w)
      else (case role_parse (ar_role row) of
              None \<Rightarrow> (Inl api_internal, arrive_req env w)
            | Some r \<Rightarrow> (Inr (\<lparr>ap_principal = ar_principal row, ap_role = r, ap_scope = ar_scope row\<rparr>, None), arrive_req env w)))"
  by (simp add: authenticate_def req_bind_def sv_read_def now_ns_def fail_def ret_def split: option.split)

section \<open>Witnesses\<close>

text \<open>An environment in which nobody else writes, and the catalog of a reader with one token.\<close>

definition quiet_env :: server_env where
  "quiet_env = \<lparr>en_others = (\<lambda>_ w. w), en_busy = (\<lambda>_. False), en_now = (\<lambda>_. 1000), en_random = (\<lambda>_ n. replicate n 7),
     en_hash = id, en_print = (\<lambda>_. []), en_parse = (\<lambda>_. None), en_debug = id\<rparr>"

definition no_tickets :: "bytes ticket_env" where
  "no_tickets = \<lparr>te_crypto = toy_crypto, te_verify = (\<lambda>_. None), te_signing = (\<lambda>_. None)\<rparr>"

definition sample_server :: "repo_db \<Rightarrow> server" where
  "sample_server cat = \<lparr>sv_cat = cat, sv_split = False, sv_files = [], sv_fails = no_failures, sv_tick = 0\<rparr>"

definition reader_writes :: "catalog_write list" where
  "reader_writes = [W_Token_Create [97] (ascii ''reader'') (ascii ''ntk_1'') None None 5, W_Repo_Create [114] 6]"

definition reader_cat :: repo_db where
  "reader_cat = run_writes (\<lambda>_. None) (\<lambda>_. []) reader_writes empty_repo_db"

lemma empty_accounts_ok: "accounts_ok empty_repo_db"
  by (simp add: accounts_ok_def tokens_ok_def grants_ok_def repos_ok_def empty_repo_db_def)

lemma reader_cat_ok: "accounts_ok reader_cat"
  unfolding reader_cat_def by (rule run_writes_ok [OF empty_accounts_ok])

lemma ascii_roles: "ascii ''reader'' \<in> set ROLES" by (simp add: ROLES_def)

lemmas catalog_run = run_writes_def token_create_def principal_upsert_def token_insert_def empty_repo_db_def
  audit_append_def next_id_def repos_create_def repo_id_by_name_def

lemma reader_cat_rows:
  "db_tokens reader_cat = [\<lparr>tk_id = 1, tk_principal = [97], tk_hash = ascii ''ntk_1'', tk_expires = None, tk_revoked = False,
     tk_scope = None\<rparr>]"
  "db_principals reader_cat = [([97], \<lparr>pr_role = ascii ''reader'', pr_created = 5\<rparr>)]"
  "db_repos reader_cat = [(1, \<lparr>rr_name = [114], rr_created = 6\<rparr>)]" "db_access reader_cat = []"
  using ascii_roles by (simp_all add: reader_cat_def reader_writes_def catalog_run)

lemma accounts_invariant_witness:
  "accounts_ok reader_cat \<and>
   (\<exists>row r. auth_lookup reader_cat (ascii ''ntk_1'') = Some row \<and> ar_id row = 1 \<and> role_parse (ar_role row) = Some r)"
  using accounts_invariant [OF empty_accounts_ok, of "\<lambda>_. None" "\<lambda>_. []" reader_writes]
  unfolding reader_cat_def [symmetric] by (simp add: reader_cat_rows)

definition revoked_cat :: repo_db where
  "revoked_cat = run_writes (\<lambda>_. None) (\<lambda>_. []) [W_Token_Revoke 1 7] reader_cat"

definition reader_header :: "bytes option" where
  "reader_header = Some (ascii ''Bearer ntk_1'')"

lemma reader_header_token: "bearer_token reader_header = Some (ascii ''ntk_1'')" "\<not> is_ticket_header reader_header"
  by code_simp+

lemma revoked_lookup: "auth_lookup revoked_cat (ascii ''ntk_1'') =
   Some \<lparr>ar_id = 1, ar_principal = [97], ar_role = ascii ''reader'', ar_expires = None, ar_revoked = True, ar_scope = None\<rparr>"
  by (simp add: revoked_cat_def run_writes_def token_revoke_def audit_append_def reader_cat_rows auth_lookup_def token_join_def)

lemma sample_server_simps [simp]:
  "sv_cat (sample_server cat) = cat" "sv_tick (sample_server cat) = 0" "en_others quiet_env k w = w"
  "en_hash quiet_env b = b" "en_now quiet_env k = 1000" "en_busy quiet_env k = False" "en_debug quiet_env b = b"
  by (simp_all add: sample_server_def quiet_env_def)


end
