(* ===== verification/Access_Routes.thy ===== *)
theory Access_Routes
  imports Auth Merge_Base Markers
begin

text \<open>
  The handlers of the administrative surface (\<open>crates/naatre-server/src/routes\<close>): grants (\<open>access.rs\<close>), tokens
  (\<open>tokens.rs\<close>), principals (\<open>principals.rs\<close>), repositories (\<open>repos.rs\<close>), refs (\<open>refs.rs\<close>), the audit log
  (\<open>audit.rs\<close>) and the caller's identity (\<open>whoami.rs\<close>). A handler takes the authenticated principal, the path
  and query parameters and the body, and answers the response's fields or an error.
\<close>

section \<open>Query parameters\<close>

text \<open>\<open>str::parse::<i64>\<close> and the decimal of an \<open>i64\<close>.\<close>

definition parse_sign :: "bytes \<Rightarrow> bool \<times> bytes" where
  "parse_sign s = (case s of b # r \<Rightarrow> if b = 45 then (True, r) else if b = 43 then (False, r) else (False, s) | [] \<Rightarrow> (False, s))"

definition parse_i64 :: "bytes \<Rightarrow> i64 option" where
  "parse_i64 s =
     (let (neg, ds) = parse_sign s;
          v = (if neg then - int (dec_val ds) else int (dec_val ds))
      in if ds = [] \<or> \<not> list_all is_ascii_digit ds \<or> v < - (2 ^ 63) \<or> 2 ^ 63 \<le> v then None else Some v)"

definition dec_i64 :: "i64 \<Rightarrow> bytes" where
  "dec_i64 i = (if i < 0 then 45 # dec_str (nat (- i)) else dec_str (nat i))"

record list_query =
  lq_limit :: "bytes option"
  lq_cursor :: "bytes option"

definition parse_limit :: "bytes option \<Rightarrow> api_error + i64" where
  "parse_limit raw =
     (case raw of
        None \<Rightarrow> Inr 50
      | Some s \<Rightarrow>
          (case parse_i64 s of
             None \<Rightarrow> Inl (api_new Malformed (ascii ''limit must be an integer''))
           | Some n \<Rightarrow>
               if n < 1 then Inl (api_new Validation (ascii ''limit must be at least 1''))
               else if n > 200 then Inl (api_new Validation (ascii ''limit must be at most 200''))
               else Inr n))"

definition bad_cursor :: api_error where
  "bad_cursor = api_new Malformed (ascii ''cursor is not a valid page cursor'')"

text \<open>\<open>after:<id>\<close> and \<open>before:<id>\<close>.\<close>

definition parse_cursor :: "bytes \<Rightarrow> i64 \<Rightarrow> bytes option \<Rightarrow> api_error + i64" where
  "parse_cursor prefix dflt cursor =
     (case cursor of
        None \<Rightarrow> Inr dflt
      | Some c \<Rightarrow>
          (case Option.bind (strip_prefix prefix c) parse_i64 of
             None \<Rightarrow> Inl bad_cursor
           | Some i \<Rightarrow> if i < 0 then Inl bad_cursor else Inr i))"

definition malformed :: "string \<Rightarrow> api_error" where "malformed m = api_new Malformed (ascii m)"
definition validation :: "string \<Rightarrow> api_error" where "validation m = api_new Validation (ascii m)"

section \<open>Grants\<close>

record access_body =
  ab_principal :: bytes
  ab_read :: bool
  ab_write :: bool

definition access_list_route :: "server_env \<Rightarrow> authed \<Rightarrow> bytes \<Rightarrow> (bytes \<times> access_row) list req" where
  "access_list_route env auth repo =
     req_bind (repo_read_gate env auth repo) (\<lambda>_.
     req_bind (require_role auth Admin) (\<lambda>_.
     req_bind (repo_id_or_404 env repo) (\<lambda>i.
       sv_read env (\<lambda>db. Inr (access_list db i)))))"

definition access_set_route :: "server_env \<Rightarrow> authed \<Rightarrow> bytes \<Rightarrow> access_body \<Rightarrow> (bool \<times> bool) req" where
  "access_set_route env auth repo body =
     req_bind (repo_read_gate env auth repo) (\<lambda>_.
     req_bind (require_role auth Admin) (\<lambda>_.
     req_bind (guard (trim (ab_principal body) \<noteq> []) (validation ''principal must not be empty'')) (\<lambda>_.
     req_bind (guard (ab_write body \<longrightarrow> ab_read body)
                (validation ''write implies read: a grant with write = true carries read = true'')) (\<lambda>_.
     req_bind (repo_id_or_404 env repo) (\<lambda>i.
     req_bind (now_ns env) (\<lambda>now.
     req_bind (sv_write env (\<lambda>db. Inr (access_grant (en_print env) i repo (ab_principal body) (ab_read body)
                 (ab_write body) (as_i64 now) (ap_principal auth) db))) (\<lambda>granted.
       case granted of
         Some flags \<Rightarrow> ret flags
       | None \<Rightarrow> fail (api_new Validation
           (ascii ''no principal named '' @ en_debug env (ab_principal body) @ ascii '' on this server'')))))))))"

definition access_revoke_route :: "server_env \<Rightarrow> authed \<Rightarrow> bytes \<Rightarrow> bytes \<Rightarrow> unit req" where
  "access_revoke_route env auth repo who =
     req_bind (repo_read_gate env auth repo) (\<lambda>_.
     req_bind (require_role auth Admin) (\<lambda>_.
     req_bind (repo_id_or_404 env repo) (\<lambda>i.
     req_bind (now_ns env) (\<lambda>now.
     req_bind (sv_write env (\<lambda>db. Inr (access_revoke (en_print env) i repo who (as_i64 now) (ap_principal auth) db)))
       (\<lambda>_. ret ())))))"

section \<open>Tokens\<close>

record token_body =
  tb_principal :: bytes
  tb_role :: bytes
  tb_ttl_days :: "i64 option"
  tb_scope :: "bytes option"

record token_created =
  to_token :: bytes
  to_id :: i64
  to_principal :: bytes
  to_role :: bytes
  to_expires :: "u64 option"
  to_scope :: "bytes option"

definition token_scope :: "bytes option \<Rightarrow> api_error + bytes option" where
  "token_scope scope =
     (case scope of
        None \<Rightarrow> Inr None
      | Some raw \<Rightarrow>
          if raw = [] then Inl (validation ''scope_path must be a non-empty path or null'')
          else let p = (case strip_suffix [47] raw of Some p \<Rightarrow> p | None \<Rightarrow> raw) in
            if p = [] then Inl (validation ''scope_path must be a non-empty path or null'')
            else if last p = 47 then Inl (api_new Validation (ascii ''scope_path must not end with '' @ [39, 47, 39]))
            else Inr (Some p))"

definition DAY_NS :: i64 where "DAY_NS = 86400000000000"

definition i64_max :: i64 where "i64_max = 2 ^ 63 - 1"

text \<open>\<open>checked_mul\<close> and \<open>saturating_add\<close>; the days are not negative.\<close>

definition token_expiry :: "i64 \<Rightarrow> i64 option \<Rightarrow> api_error + i64 option" where
  "token_expiry now ttl =
     (case ttl of
        None \<Rightarrow> Inr None
      | Some days \<Rightarrow>
          if days < 0 then Inl (validation ''ttl_days must not be negative'')
          else let ttl_ns = (if days * DAY_NS \<le> i64_max then days * DAY_NS else i64_max)
               in Inr (Some (min i64_max (now + ttl_ns))))"

definition tokens_create_route :: "server_env \<Rightarrow> 'k crypto \<Rightarrow> authed \<Rightarrow> token_body \<Rightarrow> token_created req" where
  "tokens_create_route env cr auth body =
     req_bind (require_role auth Admin) (\<lambda>_.
     req_bind (req_lift (ok_or (role_parse (tb_role body)) (validation ''role must be admin, writer, or reader''))) (\<lambda>r.
     req_bind (guard (tb_principal body \<noteq> []) (validation ''principal must not be empty'')) (\<lambda>_.
     req_bind (req_lift (token_scope (tb_scope body))) (\<lambda>scope.
     req_bind (now_ns env) (\<lambda>now.
     req_bind (req_lift (token_expiry (as_i64 now) (tb_ttl_days body))) (\<lambda>expires.
     req_bind (mint_token env cr) (\<lambda>(token, hash).
     req_bind (now_ns env) (\<lambda>now.
     req_bind (sv_write env (\<lambda>db. map_err (\<lambda>_. api_internal)
         (token_create (en_print env) (tb_principal body) (role_str r) hash expires scope (as_i64 now) db))) (\<lambda>i.
       ret \<lparr>to_token = token, to_id = i, to_principal = tb_principal body, to_role = role_str r,
            to_expires = map_option as_u64 expires, to_scope = tb_scope body\<rparr>)))))))))"

definition tokens_list_route :: "server_env \<Rightarrow> authed \<Rightarrow> auth_row list req" where
  "tokens_list_route env auth =
     req_bind (require_role auth Admin) (\<lambda>_.
     req_bind (sv_read env (\<lambda>db. Inr (tokens_list db))) (\<lambda>rows. ret (filter (\<lambda>t. \<not> ar_revoked t) rows)))"

definition tokens_revoke_route :: "server_env \<Rightarrow> authed \<Rightarrow> bytes \<Rightarrow> unit req" where
  "tokens_revoke_route env auth raw =
     req_bind (require_role auth Admin) (\<lambda>_.
     req_bind (req_lift (ok_or (parse_i64 raw) (malformed ''token id must be an integer''))) (\<lambda>i.
     req_bind (now_ns env) (\<lambda>now.
     req_bind (sv_write env (\<lambda>db. Inr (token_revoke (en_print env) i (as_i64 now) db))) (\<lambda>out.
       case out of
         Some _ \<Rightarrow> ret ()
       | None \<Rightarrow> fail (api_new NotFound (ascii ''no token with id '' @ dec_i64 i))))))"

section \<open>Principals\<close>

definition principals_delete_route :: "server_env \<Rightarrow> authed \<Rightarrow> bytes \<Rightarrow> nat req" where
  "principals_delete_route env auth name =
     req_bind (require_role auth Admin) (\<lambda>_.
     req_bind (guard (name \<noteq> []) (validation ''principal name must not be empty'')) (\<lambda>_.
     req_bind (now_ns env) (\<lambda>now.
     req_bind (random_bytes env 8) (\<lambda>raw.
     req_bind (sv_write env (\<lambda>db. map_err (\<lambda>_. api_internal)
         (principal_delete (en_parse env) (en_print env) name (as_i64 now) (ap_principal auth) raw db))) (\<lambda>deleted.
       case deleted of
         Some n \<Rightarrow> ret n
       | None \<Rightarrow> fail (api_new NotFound (ascii ''no principal named '' @ en_debug env name)))))))"

definition whoami_route :: "authed \<Rightarrow> bytes \<times> bytes \<times> bytes option" where
  "whoami_route auth = (ap_principal auth, role_str (ap_role auth), ap_scope auth)"

section \<open>Repositories\<close>

record 'r page =
  pg_rows :: "'r list"
  pg_next :: "bytes option"
  pg_more :: bool

definition visible_to :: "repo_db \<Rightarrow> bytes \<Rightarrow> i64 \<times> repo_row \<Rightarrow> bool" where
  "visible_to db who row =
     (let (private, readable) = access_visibility db (fst row) who in \<not> private \<or> readable)"

definition repos_page :: "repo_db \<Rightarrow> authed \<Rightarrow> i64 \<Rightarrow> i64 \<Rightarrow> (i64 \<times> repo_row) page" where
  "repos_page db auth after limit =
     (let raw = repos_list db after (limit + 1);
          more = int (length raw) > limit;
          last_scanned = (if raw = [] then 0 else fst (last raw));
          rows = take (nat limit) (if ap_role auth = Admin then raw else filter (visible_to db (ap_principal auth)) raw);
          cursor = (if rows = [] then last_scanned else fst (last rows))
      in \<lparr>pg_rows = rows, pg_next = (if more then Some (ascii ''after:'' @ dec_i64 cursor) else None), pg_more = more\<rparr>)"

definition repos_list_route :: "server_env \<Rightarrow> authed \<Rightarrow> list_query \<Rightarrow> (i64 \<times> repo_row) page req" where
  "repos_list_route env auth q =
     req_bind (req_lift (parse_limit (lq_limit q))) (\<lambda>limit.
     req_bind (req_lift (parse_cursor (ascii ''after:'') 0 (lq_cursor q))) (\<lambda>after.
       sv_read env (\<lambda>db. Inr (repos_page db auth after limit))))"

definition is_alnum :: "byte \<Rightarrow> bool" where
  "is_alnum b \<longleftrightarrow> (97 \<le> b \<and> b \<le> 122) \<or> (48 \<le> b \<and> b \<le> 57)"

definition validate_repo_name :: "bytes \<Rightarrow> api_error + unit" where
  "validate_repo_name name =
     (if name \<noteq> [] \<and> length name \<le> 63 \<and> is_alnum (hd name) \<and> list_all (\<lambda>b. is_alnum b \<or> b = 45) (tl name) then Inr ()
      else Inl (validation ''repo name must match ^[a-z0-9][a-z0-9-]{0,62}$''))"

text \<open>In a split layout the repository's file is created before the registry row commits.\<close>

definition create_repo :: "server_env \<Rightarrow> bytes \<Rightarrow> i64 \<Rightarrow> bytes \<Rightarrow> i64 req" where
  "create_repo env name now who w0 =
     (let w = arrive_req env w0 in
      if en_busy env (sv_tick w0) then (Inl writer_busy, w)
      else if repo_id_by_name (sv_cat w) name \<noteq> None then
        (Inl (api_new RepoExists (ascii ''repo '' @ en_debug env name @ ascii '' already exists'')), w)
      else (case repos_create name now (sv_cat w) of
              Inl _ \<Rightarrow> (Inl api_internal, w)
            | Inr (i, cat) \<Rightarrow>
                let files = (if sv_split w \<and> om_get (sv_files w) i = None then om_insert i empty_repo_db (sv_files w)
                             else sv_files w);
                    cat = audit_append now who (ascii ''repo_create'')
                            (en_print env (JObj [(ascii ''repo'', JStr name)])) cat
                in (Inr i, w\<lparr>sv_cat := cat, sv_files := files\<rparr>)))"

definition repos_create_route :: "server_env \<Rightarrow> authed \<Rightarrow> bytes \<Rightarrow> (i64 \<times> bytes) req" where
  "repos_create_route env auth name =
     req_bind (require_role auth Admin) (\<lambda>_.
     req_bind (req_lift (validate_repo_name name)) (\<lambda>_.
     req_bind (now_ns env) (\<lambda>now.
     req_bind (create_repo env name (as_i64 now) (ap_principal auth)) (\<lambda>i. ret (i, name)))))"

record repo_stats =
  st_changesets :: nat
  st_objects :: nat
  st_bytes :: i64
  st_cbytes :: i64

definition repos_stats_route :: "server_env \<Rightarrow> authed \<Rightarrow> bytes \<Rightarrow> repo_stats req" where
  "repos_stats_route env auth name =
     req_bind (repo_read_gate env auth name) (\<lambda>_.
     req_bind (require_role auth Admin) (\<lambda>_.
       sv_read_repo env name (\<lambda>c.
         let db = cx_db c; i = cx_id c;
             members = {b. repo_blob_check db i b} - set (redaction_ids db i);
             (n, bs, cbs) = repo_object_sums (cat_of c) members
         in Inr \<lparr>st_changesets = repo_changeset_count db i, st_objects = n, st_bytes = bs, st_cbytes = cbs\<rparr>)))"

section \<open>Refs\<close>

record ref_answer =
  rr_ref :: bytes
  rr_target :: "bytes option"
  rr_version :: i64

text \<open>\<open>Id(bytes.try_into().expect(\<dots>))\<close>: a panic in a blocking task is an internal error.\<close>

definition expect_ref :: "bytes option \<Rightarrow> api_error + bytes option" where
  "expect_ref t =
     (case t of None \<Rightarrow> Inr None | Some b \<Rightarrow> if length b = 32 then Inr (Some (to_hex b)) else Inl api_internal)"

definition no_ref :: "server_env \<Rightarrow> bytes \<Rightarrow> bytes \<Rightarrow> bytes" where
  "no_ref env name repo = ascii ''no ref named '' @ en_debug env name @ ascii '' in '' @ en_debug env repo"

definition get_ref_route :: "server_env \<Rightarrow> authed \<Rightarrow> bytes \<Rightarrow> bytes \<Rightarrow> ref_answer req" where
  "get_ref_route env auth repo name =
     req_bind (repo_read_gate env auth repo) (\<lambda>_.
     req_bind (sv_read_repo env repo (\<lambda>c. Inr (ref_get (cx_db c) (cx_id c) name))) (\<lambda>row.
       case row of
         None \<Rightarrow> fail (api_new NotFound (no_ref env name repo))
       | Some r \<Rightarrow>
           req_bind (req_lift (expect_ref (rf_target r))) (\<lambda>target.
             ret \<lparr>rr_ref = name, rr_target = target, rr_version = rf_version r\<rparr>)))"

definition not_fast_forward :: "oid \<Rightarrow> api_error" where
  "not_fast_forward old =
     with_details (JObj [(ascii ''current_target'', JStr (to_hex old))])
       (api_new NotFastForward
         (ascii ''ref move is not a fast-forward: the new target does not contain the current one''))"

text \<open>The gate of an expected version; \<open>ref_contains\<close> always returns (\<open>ref_contains_returns\<close>).\<close>

definition fast_forward_gate :: "repo_db \<Rightarrow> i64 \<Rightarrow> bytes \<Rightarrow> oid \<Rightarrow> i64 option \<Rightarrow> api_error + unit" where
  "fast_forward_gate db repo name target expected =
     (case (expected, ref_get db repo name) of
        (Some v, Some cur) \<Rightarrow>
          if rf_version cur \<noteq> v then Inr ()
          else (case rf_target cur of
                  None \<Rightarrow> Inr ()
                | Some old \<Rightarrow>
                    if length old \<noteq> 32 then Inl api_internal
                    else if ref_contains db repo old target = Some True then Inr ()
                    else Inl (not_fast_forward old))
      | _ \<Rightarrow> Inr ())"

definition cas_ref_write ::
    "server_env \<Rightarrow> authed \<Rightarrow> bytes \<Rightarrow> bytes \<Rightarrow> oid \<Rightarrow> i64 option \<Rightarrow> i64 \<Rightarrow> cx \<Rightarrow> api_error + ref_cas_outcome \<times> cx" where
  "cas_ref_write env auth repo name target expected now c =
     (if redaction_active (cx_db c) (cx_id c) target then
        Inl (api_new ObjectRedacted (ascii ''ref target '' @ to_hex target @
               ascii '' is redacted in this repo; the ref write is refused''))
      else rbind (fast_forward_gate (cx_db c) (cx_id c) name target expected) (\<lambda>_.
        let mv = \<lparr>rm_repo = cx_id c, rm_repo_name = repo, rm_name = name, rm_target = target, rm_expected = expected,
                  rm_principal = ap_principal auth, rm_now = now\<rparr>;
            (out, db, cat) = ref_cas_inner (en_print env) mv (Some (ascii ''api'')) (cx_split c) (cx_db c) (cx_cat c)
        in Inr (out, c\<lparr>cx_db := db, cx_cat := cat\<rparr>)))"

definition ref_conflict :: "i64 \<Rightarrow> bytes option \<Rightarrow> api_error" where
  "ref_conflict version target =
     with_details (JObj [(ascii ''current_version'', JNum version),
                         (ascii ''current_target'', case target of None \<Rightarrow> JNull | Some t \<Rightarrow> JStr t)])
       (api_new RefConflict (ascii ''ref moved since your read: re-fetch and retry with the current version''))"

definition cas_ref_route ::
    "server_env \<Rightarrow> authed \<Rightarrow> bytes \<Rightarrow> bytes \<Rightarrow> bytes \<Rightarrow> i64 option \<Rightarrow> ref_answer req" where
  "cas_ref_route env auth repo name target_hex expected =
     req_bind (repo_write_gate env auth repo) (\<lambda>_.
     req_bind (require_role auth Admin) (\<lambda>_.
     req_bind (guard (name \<noteq> ascii ''main'') (validation ''main moves only via land'')) (\<lambda>_.
     req_bind (req_lift (ok_or (from_hex target_hex) (malformed ''target must be 64 lowercase hex characters''))) (\<lambda>target.
     req_bind (now_ns env) (\<lambda>now.
     req_bind (sv_write_repo env repo (cas_ref_write env auth repo name target expected (as_i64 now))) (\<lambda>out.
       case out of
         Ref_Created \<Rightarrow> ret \<lparr>rr_ref = name, rr_target = Some (to_hex target), rr_version = 1\<rparr>
       | Ref_Updated v \<Rightarrow> ret \<lparr>rr_ref = name, rr_target = Some (to_hex target), rr_version = v\<rparr>
       | Ref_Stale v t \<Rightarrow> req_bind (req_lift (expect_ref t)) (\<lambda>t. fail (ref_conflict v t))
       | Ref_Missing \<Rightarrow> fail (api_new NotFound (no_ref env name repo @ ascii '': CAS expected an existing ref''))
       | Ref_Repo_Missing \<Rightarrow> fail (no_repo env repo)))))))"

section \<open>The audit log\<close>

definition audit_page :: "repo_db \<Rightarrow> i64 \<Rightarrow> i64 \<Rightarrow> (i64 \<times> audit_row) page" where
  "audit_page db before limit =
     (let raw = audit_list db before (limit + 1);
          more = int (length raw) > limit;
          rows = take (nat limit) raw
      in \<lparr>pg_rows = rows,
          pg_next = (if more then Some (ascii ''before:'' @ dec_i64 (if rows = [] then 0 else fst (last rows))) else None),
          pg_more = more\<rparr>)"

definition audit_list_route :: "server_env \<Rightarrow> authed \<Rightarrow> list_query \<Rightarrow> (i64 \<times> audit_row) page req" where
  "audit_list_route env auth q =
     req_bind (require_role auth Admin) (\<lambda>_.
     req_bind (req_lift (parse_limit (lq_limit q))) (\<lambda>limit.
     req_bind (req_lift (parse_cursor (ascii ''before:'') i64_max (lq_cursor q))) (\<lambda>before.
       sv_read env (\<lambda>db. Inr (audit_page db before limit)))))"

end
