(* ===== verification/Access_Correct.thy ===== *)
theory Access_Correct
  imports Accounts Access_Routes
begin

text \<open>
  What the administrative routes promise: a new token works, a private repository is invisible, grants outlive a
  principal, the pages of the repository list are complete, refs move only forward.
\<close>

section \<open>A new token\<close>

lemma req_bind_Inr:
  "req_bind m f w = (Inr b, w') \<longleftrightarrow> (\<exists>a w1. m w = (Inr a, w1) \<and> f a w1 = (Inr b, w'))"
  by (auto simp: req_bind_def split: prod.splits sum.splits)

lemma guard_Inr: "guard ok e w = (Inr a, w') \<longleftrightarrow> ok \<and> w' = w"
  by (auto simp: guard_def)

lemma req_lift_Inr: "req_lift r w = (Inr a, w') \<longleftrightarrow> r = Inr a \<and> w' = w"
  by (auto simp: req_lift_def)

lemma ret_Inr: "ret a w = (Inr b, w') \<longleftrightarrow> b = a \<and> w' = w"
  by (auto simp: ret_def)

lemma sv_write_Inr:
  "sv_write env f w = (Inr a, w') \<longleftrightarrow>
     \<not> en_busy env (sv_tick w) \<and> (\<exists>cat. f (sv_cat (arrive_req env w)) = Inr (a, cat) \<and> w' = (arrive_req env w)\<lparr>sv_cat := cat\<rparr>)"
  by (auto simp: sv_write_def Let_def split: sum.splits prod.splits)

lemma now_ns_Inr: "now_ns env w = (Inr a, w') \<longleftrightarrow> a = en_now env (sv_tick w) \<and> w' = w"
  by (auto simp: now_ns_def)

lemmas ran = req_bind_Inr now_ns_Inr guard_Inr req_lift_Inr ret_Inr sv_write_Inr

lemma token_created_rows:
  assumes "token_create print who rl hash expires scope now db = Inr (i, db')"
  shows "auth_lookup db' hash =
     Some \<lparr>ar_id = i, ar_principal = who, ar_role = rl, ar_expires = expires, ar_revoked = False, ar_scope = scope\<rparr>"
  using assms
proof (rule token_create_elim)
  fix db1 db2
  assume s: "principal_upsert who rl now db = Inr db1" "token_insert who hash expires scope db1 = Inr (i, db2)"
    "\<exists>d. db' = audit_append now who (ascii ''token_create'') d db2"
  obtain p where p: "om_get (db_principals db1) who = Some p" "pr_role p = rl"
    using s(1) by (fastforce simp: principal_upsert_def Let_def split: if_splits option.splits)
  have "find (\<lambda>t. tk_hash t = hash) (db_tokens db1) = None"
    using s(2) by (auto simp: token_insert_def list_ex_iff find_None_iff split: if_splits)
  moreover have "find P xs = None \<Longrightarrow> find P (xs @ ys) = find P ys" for P :: "token_row \<Rightarrow> bool" and xs ys
    by (induction xs) (auto split: if_splits)
  ultimately show ?thesis using s p
    by (auto simp: token_insert_def auth_lookup_def token_join_def Let_def audit_append_def split: if_splits)
qed

text \<open>A credential of the base64 alphabet has no blanks.\<close>

lemma bearer_header:
  assumes "\<forall>b \<in> set x. \<not> is_blank b"
  shows "bearer_token (Some (ascii ''Bearer '' @ TOKEN_PREFIX @ x)) = Some (TOKEN_PREFIX @ x)"
    and "\<not> is_ticket_header (Some (ascii ''Bearer '' @ TOKEN_PREFIX @ x))"
proof -
  have split: "split_once [32] (ascii ''Bearer '' @ y) = Some (ascii ''Bearer'', y)" for y
    using split_once_at [of 32 "ascii ''Bearer''" y] by (simp add: ascii_def)
  have "\<not> is_blank b" if "b \<in> set (TOKEN_PREFIX @ x)" for b
    using that assms by (auto simp: TOKEN_PREFIX_def ascii_def is_blank_def)
  then have "trim (TOKEN_PREFIX @ x) = TOKEN_PREFIX @ x"
    unfolding trim_def by (metis dropWhile_eq_self_iff hd_in_set rev_rev_ident set_rev)
  moreover have "eq_ignore_ascii_case (ascii ''Bearer'') BEARER" "\<not> eq_ignore_ascii_case (ascii ''Bearer'') TICKET_SCHEME"
    by code_simp+
  moreover have "take 4 (TOKEN_PREFIX @ x) = TOKEN_PREFIX" by (simp add: TOKEN_PREFIX_def ascii_def)
  ultimately show "bearer_token (Some (ascii ''Bearer '' @ TOKEN_PREFIX @ x)) = Some (TOKEN_PREFIX @ x)"
    "\<not> is_ticket_header (Some (ascii ''Bearer '' @ TOKEN_PREFIX @ x))"
    by (simp_all add: bearer_token_def is_ticket_header_def split_header_def split)
qed

lemma as_i64_range: "- (2 ^ 63) \<le> as_i64 x" "as_i64 x < 2 ^ 63"
  using sint_greater_eq [of x] sint_less [of x] by (simp_all add: as_i64_def)

lemma as_i64_as_u64: "- (2 ^ 63) \<le> e \<Longrightarrow> e < 2 ^ 63 \<Longrightarrow> as_i64 (as_u64 e) = e"
  by (simp add: as_i64_def as_u64_def signed_of_int signed_take_bit_int_eq_self_iff)

lemma token_expiry_range:
  "token_expiry (as_i64 now) ttl = Inr (Some e) \<Longrightarrow> - (2 ^ 63) \<le> e \<and> e < 2 ^ 63"
  using as_i64_range [of now]
  by (auto simp: token_expiry_def i64_max_def DAY_NS_def Let_def min_def split: option.splits if_splits)

lemma fst_fail_auth: "fst (fail_auth env h code message w) = Inl (api_new code (ascii message))"
  by (auto simp: fail_auth_def runs Let_def tick_failure_def audit_failure_def ignore_def split: prod.split)

lemma minted:
  assumes "mint_token env cr w = (Inr (token, hash), w')"
  shows "\<exists>x. token = TOKEN_PREFIX @ ct_b64 cr x \<and> hash = en_hash env token \<and> w' = w"
  using assms by (auto simp: mint_token_def runs Let_def)

text \<open>C29: a token works as soon as it is created. Whatever the administrator's request asked for, if the route
  answers with a token, then that token, presented as a bearer credential before anyone else writes to the catalog,
  authenticates as the principal it was created for, with the role that was asked for and the scope with its trailing
  slash removed - unless the clock has reached the expiry that the answer named, and then the answer is 401
  \<open>token_expired\<close>. All that is used of the base64 code is that it writes no blanks.\<close>
theorem created_token_authenticates:
  assumes "tokens_create_route env cr auth body w = (Inr c, w')"
    and "\<forall>x. \<forall>b \<in> set (ct_b64 cr x). \<not> is_blank b"
    and "en_others env (sv_tick w') w' = w'"
  shows "\<exists>r scope. role_parse (tb_role body) = Some r \<and> token_scope (tb_scope body) = Inr scope \<and>
     fst (authenticate env te (Some (ascii ''Bearer '' @ to_token c)) w') =
       (if (case to_expires c of None \<Rightarrow> False | Some e \<Rightarrow> as_i64 e \<le> as_i64 (en_now env (sv_tick w' + 1)))
        then Inl (api_new TokenExpired (ascii ''bearer token is expired''))
        else Inr (\<lparr>ap_principal = tb_principal body, ap_role = r, ap_scope = scope\<rparr>, None))"
proof -
  obtain r scope now expires token hash w1 i cat where
      r: "role_parse (tb_role body) = Some r" and scope: "token_scope (tb_scope body) = Inr scope"
    and expires: "token_expiry (as_i64 now) (tb_ttl_days body) = Inr expires"
    and mint: "mint_token env cr w = (Inr (token, hash), w1)"
    and create: "token_create (en_print env) (tb_principal body) (role_str r) hash expires scope (as_i64 (en_now env (sv_tick w1)))
       (sv_cat (arrive_req env w1)) = Inr (i, cat)"
    and c: "to_token c = token" "to_expires c = map_option as_u64 expires"
    and w': "w' = (arrive_req env w1)\<lparr>sv_cat := cat\<rparr>"
    using assms(1) by (auto simp: tokens_create_route_def ran require_role_def ok_or_eq_Inr map_err_eq_Inr split: prod.splits)
  obtain x where x: "token = TOKEN_PREFIX @ ct_b64 cr x" "hash = en_hash env token"
    using minted [OF mint] by blast
  let ?row = "\<lparr>ar_id = i, ar_principal = tb_principal body, ar_role = role_str r, ar_expires = expires, ar_revoked = False,
     ar_scope = scope\<rparr>"
  let ?h = "Some (ascii ''Bearer '' @ token)"
  note h = bearer_header [OF spec [OF assms(2)], of x]
  have row: "auth_lookup (sv_cat (arrive_req env w')) (en_hash env token) = Some ?row"
    using token_created_rows [OF create] assms(3) by (simp add: arrive_req_def x w')
  have live: "\<not> ar_revoked ?row" by simp
  have e: "as_i64 (as_u64 e) = e" if "expires = Some e" for e
    using token_expiry_range expires that as_i64_as_u64 by blast
  have rs: "role_parse (role_str r) = Some r" using r by (auto simp: role_parse_def role_str_def split: if_splits)
  show ?thesis
    unfolding c(1) authenticate_live [OF h(2,1) [folded x(1)] row live]
    using r scope rs e by (auto simp: c(2) fst_fail_auth split: option.splits)
qed

section \<open>Repositories a principal may not see\<close>

text \<open>The routes below a repository, by method and path (\<open>router\<close> in \<open>lib.rs\<close>).\<close>

datatype repo_request =
    Get_Access
  | Put_Access access_body
  | Delete_Access bytes
  | Get_Stats
  | Get_Ref bytes
  | Put_Ref bytes bytes "i64 option"

datatype repo_answer =
    Answer_Access "(bytes \<times> access_row) list"
  | Answer_Grant "bool \<times> bool"
  | Answer_None
  | Answer_Stats repo_stats
  | Answer_Ref ref_answer

primrec serve_repo :: "server_env \<Rightarrow> authed \<Rightarrow> bytes \<Rightarrow> repo_request \<Rightarrow> repo_answer req" where
  "serve_repo env auth repo Get_Access = req_bind (access_list_route env auth repo) (ret \<circ> Answer_Access)"
| "serve_repo env auth repo (Put_Access body) = req_bind (access_set_route env auth repo body) (ret \<circ> Answer_Grant)"
| "serve_repo env auth repo (Delete_Access who) = req_bind (access_revoke_route env auth repo who) (\<lambda>_. ret Answer_None)"
| "serve_repo env auth repo Get_Stats = req_bind (repos_stats_route env auth repo) (ret \<circ> Answer_Stats)"
| "serve_repo env auth repo (Get_Ref name) = req_bind (get_ref_route env auth repo name) (ret \<circ> Answer_Ref)"
| "serve_repo env auth repo (Put_Ref name target expected) =
     req_bind (cas_ref_route env auth repo name target expected) (ret \<circ> Answer_Ref)"

text \<open>No such repository, or one that the principal may not read.\<close>

definition unseen :: "'a repo_db_scheme \<Rightarrow> bytes \<Rightarrow> bytes \<Rightarrow> bool" where
  "unseen cat name who \<longleftrightarrow> grants_ok (db_access cat) \<and>
     (\<forall>i. repo_id_by_name cat name = Some i \<longrightarrow>
        access_is_private cat i \<and> (case access_row_of cat i who of None \<Rightarrow> True | Some a \<Rightarrow> \<not> ac_read a))"

text \<open>Other requests keep it so: they do not grant the principal the repository, nor make it public.\<close>

definition others_keep_unseen :: "server_env \<Rightarrow> bytes \<Rightarrow> bytes \<Rightarrow> bool" where
  "others_keep_unseen env name who \<longleftrightarrow>
     (\<forall>k w. unseen (sv_cat w) name who \<longrightarrow>
        unseen (sv_cat (en_others env k w)) name who \<and>
        (\<forall>i. repo_id_by_name (sv_cat w) name = Some i \<longrightarrow> repo_id_by_name (sv_cat (en_others env k w)) name = Some i))"

lemma invisible_is_missing: "invisible env name = no_repo env name"
  by (simp add: invisible_def no_repo_def)

lemma unseen_arrive:
  assumes "others_keep_unseen env name who" "unseen (sv_cat w) name who"
  shows "unseen (sv_cat (arrive_req env w)) name who"
    and "repo_id_by_name (sv_cat w) name = Some i \<Longrightarrow> repo_id_by_name (sv_cat (arrive_req env w)) name = Some i"
  using assms by (auto simp: others_keep_unseen_def arrive_req_def)

lemma unseen_gate:
  assumes "others_keep_unseen env name (ap_principal auth)" "unseen (sv_cat w) name (ap_principal auth)"
    and "ap_role auth \<in> {Reader, Writer}"
  shows "fst (repo_read_gate env auth name w) = Inl (no_repo env name)"
    and "fst (repo_write_gate env auth name w) = Inl (no_repo env name)"
proof -
  let ?w1 = "arrive_req env w"
  let ?w2 = "arrive_req env ?w1"
  note u1 = unseen_arrive [OF assms(1,2)]
  note u2 = unseen_arrive [OF assms(1) u1(1)]
  have found: "\<not> may_read (sv_cat ?w2) i (ap_principal auth) \<and> write_admission (sv_cat ?w2) i auth = Private_Denied"
    if "repo_id_by_name (sv_cat ?w1) name = Some i" for i
  proof -
    have "repo_id_by_name (sv_cat ?w2) name = Some i" using u2(2) that by blast
    then have a: "access_is_private (sv_cat ?w2) i"
        "case access_row_of (sv_cat ?w2) i (ap_principal auth) of None \<Rightarrow> True | Some a \<Rightarrow> \<not> ac_read a"
      "grants_ok (db_access (sv_cat ?w2))"
      using u2(1) by (auto simp: unseen_def)
    then show ?thesis
      by (auto simp: may_read_def write_admission_def grants_ok_def access_row_of_def split: option.splits)
  qed
  have r: "ap_role auth \<noteq> Admin" "ap_role auth \<noteq> Ticket_Role" using assms(3) by auto
  have e: "repo_id_or_404 env name w = (case repo_id_by_name (sv_cat ?w1) name of None \<Rightarrow> (Inl (no_repo env name), ?w1) | Some i \<Rightarrow> (Inr i, ?w1))"
    by (simp add: repo_id_or_404_def req_bind_def sv_read_def fail_def ret_def split: option.split)
  show "fst (repo_read_gate env auth name w) = Inl (no_repo env name)"
    using found r by (simp add: repo_read_gate_def req_bind_def e sv_read_def fail_def invisible_is_missing split: option.split)
  show "fst (repo_write_gate env auth name w) = Inl (no_repo env name)"
    using found r by (simp add: repo_write_gate_def req_bind_def e sv_read_def fail_def invisible_is_missing split: option.split)
qed

lemma req_bind_Inl: "fst (m w) = Inl e \<Longrightarrow> fst (req_bind m f w) = Inl e"
  by (cases "m w") (simp add: req_bind_def)

lemma admin_routes_invisible:
  assumes "unseen (sv_cat w) repo (ap_principal auth)"
    and "others_keep_unseen env repo (ap_principal auth)"
    and "ap_role auth \<in> {Reader, Writer}"
  shows "fst (serve_repo env auth repo q w) = Inl (no_repo env repo)"
  by (cases q)
    (simp_all add: access_list_route_def access_set_route_def access_revoke_route_def repos_stats_route_def
      get_ref_route_def cas_ref_route_def req_bind_Inl unseen_gate [OF assms(2,1,3)])

section \<open>Grants outlive the principal\<close>

text \<open>Deleting a principal leaves its grants behind. The rows of \<open>repo_access\<close> under the name are untouched by the
  deletion, so whoever is later given a token under the same name reads and writes the private repositories of the
  deleted principal.\<close>
theorem recreated_principal_inherits_grants:
  assumes "principal_delete parse print name now actor raw db = Inr (Some n, db1)"
    and "token_create print name rl hash expires scope later db1 = Inr (i, db2)"
  shows "access_row_of db2 repo name = access_row_of db repo name \<and>
         may_read db2 repo name = may_read db repo name \<and>
         (\<forall>t \<in> set (db_tokens db2). tk_principal t = name \<longrightarrow> tk_hash t = hash)"
  using assms(2)
proof (rule token_create_elim)
  fix dba dbb
  assume s: "principal_upsert name rl later db1 = Inr dba" "token_insert name hash expires scope dba = Inr (i, dbb)"
    "\<exists>d. db2 = audit_append later name (ascii ''token_create'') d dbb"
  have "db_access db1 = db_access db" using principal_delete_rows [OF assms(1)] by simp
  then have a: "db_access db2 = db_access db" using s upserted_rows [OF s(1)] insert_rows [OF s(2)] by auto
  have "om_get (db_principals db) name \<noteq> None"
    using assms(1) by (cases "om_get (db_principals db) name") (simp_all add: principal_delete_def)
  then have "db_tokens db1 = filter (\<lambda>t. tk_principal t \<noteq> name) (db_tokens db)"
    using principal_delete_rows [OF assms(1)] by simp
  moreover have "\<exists>t. tk_hash t = hash \<and> db_tokens db2 = db_tokens db1 @ [t]"
    using s upserted_rows [OF s(1)] by (auto simp: token_insert_def Let_def split: if_splits)
  ultimately have "\<forall>t \<in> set (db_tokens db2). tk_principal t = name \<longrightarrow> tk_hash t = hash" by auto
  then show ?thesis using a by (simp add: access_row_of_def may_read_def access_is_private_def access_rows_def)
qed

section \<open>Pages of repositories\<close>

lemma parse_dec_i64: "0 \<le> i \<Longrightarrow> i < 2 ^ 63 \<Longrightarrow> parse_i64 (dec_i64 i) = Some i"
proof -
  assume i: "0 \<le> i" "i < 2 ^ 63"
  obtain b r where b: "dec_str (nat i) = b # r" using dec_str_not_Nil by (metis list.exhaust)
  then have "b \<noteq> 45" "b \<noteq> 43" using digit_set [of b "nat i"] by auto
  then have "parse_sign (dec_str (nat i)) = (False, dec_str (nat i))" by (simp add: parse_sign_def b)
  then show ?thesis using i dec_str_digits [of "nat i"] by (simp add: parse_i64_def dec_i64_def dec_val_dec_str)
qed

lemma cursor_round_trip:
  "0 \<le> i \<Longrightarrow> i < 2 ^ 63 \<Longrightarrow> parse_cursor prefix dflt (Some (prefix @ dec_i64 i)) = Inr i"
  by (simp add: parse_cursor_def parse_dec_i64)

text \<open>A client that follows the cursors, for at most so many pages.\<close>

fun follow_repos :: "nat \<Rightarrow> repo_db \<Rightarrow> authed \<Rightarrow> i64 \<Rightarrow> i64 \<Rightarrow> (i64 \<times> repo_row) list option" where
  "follow_repos 0 db auth limit after = None"
| "follow_repos (Suc n) db auth limit after =
     (let p = repos_page db auth after limit in
      case pg_next p of
        None \<Rightarrow> Some (pg_rows p)
      | Some c \<Rightarrow>
          (case parse_cursor (ascii ''after:'') 0 (Some c) of
             Inl _ \<Rightarrow> None
           | Inr next_after \<Rightarrow> map_option ((@) (pg_rows p)) (follow_repos n db auth limit next_after)))"

definition may_list :: "repo_db \<Rightarrow> authed \<Rightarrow> i64 \<times> repo_row \<Rightarrow> bool" where
  "may_list db auth row \<longleftrightarrow> ap_role auth = Admin \<or> visible_to db (ap_principal auth) row"

lemma after_prefix:
  fixes ps :: "(i64 \<times> 'b) list"
  assumes "sorted_wrt (<) (map fst (ps @ qs))" "ps \<noteq> []"
  shows "filter (\<lambda>x. fst (last ps) < fst x) (ps @ qs) = qs"
proof -
  have "\<not> fst (last ps) < fst x" if "x \<in> set ps" for x
  proof -
    have "x = last ps \<or> x \<in> set (butlast ps)" using that assms(2) by (metis append_butlast_last_id in_set_conv_decomp set_ConsD append_Nil2 Un_iff set_append list.set_intros(1) empty_iff list.set(1))
    then show ?thesis
    proof
      assume "x \<in> set (butlast ps)"
      moreover have "sorted_wrt (<) (map fst (butlast ps @ [last ps]))" using assms by (simp add: sorted_wrt_append)
      ultimately have "fst x < fst (last ps)" by (auto simp: sorted_wrt_append)
      then show ?thesis by simp
    qed simp
  qed
  moreover have "fst (last ps) < fst x" if "x \<in> set qs" for x
    using assms that last_in_set [OF assms(2)] by (force simp: sorted_wrt_append)
  ultimately show ?thesis by simp
qed

lemma follow_repos_from:
  assumes "repos_ok (db_repos db)" "\<forall>i \<in> set (map fst (db_repos db)). i < 2 ^ 63" "0 < limit" "0 \<le> after"
    and "length (filter (\<lambda>x. after < fst x) (db_repos db)) < n"
  shows "follow_repos n db auth limit after = Some (filter (may_list db auth) (filter (\<lambda>x. after < fst x) (db_repos db)))"
  using assms(4,5)
proof (induction n arbitrary: after)
  case (Suc n)
  define R where "R = filter (\<lambda>x. after < fst x) (db_repos db)"
  define raw where "raw = take (nat (limit + 1)) R"
  define rows where "rows = take (nat limit) (filter (may_list db auth) raw)"
  define c where "c = (if rows = [] then fst (last raw) else fst (last rows))"
  have sorted: "sorted_wrt (<) (map fst R)"
    using assms(1) by (simp add: R_def repos_ok_def om_inv_def sorted_wrt_map sorted_wrt_filter)
  have rl: "repos_list db after (limit + 1) = raw"
    by (simp add: repos_list_def raw_def R_def case_prod_unfold)
  have filter_role: "(if ap_role auth = Admin then raw else filter (visible_to db (ap_principal auth)) raw) = filter (may_list db auth) raw"
    by (auto simp: may_list_def intro!: filter_cong)
  have page: "repos_page db auth after limit = \<lparr>pg_rows = rows,
      pg_next = (if limit < int (length raw) then Some (ascii ''after:'' @ dec_i64 (if rows = [] then if raw = [] then 0 else fst (last raw) else fst (last rows))) else None),
      pg_more = (limit < int (length raw))\<rparr>"
    unfolding repos_page_def rl Let_def filter_role rows_def [symmetric] by (rule refl)
  show ?case
  proof (cases "limit < int (length R)")
    case False
    then have "raw = R" by (simp add: raw_def)
    moreover have "rows = filter (may_list db auth) R"
      using False order_trans [OF length_filter_le [of "may_list db auth" R], of "nat limit"] by (simp add: rows_def \<open>raw = R\<close>)
    ultimately show ?thesis using False by (simp add: page R_def [symmetric])
  next
    case True
    then have raw: "raw \<noteq> []" "limit < int (length raw)" using assms(3) by (auto simp: raw_def)
    have split_R: "R = raw @ drop (nat (limit + 1)) R" by (simp add: raw_def)
    define rest where "rest = filter (\<lambda>x. c < fst x) R"
    have done_rows: "filter (may_list db auth) R = rows @ filter (may_list db auth) rest"
    proof (cases "rows = []")
      case None: True
      have "filter (may_list db auth) raw = []" using None assms(3) by (simp add: rows_def)
      moreover have "rest = drop (nat (limit + 1)) R"
        using after_prefix [of raw "drop (nat (limit + 1)) R"] sorted raw(1) None split_R by (simp add: rest_def c_def)
      ultimately show ?thesis using split_R None by (metis append_Nil filter_append)
    next
      case Some: False
      have "filter (may_list db auth) R = rows @ drop (nat limit) (filter (may_list db auth) raw) @
          filter (may_list db auth) (drop (nat (limit + 1)) R)"
        by (metis append.assoc append_take_drop_id filter_append rows_def split_R)
      then obtain qs where qs: "filter (may_list db auth) R = rows @ qs" by blast
      have "sorted_wrt (<) (map fst (rows @ qs))"
        using sorted unfolding qs [symmetric] by (simp add: sorted_wrt_map sorted_wrt_filter)
      from after_prefix [OF this Some] have "filter (\<lambda>x. c < fst x) (filter (may_list db auth) R) = qs"
        unfolding qs c_def using Some by simp
      moreover have "filter (may_list db auth) rest = filter (\<lambda>x. c < fst x) (filter (may_list db auth) R)"
        by (simp add: rest_def conj_commute)
      ultimately show ?thesis using qs by simp
    qed
    have c_mem: "\<exists>x \<in> set R. fst x = c"
    proof (cases "rows = []")
      case None: True
      have "last raw \<in> set R" using raw(1) by (metis in_set_takeD last_in_set raw_def)
      then show ?thesis using None by (auto simp: c_def)
    next
      case Some: False
      have "last rows \<in> set rows" using Some by simp
      moreover have "set rows \<subseteq> set (filter (may_list db auth) raw)" "set raw \<subseteq> set R"
        unfolding rows_def raw_def by (rule set_take_subset)+
      ultimately have "last rows \<in> set R" by auto
      then show ?thesis using Some by (auto simp: c_def)
    qed
    then have c: "after < c" "0 \<le> c" "c < 2 ^ 63" using assms(2) Suc.prems(1) by (auto simp: R_def)
    have later: "filter (\<lambda>x. c < fst x) (db_repos db) = rest"
      using c(1) by (auto simp: rest_def R_def intro!: filter_cong)
    have "length rest < length R"
      unfolding rest_def using c_mem by (auto intro: length_filter_less)
    then have "follow_repos n db auth limit c = Some (filter (may_list db auth) rest)"
      using Suc.IH [of c] Suc.prems(2) c(2) by (simp add: later R_def [symmetric])
    moreover have "parse_cursor (ascii ''after:'') 0 (Some (ascii ''after:'' @ dec_i64 c)) = Inr c"
      using cursor_round_trip c by blast
    moreover have "pg_next (repos_page db auth after limit) = Some (ascii ''after:'' @ dec_i64 c)"
      "pg_rows (repos_page db auth after limit) = rows"
      using raw by (simp_all add: page c_def)
    ultimately show ?thesis using done_rows by (simp add: Let_def R_def)
  qed
qed simp

text \<open>C33: following the cursors lists every repository once. Whatever the (positive) page size, a client that starts without a
  cursor and sends each page's cursor back until a page has none gets exactly the repositories it may see, in
  ascending order of their ids, and stops after at most one page more than there are repositories - also when whole
  pages are hidden from it, since a page without a visible row still moves its cursor forward. The conditions: the catalog's
  accounts are consistent and does not change between the pages, and repository ids are below 2 to the 63.\<close>
theorem repos_pages_complete:
  assumes "accounts_ok db" and "\<forall>i \<in> set (map fst (db_repos db)). i < 2 ^ 63" and "0 < limit"
    and "length (db_repos db) < n"
  shows "follow_repos n db auth limit 0 = Some (filter (may_list db auth) (db_repos db))"
proof -
  have ok: "repos_ok (db_repos db)" using assms(1) by (simp add: accounts_ok_def)
  then have "filter (\<lambda>x. 0 < fst x) (db_repos db) = db_repos db" by (auto simp: repos_ok_def)
  then show ?thesis using follow_repos_from [OF ok assms(2,3), of 0 n auth] assms(4) by simp
qed

section \<open>Moving a ref\<close>

lemma ref_get_audit [simp]: "ref_get (audit_append ts who a d db) repo name = ref_get db repo name"
  by (simp add: ref_get_def audit_append_def)

text \<open>The refs of a context before and after a move.\<close>

definition ref_step_ok :: "cx \<Rightarrow> bytes \<Rightarrow> oid \<Rightarrow> i64 option \<Rightarrow> bytes \<Rightarrow> ref_cas_outcome \<Rightarrow> cx \<Rightarrow> bool" where
  "ref_step_ok c name target expected who out c' =
     (let row = \<lambda>v. \<lparr>rf_target = Some target, rf_version = v, rf_last_principal = Some who\<rparr>;
          before = ref_get (cx_db c) (cx_id c) name;
          refs = \<lambda>v. db_refs (cx_db c') = om_insert (cx_id c, name) (row v) (db_refs (cx_db c))
      in case out of
           Ref_Created \<Rightarrow> expected = None \<and> before = None \<and> refs 1
         | Ref_Updated v \<Rightarrow>
             (\<exists>cur. before = Some cur \<and> expected = Some (rf_version cur) \<and> v = i64_add (rf_version cur) 1 \<and> refs v \<and>
                (\<forall>old. rf_target cur = Some old \<longrightarrow>
                   old \<in> ancestors_of (ref_fetch (cx_db c) (cx_id c)) {target} \<and>
                   target \<in> known (ref_fetch (cx_db c) (cx_id c))))
         | Ref_Stale v t \<Rightarrow> c' = c \<and> (\<exists>cur. before = Some cur \<and> rf_version cur = v \<and> rf_target cur = t \<and> expected \<noteq> Some v)
         | _ \<Rightarrow> c' = c)"

text \<open>C17: a ref moves only by compare-and-swap, and only forward. When the transaction of a ref write commits, its
  target is not redacted, and: a ref is created, at version 1, only when it was absent and the caller expected none; an
  existing ref moves only when its version is the one the caller named, to the next version, and - if it had a target -
  only to a changeset of the repository of which the old target is an ancestor; in every other case the refs, the audit
  log and everything else are as they were. The condition: generations fall along the parent edges of the repository.\<close>
theorem ref_moves_fast_forward:
  assumes "cas_ref_write env auth repo name target expected now c = Inr (out, c')"
    and "descending (ref_fetch (cx_db c) (cx_id c))"
  shows "\<not> redaction_active (cx_db c) (cx_id c) target \<and>
         ref_step_ok c name target expected (ap_principal auth) out c'"
proof -
  let ?db = "cx_db c"
  let ?i = "cx_id c"
  let ?mv = "\<lparr>rm_repo = ?i, rm_repo_name = repo, rm_name = name, rm_target = target, rm_expected = expected,
    rm_principal = ap_principal auth, rm_now = now\<rparr>"
  have active: "\<not> redaction_active ?db ?i target" using assms(1) by (auto simp: cas_ref_write_def split: if_splits)
  have gate: "fast_forward_gate ?db ?i name target expected = Inr ()"
    using assms(1) active by (cases "fast_forward_gate ?db ?i name target expected") (simp_all add: cas_ref_write_def)
  obtain out' db cat where cas: "ref_cas_inner (en_print env) ?mv (Some (ascii ''api'')) (cx_split c) ?db (cx_cat c) = (out', db, cat)"
    using prod_cases3 by blast
  have out: "out' = out" "c' = c\<lparr>cx_db := db, cx_cat := cat\<rparr>"
    using assms(1) active gate cas by (simp_all add: cas_ref_write_def)
  have forward: "old \<in> ancestors_of (ref_fetch ?db ?i) {target} \<and> target \<in> known (ref_fetch ?db ?i)"
    if "ref_get ?db ?i name = Some cur" "expected = Some (rf_version cur)" "rf_target cur = Some old" for cur old
    using gate that ref_contains_iff_ancestor [OF assms(2), of old target]
    by (auto simp: fast_forward_gate_def split: if_splits)
  have same: "c' = c" if "db = ?db" "cat = cx_cat c" using out(2) that by simp
  show ?thesis
  proof (cases "om_get (db_repos (if cx_split c then cx_cat c else ?db)) ?i = None")
    case True
    then show ?thesis using cas active same unfolding out(1) by (auto simp: ref_cas_inner_def ref_step_ok_def)
  next
    case False
    obtain o1 db1 where rows: "ref_cas_rows ?mv ?db = (o1, db1)" by fastforce
    have o: "out = o1" "db_refs db = db_refs db1" "\<not> ref_moved out \<Longrightarrow> db = db1 \<and> cat = cx_cat c"
      using cas False rows unfolding out(1)
      by (auto simp: ref_cas_inner_def Let_def audit_append_def split: if_splits)
    have refs: "db_refs (cx_db c') = db_refs db1" using out(2) o(2) by simp
    show ?thesis
      using rows active o same refs forward
      by (cases expected; cases "ref_get ?db ?i name")
        (auto simp: ref_cas_rows_def ref_step_ok_def ref_row_of_def ref_moved_def Let_def split: if_splits)
  qed
qed

section \<open>Witnesses\<close>

definition sample_admin :: authed where
  "sample_admin = \<lparr>ap_principal = [120], ap_role = Admin, ap_scope = None\<rparr>"

definition sample_body :: token_body where
  "sample_body = \<lparr>tb_principal = [97], tb_role = ascii ''reader'', tb_ttl_days = None, tb_scope = None\<rparr>"

lemma sample_created:
  "\<exists>c w'. tokens_create_route quiet_env toy_crypto sample_admin sample_body (sample_server empty_repo_db) = (Inr c, w')"
  using ascii_roles
  by (simp add: tokens_create_route_def runs require_role_def at_least_def sample_admin_def sample_body_def role_parse_def
      role_str_def token_scope_def token_expiry_def mint_token_def sv_write_def arrive_req_def catalog_run ascii_def Let_def)

lemma toy_no_blanks: "\<forall>x. \<forall>b \<in> set (ct_b64 toy_crypto x). \<not> is_blank b"
  using to_hex_set by (fastforce simp: toy_crypto_def HEX_DIGITS_def ascii_def is_blank_def)

lemma created_token_authenticates_witness:
  "\<exists>c w' r scope. tokens_create_route quiet_env toy_crypto sample_admin sample_body (sample_server empty_repo_db) = (Inr c, w') \<and>
     role_parse (tb_role sample_body) = Some r \<and> token_scope (tb_scope sample_body) = Inr scope \<and>
     fst (authenticate quiet_env no_tickets (Some (ascii ''Bearer '' @ to_token c)) w') =
       (if (case to_expires c of None \<Rightarrow> False | Some e \<Rightarrow> as_i64 e \<le> as_i64 (en_now quiet_env (sv_tick w' + 1)))
        then Inl (api_new TokenExpired (ascii ''bearer token is expired''))
        else Inr (\<lparr>ap_principal = tb_principal sample_body, ap_role = r, ap_scope = scope\<rparr>, None))"
proof -
  obtain c w' where c: "tokens_create_route quiet_env toy_crypto sample_admin sample_body (sample_server empty_repo_db) = (Inr c, w')"
    using sample_created by blast
  from created_token_authenticates [OF c toy_no_blanks, of no_tickets] c show ?thesis by simp
qed

definition private_cat :: repo_db where
  "private_cat = run_writes (\<lambda>_. None) (\<lambda>_. []) [W_Access_Grant 1 [114] [97] True True 8 [120]] reader_cat"

lemma private_cat_rows:
  "db_access private_cat = [((1, [97]), \<lparr>ac_read = True, ac_write = True\<rparr>)]" "db_repos private_cat = db_repos reader_cat"
  "db_principals private_cat = db_principals reader_cat" "db_tokens private_cat = db_tokens reader_cat"
  by (simp_all add: private_cat_def run_writes_def access_grant_def access_set_def audit_append_def reader_cat_rows)

definition outsider :: authed where
  "outsider = \<lparr>ap_principal = [98], ap_role = Writer, ap_scope = None\<rparr>"

lemma recreated_principal_inherits_grants_witness:
  "\<exists>n db1 i db2.
     principal_delete (\<lambda>_. Some JNull) (\<lambda>_. []) [97] 9 [120] [1] private_cat = Inr (Some n, db1) \<and>
     token_create (\<lambda>_. []) [97] (ascii ''reader'') [5] None None 10 db1 = Inr (i, db2) \<and> may_read db2 1 [97]"
proof -
  have rows: "\<exists>audit. rmap (erase_actor (\<lambda>_. Some JNull) (\<lambda>_. []) [97] p) rows = Inr audit" for p rows
    by (induction rows) (auto simp: erase_actor_def pseudonymize_def)
  obtain audit where "rmap (erase_actor (\<lambda>_. Some JNull) (\<lambda>_. []) [97] (ascii ''deleted:'' @ to_hex [1])) (db_audit private_cat) = Inr audit"
    using rows by blast
  then obtain n db1 where d: "principal_delete (\<lambda>_. Some JNull) (\<lambda>_. []) [97] 9 [120] [1] private_cat = Inr (Some n, db1)"
    by (simp add: principal_delete_def private_cat_rows reader_cat_rows Let_def)
  obtain i db2 where c: "token_create (\<lambda>_. []) [97] (ascii ''reader'') [5] None None 10 db1 = Inr (i, db2)"
    using principal_delete_rows [OF d] ascii_roles
    by (simp add: token_create_def principal_upsert_def token_insert_def private_cat_rows reader_cat_rows Let_def)
  have "may_read private_cat 1 [97]"
    by (simp add: may_read_def access_row_of_def private_cat_rows)
  then show ?thesis using d c recreated_principal_inherits_grants [OF d c] by blast
qed

lemma repos_pages_complete_witness:
  "follow_repos 2 private_cat outsider 1 0 = Some (filter (may_list private_cat outsider) (db_repos private_cat))"
proof (rule repos_pages_complete)
  show "accounts_ok private_cat" unfolding private_cat_def by (rule run_writes_ok [OF reader_cat_ok])
qed (simp_all add: private_cat_rows reader_cat_rows)

definition ref_sample :: cx where
  "ref_sample = \<lparr>cx_id = 1, cx_split = False, cx_cat = empty_repo_db,
     cx_db = two_changesets\<lparr>db_repos := [(1, \<lparr>rr_name = [114], rr_created = 6\<rparr>)]\<rparr>\<rparr>"

lemma ref_moves_fast_forward_witness:
  "\<exists>out c'. cas_ref_write quiet_env sample_admin [114] [102] [2] None 5 ref_sample = Inr (out, c') \<and>
     \<not> redaction_active (cx_db ref_sample) (cx_id ref_sample) [2] \<and>
     ref_step_ok ref_sample [102] [2] None (ap_principal sample_admin) out c'"
proof -
  have "descending (ref_fetch (cx_db ref_sample) (cx_id ref_sample))"
    by (auto simp: descending_def ref_sample_def two_changesets_graph split: if_splits)
  moreover have "\<exists>out c'. cas_ref_write quiet_env sample_admin [114] [102] [2] None 5 ref_sample = Inr (out, c')"
    by (simp add: cas_ref_write_def ref_sample_def redaction_active_def two_changesets_def empty_repo_db_def
        fast_forward_gate_def ref_cas_inner_def ref_cas_rows_def ref_get_def ref_moved_def Let_def)
  ultimately show ?thesis using ref_moves_fast_forward by blast
qed

end
