(* ===== verification/Derivers.thy ===== *)
theory Derivers
  imports Derive_Queue Merge_Base
begin

text \<open>
  The production derivers (\<open>crates/naatre-server/src/derived.rs\<close>) and the statements of
  \<open>crates/naatre-server/src/db.rs\<close> they run: the skip entries of the commit graph, the blame state and the path
  history of a changeset.

  A deriver reads the clock whenever it charges its walk budget: the parameter \<open>clk\<close> gives the successive
  readings. A failed \<open>expect\<close> is a panic. A statement of the model does not fail, so the failures are the
  ones the derivers raise themselves.
\<close>

section \<open>Charging\<close>

type_synonym charge_st = "derive_ctx \<times> nat"

datatype derive_stop = Stop derive_failure | Stop_Panic

definition charge :: "(nat \<Rightarrow> u64) \<Rightarrow> u64 \<Rightarrow> charge_st \<Rightarrow> (derive_stop + unit) \<times> charge_st" where
  "charge clk n st =
     (case st of (ctx, i) \<Rightarrow>
        (case ctx_charge (clk i) (clk (i + 1)) n ctx of
           (Inl e, ctx) \<Rightarrow> (Inl (Stop e), (ctx, i + 2))
         | (Inr _, ctx) \<Rightarrow> (Inr (), (ctx, i + 2))))"

type_synonym 'a charged = "charge_st \<Rightarrow> (derive_stop + 'a) \<times> charge_st"

definition creturn :: "'a \<Rightarrow> 'a charged" where "creturn a st = (Inr a, st)"

definition cbind :: "'a charged \<Rightarrow> ('a \<Rightarrow> 'b charged) \<Rightarrow> 'b charged" where
  "cbind m f st = (case m st of (Inl e, st) \<Rightarrow> (Inl e, st) | (Inr a, st) \<Rightarrow> f a st)"

definition clift :: "derive_stop + 'a \<Rightarrow> 'a charged" where "clift r st = (r, st)"

definition stop_result :: "derive_stop \<Rightarrow> derive_result" where
  "stop_result s = (case s of Stop e \<Rightarrow> Failed e | Stop_Panic \<Rightarrow> Panicked)"

text \<open>\<open>Id(bytes.try_into().expect(\<dots>))\<close>\<close>

definition expect_id :: "bytes \<Rightarrow> derive_stop + oid" where
  "expect_id b = (if length b = 32 then Inr b else Inl Stop_Panic)"

definition vanished :: "string \<Rightarrow> derive_stop" where
  "vanished what = Stop (Fail (ascii (what @ '' row vanished mid-derivation'')))"

section \<open>Statements\<close>

definition derive_kind_id :: "'a repo_db_scheme \<Rightarrow> bytes \<Rightarrow> i64 option" where
  "derive_kind_id db name = map_option fst (find (\<lambda>(_, n). n = name) (db_kinds db))"

definition derive_kind_name :: "'a repo_db_scheme \<Rightarrow> i64 \<Rightarrow> bytes option" where
  "derive_kind_name db kind = om_get (db_kinds db) kind"

definition changeset_parent_count :: "'a repo_db_scheme \<Rightarrow> i64 \<Rightarrow> oid \<Rightarrow> nat" where
  "changeset_parent_count db repo i = length (filter (\<lambda>((r, c, _), _). r = repo \<and> c = i) (db_parents db))"

definition tree_entry_lookup :: "'a tree_db_scheme \<Rightarrow> oid \<Rightarrow> bytes \<Rightarrow> (int \<times> bytes) option" where
  "tree_entry_lookup db tree name =
     Option.bind (om_get (db_tree_entries db) tree) (\<lambda>rows.
       map_option (\<lambda>e. (er_kind e, er_object e)) (om_get rows name))"

primrec lookup_components :: "'a tree_db_scheme \<Rightarrow> bytes list \<Rightarrow> oid \<Rightarrow> derive_stop + oid option" where
  "lookup_components db [] tree = Inr None"
| "lookup_components db (name # names) tree =
     (case tree_entry_lookup db tree name of
        None \<Rightarrow> Inr None
      | Some (kind, object) \<Rightarrow>
          rbind (expect_id object) (\<lambda>object.
            if kind = 0 \<and> names = [] then Inr (Some object)
            else if kind = 1 \<and> names \<noteq> [] then lookup_components db names object
            else Inr None))"

definition tree_lookup_path :: "'a tree_db_scheme \<Rightarrow> oid \<Rightarrow> bytes \<Rightarrow> derive_stop + oid option" where
  "tree_lookup_path db root path = lookup_components db (split_on 47 path) root"

primrec lookup_components_charged :: "(nat \<Rightarrow> u64) \<Rightarrow> 'a tree_db_scheme \<Rightarrow> bytes list \<Rightarrow> oid \<Rightarrow> oid option charged" where
  "lookup_components_charged clk db [] tree = creturn None"
| "lookup_components_charged clk db (name # names) tree =
     cbind (charge clk 1) (\<lambda>_.
       case tree_entry_lookup db tree name of
         None \<Rightarrow> creturn None
       | Some (kind, object) \<Rightarrow>
           cbind (clift (expect_id object)) (\<lambda>object.
             if kind = 0 \<and> names = [] then creturn (Some object)
             else if kind = 1 \<and> names \<noteq> [] then lookup_components_charged clk db names object
             else creturn None))"

definition tree_lookup_path_charged :: "(nat \<Rightarrow> u64) \<Rightarrow> 'a tree_db_scheme \<Rightarrow> oid \<Rightarrow> bytes \<Rightarrow> oid option charged" where
  "tree_lookup_path_charged clk db root path = lookup_components_charged clk db (split_on 47 path) root"

record blame_entry =
  be_path :: bytes
  be_blob :: "oid option"
  be_parent_blob :: "oid option"

definition put_blame :: "i64 \<Rightarrow> oid \<Rightarrow> blame_entry \<Rightarrow> 'a repo_db_scheme \<Rightarrow> 'a repo_db_scheme" where
  "put_blame repo cs e db =
     db\<lparr>db_blame := om_insert (repo, cs, be_path e)
          \<lparr>bl_blob = be_blob e, bl_parent_blob = be_parent_blob e\<rparr> (db_blame db)\<rparr>"

definition blame_state_put :: "i64 \<Rightarrow> oid \<Rightarrow> blame_entry list \<Rightarrow> 'a repo_db_scheme \<Rightarrow> 'a repo_db_scheme" where
  "blame_state_put repo cs entries db = fold (put_blame repo cs) entries db"

definition blame_state_get :: "'a repo_db_scheme \<Rightarrow> i64 \<Rightarrow> oid \<Rightarrow> bytes \<Rightarrow> blame_row option" where
  "blame_state_get db repo cs path = om_get (db_blame db) (repo, cs, path)"

text \<open>\<open>INSERT OR IGNORE\<close>\<close>

definition put_touch :: "i64 \<Rightarrow> i64 \<Rightarrow> oid \<Rightarrow> bytes \<times> change_row \<Rightarrow> 'a repo_db_scheme \<Rightarrow> 'a repo_db_scheme" where
  "put_touch repo generation cs c db =
     (if om_get (db_path_history db) (repo, fst c, generation, cs) \<noteq> None then db
      else db\<lparr>db_path_history := om_insert (repo, fst c, generation, cs) (ch_op (snd c)) (db_path_history db)\<rparr>)"

definition path_history_put ::
    "i64 \<Rightarrow> i64 \<Rightarrow> oid \<Rightarrow> (bytes \<times> change_row) list \<Rightarrow> 'a repo_db_scheme \<Rightarrow> 'a repo_db_scheme" where
  "path_history_put repo generation cs changes db = fold (put_touch repo generation cs) changes db"

section \<open>Skip entries on the wire\<close>

definition i64_le :: "i64 \<Rightarrow> bytes" where "i64_le g = u64_le (as_u64 g)"

definition encode_edge :: "skip_edge \<Rightarrow> bytes" where
  "encode_edge e =
     se_target e @ u64_le (se_hop e) @ i64_le (se_generation e) @ [if se_pure e then 1 else 0]"

definition encode_skip_entries :: "skip_edge list \<Rightarrow> bytes" where
  "encode_skip_entries es = u32_le (word_of_nat (length es)) @ concat (map encode_edge es)"

definition decode_edge :: "bytes \<Rightarrow> skip_edge" where
  "decode_edge bs =
     \<lparr>se_target = take 32 bs, se_hop = word_of_nat (le_nat (take 8 (drop 32 bs))),
      se_generation = as_i64 (word_of_nat (le_nat (take 8 (drop 40 bs)))), se_pure = (bs ! 48 = 1)\<rparr>"

fun decode_edges :: "nat \<Rightarrow> bytes \<Rightarrow> (skip_edge list \<times> bytes) option" where
  "decode_edges 0 bs = Some ([], bs)"
| "decode_edges (Suc n) bs =
     (if length bs < 49 then None
      else map_option (\<lambda>(es, bs'). (decode_edge bs # es, bs')) (decode_edges n (drop 49 bs)))"

definition decode_skip_entries :: "bytes \<Rightarrow> skip_edge list option" where
  "decode_skip_entries bs =
     (if length bs < 4 then None
      else (case decode_edges (le_nat (take 4 bs)) (drop 4 bs) of
              None \<Rightarrow> None
            | Some (es, bs') \<Rightarrow> if bs' \<noteq> [] then None else Some es))"

section \<open>The commit graph\<close>

definition KIND_COMMIT_GRAPH :: bytes where "KIND_COMMIT_GRAPH = ascii ''commit_graph''"
definition KIND_BLAME :: bytes where "KIND_BLAME = ascii ''blame''"
definition KIND_PATH_HISTORY :: bytes where "KIND_PATH_HISTORY = ascii ''path_history''"

definition skips_of :: "'a repo_db_scheme \<Rightarrow> i64 \<Rightarrow> oid \<Rightarrow> skip_edge list option" where
  "skips_of db repo cs =
     (case derive_kind_id db KIND_COMMIT_GRAPH of
        None \<Rightarrow> None
      | Some kind \<Rightarrow>
          (case derive_get db kind repo cs of
             None \<Rightarrow> None
           | Some row \<Rightarrow>
               if dr_state row \<noteq> Ds_Done then None
               else Option.bind (dr_output row) decode_skip_entries))"

text \<open>Entry \<open>k\<close> from the parent's entry \<open>k - 1\<close> and the entry \<open>k - 1\<close> of its target.\<close>

definition double_edge :: "'a repo_db_scheme \<Rightarrow> i64 \<Rightarrow> oid \<Rightarrow> skip_edge \<Rightarrow> skip_edge \<Rightarrow> skip_edge" where
  "double_edge db repo p1 mid far =
     \<lparr>se_target = se_target far, se_hop = se_hop far * 2 + 1, se_generation = se_generation far,
      se_pure = (changeset_parent_count db repo p1 \<le> 1 \<and> changeset_parent_count db repo (se_target mid) \<le> 1 \<and>
                 se_pure mid \<and> se_pure far)\<rparr>"

primrec doubling ::
    "(nat \<Rightarrow> u64) \<Rightarrow> 'a repo_db_scheme \<Rightarrow> i64 \<Rightarrow> oid \<Rightarrow> skip_edge list \<Rightarrow> nat \<Rightarrow> skip_edge list \<Rightarrow> skip_edge list charged" where
  "doubling clk db repo p1 [] k entries = cbind (charge clk 1) (\<lambda>_. creturn entries)"
| "doubling clk db repo p1 (mid # mids) k entries =
     cbind (charge clk 1) (\<lambda>_.
       case skips_of db repo (se_target mid) of
         None \<Rightarrow> creturn entries
       | Some mid_skips \<Rightarrow>
           if length mid_skips \<le> k then creturn entries
           else cbind (charge clk 1) (\<lambda>_.
             doubling clk db repo p1 mids (k + 1) (entries @ [double_edge db repo p1 mid (mid_skips ! k)])))"

definition commit_graph_entries ::
    "(nat \<Rightarrow> u64) \<Rightarrow> derive_ctx \<Rightarrow> 'a repo_db_scheme \<Rightarrow> i64 \<Rightarrow> oid \<Rightarrow> derive_stop + skip_edge list option" where
  "commit_graph_entries clk ctx db repo cs =
     (case changeset_graph db repo cs of
        None \<Rightarrow> Inl (vanished ''changeset'')
      | Some g \<Rightarrow>
          (case cg_parents g of
             [] \<Rightarrow> Inr None
           | p1 # _ \<Rightarrow>
               (case changeset_graph db repo p1 of
                  None \<Rightarrow> Inl (vanished ''first-parent'')
                | Some pg \<Rightarrow>
                    let first = \<lparr>se_target = p1, se_hop = 1, se_generation = cg_generation pg, se_pure = True\<rparr> in
                    case skips_of db repo p1 of
                      None \<Rightarrow> Inr (Some [first])
                    | Some p1_skips \<Rightarrow>
                        (case fst (doubling clk db repo p1 p1_skips 0 [first] (ctx, 0)) of
                           Inl e \<Rightarrow> Inl e
                         | Inr es \<Rightarrow> Inr (Some es)))))"

definition commit_graph_derive ::
    "(nat \<Rightarrow> u64) \<Rightarrow> derive_ctx \<Rightarrow> 'a repo_db_scheme \<Rightarrow> i64 \<Rightarrow> oid \<Rightarrow> parent_out list \<Rightarrow>
     derive_result \<times> 'a repo_db_scheme" where
  "commit_graph_derive clk ctx db repo cs parents =
     (case commit_graph_entries clk ctx db repo cs of
        Inl e \<Rightarrow> (stop_result e, db)
      | Inr None \<Rightarrow> (Derived [], db)
      | Inr (Some es) \<Rightarrow> (Derived (encode_skip_entries es), db))"

section \<open>Blame\<close>

definition blame_parent_root :: "'a repo_db_scheme \<Rightarrow> i64 \<Rightarrow> oid \<Rightarrow> derive_stop + oid option" where
  "blame_parent_root db repo cs =
     (case changeset_graph db repo cs of
        None \<Rightarrow> Inl (vanished ''changeset'')
      | Some g \<Rightarrow>
          (case cg_parents g of
             [] \<Rightarrow> Inr None
           | p1 # _ \<Rightarrow>
               (case changeset_graph db repo p1 of
                  None \<Rightarrow> Inl (vanished ''first-parent'')
                | Some pg \<Rightarrow>
                    (case cg_root_tree pg of
                       None \<Rightarrow> Inr None
                     | Some b \<Rightarrow> rbind (expect_id b) (\<lambda>i. Inr (Some i))))))"

definition expect_opt :: "bytes option \<Rightarrow> derive_stop + oid option" where
  "expect_opt b = (case b of None \<Rightarrow> Inr None | Some b \<Rightarrow> rbind (expect_id b) (\<lambda>i. Inr (Some i)))"

definition blame_one :: "(nat \<Rightarrow> u64) \<Rightarrow> 'a repo_db_scheme \<Rightarrow> oid option \<Rightarrow> bytes \<times> change_row \<Rightarrow> blame_entry charged" where
  "blame_one clk db root c =
     cbind (charge clk 1) (\<lambda>_.
     cbind (case root of None \<Rightarrow> creturn None | Some r \<Rightarrow> tree_lookup_path_charged clk db r (fst c)) (\<lambda>parent_blob.
     cbind (clift (expect_opt (ch_blob (snd c)))) (\<lambda>blob.
       creturn \<lparr>be_path = fst c, be_blob = blob, be_parent_blob = parent_blob\<rparr>)))"

primrec cmap :: "('c \<Rightarrow> 'd charged) \<Rightarrow> 'c list \<Rightarrow> 'd list charged" where
  "cmap f [] = creturn []"
| "cmap f (c # cs) = cbind (f c) (\<lambda>d. cbind (cmap f cs) (\<lambda>ds. creturn (d # ds)))"

definition blame_entries ::
    "(nat \<Rightarrow> u64) \<Rightarrow> 'a repo_db_scheme \<Rightarrow> oid option \<Rightarrow> (bytes \<times> change_row) list \<Rightarrow> blame_entry list charged" where
  "blame_entries clk db root changes = cmap (blame_one clk db root) changes"

definition blame_derive ::
    "(nat \<Rightarrow> u64) \<Rightarrow> derive_ctx \<Rightarrow> 'a repo_db_scheme \<Rightarrow> i64 \<Rightarrow> oid \<Rightarrow> parent_out list \<Rightarrow>
     derive_result \<times> 'a repo_db_scheme" where
  "blame_derive clk ctx db repo cs parents =
     (case blame_parent_root db repo cs of
        Inl e \<Rightarrow> (stop_result e, db)
      | Inr root \<Rightarrow>
          (case fst (blame_entries clk db root (file_changes_list db repo cs) (ctx, 0)) of
             Inl e \<Rightarrow> (stop_result e, db)
           | Inr entries \<Rightarrow> (Derived [], blame_state_put repo cs entries db)))"

section \<open>Path history\<close>

definition charge_each :: "(nat \<Rightarrow> u64) \<Rightarrow> 'c list \<Rightarrow> unit list charged" where
  "charge_each clk cs = cmap (\<lambda>_. charge clk 1) cs"

definition path_history_derive ::
    "(nat \<Rightarrow> u64) \<Rightarrow> derive_ctx \<Rightarrow> 'a repo_db_scheme \<Rightarrow> i64 \<Rightarrow> oid \<Rightarrow> parent_out list \<Rightarrow>
     derive_result \<times> 'a repo_db_scheme" where
  "path_history_derive clk ctx db repo cs parents =
     (case changeset_graph db repo cs of
        None \<Rightarrow> (stop_result (vanished ''changeset''), db)
      | Some g \<Rightarrow>
          let changes = file_changes_list db repo cs in
          case fst (charge_each clk changes (ctx, 0)) of
            Inl e \<Rightarrow> (stop_result e, db)
          | Inr _ \<Rightarrow> (Derived [], path_history_put repo (cg_generation g) cs changes db))"

section \<open>The registry\<close>

definition production_kind ::
    "bytes \<Rightarrow> i64 \<Rightarrow> u64 \<Rightarrow> (derive_ctx \<Rightarrow> 'a repo_db_scheme \<Rightarrow> i64 \<Rightarrow> oid \<Rightarrow> parent_out list \<Rightarrow>
       derive_result \<times> 'a repo_db_scheme) \<Rightarrow> 'a registered_kind" where
  "production_kind name i budget derive =
     \<lparr>rk_name = name, rk_id = i, rk_eager = False, rk_walk_budget = budget, rk_derive = derive\<rparr>"

text \<open>In registry order; the ids are the rows of \<open>derive_kinds\<close>.\<close>

definition production_kinds :: "(nat \<Rightarrow> u64) \<Rightarrow> i64 \<Rightarrow> i64 \<Rightarrow> i64 \<Rightarrow> 'a registered_kind list" where
  "production_kinds clk blame_id path_id graph_id =
     [production_kind KIND_BLAME blame_id 1000000 (blame_derive clk),
      production_kind KIND_PATH_HISTORY path_id 400000 (path_history_derive clk),
      production_kind KIND_COMMIT_GRAPH graph_id 1000 (commit_graph_derive clk)]"

end
