(* ===== verification/Derivers_Correct.thy ===== *)
theory Derivers_Correct
  imports Derivers
begin

text \<open>
  What the commit-graph deriver (\<open>CommitGraphDeriver\<close> in \<open>crates/naatre-server/src/derived.rs\<close>) promises to the
  merge-base route (\<open>merge_base\<close> in \<open>crates/naatre-server/src/routes/history.rs\<close>): the wire format of its output
  and the meaning of its entries.
\<close>

section \<open>Skip entries on the wire\<close>

text \<open>An entry as the deriver makes it: a 32-byte target and a generation of the column's type.\<close>

definition edge_ok :: "skip_edge \<Rightarrow> bool" where
  "edge_ok e \<longleftrightarrow> length (se_target e) = 32 \<and> - (2 ^ 63) \<le> se_generation e \<and> se_generation e < 2 ^ 63"

lemma length_encode_edge: "edge_ok e \<Longrightarrow> length (encode_edge e) = 49"
  by (simp add: encode_edge_def edge_ok_def i64_le_def)

lemma signed_round_trip: "- (2 ^ 63) \<le> g \<Longrightarrow> g < 2 ^ 63 \<Longrightarrow> as_i64 (as_u64 g) = g"
  by (simp add: as_i64_def as_u64_def signed_of_int signed_take_bit_int_eq_self_iff)

lemma decode_encode_edge: "edge_ok e \<Longrightarrow> decode_edge (encode_edge e @ rest) = e"
  by (simp add: decode_edge_def encode_edge_def edge_ok_def i64_le_def u64_le_inverse signed_round_trip nth_append)

lemma decode_encode_edges: "\<forall>e \<in> set es. edge_ok e \<Longrightarrow> decode_edges (length es) (concat (map encode_edge es) @ rest) = Some (es, rest)"
  by (induction es) (simp_all add: length_encode_edge decode_encode_edge)

lemma decode_encode_entries:
  assumes "\<forall>e \<in> set es. edge_ok e" and "length es < 2 ^ 32"
  shows "decode_skip_entries (encode_skip_entries es) = Some es"
proof -
  have "le_nat (u32_le w) = unat w" for w :: u32
    using unat_u32_less [of w] by (simp add: u32_le_def le_nat_le_bytes)
  moreover have "unat (word_of_nat (length es) :: u32) = length es"
    using assms(2) by (simp add: unsigned_of_nat take_bit_nat_eq_self)
  ultimately show ?thesis using decode_encode_edges [OF assms(1), of "[]"]
    by (simp add: decode_skip_entries_def encode_skip_entries_def)
qed

text \<open>The skip entries a deriver stores are the ones the readers get back.\<close>
theorem skip_entries_round_trip:
  assumes "\<forall>e \<in> set es. edge_ok e" and "length es < 2 ^ 32"
  shows "decode_skip_entries (encode_skip_entries es) = Some es"
  by (rule decode_encode_entries [OF assms])

section \<open>What the entries mean\<close>

text \<open>\<open>n\<close> steps along first parents.\<close>

primrec fp_steps :: "('e, graph_node) lookup \<Rightarrow> nat \<Rightarrow> oid \<Rightarrow> oid \<Rightarrow> bool" where
  "fp_steps fetch 0 x t \<longleftrightarrow> t = x"
| "fp_steps fetch (Suc n) x t \<longleftrightarrow> (\<exists>g p ps. found (fetch x) = Some (g, p # ps) \<and> fp_steps fetch n p t)"

lemma fp_steps_add: "fp_steps fetch m x y \<Longrightarrow> fp_steps fetch n y t \<Longrightarrow> fp_steps fetch (m + n) x t"
  by (induction m arbitrary: x) auto

lemma fp_steps_source: "fp_steps fetch (Suc n) x t \<Longrightarrow> \<exists>g p ps. found (fetch x) = Some (g, p # ps)"
  by auto

text \<open>Entry \<open>k\<close> of a changeset: the first-parent ancestor \<open>2 ^ (k + 1) - 1\<close> steps up.\<close>

definition entry_sound :: "('e, graph_node) lookup \<Rightarrow> oid \<Rightarrow> nat \<Rightarrow> skip_edge \<Rightarrow> bool" where
  "entry_sound fetch x k e \<longleftrightarrow>
     fp_steps fetch (2 ^ (k + 1) - 1) x (se_target e) \<and> se_hop e = word_of_nat (2 ^ (k + 1) - 1) \<and>
     (se_pure e \<longrightarrow> pure_span fetch x (se_target e)) \<and>
     (\<forall>g ps. found (fetch (se_target e)) = Some (g, ps) \<longrightarrow> se_generation e = g) \<and> edge_ok e"

definition entries_sound :: "('e, graph_node) lookup \<Rightarrow> oid \<Rightarrow> skip_edge list \<Rightarrow> bool" where
  "entries_sound fetch x es \<longleftrightarrow> (\<forall>k < length es. entry_sound fetch x k (es ! k))"

lemma double_sound:
  assumes "found (fetch x) = Some (g, p1 # ps)" "entry_sound fetch p1 k mid" "entry_sound fetch (se_target mid) k far"
    and "e = \<lparr>se_target = se_target far, se_hop = se_hop far * 2 + 1, se_generation = se_generation far, se_pure = pure\<rparr>"
    and "pure \<Longrightarrow> (\<forall>g qs. found (fetch p1) = Some (g, qs) \<longrightarrow> length qs \<le> 1) \<and>
           (\<forall>g qs. found (fetch (se_target mid)) = Some (g, qs) \<longrightarrow> length qs \<le> 1) \<and> se_pure mid \<and> se_pure far"
  shows "entry_sound fetch x (k + 1) e"
proof -
  let ?n = "2 ^ (k + 1) - 1 :: nat"
  have n: "2 ^ (k + 1 + 1) - 1 = Suc (?n + ?n)"
  proof -
    obtain m :: nat where "2 ^ k = Suc m" by (metis not0_implies_Suc power_not_zero zero_neq_numeral)
    then show ?thesis by simp
  qed
  have steps: "fp_steps fetch (Suc (?n + ?n)) x (se_target far)"
    using assms(1-3) fp_steps_add [of fetch ?n p1 "se_target mid" ?n "se_target far"] by (auto simp: entry_sound_def)
  have hop: "se_hop e = word_of_nat (Suc (?n + ?n))"
  proof -
    have "word_of_nat (Suc (m + m)) = (word_of_nat m * 2 + 1 :: u64)" for m by simp
    moreover have "se_hop far = word_of_nat ?n" using assms(3) unfolding entry_sound_def by blast
    ultimately show ?thesis by (simp only: assms(4) skip_edge.simps)
  qed
  have "pure_span fetch x (se_target far)" if pure
  proof -
    note p = assms(5) [OF that]
    have s: "pure_span fetch p1 (se_target mid)" "pure_span fetch (se_target mid) (se_target far)"
      using p assms(2,3) by (auto simp: entry_sound_def)
    obtain g1 q1 where q1: "found (fetch p1) = Some (g1, [q1])" using pure_span_source [OF s(1)] p by fastforce
    obtain g2 q2 where q2: "found (fetch (se_target mid)) = Some (g2, [q2])" using pure_span_source [OF s(2)] p by fastforce
    from pure_span_trans [OF s(1) q2 s(2)] show ?thesis using pure_span_trans [of fetch x p1 g1 q1] span_edge [of fetch x g p1 ps] assms(1) q1 by blast
  qed
  then show ?thesis using steps hop assms(3) unfolding entry_sound_def n by (simp add: assms(4) edge_ok_def)
qed

lemma entries_sound_snoc:
  "entries_sound fetch x es \<Longrightarrow> entry_sound fetch x (length es) e \<Longrightarrow> entries_sound fetch x (es @ [e])"
  by (simp add: entries_sound_def nth_append less_Suc_eq)

text \<open>Generations are column values, and the ids are ids.\<close>

definition graph_ok :: "'a repo_db_scheme \<Rightarrow> i64 \<Rightarrow> bool" where
  "graph_ok db repo \<longleftrightarrow> descending (ref_fetch db repo) \<and>
     (\<forall>x g. changeset_graph db repo x = Some g \<longrightarrow>
        - (2 ^ 63) \<le> cg_generation g \<and> cg_generation g < 2 ^ 63 \<and> (\<forall>p \<in> set (cg_parents g). length p = 32))"

definition skips_ok :: "'a repo_db_scheme \<Rightarrow> i64 \<Rightarrow> bool" where
  "skips_ok db repo \<longleftrightarrow> (\<forall>x es. skips_of db repo x = Some es \<longrightarrow> entries_sound (ref_fetch db repo) x es)"

lemma found_ref_fetch: "found (ref_fetch db repo x) = map_option (\<lambda>g. (cg_generation g, cg_parents g)) (changeset_graph db repo x)"
  by (simp add: ref_fetch_def)

lemma parent_count: "changeset_graph db repo x = Some g \<Longrightarrow> changeset_parent_count db repo x = length (cg_parents g)"
  by (auto simp: changeset_parent_count_def changeset_graph_def parents_of_def)

lemma gen_range: "graph_ok db repo \<Longrightarrow> found (ref_fetch db repo x) = Some (g, ps) \<Longrightarrow> - (2 ^ 63) \<le> g \<and> g < 2 ^ 63"
  unfolding graph_ok_def found_ref_fetch by blast

lemma few_parents:
  "changeset_parent_count db repo x \<le> 1 \<Longrightarrow> found (ref_fetch db repo x) = Some (g, qs) \<Longrightarrow> length qs \<le> 1"
  using parent_count by (fastforce simp: found_ref_fetch)

lemma long_steps:
  assumes "graph_ok db repo" "fp_steps (ref_fetch db repo) (Suc n) x t"
  shows "\<exists>g ps. found (ref_fetch db repo x) = Some (g, ps) \<and> int n \<le> g + 2 ^ 63"
  using assms(2)
proof (induction n arbitrary: x)
  case 0
  then obtain g p ps where "found (ref_fetch db repo x) = Some (g, p # ps)" by auto
  then show ?case using gen_range [OF assms(1)] by fastforce
next
  case (Suc n)
  obtain g p ps where x: "found (ref_fetch db repo x) = Some (g, p # ps)" "fp_steps (ref_fetch db repo) (Suc n) p t"
    using Suc.prems by auto
  obtain g' ps' where p: "found (ref_fetch db repo p) = Some (g', ps')" "int n \<le> g' + 2 ^ 63"
    using Suc.IH [OF x(2)] by blast
  have "g' < g" using assms(1) descending_step [OF _ x(1) _ p(1)] by (simp add: graph_ok_def)
  then show ?case using x(1) p(2) by auto
qed

lemma entries_few:
  assumes "graph_ok db repo" "entries_sound (ref_fetch db repo) x es"
  shows "length es \<le> 64"
proof (rule ccontr)
  assume "\<not> length es \<le> 64"
  then have "entry_sound (ref_fetch db repo) x 64 (es ! 64)" using assms(2) by (simp add: entries_sound_def)
  then have "fp_steps (ref_fetch db repo) (2 ^ (64 + 1) - 1) x (se_target (es ! 64))" unfolding entry_sound_def by blast
  then have "fp_steps (ref_fetch db repo) (Suc (2 ^ 65 - 2)) x (se_target (es ! 64))" by simp
  from long_steps [OF assms(1) this] obtain g ps where g: "found (ref_fetch db repo x) = Some (g, ps)" "int (2 ^ 65 - 2) \<le> g + 2 ^ 63"
    by blast
  have "g < 2 ^ 63" using gen_range [OF assms(1) g(1)] by simp
  then show False using g(2) by simp
qed

lemma doubling_sound:
  assumes "skips_ok db repo" "found (ref_fetch db repo x) = Some (g, p1 # ps)" "skips_of db repo p1 = Some p1_skips"
  shows "doubling clk db repo p1 (drop k p1_skips) k entries st = (Inr es, st') \<Longrightarrow> length entries = k + 1 \<Longrightarrow>
    entries_sound (ref_fetch db repo) x entries \<Longrightarrow> entries_sound (ref_fetch db repo) x es"
proof (induction "drop k p1_skips" arbitrary: k entries st)
  case Nil
  then show ?case by (auto simp: cbind_def creturn_def split: prod.splits sum.splits)
next
  case (Cons mid mids)
  have k: "k < length p1_skips" "p1_skips ! k = mid" "mids = drop (k + 1) p1_skips"
    using Cons.hyps(2) by (metis drop_eq_Nil linorder_not_less list.distinct(1), metis nth_via_drop, metis Suc_eq_plus1 drop_Suc list.sel(3) tl_drop)
  note run = Cons.prems(1) [unfolded Cons.hyps(2) [symmetric]]
  show ?case
  proof (cases "skips_of db repo (se_target mid)")
    case None
    then show ?thesis using run Cons.prems(3) by (auto simp: cbind_def creturn_def split: prod.splits sum.splits)
  next
    case (Some mid_skips)
    show ?thesis
    proof (cases "length mid_skips \<le> k")
      case True
      then show ?thesis using run Cons.prems(3) Some by (auto simp: cbind_def creturn_def split: prod.splits sum.splits)
    next
      case False
      let ?e = "double_edge db repo p1 mid (mid_skips ! k)"
      obtain st2 where next_run: "doubling clk db repo p1 mids (k + 1) (entries @ [?e]) st2 = (Inr es, st')"
        using run Some False by (auto simp: cbind_def split: prod.splits sum.splits)
      have "entry_sound (ref_fetch db repo) p1 k mid" "entry_sound (ref_fetch db repo) (se_target mid) k (mid_skips ! k)"
        using assms(1,3) Some False k by (auto simp: skips_ok_def entries_sound_def)
      from double_sound [OF assms(2) this double_edge_def [of db repo p1 mid]]
      have "entry_sound (ref_fetch db repo) x (k + 1) ?e" using few_parents by blast
      then have "entries_sound (ref_fetch db repo) x (entries @ [?e])"
        using entries_sound_snoc [OF Cons.prems(3)] Cons.prems(2) by simp
      then show ?thesis using Cons.hyps(1) [OF k(3)] next_run Cons.prems(2) k(3) by simp
    qed
  qed
qed

text \<open>The lookup of the merge-base route: the entries of a finished, untainted row.\<close>

definition skips_for_reading :: "'a repo_db_scheme \<Rightarrow> i64 \<Rightarrow> oid \<Rightarrow> skip_edge list" where
  "skips_for_reading db repo cs =
     (case derive_kind_id db KIND_COMMIT_GRAPH of
        None \<Rightarrow> []
      | Some kind \<Rightarrow>
          (case derive_get db kind repo cs of
             None \<Rightarrow> []
           | Some row \<Rightarrow>
               if dr_state row = Ds_Done \<and> \<not> dr_tainted row then
                 (case Option.bind (dr_output row) decode_skip_entries of None \<Rightarrow> [] | Some es \<Rightarrow> es)
               else []))"

definition skip_fetch :: "'a repo_db_scheme \<Rightarrow> i64 \<Rightarrow> (unit, skip_node) lookup" where
  "skip_fetch db repo i =
     Inr (map_option (\<lambda>g. \<lparr>sk_generation = cg_generation g, sk_parents = cg_parents g, sk_skips = skips_for_reading db repo i\<rparr>)
       (changeset_graph db repo i))"

lemma base_skip_fetch: "base_fetch (skip_fetch db repo) = ref_fetch db repo"
  by (rule ext) (simp add: base_fetch_def skip_fetch_def ref_fetch_def option.map_comp o_def)

lemma skips_read_are_derived: "skips_for_reading db repo x = [] \<or> skips_of db repo x = Some (skips_for_reading db repo x)"
  by (auto simp: skips_for_reading_def skips_of_def split: option.splits if_splits)

lemma skips_ok_sound: "skips_ok db repo \<Longrightarrow> skips_sound (skip_fetch db repo)"
proof -
  assume ok: "skips_ok db repo"
  have "skip_sound (skip_fetch db repo) x e" if e: "e \<in> set (skips_for_reading db repo x)" "se_pure e" for x e
  proof -
    obtain es where es: "skips_of db repo x = Some es" "e \<in> set es" using skips_read_are_derived [of db repo x] e(1) by (cases "skips_for_reading db repo x = []") auto
    obtain k where "k < length es" "e = es ! k" using es(2) by (metis in_set_conv_nth)
    then have "entry_sound (ref_fetch db repo) x k e" using ok es(1) by (auto simp: skips_ok_def entries_sound_def)
    then show ?thesis using e(2) by (auto simp: entry_sound_def skip_sound_def base_skip_fetch found_ref_fetch skip_fetch_def)
  qed
  then show ?thesis by (auto simp: skips_sound_def skip_fetch_def)
qed

text \<open>C18: the commit graph is derived right, changeset by changeset. When generations fall along parent edges (and are 64-bit
  values, with parent ids of 32 bytes) and the stored entries are right, a derivation that
  succeeds changes no table and its output is empty or decodes to entries that are right again: entry \<open>k\<close> is the
  first-parent ancestor exactly \<open>2 ^ (k + 1) - 1\<close> steps up, with that hop count and that ancestor's generation, and is
  marked pure only when every changeset it jumps over has a single parent. A list never has more than 64 entries. So the
  lookup of the merge-base route, which reads them, meets the condition under which the accelerated walk is exact.\<close>
theorem commit_graph_is_sound:
  assumes "graph_ok db repo" and "skips_ok db repo"
    and "commit_graph_derive clk ctx db repo cs parents = (Derived out, db')"
  shows "db' = db \<and> skips_sound (skip_fetch db repo) \<and>
         (out = [] \<or> (\<exists>es. decode_skip_entries out = Some es \<and> entries_sound (ref_fetch db repo) cs es \<and> length es \<le> 64))"
proof -
  have db: "db' = db" using assms(3) by (auto simp: commit_graph_derive_def split: sum.splits option.splits)
  have "out = [] \<or> (\<exists>es. out = encode_skip_entries es \<and> commit_graph_entries clk ctx db repo cs = Inr (Some es))"
    using assms(3) by (auto simp: commit_graph_derive_def stop_result_def split: sum.splits option.splits derive_stop.splits)
  moreover have "entries_sound (ref_fetch db repo) cs es" if e: "commit_graph_entries clk ctx db repo cs = Inr (Some es)" for es
  proof -
    obtain g where g: "changeset_graph db repo cs = Some g" using e by (auto simp: commit_graph_entries_def split: option.splits)
    obtain p1 ps where p: "cg_parents g = p1 # ps" using e g by (auto simp: commit_graph_entries_def split: list.splits)
    obtain pg where pg: "changeset_graph db repo p1 = Some pg" using e g p by (auto simp: commit_graph_entries_def split: option.splits)
    let ?first = "\<lparr>se_target = p1, se_hop = 1, se_generation = cg_generation pg, se_pure = True\<rparr>"
    have found: "found (ref_fetch db repo cs) = Some (cg_generation g, p1 # ps)" using g p by (simp add: found_ref_fetch)
    have "edge_ok ?first" using assms(1) g p pg by (auto simp: edge_ok_def graph_ok_def)
    moreover have "pure_span (ref_fetch db repo) cs p1" using span_edge [of "ref_fetch db repo"] found by blast
    ultimately have first: "entries_sound (ref_fetch db repo) cs [?first]"
      using found pg by (auto simp: entries_sound_def entry_sound_def found_ref_fetch)
    show ?thesis
    proof (cases "skips_of db repo p1")
      case None
      then show ?thesis using e g p pg first by (simp add: commit_graph_entries_def)
    next
      case (Some p1_skips)
      then obtain st where "doubling clk db repo p1 (drop 0 p1_skips) 0 [?first] (ctx, 0) = (Inr es, st)"
        using e g p pg by (auto simp: commit_graph_entries_def split: sum.splits) (metis prod.collapse)
      from doubling_sound [OF assms(2) found Some this _ first] show ?thesis by simp
    qed
  qed
  moreover have "decode_skip_entries (encode_skip_entries es) = Some es" if "entries_sound (ref_fetch db repo) cs es" for es
  proof (rule decode_encode_entries)
    show "\<forall>e \<in> set es. edge_ok e" using that by (auto simp: entries_sound_def entry_sound_def in_set_conv_nth)
    show "length es < 2 ^ 32" using entries_few [OF assms(1) that] by simp
  qed
  ultimately show ?thesis using db skips_ok_sound [OF assms(2)] entries_few [OF assms(1)] by blast
qed

section \<open>Witnesses\<close>

definition sample_edge :: "i64 \<Rightarrow> skip_edge" where
  "sample_edge g = \<lparr>se_target = replicate 32 1, se_hop = 1, se_generation = g, se_pure = True\<rparr>"

lemma skip_entries_round_trip_witness:
  "decode_skip_entries (encode_skip_entries [sample_edge 0, sample_edge (- 5)]) = Some [sample_edge 0, sample_edge (- 5)]"
  by (rule skip_entries_round_trip) (simp_all add: edge_ok_def sample_edge_def)

text \<open>Two changesets with ids of full length, the second on the first.\<close>

definition pair_db :: repo_db where
  "pair_db = empty_repo_db\<lparr>db_changesets := [(sample_cs 1 1 0)\<lparr>cr_id := replicate 32 1\<rparr>, (sample_cs 2 2 1)\<lparr>cr_id := replicate 32 2\<rparr>],
     db_parents := [((1, replicate 32 2, 0), replicate 32 1)]\<rparr>"

lemma replicate_differs [simp]: "(replicate 32 (1 :: byte) = replicate 32 2) = False" "(replicate 32 (2 :: byte) = replicate 32 1) = False"
  by (simp_all add: numeral_eq_Suc)

lemma pair_graph:
  "changeset_graph pair_db repo x =
     (if repo = 1 \<and> x = replicate 32 1 then Some \<lparr>cg_generation = 0, cg_parents = [], cg_root_tree = None\<rparr>
      else if repo = 1 \<and> x = replicate 32 2 then Some \<lparr>cg_generation = 1, cg_parents = [replicate 32 1], cg_root_tree = None\<rparr>
      else None)"
  by (auto simp: pair_db_def changeset_graph_def changeset_get_def is_changeset_def parents_of_def sample_cs_def empty_repo_db_def)

lemma pair_ok: "graph_ok pair_db 1" "skips_ok pair_db 1"
proof -
  show "graph_ok pair_db 1" by (auto simp: graph_ok_def descending_def found_ref_fetch pair_graph split: if_splits)
  show "skips_ok pair_db 1" by (simp add: skips_ok_def skips_of_def derive_kind_id_def pair_db_def empty_repo_db_def)
qed

lemma commit_graph_is_sound_witness:
  "\<exists>out. commit_graph_derive (\<lambda>_. 0) (ctx_new 1000 0 1000) pair_db 1 (replicate 32 2) [] = (Derived out, pair_db) \<and> out \<noteq> [] \<and>
     (\<exists>es. decode_skip_entries out = Some es \<and> entries_sound (ref_fetch pair_db 1) (replicate 32 2) es \<and> length es \<le> 64)"
proof -
  have "skips_of pair_db 1 (replicate 32 1) = None" by (simp add: skips_of_def derive_kind_id_def pair_db_def empty_repo_db_def)
  then obtain out where out: "commit_graph_derive (\<lambda>_. 0) (ctx_new 1000 0 1000) pair_db 1 (replicate 32 2) [] = (Derived out, pair_db)" "out \<noteq> []"
    by (simp add: commit_graph_derive_def commit_graph_entries_def pair_graph encode_skip_entries_def encode_edge_def)
  from commit_graph_is_sound [OF pair_ok out(1)] out show ?thesis by blast
qed

end
