(* ===== verification/Redactions.thy ===== *)
theory Redactions
  imports Access_Routes
begin

text \<open>
  Redaction (\<open>crates/naatre-server/src/db.rs\<close>, the statements on \<open>redactions\<close>, and
  \<open>crates/naatre-server/src/routes/redactions.rs\<close>): a tombstone marks one blob or changeset of one repository.
  Every read of the repository asks for it, whether the collector has purged the object or not; the reads are in
  \<open>Read_Routes\<close>.

  A mark finds no row and inserts one inside one transaction, so the arm for a lost race never runs in the model.
\<close>

section \<open>Statements\<close>

definition redaction_get :: "'a repo_db_scheme \<Rightarrow> i64 \<Rightarrow> oid \<Rightarrow> redaction_row option" where
  "redaction_get db repo i = om_get (db_redactions db) (repo, i)"

datatype mark_outcome =
    Mark_Inserted redaction_row
  | Mark_Existing redaction_row
  | Mark_Rearmed redaction_row
  | Mark_Kind_Mismatch redaction_row

text \<open>\<open>ORDER BY path ASC LIMIT 1\<close>\<close>

definition first_path :: "bytes list \<Rightarrow> bytes option" where
  "first_path ps = (case sort ps of [] \<Rightarrow> None | p # _ \<Rightarrow> Some p)"

definition mark_path :: "'a repo_db_scheme \<Rightarrow> i64 \<Rightarrow> oid \<Rightarrow> bytes \<Rightarrow> bytes option" where
  "mark_path db repo i kind =
     first_path
       (if kind = ascii ''blob'' then
          List.map_filter (\<lambda>((r, _, p), c). if r = repo \<and> ch_blob c = Some i then Some p else None) (db_file_changes db)
        else List.map_filter (\<lambda>((r, cs, p), _). if r = repo \<and> cs = i then Some p else None) (db_file_changes db))"

definition put_redaction :: "i64 \<Rightarrow> oid \<Rightarrow> redaction_row \<Rightarrow> 'a repo_db_scheme \<Rightarrow> 'a repo_db_scheme" where
  "put_redaction repo i row db = db\<lparr>db_redactions := om_insert (repo, i) row (db_redactions db)\<rparr>"

definition redaction_mark_classify ::
    "i64 \<Rightarrow> oid \<Rightarrow> bytes \<Rightarrow> i64 \<Rightarrow> redaction_row \<Rightarrow> 'a repo_db_scheme \<Rightarrow> mark_outcome \<times> 'a repo_db_scheme" where
  "redaction_mark_classify repo i kind marked existing db =
     (if rd_kind existing \<noteq> kind then (Mark_Kind_Mismatch existing, db)
      else if rd_purged existing \<noteq> None then
        let remains = (kind \<noteq> ascii ''changeset'' \<or> changeset_exists db i);
            row = existing\<lparr>rd_marked := marked, rd_purged := (if remains then None else Some marked)\<rparr>
        in (Mark_Rearmed row, put_redaction repo i row db)
      else (Mark_Existing existing, db))"

definition redaction_mark ::
    "i64 \<Rightarrow> oid \<Rightarrow> bytes \<Rightarrow> i64 \<Rightarrow> 'a repo_db_scheme \<Rightarrow> mark_outcome \<times> 'a repo_db_scheme" where
  "redaction_mark repo i kind marked db =
     (case redaction_get db repo i of
        Some existing \<Rightarrow> redaction_mark_classify repo i kind marked existing db
      | None \<Rightarrow>
          let row = \<lparr>rd_kind = kind, rd_path = mark_path db repo i kind, rd_marked = marked, rd_purged = None\<rparr>
          in (Mark_Inserted row, put_redaction repo i row db))"

definition redaction_target_present_repo :: "'a repo_db_scheme \<Rightarrow> i64 \<Rightarrow> oid \<Rightarrow> bytes \<Rightarrow> bool" where
  "redaction_target_present_repo db repo i kind \<longleftrightarrow>
     redaction_active db repo i \<or>
     (if kind = ascii ''blob'' then
        repo_blob_check db repo i \<or>
        list_ex (\<lambda>((r, _, _), c). r = repo \<and> ch_blob c = Some i) (db_file_changes db) \<or>
        list_ex (\<lambda>(_, b). b = i) (entry_edges 0 db)
      else changeset_get db repo i \<noteq> None)"

definition object_row_exists :: "'a repo_db_scheme \<Rightarrow> oid \<Rightarrow> bool" where
  "object_row_exists db i \<longleftrightarrow> om_get (db_objects db) i \<noteq> None"

text \<open>The rows of the recursive query from one directory are \<open>closure\<close> over the directory entries.\<close>

definition dirty_dir :: "'a repo_db_scheme \<Rightarrow> i64 \<Rightarrow> oid \<Rightarrow> bool" where
  "dirty_dir db repo d \<longleftrightarrow>
     tree_row db d \<noteq> None \<and>
     (let below = closure (entry_edges 1 db) [d]
      in list_ex (\<lambda>(t, b). t \<in> below \<and> redaction_active db repo b) (entry_edges 0 db))"

definition redactions_dirty_dirs :: "'a repo_db_scheme \<Rightarrow> i64 \<Rightarrow> oid list \<Rightarrow> oid list" where
  "redactions_dirty_dirs db repo dirs = filter (dirty_dir db repo) dirs"

definition redactions_page :: "'a repo_db_scheme \<Rightarrow> i64 \<Rightarrow> oid option \<Rightarrow> i64 \<Rightarrow> (oid \<times> redaction_row) list" where
  "redactions_page db repo after limit =
     take (nat limit)
       (map (\<lambda>((_, i), row). (i, row))
         (filter (\<lambda>((r, i), _). r = repo \<and> (case after of None \<Rightarrow> True | Some a \<Rightarrow> a < i)) (db_redactions db)))"

definition redaction_invalidate_derived :: "i64 \<Rightarrow> oid \<Rightarrow> 'a repo_db_scheme \<Rightarrow> 'a repo_db_scheme" where
  "redaction_invalidate_derived repo cs db =
     db\<lparr>db_derive := map (\<lambda>r. if dr_repo r = repo \<and> dr_cs r = cs \<and> dr_state r \<noteq> Ds_Poison
                             then r\<lparr>dr_state := Ds_Poison, dr_lease := None\<rparr> else r) (db_derive db)\<rparr>"

section \<open>Routes\<close>

record redaction_entry =
  re_id :: bytes
  re_kind :: bytes
  re_path :: "bytes option"
  re_marked :: u64
  re_purged :: "u64 option"

definition entry_of :: "oid \<Rightarrow> redaction_row \<Rightarrow> redaction_entry" where
  "entry_of i row =
     \<lparr>re_id = to_hex i, re_kind = rd_kind row, re_path = rd_path row, re_marked = as_u64 (rd_marked row),
      re_purged = map_option as_u64 (rd_purged row)\<rparr>"

record redaction_body =
  rb_id :: bytes
  rb_kind :: bytes
  rb_reason :: bytes

text \<open>\<open>reason.trim().is_empty()\<close>: every character has the property White_Space.\<close>

definition wide_blank :: "byte \<Rightarrow> byte \<Rightarrow> byte \<Rightarrow> bool" where
  "wide_blank a b c \<longleftrightarrow>
     (a, b, c) = (0xE1, 0x9A, 0x80) \<or> (a, b, c) = (0xE3, 0x80, 0x80) \<or> (a, b, c) = (0xE2, 0x81, 0x9F) \<or>
     a = 0xE2 \<and> b = 0x80 \<and> (0x80 \<le> c \<and> c \<le> 0x8A \<or> c = 0xA8 \<or> c = 0xA9 \<or> c = 0xAF)"

fun only_blank :: "bytes \<Rightarrow> bool" where
  "only_blank [] \<longleftrightarrow> True"
| "only_blank [a] \<longleftrightarrow> is_blank a"
| "only_blank [a, b] \<longleftrightarrow> is_blank a \<and> is_blank b \<or> a = 0xC2 \<and> (b = 0x85 \<or> b = 0xA0)"
| "only_blank (a # b # c # s) \<longleftrightarrow>
     (if is_blank a then only_blank (b # c # s)
      else if a = 0xC2 \<and> (b = 0x85 \<or> b = 0xA0) then only_blank (c # s)
      else wide_blank a b c \<and> only_blank s)"

definition redact_details :: "bytes \<Rightarrow> oid \<Rightarrow> bytes \<Rightarrow> bytes \<Rightarrow> bool \<Rightarrow> json" where
  "redact_details repo i kind reason rearmed =
     JObj ([(ascii ''repo'', JStr repo), (ascii ''id'', JStr (to_hex i)), (ascii ''kind'', JStr kind),
            (ascii ''reason'', JStr reason)] @
           (if rearmed then [(ascii ''rearmed'', JBool True)] else []))"

text \<open>The write: the mark, the derived rows, and for a mark that changed a row the audit row, which belongs to the
  catalog.\<close>

definition redact_write ::
    "server_env \<Rightarrow> authed \<Rightarrow> bytes \<Rightarrow> oid \<Rightarrow> bytes \<Rightarrow> bytes \<Rightarrow> i64 \<Rightarrow> cx \<Rightarrow> api_error + mark_outcome \<times> cx" where
  "redact_write env auth repo i kind reason now c =
     (let (out, db) = redaction_mark (cx_id c) i kind now (cx_db c);
          audit = (\<lambda>rearmed. audit_append now (ap_principal auth) (ascii ''redact'')
                               (en_print env (redact_details repo i kind reason rearmed)));
          row = (\<lambda>rearmed db. if cx_split c then c\<lparr>cx_db := db, cx_cat := audit rearmed (cx_cat c)\<rparr>
                              else c\<lparr>cx_db := audit rearmed db\<rparr>)
      in case out of
           Mark_Inserted _ \<Rightarrow> Inr (out, row False (redaction_invalidate_derived (cx_id c) i db))
         | Mark_Rearmed _ \<Rightarrow> Inr (out, row True db)
         | _ \<Rightarrow> Inr (out, c\<lparr>cx_db := db\<rparr>))"

definition target_present :: "cx \<Rightarrow> oid \<Rightarrow> bytes \<Rightarrow> bool" where
  "target_present c i kind \<longleftrightarrow>
     redaction_target_present_repo (cx_db c) (cx_id c) i kind \<or> kind = ascii ''blob'' \<and> object_row_exists (cat_of c) i"

text \<open>Status, entry and whether a purged tombstone was armed again.\<close>

definition redactions_create_route ::
    "server_env \<Rightarrow> authed \<Rightarrow> bytes \<Rightarrow> redaction_body \<Rightarrow> (nat \<times> redaction_entry \<times> bool) req" where
  "redactions_create_route env auth repo body =
     req_bind (repo_read_gate env auth repo) (\<lambda>_.
     req_bind (require_role auth Admin) (\<lambda>_.
     req_bind (guard (rb_kind body \<in> {ascii ''blob'', ascii ''changeset''})
         (api_new Validation (ascii ''kind must be `blob` or `changeset`, got '' @ en_debug env (rb_kind body)))) (\<lambda>_.
     req_bind (guard (\<not> only_blank (rb_reason body)) (validation ''reason must not be empty'')) (\<lambda>_.
     req_bind (req_lift (ok_or (from_hex (rb_id body)) (malformed ''id must be 64 lowercase hex characters''))) (\<lambda>i.
     req_bind (sv_read_repo env repo (\<lambda>c. Inr (target_present c i (rb_kind body)))) (\<lambda>exists.
     req_bind (guard exists (api_new ObjectNotFound (ascii ''no '' @ rb_kind body @ [32] @ to_hex i @ ascii '' in this repo''))) (\<lambda>_.
     req_bind (now_ns env) (\<lambda>now.
     req_bind (sv_write_repo env repo (redact_write env auth repo i (rb_kind body) (rb_reason body) (as_i64 now))) (\<lambda>out.
       case out of
         Mark_Inserted row \<Rightarrow> ret (201, entry_of i row, False)
       | Mark_Existing row \<Rightarrow> ret (200, entry_of i row, False)
       | Mark_Rearmed row \<Rightarrow> ret (200, entry_of i row, True)
       | Mark_Kind_Mismatch row \<Rightarrow>
           fail (api_new Validation (to_hex i @ ascii '' is already tombstoned with kind '' @ en_debug env (rd_kind row) @
             ascii ''; the re-POST named '' @ en_debug env (rb_kind body))))))))))))"

text \<open>\<open>after:<id>\<close>\<close>

definition parse_id_cursor :: "bytes option \<Rightarrow> api_error + oid option" where
  "parse_id_cursor cursor =
     (case cursor of
        None \<Rightarrow> Inr None
      | Some raw \<Rightarrow> rbind (ok_or (Option.bind (strip_prefix (ascii ''after:'') raw) from_hex) bad_cursor) (\<lambda>i. Inr (Some i)))"

definition redactions_list_route :: "server_env \<Rightarrow> authed \<Rightarrow> bytes \<Rightarrow> list_query \<Rightarrow> redaction_entry page req" where
  "redactions_list_route env auth repo q =
     req_bind (repo_read_gate env auth repo) (\<lambda>_.
     req_bind (require_role auth Admin) (\<lambda>_.
     req_bind (req_lift (parse_limit (lq_limit q))) (\<lambda>limit.
     req_bind (req_lift (parse_id_cursor (lq_cursor q))) (\<lambda>after.
     req_bind (sv_read_repo env repo (\<lambda>c. Inr (redactions_page (cx_db c) (cx_id c) after (limit + 1)))) (\<lambda>rows.
       let more = int (length rows) > limit; rows = take (nat limit) rows in
       ret \<lparr>pg_rows = map (\<lambda>(i, row). entry_of i row) rows,
            pg_next = (if more then Some (ascii ''after:'' @ to_hex (fst (last rows))) else None), pg_more = more\<rparr>)))))"

end
