(* ===== verification/Read_Routes.thy ===== *)
theory Read_Routes
  imports Redactions Derivers
begin

text \<open>
  The routes that read a repository's history: trees (\<open>crates/naatre-server/src/routes/trees.rs\<close>), changesets
  (\<open>routes/changesets.rs\<close>) and the log, the diff and the file lookup (\<open>routes/history.rs\<close>), with their
  statements (\<open>crates/naatre-server/src/db.rs\<close>).

  A panic inside a request is an internal error. A walk of the tables that does not return is answered by the
  timeout layer (\<open>middleware.rs\<close>).
\<close>

section \<open>Walks that take too long\<close>

definition request_timed_out :: api_error where
  "request_timed_out = api_retryable True (api_new RequestTimeout (ascii ''request exceeded the server time budget''))"

definition in_time :: "(api_error + 'a) option \<Rightarrow> api_error + 'a" where
  "in_time r = (case r of None \<Rightarrow> Inl request_timed_out | Some r \<Rightarrow> r)"

definition parse_id :: "bytes \<Rightarrow> api_error + oid" where
  "parse_id hex = ok_or (from_hex hex) (malformed ''id must be 64 lowercase hex characters'')"

definition redacted_in :: "bytes \<Rightarrow> bytes \<Rightarrow> bytes \<Rightarrow> api_error" where
  "redacted_in what hex repo = api_new ObjectRedacted (what @ hex @ ascii '' is redacted in '' @ repo)"

text \<open>\<open>Id(bytes.try_into().expect(\<dots>))\<close>\<close>

definition expect32 :: "bytes \<Rightarrow> api_error + oid" where
  "expect32 b = (if length b = 32 then Inr b else Inl api_internal)"

section \<open>Trees\<close>

record entry_out =
  eo_name :: bytes
  eo_kind :: bytes
  eo_object :: "bytes option"
  eo_size :: "u64 option"
  eo_exec :: "bool option"
  eo_redacted :: bool

definition mask_entry :: "oid set \<Rightarrow> oid set \<Rightarrow> entry_row \<Rightarrow> entry_out" where
  "mask_entry gated dirty e =
     (let redacted = er_object e \<in> gated; aggregate_redacted = er_kind e \<noteq> 0 \<and> er_object e \<in> dirty
      in \<lparr>eo_name = er_name e, eo_kind = (if er_kind e = 0 then ascii ''file'' else ascii ''dir''),
          eo_object = (if redacted then None else Some (to_hex (er_object e))),
          eo_size = (if redacted \<or> aggregate_redacted then None else Some (er_size e)),
          eo_exec = (if redacted then None else Some (er_exec e)), eo_redacted = redacted\<rparr>)"

definition mask_tree_entries :: "repo_db \<Rightarrow> i64 \<Rightarrow> entry_row list \<Rightarrow> api_error + entry_out list" where
  "mask_tree_entries db repo rows =
     (if \<not> list_all (\<lambda>e. length (er_object e) = 32) rows then Inl api_internal
      else let gated = set (redactions_active_among db repo (map er_object rows));
               dirs = map er_object (filter (\<lambda>e. er_kind e \<noteq> 0) rows);
               dirty = set (redactions_dirty_dirs db repo dirs)
           in Inr (map (mask_entry gated dirty) rows))"

definition repo_has_tree :: "'a repo_db_scheme \<Rightarrow> i64 \<Rightarrow> oid \<Rightarrow> bool" where
  "repo_has_tree db repo t \<longleftrightarrow> (repo, t) \<in> db_repo_trees db"

definition get_tree_read :: "oid \<Rightarrow> cx \<Rightarrow> api_error + entry_out list option" where
  "get_tree_read i c =
     (if \<not> repo_has_tree (cx_db c) (cx_id c) i then Inr None
      else rbind (mask_tree_entries (cx_db c) (cx_id c) (tree_entries_load (cx_db c) i)) (\<lambda>es. Inr (Some es)))"

definition get_tree_route :: "server_env \<Rightarrow> authed \<Rightarrow> bytes \<Rightarrow> bytes \<Rightarrow> entry_out list req" where
  "get_tree_route env auth repo hex =
     req_bind (repo_read_gate env auth repo) (\<lambda>_.
     req_bind (req_lift (parse_id hex)) (\<lambda>i.
     req_bind (sv_read_repo env repo (get_tree_read i)) (\<lambda>found.
       case found of
         Some entries \<Rightarrow> ret entries
       | None \<Rightarrow> fail (api_new NotFound (ascii ''no tree '' @ hex @ ascii '' written in '' @ en_debug env repo)))))"

section \<open>Changesets\<close>

record change_out =
  co_path :: bytes
  co_op :: bytes
  co_blob :: "bytes option"
  co_size :: "u64 option"
  co_exec :: "bool option"
  co_redacted :: bool

record changeset_out =
  ca_id :: bytes
  ca_parents :: "bytes list"
  ca_author :: bytes
  ca_message :: bytes
  ca_timestamp :: u64
  ca_generation :: u64
  ca_principal :: bytes
  ca_conflicted :: bool
  ca_changes :: "change_out list"

definition op_name :: "int \<Rightarrow> bytes" where
  "op_name t = (if t = 0 then ascii ''add'' else if t = 1 then ascii ''mod'' else ascii ''del'')"

definition change_out_of :: "oid set \<Rightarrow> bytes \<times> change_row \<Rightarrow> api_error + change_out" where
  "change_out_of gated c =
     (let (path, row) = c; redacted = (case ch_blob row of None \<Rightarrow> False | Some b \<Rightarrow> b \<in> gated)
      in rbind (case ch_blob row of None \<Rightarrow> Inr None | Some b \<Rightarrow> rbind (expect32 b) (\<lambda>b. Inr (Some b))) (\<lambda>blob.
         Inr \<lparr>co_path = path, co_op = op_name (ch_op row),
              co_blob = (if redacted then None else map_option to_hex blob),
              co_size = (if redacted then None else map_option as_u64 (ch_size row)),
              co_exec = (if redacted then None else Some (ch_exec row)), co_redacted = redacted\<rparr>))"

definition changed_blobs :: "(bytes \<times> change_row) list \<Rightarrow> oid list" where
  "changed_blobs changes = filter (\<lambda>b. length b = 32) (List.map_filter (ch_blob \<circ> snd) changes)"

record changeset_read =
  cd_row :: changeset_row
  cd_parents :: "oid list"
  cd_changes :: "(bytes \<times> change_row) list"
  cd_gated :: "oid set"

definition get_changeset_read :: "bytes \<Rightarrow> bytes \<Rightarrow> oid \<Rightarrow> cx \<Rightarrow> api_error + changeset_read option" where
  "get_changeset_read repo hex i c =
     (let db = cx_db c in
      if redaction_active db (cx_id c) i then Inl (redacted_in (ascii ''changeset '') hex repo)
      else (case changeset_get db (cx_id c) i of
              None \<Rightarrow> Inr None
            | Some row \<Rightarrow>
                let parents = (case changeset_graph db (cx_id c) i of None \<Rightarrow> [] | Some g \<Rightarrow> cg_parents g);
                    changes = file_changes_list db (cx_id c) i
                in Inr (Some \<lparr>cd_row = row, cd_parents = parents, cd_changes = changes,
                      cd_gated = set (redactions_active_among db (cx_id c) (changed_blobs changes))\<rparr>)))"

definition no_changeset :: "server_env \<Rightarrow> bytes \<Rightarrow> bytes \<Rightarrow> api_error" where
  "no_changeset env hex repo = api_new NotFound (ascii ''no changeset '' @ hex @ ascii '' in '' @ en_debug env repo)"

text \<open>One byte of the canonical frame tells the version.\<close>

definition conflicted_flag :: "bytes \<Rightarrow> bool" where
  "conflicted_flag canonical \<longleftrightarrow> length MAGIC_V2 \<le> length canonical \<and> canonical ! 16 = MAGIC_V2 ! 16"

definition get_changeset_route :: "server_env \<Rightarrow> authed \<Rightarrow> bytes \<Rightarrow> bytes \<Rightarrow> changeset_out req" where
  "get_changeset_route env auth repo hex =
     req_bind (repo_read_gate env auth repo) (\<lambda>_.
     req_bind (req_lift (parse_id hex)) (\<lambda>i.
     req_bind (sv_read_repo env repo (get_changeset_read repo hex i)) (\<lambda>found.
       case found of
         None \<Rightarrow> fail (no_changeset env hex repo)
       | Some d \<Rightarrow>
           req_bind (req_lift (rmap (change_out_of (cd_gated d)) (cd_changes d))) (\<lambda>changes.
             let row = cd_row d in
             ret \<lparr>ca_id = to_hex i, ca_parents = map to_hex (cd_parents d), ca_author = cr_author row,
                  ca_message = cr_message row, ca_timestamp = as_u64 (cr_timestamp row),
                  ca_generation = as_u64 (cr_generation row), ca_principal = cr_principal row,
                  ca_conflicted = conflicted_flag (cr_canonical row), ca_changes = changes\<rparr>))))"

text \<open>The header \<open>Naatre-Conflict-Format\<close>: \<open>to_str\<close> accepts visible ASCII and tabs; \<open>str::parse::<u32>\<close>.\<close>

definition header_text :: "bytes \<Rightarrow> bytes option" where
  "header_text v = (if list_all (\<lambda>b. 32 \<le> b \<and> b < 127 \<or> b = 9) v then Some v else None)"

definition parse_u32 :: "bytes \<Rightarrow> nat option" where
  "parse_u32 s =
     (let ds = (case s of b # r \<Rightarrow> if b = 43 then r else s | [] \<Rightarrow> s)
      in if ds = [] \<or> \<not> list_all is_ascii_digit ds \<or> 2 ^ 32 \<le> dec_val ds then None else Some (dec_val ds))"

definition announced_format :: "bytes option \<Rightarrow> nat" where
  "announced_format h =
     (case Option.bind (Option.bind h header_text) (\<lambda>v. parse_u32 (trim v)) of None \<Rightarrow> 0 | Some n \<Rightarrow> n)"

definition CONFLICT_FORMAT_HEADER :: bytes where "CONFLICT_FORMAT_HEADER = ascii ''Naatre-Conflict-Format''"

text \<open>The dash of the message, U+2014.\<close>

definition em_dash :: bytes where "em_dash = [0xE2, 0x80, 0x94]"

definition skewed :: "bytes \<Rightarrow> nat \<Rightarrow> nat \<Rightarrow> bool \<Rightarrow> api_error" where
  "skewed hex needed announced header_sent =
     with_details (JObj [(ascii ''needed'', JNum (int needed)), (ascii ''announced'', JNum (int announced))])
       (api_new VersionSkewConflicted
         (ascii ''changeset '' @ hex @ ascii '' carries a first-class conflict in conflict format '' @ dec_str needed @
          ascii ''; '' @
          (if header_sent then ascii ''this client announces conflict format '' @ dec_str announced @ ascii '' in its '' @
             CONFLICT_FORMAT_HEADER @ ascii '' header (an unparsable value counts as 0)''
           else ascii ''this client sends no '' @ CONFLICT_FORMAT_HEADER @ ascii '' header'') @
          ascii '' and cannot materialize it honestly '' @ em_dash @
          ascii '' upgrade the client (GET /version reports the server'' @ [39] @ ascii ''s protocol)''))"

definition get_root_read :: "bytes \<Rightarrow> bytes \<Rightarrow> bytes option \<Rightarrow> oid \<Rightarrow> cx \<Rightarrow> api_error + bytes option" where
  "get_root_read repo hex header i c =
     (let db = cx_db c in
      if redaction_active db (cx_id c) i then Inl (redacted_in (ascii ''changeset '') hex repo)
      else (case changeset_get db (cx_id c) i of
              None \<Rightarrow> Inr None
            | Some row \<Rightarrow>
                rbind (if take (length MAGIC_V2) (cr_canonical row) = MAGIC_V2 then
                         rbind (map_err (\<lambda>_. api_internal) (changeset_decode (cr_canonical row))) (\<lambda>cs.
                           let needed = conflict_format (cs_conflicts cs); announced = announced_format header in
                           if needed > announced then Inl (skewed hex needed announced (header \<noteq> None)) else Inr ())
                       else Inr ())
                  (\<lambda>_. Inr (cr_root_tree row))))"

definition get_root_route :: "server_env \<Rightarrow> authed \<Rightarrow> bytes \<Rightarrow> bytes \<Rightarrow> bytes option \<Rightarrow> bytes req" where
  "get_root_route env auth repo hex header =
     req_bind (repo_read_gate env auth repo) (\<lambda>_.
     req_bind (req_lift (parse_id hex)) (\<lambda>i.
     req_bind (sv_read_repo env repo (get_root_read repo hex header i)) (\<lambda>root.
       case root of
         None \<Rightarrow> fail (no_changeset env hex repo)
       | Some b \<Rightarrow> req_bind (req_lift (expect32 b)) (\<lambda>b. ret (to_hex b)))))"

section \<open>The log\<close>

record log_row =
  lr_id :: oid
  lr_author :: bytes
  lr_message :: bytes
  lr_timestamp :: i64
  lr_generation :: i64
  lr_principal :: bytes

definition log_row_of :: "changeset_row \<Rightarrow> log_row" where
  "log_row_of r =
     \<lparr>lr_id = cr_id r, lr_author = cr_author r, lr_message = cr_message r, lr_timestamp = cr_timestamp r,
      lr_generation = cr_generation r, lr_principal = cr_principal r\<rparr>"

text \<open>The row of one node, unless it is tombstoned.\<close>

definition log_step :: "'a repo_db_scheme \<Rightarrow> i64 \<Rightarrow> oid \<Rightarrow> log_row list" where
  "log_step db repo i =
     (if redaction_active db repo i then []
      else (case changeset_get db repo i of None \<Rightarrow> [] | Some r \<Rightarrow> [log_row_of r]))"

partial_function (option) log_walk :: "'a repo_db_scheme \<Rightarrow> i64 \<Rightarrow> i64 \<Rightarrow> oid \<Rightarrow> log_row list \<Rightarrow> log_row list option" where
  "log_walk db repo limit i rows =
     (case changeset_graph db repo i of
        None \<Rightarrow> Some rows
      | Some g \<Rightarrow>
          let new = log_step db repo i; rows = rows @ new in
          if new \<noteq> [] \<and> limit \<le> int (length rows) then Some rows
          else (case cg_parents g of [] \<Rightarrow> Some rows | p # _ \<Rightarrow> log_walk db repo limit p rows))"

definition log_chain :: "'a repo_db_scheme \<Rightarrow> i64 \<Rightarrow> oid \<Rightarrow> i64 \<Rightarrow> log_row list option" where
  "log_chain db repo from limit = log_walk db repo limit from []"

datatype log_start = Start_Id oid | Start_After oid | Start_Default

record log_query =
  gq_from :: "bytes option"
  gq_limit :: "bytes option"
  gq_cursor :: "bytes option"
  gq_path :: "bytes option"

text \<open>\<open>after:<id>\<close>\<close>

definition parse_after :: "bytes \<Rightarrow> api_error + oid" where
  "parse_after raw = ok_or (Option.bind (strip_prefix (ascii ''after:'') raw) from_hex) bad_cursor"

definition log_start_of :: "log_query \<Rightarrow> api_error + log_start" where
  "log_start_of q =
     (case gq_cursor q of
        Some raw \<Rightarrow> rbind (parse_after raw) (\<lambda>i. Inr (Start_After i))
      | None \<Rightarrow>
          (case gq_from q of
             Some hex \<Rightarrow> rbind (parse_id hex) (\<lambda>i. Inr (Start_Id i))
           | None \<Rightarrow> Inr Start_Default))"

definition log_from :: "bytes \<Rightarrow> log_start \<Rightarrow> cx \<Rightarrow> api_error + oid option" where
  "log_from repo start c =
     (let db = cx_db c; r = cx_id c in
      case start of
        Start_Id i \<Rightarrow>
          if changeset_graph db r i = None then Inl (api_new NotFound (ascii ''from id is not in this repo''))
          else if redaction_active db r i then Inl (redacted_in (ascii ''changeset '') (to_hex i) repo)
          else Inr (Some i)
      | Start_After i \<Rightarrow>
          (case changeset_graph db r i of
             None \<Rightarrow> Inl (api_new NotFound (ascii ''cursor id is not in this repo''))
           | Some g \<Rightarrow> Inr (case cg_parents g of [] \<Rightarrow> None | p # _ \<Rightarrow> Some p))
      | Start_Default \<Rightarrow>
          (case Option.bind (ref_get db r (ascii ''main'')) rf_target of
             None \<Rightarrow> Inr None
           | Some b \<Rightarrow> rbind (expect32 b) (\<lambda>i. Inr (Some i))))"

definition log_read :: "bytes \<Rightarrow> log_start \<Rightarrow> i64 \<Rightarrow> cx \<Rightarrow> api_error + log_row list" where
  "log_read repo start limit c =
     rbind (log_from repo start c) (\<lambda>from.
       case from of
         None \<Rightarrow> Inr []
       | Some i \<Rightarrow> in_time (map_option Inr (log_chain (cx_db c) (cx_id c) i (limit + 1))))"

record log_entry =
  ln_id :: bytes
  ln_author :: bytes
  ln_message :: bytes
  ln_timestamp :: u64
  ln_generation :: u64
  ln_principal :: bytes

definition log_entry_of :: "log_row \<Rightarrow> log_entry" where
  "log_entry_of r =
     \<lparr>ln_id = to_hex (lr_id r), ln_author = lr_author r, ln_message = lr_message r,
      ln_timestamp = as_u64 (lr_timestamp r), ln_generation = as_u64 (lr_generation r), ln_principal = lr_principal r\<rparr>"

definition log_page :: "i64 \<Rightarrow> log_row list \<Rightarrow> log_entry page" where
  "log_page limit rows =
     (let more = int (length rows) > limit; rows = take (nat limit) rows
      in \<lparr>pg_rows = map log_entry_of rows,
          pg_next = (if more then Some (ascii ''after:'' @ to_hex (lr_id (last rows))) else None), pg_more = more\<rparr>)"

section \<open>The log of a path\<close>

text \<open>\<open>(generation, id)\<close> after the cursor, in the order newest first.\<close>

definition log_after :: "(i64 \<times> oid) option \<Rightarrow> i64 \<times> oid \<Rightarrow> bool" where
  "log_after after k =
     (case after of None \<Rightarrow> True | Some (g, i) \<Rightarrow> fst k < g \<or> fst k = g \<and> i < snd k)"

definition changeset_tombstone :: "'a repo_db_scheme \<Rightarrow> i64 \<Rightarrow> oid \<Rightarrow> bool" where
  "changeset_tombstone db repo i \<longleftrightarrow>
     (case om_get (db_redactions db) (repo, i) of None \<Rightarrow> False | Some t \<Rightarrow> rd_kind t = ascii ''changeset'')"

text \<open>The join with \<open>changesets\<close>, the anti-join with the tombstones, the order and the limit; the first component of a
  touch is the generation that orders the page.\<close>

definition touch_page ::
    "'a repo_db_scheme \<Rightarrow> i64 \<Rightarrow> (i64 \<times> oid) option \<Rightarrow> i64 \<Rightarrow> (i64 \<times> oid) list \<Rightarrow> log_row list" where
  "touch_page db repo after limit touches =
     take (nat limit)
       (List.map_filter (\<lambda>(_, i). map_option log_row_of (changeset_get db repo i))
         (sort_key (\<lambda>(g, i). (- g, i))
           (filter (\<lambda>(g, i). log_after after (g, i) \<and> \<not> changeset_tombstone db repo i \<and> changeset_get db repo i \<noteq> None)
             touches)))"

definition path_history_page ::
    "'a repo_db_scheme \<Rightarrow> i64 \<Rightarrow> bytes \<Rightarrow> (i64 \<times> oid) option \<Rightarrow> i64 \<Rightarrow> log_row list" where
  "path_history_page db repo path after limit =
     touch_page db repo after limit
       (List.map_filter (\<lambda>((r, p, g, i), _). if r = repo \<and> p = path then Some (g, i) else None) (db_path_history db))"

definition path_history_scan ::
    "'a repo_db_scheme \<Rightarrow> i64 \<Rightarrow> bytes \<Rightarrow> (i64 \<times> oid) option \<Rightarrow> i64 \<Rightarrow> log_row list" where
  "path_history_scan db repo path after limit =
     touch_page db repo after limit
       (List.map_filter (\<lambda>((r, i, p), _).
           if r = repo \<and> p = path then map_option (\<lambda>c. (cr_generation c, i)) (changeset_get db repo i) else None)
         (db_file_changes db))"

definition derive_repo_pending :: "'a repo_db_scheme \<Rightarrow> i64 \<Rightarrow> i64 \<Rightarrow> bool" where
  "derive_repo_pending db kind repo \<longleftrightarrow>
     list_ex (\<lambda>r. dr_kind r = kind \<and> dr_repo r = repo \<and> unfinished (dr_state r)) (db_derive db)"

definition derive_backfill_marker_key :: "bytes \<Rightarrow> bytes" where
  "derive_backfill_marker_key name = ascii ''derive_backfill_done:'' @ name"

definition derive_backfill_done_get :: "'a repo_db_scheme \<Rightarrow> bytes \<Rightarrow> bool" where
  "derive_backfill_done_get db name \<longleftrightarrow> om_get (db_meta db) (derive_backfill_marker_key name) \<noteq> None"

definition derive_poison_touching_path :: "'a repo_db_scheme \<Rightarrow> i64 \<Rightarrow> i64 \<Rightarrow> bytes \<Rightarrow> oid list" where
  "derive_poison_touching_path db kind repo path =
     map dr_cs (filter (\<lambda>r. dr_kind r = kind \<and> dr_repo r = repo \<and> dr_state r = Ds_Poison \<and>
                           om_get (db_file_changes db) (repo, dr_cs r, path) \<noteq> None) (db_derive db))"

definition derivation_pending :: "bytes \<Rightarrow> api_error" where
  "derivation_pending what =
     api_retryable True (api_new DerivationPending (what @ ascii '' is still being derived; retry shortly''))"

definition path_log_read :: "bytes \<Rightarrow> (oid \<times> i64) option \<Rightarrow> i64 \<Rightarrow> cx \<Rightarrow> api_error + log_row list \<times> oid list" where
  "path_log_read path cursor limit c =
     (let db = cx_db c; r = cx_id c; after = map_option (\<lambda>(i, g). (g, i)) cursor in
      case derive_kind_id (cat_of c) KIND_PATH_HISTORY of
        Some kind \<Rightarrow>
          let gated = (case derive_kind_name (cat_of c) kind of
                         Some name \<Rightarrow> \<not> derive_backfill_done_get (cat_of c) name \<or> derive_repo_pending db kind r
                       | None \<Rightarrow> True)
          in if gated then Inl (derivation_pending (ascii ''path history''))
             else Inr (path_history_page db r path after (limit + 1), derive_poison_touching_path db kind r path)
      | None \<Rightarrow> Inr (path_history_scan db r path after (limit + 1), []))"

datatype log_answer =
    Chain_Page "log_entry page"
  | Path_Page "log_entry page" bool "bytes list"

definition path_log :: "server_env \<Rightarrow> bytes \<Rightarrow> bytes \<Rightarrow> log_query \<Rightarrow> log_answer req" where
  "path_log env repo path q =
     req_bind (req_lift (parse_limit (gq_limit q))) (\<lambda>limit.
     req_bind (case gq_cursor q of
                 None \<Rightarrow> ret None
               | Some raw \<Rightarrow>
                   req_bind (req_lift (parse_after raw)) (\<lambda>i.
                   req_bind (sv_read_repo env repo (\<lambda>c. Inr (map_option cg_generation (changeset_graph (cx_db c) (cx_id c) i)))) (\<lambda>g.
                   req_bind (req_lift (ok_or g (api_new NotFound (ascii ''cursor id is not in this repo'')))) (\<lambda>g.
                     ret (Some (i, g)))))) (\<lambda>cursor.
     req_bind (sv_read_repo env repo (path_log_read path cursor limit)) (\<lambda>(rows, poisoned).
       ret (Path_Page (log_page limit rows) (poisoned \<noteq> []) (map to_hex poisoned)))))"

definition log_route :: "server_env \<Rightarrow> authed \<Rightarrow> bytes \<Rightarrow> log_query \<Rightarrow> log_answer req" where
  "log_route env auth repo q =
     req_bind (repo_read_gate env auth repo) (\<lambda>_.
       case gq_path q of
         Some path \<Rightarrow> path_log env repo path q
       | None \<Rightarrow>
           req_bind (req_lift (parse_limit (gq_limit q))) (\<lambda>limit.
           req_bind (req_lift (log_start_of q)) (\<lambda>start.
           req_bind (sv_read_repo env repo (log_read repo start limit)) (\<lambda>rows.
             ret (Chain_Page (log_page limit rows))))))"

section \<open>The diff\<close>

type_synonym file_map = "(bytes, oid \<times> bool) omap"

text \<open>The rows still to visit, in the order of the recursion, each with the path of its directory.\<close>

partial_function (option) walk_files :: "repo_db \<Rightarrow> (bytes \<times> entry_row) list \<Rightarrow> file_map \<Rightarrow> (api_error + file_map) option" where
  "walk_files db work out =
     (case work of
        [] \<Rightarrow> Some (Inr out)
      | (prefix, e) # rest \<Rightarrow>
          if length (er_object e) \<noteq> 32 then Some (Inl api_internal)
          else let path = (if prefix = [] then er_name e else prefix @ [47] @ er_name e) in
            if er_kind e = 1 then walk_files db (map (Pair path) (tree_entries_load db (er_object e)) @ rest) out
            else walk_files db rest (om_insert path (er_object e, er_exec e) out))"

definition list_files :: "repo_db \<Rightarrow> oid \<Rightarrow> api_error + file_map" where
  "list_files db root = in_time (walk_files db (map (Pair []) (tree_entries_load db root)) [])"

record diff_entry =
  df_path :: bytes
  df_kind :: bytes
  df_a :: "bytes option"
  df_b :: "bytes option"
  df_redacted :: bool

definition hex_unless :: "bool \<Rightarrow> oid \<Rightarrow> bytes option" where
  "hex_unless hit i = (if hit then None else Some (to_hex i))"

text \<open>A path of the first tree, and a path of the second alone.\<close>

definition diff_left :: "oid set \<Rightarrow> file_map \<Rightarrow> bytes \<times> oid \<times> bool \<Rightarrow> diff_entry list" where
  "diff_left redacted b_files x =
     (let (path, a) = x; a_hit = fst a \<in> redacted in
      case om_get b_files path of
        Some b \<Rightarrow>
          if a = b then []
          else let b_hit = fst b \<in> redacted in
            [\<lparr>df_path = path, df_kind = ascii ''mod'', df_a = hex_unless a_hit (fst a), df_b = hex_unless b_hit (fst b),
              df_redacted = (a_hit \<or> b_hit)\<rparr>]
      | None \<Rightarrow>
          [\<lparr>df_path = path, df_kind = ascii ''del'', df_a = hex_unless a_hit (fst a), df_b = None, df_redacted = a_hit\<rparr>])"

definition diff_right :: "oid set \<Rightarrow> file_map \<Rightarrow> bytes \<times> oid \<times> bool \<Rightarrow> diff_entry list" where
  "diff_right redacted a_files x =
     (let (path, b) = x; hit = fst b \<in> redacted in
      if om_get a_files path \<noteq> None then []
      else [\<lparr>df_path = path, df_kind = ascii ''add'', df_a = None, df_b = hex_unless hit (fst b), df_redacted = hit\<rparr>])"

definition diff_files :: "oid set \<Rightarrow> file_map \<Rightarrow> file_map \<Rightarrow> diff_entry list" where
  "diff_files redacted a_files b_files =
     concat (map (diff_left redacted b_files) a_files) @ concat (map (diff_right redacted a_files) b_files)"

definition root_of :: "cx \<Rightarrow> oid \<Rightarrow> api_error + oid" where
  "root_of c i =
     (case changeset_get (cx_db c) (cx_id c) i of
        None \<Rightarrow> Inl (api_new NotFound (ascii ''changeset is not in this repo''))
      | Some row \<Rightarrow>
          (case cr_root_tree row of
             None \<Rightarrow> Inl (api_new NotFound (ascii ''changeset has no root tree''))
           | Some b \<Rightarrow> expect32 b))"

definition diff_read :: "bytes \<Rightarrow> oid \<Rightarrow> oid \<Rightarrow> cx \<Rightarrow> api_error + diff_entry list" where
  "diff_read repo a b c =
     (let db = cx_db c; r = cx_id c in
      if redaction_active db r a then Inl (redacted_in (ascii ''changeset a='') (to_hex a) repo)
      else if redaction_active db r b then Inl (redacted_in (ascii ''changeset b='') (to_hex b) repo)
      else
        rbind (root_of c a) (\<lambda>a_root.
        rbind (root_of c b) (\<lambda>b_root.
        rbind (list_files db a_root) (\<lambda>a_files.
        rbind (list_files db b_root) (\<lambda>b_files.
          let redacted = set (redactions_active_among db r (map (fst \<circ> snd) a_files @ map (fst \<circ> snd) b_files))
          in Inr (diff_files redacted a_files b_files))))))"

definition diff_route :: "server_env \<Rightarrow> authed \<Rightarrow> bytes \<Rightarrow> bytes \<Rightarrow> bytes \<Rightarrow> diff_entry list req" where
  "diff_route env auth repo a_hex b_hex =
     req_bind (repo_read_gate env auth repo) (\<lambda>_.
     req_bind (req_lift (parse_id a_hex)) (\<lambda>a.
     req_bind (req_lift (parse_id b_hex)) (\<lambda>b.
       sv_read_repo env repo (diff_read repo a b))))"

section \<open>One file\<close>

definition no_such :: "server_env \<Rightarrow> string \<Rightarrow> bytes \<Rightarrow> api_error" where
  "no_such env what path = api_new NotFound (ascii what @ en_debug env path)"

primrec file_lookup ::
    "server_env \<Rightarrow> cx \<Rightarrow> bytes \<Rightarrow> bytes list \<Rightarrow> oid \<Rightarrow> api_error + oid \<times> u64 \<times> bool" where
  "file_lookup env c path [] tree = Inl api_internal"
| "file_lookup env c path (name # rest) tree =
     (case find (\<lambda>e. er_name e = name) (tree_entries_load (cx_db c) tree) of
        None \<Rightarrow> Inl (no_such env ''no such path '' path)
      | Some e \<Rightarrow>
          rbind (expect32 (er_object e)) (\<lambda>object.
            if er_kind e = 0 \<and> rest = [] then
              if redaction_active (cx_db c) (cx_id c) object then
                Inl (api_new ObjectRedacted (ascii ''blob '' @ to_hex object @ ascii '' is redacted in this repo''))
              else Inr (object, er_size e, er_exec e)
            else if er_kind e = 1 \<and> rest \<noteq> [] then file_lookup env c path rest object
            else Inl (no_such env ''no such file '' path)))"

definition file_read ::
    "server_env \<Rightarrow> bytes \<Rightarrow> bytes \<Rightarrow> oid \<Rightarrow> cx \<Rightarrow> api_error + (oid \<times> u64 \<times> bool) option" where
  "file_read env repo path at c =
     (if redaction_active (cx_db c) (cx_id c) at then Inl (redacted_in (ascii ''changeset '') (to_hex at) repo)
      else (case changeset_get (cx_db c) (cx_id c) at of
              None \<Rightarrow> Inl (api_new NotFound (ascii ''changeset is not in this repo''))
            | Some row \<Rightarrow>
                (case cr_root_tree row of
                   None \<Rightarrow> Inr None
                 | Some b \<Rightarrow>
                     rbind (expect32 b) (\<lambda>root.
                     rbind (file_lookup env c path (split_on 47 path) root) (\<lambda>f. Inr (Some f))))))"

definition file_route :: "server_env \<Rightarrow> authed \<Rightarrow> bytes \<Rightarrow> bytes \<Rightarrow> bytes \<Rightarrow> (bytes \<times> u64 \<times> bool) req" where
  "file_route env auth repo at_hex path =
     req_bind (repo_read_gate env auth repo) (\<lambda>_.
     req_bind (req_lift (parse_id at_hex)) (\<lambda>at.
     req_bind (sv_read_repo env repo (file_read env repo path at)) (\<lambda>found.
       case found of
         Some (blob, sz, exec) \<Rightarrow> ret (to_hex blob, sz, exec)
       | None \<Rightarrow> fail (no_such env ''no such file '' path))))"

end
