(* ===== verification/Object_Routes.thy ===== *)
theory Object_Routes
  imports Read_Routes Tree_Merge
begin

text \<open>
  The routes of blobs (\<open>crates/naatre-server/src/routes/objects.rs\<close>) and of cache tickets
  (\<open>crates/naatre-server/src/routes/tickets.rs\<close>).

  The blob store is the trait \<open>BlobStore\<close> (\<open>crates/naatre-store/src/blob.rs\<close>): its state \<open>'s\<close> and its methods are
  parameters. Between the accesses of a request, other requests and the collector change the store as they like
  (\<open>be_others\<close>). A request on the server alone is one on both (\<open>on_server\<close>).
\<close>

section \<open>Requests that use the store\<close>

datatype store_error = Blob_Missing bytes | Store_Failed

record 's blob_env =
  be_has :: "'s \<Rightarrow> oid list \<Rightarrow> store_error + bool list"
  be_get :: "'s \<Rightarrow> oid \<Rightarrow> store_error + bytes"
  be_put :: "'s \<Rightarrow> bytes \<Rightarrow> (store_error + oid \<times> u64) \<times> 's"
  be_others :: "nat \<Rightarrow> 's \<Rightarrow> 's"
  be_blake3 :: "bytes \<Rightarrow> oid"
  be_b64 :: "bytes \<Rightarrow> bytes"
  be_unb64 :: "bytes \<Rightarrow> bytes option"

type_synonym ('a, 's) breq = "server \<times> 's \<Rightarrow> (api_error + 'a) \<times> server \<times> 's"

definition bret :: "'a \<Rightarrow> ('a, 's) breq" where "bret a x = (Inr a, x)"
definition bfail :: "api_error \<Rightarrow> ('a, 's) breq" where "bfail e x = (Inl e, x)"

definition bbind :: "('a, 's) breq \<Rightarrow> ('a \<Rightarrow> ('b, 's) breq) \<Rightarrow> ('b, 's) breq" where
  "bbind m f x = (case m x of (Inl e, x) \<Rightarrow> (Inl e, x) | (Inr a, x) \<Rightarrow> f a x)"

definition on_server :: "'a req \<Rightarrow> ('a, 's) breq" where
  "on_server m x = (case x of (w, s) \<Rightarrow> case m w of (r, w) \<Rightarrow> (r, w, s))"

definition blift :: "api_error + 'a \<Rightarrow> ('a, 's) breq" where "blift r x = (r, x)"

text \<open>\<open>state.blocking\<close>: a task on the store.\<close>

definition blocking :: "server_env \<Rightarrow> 's blob_env \<Rightarrow> ('s \<Rightarrow> (api_error + 'a) \<times> 's) \<Rightarrow> ('a, 's) breq" where
  "blocking env be f x =
     (case x of (w, s) \<Rightarrow>
        let s = be_others be (sv_tick w) s; w = arrive_req env w in
        case f s of (r, s) \<Rightarrow> (r, w, s))"

text \<open>A write that asks the store inside its closure.\<close>

definition write_asking :: "server_env \<Rightarrow> 's blob_env \<Rightarrow> bytes \<Rightarrow> ('s \<Rightarrow> cx \<Rightarrow> api_error + 'a \<times> cx) \<Rightarrow> ('a, 's) breq" where
  "write_asking env be repo f x =
     (case x of (w, s) \<Rightarrow>
        let s = be_others be (sv_tick w) s in
        case sv_write_repo env repo (f s) w of (r, w) \<Rightarrow> (r, w, s))"

section \<open>Ids\<close>

definition BATCH_CAP :: nat where "BATCH_CAP = 256"

definition parse_id_batch :: "bytes list \<Rightarrow> api_error + oid list" where
  "parse_id_batch ids =
     (if BATCH_CAP < length ids then Inl (validation ''id batch is capped at 256 ids'') else rmap parse_id ids)"

definition verify_addressed :: "'s blob_env \<Rightarrow> oid \<Rightarrow> bytes \<Rightarrow> api_error + unit" where
  "verify_addressed be i payload =
     (if object_id (be_blake3 be) Kind_Blob payload \<noteq> i
      then Inl (malformed ''mis-addressed: payload does not hash to the given id'') else Inr ())"

definition too_large :: "nat \<Rightarrow> api_error" where
  "too_large got =
     api_new TooLarge (ascii ''blob exceeds the '' @ dec_str BLOB_LIMIT @ ascii '' byte cap (got '' @ dec_str got @ ascii '' bytes)'')"

section \<open>Presence\<close>

text \<open>The answers of the store are for the ids that are not tombstoned, in order.\<close>

fun sort_present :: "oid set \<Rightarrow> oid list \<Rightarrow> bool list \<Rightarrow> bytes list \<times> bytes list" where
  "sort_present dead [] has = ([], [])"
| "sort_present dead (i # ids) has =
     (if i \<in> dead then apsnd ((#) (to_hex i)) (sort_present dead ids has)
      else (case has of
              True # has \<Rightarrow> sort_present dead ids has
            | False # has \<Rightarrow> apfst ((#) (to_hex i)) (sort_present dead ids has)
            | [] \<Rightarrow> apfst ((#) (to_hex i)) (sort_present dead ids [])))"

definition present_route :: "server_env \<Rightarrow> 's blob_env \<Rightarrow> authed \<Rightarrow> bytes \<Rightarrow> bytes list \<Rightarrow> (bytes list \<times> bytes list, 's) breq" where
  "present_route env be auth repo hexes =
     bbind (on_server (repo_read_gate env auth repo)) (\<lambda>_.
     bbind (blift (parse_id_batch hexes)) (\<lambda>ids.
     bbind (on_server (sv_read_repo env repo (\<lambda>c. Inr (redactions_active_among (cx_db c) (cx_id c) ids)))) (\<lambda>dead.
       blocking env be (\<lambda>s.
         (rbind (map_err (\<lambda>_. api_internal) (be_has be s (filter (\<lambda>i. i \<notin> set dead) ids))) (\<lambda>has.
            Inr (sort_present (set dead) ids has)), s)))))"

section \<open>Uploads\<close>

definition object_redacted :: "server_env \<Rightarrow> bytes \<Rightarrow> bytes \<Rightarrow> api_error" where
  "object_redacted env hex repo =
     api_new ObjectRedacted (ascii ''object '' @ hex @ ascii '' is redacted in '' @ en_debug env repo @ ascii ''; re-upload refused'')"

definition on_catalog_of :: "(repo_db \<Rightarrow> 'a \<times> repo_db) \<Rightarrow> cx \<Rightarrow> 'a \<times> cx" where
  "on_catalog_of f c =
     (if cx_split c then (case f (cx_cat c) of (a, db) \<Rightarrow> (a, c\<lparr>cx_cat := db\<rparr>))
      else (case f (cx_db c) of (a, db) \<Rightarrow> (a, c\<lparr>cx_db := db\<rparr>)))"

definition put_and_size :: "'s blob_env \<Rightarrow> bytes \<Rightarrow> 's \<Rightarrow> (api_error + i64) \<times> 's" where
  "put_and_size be payload s =
     (case be_put be s payload of
        (Inl _, s) \<Rightarrow> (Inl api_internal, s)
      | (Inr (_, csize), s) \<Rightarrow> (Inr (as_i64 csize), s))"

definition blob_swept :: api_error where
  "blob_swept = api_retryable True
     (api_new BlobSwept (ascii ''the blob'' @ [39] @ ascii ''s bytes were removed by gc mid-upload; re-upload it''))"

text \<open>The closure of the record step. A refusal that follows a committed statement is a value, not an error of the
  write, so that the statement stands.\<close>

definition record_write ::
    "server_env \<Rightarrow> 's blob_env \<Rightarrow> bytes \<Rightarrow> oid \<Rightarrow> i64 \<Rightarrow> i64 \<Rightarrow> i64 \<Rightarrow> 's \<Rightarrow> cx \<Rightarrow> api_error + (api_error + bool) \<times> cx" where
  "record_write env be repo i sz csz now s c =
     (if redaction_active (cx_db c) (cx_id c) i then
        Inr (apfst (\<lambda>_. Inl (object_redacted env (to_hex i) repo))
               (on_catalog_of (gc_candidates_upsert Gc_Blob [i] now) c))
      else rbind (map_err (\<lambda>_. api_internal) (be_has be s [i])) (\<lambda>has.
        if has = [] then Inl api_internal
        else if \<not> hd has then Inl blob_swept
        else Inr (apfst Inr (on_catalog_of (object_row_upsert i sz csz now) c))))"

definition record_object ::
    "server_env \<Rightarrow> 's blob_env \<Rightarrow> bytes \<Rightarrow> oid \<Rightarrow> i64 \<Rightarrow> i64 \<Rightarrow> (bool, 's) breq" where
  "record_object env be repo i sz csz =
     bbind (on_server (now_ns env)) (\<lambda>now.
     bbind (write_asking env be repo (record_write env be repo i sz csz (as_i64 now))) blift)"

definition put_raw_route ::
    "server_env \<Rightarrow> 's blob_env \<Rightarrow> authed \<Rightarrow> bytes \<Rightarrow> bytes \<Rightarrow> bytes \<Rightarrow> (nat \<times> bytes, 's) breq" where
  "put_raw_route env be auth repo hex payload =
     bbind (on_server (repo_write_gate env auth repo)) (\<lambda>_.
     bbind (blift (parse_id hex)) (\<lambda>i.
     bbind (blift (verify_addressed be i payload)) (\<lambda>_.
     bbind (blift (if BLOB_LIMIT < length payload then Inl (too_large (length payload)) else Inr ())) (\<lambda>_.
     bbind (on_server (sv_read_repo env repo (\<lambda>c. Inr (redaction_active (cx_db c) (cx_id c) i)))) (\<lambda>redacted.
     bbind (blift (if redacted then Inl (object_redacted env hex repo) else Inr ())) (\<lambda>_.
     bbind (blocking env be (put_and_size be payload)) (\<lambda>csz.
     bbind (record_object env be repo i (int (length payload)) csz) (\<lambda>existed.
       bret (if existed then 200 else 201, to_hex i)))))))))"

section \<open>Batch uploads\<close>

text \<open>One entry of the body: its id and its payload in base64.\<close>

definition decode_entry :: "'s blob_env \<Rightarrow> bytes \<times> bytes \<Rightarrow> bytes + oid \<times> bytes" where
  "decode_entry be e =
     rbind (ok_or (from_hex (fst e)) (ascii ''malformed'')) (\<lambda>i.
     rbind (ok_or (be_unb64 be (snd e)) (ascii ''malformed'')) (\<lambda>payload.
     rbind (map_err (\<lambda>_. ascii ''malformed'') (verify_addressed be i payload)) (\<lambda>_.
       if BLOB_LIMIT < length payload then Inl (ascii ''too_large'') else Inr (i, payload))))"

fun decode_entries :: "'s blob_env \<Rightarrow> (bytes \<times> bytes) list \<Rightarrow> (oid \<times> bytes) list \<times> (bytes \<times> bytes) list" where
  "decode_entries be [] = ([], [])"
| "decode_entries be (e # es) =
     (case decode_entry be e of
        Inr p \<Rightarrow> apfst ((#) p) (decode_entries be es)
      | Inl code \<Rightarrow> apsnd ((#) (fst e, code)) (decode_entries be es))"

fun put_all :: "'s blob_env \<Rightarrow> (oid \<times> bytes) list \<Rightarrow> 's \<Rightarrow> (api_error + (oid \<times> i64 \<times> i64) list) \<times> 's" where
  "put_all be [] s = (Inr [], s)"
| "put_all be ((i, payload) # es) s =
     (case put_and_size be payload s of
        (Inl e, s) \<Rightarrow> (Inl e, s)
      | (Inr csz, s) \<Rightarrow> apfst (\<lambda>r. rbind r (\<lambda>rows. Inr ((i, int (length payload), csz) # rows))) (put_all be es s))"

definition upsert_rows :: "i64 \<Rightarrow> (oid \<times> i64 \<times> i64) list \<Rightarrow> repo_db \<Rightarrow> unit \<times> repo_db" where
  "upsert_rows now rows db = ((), fold (\<lambda>(i, sz, csz) db. snd (object_row_upsert i sz csz now db)) rows db)"

definition blobs_swept :: "oid list \<Rightarrow> api_error" where
  "blobs_swept swept =
     with_details (JObj [(ascii ''missing_blobs'', JArr (map (JStr \<circ> to_hex) swept))])
       (api_retryable True (api_new BlobSwept (ascii ''blob bytes were removed by gc mid-upload; re-upload them'')))"

fun join_hex :: "oid list \<Rightarrow> bytes" where
  "join_hex [] = []"
| "join_hex [i] = to_hex i"
| "join_hex (i # ids) = to_hex i @ ascii '', '' @ join_hex ids"

definition record_batch_write ::
    "server_env \<Rightarrow> 's blob_env \<Rightarrow> bytes \<Rightarrow> (oid \<times> i64 \<times> i64) list \<Rightarrow> i64 \<Rightarrow> 's \<Rightarrow> cx \<Rightarrow> api_error + (api_error + unit) \<times> cx" where
  "record_batch_write env be repo rows now s c =
     (let ids = map fst rows; redacted = remdups (redactions_active_among (cx_db c) (cx_id c) ids) in
      if redacted \<noteq> [] then
        Inr (apfst (\<lambda>_. Inl (object_redacted env (join_hex redacted) repo))
               (on_catalog_of (gc_candidates_upsert Gc_Blob ids now) c))
      else rbind (map_err (\<lambda>_. api_internal) (be_has be s ids)) (\<lambda>present.
        let swept = map fst (filter (\<lambda>(_, ok). \<not> ok) (zip ids present)) in
        if swept \<noteq> [] then Inl (blobs_swept swept)
        else Inr (apfst Inr (on_catalog_of (upsert_rows now rows) c))))"

definition record_batch :: "server_env \<Rightarrow> 's blob_env \<Rightarrow> bytes \<Rightarrow> (oid \<times> i64 \<times> i64) list \<Rightarrow> (unit, 's) breq" where
  "record_batch env be repo rows =
     bbind (on_server (now_ns env)) (\<lambda>now.
     bbind (write_asking env be repo (record_batch_write env be repo rows (as_i64 now))) blift)"

text \<open>The ids stored and the entries rejected with their codes; the order of the redacted among the latter is that of
  a hash set.\<close>

definition create_batch_route ::
    "server_env \<Rightarrow> 's blob_env \<Rightarrow> authed \<Rightarrow> bytes \<Rightarrow> (bytes \<times> bytes) list \<Rightarrow> (bytes list \<times> (bytes \<times> bytes) list, 's) breq" where
  "create_batch_route env be auth repo entries =
     bbind (on_server (repo_write_gate env auth repo)) (\<lambda>_.
     bbind (blift (if BATCH_CAP < length entries then Inl (validation ''objects batch is capped at 256 entries'') else Inr ())) (\<lambda>_.
       let (verified, rejected) = decode_entries be entries in
     bbind (on_server (sv_read_repo env repo (\<lambda>c.
         Inr (remdups (redactions_active_among (cx_db c) (cx_id c) (map fst verified)))))) (\<lambda>dead.
       let verified = filter (\<lambda>(i, _). i \<notin> set dead) verified;
           rejected = rejected @ map (\<lambda>i. (to_hex i, ascii ''redacted'')) dead in
     bbind (blocking env be (put_all be verified)) (\<lambda>rows.
     bbind (if rows = [] then bret () else record_batch env be repo rows) (\<lambda>_.
       bret (map (to_hex \<circ> fst) verified, rejected))))))"

section \<open>Downloads\<close>

definition fetch_member :: "'s blob_env \<Rightarrow> 's \<Rightarrow> oid \<Rightarrow> bytes \<times> bytes option" where
  "fetch_member be s i =
     (case be_get be s i of
        Inr b \<Rightarrow> (to_hex i, Some b)
      | Inl (Blob_Missing hex) \<Rightarrow> (hex, None)
      | Inl Store_Failed \<Rightarrow> (to_hex i, None))"

record batch_out =
  bo_objects :: "(bytes \<times> bytes) list"
  bo_missing :: "bytes list"
  bo_redacted :: "bytes list"

text \<open>The answers of the store are for the members that are not redacted, in order.\<close>

fun reassemble :: "'s blob_env \<Rightarrow> oid set \<Rightarrow> (oid \<times> bool) list \<Rightarrow> (bytes \<times> bytes option) list \<Rightarrow> batch_out \<Rightarrow> batch_out" where
  "reassemble be redacted [] fetched out = out"
| "reassemble be redacted ((i, member) # rest) fetched out =
     (if i \<in> redacted then
        reassemble be redacted rest fetched
          (if to_hex i \<in> set (bo_redacted out) then out else out\<lparr>bo_redacted := bo_redacted out @ [to_hex i]\<rparr>)
      else if \<not> member then reassemble be redacted rest fetched (out\<lparr>bo_missing := bo_missing out @ [to_hex i]\<rparr>)
      else (case fetched of
              (hex, Some b) # fetched \<Rightarrow>
                reassemble be redacted rest fetched (out\<lparr>bo_objects := bo_objects out @ [(hex, be_b64 be b)]\<rparr>)
            | _ # fetched \<Rightarrow> reassemble be redacted rest fetched (out\<lparr>bo_missing := bo_missing out @ [to_hex i]\<rparr>)
            | [] \<Rightarrow> reassemble be redacted rest [] (out\<lparr>bo_missing := bo_missing out @ [to_hex i]\<rparr>)))"

definition get_batch_route :: "server_env \<Rightarrow> 's blob_env \<Rightarrow> authed \<Rightarrow> bytes \<Rightarrow> bytes list \<Rightarrow> (batch_out, 's) breq" where
  "get_batch_route env be auth repo hexes =
     bbind (on_server (repo_read_gate env auth repo)) (\<lambda>_.
     bbind (blift (parse_id_batch hexes)) (\<lambda>ids.
     bbind (on_server (sv_read_repo env repo (\<lambda>c.
         Inr (remdups (redactions_active_among (cx_db c) (cx_id c) ids), map (repo_blob_check (cx_db c) (cx_id c)) ids))))
       (\<lambda>(redacted, member).
     bbind (blocking env be (\<lambda>s.
         (Inr (map (fetch_member be s) (map fst (filter (\<lambda>(i, m). m \<and> i \<notin> set redacted) (zip ids member)))), s)))
       (\<lambda>fetched.
       bret (reassemble be (set redacted) (zip ids member) fetched
               \<lparr>bo_objects = [], bo_missing = [], bo_redacted = map to_hex redacted\<rparr>)))))"

text \<open>The gate of the raw fetch: a cache ticket is bound to its repository and root tree, a bearer takes the read gate.\<close>

definition fetch_gate :: "server_env \<Rightarrow> authed \<Rightarrow> cache_ticket option \<Rightarrow> bytes \<Rightarrow> unit req" where
  "fetch_gate env auth ticket repo =
     (case ticket of
        Some t \<Rightarrow>
          if ck_repo t = repo then
            req_bind (repo_id_or_404 env repo) (\<lambda>_.
            req_bind (sv_read_repo env repo (\<lambda>c. Inr (repo_tree_member (cx_db c) (cx_id c) (ck_root t)))) (\<lambda>known.
              guard known (api_new ObjectNotFound
                (ascii ''the ticket'' @ [39] @ ascii ''s root tree is not a tree of this repo''))))
          else fail (no_repo env repo)
      | None \<Rightarrow> repo_read_gate env auth repo)"

definition fetch_blob :: "'s blob_env \<Rightarrow> oid \<Rightarrow> api_error \<Rightarrow> 's \<Rightarrow> (api_error + bytes) \<times> 's" where
  "fetch_blob be i missing s =
     (case be_get be s i of
        Inr b \<Rightarrow> (Inr b, s)
      | Inl (Blob_Missing _) \<Rightarrow> (Inl missing, s)
      | Inl Store_Failed \<Rightarrow> (Inl api_internal, s))"

definition get_raw_route ::
    "server_env \<Rightarrow> 's blob_env \<Rightarrow> authed \<Rightarrow> cache_ticket option \<Rightarrow> bytes \<Rightarrow> bytes \<Rightarrow> (bytes, 's) breq" where
  "get_raw_route env be auth ticket repo hex =
     bbind (blift (parse_id hex)) (\<lambda>i.
     bbind (on_server (fetch_gate env auth ticket repo)) (\<lambda>_.
     bbind (on_server (sv_read_repo env repo (\<lambda>c.
         Inr (redaction_active (cx_db c) (cx_id c) i, repo_blob_check (cx_db c) (cx_id c) i)))) (\<lambda>(redacted, member).
     bbind (blift (if redacted then Inl (api_new ObjectRedacted
                     (ascii ''object '' @ hex @ ascii '' is redacted in '' @ en_debug env repo)) else Inr ())) (\<lambda>_.
     bbind (blift (if member then Inr () else Inl (api_new ObjectNotFound
                     (ascii ''object '' @ hex @ ascii '' is not a member of '' @ en_debug env repo)))) (\<lambda>_.
       blocking env be (fetch_blob be i (api_new ObjectNotFound (ascii ''object '' @ hex @ ascii '' is missing''))))))))"

section \<open>Cache tickets\<close>

record mint_body =
  mb_root :: bytes
  mb_ttl :: "u64 option"

record ticket_created =
  td_ticket :: bytes
  td_key_id :: bytes
  td_expires :: u64
  td_principal :: bytes
  td_repo :: bytes
  td_root :: bytes
  td_lifetime :: u64

definition u64_saturating_mul :: "u64 \<Rightarrow> u64 \<Rightarrow> u64" where
  "u64_saturating_mul a b = (if unat a * unat b < 2 ^ 64 then a * b else - 1)"

definition mint_claims :: "authed \<Rightarrow> bytes \<Rightarrow> oid \<Rightarrow> u64 \<Rightarrow> u64 \<Rightarrow> bytes \<Rightarrow> ticket_claims" where
  "mint_claims auth repo root ttl now tid =
     \<lparr>tc_v = 1, tc_tid = to_hex tid, tc_principal = ap_principal auth, tc_repo = repo, tc_root_tree = to_hex root,
      tc_iat = now, tc_exp = u64_saturating_add now (u64_saturating_mul ttl SEC_NS)\<rparr>"

definition mint_route :: "server_env \<Rightarrow> 'k ticket_env \<Rightarrow> authed \<Rightarrow> bytes \<Rightarrow> mint_body \<Rightarrow> ticket_created req" where
  "mint_route env te auth repo body =
     req_bind (require_role auth Reader) (\<lambda>_.
     req_bind (repo_read_gate env auth repo) (\<lambda>_.
     req_bind (req_lift (ok_or (from_hex (mb_root body)) (malformed ''root_tree must be 64 lowercase hex characters''))) (\<lambda>root.
       let ttl = (case mb_ttl body of None \<Rightarrow> TICKET_DEFAULT_LIFETIME_SECS | Some t \<Rightarrow> t) in
     req_bind (guard (ttl \<le> TICKET_MAX_LIFETIME_SECS)
         (validation ''ttl_secs above the 900s cap (tickets never outlive 15 minutes)'')) (\<lambda>_.
     req_bind (sv_read_repo env repo (\<lambda>c. Inr (repo_tree_member (cx_db c) (cx_id c) root))) (\<lambda>is_tree.
     req_bind (guard is_tree
         (api_new ObjectNotFound (ascii ''tree '' @ to_hex root @ ascii '' is not a tree of '' @ en_debug env repo))) (\<lambda>_.
     req_bind (\<lambda>w. (map_err (\<lambda>_. api_new CacheDisabled
           (ascii ''ticket minting is not configured on this origin (run `naatre cache-key init`)''))
         (load_signing_key (te_crypto te) (te_signing te (sv_tick w))), w)) (\<lambda>k.
     req_bind (now_ns env) (\<lambda>now.
     req_bind (random_bytes env 16) (\<lambda>tid.
       let claims = mint_claims auth repo root ttl now tid in
       ret \<lparr>td_ticket = mint_ticket (te_crypto te) claims k, td_key_id = key_id (te_crypto te) (ct_public (te_crypto te) k),
            td_expires = tc_exp claims, td_principal = tc_principal claims, td_repo = tc_repo claims,
            td_root = tc_root_tree claims, td_lifetime = ttl\<rparr>)))))))))"

definition require_ticket :: "cache_ticket option \<Rightarrow> cache_ticket req" where
  "require_ticket t =
     req_lift (ok_or t (api_new Forbidden (ascii ''this surface takes a cache ticket (NaatreTicket), not a bearer token'')))"

definition membership_route :: "server_env \<Rightarrow> cache_ticket option \<Rightarrow> bytes \<Rightarrow> bytes \<Rightarrow> (nat \<times> bytes list) req" where
  "membership_route env ticket repo tree_hex =
     req_bind (require_ticket ticket) (\<lambda>t.
     req_bind (guard (ck_repo t = repo) (no_repo env repo)) (\<lambda>_.
     req_bind (req_lift (ok_or (from_hex tree_hex) (malformed ''tree must be 64 lowercase hex characters''))) (\<lambda>tree.
     req_bind (guard (tree = ck_root t)
         (api_new ObjectNotFound (ascii ''the requested tree is not this ticket'' @ [39] @ ascii ''s root tree''))) (\<lambda>_.
       sv_read_repo env repo (\<lambda>c.
         Inr (tombstone_epoch (cx_db c) (cx_id c), map to_hex (cache_membership (cx_db c) (cx_id c) tree)))))))"

definition epoch_route :: "server_env \<Rightarrow> cache_ticket option \<Rightarrow> bytes \<Rightarrow> nat req" where
  "epoch_route env ticket repo =
     req_bind (require_ticket ticket) (\<lambda>t.
     req_bind (guard (ck_repo t = repo) (no_repo env repo)) (\<lambda>_.
       sv_read_repo env repo (\<lambda>c. Inr (tombstone_epoch (cx_db c) (cx_id c)))))"

end
