(* ===== verification/Create_Route.thy ===== *)
theory Create_Route
  imports Object_Routes Authz
begin

text \<open>
  Creating a changeset (\<open>crates/naatre-server/src/routes/changesets.rs\<close>, \<open>create\<close>): the checks of the request in the
  order of the code, the canonical frame and its id, and the write, which applies the delta to the parent's tree.

  \<open>changeset_insert\<close> commits before the derivation queue is told, so an error of the latter leaves the changeset; what
  such an interrupted enqueueing wrote itself is not modelled.
\<close>

section \<open>The request\<close>

record change_body =
  cy_path :: bytes
  cy_op :: op
  cy_blob :: "bytes option"
  cy_size :: "u64 option"
  cy_exec :: "bool option"

record create_body =
  cb_parents :: "bytes list"
  cb_author :: bytes
  cb_message :: bytes
  cb_timestamp :: "u64 option"
  cb_changes :: "change_body list"

record changeset_created =
  cc_id :: bytes
  cc_root :: bytes
  cc_generation :: u64

text \<open>What the server's libraries and its registry supply.\<close>

record create_env =
  ke_nfc :: "bytes \<Rightarrow> bytes"
  ke_lower :: "bytes \<Rightarrow> bytes"
  ke_kinds :: "unit registered_kind list"
  ke_clock :: "oid \<Rightarrow> u64"
  ke_walk_deadline :: u64

definition op_str :: "op \<Rightarrow> bytes" where
  "op_str x = (case x of Add \<Rightarrow> ascii ''add'' | Mod \<Rightarrow> ascii ''mod'' | Del \<Rightarrow> ascii ''del'')"

definition out_of_scope :: "bytes \<Rightarrow> api_error" where
  "out_of_scope path =
     with_details (JObj [(ascii ''path'', JStr path)]) (api_new Forbidden (ascii ''path is outside this token'' @ [39] @ ascii ''s scope''))"

definition check_create_scope :: "bytes option \<Rightarrow> change_body list \<Rightarrow> api_error + unit" where
  "check_create_scope scope changes =
     (case find (\<lambda>p. \<not> scope_allows scope p) (map cy_path changes) of
        Some offender \<Rightarrow> Inl (out_of_scope offender)
      | None \<Rightarrow> Inr ())"

definition parse_change :: "server_env \<Rightarrow> change_body \<Rightarrow> api_error + file_change" where
  "parse_change env c =
     (if cy_op c = Del then
        if cy_blob c \<noteq> None \<or> cy_size c \<noteq> None \<or> cy_exec c \<noteq> None then
          Inl (api_new Validation (ascii ''del of '' @ en_debug env (cy_path c) @ ascii '' must not carry blob/size/exec''))
        else Inr \<lparr>fc_path = cy_path c, fc_op = Del, fc_blob = None, fc_size = None, fc_exec = None\<rparr>
      else (case (cy_blob c, cy_size c, cy_exec c) of
              (Some blob, Some sz, Some exec) \<Rightarrow>
                rbind (parse_id blob) (\<lambda>blob.
                  Inr \<lparr>fc_path = cy_path c, fc_op = cy_op c, fc_blob = Some blob, fc_size = Some sz, fc_exec = Some exec\<rparr>)
            | _ \<Rightarrow>
                Inl (api_new Validation
                  (op_str (cy_op c) @ ascii '' of '' @ en_debug env (cy_path c) @ ascii '' requires blob, size, and exec''))))"

section \<open>Error mapping\<close>

definition path_error_text :: "server_env \<Rightarrow> path_error \<Rightarrow> bytes" where
  "path_error_text env e =
     (case e of
        Empty \<Rightarrow> ascii ''path is empty''
      | Absolute \<Rightarrow> ascii ''path is absolute (leading '' @ [39, 47, 39] @ ascii '')''
      | Backslash \<Rightarrow> ascii ''path contains a backslash''
      | NulByte \<Rightarrow> ascii ''path contains a NUL byte''
      | ControlChar i \<Rightarrow> ascii ''path contains a control (Cc) or format (Cf) character at byte index '' @ dec_str i
      | NotNormalized \<Rightarrow> ascii ''path is not in NFC normalization form''
      | ComponentInvalid i \<Rightarrow> ascii ''component '' @ dec_str i @ ascii '' is '' @ [34, 46, 34] @ ascii '' or '' @ [34, 46, 46, 34]
      | ComponentTooLong i n \<Rightarrow> ascii ''component '' @ dec_str i @ ascii '' is '' @ dec_str n @ ascii '' bytes long (max 255)''
      | EmptyComponent i \<Rightarrow> ascii ''component '' @ dec_str i @ ascii '' is empty ('' @ [34, 47, 47, 34] @ ascii '')''
      | TooManyComponents n \<Rightarrow> ascii ''path has '' @ dec_str n @ ascii '' components (max 256)''
      | TooLong n \<Rightarrow> ascii ''path is '' @ dec_str n @ ascii '' bytes long (max 4096)''
      | Reserved p \<Rightarrow> ascii ''first component is reserved: '' @ p
      | CaseFoldDuplicate a b \<Rightarrow>
          ascii ''paths '' @ en_debug env a @ ascii '' and '' @ en_debug env b @
          ascii '' share a directory and are equal under case folding''
      | ComponentSlash \<Rightarrow> ascii ''component contains '' @ [39, 47, 39])"

definition text_char_error :: "string \<Rightarrow> nat \<Rightarrow> api_error" where
  "text_char_error who i =
     api_new Validation
       (ascii who @ ascii '' contains a forbidden control/format character (Cc or Cf) at byte index '' @ dec_str i)"

definition map_core :: "server_env \<Rightarrow> core_error \<Rightarrow> api_error" where
  "map_core env e =
     (case e of
        PathErr NotNormalized \<Rightarrow> api_new PathNotNormalized (ascii ''path is not in NFC normalization form'')
      | PathErr pe \<Rightarrow> api_new Validation (path_error_text env pe)
      | EncodeEmptyChangeset \<Rightarrow> api_new EmptyChangeset (ascii ''changeset has no entries'')
      | AuthorChar i \<Rightarrow> text_char_error ''author'' i
      | MessageChar i \<Rightarrow> text_char_error ''message'' i
      | EncodeTooManyEntries \<Rightarrow> validation ''encode: more than 100000 entries''
      | EncodeTooManyParents \<Rightarrow> validation ''encode: more than 2 parents''
      | _ \<Rightarrow> api_internal)"

definition map_tree_derive :: "derive_error \<Rightarrow> api_error" where
  "map_tree_derive e =
     (case e of
        Derive_Core EncodeTooLarge \<Rightarrow> api_new TooLarge (ascii ''derived tree exceeds the 16 MiB canonical cap'')
      | _ \<Rightarrow> api_internal)"

definition map_apply :: "apply_error \<Rightarrow> api_error" where
  "map_apply e =
     (case e of
        TooDeep p \<Rightarrow> api_new Validation (p @ ascii '': exceeds the 256-component path cap'')
      | FileInPath p \<Rightarrow> api_new Duality (p @ ascii '': an intermediate component is a file in the parent tree'')
      | ModNotFile p \<Rightarrow> api_new Duality (p @ ascii '': mod target is not a file in the parent tree'')
      | DelNotFile p \<Rightarrow> api_new Duality (p @ ascii '': del target is not a file in the parent tree''))"

section \<open>The checks before the write\<close>

text \<open>The metas of the parents, or the error that names those that are missing.\<close>

definition parent_metas :: "oid list \<Rightarrow> cs_graph option list \<Rightarrow> api_error + (i64 \<times> bytes option) list" where
  "parent_metas parents graphs =
     (let missing = map (to_hex \<circ> fst) (filter (\<lambda>(_, g). g = None) (zip parents graphs)) in
      if missing \<noteq> [] then
        Inl (with_details (JObj [(ascii ''missing_parents'', JArr (map JStr missing))])
               (api_new UnknownParent (ascii ''parent is not a changeset of this repo'')))
      else Inr (List.map_filter (map_option (\<lambda>g. (cg_generation g, cg_root_tree g))) graphs))"

fun duplicate_path :: "bytes list \<Rightarrow> bytes set \<Rightarrow> bytes option" where
  "duplicate_path [] seen = None"
| "duplicate_path (p # ps) seen = (if p \<in> seen then Some p else duplicate_path ps (insert p seen))"

definition check_duplicates :: "server_env \<Rightarrow> file_change list \<Rightarrow> api_error + unit" where
  "check_duplicates env changes =
     (case duplicate_path (map fc_path changes) {} of
        Some p \<Rightarrow> Inl (api_new DuplicatePath (ascii ''path '' @ en_debug env p @ ascii '' appears twice in the request''))
      | None \<Rightarrow> Inr ())"

definition unsorted_changes :: api_error where
  "unsorted_changes =
     api_new UnsortedChanges (ascii ''changes are not strictly sorted by path bytes; sort them client-side and re-encode '' @
       em_dash @ ascii '' the id covers the order you send'')"

text \<open>The checks of the whole changeset, and its canonical bytes.\<close>

definition canonical_of :: "server_env \<Rightarrow> create_env \<Rightarrow> changeset \<Rightarrow> api_error + bytes" where
  "canonical_of env ke cs =
     rbind (check_duplicates env (cs_changes cs)) (\<lambda>_.
     rbind (map_err (map_core env) (changeset_validate (ke_nfc ke) (ke_lower ke) cs)) (\<lambda>_.
       if \<not> successively (<) (map fc_path (cs_changes cs)) then Inl unsorted_changes
       else map_err (\<lambda>e. if e = EncodeTooLarge then api_new TooLarge (ascii ''canonical encoding exceeds the 16 MiB cap'')
                         else api_internal)
              (changeset_encode (ke_nfc ke) cs)))"

definition next_generation :: "(i64 \<times> bytes option) list \<Rightarrow> i64" where
  "next_generation metas = (if metas = [] then 0 else i64_add (Max (fst ` set metas)) 1)"

definition first_root :: "(i64 \<times> bytes option) list \<Rightarrow> api_error + oid option" where
  "first_root metas =
     (case metas of
        (_, Some b) # _ \<Rightarrow> rbind (expect32 b) (\<lambda>i. Inr (Some i))
      | _ \<Rightarrow> Inr None)"

fun added_blobs :: "file_change list \<Rightarrow> oid list \<Rightarrow> oid list" where
  "added_blobs [] blobs = blobs"
| "added_blobs (c # cs) blobs =
     added_blobs cs
       (case fc_blob c of
          Some b \<Rightarrow> if fc_op c \<in> {Add, Mod} \<and> b \<notin> set blobs then blobs @ [b] else blobs
        | None \<Rightarrow> blobs)"

section \<open>The write\<close>

definition objects_missing :: "'a repo_db_scheme \<Rightarrow> oid list \<Rightarrow> oid list" where
  "objects_missing db ids = filter (\<lambda>i. \<not> object_row_exists db i) ids"

definition recreate_refused :: "oid \<Rightarrow> api_error" where
  "recreate_refused i =
     api_new ObjectRedacted (ascii ''changeset '' @ to_hex i @ ascii '' is redacted in this repo; recreating it is refused'')"

definition reference_refused :: "oid list \<Rightarrow> api_error" where
  "reference_refused blobs =
     api_new ObjectRedacted (ascii ''blobs are redacted in this repo; referencing them is refused: '' @ join_hex blobs)"

definition blobs_missing :: "oid list \<Rightarrow> api_error" where
  "blobs_missing missing =
     with_details (JObj [(ascii ''missing_blobs'', JArr (map (JStr \<circ> to_hex) missing))])
       (validation ''referenced blobs are missing; upload them first'')"

fun add_absent :: "(oid \<times> bool) list \<Rightarrow> oid list \<Rightarrow> oid list" where
  "add_absent [] missing = missing"
| "add_absent ((i, present) # rest) missing =
     add_absent rest (if \<not> present \<and> i \<notin> set missing then missing @ [i] else missing)"

text \<open>The tombstones and the presence of the blobs, in the store and in the catalog.\<close>

definition persist_checks :: "'s blob_env \<Rightarrow> 's \<Rightarrow> cx \<Rightarrow> oid \<Rightarrow> oid list \<Rightarrow> api_error + unit" where
  "persist_checks be s c i blobs =
     (let redacted = remdups (redactions_active_among (cx_db c) (cx_id c) blobs) in
      if redaction_active (cx_db c) (cx_id c) i then Inl (recreate_refused i)
      else if redacted \<noteq> [] then Inl (reference_refused redacted)
      else rbind (map_err (\<lambda>_. api_internal) (be_has be s blobs)) (\<lambda>has.
        let missing = add_absent (zip blobs has) (objects_missing (cat_of c) blobs)
        in if missing \<noteq> [] then Inl (blobs_missing missing) else Inr ()))"

record persist_args =
  pz_cs :: changeset
  pz_id :: oid
  pz_canonical :: bytes
  pz_generation :: i64
  pz_parent_root :: "oid option"
  pz_blobs :: "oid list"

text \<open>The tree of the changeset: the parent's tree with the delta applied.\<close>

definition new_tree :: "'s blob_env \<Rightarrow> repo_db \<Rightarrow> persist_args \<Rightarrow> api_error + oid \<times> u64 \<times> tree_write list" where
  "new_tree be db a =
     rbind (in_time (map_option (map_err map_tree_derive) (mem_load db (pz_parent_root a)))) (\<lambda>node.
     rbind (map_err map_apply (apply_changes node (cs_changes (pz_cs a)))) (\<lambda>node.
       map_err map_tree_derive (mem_collect (be_blake3 be) node)))"

definition insert_args :: "authed \<Rightarrow> bytes \<Rightarrow> i64 \<Rightarrow> persist_args \<Rightarrow> oid \<Rightarrow> tree_write list \<Rightarrow> changeset_insert" where
  "insert_args auth repo r a root trees =
     (let cs = pz_cs a in
      \<lparr>ci_repo = r, ci_repo_name = repo, ci_id = pz_id a, ci_canonical = pz_canonical a, ci_author = cs_author cs,
       ci_message = cs_message cs, ci_timestamp = as_i64 (cs_timestamp_ns cs), ci_generation = pz_generation a,
       ci_principal = ap_principal auth, ci_root_tree = root, ci_parents = cs_parents cs, ci_changes = cs_changes cs,
       ci_blobs = pz_blobs a, ci_trees = trees, ci_now = as_i64 (cs_timestamp_ns cs)\<rparr>)"

definition persist_write ::
    "server_env \<Rightarrow> 's blob_env \<Rightarrow> create_env \<Rightarrow> authed \<Rightarrow> bytes \<Rightarrow> persist_args \<Rightarrow> 's \<Rightarrow> cx \<Rightarrow>
     api_error + (api_error + oid) \<times> cx" where
  "persist_write env be ke auth repo a s c =
     rbind (persist_checks be s c (pz_id a) (pz_blobs a)) (\<lambda>_.
     rbind (new_tree be (cx_db c) a) (\<lambda>(root, _, trees).
     rbind (map_err (\<lambda>_. api_internal)
         (changeset_insert_rows (en_print env) (insert_args auth repo (cx_id c) a root trees) no_extras (cx_db c))) (\<lambda>db.
       Inr (case enqueue_changeset (ke_kinds ke) (cx_id c) (pz_id a) (cs_parents (pz_cs a))
                   \<lparr>ee_now = as_i64 (cs_timestamp_ns (pz_cs a)), ee_clock = ke_clock ke (pz_id a),
                    ee_walk_deadline = ke_walk_deadline ke\<rparr> db of
              Inl _ \<Rightarrow> (Inl api_internal, c\<lparr>cx_db := db\<rparr>)
            | Inr db \<Rightarrow> (Inr root, c\<lparr>cx_db := db\<rparr>)))))"

section \<open>The route\<close>

definition create_inner ::
    "server_env \<Rightarrow> 's blob_env \<Rightarrow> create_env \<Rightarrow> authed \<Rightarrow> bytes \<Rightarrow> create_body \<Rightarrow> (changeset_created, 's) breq" where
  "create_inner env be ke auth repo body =
     bbind (blift (check_create_scope (ap_scope auth) (cb_changes body))) (\<lambda>_.
     bbind (blift (if 1 < length (cb_parents body) then Inl (validation ''public changesets take at most one parent'') else Inr ())) (\<lambda>_.
     bbind (blift (rmap parse_id (cb_parents body))) (\<lambda>parents.
     bbind (on_server (sv_read_repo env repo (\<lambda>c. Inr (map (changeset_graph (cx_db c) (cx_id c)) parents)))) (\<lambda>graphs.
     bbind (blift (parent_metas parents graphs)) (\<lambda>metas.
     bbind (blift (rmap (parse_change env) (cb_changes body))) (\<lambda>changes.
     bbind (on_server (repo_id_or_404 env repo)) (\<lambda>r.
     bbind (on_server (now_ns env)) (\<lambda>now.
       let timestamp = (case cb_timestamp body of None \<Rightarrow> now | Some t \<Rightarrow> t);
           cs = \<lparr>cs_repo_id = as_u64 r, cs_parents = parents, cs_author = cb_author body, cs_message = cb_message body,
                 cs_timestamp_ns = timestamp, cs_changes = changes, cs_conflicts = []\<rparr> in
     bbind (blift (canonical_of env ke cs)) (\<lambda>canonical.
     bbind (blift (first_root metas)) (\<lambda>parent_root.
       let a = \<lparr>pz_cs = cs, pz_id = object_id (be_blake3 be) Kind_Changeset canonical, pz_canonical = canonical,
                pz_generation = next_generation metas, pz_parent_root = parent_root, pz_blobs = added_blobs changes []\<rparr> in
     bbind (write_asking env be repo (persist_write env be ke auth repo a)) (\<lambda>root.
     bbind (blift root) (\<lambda>root.
       bret \<lparr>cc_id = to_hex (pz_id a), cc_root = to_hex root, cc_generation = as_u64 (pz_generation a)\<rparr>))))))))))))"

definition create_route ::
    "server_env \<Rightarrow> 's blob_env \<Rightarrow> create_env \<Rightarrow> authed \<Rightarrow> bytes \<Rightarrow> create_body \<Rightarrow> (changeset_created, 's) breq" where
  "create_route env be ke auth repo body =
     bbind (on_server (repo_write_gate env auth repo)) (\<lambda>_. create_inner env be ke auth repo body)"

end
