(* ===== verification/Snapshots.thy ===== *)
theory Snapshots
  imports Create_Route
begin

text \<open>
  Snapshots (\<open>crates/naatre-server/src/routes/snapshots.rs\<close>): a principal's own tree, kept for a while. The blobs are
  uploaded first, into the ephemeral store (\<open>crates/naatre-store/src/ephemeral.rs\<close>, a trait: its methods are
  parameters); the POST brings the canonical trees, and its path scope is checked over every path of their closure
  without visiting every path.

  A \<open>HashMap\<close> of trees is an ordered map; where the code iterates over it, the order of the model is that of the ids.
  The collection of expired snapshots (\<open>snapshots_gc.rs\<close>), which a POST may start after its answer, is not modelled.
\<close>

section \<open>Limits\<close>

definition TREE_CANONICAL_CAP :: nat where "TREE_CANONICAL_CAP = 16 * 1024 * 1024"
definition MAX_SNAPSHOT_TREES :: nat where "MAX_SNAPSHOT_TREES = 10000"
definition MAX_SNAPSHOT_BLOBS :: nat where "MAX_SNAPSHOT_BLOBS = 8192"
definition MISSING_BLOBS_LIST_CAP :: nat where "MISSING_BLOBS_LIST_CAP = 256"
definition SNAPSHOT_TTL_MAX_SECS :: u64 where "SNAPSHOT_TTL_MAX_SECS = 366 * 24 * 60 * 60"
definition SNAPSHOT_DEFAULT_TTL_SECS :: u64 where "SNAPSHOT_DEFAULT_TTL_SECS = 604800"
definition SNAPSHOT_MIN_TTL_SECS :: u64 where "SNAPSHOT_MIN_TTL_SECS = 60"

section \<open>Statements\<close>

definition snapshot_get :: "'a repo_db_scheme \<Rightarrow> i64 \<Rightarrow> oid \<Rightarrow> snapshot_row option" where
  "snapshot_get db repo i =
     (case om_get (db_snapshots db) i of
        None \<Rightarrow> None
      | Some s \<Rightarrow> if sn_repo s = repo then Some s else None)"

definition snapshot_insert :: "oid \<Rightarrow> snapshot_row \<Rightarrow> 'a repo_db_scheme \<Rightarrow> db_error + 'a repo_db_scheme" where
  "snapshot_insert i row db = rbind (insert_unique i row (db_snapshots db)) (\<lambda>m. Inr (db\<lparr>db_snapshots := m\<rparr>))"

text \<open>The stack and the set of visited trees of \<open>tree_in_closure\<close>.\<close>

fun scan_children :: "oid \<Rightarrow> entry_row list \<Rightarrow> oid list \<Rightarrow> api_error + oid list option" where
  "scan_children target [] stack = Inr (Some stack)"
| "scan_children target (e # es) stack =
     (if er_kind e \<noteq> 1 then scan_children target es stack
      else rbind (expect32 (er_object e)) (\<lambda>child.
        if child = target then Inr None else scan_children target es (child # stack)))"

partial_function (option) closure_walk :: "repo_db \<Rightarrow> oid \<Rightarrow> oid list \<Rightarrow> oid set \<Rightarrow> (api_error + bool) option" where
  "closure_walk db target stack seen =
     (case stack of
        [] \<Rightarrow> Some (Inr False)
      | t # stack \<Rightarrow>
          if t \<in> seen then closure_walk db target stack seen
          else (case scan_children target (tree_entries_load db t) stack of
                  Inl e \<Rightarrow> Some (Inl e)
                | Inr None \<Rightarrow> Some (Inr True)
                | Inr (Some stack) \<Rightarrow> closure_walk db target stack (insert t seen)))"

definition tree_in_closure :: "repo_db \<Rightarrow> oid \<Rightarrow> oid \<Rightarrow> (api_error + bool) option" where
  "tree_in_closure db root target = (if root = target then Some (Inr True) else closure_walk db target [root] {})"

section \<open>The posted trees\<close>

type_synonym snap_trees = "(oid, bytes \<times> tree) omap"

definition core_error_text :: "server_env \<Rightarrow> core_error \<Rightarrow> bytes" where
  "core_error_text env e =
     (case e of
        EncodeUnsorted \<Rightarrow> ascii ''encode: entries not sorted by strictly ascending path/name bytes''
      | EncodeTooManyParents \<Rightarrow> ascii ''encode: more than 2 parents''
      | EncodeMissingBlob \<Rightarrow>
          ascii ''encode: Add/Mod entry missing blob, size, or exec; or Del entry carrying blob/size/exec''
      | EncodeEmptyChangeset \<Rightarrow> ascii ''encode: changeset has no entries''
      | EncodeTooLarge \<Rightarrow> ascii ''encode: canonical encoding exceeds the 16 MiB cap''
      | EncodeTooManyEntries \<Rightarrow> ascii ''encode: more than 100000 entries''
      | EncodeUnsortedConflicts \<Rightarrow> ascii ''encode: conflicts not sorted by strictly ascending path bytes''
      | EncodeConflictSides \<Rightarrow>
          ascii ''encode: a conflict needs >= 2 distinct strictly-ascending sides, its base distinct from every side''
      | DecodeConflictSides \<Rightarrow> ascii ''decode: a conflict carries fewer than 2 sides''
      | DecodeEmptyConflictSection \<Rightarrow> ascii ''decode: a v2 frame with an empty conflict section''
      | EncodeExecOnDir \<Rightarrow> ascii ''encode: directory entry carries an exec bit''
      | DecodeBadMagic \<Rightarrow> ascii ''decode: bad magic bytes''
      | DecodeTrailingBytes \<Rightarrow> ascii ''decode: trailing bytes after the object''
      | DecodeUnexpectedEof \<Rightarrow> ascii ''decode: unexpected end of input''
      | DecodeTooLarge \<Rightarrow> ascii ''decode: declared length exceeds the remaining input''
      | DecodeInvalidTag b \<Rightarrow> ascii ''decode: invalid tag byte 0x'' @ to_hex [b]
      | DecodeInvalidUtf8 \<Rightarrow> ascii ''decode: string field is not valid UTF-8''
      | DecodeLengthOverflow \<Rightarrow> ascii ''decode: length field exceeds the 16 MiB cap''
      | AuthorChar i \<Rightarrow> ascii ''author contains a forbidden control/format character (Cc or Cf) at byte index '' @ dec_str i
      | MessageChar i \<Rightarrow> ascii ''message contains a forbidden control/format character (Cc or Cf) at byte index '' @ dec_str i
      | PathErr pe \<Rightarrow> ascii ''path: '' @ path_error_text env pe)"

definition decode_posted :: "server_env \<Rightarrow> 's blob_env \<Rightarrow> create_env \<Rightarrow> bytes \<Rightarrow> api_error + bytes \<times> tree" where
  "decode_posted env be ke b64 =
     rbind (ok_or (be_unb64 be b64) (malformed ''tree payload is not valid base64'')) (\<lambda>b.
       if TREE_CANONICAL_CAP < length b then Inl (api_new TooLarge (ascii ''canonical tree exceeds the 16 MiB cap''))
       else rbind (map_err (\<lambda>_. malformed ''tree payload is not a valid canonical tree'') (tree_decode b)) (\<lambda>t.
            rbind (map_err (\<lambda>e. api_new Validation (core_error_text env e)) (tree_validate (ke_nfc ke) (ke_lower ke) t)) (\<lambda>_.
              Inr (b, t))))"

definition decode_trees :: "server_env \<Rightarrow> 's blob_env \<Rightarrow> create_env \<Rightarrow> bytes list \<Rightarrow> api_error + snap_trees" where
  "decode_trees env be ke encoded =
     (if MAX_SNAPSHOT_TREES < length encoded then Inl (validation ''snapshots take at most 10000 trees per POST'')
      else rbind (rmap (decode_posted env be ke) encoded) (\<lambda>posted.
        Inr (om_collect (map (\<lambda>(b, t). (object_id (be_blake3 be) Kind_Tree b, (b, t))) posted))))"

definition missing_trees :: "oid \<Rightarrow> bytes \<Rightarrow> api_error" where
  "missing_trees i msg = with_details (JObj [(ascii ''missing_trees'', JArr [JStr (to_hex i)])]) (api_new Validation msg)"

text \<open>Every subtree of a posted tree is posted.\<close>

definition check_complete :: "snap_trees \<Rightarrow> oid \<Rightarrow> api_error + unit" where
  "check_complete trees root =
     (if om_get trees root = None then Inl (missing_trees root (ascii ''the referenced tree is not among the posted trees''))
      else rforall (\<lambda>(_, _, t). rforall (\<lambda>e.
             if te_kind e = EK_Dir \<and> om_get trees (te_object e) = None then
               Inl (missing_trees (te_object e)
                 (ascii ''subtree '' @ to_hex (te_object e) @ ascii '' is referenced but not posted; send the full closure''))
             else Inr ()) t) trees)"

section \<open>The blobs of the closure\<close>

record closure_blobs =
  cl_blobs :: "oid list"
  cl_seen :: "oid set"
  cl_over :: bool
  cl_stack :: "oid list"

definition closure_entry :: "tree_entry \<Rightarrow> closure_blobs \<Rightarrow> closure_blobs" where
  "closure_entry e st =
     (case te_kind e of
        EK_Dir \<Rightarrow> st\<lparr>cl_stack := te_object e # cl_stack st\<rparr>
      | EK_File \<Rightarrow>
          if te_object e \<in> cl_seen st then st
          else let st = st\<lparr>cl_seen := insert (te_object e) (cl_seen st)\<rparr> in
            if length (cl_blobs st) = MAX_SNAPSHOT_BLOBS then st\<lparr>cl_over := True\<rparr>
            else st\<lparr>cl_blobs := cl_blobs st @ [te_object e]\<rparr>)"

partial_function (option) closure_blobs_walk :: "snap_trees \<Rightarrow> oid set \<Rightarrow> closure_blobs \<Rightarrow> closure_blobs option" where
  "closure_blobs_walk trees seen st =
     (case cl_stack st of
        [] \<Rightarrow> Some st
      | t # stack \<Rightarrow>
          let st = st\<lparr>cl_stack := stack\<rparr> in
          if t \<in> seen then closure_blobs_walk trees seen st
          else closure_blobs_walk trees (insert t seen)
                 (case om_get trees t of None \<Rightarrow> st | Some (_, es) \<Rightarrow> fold closure_entry es st))"

definition walk_closure :: "snap_trees \<Rightarrow> oid \<Rightarrow> (oid list \<times> bool) option" where
  "walk_closure trees root =
     map_option (\<lambda>st. (cl_blobs st, cl_over st))
       (closure_blobs_walk trees {} \<lparr>cl_blobs = [], cl_seen = {}, cl_over = False, cl_stack = [root]\<rparr>)"

section \<open>The path scope of the closure\<close>

text \<open>The first file below a tree, for \<open>closure_first_file\<close>: a scan of the entries that remain, with the verdicts on
  subtrees so far.\<close>

type_synonym verdicts = "oid \<Rightarrow> bytes option option"

datatype scan_result = Scan_Verdict "bytes option" | Scan_Descend oid "tree_entry list"

fun scan_entries :: "verdicts \<Rightarrow> tree_entry list \<Rightarrow> scan_result" where
  "scan_entries memo [] = Scan_Verdict None"
| "scan_entries memo (e # es) =
     (case te_kind e of
        EK_File \<Rightarrow> Scan_Verdict (Some (te_name e))
      | EK_Dir \<Rightarrow>
          (case memo (te_object e) of
             Some (Some rel) \<Rightarrow> Scan_Verdict (Some (te_name e @ [47] @ rel))
           | Some None \<Rightarrow> scan_entries memo es
           | None \<Rightarrow> Scan_Descend (te_object e) (e # es)))"

datatype scan_frame = Enter oid | Scan oid "tree_entry list"

partial_function (option) first_file_loop :: "snap_trees \<Rightarrow> verdicts \<Rightarrow> scan_frame list \<Rightarrow> verdicts option" where
  "first_file_loop trees memo stack =
     (case stack of
        [] \<Rightarrow> Some memo
      | frame # stack \<Rightarrow>
          (case frame of
             Enter i \<Rightarrow>
               if memo i \<noteq> None then first_file_loop trees memo stack
               else (case om_get trees i of
                       None \<Rightarrow> first_file_loop trees (memo(i := Some None)) stack
                     | Some (_, es) \<Rightarrow> first_file_loop trees (memo(i := Some None)) (Scan i es # stack))
           | Scan i es \<Rightarrow>
               (case scan_entries memo es of
                  Scan_Verdict v \<Rightarrow> first_file_loop trees (memo(i := Some v)) stack
                | Scan_Descend child es \<Rightarrow> first_file_loop trees memo (Enter child # Scan i es # stack))))"

definition closure_first_file :: "snap_trees \<Rightarrow> verdicts \<Rightarrow> oid \<Rightarrow> (bytes option \<times> verdicts) option" where
  "closure_first_file trees memo root =
     map_option (\<lambda>memo. (Option.bind (memo root) (\<lambda>v. v), memo)) (first_file_loop trees memo [Enter root])"

text \<open>The scope admits everything below a directory; the scope extends the directory.\<close>

definition covered :: "bytes \<Rightarrow> bytes \<Rightarrow> bool" where
  "covered scope prefix \<longleftrightarrow> prefix \<noteq> [] \<and> scope_allows (Some scope) prefix"

definition straddles :: "bytes \<Rightarrow> bytes \<Rightarrow> bool" where
  "straddles scope prefix \<longleftrightarrow> take (length prefix) scope = prefix"

text \<open>The entries of a tree on the scope's own chain: a violation, or the memo and the stack after them.\<close>

primrec scan_chain ::
    "snap_trees \<Rightarrow> bytes \<Rightarrow> bytes \<Rightarrow> tree_entry list \<Rightarrow> verdicts \<Rightarrow> (oid \<times> bytes) list \<Rightarrow>
     (bytes + verdicts \<times> (oid \<times> bytes) list) option" where
  "scan_chain trees scope prefix [] memo stack = Some (Inr (memo, stack))"
| "scan_chain trees scope prefix (e # es) memo stack =
     (let path = prefix @ te_name e in
      case te_kind e of
        EK_File \<Rightarrow>
          if \<not> scope_allows (Some scope) path then Some (Inl path) else scan_chain trees scope prefix es memo stack
      | EK_Dir \<Rightarrow>
          let child = path @ [47] in
          if covered scope child then scan_chain trees scope prefix es memo stack
          else if straddles scope child then scan_chain trees scope prefix es memo ((te_object e, child) # stack)
          else (case closure_first_file trees memo (te_object e) of
                  None \<Rightarrow> None
                | Some (Some rel, _) \<Rightarrow> Some (Inl (child @ rel))
                | Some (None, memo) \<Rightarrow> scan_chain trees scope prefix es memo stack))"

text \<open>One directory off the stack.\<close>

definition violation_step ::
    "snap_trees \<Rightarrow> bytes \<Rightarrow> verdicts \<Rightarrow> oid \<times> bytes \<Rightarrow> (oid \<times> bytes) list \<Rightarrow>
     (bytes + verdicts \<times> (oid \<times> bytes) list) option" where
  "violation_step trees scope memo occ stack =
     (let (i, prefix) = occ in
      case om_get trees i of
        None \<Rightarrow> Some (Inr (memo, stack))
      | Some (_, es) \<Rightarrow>
          if covered scope prefix then Some (Inr (memo, stack))
          else if \<not> straddles scope prefix then
            (case closure_first_file trees memo i of
               None \<Rightarrow> None
             | Some (Some rel, _) \<Rightarrow> Some (Inl (prefix @ rel))
             | Some (None, memo) \<Rightarrow> Some (Inr (memo, stack)))
          else scan_chain trees scope prefix es memo stack)"

text \<open>The walk carries its verdicts and its stack together.\<close>

partial_function (option) violation_walk ::
    "snap_trees \<Rightarrow> bytes \<Rightarrow> verdicts \<times> (oid \<times> bytes) list \<Rightarrow> bytes option option" where
  "violation_walk trees scope st =
     (case snd st of
        [] \<Rightarrow> Some None
      | occ # stack \<Rightarrow>
          (case violation_step trees scope (fst st) occ stack of
             None \<Rightarrow> None
           | Some r \<Rightarrow>
               (case r of
                  Inl path \<Rightarrow> Some (Some path)
                | Inr x \<Rightarrow> violation_walk trees scope x)))"

definition violation_in_closure :: "snap_trees \<Rightarrow> oid \<Rightarrow> bytes option \<Rightarrow> bytes option option" where
  "violation_in_closure trees root scope =
     (case scope of None \<Rightarrow> Some None | Some scope \<Rightarrow> violation_walk trees scope (\<lambda>_. None, [(root, [])]))"

section \<open>The ephemeral store\<close>

record 's ephemeral_env =
  ph_has :: "'s \<Rightarrow> bytes \<Rightarrow> oid list \<Rightarrow> store_error + bool list"
  ph_put :: "'s \<Rightarrow> bytes \<Rightarrow> bytes \<Rightarrow> (store_error + oid) \<times> 's"
  ph_get :: "'s \<Rightarrow> bytes \<Rightarrow> oid \<Rightarrow> store_error + bytes"

section \<open>POST\<close>

record snapshot_body =
  sb_snap :: bytes
  sb_tree :: bytes
  sb_ttl :: "u64 option"
  sb_trees :: "bytes list"

datatype snapshot_outcome = Snap_Created | Snap_Existing i64

record snapshot_args =
  sa_snap :: oid
  sa_tree :: oid
  sa_trees :: snap_trees
  sa_blobs :: "oid list"
  sa_principal :: bytes
  sa_now :: i64
  sa_ttl :: i64

definition snapshot_expired :: "oid \<Rightarrow> api_error" where
  "snapshot_expired i = api_new SnapshotExpired (ascii ''snapshot '' @ to_hex i @ ascii '' is past its TTL'')"

text \<open>A snapshot of that id is there: the recorded row is authoritative.\<close>

definition repost :: "snapshot_args \<Rightarrow> snapshot_row \<Rightarrow> api_error + snapshot_outcome" where
  "repost a row =
     (if sn_principal row \<noteq> sa_principal a \<or> sn_tree row \<noteq> sa_tree a then
        Inl (validation ''snapshot id is already used by a different snapshot'')
      else if sn_expires row \<le> sa_now a then Inl (snapshot_expired (sa_snap a))
      else if sn_expires row - sn_created row \<noteq> sa_ttl a then
        Inl (with_details (JObj [(ascii ''recorded_expires_ns'', JNum (uint (as_u64 (sn_expires row))))])
          (api_new Validation (ascii ''ttl_secs differs from the snapshot'' @ [39] @
             ascii ''s recorded TTL; re-POST the original ttl_secs or let the row expire'')))
      else Inr (Snap_Existing (sn_expires row)))"

definition posted_write :: "oid \<times> bytes \<times> tree \<Rightarrow> tree_write" where
  "posted_write x = (case x of (i, canonical, t) \<Rightarrow> \<lparr>tw_id = i, tw_canonical = canonical, tw_entries = map row_of_entry t\<rparr>)"

definition snapshot_refused :: "oid list \<Rightarrow> api_error" where
  "snapshot_refused blobs =
     api_new ObjectRedacted
       (ascii ''blobs are redacted in this repo; snapshots may not reference them: '' @ join_hex blobs)"

text \<open>The missing blobs of a refused POST, sorted and capped.\<close>

definition snapshot_missing :: "oid list \<Rightarrow> api_error" where
  "snapshot_missing ids =
     (let missing = remdups_adj (sort (map to_hex ids)); truncated = MISSING_BLOBS_LIST_CAP < length missing in
      with_details (JObj [(ascii ''missing_blobs'', JArr (map JStr (take MISSING_BLOBS_LIST_CAP missing))),
                          (ascii ''missing_blobs_truncated'', JBool truncated)])
        (validation ''referenced blobs are missing from the snapshot namespace; upload them first''))"

definition snapshot_row_of :: "i64 \<Rightarrow> snapshot_args \<Rightarrow> snapshot_row" where
  "snapshot_row_of repo a =
     \<lparr>sn_repo = repo, sn_tree = sa_tree a, sn_principal = sa_principal a, sn_created = sa_now a,
      sn_expires = i64_add (sa_now a) (sa_ttl a)\<rparr>"

definition snapshot_write :: "'s ephemeral_env \<Rightarrow> snapshot_args \<Rightarrow> 's \<Rightarrow> cx \<Rightarrow> api_error + snapshot_outcome \<times> cx" where
  "snapshot_write ph a s c =
     (case snapshot_get (cx_db c) (cx_id c) (sa_snap a) of
        Some row \<Rightarrow> rbind (repost a row) (\<lambda>out. Inr (out, c))
      | None \<Rightarrow>
          let redacted = remdups (redactions_active_among (cx_db c) (cx_id c) (sa_blobs a)) in
          if redacted \<noteq> [] then Inl (snapshot_refused redacted)
          else let db = trees_write_snapshot (map posted_write (sa_trees a)) (cx_db c) in
            rbind (map_err (\<lambda>_. api_internal) (ph_has ph s (to_hex (sa_snap a)) (sa_blobs a))) (\<lambda>has.
              let missing = map fst (filter (\<lambda>(_, present). \<not> present) (zip (sa_blobs a) has)) in
              if missing \<noteq> [] then Inl (snapshot_missing missing)
              else rbind (map_err (\<lambda>_. api_internal) (snapshot_insert (sa_snap a) (snapshot_row_of (cx_id c) a) db)) (\<lambda>db.
                Inr (Snap_Created, c\<lparr>cx_db := db\<rparr>))))"

definition check_ttl :: "u64 \<Rightarrow> api_error + unit" where
  "check_ttl ttl =
     (if ttl < SNAPSHOT_MIN_TTL_SECS then Inl (validation ''ttl_secs must be at least 60 seconds'')
      else if SNAPSHOT_TTL_MAX_SECS < ttl then Inl (validation ''ttl_secs must be at most 31622400 seconds (366 days)'')
      else Inr ())"

text \<open>The checks of the closure that come before the write: completeness, then the scope, then the number of blobs.\<close>

definition check_closure :: "snap_trees \<Rightarrow> oid \<Rightarrow> bytes option \<Rightarrow> api_error + oid list" where
  "check_closure trees root scope =
     rbind (check_complete trees root) (\<lambda>_.
     rbind (in_time (map_option Inr (walk_closure trees root))) (\<lambda>(blobs, over).
     rbind (in_time (map_option Inr (violation_in_closure trees root scope))) (\<lambda>offender.
       case offender of
         Some path \<Rightarrow> Inl (out_of_scope path)
       | None \<Rightarrow>
           if over then Inl (with_details (JObj [(ascii ''limit'', JNum (int MAX_SNAPSHOT_BLOBS))])
                          (validation ''snapshots reference at most 8192 distinct blobs per POST''))
           else Inr blobs)))"

definition snapshot_create_route ::
    "server_env \<Rightarrow> 's blob_env \<Rightarrow> create_env \<Rightarrow> 's ephemeral_env \<Rightarrow> authed \<Rightarrow> bytes \<Rightarrow> snapshot_body \<Rightarrow> (nat \<times> bytes \<times> u64, 's) breq" where
  "snapshot_create_route env be ke ph auth repo body =
     bbind (on_server (repo_write_gate env auth repo)) (\<lambda>_.
     bbind (blift (parse_id (sb_snap body))) (\<lambda>snap.
     bbind (blift (parse_id (sb_tree body))) (\<lambda>root.
       let ttl = (case sb_ttl body of None \<Rightarrow> SNAPSHOT_DEFAULT_TTL_SECS | Some t \<Rightarrow> t) in
     bbind (blift (check_ttl ttl)) (\<lambda>_.
     bbind (blift (decode_trees env be ke (sb_trees body))) (\<lambda>trees.
     bbind (blift (check_closure trees root (ap_scope auth))) (\<lambda>blobs.
     bbind (on_server (now_ns env)) (\<lambda>now.
       let a = \<lparr>sa_snap = snap, sa_tree = root, sa_trees = trees, sa_blobs = blobs, sa_principal = ap_principal auth,
                sa_now = as_i64 now, sa_ttl = as_i64 ttl * 1000000000\<rparr> in
     bbind (write_asking env be repo (snapshot_write ph a)) (\<lambda>out.
       case out of
         Snap_Created \<Rightarrow> bret (201, to_hex snap, as_u64 (i64_add (sa_now a) (sa_ttl a)))
       | Snap_Existing recorded \<Rightarrow> bret (200, to_hex snap, as_u64 recorded)))))))))"

section \<open>GET and PUT\<close>

definition load_owned_unexpired :: "server_env \<Rightarrow> bytes \<Rightarrow> oid \<Rightarrow> bytes \<Rightarrow> snapshot_row req" where
  "load_owned_unexpired env repo snap who =
     req_bind (sv_read_repo env repo (\<lambda>c. Inr (snapshot_get (cx_db c) (cx_id c) snap))) (\<lambda>row.
       case row of
         None \<Rightarrow> fail (api_new NotFound (ascii ''no snapshot '' @ to_hex snap @ ascii '' in this repo for this principal''))
       | Some row \<Rightarrow>
           if sn_principal row \<noteq> who then
             fail (api_new NotFound (ascii ''no snapshot '' @ to_hex snap @ ascii '' in this repo for this principal''))
           else req_bind (now_ns env) (\<lambda>now.
             if sn_expires row \<le> as_i64 now then fail (snapshot_expired snap) else ret row))"

record snapshot_out =
  so_id :: bytes
  so_tree :: bytes
  so_created :: u64
  so_expires :: u64

definition get_metadata_route :: "server_env \<Rightarrow> authed \<Rightarrow> bytes \<Rightarrow> bytes \<Rightarrow> snapshot_out req" where
  "get_metadata_route env auth repo hex =
     req_bind (repo_read_gate env auth repo) (\<lambda>_.
     req_bind (req_lift (parse_id hex)) (\<lambda>snap.
     req_bind (load_owned_unexpired env repo snap (ap_principal auth)) (\<lambda>row.
     req_bind (req_lift (expect32 (sn_tree row))) (\<lambda>t.
       ret \<lparr>so_id = to_hex snap, so_tree = to_hex t, so_created = as_u64 (sn_created row),
            so_expires = as_u64 (sn_expires row)\<rparr>))))"

definition get_blob_route ::
    "server_env \<Rightarrow> 's blob_env \<Rightarrow> 's ephemeral_env \<Rightarrow> authed \<Rightarrow> bytes \<Rightarrow> bytes \<Rightarrow> bytes \<Rightarrow> (bytes, 's) breq" where
  "get_blob_route env be ph auth repo snap_hex oid_hex =
     bbind (on_server (repo_read_gate env auth repo)) (\<lambda>_.
     bbind (blift (parse_id snap_hex)) (\<lambda>snap.
     bbind (blift (parse_id oid_hex)) (\<lambda>i.
     bbind (on_server (sv_read_repo env repo (\<lambda>c. Inr (redaction_active (cx_db c) (cx_id c) i)))) (\<lambda>redacted.
     bbind (blift (if redacted then Inl (redacted_in (ascii ''blob '') (to_hex i) repo) else Inr ())) (\<lambda>_.
     bbind (on_server (load_owned_unexpired env repo snap (ap_principal auth))) (\<lambda>_.
       blocking env be (\<lambda>s.
         (case ph_get ph s (to_hex snap) i of
            Inr b \<Rightarrow> Inr b
          | Inl (Blob_Missing hex) \<Rightarrow>
              Inl (api_new ObjectNotFound (ascii ''blob '' @ hex @ ascii '' is missing from the snapshot''))
          | Inl Store_Failed \<Rightarrow> Inl api_internal, s))))))))"

definition snapshot_tree_read :: "oid \<Rightarrow> oid \<Rightarrow> cx \<Rightarrow> api_error + entry_out list option" where
  "snapshot_tree_read root t c =
     rbind (in_time (tree_in_closure (cx_db c) root t)) (\<lambda>inside.
       if \<not> inside then Inr None
       else rbind (mask_tree_entries (cx_db c) (cx_id c) (tree_entries_load (cx_db c) t)) (\<lambda>es. Inr (Some es)))"

definition snapshot_tree_route :: "server_env \<Rightarrow> authed \<Rightarrow> bytes \<Rightarrow> bytes \<Rightarrow> bytes \<Rightarrow> entry_out list req" where
  "snapshot_tree_route env auth repo snap_hex tree_hex =
     req_bind (repo_read_gate env auth repo) (\<lambda>_.
     req_bind (req_lift (parse_id snap_hex)) (\<lambda>snap.
     req_bind (req_lift (parse_id tree_hex)) (\<lambda>t.
     req_bind (load_owned_unexpired env repo snap (ap_principal auth)) (\<lambda>row.
     req_bind (req_lift (expect32 (sn_tree row))) (\<lambda>root.
     req_bind (sv_read_repo env repo (snapshot_tree_read root t)) (\<lambda>found.
       case found of
         Some entries \<Rightarrow> ret entries
       | None \<Rightarrow> fail (api_new NotFound
           (ascii ''tree '' @ to_hex t @ ascii '' is not part of snapshot '' @ to_hex snap))))))))"

definition put_blob_route ::
    "server_env \<Rightarrow> 's blob_env \<Rightarrow> 's ephemeral_env \<Rightarrow> authed \<Rightarrow> bytes \<Rightarrow> bytes \<Rightarrow> bytes \<Rightarrow> bytes \<Rightarrow> (nat \<times> bytes, 's) breq" where
  "put_blob_route env be ph auth repo snap_hex oid_hex payload =
     bbind (on_server (repo_write_gate env auth repo)) (\<lambda>_.
     bbind (blift (parse_id snap_hex)) (\<lambda>snap.
     bbind (blift (parse_id oid_hex)) (\<lambda>i.
     bbind (blift (verify_addressed be i payload)) (\<lambda>_.
     bbind (blift (if BLOB_LIMIT < length payload then Inl (too_large (length payload)) else Inr ())) (\<lambda>_.
     bbind (on_server (sv_read_repo env repo (\<lambda>c. Inr (redaction_active (cx_db c) (cx_id c) i)))) (\<lambda>redacted.
     bbind (blift (if redacted then Inl (api_new ObjectRedacted
                     (ascii ''blob '' @ to_hex i @ ascii '' is redacted in '' @ repo @ ascii ''; upload refused'')) else Inr ())) (\<lambda>_.
     bbind (blocking env be (\<lambda>s.
         (case ph_has ph s (to_hex snap) [i] of
            Inl _ \<Rightarrow> (Inl api_internal, s)
          | Inr [] \<Rightarrow> (Inl api_internal, s)
          | Inr (existed # _) \<Rightarrow>
              (case ph_put ph s (to_hex snap) payload of
                 (Inl _, s) \<Rightarrow> (Inl api_internal, s)
               | (Inr _, s) \<Rightarrow> (Inr existed, s))))) (\<lambda>existed.
       bret (if existed then 200 else 201, to_hex i)))))))))"

end
