(* ===== verification/Snapshot_Scope.thy ===== *)
theory Snapshot_Scope
  imports Snapshots
begin

text \<open>
  The scope check of a snapshot against its reference, the enumeration of every path of the closure.
\<close>

section \<open>The paths of a closure\<close>

inductive closure_file :: "snap_trees \<Rightarrow> oid \<Rightarrow> bytes \<Rightarrow> bool" for trees where
  closure_here: "om_get trees i = Some (c, es) \<Longrightarrow> e \<in> set es \<Longrightarrow> te_kind e = EK_File \<Longrightarrow> closure_file trees i (te_name e)"
| closure_below: "om_get trees i = Some (c, es) \<Longrightarrow> e \<in> set es \<Longrightarrow> te_kind e = EK_Dir \<Longrightarrow> closure_file trees (te_object e) p \<Longrightarrow>
    closure_file trees i (te_name e @ [47] @ p)"

inductive_simps closure_file_iff: "closure_file trees i p"

definition entry_file :: "snap_trees \<Rightarrow> tree_entry \<Rightarrow> bytes \<Rightarrow> bool" where
  "entry_file trees e p \<longleftrightarrow>
     (case te_kind e of
        EK_File \<Rightarrow> p = te_name e
      | EK_Dir \<Rightarrow> \<exists>q. p = te_name e @ [47] @ q \<and> closure_file trees (te_object e) q)"

lemma closure_file_entries:
  "closure_file trees i p \<longleftrightarrow> (\<exists>c es. om_get trees i = Some (c, es) \<and> (\<exists>e \<in> set es. entry_file trees e p))"
proof
  assume "closure_file trees i p"
  then show "\<exists>c es. om_get trees i = Some (c, es) \<and> (\<exists>e \<in> set es. entry_file trees e p)"
  proof cases
    case (closure_here c es e)
    then show ?thesis by (intro exI [of _ c] exI [of _ es] conjI bexI [of _ e]) (simp_all add: entry_file_def)
  next
    case (closure_below c es e q)
    then show ?thesis by (intro exI [of _ c] exI [of _ es] conjI bexI [of _ e]) (auto simp: entry_file_def)
  qed
next
  assume "\<exists>c es. om_get trees i = Some (c, es) \<and> (\<exists>e \<in> set es. entry_file trees e p)"
  then obtain c es e where "om_get trees i = Some (c, es)" "e \<in> set es" "entry_file trees e p" by blast
  then show "closure_file trees i p"
    by (cases "te_kind e") (auto simp: entry_file_def intro: closure_here closure_below [simplified])
qed

definition subtree_rel :: "snap_trees \<Rightarrow> (oid \<times> oid) set" where
  "subtree_rel trees =
     {(te_object e, i) | e i. \<exists>c es. om_get trees i = Some (c, es) \<and> e \<in> set es \<and> te_kind e = EK_Dir}"

lemma finite_subtree_rel: "finite (subtree_rel trees)"
proof -
  have "subtree_rel trees \<subseteq> (\<Union>(i, c, es) \<in> set trees. (\<lambda>e. (te_object e, i)) ` set es)"
    by (force simp: subtree_rel_def om_get_map_of dest: map_of_SomeD)
  then show ?thesis by (rule finite_subset) auto
qed

lemma wf_subtree_rel: "acyclic (subtree_rel trees) \<Longrightarrow> wf (subtree_rel trees)"
  by (rule finite_acyclic_wf [OF finite_subtree_rel])

lemma subtree_relI:
  "om_get trees i = Some (c, es) \<Longrightarrow> e \<in> set es \<Longrightarrow> te_kind e = EK_Dir \<Longrightarrow> (te_object e, i) \<in> subtree_rel trees"
  by (auto simp: subtree_rel_def)

section \<open>The first file below a tree\<close>

definition verdict_ok :: "snap_trees \<Rightarrow> oid \<Rightarrow> bytes option \<Rightarrow> bool" where
  "verdict_ok trees i v \<longleftrightarrow> (case v of None \<Rightarrow> \<forall>p. \<not> closure_file trees i p | Some p \<Rightarrow> closure_file trees i p)"

definition entries_verdict :: "snap_trees \<Rightarrow> tree_entry list \<Rightarrow> bytes option \<Rightarrow> bool" where
  "entries_verdict trees es v \<longleftrightarrow>
     (case v of None \<Rightarrow> \<forall>e \<in> set es. \<forall>p. \<not> entry_file trees e p | Some p \<Rightarrow> \<exists>e \<in> set es. entry_file trees e p)"

text \<open>The verdicts are right, but for the trees under way.\<close>

definition memo_ok :: "snap_trees \<Rightarrow> oid set \<Rightarrow> verdicts \<Rightarrow> bool" where
  "memo_ok trees busy memo \<longleftrightarrow> (\<forall>i v. memo i = Some v \<longrightarrow> i \<notin> busy \<longrightarrow> verdict_ok trees i v)"

definition apart :: "snap_trees \<Rightarrow> oid set \<Rightarrow> oid \<Rightarrow> bool" where
  "apart trees busy i \<longleftrightarrow> (\<forall>j \<in> busy. (j, i) \<notin> (subtree_rel trees)\<^sup>*)"

lemma apart_child:
  assumes "acyclic (subtree_rel trees)" "apart trees busy i" "(j, i) \<in> subtree_rel trees"
  shows "apart trees (insert i busy) j"
  using assms by (fastforce simp: apart_def acyclic_def intro: rtrancl_into_rtrancl dest: rtrancl_into_trancl1)

lemma entries_verdict_tree:
  "om_get trees i = Some (c, es) \<Longrightarrow> verdict_ok trees i v \<longleftrightarrow> entries_verdict trees es v"
  by (cases v) (auto simp: verdict_ok_def entries_verdict_def closure_file_entries)

lemma memo_okD: "memo_ok trees busy memo \<Longrightarrow> memo i = Some v \<Longrightarrow> i \<notin> busy \<Longrightarrow> verdict_ok trees i v"
  by (auto simp: memo_ok_def)

lemma entries_verdict_simps:
  "entries_verdict trees [] None"
  "te_kind e = EK_File \<Longrightarrow> entries_verdict trees (e # es) (Some (te_name e))"
  "te_kind e = EK_Dir \<Longrightarrow> verdict_ok trees (te_object e) (Some q) \<Longrightarrow> entries_verdict trees (e # es) (Some (te_name e @ [47] @ q))"
  "te_kind e = EK_Dir \<Longrightarrow> verdict_ok trees (te_object e) None \<Longrightarrow> entries_verdict trees es v \<Longrightarrow> entries_verdict trees (e # es) v"
  by (auto simp: entries_verdict_def entry_file_def verdict_ok_def split: option.splits)

lemma scan_settled:
  "te_kind e = EK_Dir \<Longrightarrow> memo (te_object e) = Some None \<Longrightarrow>
     first_file_loop trees memo (Scan i (e # es) # stack) = first_file_loop trees memo (Scan i es # stack)"
  by (subst (1 2) first_file_loop.simps) simp

lemma scan_verdict:
  "scan_entries memo es = Scan_Verdict v \<Longrightarrow>
     first_file_loop trees memo (Scan i es # stack) = first_file_loop trees (memo(i := Some v)) stack"
  by (subst (1) first_file_loop.simps) simp

lemma first_file_scan:
  assumes "\<And>e memo stack. e \<in> set es \<Longrightarrow> te_kind e = EK_Dir \<Longrightarrow> memo_ok trees busy memo \<Longrightarrow>
      \<exists>memo' v. first_file_loop trees memo (Enter (te_object e) # stack) = first_file_loop trees memo' stack \<and>
        memo_ok trees busy memo' \<and> memo' (te_object e) = Some v \<and> verdict_ok trees (te_object e) v"
    and "\<And>e. e \<in> set es \<Longrightarrow> te_kind e = EK_Dir \<Longrightarrow> te_object e \<notin> busy"
    and "memo_ok trees busy memo"
  shows "\<exists>memo' v. first_file_loop trees memo (Scan i es # stack) = first_file_loop trees (memo'(i := Some v)) stack \<and>
    memo_ok trees busy memo' \<and> entries_verdict trees es v"
  using assms
proof (induction es arbitrary: memo)
  case Nil
  show ?case
    using scan_verdict [of memo "[]" None] Nil(3) entries_verdict_simps(1) by fastforce
next
  case (Cons e es)
  show ?case
  proof (cases "te_kind e")
    case EK_File
    then have "scan_entries memo (e # es) = Scan_Verdict (Some (te_name e))" by simp
    then show ?thesis using scan_verdict Cons.prems(3) entries_verdict_simps(2) [OF EK_File] by blast
  next
    case EK_Dir
    have settled: ?thesis if l: "first_file_loop trees memo (Scan i (e # es) # stack) = first_file_loop trees m (Scan i (e # es) # stack)"
      and m: "memo_ok trees busy m" "m (te_object e) = Some v" "verdict_ok trees (te_object e) v" for m v
    proof (cases v)
      case None
      have "\<exists>memo' v'. first_file_loop trees m (Scan i es # stack) = first_file_loop trees (memo'(i := Some v')) stack \<and>
          memo_ok trees busy memo' \<and> entries_verdict trees es v'"
        by (rule Cons.IH [OF _ _ m(1)]; (rule Cons.prems(1) | rule Cons.prems(2)); simp)
      moreover have "first_file_loop trees m (Scan i (e # es) # stack) = first_file_loop trees m (Scan i es # stack)"
        by (rule scan_settled [OF EK_Dir]) (simp add: m None)
      moreover have "entries_verdict trees (e # es) v'" if "entries_verdict trees es v'" for v'
        using entries_verdict_simps(4) [OF EK_Dir] m(3) None that by blast
      ultimately show ?thesis using l by metis
    next
      case (Some q)
      then have "scan_entries m (e # es) = Scan_Verdict (Some (te_name e @ [47] @ q))" using EK_Dir m by simp
      then show ?thesis using l scan_verdict m entries_verdict_simps(3) [OF EK_Dir] Some by metis
    qed
    show ?thesis
    proof (cases "memo (te_object e)")
      case None
      have "first_file_loop trees memo (Scan i (e # es) # stack) = first_file_loop trees memo (Enter (te_object e) # Scan i (e # es) # stack)"
        using EK_Dir None by (subst (1) first_file_loop.simps) simp
      then show ?thesis using Cons.prems(1) [of e memo "Scan i (e # es) # stack"] Cons.prems(3) EK_Dir settled by auto
    next
      case (Some v)
      then show ?thesis using settled [OF refl Cons.prems(3) Some] memo_okD [OF Cons.prems(3) Some] Cons.prems(2) EK_Dir by simp
    qed
  qed
qed

lemma first_file_enter:
  assumes "acyclic (subtree_rel trees)" "memo_ok trees busy memo" "apart trees busy i"
  shows "\<exists>memo' v. first_file_loop trees memo (Enter i # stack) = first_file_loop trees memo' stack \<and>
    memo_ok trees busy memo' \<and> memo' i = Some v \<and> verdict_ok trees i v"
  using assms(2,3)
proof (induction i arbitrary: memo busy stack rule: wf_induct_rule [OF wf_subtree_rel [OF assms(1)]])
  case (1 i)
  have i: "i \<notin> busy" using 1(3) by (auto simp: apart_def)
  show ?case
  proof (cases "memo i")
    case (Some v)
    then show ?thesis
      using 1(2) i memo_okD by (intro exI [of _ memo] exI [of _ v], subst first_file_loop.simps) auto
  next
    case None
    show ?thesis
    proof (cases "om_get trees i")
      case none: None
      then have "verdict_ok trees i None" by (auto simp: verdict_ok_def closure_file_entries)
      then show ?thesis
        using None none 1(2) by (intro exI [of _ "memo(i := Some None)"] exI [of _ None], subst first_file_loop.simps)
          (auto simp: memo_ok_def)
    next
      case (Some t)
      obtain c es where t: "om_get trees i = Some (c, es)" using Some by (cases t) simp
      let ?busy = "insert i busy"
      let ?memo = "memo(i := Some None)"
      have ok: "memo_ok trees ?busy ?memo" using 1(2) by (auto simp: memo_ok_def)
      have below: "apart trees ?busy (te_object e)" if "e \<in> set es" "te_kind e = EK_Dir" for e
        using apart_child [OF assms(1) 1(3)] subtree_relI [OF t that] .
      have "\<exists>memo' v. first_file_loop trees ?memo (Scan i es # stack) = first_file_loop trees (memo'(i := Some v)) stack \<and>
          memo_ok trees ?busy memo' \<and> entries_verdict trees es v"
        by (rule first_file_scan [OF 1(1) _ ok]) (use below subtree_relI [OF t] in \<open>auto simp: apart_def\<close>)
      then obtain memo' v where m: "first_file_loop trees ?memo (Scan i es # stack) = first_file_loop trees (memo'(i := Some v)) stack"
          "memo_ok trees ?busy memo'" "verdict_ok trees i v"
        using entries_verdict_tree [OF t] by blast
      have "first_file_loop trees memo (Enter i # stack) = first_file_loop trees ?memo (Scan i es # stack)"
        using None t by (subst (1) first_file_loop.simps) simp
      then have "first_file_loop trees memo (Enter i # stack) = first_file_loop trees (memo'(i := Some v)) stack" using m by simp
      moreover have "memo_ok trees busy (memo'(i := Some v))" using m by (auto simp: memo_ok_def)
      ultimately show ?thesis using m(3) by fastforce
    qed
  qed
qed

lemma closure_first_file_exact:
  assumes "acyclic (subtree_rel trees)" "memo_ok trees {} memo"
  shows "\<exists>v memo'. closure_first_file trees memo i = Some (v, memo') \<and> verdict_ok trees i v \<and> memo_ok trees {} memo'"
  using first_file_enter [OF assms(1,2), of i "[]"]
  by (fastforce simp: apart_def closure_first_file_def first_file_loop.simps [of _ _ "[]"])

section \<open>The walk along the scope\<close>

text \<open>A token's scope does not end in a slash (\<open>token_scope\<close>); the prefix of a directory is empty or ends in one.\<close>

definition proper_scope :: "bytes \<Rightarrow> bool" where
  "proper_scope scope \<longleftrightarrow> scope = [] \<or> last scope \<noteq> 47"

definition dir_prefix :: "bytes \<Rightarrow> bool" where
  "dir_prefix prefix \<longleftrightarrow> prefix = [] \<or> last prefix = 47"

lemma token_scope_proper: "token_scope raw = Inr (Some scope) \<Longrightarrow> proper_scope scope"
  by (auto simp: token_scope_def proper_scope_def Let_def split: option.splits if_splits)

lemma covered_allows:
  assumes "proper_scope scope" "dir_prefix prefix" "covered scope prefix"
  shows "scope_allows (Some scope) (prefix @ q)"
  using assms by (auto simp: covered_def scope_allows_iff proper_scope_def dir_prefix_def)

lemma disjoint_refuses:
  assumes "\<not> covered scope prefix" "\<not> straddles scope prefix"
  shows "\<not> scope_allows (Some scope) (prefix @ q)"
proof
  assume "scope_allows (Some scope) (prefix @ q)"
  then consider "prefix @ q = scope" | rest where "prefix @ q = scope @ 47 # rest" by (auto simp: scope_allows_iff)
  then show False
  proof cases
    case 1
    then show False using assms(2) by (auto simp: straddles_def)
  next
    case 2
    then consider us where "prefix = scope @ us" "us @ q = 47 # rest" | us where "scope = prefix @ us"
      by (auto simp: append_eq_append_conv2)
    then show False
    proof cases
      case (1 us)
      then show False
        using assms by (cases us) (auto simp: covered_def scope_allows_iff straddles_def)
    qed (use assms(2) in \<open>auto simp: straddles_def\<close>)
  qed
qed

definition clean :: "snap_trees \<Rightarrow> bytes \<Rightarrow> oid \<times> bytes \<Rightarrow> bool" where
  "clean trees scope occ \<longleftrightarrow> (\<forall>q. closure_file trees (fst occ) q \<longrightarrow> scope_allows (Some scope) (snd occ @ q))"

definition clean_entries :: "snap_trees \<Rightarrow> bytes \<Rightarrow> bytes \<Rightarrow> tree_entry list \<Rightarrow> bool" where
  "clean_entries trees scope prefix es \<longleftrightarrow>
     (\<forall>e \<in> set es. \<forall>q. entry_file trees e q \<longrightarrow> scope_allows (Some scope) (prefix @ q))"

text \<open>The path names a file outside the scope, below one of the entries.\<close>

definition offends :: "snap_trees \<Rightarrow> bytes \<Rightarrow> bytes \<Rightarrow> tree_entry list \<Rightarrow> bytes \<Rightarrow> bool" where
  "offends trees scope prefix es path \<longleftrightarrow>
     \<not> scope_allows (Some scope) path \<and> (\<exists>e \<in> set es. \<exists>q. entry_file trees e q \<and> path = prefix @ q)"

definition occurrences :: "bytes \<Rightarrow> tree_entry list \<Rightarrow> (oid \<times> bytes) set" where
  "occurrences prefix es = {(te_object e, prefix @ te_name e @ [47]) | e. e \<in> set es \<and> te_kind e = EK_Dir}"

lemma scan_chain_exact:
  assumes "acyclic (subtree_rel trees)" "proper_scope scope" "memo_ok trees {} memo"
  shows "(\<exists>path. scan_chain trees scope prefix es memo stack = Some (Inl path) \<and> offends trees scope prefix es path) \<or>
    (\<exists>memo' pushed. scan_chain trees scope prefix es memo stack = Some (Inr (memo', pushed @ stack)) \<and>
       memo_ok trees {} memo' \<and> set pushed \<subseteq> occurrences prefix es \<and>
       (list_all (clean trees scope) pushed \<longrightarrow> clean_entries trees scope prefix es))"
  using assms(3)
proof (induction es arbitrary: memo stack)
  case Nil
  then show ?case by (simp add: clean_entries_def occurrences_def)
next
  case (Cons e es)
  have off: "offends trees scope prefix es path \<Longrightarrow> offends trees scope prefix (e # es) path" for path
    by (auto simp: offends_def)
  have occ: "occurrences prefix es \<subseteq> occurrences prefix (e # es)" by (auto simp: occurrences_def)
  have skip: ?case
    if "scan_chain trees scope prefix (e # es) memo stack = scan_chain trees scope prefix es m stack" "memo_ok trees {} m"
      "\<forall>q. entry_file trees e q \<longrightarrow> scope_allows (Some scope) (prefix @ q)" for m
    using Cons.IH [OF that(2), of stack] that(1,3) off occ unfolding clean_entries_def by fastforce
  show ?case
  proof (cases "te_kind e")
    case EK_File
    show ?thesis
    proof (cases "scope_allows (Some scope) (prefix @ te_name e)")
      case True
      then show ?thesis using skip [OF _ Cons.prems] EK_File by (simp add: entry_file_def)
    next
      case False
      then show ?thesis using EK_File by (intro disjI1) (auto simp: entry_file_def offends_def)
    qed
  next
    case EK_Dir
    let ?child = "prefix @ te_name e @ [47]"
    have dp: "dir_prefix ?child" by (simp add: dir_prefix_def)
    have below: "entry_file trees e q \<longleftrightarrow> (\<exists>r. q = te_name e @ [47] @ r \<and> closure_file trees (te_object e) r)" for q
      using EK_Dir by (simp add: entry_file_def)
    consider "covered scope ?child" | "\<not> covered scope ?child" "straddles scope ?child"
      | "\<not> covered scope ?child" "\<not> straddles scope ?child" by blast
    then show ?thesis
    proof cases
      case 1
      then show ?thesis
        using skip [OF _ Cons.prems] covered_allows [OF assms(2) dp 1] below EK_Dir by (auto simp: Let_def)
    next
      case 2
      let ?occ = "(te_object e, ?child)"
      have push: "scan_chain trees scope prefix (e # es) memo stack = scan_chain trees scope prefix es memo (?occ # stack)"
        using 2 EK_Dir by (simp add: Let_def)
      have clean: "clean_entries trees scope prefix (e # es)" if "clean trees scope ?occ" "clean_entries trees scope prefix es"
        using that below by (auto simp: clean_def clean_entries_def)
      have here: "?occ \<in> occurrences prefix (e # es)" using EK_Dir by (auto simp: occurrences_def)
      from Cons.IH [OF Cons.prems, of "?occ # stack"] show ?thesis
      proof (elim disjE exE conjE)
        fix path
        assume "scan_chain trees scope prefix es memo (?occ # stack) = Some (Inl path)" "offends trees scope prefix es path"
        then show ?thesis using push off by auto
      next
        fix m pushed
        assume m: "scan_chain trees scope prefix es memo (?occ # stack) = Some (Inr (m, pushed @ ?occ # stack))"
          "memo_ok trees {} m" "set pushed \<subseteq> occurrences prefix es"
          "list_all (clean trees scope) pushed \<longrightarrow> clean_entries trees scope prefix es"
        show ?thesis
          by (rule disjI2, rule exI [of _ m], rule exI [of _ "pushed @ [?occ]"]) (use m push clean here occ in auto)
      qed
    next
      case 3
      obtain v m where v: "closure_first_file trees memo (te_object e) = Some (v, m)" "verdict_ok trees (te_object e) v" "memo_ok trees {} m"
        using closure_first_file_exact [OF assms(1) Cons.prems] by blast
      show ?thesis
      proof (cases v)
        case None
        then show ?thesis using skip [OF _ v(3)] 3 v EK_Dir below by (auto simp: Let_def verdict_ok_def)
      next
        case (Some r)
        have "offends trees scope prefix (e # es) (?child @ r)"
          using disjoint_refuses [OF 3] v(2) Some below by (force simp: offends_def verdict_ok_def)
        then show ?thesis using 3 v EK_Dir Some by (intro disjI1) (auto simp: Let_def)
      qed
    qed
  qed
qed

text \<open>One occurrence on the stack, with everything it pushes.\<close>

definition settles :: "snap_trees \<Rightarrow> bytes \<Rightarrow> verdicts \<Rightarrow> (oid \<times> bytes) list \<Rightarrow> (oid \<times> bytes) list \<Rightarrow> bool" where
  "settles trees scope memo occs stack \<longleftrightarrow>
     (\<exists>occ \<in> set occs. \<exists>q. closure_file trees (fst occ) q \<and> \<not> scope_allows (Some scope) (snd occ @ q) \<and>
        violation_walk trees scope (memo, occs @ stack) = Some (Some (snd occ @ q))) \<or>
     list_all (clean trees scope) occs \<and>
     (\<exists>memo'. memo_ok trees {} memo' \<and> violation_walk trees scope (memo, occs @ stack) = violation_walk trees scope (memo', stack))"

lemma settles_all:
  assumes "\<And>occ memo stack. occ \<in> set occs \<Longrightarrow> memo_ok trees {} memo \<Longrightarrow> settles trees scope memo [occ] stack"
    and "memo_ok trees {} memo"
  shows "settles trees scope memo occs stack"
  using assms
proof (induction occs arbitrary: memo)
  case Nil
  then show ?case by (auto simp: settles_def)
next
  case (Cons occ occs)
  from Cons.prems(1) [of occ memo "occs @ stack"] Cons.prems(2)
  have "settles trees scope memo [occ] (occs @ stack)" by simp
  then show ?case
    unfolding settles_def [of _ _ _ "[occ]"]
  proof (elim disjE exE bexE conjE)
    fix m
    assume m: "list_all (clean trees scope) [occ]" "memo_ok trees {} m"
      "violation_walk trees scope (memo, [occ] @ occs @ stack) = violation_walk trees scope (m, occs @ stack)"
    have "settles trees scope m occs stack" by (rule Cons.IH [OF _ m(2)]) (simp add: Cons.prems(1))
    then show ?case using m unfolding settles_def by auto
  qed (auto simp: settles_def)
qed

lemma step_walk:
  "violation_walk trees scope (memo, occ # stack) =
     (case violation_step trees scope memo occ stack of
        None \<Rightarrow> None
      | Some (Inl path) \<Rightarrow> Some (Some path)
      | Some (Inr st) \<Rightarrow> violation_walk trees scope st)"
  by (subst violation_walk.simps) (simp split: option.split sum.split)

lemma occurrence_settles:
  assumes "acyclic (subtree_rel trees)" "proper_scope scope" "memo_ok trees {} memo" "dir_prefix prefix"
  shows "settles trees scope memo [(i, prefix)] stack"
  using assms(3,4)
proof (induction i arbitrary: memo prefix stack rule: wf_induct_rule [OF wf_subtree_rel [OF assms(1)]])
  case (1 i memo prefix stack)
  note walk = step_walk [of trees scope memo "(i, prefix)" stack]
  have fine: "settles trees scope memo [(i, prefix)] stack"
    if "violation_step trees scope memo (i, prefix) stack = Some (Inr (m, stack))" "memo_ok trees {} m" "clean trees scope (i, prefix)" for m
    using that walk by (auto simp: settles_def)
  consider "om_get trees i = None" | c es where "om_get trees i = Some (c, es)" by (cases "om_get trees i") auto
  then show ?case
  proof cases
    case none: 1
    then show ?thesis using fine [of memo] 1(2) by (auto simp: violation_step_def clean_def closure_file_entries)
  next
    case t: (2 c es)
    have files: "closure_file trees i q \<longleftrightarrow> (\<exists>e \<in> set es. entry_file trees e q)" for q
      using t by (auto simp: closure_file_entries)
    consider "covered scope prefix" | "\<not> covered scope prefix" "straddles scope prefix"
      | "\<not> covered scope prefix" "\<not> straddles scope prefix" by blast
    then show ?thesis
    proof cases
      case c: 1
      then show ?thesis using fine [of memo] 1(2,3) t covered_allows [OF assms(2)] by (auto simp: violation_step_def clean_def)
    next
      case s: 2
      have step: "violation_step trees scope memo (i, prefix) stack = scan_chain trees scope prefix es memo stack"
        using s t by (simp add: violation_step_def)
      from scan_chain_exact [OF assms(1,2) 1(2), of prefix es stack] show ?thesis
      proof (elim disjE exE conjE)
        fix path
        assume "scan_chain trees scope prefix es memo stack = Some (Inl path)" "offends trees scope prefix es path"
        then show ?thesis using walk step files by (auto simp: settles_def offends_def)
      next
        fix m pushed
        assume m: "scan_chain trees scope prefix es memo stack = Some (Inr (m, pushed @ stack))" "memo_ok trees {} m"
          "set pushed \<subseteq> occurrences prefix es" "list_all (clean trees scope) pushed \<longrightarrow> clean_entries trees scope prefix es"
        have member: "\<exists>e \<in> set es. te_kind e = EK_Dir \<and> occ = (te_object e, prefix @ te_name e @ [47])" if "occ \<in> set pushed" for occ
          using m(3) that by (auto simp: occurrences_def)
        have "settles trees scope memo' [occ] stack'" if "occ \<in> set pushed" "memo_ok trees {} memo'" for occ memo' stack'
        proof -
          obtain e where e: "occ = (te_object e, prefix @ te_name e @ [47])" "e \<in> set es" "te_kind e = EK_Dir"
            using member [OF \<open>occ \<in> set pushed\<close>] by blast
          show ?thesis
            unfolding e(1) by (rule 1(1) [OF subtree_relI [OF t e(2,3)] that(2)]) (simp add: dir_prefix_def)
        qed
        then have "settles trees scope m pushed stack" using settles_all m(2) by blast
        moreover have w: "violation_walk trees scope (memo, [(i, prefix)] @ stack) = violation_walk trees scope (m, pushed @ stack)"
          using walk step m(1) by simp
        ultimately show ?thesis
          unfolding settles_def [of _ _ m]
        proof (elim disjE exE bexE conjE)
          fix occ q
          assume q: "occ \<in> set pushed" "closure_file trees (fst occ) q" "\<not> scope_allows (Some scope) (snd occ @ q)"
            "violation_walk trees scope (m, pushed @ stack) = Some (Some (snd occ @ q))"
          then obtain e where e: "occ = (te_object e, prefix @ te_name e @ [47])" "e \<in> set es" "te_kind e = EK_Dir"
            using member [OF q(1)] by blast
          then have "closure_file trees i (te_name e @ [47] @ q)" using closure_below [OF t e(2,3)] q by simp
          then show ?thesis using q w e unfolding settles_def by (intro disjI1) (force intro!: bexI exI)
        next
          fix m'
          assume "list_all (clean trees scope) pushed" "memo_ok trees {} m'"
            "violation_walk trees scope (m, pushed @ stack) = violation_walk trees scope (m', stack)"
          then show ?thesis using m(4) w files unfolding settles_def by (auto simp: clean_def clean_entries_def)
        qed
      qed
    next
      case d: 3
      obtain v m where v: "closure_first_file trees memo i = Some (v, m)" "verdict_ok trees i v" "memo_ok trees {} m"
        using closure_first_file_exact [OF assms(1) 1(2)] by blast
      show ?thesis
      proof (cases v)
        case None
        then show ?thesis using fine [OF _ v(3)] d v t by (auto simp: violation_step_def verdict_ok_def clean_def)
      next
        case (Some r)
        then show ?thesis
          using d v t walk disjoint_refuses [OF d] by (auto simp: violation_step_def verdict_ok_def settles_def)
      qed
    qed
  qed
qed

lemma violation_exact:
  assumes "acyclic (subtree_rel trees)"
    and "token_scope raw = Inr scope"
  shows "\<exists>r. violation_in_closure trees root scope = Some r \<and>
    (case r of
       None \<Rightarrow> \<forall>p. closure_file trees root p \<longrightarrow> scope_allows scope p
     | Some p \<Rightarrow> closure_file trees root p \<and> \<not> scope_allows scope p)"
proof (cases scope)
  case None
  then show ?thesis by (simp add: violation_in_closure_def scope_allows_def)
next
  case (Some s)
  have "settles trees s (\<lambda>_. None) [(root, [])] []"
    using occurrence_settles [OF assms(1) token_scope_proper] assms(2) Some by (simp add: memo_ok_def dir_prefix_def)
  then show ?thesis
    by (auto simp: settles_def Some violation_in_closure_def clean_def violation_walk.simps [of _ _ "(_, [])"])
qed

text \<open>C15: the scope check of a snapshot is exact. For posted trees none of which is below itself and a scope of a token, the walk of
  \<open>violation_in_closure\<close> returns, and its answer is that of the reference, which enumerates the path of every
  file through every occurrence of every subtree: no answer means that the token's scope admits every path, and a path
  answered is one of the closure that the scope does not admit. A subtree shared between a directory inside and one
  outside the scope is judged in both places, although the walk looks into it once.\<close>
theorem snapshot_scope_exact:
  assumes "acyclic (subtree_rel trees)"
    and "token_scope raw = Inr scope"
  shows "\<exists>r. violation_in_closure trees root scope = Some r \<and>
    (case r of
       None \<Rightarrow> \<forall>p. closure_file trees root p \<longrightarrow> scope_allows scope p
     | Some p \<Rightarrow> closure_file trees root p \<and> \<not> scope_allows scope p)"
  using violation_exact [OF assms] .

definition scope_sample :: snap_trees where
  "scope_sample =
     [([1], [], [\<lparr>te_name = ascii ''app'', te_kind = EK_Dir, te_object = [2], te_size = 0, te_exec = False\<rparr>,
                \<lparr>te_name = ascii ''docs'', te_kind = EK_Dir, te_object = [2], te_size = 0, te_exec = False\<rparr>]),
      ([2], [], [\<lparr>te_name = ascii ''a'', te_kind = EK_File, te_object = [9], te_size = 3, te_exec = False\<rparr>])]"

lemma scope_sample_acyclic: "acyclic (subtree_rel scope_sample)"
proof -
  have "subtree_rel scope_sample \<subseteq> {([2], [1])}"
    by (auto simp: subtree_rel_def scope_sample_def split: if_splits)
  moreover have "acyclic {([2 :: byte], [1])}" by (simp add: acyclic_insert wf_acyclic)
  ultimately show ?thesis by (rule acyclic_subset [rotated])
qed

theorem snapshot_scope_exact_witness:
  "(\<exists>r. violation_in_closure scope_sample [1] (Some (ascii ''app'')) = Some r \<and>
     (case r of
        None \<Rightarrow> \<forall>p. closure_file scope_sample [1] p \<longrightarrow> scope_allows (Some (ascii ''app'')) p
      | Some p \<Rightarrow> closure_file scope_sample [1] p \<and> \<not> scope_allows (Some (ascii ''app'')) p)) \<and>
   closure_file scope_sample [1] (ascii ''docs/a'')"
proof
  have "token_scope (Some (ascii ''app/'')) = Inr (Some (ascii ''app''))" by code_simp
  then show "\<exists>r. violation_in_closure scope_sample [1] (Some (ascii ''app'')) = Some r \<and>
     (case r of
        None \<Rightarrow> \<forall>p. closure_file scope_sample [1] p \<longrightarrow> scope_allows (Some (ascii ''app'')) p
      | Some p \<Rightarrow> closure_file scope_sample [1] p \<and> \<not> scope_allows (Some (ascii ''app'')) p)"
    by (rule snapshot_scope_exact [OF scope_sample_acyclic])
  have "closure_file scope_sample [2] (ascii ''a'')"
    using closure_here [of scope_sample "[2]" _ _ "\<lparr>te_name = ascii ''a'', te_kind = EK_File, te_object = [9], te_size = 3, te_exec = False\<rparr>"]
    by (simp add: scope_sample_def)
  then show "closure_file scope_sample [1] (ascii ''docs/a'')"
    using closure_below [of scope_sample "[1]" _ _ "\<lparr>te_name = ascii ''docs'', te_kind = EK_Dir, te_object = [2], te_size = 0, te_exec = False\<rparr>"]
    by (force simp: scope_sample_def ascii_def)
qed

end
