(* ===== verification/Request_Rules.thy ===== *)
theory Request_Rules
  imports Create_Route Access_Correct
begin

text \<open>
  How a request that answered ran: one rule for each combinator of requests, on the server and on the blob store.
\<close>

section \<open>Accesses to a repository\<close>

text \<open>The connection to a repository two accesses on: the lookup of its name, then the access itself.\<close>

definition lookup_at :: "server_env \<Rightarrow> bytes \<Rightarrow> server \<Rightarrow> i64 \<Rightarrow> cx \<Rightarrow> server \<Rightarrow> bool" where
  "lookup_at env name w i c w' \<longleftrightarrow>
     repo_id_by_name (sv_cat (arrive_req env w)) name = Some i \<and>
     w' = arrive_req env (arrive_req env w) \<and> cx_at w' i = Some c"

lemma sv_read_repo_Inr:
  "sv_read_repo env name f w = (Inr a, w') \<longleftrightarrow> (\<exists>i c. lookup_at env name w i c w' \<and> f c = Inr a)"
  by (auto simp: sv_read_repo_def resolve_repo_def req_bind_def sv_read_def lookup_at_def fail_def Let_def
      split: option.splits)

lemma sv_write_repo_Inr:
  "sv_write_repo env name f w = (Inr a, w') \<longleftrightarrow>
     (\<exists>i c w2 c'. lookup_at env name w i c w2 \<and> f c = Inr (a, c') \<and> w' = put_cx c' w2 \<and>
        \<not> en_busy env (sv_tick w + 1))"
  by (auto simp: sv_write_repo_def resolve_repo_def req_bind_def sv_read_def lookup_at_def fail_def Let_def
      split: option.splits if_splits sum.splits)

lemma cx_at_put:
  assumes "cx_at w i = Some c" "cx_id c' = cx_id c" "cx_split c' = cx_split c"
  shows "\<exists>c''. cx_at (put_cx c' w) i = Some c'' \<and> cx_id c'' = i \<and> cx_db c'' = cx_db c'"
proof -
  have "cx_id c = i" using assms(1) by (auto simp: cx_at_def split: if_splits)
  then show ?thesis using assms by (auto simp: cx_at_def put_cx_def split: if_splits)
qed

lemma cx_at_id: "cx_at w i = Some c \<Longrightarrow> cx_id c = i"
  by (auto simp: cx_at_def split: if_splits)

section \<open>Requests that use the store\<close>

lemma bbind_Inr: "bbind m f x = (Inr b, y) \<longleftrightarrow> (\<exists>a z. m x = (Inr a, z) \<and> f a z = (Inr b, y))"
  by (auto simp: bbind_def split: prod.splits sum.splits)

lemma bret_Inr: "bret a x = (Inr b, y) \<longleftrightarrow> b = a \<and> y = x"
  by (auto simp: bret_def)

lemma bfail_Inr: "bfail e x = (Inr b, y) \<longleftrightarrow> False"
  by (simp add: bfail_def)

lemma blift_Inr: "blift r x = (Inr b, y) \<longleftrightarrow> r = Inr b \<and> y = x"
  by (auto simp: blift_def)

lemma on_server_Inr: "on_server m x = (Inr a, y) \<longleftrightarrow> m (fst x) = (Inr a, fst y) \<and> snd y = snd x"
  by (cases x; cases y) (auto simp: on_server_def split: prod.splits)

lemma blocking_Inr:
  "blocking env be f x = (Inr a, y) \<longleftrightarrow>
     fst y = arrive_req env (fst x) \<and> f (be_others be (sv_tick (fst x)) (snd x)) = (Inr a, snd y)"
  by (cases x; cases y) (auto simp: blocking_def Let_def split: prod.splits)

lemma write_asking_Inr:
  "write_asking env be repo f x = (Inr a, y) \<longleftrightarrow>
     snd y = be_others be (sv_tick (fst x)) (snd x) \<and> sv_write_repo env repo (f (snd y)) (fst x) = (Inr a, fst y)"
  by (cases x; cases y) (auto simp: write_asking_def Let_def split: prod.splits)

lemma bbind_run: "m x = (Inr a, y) \<Longrightarrow> bbind m f x = f a y"
  by (simp add: bbind_def)

lemma bbind_lift [simp]: "bbind (blift (Inr a)) f = f a"
  by (rule ext) (simp add: bbind_def blift_def)

lemma on_server_run: "m w = (r, w') \<Longrightarrow> on_server m (w, s) = (r, w', s)"
  by (simp add: on_server_def)

lemma sv_read_Inr:
  "sv_read env f w = (Inr a, w') \<longleftrightarrow> f (sv_cat (arrive_req env w)) = Inr a \<and> w' = arrive_req env w"
  by (auto simp: sv_read_def Let_def)

lemmas answered = bbind_Inr bret_Inr bfail_Inr blift_Inr on_server_Inr blocking_Inr write_asking_Inr
  req_bind_Inr guard_Inr req_lift_Inr ret_Inr now_ns_Inr

section \<open>The gates\<close>

text \<open>A gate reads the catalog and changes nothing: the server after it is the one before, some accesses on.\<close>

inductive later :: "server_env \<Rightarrow> server \<Rightarrow> server \<Rightarrow> bool" for env where
  later_refl: "later env w w"
| later_step: "later env w w' \<Longrightarrow> later env w (arrive_req env w')"

lemma later_trans: "later env v w \<Longrightarrow> later env u v \<Longrightarrow> later env u w"
  by (induction rule: later.induct) (auto intro: later.intros)

lemma later_one: "later env w (arrive_req env w)"
  by (intro later.intros)

lemma later_lookup: "lookup_at env name w i c w' \<Longrightarrow> later env w w'"
  by (auto simp: lookup_at_def intro: later.intros)

lemma sv_read_later: "later env w (snd (sv_read env f w))"
  by (simp add: sv_read_def Let_def later_one)

lemma repo_id_later: "later env w (snd (repo_id_or_404 env name w))"
  using sv_read_later [of env w] later_one [of env w]
  by (auto simp: repo_id_or_404_def req_bind_def sv_read_def fail_def ret_def Let_def split: option.split)

lemma read_gate_later: "later env w (snd (repo_read_gate env auth name w))"
  by (auto simp: repo_read_gate_def repo_id_or_404_def req_bind_def sv_read_def fail_def ret_def Let_def
      intro: later.intros split: option.splits if_splits)

lemma write_gate_later: "later env w (snd (repo_write_gate env auth name w))"
  by (auto simp: repo_write_gate_def repo_id_or_404_def req_bind_def sv_read_def fail_def ret_def Let_def
      intro: later.intros split: option.splits if_splits write_admission.splits)

end
