(* ===== verification/Snapshots_Correct.thy ===== *)
theory Snapshots_Correct
  imports Snapshot_Scope Request_Rules
begin

text \<open>
  What a snapshot that was accepted holds: its blobs are those of the closure, present and not redacted.
\<close>

section \<open>The blobs of the closure\<close>

definition dir_children :: "snap_trees \<Rightarrow> oid \<Rightarrow> oid set" where
  "dir_children trees i = {j. (j, i) \<in> subtree_rel trees}"

definition file_blobs :: "tree_entry list \<Rightarrow> oid set" where
  "file_blobs es = te_object ` {e \<in> set es. te_kind e = EK_File}"

definition tree_blobs :: "snap_trees \<Rightarrow> oid \<Rightarrow> oid set" where
  "tree_blobs trees i = (case om_get trees i of None \<Rightarrow> {} | Some (_, es) \<Rightarrow> file_blobs es)"

definition closure_blob :: "snap_trees \<Rightarrow> oid \<Rightarrow> oid set" where
  "closure_blob trees root = (\<Union>i \<in> {i. (i, root) \<in> (subtree_rel trees)\<^sup>*}. tree_blobs trees i)"

text \<open>The blobs collected are those seen, up to the cap.\<close>

definition blobs_ok :: "closure_blobs \<Rightarrow> bool" where
  "blobs_ok st \<longleftrightarrow> distinct (cl_blobs st) \<and> set (cl_blobs st) \<subseteq> cl_seen st \<and> length (cl_blobs st) \<le> MAX_SNAPSHOT_BLOBS \<and>
     (\<not> cl_over st \<longrightarrow> set (cl_blobs st) = cl_seen st)"

lemma closure_entry_effect:
  "blobs_ok st \<Longrightarrow> blobs_ok (closure_entry e st)"
  "cl_seen (closure_entry e st) = cl_seen st \<union> file_blobs [e]"
  "set (cl_stack (closure_entry e st)) = set (cl_stack st) \<union> (if te_kind e = EK_Dir then {te_object e} else {})"
  by (cases "te_kind e"; force simp: closure_entry_def blobs_ok_def file_blobs_def Let_def)+

lemma closure_entries_effect:
  "blobs_ok st \<Longrightarrow> blobs_ok (fold closure_entry es st)"
  "cl_seen (fold closure_entry es st) = cl_seen st \<union> file_blobs es"
  "set (cl_stack (fold closure_entry es st)) = set (cl_stack st) \<union> te_object ` {e \<in> set es. te_kind e = EK_Dir}"
  by (induction es arbitrary: st) (auto simp: closure_entry_effect file_blobs_def)

definition walk_step :: "snap_trees \<Rightarrow> oid \<Rightarrow> closure_blobs \<Rightarrow> closure_blobs" where
  "walk_step trees t st = (case om_get trees t of None \<Rightarrow> st | Some (_, es) \<Rightarrow> fold closure_entry es st)"

lemma walk_step_effect:
  "blobs_ok st \<Longrightarrow> blobs_ok (walk_step trees t st)"
  "cl_seen (walk_step trees t st) = cl_seen st \<union> tree_blobs trees t"
  "set (cl_stack (walk_step trees t st)) = set (cl_stack st) \<union> dir_children trees t"
  by (auto simp: walk_step_def closure_entries_effect tree_blobs_def dir_children_def subtree_rel_def split: option.splits)

text \<open>Every tree seen has its blobs collected and its subtrees seen or on the stack.\<close>

definition walk_inv :: "snap_trees \<Rightarrow> oid \<Rightarrow> oid set \<Rightarrow> closure_blobs \<Rightarrow> bool" where
  "walk_inv trees root seen st \<longleftrightarrow> blobs_ok st \<and>
     seen \<union> set (cl_stack st) \<subseteq> {i. (i, root) \<in> (subtree_rel trees)\<^sup>*} \<and>
     root \<in> seen \<union> set (cl_stack st) \<and>
     (\<forall>i \<in> seen. dir_children trees i \<subseteq> seen \<union> set (cl_stack st)) \<and>
     cl_seen st = (\<Union>i \<in> seen. tree_blobs trees i)"

lemma finite_reach: "finite {i. (i, root) \<in> (subtree_rel trees)\<^sup>*}"
proof -
  have "i \<in> insert root (fst ` subtree_rel trees)" if "(i, root) \<in> (subtree_rel trees)\<^sup>*" for i
    using that by (cases rule: converse_rtranclE) (auto intro: rev_image_eqI)
  then have "{i. (i, root) \<in> (subtree_rel trees)\<^sup>*} \<subseteq> insert root (fst ` subtree_rel trees)" by blast
  then show ?thesis using finite_subtree_rel finite_subset by blast
qed

lemma walk_exact:
  assumes "walk_inv trees root seen st"
  shows "\<exists>st'. closure_blobs_walk trees seen st = Some st' \<and> blobs_ok st' \<and> cl_seen st' = closure_blob trees root"
  using assms
proof (induction "(card ({i. (i, root) \<in> (subtree_rel trees)\<^sup>*} - seen), length (cl_stack st))" arbitrary: seen st
    rule: wf_induct_rule [OF wf_lex_prod [OF wf_less_than wf_less_than]])
  case (1 seen st)
  let ?R = "{i. (i, root) \<in> (subtree_rel trees)\<^sup>*}"
  note inv = 1(2) [unfolded walk_inv_def]
  show ?case
  proof (cases "cl_stack st")
    case Nil
    have "i \<in> seen" if "(i, root) \<in> (subtree_rel trees)\<^sup>*" for i
      using that
    proof (induction rule: converse_rtrancl_induct)
      case (step y z)
      then show ?case using inv Nil by (auto simp: dir_children_def)
    qed (use inv Nil in auto)
    then have "seen = ?R" using inv by auto
    then have "cl_seen st = closure_blob trees root" using inv by (simp add: closure_blob_def)
    then show ?thesis using inv Nil by (simp add: closure_blobs_walk.simps)
  next
    case (Cons t stack)
    let ?st = "st\<lparr>cl_stack := stack\<rparr>"
    have "blobs_ok st" using inv by blast
    then have ok: "blobs_ok ?st" by (simp add: blobs_ok_def)
    show ?thesis
    proof (cases "t \<in> seen")
      case True
      have "walk_inv trees root seen ?st" using inv Cons True ok by (auto simp: walk_inv_def)
      then show ?thesis using 1(1) [of seen ?st] Cons True by (simp add: closure_blobs_walk.simps [of _ _ st])
    next
      case False
      have t: "t \<in> ?R" using inv Cons by auto
      have "walk_inv trees root (insert t seen) (walk_step trees t ?st)"
        unfolding walk_inv_def
      proof (intro conjI)
        show "insert t seen \<union> set (cl_stack (walk_step trees t ?st)) \<subseteq> ?R"
          using inv Cons t by (auto simp: walk_step_effect dir_children_def intro: converse_rtrancl_into_rtrancl)
      qed (use inv Cons ok in \<open>auto simp: walk_step_effect\<close>)
      moreover have "card (?R - insert t seen) < card (?R - seen)"
        using t False by (intro psubset_card_mono finite_Diff finite_reach) auto
      ultimately show ?thesis
        using 1(1) [of "insert t seen" "walk_step trees t ?st"] Cons False
        by (simp add: closure_blobs_walk.simps [of _ _ st] walk_step_def Let_def)
    qed
  qed
qed

lemma walk_closure_exact:
  "\<exists>blobs over. walk_closure trees root = Some (blobs, over) \<and> distinct blobs \<and> length blobs \<le> MAX_SNAPSHOT_BLOBS \<and>
     set blobs \<subseteq> closure_blob trees root \<and> (\<not> over \<longrightarrow> set blobs = closure_blob trees root)"
  using walk_exact [of trees root "{}" "\<lparr>cl_blobs = [], cl_seen = {}, cl_over = False, cl_stack = [root]\<rparr>"]
  by (auto simp: walk_inv_def blobs_ok_def walk_closure_def)

section \<open>The rows a snapshot writes\<close>

lemma tree_rows_keep:
  fixes db :: repo_db
  shows "db_redactions (trees_write_snapshot ws db) = db_redactions db"
    and "db_snapshots (trees_write_snapshot ws db) = db_snapshots db"
proof -
  have one: "db_redactions (fold (put_entry_row i) rows d) = db_redactions d"
    "db_snapshots (fold (put_entry_row i) rows d) = db_snapshots d" for i rows and d :: repo_db
    by (induction rows arbitrary: d) (simp_all add: put_entry_row_def)
  have "db_redactions (write_tree_rows r w d) = db_redactions d" "db_snapshots (write_tree_rows r w d) = db_snapshots d"
    for r w and d :: repo_db
    by (simp_all add: write_tree_rows_def one Let_def)
  then show "db_redactions (trees_write_snapshot ws db) = db_redactions db"
    "db_snapshots (trees_write_snapshot ws db) = db_snapshots db"
    unfolding trees_write_snapshot_def by (induction ws arbitrary: db) simp_all
qed

lemma tree_rows_there:
  fixes db :: repo_db
  shows "w \<in> set ws \<or> tree_row db (tw_id w) \<noteq> None \<Longrightarrow> tree_row (trees_write_snapshot ws db) (tw_id w) \<noteq> None"
  unfolding trees_write_snapshot_def
proof (induction ws arbitrary: db)
  case (Cons v ws)
  have "tree_row (write_tree_rows 0 v db) (tw_id w) \<noteq> None" if "w = v \<or> tree_row db (tw_id w) \<noteq> None"
    using that by (auto simp: write_tree_rows_def fold_put_entry_row Let_def om_get_insert)
  then show ?case using Cons.IH [of "write_tree_rows 0 v db"] Cons.prems by auto
qed simp

lemma complete_closure:
  assumes "check_complete trees root = Inr ()" "(i, root) \<in> (subtree_rel trees)\<^sup>*"
  shows "om_get trees i \<noteq> None"
  using assms(2)
proof (cases rule: converse_rtranclE)
  case base
  then show ?thesis using assms(1) by (auto simp: check_complete_def split: if_splits)
next
  case (step j)
  then obtain e c es where "i = te_object e" "om_get trees j = Some (c, es)" "e \<in> set es" "te_kind e = EK_Dir"
    by (auto simp: subtree_rel_def)
  then show ?thesis
    using assms(1)
    by (fastforce simp: check_complete_def rforall_eq_Inr om_get_map_of dest: map_of_SomeD split: if_splits)
qed

lemma check_closure_Inr:
  assumes "check_closure trees root scope = Inr blobs" "acyclic (subtree_rel trees)" "token_scope raw = Inr scope"
  shows "check_complete trees root = Inr ()" "set blobs = closure_blob trees root"
    "closure_file trees root p \<Longrightarrow> scope_allows scope p" "card (set blobs) \<le> 8192"
proof -
  obtain bs over where w: "walk_closure trees root = Some (bs, over)" "\<not> over \<Longrightarrow> set bs = closure_blob trees root"
      "length bs \<le> 8192"
    using walk_closure_exact [of trees root] by (auto simp: MAX_SNAPSHOT_BLOBS_def)
  obtain r where v: "violation_in_closure trees root scope = Some r"
      "case r of None \<Rightarrow> \<forall>p. closure_file trees root p \<longrightarrow> scope_allows scope p
       | Some p \<Rightarrow> closure_file trees root p \<and> \<not> scope_allows scope p"
    using violation_exact [OF assms(2,3)] by blast
  show "check_complete trees root = Inr ()" "set blobs = closure_blob trees root"
    "closure_file trees root p \<Longrightarrow> scope_allows scope p" "card (set blobs) \<le> 8192"
    using assms(1) w v card_length [of bs] by (auto simp: check_closure_def in_time_def rbind_eq_Inr split: option.splits if_splits)
qed

section \<open>An accepted snapshot\<close>

text \<open>The store answers for each id whether it holds it.\<close>

definition ephemeral_has :: "'s ephemeral_env \<Rightarrow> ('s \<Rightarrow> bytes \<Rightarrow> oid \<Rightarrow> bool) \<Rightarrow> bool" where
  "ephemeral_has ph held \<longleftrightarrow> (\<forall>s n ids r. ph_has ph s n ids = Inr r \<longrightarrow> r = map (held s n) ids)"

lemma snapshot_write_created:
  assumes "snapshot_write ph a s c = Inr (Snap_Created, c')" "ephemeral_has ph held"
  shows "snapshot_get (cx_db c') (cx_id c') (sa_snap a) = Some (snapshot_row_of (cx_id c) a)"
    and "b \<in> set (sa_blobs a) \<Longrightarrow> held s (to_hex (sa_snap a)) b \<and> \<not> redaction_active (cx_db c') (cx_id c') b"
    and "(i, t) \<in> set (sa_trees a) \<Longrightarrow> tree_row (cx_db c') i \<noteq> None"
    and "cx_id c' = cx_id c" "cx_split c' = cx_split c"
proof -
  let ?db = "trees_write_snapshot (map posted_write (sa_trees a)) (cx_db c)"
  let ?row = "snapshot_row_of (cx_id c) a"
  have new: "snapshot_get (cx_db c) (cx_id c) (sa_snap a) = None"
    using assms(1) by (auto simp: snapshot_write_def repost_def rbind_eq_Inr split: option.splits if_splits)
  have red: "redactions_active_among (cx_db c) (cx_id c) (sa_blobs a) = []"
    using assms(1) new by (auto simp: snapshot_write_def Let_def split: if_splits)
  obtain has where has: "ph_has ph s (to_hex (sa_snap a)) (sa_blobs a) = Inr has"
      "filter (\<lambda>(_, present). \<not> present) (zip (sa_blobs a) has) = []"
      "\<exists>db. snapshot_insert (sa_snap a) ?row ?db = Inr db \<and> c' = c\<lparr>cx_db := db\<rparr>"
    using assms(1) new red
    by (auto simp: snapshot_write_def Let_def rbind_eq_Inr map_err_eq_Inr split: if_splits)
  then obtain db where db: "snapshot_insert (sa_snap a) ?row ?db = Inr db" "c' = c\<lparr>cx_db := db\<rparr>" by blast
  have db': "db = ?db\<lparr>db_snapshots := om_insert (sa_snap a) ?row (db_snapshots ?db)\<rparr>"
    using db(1) by (auto simp: snapshot_insert_def insert_unique_def rbind_eq_Inr split: if_splits)
  show "snapshot_get (cx_db c') (cx_id c') (sa_snap a) = Some ?row" "cx_id c' = cx_id c" "cx_split c' = cx_split c"
    using db(2) db' by (simp_all add: snapshot_get_def om_get_insert snapshot_row_of_def)
  show "held s (to_hex (sa_snap a)) b \<and> \<not> redaction_active (cx_db c') (cx_id c') b" if "b \<in> set (sa_blobs a)"
  proof -
    have "has = map (held s (to_hex (sa_snap a))) (sa_blobs a)" using assms(2) has(1) by (auto simp: ephemeral_has_def)
    then have "held s (to_hex (sa_snap a)) b" using has(2) that by (auto simp: filter_empty_conv zip_map2 zip_same_conv_map)
    moreover have "\<not> redaction_active (cx_db c) (cx_id c) b"
      using red that by (auto simp: redactions_active_among_def filter_empty_conv)
    ultimately show ?thesis using db(2) db' by (simp add: redaction_active_def tree_rows_keep)
  qed
  show "tree_row (cx_db c') i \<noteq> None" if "(i, t) \<in> set (sa_trees a)"
  proof -
    have "posted_write (i, t) \<in> set (map posted_write (sa_trees a))" using that by (auto intro: imageI)
    moreover have "tw_id (posted_write (i, t)) = i" by (simp add: posted_write_def split: prod.split)
    ultimately obtain w where "w \<in> set (map posted_write (sa_trees a))" "tw_id w = i" by blast
    then show ?thesis using tree_rows_there [of w "map posted_write (sa_trees a)" "cx_db c"] db(2) db' by auto
  qed
qed

text \<open>C14: an accepted snapshot is whole. When the POST answers 201, then by the commit of its one transaction: the row of
  the snapshot names the root, the caller and the expiry that was answered; every tree of the closure has its row; every
  path of the closure is inside the caller's scope; and every blob the closure refers to, and no more than 8192 of them,
  is in the snapshot's namespace of the blob store and is not redacted. The conditions: the caller's scope is a token's, the
  store's presence test tells what it holds, and the posted trees, which are named by their hashes, contain no cycle.\<close>
theorem snapshot_created_is_whole:
  assumes "snapshot_create_route env be ke ph auth repo body (w, s) = (Inr (201, hex, expires), w', s')"
    and "token_scope raw = Inr (ap_scope auth)"
    and "ephemeral_has ph held"
    and "\<And>trees. decode_trees env be ke (sb_trees body) = Inr trees \<Longrightarrow> acyclic (subtree_rel trees)"
  shows "\<exists>trees root snap i c row.
    decode_trees env be ke (sb_trees body) = Inr trees \<and> from_hex (sb_tree body) = Some root \<and>
    from_hex (sb_snap body) = Some snap \<and> hex = to_hex snap \<and> cx_at w' i = Some c \<and>
    snapshot_get (cx_db c) i snap = Some row \<and> sn_tree row = root \<and> sn_principal row = ap_principal auth \<and>
    as_u64 (sn_expires row) = expires \<and>
    (\<forall>t. (t, root) \<in> (subtree_rel trees)\<^sup>* \<longrightarrow> om_get trees t \<noteq> None \<and> tree_row (cx_db c) t \<noteq> None) \<and>
    (\<forall>p. closure_file trees root p \<longrightarrow> scope_allows (ap_scope auth) p) \<and>
    card (closure_blob trees root) \<le> 8192 \<and>
    (\<forall>b \<in> closure_blob trees root. held s' hex b \<and> \<not> redaction_active (cx_db c) i b)"
proof -
  obtain snap root trees blobs now x where
      ids: "from_hex (sb_snap body) = Some snap" "from_hex (sb_tree body) = Some root" "hex = to_hex snap"
    and posted: "decode_trees env be ke (sb_trees body) = Inr trees"
    and closure: "check_closure trees root (ap_scope auth) = Inr blobs"
    and asked: "write_asking env be repo (snapshot_write ph
      \<lparr>sa_snap = snap, sa_tree = root, sa_trees = trees, sa_blobs = blobs, sa_principal = ap_principal auth,
       sa_now = as_i64 now, sa_ttl = as_i64 (case sb_ttl body of None \<Rightarrow> SNAPSHOT_DEFAULT_TTL_SECS | Some t \<Rightarrow> t) * 1000000000\<rparr>)
      x = (Inr Snap_Created, w', s')"
    and expires: "expires = as_u64 (i64_add (as_i64 now)
      (as_i64 (case sb_ttl body of None \<Rightarrow> SNAPSHOT_DEFAULT_TTL_SECS | Some t \<Rightarrow> t) * 1000000000))"
    using assms(1)
    by (auto simp: snapshot_create_route_def bbind_Inr bret_Inr blift_Inr parse_id_def ok_or_eq_Inr Let_def
        split: snapshot_outcome.split_asm) (metis snapshot_outcome.exhaust)
  define a where "a = \<lparr>sa_snap = snap, sa_tree = root, sa_trees = trees, sa_blobs = blobs, sa_principal = ap_principal auth,
    sa_now = as_i64 now, sa_ttl = as_i64 (case sb_ttl body of None \<Rightarrow> SNAPSHOT_DEFAULT_TTL_SECS | Some t \<Rightarrow> t) * 1000000000\<rparr>"
  have a: "sa_snap a = snap" "sa_tree a = root" "sa_trees a = trees" "sa_blobs a = blobs" "sa_principal a = ap_principal auth"
      "expires = as_u64 (i64_add (sa_now a) (sa_ttl a))"
    using expires by (simp_all add: a_def)
  obtain i c c' w2 where wrote: "lookup_at env repo (fst x) i c w2" "snapshot_write ph a s' c = Inr (Snap_Created, c')" "w' = put_cx c' w2"
    using asked by (auto simp: write_asking_Inr sv_write_repo_Inr a_def)
  note made = snapshot_write_created [OF wrote(2) assms(3)]
  note closed = check_closure_Inr [OF closure assms(4) [OF posted] assms(2)]
  have at: "cx_at w2 i = Some c" "cx_id c = i" using wrote(1) cx_at_id by (auto simp: lookup_at_def)
  obtain d where d: "cx_at w' i = Some d" "cx_db d = cx_db c'"
    using cx_at_put [OF at(1) made(4,5)] wrote(3) by blast
  have tree: "tree_row (cx_db d) t \<noteq> None" if "om_get trees t \<noteq> None" for t
    using that made(3) [of t] d(2) a(3) by (auto simp: om_get_map_of dest: map_of_SomeD)
  show ?thesis
    by (rule exI [of _ trees], rule exI [of _ root], rule exI [of _ snap], rule exI [of _ i], rule exI [of _ d],
        rule exI [of _ "snapshot_row_of i a"])
      (use ids posted a d made(1,2,4) closed complete_closure [OF closed(1)] at tree in \<open>auto simp: snapshot_row_of_def\<close>)
qed

section \<open>Witness\<close>

definition snap_tree :: tree where
  "snap_tree = [\<lparr>te_name = ascii ''a'', te_kind = EK_File, te_object = replicate 32 1, te_size = 3, te_exec = False\<rparr>]"

definition snap_root :: oid where "snap_root = replicate 32 7"

definition snap_blobs :: "unit blob_env" where
  "snap_blobs = \<lparr>be_has = (\<lambda>_ _. Inr []), be_get = (\<lambda>_ _. Inl Store_Failed), be_put = (\<lambda>s _. (Inl Store_Failed, s)),
     be_others = (\<lambda>_ s. s), be_blake3 = (\<lambda>_. snap_root), be_b64 = (\<lambda>x. x), be_unb64 = Some\<rparr>"

definition snap_create :: create_env where
  "snap_create = \<lparr>ke_nfc = (\<lambda>x. x), ke_lower = (\<lambda>x. x), ke_kinds = [], ke_clock = (\<lambda>_. 0), ke_walk_deadline = 0\<rparr>"

definition snap_ephemeral :: "unit ephemeral_env" where
  "snap_ephemeral = \<lparr>ph_has = (\<lambda>_ _ ids. Inr (map (\<lambda>_. True) ids)), ph_put = (\<lambda>s _ _. (Inl Store_Failed, s)),
     ph_get = (\<lambda>_ _ _. Inl Store_Failed)\<rparr>"

definition snap_author :: authed where
  "snap_author = \<lparr>ap_principal = [120], ap_role = Admin, ap_scope = Some (ascii ''a'')\<rparr>"

definition snap_body :: "bytes \<Rightarrow> snapshot_body" where
  "snap_body b = \<lparr>sb_snap = to_hex (replicate 32 9), sb_tree = to_hex snap_root, sb_ttl = None, sb_trees = [b]\<rparr>"

lemma snap_tree_encodes: "\<exists>b. tree_encode snap_tree = Inr b \<and> length b \<le> TREE_CANONICAL_CAP"
  by (simp add: tree_encode_def snap_tree_def encode_entry_def write_str_def MAX_OBJECT_BYTES_def TREE_CANONICAL_CAP_def
      ascii_def Let_def TREE_MAGIC_def)

lemma snap_tree_valid: "tree_validate (\<lambda>x. x) (\<lambda>x. x) snap_tree = Inr ()"
  by (simp add: tree_validate_def snap_tree_def rep_eval validate_component_def check_case_fold_duplicates_def MAX_ENTRIES_def)

lemma snap_decodes:
  assumes "tree_encode snap_tree = Inr b" "length b \<le> TREE_CANONICAL_CAP"
  shows "decode_trees env snap_blobs snap_create [b] = Inr [(snap_root, b, snap_tree)]"
proof -
  have "\<forall>e \<in> set snap_tree. wf_entry e" by (simp add: snap_tree_def wf_entry_def wf_id_def ascii_def utf8_valid_all_ascii)
  then have "tree_decode b = Inr snap_tree" using assms(1) by (rule tree_dec_enc)
  then show ?thesis
    using assms(2) snap_tree_valid
    by (simp add: decode_trees_def decode_posted_def MAX_SNAPSHOT_TREES_def snap_blobs_def snap_create_def ok_or_def
        om_collect_def object_id_def object_id_in_def)
qed

lemma snap_closure: "check_closure [(snap_root, b, snap_tree)] snap_root (Some (ascii ''a'')) = Inr [replicate 32 1]"
proof -
  have "check_complete [(snap_root, b, snap_tree)] snap_root = Inr ()"
    by (simp add: check_complete_def snap_tree_def rforall_eq_Inr)
  moreover have "walk_closure [(snap_root, b, snap_tree)] snap_root = Some ([replicate 32 1], False)"
    by (simp add: walk_closure_def closure_blobs_walk.simps closure_entry_def snap_tree_def Let_def MAX_SNAPSHOT_BLOBS_def)
  moreover have "violation_in_closure [(snap_root, b, snap_tree)] snap_root (Some (ascii ''a'')) = Some None"
    by (simp add: violation_in_closure_def violation_walk.simps violation_step_def covered_def straddles_def snap_tree_def
        scope_allows_def Let_def)
  ultimately show ?thesis by (simp add: check_closure_def in_time_def)
qed

lemma snap_created:
  assumes "tree_encode snap_tree = Inr b" "length b \<le> TREE_CANONICAL_CAP"
  shows "\<exists>hex expires w' s'. snapshot_create_route quiet_env snap_blobs snap_create snap_ephemeral snap_author [114] (snap_body b)
    (sample_server reader_cat, ()) = (Inr (201, hex, expires), w', s')"
proof -
  let ?w = "sample_server reader_cat"
  have ids: "from_hex (to_hex (replicate 32 9)) = Some (replicate 32 9)" "from_hex (to_hex snap_root) = Some snap_root"
    by (simp_all add: from_hex_to_hex wf_id_def snap_root_def)
  have repo: "repo_id_by_name reader_cat [114] = Some 1" by (simp add: repo_id_by_name_def reader_cat_rows)
  have gate: "repo_write_gate quiet_env snap_author [114] ?w = (Inr (), arrive_req quiet_env ?w)"
    by (simp add: repo_write_gate_def snap_author_def repo_id_or_404_def runs sv_read_def arrive_req_def repo)
  have commit: "\<exists>c'. snapshot_write snap_ephemeral a () c = Inr (Snap_Created, c')"
    if "db_snapshots (cx_db c) = []" "db_redactions (cx_db c) = []" for a c
    using that
    by (simp add: snapshot_write_def snapshot_get_def redactions_active_among_def redaction_active_def snap_ephemeral_def
        snapshot_insert_def insert_unique_def tree_rows_keep filter_empty_conv zip_map2 zip_same_conv_map Let_def)
  have empty: "db_snapshots reader_cat = []" "db_redactions reader_cat = []"
    using ascii_roles by (simp_all add: reader_cat_def reader_writes_def catalog_run)
  have stay: "arrive_req quiet_env w = w\<lparr>sv_tick := sv_tick w + 1\<rparr>" for w by (simp add: arrive_req_def quiet_env_def)
  have slot: "\<exists>w'. write_asking quiet_env snap_blobs [114] (snapshot_write snap_ephemeral a) (arrive_req quiet_env ?w, ()) =
      (Inr Snap_Created, w', ())" for a
  proof -
    obtain c' where "snapshot_write snap_ephemeral a () \<lparr>cx_id = 1, cx_split = False, cx_cat = reader_cat, cx_db = reader_cat\<rparr> =
        Inr (Snap_Created, c')"
      using commit [of "\<lparr>cx_id = 1, cx_split = False, cx_cat = reader_cat, cx_db = reader_cat\<rparr>"] empty by auto
    then show ?thesis
      by (simp add: write_asking_def sv_write_repo_def resolve_repo_def sv_read_def req_bind_def repo stay cx_at_def
          sample_server_def Let_def)
  qed
  have gate: "on_server (repo_write_gate quiet_env snap_author [114]) (?w, ()) = (Inr (), arrive_req quiet_env ?w, ())"
    by (simp add: on_server_def gate)
  have clock: "on_server (now_ns quiet_env) (arrive_req quiet_env ?w, ()) = (Inr 1000, arrive_req quiet_env ?w, ())"
    by (simp add: on_server_def now_ns_def quiet_env_def)
  define a where "a = \<lparr>sa_snap = replicate 32 9, sa_tree = snap_root, sa_trees = [(snap_root, b, snap_tree)],
    sa_blobs = [replicate 32 1], sa_principal = ap_principal snap_author, sa_now = as_i64 1000,
    sa_ttl = as_i64 604800 * 1000000000\<rparr>"
  have scope: "ap_scope snap_author = Some (ascii ''a'')" by (simp add: snap_author_def)
  obtain w' where w': "write_asking quiet_env snap_blobs [114] (snapshot_write snap_ephemeral a) (arrive_req quiet_env ?w, ()) =
      (Inr Snap_Created, w', ())"
    using slot by blast
  have "snapshot_create_route quiet_env snap_blobs snap_create snap_ephemeral snap_author [114] (snap_body b) (?w, ()) =
      bbind (write_asking quiet_env snap_blobs [114] (snapshot_write snap_ephemeral a)) (\<lambda>out.
         case out of
           Snap_Created \<Rightarrow> bret (201, to_hex (replicate 32 9), as_u64 (i64_add (as_i64 1000) (as_i64 604800 * 1000000000)))
         | Snap_Existing recorded \<Rightarrow> bret (200, to_hex (replicate 32 9), as_u64 recorded)) (arrive_req quiet_env ?w, ())"
    by (simp add: snapshot_create_route_def snap_body_def a_def
        bbind_run [where m = "on_server (repo_write_gate quiet_env snap_author [114])" and x = "(?w, ())", OF gate]
        bbind_run [where m = "on_server (now_ns quiet_env)" and x = "(arrive_req quiet_env ?w, ())", OF clock]
        parse_id_def ids ok_or_def check_ttl_def SNAPSHOT_DEFAULT_TTL_SECS_def SNAPSHOT_MIN_TTL_SECS_def
        SNAPSHOT_TTL_MAX_SECS_def Let_def snap_decodes [OF assms] snap_closure scope)
  then show ?thesis using w' by (simp add: bbind_def bret_def)
qed

lemma snap_acyclic: "acyclic (subtree_rel [(snap_root, b, snap_tree)])"
proof -
  have "subtree_rel [(snap_root, b, snap_tree)] = {}" by (auto simp: subtree_rel_def snap_tree_def split: if_splits)
  then show ?thesis by (simp add: wf_acyclic)
qed

theorem snapshot_created_is_whole_witness:
  "\<exists>b hex expires w' i c row.
     snapshot_create_route quiet_env snap_blobs snap_create snap_ephemeral snap_author [114] (snap_body b)
       (sample_server reader_cat, ()) = (Inr (201, hex, expires), w', ()) \<and>
     cx_at w' i = Some c \<and> snapshot_get (cx_db c) i (replicate 32 9) = Some row \<and> sn_tree row = snap_root \<and>
     tree_row (cx_db c) snap_root \<noteq> None"
proof -
  obtain b where b: "tree_encode snap_tree = Inr b" "length b \<le> TREE_CANONICAL_CAP" using snap_tree_encodes by blast
  have ids: "from_hex (to_hex (replicate 32 9)) = Some (replicate 32 9)" "from_hex (to_hex snap_root) = Some snap_root"
    by (simp_all add: from_hex_to_hex wf_id_def snap_root_def)
  obtain hex expires w' where run: "snapshot_create_route quiet_env snap_blobs snap_create snap_ephemeral snap_author [114]
      (snap_body b) (sample_server reader_cat, ()) = (Inr (201, hex, expires), w', ())"
    using snap_created [OF b] by auto
  have "token_scope (Some (ascii ''a'')) = Inr (ap_scope snap_author)" unfolding snap_author_def by code_simp
  moreover have "ephemeral_has snap_ephemeral (\<lambda>_ _ _. True)" by (simp add: ephemeral_has_def snap_ephemeral_def)
  moreover have "acyclic (subtree_rel trees)"
    if "decode_trees quiet_env snap_blobs snap_create (sb_trees (snap_body b)) = Inr trees" for trees
    using that snap_acyclic [of b] by (auto simp: snap_body_def snap_decodes [OF b])
  ultimately show ?thesis
    using snapshot_created_is_whole [OF run] run by (fastforce simp: snap_body_def ids)
qed

end
