(* ===== verification/Read_Correct.thy ===== *)
theory Read_Correct
  imports Snapshots Request_Rules
begin

text \<open>
  What the read routes never show: a tombstoned object.
\<close>

section \<open>The reads of a repository\<close>

text \<open>The routes that read a repository's content, by method and path (\<open>router\<close> in \<open>lib.rs\<close>).\<close>

datatype read_request =
    Read_Tree bytes
  | Read_Changeset bytes
  | Read_Root bytes "bytes option"
  | Read_Log log_query
  | Read_Diff bytes bytes
  | Read_File bytes bytes
  | Read_Raw "cache_ticket option" bytes
  | Read_Batch "bytes list"
  | Read_Snapshot_Tree bytes bytes
  | Read_Snapshot_Blob bytes bytes

datatype read_answer =
    Got_Tree "entry_out list"
  | Got_Changeset changeset_out
  | Got_Root bytes
  | Got_Log log_answer
  | Got_Diff "diff_entry list"
  | Got_File "bytes \<times> u64 \<times> bool"
  | Got_Bytes bytes
  | Got_Batch batch_out

primrec serve_read ::
    "server_env \<Rightarrow> 's blob_env \<Rightarrow> 's ephemeral_env \<Rightarrow> authed \<Rightarrow> bytes \<Rightarrow> read_request \<Rightarrow> (read_answer, 's) breq" where
  "serve_read env be ph auth repo (Read_Tree hex) = bbind (on_server (get_tree_route env auth repo hex)) (bret \<circ> Got_Tree)"
| "serve_read env be ph auth repo (Read_Changeset hex) =
     bbind (on_server (get_changeset_route env auth repo hex)) (bret \<circ> Got_Changeset)"
| "serve_read env be ph auth repo (Read_Root hex h) = bbind (on_server (get_root_route env auth repo hex h)) (bret \<circ> Got_Root)"
| "serve_read env be ph auth repo (Read_Log q) = bbind (on_server (log_route env auth repo q)) (bret \<circ> Got_Log)"
| "serve_read env be ph auth repo (Read_Diff a b) = bbind (on_server (diff_route env auth repo a b)) (bret \<circ> Got_Diff)"
| "serve_read env be ph auth repo (Read_File at path) = bbind (on_server (file_route env auth repo at path)) (bret \<circ> Got_File)"
| "serve_read env be ph auth repo (Read_Raw ticket hex) = bbind (get_raw_route env be auth ticket repo hex) (bret \<circ> Got_Bytes)"
| "serve_read env be ph auth repo (Read_Batch hexes) = bbind (get_batch_route env be auth repo hexes) (bret \<circ> Got_Batch)"
| "serve_read env be ph auth repo (Read_Snapshot_Tree snap t) =
     bbind (on_server (snapshot_tree_route env auth repo snap t)) (bret \<circ> Got_Tree)"
| "serve_read env be ph auth repo (Read_Snapshot_Blob snap hex) =
     bbind (get_blob_route env be ph auth repo snap hex) (bret \<circ> Got_Bytes)"

text \<open>The blobs and trees that an answer names or whose bytes it carries.\<close>

definition log_rows :: "log_answer \<Rightarrow> log_entry list" where
  "log_rows a = (case a of Chain_Page p \<Rightarrow> pg_rows p | Path_Page p _ _ \<Rightarrow> pg_rows p)"

definition objects_shown :: "read_request \<Rightarrow> read_answer \<Rightarrow> bytes set" where
  "objects_shown q a =
     (case a of
        Got_Tree es \<Rightarrow> {h. \<exists>e \<in> set es. eo_object e = Some h}
      | Got_Changeset c \<Rightarrow> {h. \<exists>e \<in> set (ca_changes c). co_blob e = Some h}
      | Got_Diff ds \<Rightarrow> {h. \<exists>d \<in> set ds. df_a d = Some h \<or> df_b d = Some h}
      | Got_File f \<Rightarrow> {fst f}
      | Got_Bytes b \<Rightarrow> (case q of Read_Raw _ hex \<Rightarrow> {hex} | Read_Snapshot_Blob _ hex \<Rightarrow> {hex} | _ \<Rightarrow> {})
      | Got_Batch b \<Rightarrow> fst ` set (bo_objects b)
      | _ \<Rightarrow> {})"

text \<open>The changesets whose author, message or content it carries.\<close>

definition changesets_shown :: "read_request \<Rightarrow> read_answer \<Rightarrow> bytes set" where
  "changesets_shown q a =
     (case a of
        Got_Log l \<Rightarrow> ln_id ` set (log_rows l)
      | _ \<Rightarrow> (case q of
              Read_Changeset hex \<Rightarrow> {hex} | Read_Root hex _ \<Rightarrow> {hex} | Read_Diff a b \<Rightarrow> {a, b} | Read_File at _ \<Rightarrow> {at} | _ \<Rightarrow> {}))"

section \<open>A tombstone that stays\<close>

definition has_tombstone :: "cx \<Rightarrow> oid \<Rightarrow> bytes \<Rightarrow> bool" where
  "has_tombstone c x kind \<longleftrightarrow> (\<exists>t. om_get (db_redactions (cx_db c)) (cx_id c, x) = Some t \<and> rd_kind t = kind)"

definition redacted_at :: "bytes \<Rightarrow> i64 \<Rightarrow> oid \<Rightarrow> bytes \<Rightarrow> server \<Rightarrow> bool" where
  "redacted_at repo r x kind w \<longleftrightarrow>
     repo_id_by_name (sv_cat w) repo = Some r \<and> (\<forall>c. cx_at w r = Some c \<longrightarrow> has_tombstone c x kind)"

definition others_keep_tombstone :: "server_env \<Rightarrow> bytes \<Rightarrow> i64 \<Rightarrow> oid \<Rightarrow> bytes \<Rightarrow> bool" where
  "others_keep_tombstone env repo r x kind \<longleftrightarrow>
     (\<forall>k w. redacted_at repo r x kind w \<longrightarrow> redacted_at repo r x kind (en_others env k w))"

lemma has_tombstone_active: "has_tombstone c x kind \<Longrightarrow> redaction_active (cx_db c) (cx_id c) x"
  by (auto simp: has_tombstone_def redaction_active_def)

lemma redacted_arrive:
  assumes "others_keep_tombstone env repo r x kind" "redacted_at repo r x kind w"
  shows "redacted_at repo r x kind (arrive_req env w)"
proof -
  have "redacted_at repo r x kind (en_others env (sv_tick w) w)" using assms by (auto simp: others_keep_tombstone_def)
  then show ?thesis by (simp add: redacted_at_def arrive_req_def cx_at_def)
qed

lemma redacted_later:
  "later env w w' \<Longrightarrow> others_keep_tombstone env repo r x kind \<Longrightarrow> redacted_at repo r x kind w \<Longrightarrow> redacted_at repo r x kind w'"
  by (induction rule: later.induct) (auto intro: redacted_arrive)

lemma redacted_lookup:
  assumes "others_keep_tombstone env repo r x kind" "redacted_at repo r x kind w" "lookup_at env repo w i c w'"
  shows "has_tombstone c x kind" "redacted_at repo r x kind w'"
proof -
  have "redacted_at repo r x kind (arrive_req env w)" "redacted_at repo r x kind w'"
    using assms by (auto simp: lookup_at_def intro: redacted_arrive)
  then show "has_tombstone c x kind" "redacted_at repo r x kind w'" using assms(3) by (auto simp: lookup_at_def redacted_at_def)
qed

text \<open>A gate that let a request through, then a read of the repository.\<close>

lemma redacted_gate:
  assumes "others_keep_tombstone env repo r x kind" "redacted_at repo r x kind w" "repo_read_gate env auth name w = (Inr u, w')"
  shows "redacted_at repo r x kind w'"
  using redacted_later [OF _ assms(1,2)] read_gate_later [of env w auth name] assms(3) by simp

lemma to_hex_eq: "to_hex i = to_hex j \<Longrightarrow> i = j"
  by (metis hex_bytes_to_hex option.inject)

lemma parse_id_hex: "parse_id hex = Inr i \<Longrightarrow> hex = to_hex i"
  using from_hex_Some by (auto simp: parse_id_def ok_or_eq_Inr)

section \<open>What the reads show\<close>

lemma mask_hides:
  assumes "mask_tree_entries db r rows = Inr es" "e \<in> set es" "eo_object e = Some (to_hex x)" "redaction_active db r x"
  shows False
proof -
  obtain row where "row \<in> set rows" "eo_object e = (if er_object row \<in> set (redactions_active_among db r (map er_object rows))
      then None else Some (to_hex (er_object row)))"
    using assms(1,2) by (auto simp: mask_tree_entries_def mask_entry_def Let_def split: if_splits)
  then show False using assms(3,4) to_hex_eq by (auto simp: redactions_active_among_def split: if_splits)
qed

lemma change_hides:
  assumes "change_out_of gated (path, row) = Inr e" "co_blob e = Some (to_hex x)"
  shows "x \<notin> gated" "ch_blob row = Some x"
  using assms
  by (auto simp: change_out_of_def rbind_eq_Inr expect32_def Let_def dest: to_hex_eq split: option.splits if_splits)

lemma changeset_get_id:
  "changeset_get db r i = Some row \<Longrightarrow> cr_id row = i" "Some row = changeset_get db r i \<Longrightarrow> cr_id row = i"
  by (auto simp: changeset_get_def find_Some_iff is_changeset_def find_Some_iff2)

lemma log_step_shows:
  assumes "row \<in> set (log_step db r i)"
  shows "\<not> redaction_active db r (lr_id row)"
  using assms by (auto simp: log_step_def log_row_of_def dest!: changeset_get_id split: if_splits option.splits)

lemma log_walk_shows:
  assumes "log_walk db r limit i rows = Some out" "\<forall>row \<in> set rows. \<not> redaction_active db r (lr_id row)"
  shows "\<forall>row \<in> set out. \<not> redaction_active db r (lr_id row)"
  using assms(2)
proof (induction rule: log_walk.raw_induct [OF _ assms(1)])
  case (1 walk db r limit i rows out)
  have "\<forall>row \<in> set (rows @ log_step db r i). \<not> redaction_active db r (lr_id row)" using 1(3) by (auto dest: log_step_shows)
  then show ?case using 1 by (auto simp: Let_def split: option.splits if_splits list.splits)
qed

lemma map_filter_member: "y \<in> set (List.map_filter f xs) \<longleftrightarrow> (\<exists>x \<in> set xs. f x = Some y)"
  by (induction xs) (auto simp: List.map_filter_simps split: option.split)

lemma log_row_id: "map_option log_row_of (changeset_get db r i) = Some row \<Longrightarrow> lr_id row = i"
  by (auto simp: log_row_of_def dest: changeset_get_id)

lemma touch_page_shows:
  assumes "row \<in> set (touch_page db r after limit touches)"
  shows "\<not> changeset_tombstone db r (lr_id row)"
  using assms
  by (auto simp: touch_page_def map_filter_member dest!: in_set_takeD log_row_id simp del: map_option_eq_Some)

lemma log_page_shows: "e \<in> set (pg_rows (log_page limit rows)) \<Longrightarrow> \<exists>row \<in> set rows. ln_id e = to_hex (lr_id row)"
  using in_set_takeD by (fastforce simp: log_page_def log_entry_of_def Let_def)

lemma diff_hides:
  assumes "d \<in> set (diff_files redacted a_files b_files)" "df_a d = Some (to_hex x) \<or> df_b d = Some (to_hex x)"
  shows "x \<notin> redacted \<and> (\<exists>f \<in> set a_files \<union> set b_files. fst (snd f) = x)"
proof -
  have hex: "hex_unless hit i = Some (to_hex x) \<longleftrightarrow> \<not> hit \<and> i = x" for hit i
    by (auto simp: hex_unless_def dest: to_hex_eq)
  have left: ?thesis if "f \<in> set a_files" "d \<in> set (diff_left redacted b_files f)" for f
  proof (cases "om_get b_files (fst f)")
    case None
    then show ?thesis using that assms(2) by (auto simp: diff_left_def hex Let_def case_prod_beta)
  next
    case (Some b)
    then have "(fst f, b) \<in> set b_files" by (simp add: om_get_map_of map_of_SomeD)
    then show ?thesis using that assms(2) Some by (force simp: diff_left_def hex Let_def case_prod_beta split: if_splits)
  qed
  have right: ?thesis if "f \<in> set b_files" "d \<in> set (diff_right redacted a_files f)" for f
    using that assms(2) by (auto simp: diff_right_def hex Let_def case_prod_beta split: if_splits)
  show ?thesis using assms(1) left right by (auto simp: diff_files_def)
qed

lemma file_lookup_shows:
  "file_lookup env c path names t = Inr (b, sz, exec) \<Longrightarrow> \<not> redaction_active (cx_db c) (cx_id c) b"
  by (induction names arbitrary: t) (auto simp: rbind_eq_Inr split: option.splits if_splits)

section \<open>Route by route\<close>

text \<open>A tombstone at the start is there at every access of the request.\<close>

definition redacting :: "server_env \<Rightarrow> bytes \<Rightarrow> i64 \<Rightarrow> oid \<Rightarrow> bytes \<Rightarrow> server \<Rightarrow> bool" where
  "redacting env repo r x kind w \<longleftrightarrow> others_keep_tombstone env repo r x kind \<and> redacted_at repo r x kind w"

lemma redacting_gate: "repo_read_gate env auth name w = (Inr u, w') \<Longrightarrow> redacting env repo r x kind w \<Longrightarrow> redacting env repo r x kind w'"
  using redacted_gate by (auto simp: redacting_def)

lemma redacting_lookup:
  "lookup_at env repo w i c w' \<Longrightarrow> redacting env repo r x kind w \<Longrightarrow> has_tombstone c x kind \<and> redacting env repo r x kind w'"
  using redacted_lookup by (auto simp: redacting_def)

lemma redacting_id:
  "repo_id_or_404 env name w = (Inr u, w') \<Longrightarrow> redacting env repo r x kind w \<Longrightarrow> redacting env repo r x kind w'"
  using redacted_later [OF repo_id_later [of env w name]] by (auto simp: redacting_def)

lemma redacting_read:
  assumes "repo_read_gate env auth name w = (Inr u, w1)" "lookup_at env repo w1 i c w2" "redacting env repo r x kind w"
  shows "redaction_active (cx_db c) (cx_id c) x"
  using has_tombstone_active redacting_lookup [OF assms(2) redacting_gate [OF assms(1,3)]] by blast

lemma tree_route_hides:
  assumes "get_tree_route env auth repo hex w = (Inr es, w')" "redacting env repo r x kind w" "e \<in> set es"
  shows "eo_object e \<noteq> Some (to_hex x)"
proof -
  obtain w1 i j c where run: "repo_read_gate env auth repo w = (Inr (), w1)" "lookup_at env repo w1 j c w'"
      "get_tree_read i c = Inr (Some es)"
    using assms(1)
    by (auto simp: get_tree_route_def req_bind_Inr req_lift_Inr sv_read_repo_Inr ret_Inr fail_def split: option.split_asm)
  then have "mask_tree_entries (cx_db c) (cx_id c) (tree_entries_load (cx_db c) i) = Inr es"
    by (auto simp: get_tree_read_def rbind_eq_Inr split: if_splits)
  then show ?thesis using mask_hides redacting_read [OF run(1,2) assms(2)] assms(3) by blast
qed

lemma changeset_route_hides:
  assumes "get_changeset_route env auth repo hex w = (Inr a, w')" "redacting env repo r x kind w"
  shows "hex \<noteq> to_hex x" "e \<in> set (ca_changes a) \<Longrightarrow> co_blob e \<noteq> Some (to_hex x)"
proof -
  obtain w1 i j c d w2 where run: "repo_read_gate env auth repo w = (Inr (), w1)" "lookup_at env repo w1 j c w2"
      "parse_id hex = Inr i" "get_changeset_read repo hex i c = Inr (Some d)"
      "rmap (change_out_of (cd_gated d)) (cd_changes d) = Inr (ca_changes a)"
    using assms(1)
    by (auto simp: get_changeset_route_def req_bind_Inr req_lift_Inr sv_read_repo_Inr ret_Inr fail_def Let_def split: option.split_asm)
  have x: "redaction_active (cx_db c) (cx_id c) x"
    using redacting_read [OF run(1,2) assms(2)] .
  have d: "\<not> redaction_active (cx_db c) (cx_id c) i"
      "cd_gated d = set (redactions_active_among (cx_db c) (cx_id c) (changed_blobs (cd_changes d)))"
    using run(4) by (auto simp: get_changeset_read_def Let_def split: if_splits option.splits)
  show "hex \<noteq> to_hex x" using parse_id_hex [OF run(3)] d(1) x to_hex_eq by blast
  show "co_blob e \<noteq> Some (to_hex x)" if e: "e \<in> set (ca_changes a)"
  proof
    assume shown: "co_blob e = Some (to_hex x)"
    obtain path row where row: "(path, row) \<in> set (cd_changes d)" "change_out_of (cd_gated d) (path, row) = Inr e"
      using rmap_member' [OF run(5) e] by auto
    have "length x = 32" using row(2) change_hides [OF row(2) shown] by (auto simp: change_out_of_def rbind_eq_Inr expect32_def Let_def split: if_splits)
    then have "x \<in> set (changed_blobs (cd_changes d))"
      using row(1) change_hides [OF row(2) shown] by (force simp: changed_blobs_def map_filter_member)
    then show False using x d(2) change_hides [OF row(2) shown] by (auto simp: redactions_active_among_def)
  qed
qed

lemma root_route_hides:
  assumes "get_root_route env auth repo hex h w = (Inr a, w')" "redacting env repo r x kind w"
  shows "hex \<noteq> to_hex x"
proof -
  obtain w1 i j c d w2 where run: "repo_read_gate env auth repo w = (Inr (), w1)" "lookup_at env repo w1 j c w2"
      "parse_id hex = Inr i" "get_root_read repo hex h i c = Inr (Some d)"
    using assms(1)
    by (auto simp: get_root_route_def req_bind_Inr req_lift_Inr sv_read_repo_Inr ret_Inr fail_def split: option.split_asm)
  have x: "redaction_active (cx_db c) (cx_id c) x"
    using redacting_read [OF run(1,2) assms(2)] .
  have "\<not> redaction_active (cx_db c) (cx_id c) i" using run(4) by (auto simp: get_root_read_def Let_def split: if_splits)
  then show ?thesis using parse_id_hex [OF run(3)] x to_hex_eq by blast
qed

lemma log_route_hides:
  assumes "log_route env auth repo q w = (Inr a, w')" "redacting env repo r x (ascii ''changeset'') w" "e \<in> set (log_rows a)"
  shows "ln_id e \<noteq> to_hex x"
proof (cases "gq_path q")
  case None
  obtain w1 j c w2 limit start rows where run: "repo_read_gate env auth repo w = (Inr (), w1)" "lookup_at env repo w1 j c w2"
      "log_read repo start limit c = Inr rows" "a = Chain_Page (log_page limit rows)"
    using assms(1) None
    by (auto simp: log_route_def req_bind_Inr req_lift_Inr sv_read_repo_Inr ret_Inr)
  have x: "redaction_active (cx_db c) (cx_id c) x"
    using redacting_read [OF run(1,2) assms(2)] .
  obtain row where row: "row \<in> set rows" "ln_id e = to_hex (lr_id row)"
    using log_page_shows [of e limit rows] assms(3) run(4) by (auto simp: log_rows_def)
  have "\<not> redaction_active (cx_db c) (cx_id c) (lr_id row)"
    using run(3) row(1) log_walk_shows [of "cx_db c" "cx_id c" _ _ "[]"]
    by (auto simp: log_read_def rbind_eq_Inr in_time_def log_chain_def split: option.splits)
  then show ?thesis using row(2) x to_hex_eq by metis
next
  case (Some path)
  obtain w1 w2 j c w3 limit cursor rows poisoned where run: "repo_read_gate env auth repo w = (Inr (), w1)"
      "later env w1 w2" "lookup_at env repo w2 j c w3"
      "path_log_read path cursor limit c = Inr (rows, poisoned)" "log_rows a = pg_rows (log_page limit rows)"
    using assms(1) Some
    by (cases "gq_cursor q")
      (auto simp: log_route_def path_log_def req_bind_Inr req_lift_Inr sv_read_repo_Inr ret_Inr log_rows_def,
        (blast intro: later_refl later_lookup)+)
  have "redacting env repo r x (ascii ''changeset'') w2"
    using redacting_gate [OF run(1) assms(2)] redacted_later [OF run(2)] by (auto simp: redacting_def)
  then have x: "has_tombstone c x (ascii ''changeset'')" using run(3) redacting_lookup by blast
  obtain row where row: "row \<in> set rows" "ln_id e = to_hex (lr_id row)"
    using assms(3) run(5) log_page_shows by metis
  have "\<not> changeset_tombstone (cx_db c) (cx_id c) (lr_id row)"
    using run(4) row(1)
    by (auto simp: path_log_read_def path_history_page_def path_history_scan_def Let_def dest: touch_page_shows split: option.splits if_splits)
  then show ?thesis using row(2) x by (auto simp: has_tombstone_def changeset_tombstone_def dest: to_hex_eq)
qed

lemma diff_route_hides:
  assumes "diff_route env auth repo a_hex b_hex w = (Inr ds, w')" "redacting env repo r x kind w"
  shows "a_hex \<noteq> to_hex x" "b_hex \<noteq> to_hex x"
    and "d \<in> set ds \<Longrightarrow> \<not> (df_a d = Some (to_hex x) \<or> df_b d = Some (to_hex x))"
proof -
  obtain w1 a b j c where run: "repo_read_gate env auth repo w = (Inr (), w1)" "lookup_at env repo w1 j c w'"
      "parse_id a_hex = Inr a" "parse_id b_hex = Inr b" "diff_read repo a b c = Inr ds"
    using assms(1) by (auto simp: diff_route_def req_bind_Inr req_lift_Inr sv_read_repo_Inr)
  note x = redacting_read [OF run(1,2) assms(2)]
  have "\<not> redaction_active (cx_db c) (cx_id c) a" "\<not> redaction_active (cx_db c) (cx_id c) b"
    using run(5) by (auto simp: diff_read_def Let_def split: if_splits)
  then show "a_hex \<noteq> to_hex x" "b_hex \<noteq> to_hex x" using parse_id_hex [OF run(3)] parse_id_hex [OF run(4)] x to_hex_eq by blast+
  obtain a_files b_files where ds: "ds = diff_files (set (redactions_active_among (cx_db c) (cx_id c)
      (map (fst \<circ> snd) a_files @ map (fst \<circ> snd) b_files))) a_files b_files"
    using run(5) by (auto simp: diff_read_def rbind_eq_Inr Let_def split: if_splits)
  show "\<not> (df_a d = Some (to_hex x) \<or> df_b d = Some (to_hex x))" if d: "d \<in> set ds"
  proof
    assume "df_a d = Some (to_hex x) \<or> df_b d = Some (to_hex x)"
    from diff_hides [OF d [unfolded ds] this] show False using x by (auto simp: redactions_active_among_def)
  qed
qed

lemma file_route_hides:
  assumes "file_route env auth repo at_hex path w = (Inr f, w')" "redacting env repo r x kind w"
  shows "at_hex \<noteq> to_hex x" "fst f \<noteq> to_hex x"
proof -
  obtain w1 i j c b where run: "repo_read_gate env auth repo w = (Inr (), w1)" "lookup_at env repo w1 j c w'"
      "parse_id at_hex = Inr i" "file_read env repo path i c = Inr (Some (b, snd f))" "fst f = to_hex b"
    using assms(1)
    by (auto simp: file_route_def req_bind_Inr req_lift_Inr sv_read_repo_Inr ret_Inr fail_def split: option.split_asm)
  note x = redacting_read [OF run(1,2) assms(2)]
  have "\<not> redaction_active (cx_db c) (cx_id c) i" using run(4) by (auto simp: file_read_def split: if_splits)
  then show "at_hex \<noteq> to_hex x" using parse_id_hex [OF run(3)] x to_hex_eq by blast
  have "\<not> redaction_active (cx_db c) (cx_id c) b"
    using run(4) by (cases "snd f") (auto simp: file_read_def rbind_eq_Inr dest: file_lookup_shows split: if_splits option.splits)
  then show "fst f \<noteq> to_hex x" using run(5) x to_hex_eq by metis
qed

lemma fetch_gate_keeps:
  assumes "fetch_gate env auth ticket repo w = (Inr u, w')" "redacting env repo r x kind w"
  shows "redacting env repo r x kind w'"
  using assms
  by (auto simp: fetch_gate_def req_bind_Inr guard_Inr sv_read_repo_Inr fail_def split: option.split_asm if_splits
      dest: redacting_gate redacting_id redacting_lookup)

lemma raw_route_hides:
  assumes "get_raw_route env be auth ticket repo hex (w, s) = (Inr b, y)" "redacting env repo r x kind w"
  shows "hex \<noteq> to_hex x"
proof -
  obtain w1 w2 i j c where run: "fetch_gate env auth ticket repo w = (Inr (), w1)" "lookup_at env repo w1 j c w2"
      "parse_id hex = Inr i" "\<not> redaction_active (cx_db c) (cx_id c) i"
    using assms(1)
    by (auto simp: get_raw_route_def bbind_Inr blift_Inr on_server_Inr sv_read_repo_Inr split: if_splits)
  have "redaction_active (cx_db c) (cx_id c) x"
    using redacting_lookup [OF run(2) fetch_gate_keeps [OF run(1) assms(2)]] has_tombstone_active by blast
  then show ?thesis using parse_id_hex [OF run(3)] run(4) to_hex_eq by blast
qed

lemma fetched_shows: "(hex, Some b) \<in> set (map (fetch_member be s) ids) \<Longrightarrow> \<exists>i \<in> set ids. hex = to_hex i"
  by (auto simp: fetch_member_def split: sum.splits store_error.splits)

lemma reassemble_shows:
  "(h, p) \<in> set (bo_objects (reassemble be redacted ids fetched out)) \<Longrightarrow>
     (h, p) \<in> set (bo_objects out) \<or> (\<exists>b. (h, Some b) \<in> set fetched)"
  by (induction be redacted ids fetched out rule: reassemble.induct)
    (auto split: if_split_asm list.split_asm option.split_asm prod.split_asm, blast)

lemma batch_route_hides:
  assumes "get_batch_route env be auth repo hexes (w, s) = (Inr out, y)" "redacting env repo r x kind w"
  shows "to_hex x \<notin> fst ` set (bo_objects out)"
proof -
  obtain w1 w2 ids j c s' where run: "repo_read_gate env auth repo w = (Inr (), w1)" "lookup_at env repo w1 j c w2"
      "out = reassemble be (set (redactions_active_among (cx_db c) (cx_id c) ids))
        (zip ids (map (repo_blob_check (cx_db c) (cx_id c)) ids))
        (map (fetch_member be s') (map fst (filter (\<lambda>(i, m). m \<and> i \<notin> set (redactions_active_among (cx_db c) (cx_id c) ids))
           (zip ids (map (repo_blob_check (cx_db c) (cx_id c)) ids)))))
        \<lparr>bo_objects = [], bo_missing = [], bo_redacted = map to_hex (remdups (redactions_active_among (cx_db c) (cx_id c) ids))\<rparr>"
    using assms(1)
    by (auto simp: get_batch_route_def bbind_Inr blift_Inr bret_Inr on_server_Inr sv_read_repo_Inr blocking_Inr)
  note x = redacting_read [OF run(1,2) assms(2)]
  show ?thesis
  proof
    assume "to_hex x \<in> fst ` set (bo_objects out)"
    then obtain p where p: "(to_hex x, p) \<in> set (bo_objects out)" by auto
    let ?members = "filter (\<lambda>(i, m). m \<and> i \<notin> set (redactions_active_among (cx_db c) (cx_id c) ids))
      (zip ids (map (repo_blob_check (cx_db c) (cx_id c)) ids))"
    obtain b where b: "(to_hex x, Some b) \<in> set (map (fetch_member be s') (map fst ?members))"
      using reassemble_shows [OF p [unfolded run(3)]] by auto
    obtain i where "i \<in> set (map fst ?members)" "to_hex x = to_hex i" using fetched_shows [OF b] by (elim bexE) (rule that)
    then have "i \<in> set ids" "i \<notin> set (redactions_active_among (cx_db c) (cx_id c) ids)" "to_hex x = to_hex i"
      by (auto dest: set_zip_leftD)
    then show False using x to_hex_eq [of x i] by (auto simp: redactions_active_among_def)
  qed
qed

lemma snapshot_tree_hides:
  assumes "snapshot_tree_route env auth repo snap hex w = (Inr es, w')" "redacting env repo r x kind w" "e \<in> set es"
  shows "eo_object e \<noteq> Some (to_hex x)"
proof -
  obtain w1 w2 j c j' c' w3 root t where run: "repo_read_gate env auth repo w = (Inr (), w1)" "lookup_at env repo w1 j c w2"
      "lookup_at env repo w2 j' c' w3" "snapshot_tree_read root t c' = Inr (Some es)"
    using assms(1)
    by (auto simp: snapshot_tree_route_def load_owned_unexpired_def req_bind_Inr req_lift_Inr sv_read_repo_Inr ret_Inr now_ns_Inr
        fail_def split: option.split_asm if_splits)
  have "redacting env repo r x kind w2" using redacting_lookup [OF run(2) redacting_gate [OF run(1) assms(2)]] by blast
  then have x: "redaction_active (cx_db c') (cx_id c') x" using redacting_lookup [OF run(3)] has_tombstone_active by blast
  have "mask_tree_entries (cx_db c') (cx_id c') (tree_entries_load (cx_db c') t) = Inr es"
    using run(4) by (auto simp: snapshot_tree_read_def rbind_eq_Inr split: if_splits)
  then show ?thesis using mask_hides x assms(3) by blast
qed

lemma snapshot_blob_hides:
  assumes "get_blob_route env be ph auth repo snap hex (w, s) = (Inr b, y)" "redacting env repo r x kind w"
  shows "hex \<noteq> to_hex x"
proof -
  obtain w1 w2 i j c where run: "repo_read_gate env auth repo w = (Inr (), w1)" "lookup_at env repo w1 j c w2"
      "parse_id hex = Inr i" "\<not> redaction_active (cx_db c) (cx_id c) i"
    using assms(1)
    by (auto simp: get_blob_route_def bbind_Inr blift_Inr on_server_Inr sv_read_repo_Inr split: if_splits)
  show ?thesis using parse_id_hex [OF run(3)] run(4) redacting_read [OF run(1,2) assms(2)] to_hex_eq by blast
qed

section \<open>Properties\<close>

text \<open>C12: a redacted object is not served. While a tombstone of the repository stays in place - it is there when the request
  starts, and no other request withdraws it or re-registers the name -, no answer of the routes
  below, which read the repository's content (blame is not modelled) - directory listings, changesets, roots, the log with and without a path, diffs,
  files, single and batched blobs, and a snapshot's own trees and blobs - names the object as an entry, a change or a
  side of a diff, or carries its bytes; and if the object is a changeset, no answer lists it in the log or is computed
  from it. It does not matter who asks, whether the bytes are still in the store, or what other requests do meanwhile.
  (A child still lists a redacted changeset among its parents, and the log of a path names redacted changesets it could
  not derive.)\<close>
theorem redacted_is_never_served:
  assumes "redacted_at repo r x kind w"
    and "others_keep_tombstone env repo r x kind"
    and "serve_read env be ph auth repo q (w, s) = (Inr a, y)"
  shows "to_hex x \<notin> objects_shown q a \<and> (kind = ascii ''changeset'' \<longrightarrow> to_hex x \<notin> changesets_shown q a)"
proof -
  have red: "redacting env repo r x kind w" using assms(1,2) by (simp add: redacting_def)
  have run: "serve_read env be ph auth repo q (w, s) = (Inr a, y)" by (fact assms(3))
  show ?thesis
  proof (cases q)
    case (Read_Tree hex)
    then show ?thesis
      using run tree_route_hides [OF _ red] by (auto simp: answered objects_shown_def changesets_shown_def)
  next
    case (Read_Changeset hex)
    then show ?thesis
      using run changeset_route_hides [OF _ red] by (fastforce simp: answered objects_shown_def changesets_shown_def)
  next
    case (Read_Root hex h)
    then show ?thesis
      using run root_route_hides [OF _ red] by (fastforce simp: answered objects_shown_def changesets_shown_def)
  next
    case (Read_Log lq)
    then show ?thesis
      using run log_route_hides red by (fastforce simp: answered objects_shown_def changesets_shown_def)
  next
    case (Read_Diff a b)
    then show ?thesis
      using run diff_route_hides [OF _ red] by (fastforce simp: answered objects_shown_def changesets_shown_def)
  next
    case (Read_File at path)
    then show ?thesis
      using run file_route_hides [OF _ red] by (fastforce simp: answered objects_shown_def changesets_shown_def)
  next
    case (Read_Raw ticket hex)
    then show ?thesis
      using run raw_route_hides [OF _ red] by (fastforce simp: bbind_Inr bret_Inr objects_shown_def changesets_shown_def)
  next
    case (Read_Batch hexes)
    then show ?thesis
      using run batch_route_hides [OF _ red] by (fastforce simp: bbind_Inr bret_Inr objects_shown_def changesets_shown_def)
  next
    case (Read_Snapshot_Tree snap t)
    then show ?thesis
      using run snapshot_tree_hides [OF _ red] by (auto simp: answered objects_shown_def changesets_shown_def)
  next
    case (Read_Snapshot_Blob snap hex)
    then show ?thesis
      using run snapshot_blob_hides [OF _ red] by (fastforce simp: bbind_Inr bret_Inr objects_shown_def changesets_shown_def)
  qed
qed

definition redacted_cat :: repo_db where
  "redacted_cat = reader_cat\<lparr>db_redactions :=
     [((1, replicate 32 5), \<lparr>rd_kind = ascii ''blob'', rd_path = None, rd_marked = 9, rd_purged = None\<rparr>)]\<rparr>"

definition idle_store :: "unit blob_env" where
  "idle_store = \<lparr>be_has = (\<lambda>_ ids. Inr (map (\<lambda>_. True) ids)), be_get = (\<lambda>_ _. Inr [1]), be_put = (\<lambda>s _. (Inr ([], 0), s)),
     be_others = (\<lambda>_ s. s), be_blake3 = (\<lambda>x. x), be_b64 = (\<lambda>x. x), be_unb64 = Some\<rparr>"

definition idle_ephemeral :: "unit ephemeral_env" where
  "idle_ephemeral = \<lparr>ph_has = (\<lambda>_ _ ids. Inr (map (\<lambda>_. True) ids)), ph_put = (\<lambda>s _ _. (Inr [], s)), ph_get = (\<lambda>_ _ _. Inr [1])\<rparr>"

lemma redacted_batch:
  "\<exists>out y. get_batch_route quiet_env idle_store sample_admin [114] [to_hex (replicate 32 5)] (sample_server redacted_cat, ()) = (Inr out, y)"
proof -
  have ids: "from_hex (to_hex (replicate 32 5)) = Some (replicate 32 5)" by (simp add: from_hex_to_hex wf_id_def)
  have repo: "repo_id_by_name redacted_cat [114] = Some 1"
    by (simp add: repo_id_by_name_def redacted_cat_def reader_cat_rows)
  show ?thesis
    by (simp add: get_batch_route_def bbind_def on_server_def blift_def bret_def blocking_def parse_id_batch_def BATCH_CAP_def
        parse_id_def ids ok_or_def repo_read_gate_def sample_admin_def repo_id_or_404_def runs sv_read_def arrive_req_def
        sample_server_def quiet_env_def repo sv_read_repo_def resolve_repo_def cx_at_def Let_def idle_store_def)
qed

theorem redacted_is_never_served_witness:
  "\<exists>a y. serve_read quiet_env idle_store idle_ephemeral sample_admin [114] (Read_Batch [to_hex (replicate 32 5)])
       (sample_server redacted_cat, ()) = (Inr a, y) \<and>
     to_hex (replicate 32 5) \<notin> objects_shown (Read_Batch [to_hex (replicate 32 5)]) a"
proof -
  have "redacted_at [114] 1 (replicate 32 5) (ascii ''blob'') (sample_server redacted_cat)"
    by (auto simp: redacted_at_def has_tombstone_def repo_id_by_name_def cx_at_def sample_server_def redacted_cat_def reader_cat_rows)
  note there = this
  have keep: "others_keep_tombstone quiet_env [114] 1 (replicate 32 5) (ascii ''blob'')"
    by (simp add: others_keep_tombstone_def)
  obtain out y where "get_batch_route quiet_env idle_store sample_admin [114] [to_hex (replicate 32 5)]
      (sample_server redacted_cat, ()) = (Inr out, y)"
    using redacted_batch by blast
  then have run: "serve_read quiet_env idle_store idle_ephemeral sample_admin [114] (Read_Batch [to_hex (replicate 32 5)])
      (sample_server redacted_cat, ()) = (Inr (Got_Batch out), y)"
    by (simp add: bbind_def bret_def)
  from redacted_is_never_served [OF there keep run] run show ?thesis by blast
qed

end
