(* ===== verification/Route_Privacy.thy ===== *)
theory Route_Privacy
  imports Read_Correct
begin

text \<open>
  The routes below a repository, together, and what they tell a principal who may not read it.
\<close>

section \<open>The routes\<close>

text \<open>By method and path (\<open>router\<close> in \<open>lib.rs\<close>); the lands are in \<open>Land\<close>, the merge base and blame have no
  request here, and a cache ticket takes another gate.\<close>

datatype any_request =
    Any_Admin repo_request
  | Any_Read read_request
  | Any_Present "bytes list"
  | Any_Upload bytes bytes
  | Any_Uploads "(bytes \<times> bytes) list"
  | Any_Create create_body
  | Any_Redact redaction_body
  | Any_Redactions list_query
  | Any_Snapshot snapshot_body
  | Any_Snapshot_Meta bytes
  | Any_Snapshot_Upload bytes bytes bytes
  | Any_Mint mint_body

datatype any_answer =
    Was_Admin repo_answer
  | Was_Read read_answer
  | Was_Present "bytes list \<times> bytes list"
  | Was_Upload "nat \<times> bytes"
  | Was_Uploads "bytes list \<times> (bytes \<times> bytes) list"
  | Was_Created changeset_created
  | Was_Redacted "nat \<times> redaction_entry \<times> bool"
  | Was_Redactions "redaction_entry page"
  | Was_Snapshot "nat \<times> bytes \<times> u64"
  | Was_Meta snapshot_out
  | Was_Minted ticket_created

text \<open>What the deployment supplies.\<close>

record ('s, 'k) deployment =
  dp_env :: server_env
  dp_blobs :: "'s blob_env"
  dp_create :: create_env
  dp_ephemeral :: "'s ephemeral_env"
  dp_tickets :: "'k ticket_env"

primrec serve_any :: "('s, 'k) deployment \<Rightarrow> authed \<Rightarrow> bytes \<Rightarrow> any_request \<Rightarrow> (any_answer, 's) breq" where
  "serve_any d auth repo (Any_Admin q) = bbind (on_server (serve_repo (dp_env d) auth repo q)) (bret \<circ> Was_Admin)"
| "serve_any d auth repo (Any_Read q) = bbind (serve_read (dp_env d) (dp_blobs d) (dp_ephemeral d) auth repo q) (bret \<circ> Was_Read)"
| "serve_any d auth repo (Any_Present hexes) = bbind (present_route (dp_env d) (dp_blobs d) auth repo hexes) (bret \<circ> Was_Present)"
| "serve_any d auth repo (Any_Upload hex payload) =
     bbind (put_raw_route (dp_env d) (dp_blobs d) auth repo hex payload) (bret \<circ> Was_Upload)"
| "serve_any d auth repo (Any_Uploads entries) =
     bbind (create_batch_route (dp_env d) (dp_blobs d) auth repo entries) (bret \<circ> Was_Uploads)"
| "serve_any d auth repo (Any_Create body) =
     bbind (create_route (dp_env d) (dp_blobs d) (dp_create d) auth repo body) (bret \<circ> Was_Created)"
| "serve_any d auth repo (Any_Redact body) =
     bbind (on_server (redactions_create_route (dp_env d) auth repo body)) (bret \<circ> Was_Redacted)"
| "serve_any d auth repo (Any_Redactions q) =
     bbind (on_server (redactions_list_route (dp_env d) auth repo q)) (bret \<circ> Was_Redactions)"
| "serve_any d auth repo (Any_Snapshot body) =
     bbind (snapshot_create_route (dp_env d) (dp_blobs d) (dp_create d) (dp_ephemeral d) auth repo body) (bret \<circ> Was_Snapshot)"
| "serve_any d auth repo (Any_Snapshot_Meta hex) =
     bbind (on_server (get_metadata_route (dp_env d) auth repo hex)) (bret \<circ> Was_Meta)"
| "serve_any d auth repo (Any_Snapshot_Upload snap hex payload) =
     bbind (put_blob_route (dp_env d) (dp_blobs d) (dp_ephemeral d) auth repo snap hex payload) (bret \<circ> Was_Upload)"
| "serve_any d auth repo (Any_Mint body) =
     bbind (on_server (mint_route (dp_env d) (dp_tickets d) auth repo body)) (bret \<circ> Was_Minted)"

section \<open>The gates come first\<close>

lemma bbind_Inl: "fst (m x) = Inl e \<Longrightarrow> fst (bbind m f x) = Inl e"
  by (cases "m x") (simp add: bbind_def)

lemma on_server_fst: "fst (on_server m (w, s)) = fst (m w)"
  by (simp add: on_server_def split: prod.split)

text \<open>What every route answers when the gate finds no repository; the raw fetch parses its id before the gate.\<close>

definition unseen_answer :: "server_env \<Rightarrow> bytes \<Rightarrow> any_request \<Rightarrow> api_error" where
  "unseen_answer env repo q =
     (case q of
        Any_Read (Read_Raw _ hex) \<Rightarrow> (case parse_id hex of Inl e \<Rightarrow> e | Inr _ \<Rightarrow> no_repo env repo)
      | _ \<Rightarrow> no_repo env repo)"

definition by_bearer :: "any_request \<Rightarrow> bool" where
  "by_bearer q \<longleftrightarrow> (case q of Any_Read (Read_Raw (Some _) _) \<Rightarrow> False | _ \<Rightarrow> True)"

lemma reads_invisible:
  assumes "fst (repo_read_gate env auth repo w) = Inl (no_repo env repo)" "by_bearer (Any_Read q)"
  shows "fst (serve_read env be ph auth repo q (w, s)) = Inl (unseen_answer env repo (Any_Read q))"
proof (cases q)
  case (Read_Raw ticket hex)
  then have "ticket = None" using assms(2) by (cases ticket) (simp_all add: by_bearer_def)
  then have gate: "fst (on_server (fetch_gate env auth ticket repo) (w, s)) = Inl (no_repo env repo)"
    using assms(1) by (simp add: on_server_fst fetch_gate_def)
  show ?thesis
  proof (cases "parse_id hex")
    case (Inl e)
    then show ?thesis using Read_Raw by (simp add: get_raw_route_def bbind_def blift_def unseen_answer_def)
  next
    case (Inr i)
    then show ?thesis using Read_Raw gate by (simp add: get_raw_route_def bbind_Inl unseen_answer_def)
  qed
qed (simp_all add: unseen_answer_def bbind_Inl on_server_fst req_bind_Inl assms(1) get_tree_route_def get_changeset_route_def
      get_root_route_def log_route_def diff_route_def file_route_def get_batch_route_def snapshot_tree_route_def get_blob_route_def)


text \<open>Witness: a writer who has no grant on a private repository asks for the root of a changeset.\<close>

definition sample_deployment :: "(unit, bytes) deployment" where
  "sample_deployment = \<lparr>dp_env = quiet_env, dp_blobs = idle_store,
     dp_create = \<lparr>ke_nfc = (\<lambda>x. x), ke_lower = (\<lambda>x. x), ke_kinds = [], ke_clock = (\<lambda>_. 0), ke_walk_deadline = 0\<rparr>,
     dp_ephemeral = idle_ephemeral, dp_tickets = no_tickets\<rparr>"


end
