(* ===== verification/Create_Correct.thy ===== *)
theory Create_Correct
  imports Create_Route Request_Rules Land_Correct
begin

text \<open>
  What a created changeset leaves in the database: its row, and a tree that is the parent's with the delta applied.
\<close>

section \<open>Types are kept\<close>

definition typed_change :: "file_change \<Rightarrow> bool" where
  "typed_change c \<longleftrightarrow> utf8_valid (fc_path c) \<and> (\<forall>b. fc_blob c = Some b \<longrightarrow> wf_id b)"

lemma typed_get: "typed_node node \<Longrightarrow> om_get node n = Some e \<Longrightarrow> utf8_valid n \<and> typed_mem e"
  by (auto simp: typed_node_def list_all_iff om_get_map_of dest!: map_of_SomeD)

lemma typed_insert: "typed_node node \<Longrightarrow> utf8_valid n \<Longrightarrow> typed_mem e \<Longrightarrow> typed_node (om_insert n e node)"
  by (induction n e node rule: om_insert.induct) auto

lemma typed_remove: "typed_node node \<Longrightarrow> typed_node (om_remove n node)"
  by (induction n node rule: om_remove.induct) auto

lemma insert_in_typed:
  assumes "typed_node node" "\<forall>d \<in> set dirs. utf8_valid d" "utf8_valid leaf" "typed_mem e" "insert_in node dirs leaf full e = Inr node'"
  shows "typed_node node'"
  using assms
proof (induction dirs arbitrary: node node')
  case (Cons name dirs)
  show ?case
  proof (cases "om_get node name")
    case None
    then show ?thesis using Cons.prems Cons.IH [of mem_empty] by (auto simp: rbind_eq_Inr mem_empty_def intro!: typed_insert)
  next
    case (Some x)
    then show ?thesis
      using Cons.prems Cons.IH typed_get [OF Cons.prems(1) Some] by (cases x) (auto simp: rbind_eq_Inr intro!: typed_insert)
  qed
qed (auto intro: typed_insert)

lemma remove_in_typed: "typed_node node \<Longrightarrow> typed_node (fst (remove_in node dirs leaf))"
proof (induction node dirs leaf rule: remove_in.induct)
  case (2 node name dirs leaf)
  show ?case
  proof (cases "om_get node name")
    case (Some x)
    then show ?thesis
      using 2 typed_get [OF 2(2) Some]
      by (cases x) (auto simp: split: prod.splits intro!: typed_insert typed_remove)
  qed (use 2 in simp)
qed (simp add: typed_remove)

lemma split_leaf_typed:
  assumes "utf8_valid path" "split_leaf path = (dirs, leaf)"
  shows "\<forall>d \<in> set dirs. utf8_valid d" "utf8_valid leaf"
proof -
  have "utf8_valid q" if "q \<in> set (split_on slash path)" for q using split_on_chars(1) [OF assms(1) _ that] by simp
  moreover have "dirs = butlast (split_on slash path)" "leaf = last (split_on slash path)"
    using assms(2) by (auto simp: split_leaf_def Let_def)
  ultimately show "\<forall>d \<in> set dirs. utf8_valid d" "utf8_valid leaf"
    using split_on_not_Nil [of slash path] by (auto dest: in_set_butlastD)
qed

lemma apply_change_typed:
  assumes "typed_node node" "typed_change c" "apply_change node c = Inr node'"
  shows "typed_node node'"
proof -
  obtain dirs leaf where sp: "split_leaf (fc_path c) = (dirs, leaf)" by force
  have u: "utf8_valid (fc_path c)" using assms(2) by (simp add: typed_change_def)
  note pieces = split_leaf_typed [OF u sp]
  have put: "wf_id b \<Longrightarrow> insert_in node dirs leaf full (MFile b z x) = Inr n \<Longrightarrow> typed_node n" for b z x full n
    using insert_in_typed [OF assms(1) pieces, of "MFile b z x"] by simp
  show ?thesis
    using assms sp
    by (auto simp: apply_change_def insert_file_def remove_file_def typed_change_def remove_in_typed dest: put
        split: if_splits option.splits)
qed

lemma apply_changes_typed:
  "typed_node node \<Longrightarrow> \<forall>c \<in> set cs. typed_change c \<Longrightarrow> apply_changes node cs = Inr node' \<Longrightarrow> typed_node node'"
  by (induction cs arbitrary: node) (auto simp: rbind_eq_Inr dest: apply_change_typed)

section \<open>What the derivation queue leaves alone\<close>

definition same_content :: "repo_db \<Rightarrow> repo_db \<Rightarrow> bool" where
  "same_content db db' \<longleftrightarrow> db_changesets db' = db_changesets db \<and> db_trees db' = db_trees db \<and>
     db_tree_entries db' = db_tree_entries db"

text \<open>A deriver leaves the changesets and the trees alone.\<close>

definition keeps_content :: "unit registered_kind \<Rightarrow> bool" where
  "keeps_content kind \<longleftrightarrow> (\<forall>ctx db repo cs outs. same_content db (snd (rk_derive kind ctx db repo cs outs)))"

lemma same_content_trans: "same_content a b \<Longrightarrow> same_content b c \<Longrightarrow> same_content a c"
  by (simp add: same_content_def)

lemma queue_writes_content:
  "same_content db (derive_report kind repo cs reason ts db)" "same_content db (derive_poison_now kind repo cs reason ts db)"
  "same_content db (snd (derive_fail_attempt kind repo cs reason ts db))" "same_content db (derive_enqueue_pending kind repo cs db)"
  by (simp_all add: same_content_def derive_report_def derive_poison_now_def derive_fail_attempt_def derive_enqueue_pending_def
      upsert_node_def update_node_def Let_def)

lemma enqueue_eager_content:
  assumes "keeps_content kind" "enqueue_eager kind repo cs parents env db = Inr db'"
  shows "same_content db db'"
proof -
  obtain result db1 where d: "rk_derive kind (ctx_new (rk_walk_budget kind) (ee_clock env) (ee_walk_deadline env)) db repo cs
      (derive_parent_outputs db (rk_id kind) repo parents) = (result, db1)" by force
  have k: "same_content db db1" using assms(1) d unfolding keeps_content_def by (metis snd_conv)
  have "same_content db1 db'"
  proof (cases result)
    case (Derived out)
    then show ?thesis using assms(2) d queue_writes_content
      by (auto simp: enqueue_eager_def Let_def split_beta derive_state_insert_done_def map_err_def same_content_def split: if_splits)
  next
    case (Failed failure)
    then show ?thesis using assms(2) d queue_writes_content
      by (cases failure) (auto simp: enqueue_eager_def Let_def split_beta derive_report_def same_content_def split: if_splits)
  qed (use assms(2) d in \<open>simp add: enqueue_eager_def Let_def split_beta\<close>)
  then show ?thesis using same_content_trans [OF k] by simp
qed

lemma enqueue_changeset_content:
  "\<forall>kind \<in> set kinds. keeps_content kind \<Longrightarrow> enqueue_changeset kinds repo cs parents env db = Inr db' \<Longrightarrow> same_content db db'"
proof (induction kinds arbitrary: db)
  case (Cons kind kinds)
  obtain db1 where one: "(if rk_eager kind then enqueue_eager kind repo cs parents env db
      else Inr (derive_enqueue_pending (rk_id kind) repo cs db)) = Inr db1"
    and rest: "enqueue_changeset kinds repo cs parents env db1 = Inr db'" using Cons.prems(2) by (auto simp: rbind_eq_Inr)
  have "same_content db db1"
    using one enqueue_eager_content Cons.prems(1) queue_writes_content by (auto split: if_splits)
  then show ?case using Cons.IH [OF _ rest] Cons.prems(1) same_content_trans by auto
qed (simp add: same_content_def)

section \<open>The commit\<close>

text \<open>At the commit the trees are filed under their hashes, the hash does not collide on them and on the new ones, and
  the parent's tree is well formed.\<close>

definition commit_lawful :: "'s blob_env \<Rightarrow> persist_args \<Rightarrow> repo_db \<Rightarrow> bool" where
  "commit_lawful be a db \<longleftrightarrow> store_ok (be_blake3 be) db \<and>
     (\<forall>node. mem_load db (pz_parent_root a) = Some (Inr node) \<longrightarrow> wf_node node \<and> typed_node node) \<and>
     (\<forall>root tot ws. new_tree be db a = Inr (root, tot, ws) \<longrightarrow>
        tree_hash_inj (be_blake3 be) (stored_canonicals db \<union> tw_canonical ` set ws))"

text \<open>The tree of the new root is the parent's tree with the changes applied, as maps from paths to files.\<close>

definition tree_applied :: "persist_args \<Rightarrow> oid \<Rightarrow> repo_db \<Rightarrow> repo_db \<Rightarrow> bool" where
  "tree_applied a root db db' \<longleftrightarrow>
     (\<exists>node node'. mem_load db (pz_parent_root a) = Some (Inr node) \<and> mem_load db' (Some root) = Some (Inr node') \<and>
        abs_apply (files_of node) (cs_changes (pz_cs a)) = Inr (files_of node'))"

lemma held_content: "same_content db db' \<Longrightarrow> write_held db w \<Longrightarrow> write_held db' w"
  by (simp add: same_content_def write_held_def)

lemma persist_load_held:
  assumes "\<And>x. wf_id (blake3 x)" and "wf_node node" and "typed_node node"
    and "mem_collect blake3 node = Inr (root, tot, ws)" and "store_ok blake3 db"
    and "tree_hash_inj blake3 (stored_canonicals db \<union> tw_canonical ` set ws)"
    and "\<And>w. write_held (trees_write repo ws db) w \<Longrightarrow> write_held db' w"
  shows "mem_load db' (Some root) = Some (Inr node)"
proof -
  have d: "derive_tree blake3 node = Inr (root, tot, ws)" using assms(4) by (simp add: mem_collect_derive)
  note ok = derive_tree_ok(1) [OF assms(1,3) d]
  have "\<forall>w \<in> set ws. write_fits db w" using store_fits [OF assms(5) _ assms(6)] ok by auto
  moreover have "writes_agree ws" using writes_ok_agree [OF ok assms(6)] by auto
  ultimately have "\<forall>w \<in> set ws. write_held db' w"
    using trees_write_held [of "[]" ws db repo] assms(7) by (simp add: trees_write_fold)
  from derive_tree_ok(2) [OF assms(1,3) d this] assms(2) show ?thesis
    by (simp add: mem_load_def load_node_stored)
qed

lemma fold_related: "R d e \<Longrightarrow> (\<And>x d e. R d e \<Longrightarrow> R (f x d) (f x e)) \<Longrightarrow> R (fold f xs d) (fold f xs e)"
  by (induction xs arbitrary: d e) simp_all

definition same_tables :: "repo_db \<Rightarrow> repo_db \<Rightarrow> bool" where
  "same_tables d e \<longleftrightarrow> db_trees d = db_trees e \<and> db_tree_entries d = db_tree_entries e"

lemma trees_write_tables: "same_tables d e \<Longrightarrow> same_tables (trees_write r ws d) (trees_write r ws e)"
proof -
  have "same_tables (put_entry_row i x d) (put_entry_row i x e)" if "same_tables d e" for i x d e
    using that by (simp add: same_tables_def put_entry_row_def)
  then have rows: "same_tables (fold (put_entry_row i) es d) (fold (put_entry_row i) es e)" if "same_tables d e" for i es d e
    using that by (rule fold_related [rotated])
  have one: "same_tables (put_repo_tree r (tw_id t) (write_tree_rows r t d)) (put_repo_tree r (tw_id t) (write_tree_rows r t e))"
    if "same_tables d e" for t d e
  proof -
    have "same_tables (write_tree_rows r t d) (write_tree_rows r t e)"
      unfolding write_tree_rows_def Let_def by (rule rows) (use that in \<open>simp add: same_tables_def\<close>)
    then show ?thesis by (simp add: same_tables_def put_repo_tree_def)
  qed
  show "same_tables d e \<Longrightarrow> ?thesis" unfolding trees_write_def by (rule fold_related) (simp_all add: one)
qed

lemma enqueued_Inr:
  "(case r of Inl _ \<Rightarrow> (Inl e, c1) | Inr db \<Rightarrow> (Inr root, f db)) = (Inr x, c') \<longleftrightarrow> (\<exists>db. r = Inr db \<and> root = x \<and> f db = c')"
  by (cases r) auto

lemma insert_rows_content:
  fixes db :: repo_db
  assumes "changeset_insert_rows print rec extras db = Inr db'"
  shows "\<exists>row. db_changesets db' = db_changesets db @ [row] \<and> cr_repo row = ci_repo rec \<and> cr_id row = ci_id rec \<and>
      cr_canonical row = ci_canonical rec \<and> cr_root_tree row = Some (ci_root_tree rec) \<and>
      cr_principal row = ci_principal rec \<and> cr_generation row = ci_generation rec"
    and "\<not> changeset_exists db (ci_id rec)"
    and "write_held (trees_write (ci_repo rec) (ci_trees rec) db) w \<Longrightarrow> write_held db' w"
proof -
  obtain row d where row: "cr_repo row = ci_repo rec \<and> cr_id row = ci_id rec \<and>
      cr_canonical row = ci_canonical rec \<and> cr_root_tree row = Some (ci_root_tree rec) \<and>
      cr_principal row = ci_principal rec \<and> cr_generation row = ci_generation rec"
    and d: "db_changesets d = db_changesets db @ [row]" "db_trees d = db_trees db" "db_tree_entries d = db_tree_entries db"
    and db': "\<exists>now who act det. db' = audit_append now who act det (trees_write (ci_repo rec) (ci_trees rec) d)"
  proof -
    from assms obtain row parents changes git where r: "cr_repo row = ci_repo rec \<and> cr_id row = ci_id rec \<and>
        cr_canonical row = ci_canonical rec \<and> cr_root_tree row = Some (ci_root_tree rec) \<and>
        cr_principal row = ci_principal rec \<and> cr_generation row = ci_generation rec"
      "db' = audit_append (ci_now rec) (ci_principal rec) (ascii ''changeset_create'') (print (create_details rec extras))
         (trees_write (ci_repo rec) (ci_trees rec)
           (db\<lparr>db_changesets := db_changesets db @ [row], db_parents := parents, db_file_changes := changes,
              db_repo_blobs := db_repo_blobs db \<union> (\<lambda>b. (ci_repo rec, b)) ` set (ci_blobs rec), db_git_map := git\<rparr>))"
      unfolding changeset_insert_rows_def Let_def by (simp add: rbind_eq_Inr split: if_splits) force
    show thesis
      by (rule that [OF r(1), of "db\<lparr>db_changesets := db_changesets db @ [row], db_parents := parents, db_file_changes := changes,
          db_repo_blobs := db_repo_blobs db \<union> (\<lambda>b. (ci_repo rec, b)) ` set (ci_blobs rec), db_git_map := git\<rparr>"])
        (simp, simp, simp, use r(2) in blast)
  qed
  have "db_changesets db' = db_changesets db @ [row]" using d(1) db' by (auto simp: audit_append_def tree_rows_land)
  then show "\<exists>row. db_changesets db' = db_changesets db @ [row] \<and> cr_repo row = ci_repo rec \<and> cr_id row = ci_id rec \<and>
      cr_canonical row = ci_canonical rec \<and> cr_root_tree row = Some (ci_root_tree rec) \<and>
      cr_principal row = ci_principal rec \<and> cr_generation row = ci_generation rec" using row by blast
  show "\<not> changeset_exists db (ci_id rec)" using assms by (auto simp: changeset_insert_rows_def split: if_splits)
  show "write_held db' w" if "write_held (trees_write (ci_repo rec) (ci_trees rec) db) w"
    using that db' trees_write_tables [of d db "ci_repo rec" "ci_trees rec"] d
    by (auto simp: write_held_def audit_append_def same_tables_def)
qed

lemma persist_write_stored:
  assumes "persist_write env be ke auth repo a s c = Inr (Inr root, c')"
    and "\<forall>kind \<in> set (ke_kinds ke). keeps_content kind"
  shows "\<exists>row. changeset_get (cx_db c') (cx_id c) (pz_id a) = Some row \<and> cr_canonical row = pz_canonical a \<and>
      cr_root_tree row = Some root \<and> cr_principal row = ap_principal auth \<and> cr_generation row = pz_generation a"
    and "cx_id c' = cx_id c" "cx_split c' = cx_split c" "persist_checks be s c (pz_id a) (pz_blobs a) = Inr ()"
    and "(\<And>x. wf_id (be_blake3 be x)) \<Longrightarrow> \<forall>ch \<in> set (cs_changes (pz_cs a)). typed_change ch \<Longrightarrow>
      commit_lawful be a (cx_db c) \<Longrightarrow> tree_applied a root (cx_db c) (cx_db c')"
proof -
  obtain tot ws db db' where new: "new_tree be (cx_db c) a = Inr (root, tot, ws)"
      and checks: "persist_checks be s c (pz_id a) (pz_blobs a) = Inr ()"
      and ins: "changeset_insert_rows (en_print env) (insert_args auth repo (cx_id c) a root ws) no_extras (cx_db c) = Inr db"
      and enq: "enqueue_changeset (ke_kinds ke) (cx_id c) (pz_id a) (cs_parents (pz_cs a))
        \<lparr>ee_now = as_i64 (cs_timestamp_ns (pz_cs a)), ee_clock = ke_clock ke (pz_id a), ee_walk_deadline = ke_walk_deadline ke\<rparr> db = Inr db'"
      and c': "c' = c\<lparr>cx_db := db'\<rparr>"
    using assms(1) by (auto simp: persist_write_def rbind_eq_Inr map_err_eq_Inr enqueued_Inr)
  note content = enqueue_changeset_content [OF assms(2) enq]
  note rows = insert_rows_content [OF ins]
  show "cx_id c' = cx_id c" "cx_split c' = cx_split c" "persist_checks be s c (pz_id a) (pz_blobs a) = Inr ()"
    using c' checks by simp_all
  obtain row where row: "db_changesets db' = db_changesets (cx_db c) @ [row]" "cr_repo row = cx_id c" "cr_id row = pz_id a"
      "cr_canonical row = pz_canonical a" "cr_root_tree row = Some root" "cr_principal row = ap_principal auth"
      "cr_generation row = pz_generation a"
    using rows(1) content by (auto simp: insert_args_def same_content_def Let_def)
  have "find (is_changeset (cx_id c) (pz_id a)) (db_changesets (cx_db c)) = None"
    using rows(2) by (auto simp: find_None_iff changeset_exists_def list_ex_iff is_changeset_def insert_args_def Let_def)
  moreover have "find P xs = None \<Longrightarrow> find P (xs @ ys) = find P ys" for P :: "changeset_row \<Rightarrow> bool" and xs ys
    by (induction xs) (auto split: if_splits)
  ultimately have "changeset_get (cx_db c') (cx_id c) (pz_id a) = Some row"
    using row c' by (simp add: changeset_get_def is_changeset_def)
  then show "\<exists>row. changeset_get (cx_db c') (cx_id c) (pz_id a) = Some row \<and> cr_canonical row = pz_canonical a \<and>
      cr_root_tree row = Some root \<and> cr_principal row = ap_principal auth \<and> cr_generation row = pz_generation a"
    using row by blast
  show "tree_applied a root (cx_db c) (cx_db c')"
    if wf: "\<And>x. wf_id (be_blake3 be x)" and typed: "\<forall>ch \<in> set (cs_changes (pz_cs a)). typed_change ch"
      and lawful: "commit_lawful be a (cx_db c)"
  proof -
    obtain node node' where n: "mem_load (cx_db c) (pz_parent_root a) = Some (Inr node)"
        "apply_changes node (cs_changes (pz_cs a)) = Inr node'" "mem_collect (be_blake3 be) node' = Inr (root, tot, ws)"
      using new by (auto simp: new_tree_def rbind_eq_Inr map_err_eq_Inr in_time_def split: option.splits)
    have ok: "wf_node node" "typed_node node" "store_ok (be_blake3 be) (cx_db c)"
        "tree_hash_inj (be_blake3 be) (stored_canonicals (cx_db c) \<union> tw_canonical ` set ws)"
      using lawful n(1) new by (auto simp: commit_lawful_def)
    have "mem_load db' (Some root) = Some (Inr node')"
    proof (rule persist_load_held [OF wf _ _ n(3) ok(3,4)])
      show "wf_node node'" "typed_node node'"
        using apply_changes_wf [OF ok(1) n(2)] apply_changes_typed [OF ok(2) typed n(2)] .
      show "write_held db' w" if "write_held (trees_write (cx_id c) ws (cx_db c)) w" for w
        using held_content [OF content] rows(3) that by (simp add: insert_args_def Let_def)
    qed
    moreover have "abs_apply (files_of node) (cs_changes (pz_cs a)) = Inr (files_of node')"
      using abs_result_changes [OF ok(1), of "cs_changes (pz_cs a)"] n(2) by simp
    ultimately show ?thesis using n(1) c' by (auto simp: tree_applied_def)
  qed
qed

section \<open>The route\<close>

text \<open>The changeset that a request describes.\<close>

definition describes :: "create_body \<Rightarrow> changeset \<Rightarrow> bool" where
  "describes body cs \<longleftrightarrow> map to_hex (cs_parents cs) = cb_parents body \<and> cs_author cs = cb_author body \<and>
     cs_message cs = cb_message body \<and> (\<forall>t. cb_timestamp body = Some t \<longrightarrow> cs_timestamp_ns cs = t) \<and> cs_conflicts cs = [] \<and>
     list_all2 (\<lambda>b c. fc_path c = cy_path b \<and> fc_op c = cy_op b \<and> map_option to_hex (fc_blob c) = cy_blob b \<and>
        fc_size c = cy_size b \<and> fc_exec c = cy_exec b) (cb_changes body) (cs_changes cs)"

lemma parse_change_Inr:
  assumes "parse_change env b = Inr c"
  shows "fc_path c = cy_path b \<and> fc_op c = cy_op b \<and> map_option to_hex (fc_blob c) = cy_blob b \<and> fc_size c = cy_size b \<and>
    fc_exec c = cy_exec b"
    and "fc_blob c = Some i \<Longrightarrow> wf_id i \<and> fc_op c \<in> {Add, Mod}"
  using assms from_hex_Some op.exhaust [of "cy_op b"]
  by (auto simp: parse_change_def rbind_eq_Inr parse_id_def ok_or_eq_Inr split: if_splits option.splits)

text \<open>The parents as an access of the request found them: the tree that the delta applies to is the first parent's.\<close>

definition parents_read :: "persist_args \<Rightarrow> cx \<Rightarrow> bool" where
  "parents_read a c \<longleftrightarrow>
     (\<exists>gs. map (changeset_graph (cx_db c) (cx_id c)) (cs_parents (pz_cs a)) = map Some gs \<and>
        (case gs of
           [] \<Rightarrow> pz_parent_root a = None \<and> pz_generation a = 0
         | g # gs' \<Rightarrow> gs' = [] \<and> pz_parent_root a = cg_root_tree g \<and> pz_generation a = i64_add (cg_generation g) 1))"

lemma added_blobs_set: "set (added_blobs cs bs) = set bs \<union> {b. \<exists>c \<in> set cs. fc_blob c = Some b \<and> fc_op c \<in> {Add, Mod}}"
  by (induction cs arbitrary: bs) (auto split: option.splits)

lemma parents_readI:
  assumes "parent_metas ps (map (changeset_graph db r) ps) = Inr metas" "length ps \<le> 1"
    and "first_root metas = Inr root"
  shows "\<exists>gs. map (changeset_graph db r) ps = map Some gs \<and>
    (case gs of [] \<Rightarrow> root = None \<and> next_generation metas = 0
     | g # gs' \<Rightarrow> gs' = [] \<and> root = cg_root_tree g \<and> next_generation metas = i64_add (cg_generation g) 1)"
proof (cases ps)
  case Nil
  then show ?thesis using assms by (auto simp: parent_metas_def first_root_def next_generation_def map_filter_simps)
next
  case (Cons p qs)
  then have p: "ps = [p]" using assms(2) by simp
  obtain g where g: "changeset_graph db r p = Some g"
    using assms(1) p by (cases "changeset_graph db r p") (auto simp: parent_metas_def)
  then have "metas = [(cg_generation g, cg_root_tree g)]" using assms(1) p by (simp add: parent_metas_def map_filter_simps)
  then show ?thesis
    using assms(3) p g
    by (auto simp: first_root_def next_generation_def rbind_eq_Inr expect32_def intro!: exI [of _ "[g]"] split: option.splits if_splits)
qed

lemma persist_checks_blobs:
  assumes "persist_checks be s c i blobs = Inr ()"
  shows "\<not> redaction_active (cx_db c) (cx_id c) i"
    and "b \<in> set blobs \<Longrightarrow> \<not> redaction_active (cx_db c) (cx_id c) b \<and> object_row_exists (cat_of c) b"
proof -
  have grows: "set missing \<subseteq> set (add_absent ps missing)" for ps missing
    by (induction ps missing rule: add_absent.induct) auto
  obtain has where "add_absent (zip blobs has) (objects_missing (cat_of c) blobs) = []"
    "redactions_active_among (cx_db c) (cx_id c) blobs = []" "\<not> redaction_active (cx_db c) (cx_id c) i"
    using assms by (auto simp: persist_checks_def rbind_eq_Inr Let_def split: if_splits)
  then have "objects_missing (cat_of c) blobs = []" "redactions_active_among (cx_db c) (cx_id c) blobs = []"
    using grows [of "objects_missing (cat_of c) blobs" "zip blobs has"] by auto
  then show "b \<in> set blobs \<Longrightarrow> \<not> redaction_active (cx_db c) (cx_id c) b \<and> object_row_exists (cat_of c) b"
    by (auto simp: objects_missing_def redactions_active_among_def filter_empty_conv)
  show "\<not> redaction_active (cx_db c) (cx_id c) i" by fact
qed

lemma create_route_ran:
  assumes "create_route env be ke auth repo body (w, s) = (Inr out, w', s')"
  obtains a root w0 w1 w2 ps graphs metas changes now r where
    "later env w w0" "check_create_scope (ap_scope auth) (cb_changes body) = Inr ()" "length (cb_parents body) \<le> 1"
    "rmap parse_id (cb_parents body) = Inr ps"
    "sv_read_repo env repo (\<lambda>c. Inr (map (changeset_graph (cx_db c) (cx_id c)) ps)) w0 = (Inr graphs, w1)"
    "parent_metas ps graphs = Inr metas" "rmap (parse_change env) (cb_changes body) = Inr changes"
    "canonical_of env ke (pz_cs a) = Inr (pz_canonical a)" "first_root metas = Inr (pz_parent_root a)"
    "pz_cs a = \<lparr>cs_repo_id = as_u64 r, cs_parents = ps, cs_author = cb_author body, cs_message = cb_message body,
       cs_timestamp_ns = (case cb_timestamp body of None \<Rightarrow> now | Some t \<Rightarrow> t), cs_changes = changes, cs_conflicts = []\<rparr>"
    "pz_id a = object_id (be_blake3 be) Kind_Changeset (pz_canonical a)" "pz_generation a = next_generation metas"
    "pz_blobs a = added_blobs changes []"
    "sv_write_repo env repo (persist_write env be ke auth repo a s') w2 = (Inr (Inr root), w')"
    "cc_id out = to_hex (pz_id a)" "cc_root out = to_hex root" "cc_generation out = as_u64 (pz_generation a)"
proof -
  from assms obtain x0 where gate: "on_server (repo_write_gate env auth repo) (w, s) = (Inr (), x0)"
      and inner: "create_inner env be ke auth repo body x0 = (Inr out, w', s')" by (auto simp: create_route_def bbind_Inr)
  have before: "later env w (fst x0)"
    using write_gate_later [of env w auth repo] gate by (auto simp: on_server_Inr)
  from inner obtain ps graphs x1 metas changes r x2 now x3 where
      a: "check_create_scope (ap_scope auth) (cb_changes body) = Inr ()" "length (cb_parents body) \<le> 1"
        "rmap parse_id (cb_parents body) = Inr ps"
        "on_server (sv_read_repo env repo (\<lambda>c. Inr (map (changeset_graph (cx_db c) (cx_id c)) ps))) x0 = (Inr graphs, x1)"
        "parent_metas ps graphs = Inr metas" "rmap (parse_change env) (cb_changes body) = Inr changes"
      and b: "(let timestamp = (case cb_timestamp body of None \<Rightarrow> now | Some t \<Rightarrow> t);
           cs = \<lparr>cs_repo_id = as_u64 r, cs_parents = ps, cs_author = cb_author body, cs_message = cb_message body,
                 cs_timestamp_ns = timestamp, cs_changes = changes, cs_conflicts = []\<rparr> in
     bbind (blift (canonical_of env ke cs)) (\<lambda>canonical.
     bbind (blift (first_root metas)) (\<lambda>parent_root.
       let a = \<lparr>pz_cs = cs, pz_id = object_id (be_blake3 be) Kind_Changeset canonical, pz_canonical = canonical,
                pz_generation = next_generation metas, pz_parent_root = parent_root, pz_blobs = added_blobs changes []\<rparr> in
     bbind (write_asking env be repo (persist_write env be ke auth repo a)) (\<lambda>root.
     bbind (blift root) (\<lambda>root.
       bret \<lparr>cc_id = to_hex (pz_id a), cc_root = to_hex root, cc_generation = as_u64 (pz_generation a)\<rparr>))))) x3 = (Inr out, w', s')"
    unfolding create_inner_def bbind_Inr [of "blift _"] blift_Inr bbind_Inr [of "on_server _"] by (fastforce split: if_splits)
  define cs where "cs = \<lparr>cs_repo_id = as_u64 r, cs_parents = ps, cs_author = cb_author body, cs_message = cb_message body,
    cs_timestamp_ns = (case cb_timestamp body of None \<Rightarrow> now | Some t \<Rightarrow> t), cs_changes = changes, cs_conflicts = []\<rparr>"
  from b obtain canonical pr where c: "canonical_of env ke cs = Inr canonical" "first_root metas = Inr pr"
      and d: "(let a = \<lparr>pz_cs = cs, pz_id = object_id (be_blake3 be) Kind_Changeset canonical, pz_canonical = canonical,
                pz_generation = next_generation metas, pz_parent_root = pr, pz_blobs = added_blobs changes []\<rparr> in
     bbind (write_asking env be repo (persist_write env be ke auth repo a)) (\<lambda>root.
     bbind (blift root) (\<lambda>root.
       bret \<lparr>cc_id = to_hex (pz_id a), cc_root = to_hex root, cc_generation = as_u64 (pz_generation a)\<rparr>))) x3 = (Inr out, w', s')"
    unfolding Let_def cs_def [symmetric] bbind_Inr [of "blift _"] blift_Inr by auto
  define a where "a = \<lparr>pz_cs = cs, pz_id = object_id (be_blake3 be) Kind_Changeset canonical, pz_canonical = canonical,
    pz_generation = next_generation metas, pz_parent_root = pr, pz_blobs = added_blobs changes []\<rparr>"
  from d obtain answer root x4 where e: "write_asking env be repo (persist_write env be ke auth repo a) x3 = (Inr answer, x4)"
      "answer = Inr root" "x4 = (w', s')"
      "out = \<lparr>cc_id = to_hex (pz_id a), cc_root = to_hex root, cc_generation = as_u64 (pz_generation a)\<rparr>"
    unfolding Let_def a_def [symmetric] bbind_Inr blift_Inr bret_Inr by auto
  have fields: "pz_cs a = cs" "pz_canonical a = canonical" "pz_parent_root a = pr" "pz_generation a = next_generation metas"
      "pz_blobs a = added_blobs changes []" "pz_id a = object_id (be_blake3 be) Kind_Changeset (pz_canonical a)"
    by (simp_all add: a_def)
  have asked: "sv_write_repo env repo (persist_write env be ke auth repo a s') (fst x3) = (Inr (Inr root), w')"
    using conjunct2 [OF e(1) [unfolded write_asking_Inr]] e(2,3) by simp
  have read: "sv_read_repo env repo (\<lambda>c. Inr (map (changeset_graph (cx_db c) (cx_id c)) ps)) (fst x0) = (Inr graphs, fst x1)"
    using a(4) by (simp add: on_server_Inr)
  show thesis
    by (rule that [OF before a(1,2,3) read a(5,6) _ _ _ fields(6,4,5) asked]) (use c e(4) fields in \<open>simp_all add: cs_def\<close>)
qed


section \<open>Witness\<close>

definition make_cat :: repo_db where
  "make_cat = empty_repo_db\<lparr>db_repos := [(1, \<lparr>rr_name = [114], rr_created = 6\<rparr>)],
     db_objects := [(replicate 32 1, \<lparr>ob_size = 3, ob_csize = 3, ob_touched = 0\<rparr>)]\<rparr>"

definition make_blobs :: "unit blob_env" where
  "make_blobs = \<lparr>be_has = (\<lambda>_ ids. Inr (map (\<lambda>_. True) ids)), be_get = (\<lambda>_ _. Inl Store_Failed), be_put = (\<lambda>s _. (Inl Store_Failed, s)),
     be_others = (\<lambda>_ s. s), be_blake3 = (\<lambda>_. replicate 32 7), be_b64 = (\<lambda>x. x), be_unb64 = Some\<rparr>"

definition make_env :: create_env where
  "make_env = \<lparr>ke_nfc = (\<lambda>x. x), ke_lower = (\<lambda>x. x), ke_kinds = [], ke_clock = (\<lambda>_. 0), ke_walk_deadline = 0\<rparr>"

definition maker :: authed where
  "maker = \<lparr>ap_principal = [120], ap_role = Admin, ap_scope = Some (ascii ''a'')\<rparr>"

definition make_body :: create_body where
  "make_body = \<lparr>cb_parents = [], cb_author = [97], cb_message = [], cb_timestamp = Some 5,
     cb_changes = [\<lparr>cy_path = ascii ''a'', cy_op = Add, cy_blob = Some (to_hex (replicate 32 1)), cy_size = Some 3, cy_exec = Some False\<rparr>]\<rparr>"

definition make_cs :: changeset where
  "make_cs = \<lparr>cs_repo_id = 1, cs_parents = [], cs_author = [97], cs_message = [], cs_timestamp_ns = 5,
     cs_changes = [\<lparr>fc_path = ascii ''a'', fc_op = Add, fc_blob = Some (replicate 32 1), fc_size = Some 3, fc_exec = Some False\<rparr>],
     cs_conflicts = []\<rparr>"

lemma make_encodes: "\<exists>b. changeset_encode (\<lambda>x. x) make_cs = Inr b"
  by (simp add: changeset_eval make_cs_def conflict_validate_def)

lemma make_canonical:
  assumes "changeset_encode (\<lambda>x. x) make_cs = Inr b"
  shows "canonical_of env make_env make_cs = Inr b"
proof -
  have "changeset_validate (\<lambda>x. x) (\<lambda>x. x) make_cs = Inr ()"
    by (simp add: changeset_validate_def changeset_eval make_cs_def conflict_validate_def check_case_fold_duplicates_def fold_key_def
        rsplit_once_def check_text_def)
  moreover have "check_duplicates env (cs_changes make_cs) = Inr ()" by (simp add: check_duplicates_def make_cs_def)
  moreover have "successively (<) (map fc_path (cs_changes make_cs))" by (simp add: make_cs_def)
  ultimately show ?thesis using assms by (simp add: canonical_of_def make_env_def)
qed

definition make_args :: "bytes \<Rightarrow> persist_args" where
  "make_args b = \<lparr>pz_cs = make_cs, pz_id = replicate 32 7, pz_canonical = b, pz_generation = 0, pz_parent_root = None,
     pz_blobs = [replicate 32 1]\<rparr>"

lemma make_tree: "\<exists>tot ws. new_tree make_blobs db (make_args b) = Inr (replicate 32 7, tot, ws)"
proof -
  have "split_leaf (ascii ''a'') = ([], ascii ''a'')" "length (split_on slash (ascii ''a'')) = 1"
    by (simp_all add: split_leaf_def Let_def ascii_def)
  then have "apply_changes mem_empty (cs_changes make_cs) = Inr [(ascii ''a'', MFile (replicate 32 1) 3 False)]"
    by (simp add: make_cs_def apply_change_def insert_file_def mem_empty_def MAX_PATH_COMPONENTS_def)
  moreover have "\<exists>tot ws. mem_collect (\<lambda>_. replicate 32 7) [(ascii ''a'', MFile (replicate 32 1) 3 False)] = Inr (replicate 32 7, tot, ws)"
    by (simp add: collect_eval)
  ultimately show ?thesis by (auto simp: new_tree_def make_args_def make_blobs_def mem_load_def in_time_def)
qed

lemma make_write:
  "\<exists>c'. persist_write quiet_env make_blobs make_env maker [114] (make_args b) () \<lparr>cx_id = 1, cx_split = False, cx_cat = make_cat, cx_db = make_cat\<rparr> =
     Inr (Inr (replicate 32 7), c')"
proof -
  let ?c = "\<lparr>cx_id = 1, cx_split = False, cx_cat = make_cat, cx_db = make_cat\<rparr>"
  obtain tot ws where t: "new_tree make_blobs make_cat (make_args b) = Inr (replicate 32 7, tot, ws)" using make_tree by blast
  have checks: "persist_checks make_blobs () ?c (replicate 32 7) [replicate 32 1] = Inr ()"
    by (simp add: persist_checks_def redactions_active_among_def redaction_active_def make_cat_def empty_repo_db_def make_blobs_def
        objects_missing_def object_row_exists_def cat_of_def)
  have "\<exists>db. changeset_insert_rows (en_print quiet_env) (insert_args maker [114] 1 (make_args b) (replicate 32 7) ws) no_extras make_cat = Inr db"
    by (simp add: changeset_insert_rows_def insert_args_def make_args_def make_cs_def make_cat_def empty_repo_db_def changeset_exists_def
        no_extras_def put_git_map_def insert_unique_def Let_def)
  moreover have "pz_id (make_args b) = replicate 32 7" "pz_blobs (make_args b) = [replicate 32 1]" "ke_kinds make_env = []"
    by (simp_all add: make_args_def make_env_def)
  ultimately show ?thesis using t checks by (auto simp: persist_write_def)
qed

lemma make_route:
  assumes "changeset_encode (\<lambda>x. x) make_cs = Inr b"
  shows "\<exists>w'. create_route quiet_env make_blobs make_env maker [114] make_body (sample_server make_cat, ()) =
    (Inr \<lparr>cc_id = to_hex (replicate 32 7), cc_root = to_hex (replicate 32 7), cc_generation = 0\<rparr>, w', ())"
proof -
  have stay: "arrive_req quiet_env w = w\<lparr>sv_tick := sv_tick w + 1\<rparr>" for w by (simp add: arrive_req_def quiet_env_def)
  have repo: "repo_id_by_name make_cat [114] = Some 1" by (simp add: repo_id_by_name_def make_cat_def)
  define w where "w = (\<lambda>n. (sample_server make_cat)\<lparr>sv_tick := n\<rparr>)"
  have w: "sv_cat (w n) = make_cat" "arrive_req quiet_env (w n) = w (n + 1)" "sample_server make_cat = w 0"
    "cx_at (w n) 1 = Some \<lparr>cx_id = 1, cx_split = False, cx_cat = make_cat, cx_db = make_cat\<rparr>" "sv_tick (w n) = n" for n
    by (simp_all add: w_def stay sample_server_def cx_at_def)
  have id: "repo_id_or_404 quiet_env [114] (w n) = (Inr 1, w (n + 1))" for n
    by (simp add: repo_id_or_404_def runs sv_read_def w repo)
  have gate: "on_server (repo_write_gate quiet_env maker [114]) (w 0, ()) = (Inr (), w (Suc 0), ())"
    by (rule on_server_run) (simp add: repo_write_gate_def maker_def id runs)
  have read: "on_server (sv_read_repo quiet_env [114] (\<lambda>c. Inr [])) (w (Suc 0), ()) = (Inr [], w 3, ())"
    by (rule on_server_run) (simp add: sv_read_repo_def resolve_repo_def req_bind_def sv_read_def w repo numeral_3_eq_3)
  have id3: "on_server (repo_id_or_404 quiet_env [114]) (w 3, ()) = (Inr 1, w 4, ())" by (rule on_server_run) (simp add: id)
  have clock: "on_server (now_ns quiet_env) (w 4, ()) = (Inr 1000, w 4, ())" by (simp add: on_server_def now_ns_def quiet_env_def)
  obtain c' where c': "persist_write quiet_env make_blobs make_env maker [114] (make_args b) ()
      \<lparr>cx_id = 1, cx_split = False, cx_cat = make_cat, cx_db = make_cat\<rparr> = Inr (Inr (replicate 32 7), c')" using make_write by blast
  have wrote: "write_asking quiet_env make_blobs [114] (persist_write quiet_env make_blobs make_env maker [114] (make_args b)) (w 4, ()) =
      (Inr (Inr (replicate 32 7)), put_cx c' (w 6), ())"
    using c' by (simp add: write_asking_def sv_write_repo_def resolve_repo_def req_bind_def sv_read_def w repo Let_def)
  have steps: "check_create_scope (ap_scope maker) (cb_changes make_body) = Inr ()" "\<not> Suc 0 < length (cb_parents make_body)"
    "rmap parse_id (cb_parents make_body) = Inr []" "parent_metas [] [] = Inr []" "first_root [] = Inr None"
    "rmap (parse_change quiet_env) (cb_changes make_body) = Inr (cs_changes make_cs)" "next_generation [] = 0"
    "added_blobs (cs_changes make_cs) [] = [replicate 32 1]"
    "object_id (be_blake3 make_blobs) Kind_Changeset b = replicate 32 7"
    by (simp_all add: check_create_scope_def maker_def make_body_def scope_allows_def parent_metas_def first_root_def next_generation_def
        parse_change_def parse_id_def from_hex_to_hex wf_id_def ok_or_def make_cs_def object_id_def object_id_in_def make_blobs_def map_filter_simps)
  have cs: "\<lparr>cs_repo_id = as_u64 1, cs_parents = [], cs_author = cb_author make_body, cs_message = cb_message make_body,
      cs_timestamp_ns = (case cb_timestamp make_body of None \<Rightarrow> now | Some t \<Rightarrow> t), cs_changes = cs_changes make_cs, cs_conflicts = []\<rparr> = make_cs" for now
    by (simp add: make_body_def make_cs_def as_u64_def)
  have inner: "create_inner quiet_env make_blobs make_env maker [114] make_body (w (Suc 0), ()) =
      (Inr \<lparr>cc_id = to_hex (replicate 32 7), cc_root = to_hex (replicate 32 7), cc_generation = 0\<rparr>, put_cx c' (w 6), ())"
    by (simp add: create_inner_def steps bbind_run [where m = "on_server (sv_read_repo quiet_env [114] f)" for f, OF read]
        bbind_run [where m = "on_server (repo_id_or_404 quiet_env [114])", OF id3] bbind_run [where m = "on_server (now_ns quiet_env)", OF clock]
        cs make_canonical [OF assms] make_args_def [symmetric] bbind_run [where m = "write_asking quiet_env make_blobs [114] (persist_write quiet_env make_blobs make_env maker [114] (make_args b))" and x = "(w 4, ())", OF wrote] bret_def Let_def)
      (simp add: make_args_def as_u64_def)
  show ?thesis using inner gate by (simp add: create_route_def w(3) bbind_def)
qed

lemma make_typed: "\<forall>b \<in> set (cb_changes make_body). utf8_valid (cy_path b)"
  by (simp add: make_body_def ascii_def utf8_valid_ascii_Cons)


end
