(* ===== verification/Spec2Isabelle.thy ===== *)
theory Spec2Isabelle
  imports Changeset Tree_Codec Markers Tree_Store Line_Merge Merge_Delta Queue_Progress Land_Join Land_Chain Gc_Stall Merge_Base Api_Error Access_Correct Derivers_Correct Snapshots_Correct Route_Privacy Create_Correct
begin

text \<open>
  A verification development for \<open>naatre\<close>, a server for versioned trees of files. A client uploads blobs
  and changesets; the server derives the directory trees of a changeset, stores its rows, and lands a
  chain of changesets onto \<open>main\<close> by a rebase with a three-way merge; derived data (history, blame) is
  computed for each changeset by a queue.

  \<^bold>\<open>The core crate\<close> (\<open>crates/naatre-core/src\<close>).

  \<^item> \<open>Ids\<close>: \<open>ids.rs\<close>, 32-byte content ids, their hex form and the hash domains. The hash function (BLAKE3) is
    the parameter \<open>blake3\<close>; injectivity claims assume that it has no collision on the preimages named.
  \<^item> \<open>Path_Grammar\<close>, \<open>Utf8\<close>: \<open>path.rs\<close>, the path grammar and the case-fold check; NFC normalisation and the
    lower-casing of non-ASCII text are the parameters \<open>nfc\<close> and \<open>lower\<close>.
  \<^item> \<open>Codec\<close>, \<open>Conflict\<close>, \<open>Changeset\<close>: \<open>changeset.rs\<close> and \<open>conflict.rs\<close>, the canonical encoding in both format
    versions, the strict decoder, validation and ids, and the representation and carrying of conflicts. The
    locale \<open>field_codec\<close> is the contract of one encoded field and is interpreted for every field of a frame.
  \<^item> \<open>Tree_Codec\<close>: \<open>tree.rs\<close>, directory listings. \<open>Markers\<close>: the marker files of \<open>conflict.rs\<close>.
  \<^item> \<open>Core_Error\<close>: \<open>error.rs\<close>. \<open>Ordered_Map\<close> is Rust's \<open>BTreeMap\<close>, an ordered association list with the
    contract \<open>ordered_map\<close>.

  \<^bold>\<open>Trees and merges\<close> (\<open>crates/naatre-server/src\<close>).

  \<^item> \<open>Mem_Tree\<close>, \<open>Tree_Files\<close>, \<open>Tree_Store\<close>: \<open>tree_derive.rs\<close>, the in-memory tree and its changes, its files,
    its encoding into rows and the loading of those rows, with the tree tables of \<open>db.rs\<close>.
  \<^item> \<open>Line_Merge\<close>, \<open>Tree_Merge\<close>, \<open>Merge_Correct\<close>, \<open>Merge_Delta\<close>: \<open>merge.rs\<close>, the line merge over the hunks of two
    diffs, the merge of trees in both conflict modes, its verdict on each path, and the delta between trees.
    The line tokenizer and the diff (crate \<open>similar\<close>) are fields of \<open>merge_env\<close>; \<open>env_lawful\<close> says what the
    proofs use of them: the lines of a text concatenate to it, and the operations are a script from one
    side to the other.

  \<^bold>\<open>The queue and the land\<close> (\<open>crates/naatre-server/src\<close>).

  \<^item> \<open>Repo_Db\<close>: the statements of \<open>db.rs\<close> that the queue and the land run, over the tables of one database.
  \<^item> \<open>Derive_Queue\<close>: \<open>derive.rs\<close>, the walk budget, taint, enqueueing at create time, the lease sweep, the drain
    loop, the pass and the boot backfill. \<open>Queue_Invariant\<close> proves that every statement and every turn keeps
    the queue well formed and its finished nodes (the locale \<open>queue_statement\<close> is the contract of a
    statement under the write slot); \<open>Queue_Progress\<close> proves that the drain ends and finishes the queue.
  \<^item> \<open>Authz\<close>: \<open>authz.rs\<close>, the scope matcher. \<open>Land\<close>: \<open>land.rs\<close>, the whole land transaction, on top of the merge, the
    trees, the codec and the queue. \<open>Land_Correct\<close>: what a land that succeeds or fails leaves, and that a key
    settles once. \<open>Land_Join\<close>: \<open>land_join.rs\<close> and the join path of \<open>routes/land.rs\<close>, the registry of lands in
    flight as a step relation over interleaved requests, and that a joiner answers as its own land would.

  \<^bold>\<open>The collector\<close> (\<open>crates/naatre-server/src\<close>).

  \<^item> \<open>Reach\<close>: the frontier loop and the recursive query as a total function, equal to the reflexive transitive
    closure. \<open>Gc_Db\<close>: the statements of \<open>db.rs\<close> on the mark, the \<open>gc_pending\<close> ledger, the probes of a batch,
    the deletes and the tombstones.
  \<^item> \<open>Gc\<close>, \<open>Gc_Purge\<close>: \<open>gc.rs\<close>, the whole pass (mark, ledger, changesets, condemned blobs, trees, audit row, and the
    redaction purge), on one database or a file per repository, with the coordinated batch of \<open>router.rs\<close>.
    \<open>Gc_Sample\<close> is a concrete pass, for witnesses.
  \<^item> \<open>Gc_Sound\<close>: no pass leaves a dangling reference. \<open>Gc_Mark\<close>: the mark is reachability over the primary
    tables. \<open>Gc_Grace\<close>: only old garbage is collected. \<open>Gc_Stall\<close>: where the collector makes no progress.

  \<^bold>\<open>The server's surface\<close> (\<open>crates/naatre-server/src\<close>).

  \<^item> \<open>Api_Error\<close>: \<open>api_code.rs\<close>, \<open>api_error.rs\<close> and the guards of \<open>middleware.rs\<close>.
  \<^item> \<open>Merge_Base\<close>: the two merge-base walks of \<open>routes/history.rs\<close>, the plain one and the one accelerated by skip
    entries, and the fast-forward gate of \<open>routes/refs.rs\<close>.
  \<^item> \<open>Derivers\<close>: \<open>derived.rs\<close>, the derivers of blame, path history and the commit graph. \<open>Derivers_Correct\<close>: the skip
    entries are exact, which is what the accelerated walk relies on.
  \<^item> \<open>Access_Db\<close>: the statements of \<open>db.rs\<close> on repositories, refs, principals, tokens, grants and the audit log.
  \<^item> \<open>Server\<close>: \<open>state.rs\<close> and \<open>router.rs\<close>, the accesses of a request. A request is a function of the server's
    state; before each of its accesses other requests commit what they like (\<open>en_others\<close>).
  \<^item> \<open>Ticket\<close>: \<open>ticket.rs\<close>, cache tickets and key files. \<open>Auth\<close>: \<open>auth.rs\<close> and the gates of \<open>routes/mod.rs\<close>.
    \<open>Limiter\<close>: the limiter of failed authentications bounds the audit log. \<open>Accounts\<close>: the invariant of the
    accounts under every sequence of catalog writes, and that a revoked token stays refused.
  \<^item> \<open>Access_Routes\<close>: the handlers of \<open>routes/access.rs\<close>, \<open>tokens.rs\<close>, \<open>principals.rs\<close>, \<open>repos.rs\<close>, \<open>refs.rs\<close>,
    \<open>audit.rs\<close> and \<open>whoami.rs\<close>. \<open>Access_Correct\<close>: what they promise.

  \<^bold>\<open>Conventions.\<close> A fallible function returns a sum, \<open>Inl\<close> the error; a panic is an error of its own. A struct
  is a record, an enum a datatype, \<open>u64\<close> and \<open>u32\<close> are words, \<open>i64\<close> is an integer that wraps where the code adds.
  Mutable state is passed explicitly; a transaction that fails restores the database it began with.

  \<^bold>\<open>Termination.\<close> Loops over data that the types bound are total functions. Loops that need well-formed
  tables to end (loading a tree, the two walks of a land, the drain, the batches of the backfill) are
  \<open>partial_function (option)\<close>: \<open>None\<close> is a loop that does not return, and that they return is proved where
  it holds: for the tree load on stored trees, for the drain and the backfill when nobody else writes.
  The retry counts of the code (100 for a release, 1000 for a backfill step) are kept as numbers of the
  model, not as bounds added to it.

  \<^bold>\<open>Environment of the queue.\<close> \<open>queue_env\<close> says what other writers commit between two accesses, when the write
  slot is taken and what the clock reads. \<open>others_append\<close> (others only add nodes and collect nothing) is
  what the invariants assume; \<open>alone\<close> and \<open>slot_free\<close> are the stronger assumptions of progress.

  \<^bold>\<open>Environment of the collector.\<close> \<open>gc_env\<close> says what other requests commit between two accesses of a pass,
  when a write slot is taken, what the clock reads, and what the blob store does (\<open>cas_lawful\<close> is its contract:
  a delete removes no id it was not given). The proofs assume of the other requests that they keep the
  referential invariant (\<open>others_keep\<close>), or that they only add data and no ledger row (\<open>others_only_add\<close>). The
  loops over batches are \<open>partial_function (option)\<close>, since others may add candidates forever.

  \<^bold>\<open>What modelling showed.\<close> The drain of a database that holds several repositories spins when the oldest
  eligible node belongs to another repository (\<open>drain_spins_on_foreign_node\<close>). A land that adopts a node as
  it is counts the generations of later nodes from the old \<open>main\<close> (\<open>land_moves_main\<close>: the rows are numbered
  from its generation, adopted nodes not counted). The delta of a directory that becomes a file is refused
  when applied (\<open>delta_flip_rejected\<close>). The collector and the redaction purge select a page of the oldest rows and
  only then drop what is referenced, so a page of referenced rows hides every younger one
  (\<open>gc_page_of_parents_starves\<close>, \<open>redact_blob_purge_starves\<close>), and an abandoned chain loses one changeset a pass
  (\<open>gc_collects_one_generation\<close>).
  Deleting a principal leaves its grants to whoever is given the name next (\<open>Access_Correct\<close>). The clock drift a cache
  ticket tolerates shrinks to nothing at the maximal lifetime (\<open>Ticket\<close>). In the layout with a database per
  repository, the readers of derived data look the kind up in the repository's database, where the table of kinds is
  empty.

  \<^bold>\<open>Not modelled.\<close> Input and output, the database engines and connection pools, the HTTP layer, the text of
  error messages beyond the values they print, and crash points. Of the program's own logic, not yet:
  the history reads, snapshots, redaction routes, the
  changeset and object routes, import and backup, and the command-line client. \<open>str::trim\<close> is modelled for
  ASCII white space.
\<close>

end
